(* ===== verification/Prelude.thy ===== *)
theory Prelude
  imports Main "HOL-Library.Word"
begin

unbundle bit_operations_syntax

text \<open>
  Shared vocabulary of the development: the machine types of the C and C++ sources, the
  memory primitives they use (\<open>memcpy\<close>, \<open>memmove\<close>, indexed stores), big-endian byte
  encodings, and the generic list and word lemmas the component theories rest on.
\<close>

section \<open>Machine types\<close>

type_synonym byte = "8 word"
type_synonym u16 = "16 word"
type_synonym u32 = "32 word"

text \<open>Fact collections used by the component proofs.\<close>

named_theorems mem_simps \<open>reads and writes of byte buffers\<close>
named_theorems spec_defs \<open>definitions of small specification functions\<close>

text \<open>
  How a call ends: with a value, with a C++ exception (its \<open>what()\<close> string), undefined (it
  dereferences a NULL pointer or accesses memory outside of an object), or not at all.
\<close>

datatype 'a outcome = Ret 'a | Throws string | Crashes | Hangs

text \<open>
  What a computation on C \<open>int\<close>s of 32 bits leaves of its exact result: the value modulo 2^32,
  read as two's complement. In the range of an \<open>int\<close> that is the result itself; outside of it
  the C standard leaves the value open, and the wrapped one is what the machine computes.
\<close>

definition wrap32 :: "int \<Rightarrow> int" where
  "wrap32 x = sint (word_of_int x :: u32)"

lemma wrap32_eq: "wrap32 x = signed_take_bit 31 x"
  by (simp add: wrap32_def signed_of_int)

lemma wrap32_id [simp]: "- (2 ^ 31) \<le> x \<Longrightarrow> x < 2 ^ 31 \<Longrightarrow> wrap32 x = x"
  by (simp add: wrap32_eq signed_take_bit_int_eq_self)

lemma wrap32_le: "0 \<le> x \<Longrightarrow> wrap32 x \<le> x"
proof -
  assume "0 \<le> x"
  then have "take_bit 32 x \<le> x" by (simp add: take_bit_eq_mod zmod_le_nonneg_dividend)
  then show "wrap32 x \<le> x" by (simp add: wrap32_eq signed_take_bit_eq_take_bit_minus)
qed

section \<open>Memory primitives\<close>

text \<open>
  \<open>memmove b dst src n\<close> is the buffer \<open>b\<close> after \<open>n\<close> bytes at \<open>src\<close> were copied to \<open>dst\<close>;
  the regions may overlap. It is faithful where both regions lie inside the buffer, which
  the lemmas about its callers establish.
\<close>

definition memmove :: "'a list \<Rightarrow> nat \<Rightarrow> nat \<Rightarrow> nat \<Rightarrow> 'a list" where
  "memmove b dst src n = take dst b @ take n (drop src b) @ drop (dst + n) b"

lemma length_memmove [simp]:
  "src + n \<le> length b \<Longrightarrow> dst + n \<le> length b \<Longrightarrow> length (memmove b dst src n) = length b"
  by (simp add: memmove_def)

lemma take_memmove [mem_simps]:
  "src + n \<le> length b \<Longrightarrow> dst + n \<le> length b \<Longrightarrow>
   take (dst + n) (memmove b dst src n) = take dst b @ take n (drop src b)"
  by (simp add: memmove_def)

lemma drop_memmove [mem_simps]:
  "src + n \<le> length b \<Longrightarrow> dst + n \<le> length b \<Longrightarrow> dst + n \<le> k \<Longrightarrow>
   drop k (memmove b dst src n) = drop k b"
  by (simp add: memmove_def min_absorb2 min_absorb1)

text \<open>The content of a buffer after the first \<open>length d\<close> bytes were overwritten with \<open>d\<close>.\<close>

definition overlay :: "'a list \<Rightarrow> 'a list \<Rightarrow> 'a list" where
  "overlay d b = d @ drop (length d) b"

lemma length_overlay [simp]: "length d \<le> length b \<Longrightarrow> length (overlay d b) = length b"
  by (simp add: overlay_def)

lemma take_overlay [mem_simps]: "k \<le> length d \<Longrightarrow> take k (overlay d b) = take k d"
  by (simp add: overlay_def)

section \<open>Splitting a list into blocks\<close>

text \<open>\<open>chunks n xs\<close> cuts \<open>xs\<close> into blocks of \<open>n\<close> elements, the last one possibly shorter.\<close>

function chunks :: "nat \<Rightarrow> 'a list \<Rightarrow> 'a list list" where
  "chunks n xs = (if n = 0 \<or> xs = [] then [] else take n xs # chunks n (drop n xs))"
  by pat_completeness auto
termination by (relation "measure (\<lambda>(n, xs). length xs)") auto

declare chunks.simps [simp del]

lemma chunks_Nil [simp]: "chunks n [] = []"
  by (simp add: chunks.simps)

lemma chunks_step: "0 < n \<Longrightarrow> xs \<noteq> [] \<Longrightarrow> chunks n xs = take n xs # chunks n (drop n xs)"
  by (simp add: chunks.simps [of n xs])

lemma chunks_short: "0 < n \<Longrightarrow> xs \<noteq> [] \<Longrightarrow> length xs \<le> n \<Longrightarrow> chunks n xs = [xs]"
  by (simp add: chunks_step)

lemma concat_chunks [simp]: "0 < n \<Longrightarrow> concat (chunks n xs) = xs"
proof (induction n xs rule: chunks.induct)
  case (1 n xs)
  then show ?case by (cases "xs = []") (simp_all add: chunks_step)
qed

lemma chunks_bound: "c \<in> set (chunks n xs) \<Longrightarrow> 0 < length c \<and> length c \<le> n"
proof (induction n xs rule: chunks.induct)
  case (1 n xs)
  then show ?case
    by (cases "n = 0 \<or> xs = []") (auto simp: chunks.simps [of n xs] split: if_splits)
qed

lemma chunks_append:
  assumes "0 < n" and "length xs = n * k"
  shows "chunks n (xs @ ys) = chunks n xs @ chunks n ys"
  using assms(2)
proof (induction k arbitrary: xs)
  case 0
  then show ?case by simp
next
  case (Suc k)
  then have ne: "xs \<noteq> []" and le: "n \<le> length xs" and len: "length (drop n xs) = n * k"
    using assms(1) by auto
  have "chunks n (xs @ ys) = take n xs # chunks n (drop n xs @ ys)"
    using ne le assms(1) by (simp add: chunks_step)
  also have "\<dots> = take n xs # chunks n (drop n xs) @ chunks n ys"
    by (simp add: Suc.IH [OF len])
  finally show ?case using ne assms(1) by (simp add: chunks_step [of n xs])
qed

lemma chunks_blocks:
  assumes "0 < n" and "length xs = n * k"
  shows "chunks n xs = map (\<lambda>j. take n (drop (n * j) xs)) [0..<k]"
  using assms(2)
proof (induction k arbitrary: xs)
  case 0
  then show ?case by simp
next
  case (Suc k)
  then have ne: "xs \<noteq> []" and len: "length (drop n xs) = n * k"
    using assms(1) by auto
  have "chunks n xs = take n xs # map (\<lambda>j. take n (drop (n * j) (drop n xs))) [0..<k]"
    using ne assms(1) Suc.IH [OF len] by (simp add: chunks_step)
  then show ?case
    by (simp add: upt_conv_Cons map_Suc_upt [symmetric] comp_def add.commute del: upt_Suc)
qed

section \<open>Big-endian words\<close>

lemma bit_byte_beyond [simp]: "8 \<le> n \<Longrightarrow> \<not> bit (b :: byte) n"
  using bit_imp_le_length [of b n] by auto

lemma bit_u16_beyond [simp]: "16 \<le> n \<Longrightarrow> \<not> bit (v :: u16) n"
  using bit_imp_le_length [of v n] by auto

definition be16 :: "u16 \<Rightarrow> byte list" where
  "be16 v = [ucast (drop_bit 8 v), ucast v]"

definition from_be16 :: "byte \<Rightarrow> byte \<Rightarrow> u16" where
  "from_be16 a b = push_bit 8 (ucast a) OR ucast b"

lemma length_be16 [simp]: "length (be16 v) = 2"
  by (simp add: be16_def)

lemma from_be16_be16 [simp]: "from_be16 (ucast (drop_bit 8 v)) (ucast v) = v"
  unfolding from_be16_def
  by (rule bit_word_eqI) (auto simp: bit_simps not_le)

lemma be16_from_be16 [simp]: "be16 (from_be16 a b) = [a, b]"
  unfolding from_be16_def be16_def
  by (auto intro!: bit_word_eqI simp: bit_simps)

lemma be16_inject [simp]: "be16 v = be16 w \<longleftrightarrow> v = w"
proof
  assume "be16 v = be16 w"
  then have "from_be16 (hd (be16 v)) (hd (tl (be16 v))) = from_be16 (hd (be16 w)) (hd (tl (be16 w)))"
    by simp
  then show "v = w" by (simp add: be16_def)
qed simp

end
