(* ===== verification/Ftdi_Types.thy ===== *)
theory Ftdi_Types
  imports Prelude
begin

unbundle bit_operations_syntax

text \<open>
  The data of libftdi (\<open>src/libftdi/ftdi.h\<close>, \<open>src/libftdi/ftdi_i.h\<close>): its enumerations and
  request codes, the structures \<open>ftdi_context\<close> and \<open>ftdi_eeprom\<close>, and the libusb functions
  the library calls. libusb is not part of this repository: it is the parameter
  \<open>L :: 'w libusb\<close> of every definition that calls it, a record with one field per libusb
  function over an arbitrary type \<open>'w\<close> of the bus and the attached devices.
\<close>

section \<open>Enumerations and codes of ftdi.h\<close>

datatype ftdi_chip_type =
  TYPE_AM | TYPE_BM | TYPE_2232C | TYPE_R | TYPE_2232H | TYPE_4232H | TYPE_232H | TYPE_230X

text \<open>The enumerators are numbered from 0; the code compares them with \<open><\<close>.\<close>

fun chip_code :: "ftdi_chip_type \<Rightarrow> nat" where
  "chip_code TYPE_AM = 0"
| "chip_code TYPE_BM = 1"
| "chip_code TYPE_2232C = 2"
| "chip_code TYPE_R = 3"
| "chip_code TYPE_2232H = 4"
| "chip_code TYPE_4232H = 5"
| "chip_code TYPE_232H = 6"
| "chip_code TYPE_230X = 7"

lemma chip_code_inject: "chip_code a = chip_code b \<Longrightarrow> a = b"
  by (cases a; cases b) simp_all

instantiation ftdi_chip_type :: linorder
begin

definition less_eq_ftdi_chip_type :: "ftdi_chip_type \<Rightarrow> ftdi_chip_type \<Rightarrow> bool" where
  "less_eq_ftdi_chip_type a b = (chip_code a \<le> chip_code b)"

definition less_ftdi_chip_type :: "ftdi_chip_type \<Rightarrow> ftdi_chip_type \<Rightarrow> bool" where
  "less_ftdi_chip_type a b = (chip_code a < chip_code b)"

instance
  by standard (auto simp: less_eq_ftdi_chip_type_def less_ftdi_chip_type_def
      intro: chip_code_inject)

end

lemmas chip_order_defs = less_eq_ftdi_chip_type_def less_ftdi_chip_type_def

datatype ftdi_parity_type = NONE | ODD | EVEN | MARK | SPACE

datatype ftdi_stopbits_type = STOP_BIT_1 | STOP_BIT_15 | STOP_BIT_2

datatype ftdi_bits_type = BITS_7 | BITS_8

datatype ftdi_break_type = BREAK_OFF | BREAK_ON

datatype ftdi_module_detach_mode = AUTO_DETACH_SIO_MODULE | DONT_DETACH_SIO_MODULE

fun bits_code :: "ftdi_bits_type \<Rightarrow> u16" where
  "bits_code BITS_7 = 7"
| "bits_code BITS_8 = 8"

text \<open>An \<open>enum ftdi_interface\<close> argument is a C \<open>int\<close>; values beyond the enumerators are possible.\<close>

abbreviation (input) INTERFACE_ANY :: int where "INTERFACE_ANY \<equiv> 0"
abbreviation (input) INTERFACE_A :: int where "INTERFACE_A \<equiv> 1"
abbreviation (input) INTERFACE_B :: int where "INTERFACE_B \<equiv> 2"
abbreviation (input) INTERFACE_C :: int where "INTERFACE_C \<equiv> 3"
abbreviation (input) INTERFACE_D :: int where "INTERFACE_D \<equiv> 4"

abbreviation (input) BITMODE_RESET :: byte where "BITMODE_RESET \<equiv> 0x00"
abbreviation (input) BITMODE_MPSSE :: byte where "BITMODE_MPSSE \<equiv> 0x02"
abbreviation (input) BITMODE_SYNCFF :: byte where "BITMODE_SYNCFF \<equiv> 0x40"

text \<open>Vendor requests and their arguments.\<close>

abbreviation (input) SIO_RESET_REQUEST :: byte where "SIO_RESET_REQUEST \<equiv> 0"
abbreviation (input) SIO_SET_MODEM_CTRL_REQUEST :: byte where "SIO_SET_MODEM_CTRL_REQUEST \<equiv> 1"
abbreviation (input) SIO_SET_FLOW_CTRL_REQUEST :: byte where "SIO_SET_FLOW_CTRL_REQUEST \<equiv> 2"
abbreviation (input) SIO_SET_BAUDRATE_REQUEST :: byte where "SIO_SET_BAUDRATE_REQUEST \<equiv> 3"
abbreviation (input) SIO_SET_DATA_REQUEST :: byte where "SIO_SET_DATA_REQUEST \<equiv> 4"
abbreviation (input) SIO_POLL_MODEM_STATUS_REQUEST :: byte where "SIO_POLL_MODEM_STATUS_REQUEST \<equiv> 0x05"
abbreviation (input) SIO_SET_EVENT_CHAR_REQUEST :: byte where "SIO_SET_EVENT_CHAR_REQUEST \<equiv> 0x06"
abbreviation (input) SIO_SET_ERROR_CHAR_REQUEST :: byte where "SIO_SET_ERROR_CHAR_REQUEST \<equiv> 0x07"
abbreviation (input) SIO_SET_LATENCY_TIMER_REQUEST :: byte where "SIO_SET_LATENCY_TIMER_REQUEST \<equiv> 0x09"
abbreviation (input) SIO_GET_LATENCY_TIMER_REQUEST :: byte where "SIO_GET_LATENCY_TIMER_REQUEST \<equiv> 0x0A"
abbreviation (input) SIO_SET_BITMODE_REQUEST :: byte where "SIO_SET_BITMODE_REQUEST \<equiv> 0x0B"
abbreviation (input) SIO_READ_PINS_REQUEST :: byte where "SIO_READ_PINS_REQUEST \<equiv> 0x0C"
abbreviation (input) SIO_READ_EEPROM_REQUEST :: byte where "SIO_READ_EEPROM_REQUEST \<equiv> 0x90"
abbreviation (input) SIO_WRITE_EEPROM_REQUEST :: byte where "SIO_WRITE_EEPROM_REQUEST \<equiv> 0x91"
abbreviation (input) SIO_ERASE_EEPROM_REQUEST :: byte where "SIO_ERASE_EEPROM_REQUEST \<equiv> 0x92"

abbreviation (input) SIO_RESET_SIO :: u16 where "SIO_RESET_SIO \<equiv> 0"
abbreviation (input) SIO_RESET_PURGE_RX :: u16 where "SIO_RESET_PURGE_RX \<equiv> 1"
abbreviation (input) SIO_RESET_PURGE_TX :: u16 where "SIO_RESET_PURGE_TX \<equiv> 2"

definition SIO_SET_DTR_HIGH :: u16 where "SIO_SET_DTR_HIGH = 1 OR push_bit 8 0x1"
definition SIO_SET_DTR_LOW :: u16 where "SIO_SET_DTR_LOW = 0 OR push_bit 8 0x1"
definition SIO_SET_RTS_HIGH :: u16 where "SIO_SET_RTS_HIGH = 2 OR push_bit 8 0x2"
definition SIO_SET_RTS_LOW :: u16 where "SIO_SET_RTS_LOW = 0 OR push_bit 8 0x2"

text \<open>
  Request types: vendor request (0x40) to the device (0x00), in host-to-device (0x00) or
  device-to-host (0x80) direction, as libusb documents them.
\<close>

abbreviation (input) FTDI_DEVICE_OUT_REQTYPE :: byte where "FTDI_DEVICE_OUT_REQTYPE \<equiv> 0x40"
abbreviation (input) FTDI_DEVICE_IN_REQTYPE :: byte where "FTDI_DEVICE_IN_REQTYPE \<equiv> 0xC0"

abbreviation (input) FTDI_MAX_EEPROM_SIZE :: nat where "FTDI_MAX_EEPROM_SIZE \<equiv> 256"
abbreviation (input) MAX_POWER_MILLIAMP_PER_UNIT :: int where "MAX_POWER_MILLIAMP_PER_UNIT \<equiv> 2"

section \<open>The structures\<close>

type_synonym handle = nat  \<comment> \<open>a non-NULL libusb pointer\<close>

record ftdi_eeprom =
  vendor_id :: int
  product_id :: int
  initialized_for_connected_device :: int
  self_powered :: int
  remote_wakeup :: int
  is_not_pnp :: int
  suspend_dbus7 :: int
  in_is_isochronous :: int
  out_is_isochronous :: int
  suspend_pull_downs :: int
  use_serial :: int
  usb_version :: int
  use_usb_version :: int
  max_power :: int
  manufacturer :: "string option"
  product :: "string option"
  serial :: "string option"
  channel_a_type :: int
  channel_b_type :: int
  channel_a_driver :: int
  channel_b_driver :: int
  channel_c_driver :: int
  channel_d_driver :: int
  channel_a_rs485enable :: int
  channel_b_rs485enable :: int
  channel_c_rs485enable :: int
  channel_d_rs485enable :: int
  cbus_function :: "int list"
  high_current :: int
  high_current_a :: int
  high_current_b :: int
  invert :: int
  group0_drive :: int
  group0_schmitt :: int
  group0_slew :: int
  group1_drive :: int
  group1_schmitt :: int
  group1_slew :: int
  group2_drive :: int
  group2_schmitt :: int
  group2_slew :: int
  group3_drive :: int
  group3_schmitt :: int
  group3_slew :: int
  powersave :: int
  clock_polarity :: int
  data_order :: int
  flow_control :: int
  eeprom_size :: int
  chip :: int
  ebuf :: "byte list"
  release_number :: int

record ftdi_context =
  usb_ctx :: "handle option"
  usb_dev :: "handle option"
  usb_read_timeout :: int
  usb_write_timeout :: int
  ftype :: ftdi_chip_type
  baudrate :: int
  bitbang_enabled :: byte
  readbuffer :: "byte list"  \<comment> \<open>\<open>[]\<close> while no buffer is allocated\<close>
  readbuffer_offset :: nat
  readbuffer_remaining :: nat
  readbuffer_chunksize :: nat
  writebuffer_chunksize :: u32
  max_packet_size :: nat
  interface :: int
  index :: int
  in_ep :: int
  out_ep :: int
  bitbang_mode :: byte
  eeprom :: "ftdi_eeprom option"
  error_str :: "string option"
  module_detach_mode :: ftdi_module_detach_mode

section \<open>The libusb functions libftdi calls\<close>

text \<open>The arguments of \<open>libusb_control_transfer\<close> but for the data buffer.\<close>

record ctrl_setup =
  cs_dev :: handle
  cs_reqtype :: byte
  cs_request :: byte
  cs_value :: u16
  cs_index :: u16
  cs_length :: nat
  cs_timeout :: int

record device_descriptor =
  idVendor :: int
  idProduct :: int
  bcdDevice :: int
  iManufacturer :: int
  iProduct :: int
  iSerialNumber :: int
  bNumConfigurations :: int

text \<open>
  A configuration descriptor is its \<open>bConfigurationValue\<close> and its interfaces: each the list of
  alternate settings, each the list of its endpoints' \<open>wMaxPacketSize\<close>.
\<close>

record config_descriptor =
  bConfigurationValue :: int
  cfg_interfaces :: "nat list list list"

text \<open>
  One field per function, from the arguments and the state of the bus to the result and the
  next state. The returned \<open>int\<close> is libusb's (negative for an error). For an IN transfer the
  result holds the bytes received; for a bulk OUT transfer the number of bytes sent; for
  \<open>libusb_detach_kernel_driver\<close> the value of \<open>errno\<close>.
\<close>

record 'w libusb =
  lu_init :: "'w \<Rightarrow> (int \<times> handle) \<times> 'w"
  lu_exit :: "handle \<Rightarrow> 'w \<Rightarrow> 'w"
  lu_get_device_list :: "handle option \<Rightarrow> 'w \<Rightarrow> (int \<times> handle list) \<times> 'w"
  lu_get_device_descriptor :: "handle \<Rightarrow> 'w \<Rightarrow> (int \<times> device_descriptor) \<times> 'w"
  lu_get_config_descriptor :: "handle \<Rightarrow> 'w \<Rightarrow> (int \<times> config_descriptor) \<times> 'w"
  lu_open :: "handle \<Rightarrow> 'w \<Rightarrow> (int \<times> handle) \<times> 'w"
  lu_close :: "handle \<Rightarrow> 'w \<Rightarrow> 'w"
  lu_detach_kernel_driver :: "handle \<Rightarrow> int \<Rightarrow> 'w \<Rightarrow> (int \<times> int) \<times> 'w"
  lu_get_configuration :: "handle \<Rightarrow> 'w \<Rightarrow> (int \<times> int) \<times> 'w"
  lu_set_configuration :: "handle \<Rightarrow> int \<Rightarrow> 'w \<Rightarrow> int \<times> 'w"
  lu_claim_interface :: "handle \<Rightarrow> int \<Rightarrow> 'w \<Rightarrow> int \<times> 'w"
  lu_release_interface :: "handle \<Rightarrow> int \<Rightarrow> 'w \<Rightarrow> int \<times> 'w"
  lu_get_string_descriptor_ascii :: "handle \<Rightarrow> int \<Rightarrow> nat \<Rightarrow> 'w \<Rightarrow> (int \<times> string) \<times> 'w"
  lu_control_transfer :: "ctrl_setup \<Rightarrow> 'w \<Rightarrow> (int \<times> byte list) \<times> 'w"
  lu_bulk_out :: "handle \<Rightarrow> int \<Rightarrow> byte list \<Rightarrow> int \<Rightarrow> 'w \<Rightarrow> (int \<times> nat) \<times> 'w"
  lu_bulk_in :: "handle \<Rightarrow> int \<Rightarrow> nat \<Rightarrow> int \<Rightarrow> 'w \<Rightarrow> (int \<times> byte list) \<times> 'w"

text \<open>
  The state of a libftdi call: the context the \<open>ftdi\<close> pointer leads to (\<open>None\<close> for NULL) and
  the bus.
\<close>

type_synonym 'w st = "ftdi_context option \<times> 'w"

text \<open>
  \<open>ftdi_error_return\<close>: store the message in the context, if there is one, and return the code.
\<close>

definition ftdi_error_return :: "int \<Rightarrow> string \<Rightarrow> 'w st \<Rightarrow> int \<times> 'w st" where
  "ftdi_error_return code str s = (code, map_option (\<lambda>c. c\<lparr>error_str := Some str\<rparr>) (fst s), snd s)"

text \<open>
  The guard \<open>if (ftdi == NULL || ftdi->usb_dev == NULL)\<close> most functions start with: \<open>err\<close> is
  the error return, \<open>body\<close> the rest of the function.
\<close>

definition with_dev ::
  "('w st \<Rightarrow> 'r) \<Rightarrow> (ftdi_context \<Rightarrow> handle \<Rightarrow> 'w \<Rightarrow> 'r) \<Rightarrow> 'w st \<Rightarrow> 'r" where
  "with_dev err body s =
     (case fst s of
        None \<Rightarrow> err s
      | Some c \<Rightarrow> (case usb_dev c of None \<Rightarrow> err s | Some h \<Rightarrow> body c h (snd s)))"

text \<open>The control transfers of the library: without data to the device, or with data from it.\<close>

definition ctrl_out ::
  "'w libusb \<Rightarrow> ftdi_context \<Rightarrow> handle \<Rightarrow> byte \<Rightarrow> u16 \<Rightarrow> u16 \<Rightarrow> 'w \<Rightarrow> int \<times> 'w" where
  "ctrl_out L c h request val idx w =
     (case lu_control_transfer L
             \<lparr>cs_dev = h, cs_reqtype = FTDI_DEVICE_OUT_REQTYPE, cs_request = request,
              cs_value = val, cs_index = idx, cs_length = 0,
              cs_timeout = usb_write_timeout c\<rparr> w of
        ((r, _), w') \<Rightarrow> (r, w'))"

definition ctrl_in ::
  "'w libusb \<Rightarrow> ftdi_context \<Rightarrow> handle \<Rightarrow> byte \<Rightarrow> u16 \<Rightarrow> u16 \<Rightarrow> nat \<Rightarrow> 'w
   \<Rightarrow> (int \<times> byte list) \<times> 'w" where
  "ctrl_in L c h request val idx len w =
     lu_control_transfer L
       \<lparr>cs_dev = h, cs_reqtype = FTDI_DEVICE_IN_REQTYPE, cs_request = request,
        cs_value = val, cs_index = idx, cs_length = len,
        cs_timeout = usb_read_timeout c\<rparr> w"

text \<open>\<open>ftdi->index\<close>, an \<open>int\<close>, as the 16-bit \<open>wIndex\<close> of a transfer.\<close>

abbreviation index16 :: "ftdi_context \<Rightarrow> u16" where
  "index16 c \<equiv> word_of_int (index c)"

lemmas call_defs = with_dev_def ftdi_error_return_def ctrl_out_def ctrl_in_def

section \<open>Observing the bus\<close>

text \<open>
  The events of a run: each transfer with its result. \<open>logging L\<close> is the libusb \<open>L\<close> over a bus
  that also records the events, so that a theorem about any libusb can speak of the
  transfers a function made, without an assumption on \<open>L\<close>.
\<close>

datatype usb_event =
    Control ctrl_setup int "byte list"
  | Bulk_Out int "byte list" int nat
  | Bulk_In int nat int "byte list"

definition logging :: "'w libusb \<Rightarrow> ('w \<times> usb_event list) libusb" where
  "logging L =
     \<lparr>lu_init = (\<lambda>(w, l). case lu_init L w of (r, w') \<Rightarrow> (r, w', l)),
      lu_exit = (\<lambda>h (w, l). (lu_exit L h w, l)),
      lu_get_device_list = (\<lambda>h (w, l). case lu_get_device_list L h w of (r, w') \<Rightarrow> (r, w', l)),
      lu_get_device_descriptor =
        (\<lambda>d (w, l). case lu_get_device_descriptor L d w of (r, w') \<Rightarrow> (r, w', l)),
      lu_get_config_descriptor =
        (\<lambda>d (w, l). case lu_get_config_descriptor L d w of (r, w') \<Rightarrow> (r, w', l)),
      lu_open = (\<lambda>d (w, l). case lu_open L d w of (r, w') \<Rightarrow> (r, w', l)),
      lu_close = (\<lambda>h (w, l). (lu_close L h w, l)),
      lu_detach_kernel_driver =
        (\<lambda>h i (w, l). case lu_detach_kernel_driver L h i w of (r, w') \<Rightarrow> (r, w', l)),
      lu_get_configuration =
        (\<lambda>h (w, l). case lu_get_configuration L h w of (r, w') \<Rightarrow> (r, w', l)),
      lu_set_configuration =
        (\<lambda>h i (w, l). case lu_set_configuration L h i w of (r, w') \<Rightarrow> (r, w', l)),
      lu_claim_interface =
        (\<lambda>h i (w, l). case lu_claim_interface L h i w of (r, w') \<Rightarrow> (r, w', l)),
      lu_release_interface =
        (\<lambda>h i (w, l). case lu_release_interface L h i w of (r, w') \<Rightarrow> (r, w', l)),
      lu_get_string_descriptor_ascii =
        (\<lambda>h i n (w, l). case lu_get_string_descriptor_ascii L h i n w of (r, w') \<Rightarrow> (r, w', l)),
      lu_control_transfer =
        (\<lambda>cs (w, l). case lu_control_transfer L cs w of
            ((r, d), w') \<Rightarrow> ((r, d), w', l @ [Control cs r d])),
      lu_bulk_out =
        (\<lambda>h ep d t (w, l). case lu_bulk_out L h ep d t w of
            ((r, n), w') \<Rightarrow> ((r, n), w', l @ [Bulk_Out ep d r n])),
      lu_bulk_in =
        (\<lambda>h ep n t (w, l). case lu_bulk_in L h ep n t w of
            ((r, d), w') \<Rightarrow> ((r, d), w', l @ [Bulk_In ep n r d]))\<rparr>"

text \<open>The bytes the bulk OUT transfers of a log carried, and the packets its IN transfers brought.\<close>

fun sent_bytes :: "usb_event list \<Rightarrow> byte list" where
  "sent_bytes [] = []"
| "sent_bytes (Bulk_Out ep d r n # es) = (if 0 \<le> r then take n d else []) @ sent_bytes es"
| "sent_bytes (_ # es) = sent_bytes es"

fun received :: "usb_event list \<Rightarrow> byte list list" where
  "received [] = []"
| "received (Bulk_In ep n r d # es) = (if 0 \<le> r then d # received es else received es)"
| "received (_ # es) = received es"

lemma sent_bytes_append [simp]: "sent_bytes (xs @ ys) = sent_bytes xs @ sent_bytes ys"
  by (induction xs rule: sent_bytes.induct) auto

lemma received_append [simp]: "received (xs @ ys) = received xs @ received ys"
  by (induction xs rule: received.induct) auto

lemma logging_simps [simp]:
  "lu_control_transfer (logging L) cs (w, l) =
     (case lu_control_transfer L cs w of ((r, d), w') \<Rightarrow> ((r, d), w', l @ [Control cs r d]))"
  "lu_bulk_out (logging L) h ep d t (w, l) =
     (case lu_bulk_out L h ep d t w of ((r, n), w') \<Rightarrow> ((r, n), w', l @ [Bulk_Out ep d r n]))"
  "lu_bulk_in (logging L) h ep n t (w, l) =
     (case lu_bulk_in L h ep n t w of ((r, d'), w') \<Rightarrow> ((r, d'), w', l @ [Bulk_In ep n r d']))"
  by (simp_all add: logging_def)

text \<open>
  What libusb documents of a bulk transfer: it never moves more bytes than asked for.
\<close>

definition bulk_ok :: "'w libusb \<Rightarrow> bool" where
  "bulk_ok L \<longleftrightarrow>
     (\<forall>h ep d t w r n w'. lu_bulk_out L h ep d t w = ((r, n), w') \<longrightarrow> n \<le> length d) \<and>
     (\<forall>h ep k t w r d w'. lu_bulk_in L h ep k t w = ((r, d), w') \<longrightarrow> length d \<le> k)"

lemma bulk_ok_out: "bulk_ok L \<Longrightarrow> lu_bulk_out L h ep d t w = ((r, n), w') \<Longrightarrow> n \<le> length d"
  unfolding bulk_ok_def by blast

lemma bulk_ok_in: "bulk_ok L \<Longrightarrow> lu_bulk_in L h ep k t w = ((r, d), w') \<Longrightarrow> length d \<le> k"
  unfolding bulk_ok_def by blast

lemma bulk_ok_logging [simp]: "bulk_ok (logging L) = bulk_ok L"
  unfolding bulk_ok_def by (auto split: prod.splits)

text \<open>A libusb on which every call succeeds and does nothing: concrete instances start from it.\<close>

definition idle_usb :: "'w libusb" where
  "idle_usb =
     \<lparr>lu_init = (\<lambda>w. ((0, 0), w)), lu_exit = (\<lambda>h w. w),
      lu_get_device_list = (\<lambda>h w. ((0, []), w)),
      lu_get_device_descriptor = (\<lambda>d w. ((0, \<lparr>idVendor = 0x0403, idProduct = 0x6010,
         bcdDevice = 0x700, iManufacturer = 1, iProduct = 2, iSerialNumber = 3,
         bNumConfigurations = 1\<rparr>), w)),
      lu_get_config_descriptor = (\<lambda>d w. ((0, \<lparr>bConfigurationValue = 1,
         cfg_interfaces = [[[512, 512]], [[512, 512]]]\<rparr>), w)),
      lu_open = (\<lambda>d w. ((0, d), w)), lu_close = (\<lambda>h w. w),
      lu_detach_kernel_driver = (\<lambda>h i w. ((0, 0), w)),
      lu_get_configuration = (\<lambda>h w. ((0, 1), w)),
      lu_set_configuration = (\<lambda>h i w. (0, w)),
      lu_claim_interface = (\<lambda>h i w. (0, w)),
      lu_release_interface = (\<lambda>h i w. (0, w)),
      lu_get_string_descriptor_ascii = (\<lambda>h i n w. ((0, ''''), w)),
      lu_control_transfer = (\<lambda>cs w. ((int (cs_length cs), replicate (cs_length cs) 0), w)),
      lu_bulk_out = (\<lambda>h ep d t w. ((0, length d), w)),
      lu_bulk_in = (\<lambda>h ep n t w. ((0, []), w))\<rparr>"

lemma bulk_ok_idle [simp]: "bulk_ok idle_usb"
  by (simp add: bulk_ok_def idle_usb_def)

text \<open>The context of a freshly opened FT2232H on interface A, for concrete instances.\<close>

definition sample_context :: ftdi_context where
  "sample_context =
     \<lparr>usb_ctx = Some 0, usb_dev = Some 1, usb_read_timeout = 5000, usb_write_timeout = 5000,
      ftype = TYPE_2232H, baudrate = 9600, bitbang_enabled = 0,
      readbuffer = replicate 4096 0, readbuffer_offset = 0, readbuffer_remaining = 0,
      readbuffer_chunksize = 4096, writebuffer_chunksize = 4096, max_packet_size = 512,
      interface = 0, index = 1, in_ep = 0x02, out_ep = 0x81, bitbang_mode = 1,
      eeprom = None, error_str = None, module_detach_mode = AUTO_DETACH_SIO_MODULE\<rparr>"

text \<open>
  A bus whose IN transfers bring the packets of a list, one list element per transfer, and then
  nothing, and a context with a small read buffer and packets of four bytes.
\<close>

definition packet_usb :: "byte list list libusb" where
  "packet_usb = idle_usb\<lparr>lu_bulk_in :=
     (\<lambda>h ep n t w. case w of [] \<Rightarrow> ((0, []), []) | d # ds \<Rightarrow> ((0, take n d), ds))\<rparr>"

definition tiny_context :: ftdi_context where
  "tiny_context = sample_context
     \<lparr>readbuffer := replicate 8 0, readbuffer_chunksize := 8, max_packet_size := 4\<rparr>"

lemma bulk_ok_packet [simp]: "bulk_ok packet_usb"
  by (auto simp: bulk_ok_def packet_usb_def idle_usb_def split: list.splits)

lemma packet_usb_out [simp]: "lu_bulk_out packet_usb h ep d t w = ((0, length d), w)"
  by (simp add: packet_usb_def idle_usb_def)

lemma packet_usb_control [simp]:
  "lu_control_transfer packet_usb cs w = ((int (cs_length cs), replicate (cs_length cs) 0), w)"
  by (simp add: packet_usb_def idle_usb_def)

lemma tiny_context_simps [simp]:
  "usb_dev tiny_context = Some 1" "max_packet_size tiny_context = 4"
  "writebuffer_chunksize tiny_context = 4096" "readbuffer_chunksize tiny_context = 8"
  "readbuffer tiny_context = replicate 8 0" "readbuffer_offset tiny_context = 0"
  "readbuffer_remaining tiny_context = 0"
  by (simp_all add: tiny_context_def sample_context_def)

end
