(* ===== verification/Ftdi_Control.thy ===== *)
theory Ftdi_Control
  imports Ftdi_Types
begin

unbundle bit_operations_syntax

text \<open>
  The life cycle of a libftdi context and the operations that are a control transfer each
  (\<open>src/libftdi/ftdi.c\<close>): creation and release, interface selection, reset and purging, line
  and bitbang configuration, latency timer and modem lines. \<open>alloc n\<close> says whether
  \<open>malloc\<close> or \<open>realloc\<close> of \<open>n\<close> bytes succeeds.
\<close>

section \<open>Creation and release\<close>

definition ftdi_usb_close_internal :: "'w libusb \<Rightarrow> 'w st \<Rightarrow> 'w st" where
  "ftdi_usb_close_internal L s =
     (case fst s of
        None \<Rightarrow> s
      | Some c \<Rightarrow>
          (case usb_dev c of
             None \<Rightarrow> s
           | Some h \<Rightarrow>
               (Some (c\<lparr>usb_dev := None,
                        eeprom := map_option
                          (\<lambda>e. e\<lparr>initialized_for_connected_device := 0\<rparr>) (eeprom c)\<rparr>),
                lu_close L h (snd s))))"

definition ftdi_set_interface :: "int \<Rightarrow> 'w st \<Rightarrow> int \<times> 'w st" where
  "ftdi_set_interface itf s =
     (case fst s of
        None \<Rightarrow> ftdi_error_return (-2) ''USB device unavailable'' s
      | Some c \<Rightarrow>
          (let check_interface = (if itf = INTERFACE_ANY then INTERFACE_A else itf) in
           if usb_dev c \<noteq> None \<and> index c \<noteq> check_interface then
             ftdi_error_return (-3) ''Interface can not be changed on an already open device'' s
           else if itf = INTERFACE_ANY \<or> itf = INTERFACE_A then
             (0, Some (c\<lparr>interface := 0, index := INTERFACE_A, in_ep := 0x02, out_ep := 0x81\<rparr>), snd s)
           else if itf = INTERFACE_B then
             (0, Some (c\<lparr>interface := 1, index := INTERFACE_B, in_ep := 0x04, out_ep := 0x83\<rparr>), snd s)
           else if itf = INTERFACE_C then
             (0, Some (c\<lparr>interface := 2, index := INTERFACE_C, in_ep := 0x06, out_ep := 0x85\<rparr>), snd s)
           else if itf = INTERFACE_D then
             (0, Some (c\<lparr>interface := 3, index := INTERFACE_D, in_ep := 0x08, out_ep := 0x87\<rparr>), snd s)
           else ftdi_error_return (-1) ''Unknown interface'' s))"

text \<open>
  \<open>realloc\<close> keeps the old bytes; the new ones are indeterminate (0 here). The size is capped at
  16384, as the code does under Linux.
\<close>

definition c_realloc :: "byte list \<Rightarrow> nat \<Rightarrow> byte list" where
  "c_realloc b n = take n b @ replicate (n - length b) 0"

lemma length_c_realloc [simp]: "length (c_realloc b n) = n"
  by (simp add: c_realloc_def)

definition ftdi_read_data_set_chunksize :: "(nat \<Rightarrow> bool) \<Rightarrow> nat \<Rightarrow> 'w st \<Rightarrow> int \<times> 'w st" where
  "ftdi_read_data_set_chunksize alloc chunksize s =
     (case fst s of
        None \<Rightarrow> ftdi_error_return (-1) ''ftdi context invalid'' s
      | Some c \<Rightarrow>
          (let c1 = c\<lparr>readbuffer_offset := 0, readbuffer_remaining := 0\<rparr>;
               n = (if chunksize > 16384 then 16384 else chunksize) in
           if \<not> alloc n then ftdi_error_return (-1) ''out of memory for readbuffer'' (Some c1, snd s)
           else (0, Some (c1\<lparr>readbuffer := c_realloc (readbuffer c) n,
                            readbuffer_chunksize := n\<rparr>), snd s)))"

definition ftdi_read_data_get_chunksize :: "'w st \<Rightarrow> (int \<times> nat option) \<times> 'w st" where
  "ftdi_read_data_get_chunksize s =
     (case fst s of
        None \<Rightarrow> (case ftdi_error_return (-1) ''FTDI context invalid'' s of (r, s') \<Rightarrow> ((r, None), s'))
      | Some c \<Rightarrow> ((0, Some (readbuffer_chunksize c)), s))"

definition ftdi_write_data_set_chunksize :: "u32 \<Rightarrow> 'w st \<Rightarrow> int \<times> 'w st" where
  "ftdi_write_data_set_chunksize chunksize s =
     (case fst s of
        None \<Rightarrow> ftdi_error_return (-1) ''ftdi context invalid'' s
      | Some c \<Rightarrow> (0, Some (c\<lparr>writebuffer_chunksize := chunksize\<rparr>), snd s))"

definition ftdi_write_data_get_chunksize :: "'w st \<Rightarrow> (int \<times> u32 option) \<times> 'w st" where
  "ftdi_write_data_get_chunksize s =
     (case fst s of
        None \<Rightarrow> (case ftdi_error_return (-1) ''ftdi context invalid'' s of (r, s') \<Rightarrow> ((r, None), s'))
      | Some c \<Rightarrow> ((0, Some (writebuffer_chunksize c)), s))"

text \<open>\<open>memset(eeprom, 0, sizeof(struct ftdi_eeprom))\<close>.\<close>

definition zero_eeprom :: ftdi_eeprom where
  "zero_eeprom =
     \<lparr>vendor_id = 0, product_id = 0, initialized_for_connected_device = 0, self_powered = 0,
      remote_wakeup = 0, is_not_pnp = 0, suspend_dbus7 = 0, in_is_isochronous = 0,
      out_is_isochronous = 0, suspend_pull_downs = 0, use_serial = 0, usb_version = 0,
      use_usb_version = 0, max_power = 0, manufacturer = None, product = None, serial = None,
      channel_a_type = 0, channel_b_type = 0, channel_a_driver = 0, channel_b_driver = 0,
      channel_c_driver = 0, channel_d_driver = 0, channel_a_rs485enable = 0,
      channel_b_rs485enable = 0, channel_c_rs485enable = 0, channel_d_rs485enable = 0,
      cbus_function = replicate 10 0, high_current = 0, high_current_a = 0, high_current_b = 0,
      invert = 0, group0_drive = 0, group0_schmitt = 0, group0_slew = 0, group1_drive = 0,
      group1_schmitt = 0, group1_slew = 0, group2_drive = 0, group2_schmitt = 0,
      group2_slew = 0, group3_drive = 0, group3_schmitt = 0, group3_slew = 0, powersave = 0,
      clock_polarity = 0, data_order = 0, flow_control = 0, eeprom_size = 0, chip = 0,
      ebuf = replicate 256 0, release_number = 0\<rparr>"

text \<open>
  \<open>ftdi_init\<close> on an uninitialised context \<open>c\<close>; \<open>alloc_eeprom\<close> says whether the \<open>malloc\<close> of
  the \<open>ftdi_eeprom\<close> structure succeeds.
\<close>

definition ftdi_init ::
  "'w libusb \<Rightarrow> bool \<Rightarrow> (nat \<Rightarrow> bool) \<Rightarrow> ftdi_context \<Rightarrow> 'w \<Rightarrow> int \<times> 'w st" where
  "ftdi_init L alloc_eeprom alloc c w =
     (let c1 = c\<lparr>usb_ctx := None, usb_dev := None, usb_read_timeout := 5000,
                usb_write_timeout := 5000, ftype := TYPE_BM, baudrate := -1,
                bitbang_enabled := 0, readbuffer := [], readbuffer_offset := 0,
                readbuffer_remaining := 0, writebuffer_chunksize := 4096,
                max_packet_size := 0, error_str := None,
                module_detach_mode := AUTO_DETACH_SIO_MODULE\<rparr> in
      case lu_init L w of ((r, ctx), w1) \<Rightarrow>
        if r < 0 then ftdi_error_return (-3) ''libusb_init() failed'' (Some c1, w1)
        else
          (case ftdi_set_interface INTERFACE_ANY (Some (c1\<lparr>usb_ctx := Some ctx\<rparr>), w1) of
             (_, f, w2) \<Rightarrow>
               (let f1 = map_option (\<lambda>d. d\<lparr>bitbang_mode := 1\<rparr>) f in
                if \<not> alloc_eeprom then
                  ftdi_error_return (-2) ''Can't malloc struct ftdi_eeprom'' (f1, w2)
                else ftdi_read_data_set_chunksize alloc 4096
                       (map_option (\<lambda>d. d\<lparr>eeprom := Some zero_eeprom\<rparr>) f1, w2))))"

text \<open>
  \<open>ftdi_new\<close>: \<open>mem\<close> is the content of the allocated block, \<open>None\<close> when \<open>malloc\<close> fails.
\<close>

definition ftdi_new ::
  "'w libusb \<Rightarrow> bool \<Rightarrow> (nat \<Rightarrow> bool) \<Rightarrow> ftdi_context option \<Rightarrow> 'w \<Rightarrow> 'w st" where
  "ftdi_new L alloc_eeprom alloc mem w =
     (case mem of
        None \<Rightarrow> (None, w)
      | Some c \<Rightarrow>
          (case ftdi_init L alloc_eeprom alloc c w of
             (r, f, w') \<Rightarrow> if r \<noteq> 0 then (None, w') else (f, w')))"

definition ftdi_deinit :: "'w libusb \<Rightarrow> 'w st \<Rightarrow> 'w st" where
  "ftdi_deinit L s =
     (case ftdi_usb_close_internal L s of
        (None, w) \<Rightarrow> (None, w)
      | (Some c, w) \<Rightarrow>
          (let c1 = c\<lparr>readbuffer := [], eeprom := None\<rparr> in
           case usb_ctx c1 of
             None \<Rightarrow> (Some c1, w)
           | Some u \<Rightarrow> (Some (c1\<lparr>usb_ctx := None\<rparr>), lu_exit L u w)))"

text \<open>After \<open>ftdi_free\<close> the context is gone; what is left is the bus.\<close>

definition ftdi_free :: "'w libusb \<Rightarrow> 'w st \<Rightarrow> 'w st" where
  "ftdi_free L s = (None, snd (ftdi_deinit L s))"

definition ftdi_set_usbdev :: "handle option \<Rightarrow> 'w st \<Rightarrow> 'w st" where
  "ftdi_set_usbdev usb s = (map_option (\<lambda>c. c\<lparr>usb_dev := usb\<rparr>) (fst s), snd s)"

definition ftdi_usb_close :: "'w libusb \<Rightarrow> 'w st \<Rightarrow> int \<times> 'w st" where
  "ftdi_usb_close L s =
     (case fst s of
        None \<Rightarrow> ftdi_error_return (-3) ''ftdi context invalid'' s
      | Some c \<Rightarrow>
          (case (case usb_dev c of
                   None \<Rightarrow> (0, snd s)
                 | Some h \<Rightarrow>
                     (case lu_release_interface L h (interface c) (snd s) of
                        (r, w) \<Rightarrow> (if r < 0 then -1 else 0, w))) of
             (rtn, w) \<Rightarrow> (rtn, ftdi_usb_close_internal L (Some c, w))))"

definition ftdi_get_error_string :: "'w st \<Rightarrow> string option" where
  "ftdi_get_error_string s = (case fst s of None \<Rightarrow> Some '''' | Some c \<Rightarrow> error_str c)"

section \<open>Reset and purging\<close>

text \<open>A vendor request with no data: the error code and message on failure, 0 otherwise.\<close>

definition vendor_out ::
  "'w libusb \<Rightarrow> byte \<Rightarrow> u16 \<Rightarrow> u16 \<Rightarrow> int \<Rightarrow> string \<Rightarrow> (ftdi_context \<Rightarrow> ftdi_context)
   \<Rightarrow> ftdi_context \<Rightarrow> handle \<Rightarrow> 'w \<Rightarrow> int \<times> 'w st" where
  "vendor_out L request val idx code msg upd c h w =
     (case ctrl_out L c h request val idx w of
        (r, w') \<Rightarrow>
          if r < 0 then ftdi_error_return code msg (Some c, w')
          else (0, Some (upd c), w'))"

definition invalidate_readbuffer :: "ftdi_context \<Rightarrow> ftdi_context" where
  "invalidate_readbuffer c = c\<lparr>readbuffer_offset := 0, readbuffer_remaining := 0\<rparr>"

lemma invalidate_simps [simp]:
  "readbuffer (invalidate_readbuffer c) = readbuffer c"
  "readbuffer_offset (invalidate_readbuffer c) = 0"
  "readbuffer_remaining (invalidate_readbuffer c) = 0"
  "readbuffer_chunksize (invalidate_readbuffer c) = readbuffer_chunksize c"
  "usb_dev (invalidate_readbuffer c) = usb_dev c"
  "index (invalidate_readbuffer c) = index c"
  "usb_write_timeout (invalidate_readbuffer c) = usb_write_timeout c"
  by (simp_all add: invalidate_readbuffer_def)

definition ftdi_usb_reset :: "'w libusb \<Rightarrow> 'w st \<Rightarrow> int \<times> 'w st" where
  "ftdi_usb_reset L =
     with_dev (ftdi_error_return (-2) ''USB device unavailable'')
       (\<lambda>c h w. vendor_out L SIO_RESET_REQUEST SIO_RESET_SIO (index16 c)
                 (-1) ''FTDI reset failed'' invalidate_readbuffer c h w)"

definition ftdi_usb_purge_rx_buffer :: "'w libusb \<Rightarrow> 'w st \<Rightarrow> int \<times> 'w st" where
  "ftdi_usb_purge_rx_buffer L =
     with_dev (ftdi_error_return (-2) ''USB device unavailable'')
       (\<lambda>c h w. vendor_out L SIO_RESET_REQUEST SIO_RESET_PURGE_RX (index16 c)
                 (-1) ''FTDI purge of RX buffer failed'' invalidate_readbuffer c h w)"

definition ftdi_usb_purge_tx_buffer :: "'w libusb \<Rightarrow> 'w st \<Rightarrow> int \<times> 'w st" where
  "ftdi_usb_purge_tx_buffer L =
     with_dev (ftdi_error_return (-2) ''USB device unavailable'')
       (\<lambda>c h w. vendor_out L SIO_RESET_REQUEST SIO_RESET_PURGE_TX (index16 c)
                 (-1) ''FTDI purge of TX buffer failed'' (\<lambda>c. c) c h w)"

definition ftdi_usb_purge_buffers :: "'w libusb \<Rightarrow> 'w st \<Rightarrow> int \<times> 'w st" where
  "ftdi_usb_purge_buffers L s =
     with_dev (ftdi_error_return (-3) ''USB device unavailable'')
       (\<lambda>_ _ _.
          case ftdi_usb_purge_rx_buffer L s of (result, s1) \<Rightarrow>
            if result < 0 then (-1, s1)
            else case ftdi_usb_purge_tx_buffer L s1 of (result2, s2) \<Rightarrow>
              if result2 < 0 then (-2, s2) else (0, s2)) s"

section \<open>Line, bitbang and modem configuration\<close>

fun parity_bits :: "ftdi_parity_type \<Rightarrow> u16" where
  "parity_bits NONE = push_bit 8 0x00"
| "parity_bits ODD = push_bit 8 0x01"
| "parity_bits EVEN = push_bit 8 0x02"
| "parity_bits MARK = push_bit 8 0x03"
| "parity_bits SPACE = push_bit 8 0x04"

fun stop_bits :: "ftdi_stopbits_type \<Rightarrow> u16" where
  "stop_bits STOP_BIT_1 = push_bit 11 0x00"
| "stop_bits STOP_BIT_15 = push_bit 11 0x01"
| "stop_bits STOP_BIT_2 = push_bit 11 0x02"

fun break_bits :: "ftdi_break_type \<Rightarrow> u16" where
  "break_bits BREAK_OFF = push_bit 14 0x00"
| "break_bits BREAK_ON = push_bit 14 0x01"

definition ftdi_set_line_property2 ::
  "'w libusb \<Rightarrow> ftdi_bits_type \<Rightarrow> ftdi_stopbits_type \<Rightarrow> ftdi_parity_type \<Rightarrow> ftdi_break_type
   \<Rightarrow> 'w st \<Rightarrow> int \<times> 'w st" where
  "ftdi_set_line_property2 L bits sbit parity break_type =
     with_dev (ftdi_error_return (-2) ''USB device unavailable'')
       (\<lambda>c h w.
          let val = ((bits_code bits OR parity_bits parity) OR stop_bits sbit)
                    OR break_bits break_type in
          vendor_out L SIO_SET_DATA_REQUEST val (index16 c)
            (-1) ''Setting new line property failed'' (\<lambda>c. c) c h w)"

definition ftdi_set_line_property ::
  "'w libusb \<Rightarrow> ftdi_bits_type \<Rightarrow> ftdi_stopbits_type \<Rightarrow> ftdi_parity_type
   \<Rightarrow> 'w st \<Rightarrow> int \<times> 'w st" where
  "ftdi_set_line_property L bits sbit parity =
     ftdi_set_line_property2 L bits sbit parity BREAK_OFF"

definition ftdi_set_bitmode :: "'w libusb \<Rightarrow> byte \<Rightarrow> byte \<Rightarrow> 'w st \<Rightarrow> int \<times> 'w st" where
  "ftdi_set_bitmode L bitmask mode =
     with_dev (ftdi_error_return (-2) ''USB device unavailable'')
       (\<lambda>c h w.
          let usb_val = ucast bitmask OR push_bit 8 (ucast mode) in
          vendor_out L SIO_SET_BITMODE_REQUEST usb_val (index16 c)
            (-1) ''unable to configure bitbang mode. Perhaps not a BM/2232C type chip?''
            (\<lambda>c. c\<lparr>bitbang_mode := mode,
                   bitbang_enabled := (if mode = BITMODE_RESET then 0 else 1)\<rparr>) c h w)"

definition ftdi_disable_bitbang :: "'w libusb \<Rightarrow> 'w st \<Rightarrow> int \<times> 'w st" where
  "ftdi_disable_bitbang L =
     with_dev (ftdi_error_return (-2) ''USB device unavailable'')
       (\<lambda>c h w. vendor_out L SIO_SET_BITMODE_REQUEST 0 (index16 c)
                 (-1) ''unable to leave bitbang mode. Perhaps not a BM type chip?''
                 (\<lambda>c. c\<lparr>bitbang_enabled := 0\<rparr>) c h w)"

text \<open>
  The calls that read from the device return the value stored through their pointer, if it
  was stored. \<open>buf_byte d i\<close> is the byte at \<open>i\<close> of the local buffer the transfer filled.
\<close>

definition buf_byte :: "byte list \<Rightarrow> nat \<Rightarrow> byte" where
  "buf_byte d i = (if i < length d then d ! i else 0)"

definition no_value :: "int \<times> 'w st \<Rightarrow> (int \<times> 'v option) \<times> 'w st" where
  "no_value res = (case res of (r, s) \<Rightarrow> ((r, None), s))"

definition vendor_in ::
  "'w libusb \<Rightarrow> byte \<Rightarrow> u16 \<Rightarrow> u16 \<Rightarrow> nat \<Rightarrow> int \<Rightarrow> string \<Rightarrow> (byte list \<Rightarrow> 'v)
   \<Rightarrow> ftdi_context \<Rightarrow> handle \<Rightarrow> 'w \<Rightarrow> (int \<times> 'v option) \<times> 'w st" where
  "vendor_in L request val idx len code msg get c h w =
     (case ctrl_in L c h request val idx len w of
        ((r, d), w') \<Rightarrow>
          if r \<noteq> int len then no_value (ftdi_error_return code msg (Some c, w'))
          else ((0, Some (get d)), Some c, w'))"

definition ftdi_read_pins :: "'w libusb \<Rightarrow> 'w st \<Rightarrow> (int \<times> byte option) \<times> 'w st" where
  "ftdi_read_pins L =
     with_dev (\<lambda>s. no_value (ftdi_error_return (-2) ''USB device unavailable'' s))
       (\<lambda>c h w. vendor_in L SIO_READ_PINS_REQUEST 0 (index16 c) 1
                 (-1) ''read pins failed'' (\<lambda>d. buf_byte d 0) c h w)"

definition ftdi_set_latency_timer :: "'w libusb \<Rightarrow> byte \<Rightarrow> 'w st \<Rightarrow> int \<times> 'w st" where
  "ftdi_set_latency_timer L latency s =
     (if latency < 1 then
        ftdi_error_return (-1) ''latency out of range. Only valid for 1-255'' s
      else with_dev (ftdi_error_return (-3) ''USB device unavailable'')
        (\<lambda>c h w. vendor_out L SIO_SET_LATENCY_TIMER_REQUEST (ucast latency) (index16 c)
                  (-2) ''unable to set latency timer'' (\<lambda>c. c) c h w) s)"

definition ftdi_get_latency_timer :: "'w libusb \<Rightarrow> 'w st \<Rightarrow> (int \<times> byte option) \<times> 'w st" where
  "ftdi_get_latency_timer L =
     with_dev (\<lambda>s. no_value (ftdi_error_return (-2) ''USB device unavailable'' s))
       (\<lambda>c h w. vendor_in L SIO_GET_LATENCY_TIMER_REQUEST 0 (index16 c) 1
                 (-1) ''reading latency timer failed'' (\<lambda>d. buf_byte d 0) c h w)"

definition ftdi_poll_modem_status :: "'w libusb \<Rightarrow> 'w st \<Rightarrow> (int \<times> u16 option) \<times> 'w st" where
  "ftdi_poll_modem_status L =
     with_dev (\<lambda>s. no_value (ftdi_error_return (-2) ''USB device unavailable'' s))
       (\<lambda>c h w. vendor_in L SIO_POLL_MODEM_STATUS_REQUEST 0 (index16 c) 2
                 (-1) ''getting modem status failed''
                 (\<lambda>d. push_bit 8 (ucast (buf_byte d 1)) OR (ucast (buf_byte d 0) AND 0xFF)) c h w)"

definition ftdi_setflowctrl :: "'w libusb \<Rightarrow> int \<Rightarrow> 'w st \<Rightarrow> int \<times> 'w st" where
  "ftdi_setflowctrl L flowctrl =
     with_dev (ftdi_error_return (-2) ''USB device unavailable'')
       (\<lambda>c h w. vendor_out L SIO_SET_FLOW_CTRL_REQUEST 0 (word_of_int (flowctrl OR index c))
                 (-1) ''set flow control failed'' (\<lambda>c. c) c h w)"

definition ftdi_setdtr :: "'w libusb \<Rightarrow> int \<Rightarrow> 'w st \<Rightarrow> int \<times> 'w st" where
  "ftdi_setdtr L state =
     with_dev (ftdi_error_return (-2) ''USB device unavailable'')
       (\<lambda>c h w.
          let usb_val = (if state \<noteq> 0 then SIO_SET_DTR_HIGH else SIO_SET_DTR_LOW) in
          vendor_out L SIO_SET_MODEM_CTRL_REQUEST usb_val (index16 c)
            (-1) ''set dtr failed'' (\<lambda>c. c) c h w)"

definition ftdi_setrts :: "'w libusb \<Rightarrow> int \<Rightarrow> 'w st \<Rightarrow> int \<times> 'w st" where
  "ftdi_setrts L state =
     with_dev (ftdi_error_return (-2) ''USB device unavailable'')
       (\<lambda>c h w.
          let usb_val = (if state \<noteq> 0 then SIO_SET_RTS_HIGH else SIO_SET_RTS_LOW) in
          vendor_out L SIO_SET_MODEM_CTRL_REQUEST usb_val (index16 c)
            (-1) ''set of rts failed'' (\<lambda>c. c) c h w)"

definition ftdi_setdtr_rts :: "'w libusb \<Rightarrow> int \<Rightarrow> int \<Rightarrow> 'w st \<Rightarrow> int \<times> 'w st" where
  "ftdi_setdtr_rts L dtr rts =
     with_dev (ftdi_error_return (-2) ''USB device unavailable'')
       (\<lambda>c h w.
          let usb_val0 = (if dtr \<noteq> 0 then SIO_SET_DTR_HIGH else SIO_SET_DTR_LOW);
              usb_val = usb_val0 OR (if rts \<noteq> 0 then SIO_SET_RTS_HIGH else SIO_SET_RTS_LOW) in
          vendor_out L SIO_SET_MODEM_CTRL_REQUEST usb_val (index16 c)
            (-1) ''set of rts/dtr failed'' (\<lambda>c. c) c h w)"

definition ftdi_set_event_char :: "'w libusb \<Rightarrow> byte \<Rightarrow> byte \<Rightarrow> 'w st \<Rightarrow> int \<times> 'w st" where
  "ftdi_set_event_char L eventch enable =
     with_dev (ftdi_error_return (-2) ''USB device unavailable'')
       (\<lambda>c h w.
          let usb_val = (if enable \<noteq> 0 then ucast eventch OR push_bit 8 1 else ucast eventch) in
          vendor_out L SIO_SET_EVENT_CHAR_REQUEST usb_val (index16 c)
            (-1) ''setting event character failed'' (\<lambda>c. c) c h w)"

definition ftdi_set_error_char :: "'w libusb \<Rightarrow> byte \<Rightarrow> byte \<Rightarrow> 'w st \<Rightarrow> int \<times> 'w st" where
  "ftdi_set_error_char L errorch enable =
     with_dev (ftdi_error_return (-2) ''USB device unavailable'')
       (\<lambda>c h w.
          let usb_val = (if enable \<noteq> 0 then ucast errorch OR push_bit 8 1 else ucast errorch) in
          vendor_out L SIO_SET_ERROR_CHAR_REQUEST usb_val (index16 c)
            (-1) ''setting error character failed'' (\<lambda>c. c) c h w)"

section \<open>Properties of the control requests\<close>

text \<open>The vendor request \<open>request\<close> with value \<open>val\<close> that a context sends, with its result.\<close>

definition vendor_event ::
  "ftdi_context \<Rightarrow> handle \<Rightarrow> byte \<Rightarrow> u16 \<Rightarrow> int \<Rightarrow> byte list \<Rightarrow> usb_event" where
  "vendor_event c h request val r d =
     Control \<lparr>cs_dev = h, cs_reqtype = FTDI_DEVICE_OUT_REQTYPE, cs_request = request,
       cs_value = val, cs_index = index16 c, cs_length = 0, cs_timeout = usb_write_timeout c\<rparr> r d"

lemma vendor_out_event:
  "\<exists>r d w'. vendor_out (logging L) request val (index16 c) code msg upd c h (w, l) =
     ((if r < 0 then code else 0),
      Some (if r < 0 then c\<lparr>error_str := Some msg\<rparr> else upd c), w',
      l @ [vendor_event c h request val r d])"
proof -
  obtain r d w' where "lu_control_transfer L
      \<lparr>cs_dev = h, cs_reqtype = FTDI_DEVICE_OUT_REQTYPE, cs_request = request, cs_value = val,
       cs_index = index16 c, cs_length = 0, cs_timeout = usb_write_timeout c\<rparr> w = ((r, d), w')"
    by (metis prod.exhaust)
  then have "vendor_out (logging L) request val (index16 c) code msg upd c h (w, l) =
     ((if r < 0 then code else 0),
      Some (if r < 0 then c\<lparr>error_str := Some msg\<rparr> else upd c), w',
      l @ [vendor_event c h request val r d])"
    by (simp add: vendor_out_def call_defs vendor_event_def)
  then show ?thesis by blast
qed

lemma purge_rx_event:
  assumes "usb_dev c = Some h"
  obtains r d w' where "ftdi_usb_purge_rx_buffer (logging L) (Some c, w, l) =
      ((if r < 0 then -1 else 0),
       Some (if r < 0 then c\<lparr>error_str := Some ''FTDI purge of RX buffer failed''\<rparr>
             else invalidate_readbuffer c), w',
       l @ [vendor_event c h SIO_RESET_REQUEST SIO_RESET_PURGE_RX r d])"
  using vendor_out_event [of L SIO_RESET_REQUEST SIO_RESET_PURGE_RX c "-1"
        "''FTDI purge of RX buffer failed''" invalidate_readbuffer h w l] assms
  unfolding ftdi_usb_purge_rx_buffer_def with_dev_def by auto

lemma purge_tx_event:
  assumes "usb_dev c = Some h"
  obtains r d w' where "ftdi_usb_purge_tx_buffer (logging L) (Some c, w, l) =
      ((if r < 0 then -1 else 0),
       Some (if r < 0 then c\<lparr>error_str := Some ''FTDI purge of TX buffer failed''\<rparr> else c), w',
       l @ [vendor_event c h SIO_RESET_REQUEST SIO_RESET_PURGE_TX r d])"
  using vendor_out_event [of L SIO_RESET_REQUEST SIO_RESET_PURGE_TX c "-1"
        "''FTDI purge of TX buffer failed''" "\<lambda>c. c" h w l] assms
  unfolding ftdi_usb_purge_tx_buffer_def with_dev_def by auto

lemma vendor_event_invalidate [simp]:
  "vendor_event (invalidate_readbuffer c) h q v r d = vendor_event c h q v r d"
  by (simp add: vendor_event_def)

text \<open>C12: \<open>ftdi_usb_purge_buffers\<close> purges the receive buffer first and the transmit buffer only
  when that succeeded. It returns 0 after both requests succeeded, and the context then holds
  no received byte; -1 when the first failed, and then sent nothing else; -2 when the second
  failed.\<close>

theorem purge_buffers_order:
  assumes "usb_dev c = Some h"
  shows "\<exists>r c' w' new r1 d1 r2 d2.
    ftdi_usb_purge_buffers (logging L) (Some c, w, l) = (r, Some c', w', l @ new) \<and>
    r = (if r1 < 0 then -1 else if r2 < 0 then -2 else 0) \<and>
    readbuffer_remaining c' = (if r1 < 0 then readbuffer_remaining c else 0) \<and>
    new = vendor_event c h SIO_RESET_REQUEST SIO_RESET_PURGE_RX r1 d1 #
      (if r1 < 0 then [] else [vendor_event c h SIO_RESET_REQUEST SIO_RESET_PURGE_TX r2 d2])"
proof -
  let ?c = "invalidate_readbuffer c"
  let ?rx = "\<lambda>r d. vendor_event c h SIO_RESET_REQUEST SIO_RESET_PURGE_RX r d"
  let ?tx = "\<lambda>r d. vendor_event c h SIO_RESET_REQUEST SIO_RESET_PURGE_TX r d"
  obtain r1 d1 w1 where rx: "ftdi_usb_purge_rx_buffer (logging L) (Some c, w, l) =
      ((if r1 < 0 then -1 else 0),
       Some (if r1 < 0 then c\<lparr>error_str := Some ''FTDI purge of RX buffer failed''\<rparr> else ?c), w1,
       l @ [?rx r1 d1])"
    by (rule purge_rx_event [OF assms])
  have dev: "usb_dev ?c = Some h" using assms by simp
  obtain r2 d2 w2 where tx: "ftdi_usb_purge_tx_buffer (logging L) (Some ?c, w1, l @ [?rx r1 d1]) =
      ((if r2 < 0 then -1 else 0),
       Some (if r2 < 0 then ?c\<lparr>error_str := Some ''FTDI purge of TX buffer failed''\<rparr> else ?c), w2,
       (l @ [?rx r1 d1]) @ [?tx r2 d2])"
    by (rule purge_tx_event [OF dev, unfolded vendor_event_invalidate])
  show ?thesis
  proof (cases "r1 < 0")
    case True
    then have run: "ftdi_usb_purge_buffers (logging L) (Some c, w, l) =
        (-1, Some (c\<lparr>error_str := Some ''FTDI purge of RX buffer failed''\<rparr>), w1, l @ [?rx r1 d1])"
      using rx assms by (simp add: ftdi_usb_purge_buffers_def with_dev_def)
    show ?thesis
      by (rule exI, rule exI, rule exI, rule exI, rule exI [of _ r1], rule exI [of _ d1],
        rule exI [of _ r2], rule exI [of _ d2], intro conjI, rule run) (use True in simp_all)
  next
    case False
    then have run: "ftdi_usb_purge_buffers (logging L) (Some c, w, l) =
      ((if r2 < 0 then -2 else 0),
       Some (if r2 < 0 then ?c\<lparr>error_str := Some ''FTDI purge of TX buffer failed''\<rparr> else ?c), w2,
       l @ [?rx r1 d1, ?tx r2 d2])"
      using rx tx assms by (simp add: ftdi_usb_purge_buffers_def with_dev_def)
    show ?thesis
      by (rule exI, rule exI, rule exI, rule exI, rule exI [of _ r1], rule exI [of _ d1],
        rule exI [of _ r2], rule exI [of _ d2], intro conjI, rule run) (use False in simp_all)
  qed
qed

theorem purge_buffers_order_witness:
  "\<exists>r c' w' new.
    ftdi_usb_purge_buffers (logging packet_usb) (Some tiny_context, [], []) =
      (r, Some c', w', [] @ new) \<and> (r = 0 \<or> r = -1 \<or> r = -2)"
  using purge_buffers_order [of tiny_context 1 packet_usb "[]" "[]"] by fastforce

text \<open>
  What a device reads out of the value of the "set data" request: data bits, parity, stop bits
  and break.
\<close>

definition line_of_value :: "u16 \<Rightarrow> u16 \<times> u16 \<times> u16 \<times> bool" where
  "line_of_value v = (v AND 0xFF, drop_bit 8 v AND 7, drop_bit 11 v AND 3, bit v 14)"

fun parity_code :: "ftdi_parity_type \<Rightarrow> u16" where
  "parity_code NONE = 0" | "parity_code ODD = 1" | "parity_code EVEN = 2"
| "parity_code MARK = 3" | "parity_code SPACE = 4"

fun stop_code :: "ftdi_stopbits_type \<Rightarrow> u16" where
  "stop_code STOP_BIT_1 = 0" | "stop_code STOP_BIT_15 = 1" | "stop_code STOP_BIT_2 = 2"

lemma line_value_decodes:
  "line_of_value (((bits_code bits OR parity_bits parity) OR stop_bits sbit) OR break_bits brk) =
     (bits_code bits, parity_code parity, stop_code sbit, brk = BREAK_ON)"
  by (cases bits; cases parity; cases sbit; cases brk) (simp_all add: line_of_value_def)

text \<open>C13: \<open>ftdi_set_line_property2\<close> makes one "set data" request whose value encodes all four
  settings without interference: the fields the device reads out of it are the data bits,
  parity, stop bits and break asked for. The call returns 0 or -1 as the transfer succeeds or
  fails.\<close>

theorem line_property_encodes:
  assumes "usb_dev c = Some h"
  shows "\<exists>val r d w' c'.
    ftdi_set_line_property2 (logging L) bits sbit parity brk (Some c, w, l) =
      ((if r < 0 then -1 else 0), Some c', w', l @ [vendor_event c h SIO_SET_DATA_REQUEST val r d]) \<and>
    line_of_value val = (bits_code bits, parity_code parity, stop_code sbit, brk = BREAK_ON)"
proof -
  let ?v = "((bits_code bits OR parity_bits parity) OR stop_bits sbit) OR break_bits brk"
  obtain r d w' c' where "ftdi_set_line_property2 (logging L) bits sbit parity brk (Some c, w, l) =
      ((if r < 0 then -1 else 0), Some c', w', l @ [vendor_event c h SIO_SET_DATA_REQUEST ?v r d])"
    using vendor_out_event [of L SIO_SET_DATA_REQUEST ?v c "-1"
        "''Setting new line property failed''" "\<lambda>c. c" h w l] assms
    by (auto simp: ftdi_set_line_property2_def with_dev_def Let_def)
  then show ?thesis using line_value_decodes by blast
qed

theorem line_property_encodes_witness:
  "\<exists>val r d w' c'.
    ftdi_set_line_property2 (logging packet_usb) BITS_8 STOP_BIT_1 EVEN BREAK_OFF
      (Some tiny_context, [], []) = ((if r < 0 then -1 else 0), Some c', w',
         [] @ [vendor_event tiny_context 1 SIO_SET_DATA_REQUEST val r d]) \<and>
    line_of_value val = (8, 2, 0, False)"
  using line_property_encodes [of tiny_context 1 packet_usb BITS_8 STOP_BIT_1 EVEN BREAK_OFF "[]" "[]"]
  by simp

text \<open>
  The modem control register of the device (bit 0: DTR, bit 1: RTS): the high byte of a
  request's value selects the bits it sets, the low byte holds them.
\<close>

definition modem_update :: "u16 \<Rightarrow> u16 \<Rightarrow> u16" where
  "modem_update v reg = (reg AND NOT (drop_bit 8 v)) OR (v AND drop_bit 8 v)"

fun modem_after :: "usb_event list \<Rightarrow> u16 \<Rightarrow> u16" where
  "modem_after [] reg = reg"
| "modem_after (Control cs r d # es) reg =
     modem_after es (if cs_request cs = SIO_SET_MODEM_CTRL_REQUEST \<and> 0 \<le> r
                     then modem_update (cs_value cs) reg else reg)"
| "modem_after (_ # es) reg = modem_after es reg"

lemma modem_after_append [simp]: "modem_after (xs @ ys) reg = modem_after ys (modem_after xs reg)"
  by (induction xs reg rule: modem_after.induct) simp_all

lemmas modem_value_defs =
  SIO_SET_DTR_HIGH_def SIO_SET_DTR_LOW_def SIO_SET_RTS_HIGH_def SIO_SET_RTS_LOW_def

lemma modem_bits:
  "modem_update SIO_SET_DTR_HIGH reg = set_bit 0 reg"
  "modem_update SIO_SET_DTR_LOW reg = unset_bit 0 reg"
  "modem_update SIO_SET_RTS_HIGH reg = set_bit 1 reg"
  "modem_update SIO_SET_RTS_LOW reg = unset_bit 1 reg"
  unfolding modem_update_def modem_value_defs
  by (rule bit_word_eqI, simp add: bit_simps, auto simp: bit_1_iff less_Suc_eq numeral_eq_Suc)+

lemma modem_both:
  "modem_update (SIO_SET_DTR_HIGH OR v) reg = modem_update v (set_bit 0 reg)"
  "modem_update (SIO_SET_DTR_LOW OR v) reg = modem_update v (unset_bit 0 reg)"
  if "v \<in> {SIO_SET_RTS_HIGH, SIO_SET_RTS_LOW}" for v
  using that unfolding modem_update_def modem_value_defs
  by - (rule bit_word_eqI, simp add: bit_simps, auto simp: bit_1_iff less_Suc_eq numeral_eq_Suc)+

lemma vendor_out_ok:
  assumes "vendor_out (logging L) request val (index16 c) code msg (\<lambda>c. c) c h (w, l) =
      (0, Some c', w', l')" and "code < 0"
  obtains r d where "l' = l @ [vendor_event c h request val r d]" and "0 \<le> r" and "c' = c"
  using vendor_out_event [of L request val c code msg "\<lambda>c. c" h w l] assms
  by (auto split: if_splits)

lemma setdtr_event:
  assumes "usb_dev c = Some h" and "ftdi_setdtr (logging L) dtr (Some c, w, l) = (0, Some c', w', l')"
  obtains r d where "l' = l @ [vendor_event c h SIO_SET_MODEM_CTRL_REQUEST
      (if dtr \<noteq> 0 then SIO_SET_DTR_HIGH else SIO_SET_DTR_LOW) r d]" and "0 \<le> r" and "c' = c"
  using assms(2) unfolding ftdi_setdtr_def with_dev_def Let_def
  by (simp add: assms(1)) (erule vendor_out_ok, simp_all)

lemma setrts_event:
  assumes "usb_dev c = Some h" and "ftdi_setrts (logging L) rts (Some c, w, l) = (0, Some c', w', l')"
  obtains r d where "l' = l @ [vendor_event c h SIO_SET_MODEM_CTRL_REQUEST
      (if rts \<noteq> 0 then SIO_SET_RTS_HIGH else SIO_SET_RTS_LOW) r d]" and "0 \<le> r" and "c' = c"
  using assms(2) unfolding ftdi_setrts_def with_dev_def Let_def
  by (simp add: assms(1)) (erule vendor_out_ok, simp_all)

lemma setdtr_rts_event:
  assumes "usb_dev c = Some h"
    and "ftdi_setdtr_rts (logging L) dtr rts (Some c, w, l) = (0, Some c', w', l')"
  obtains r d where "l' = l @ [vendor_event c h SIO_SET_MODEM_CTRL_REQUEST
      ((if dtr \<noteq> 0 then SIO_SET_DTR_HIGH else SIO_SET_DTR_LOW) OR
       (if rts \<noteq> 0 then SIO_SET_RTS_HIGH else SIO_SET_RTS_LOW)) r d]" and "0 \<le> r"
  using assms(2) unfolding ftdi_setdtr_rts_def with_dev_def Let_def
  by (simp add: assms(1)) (erule vendor_out_ok, simp_all)

text \<open>C14: On any bus, if its requests succeed, \<open>ftdi_setdtr_rts\<close> leaves the modem control register
  of the device as \<open>ftdi_setdtr\<close> followed by \<open>ftdi_setrts\<close> do, with DTR and RTS as asked for
  and every other bit unchanged; a request that fails changes nothing.\<close>

theorem setdtr_rts_as_separate:
  assumes "usb_dev c = Some h"
    and "ftdi_setdtr_rts (logging L) dtr rts (Some c, w, []) = (0, Some c1, w1, l1)"
    and "ftdi_setdtr (logging L) dtr (Some c, w, []) = (0, Some c2, w2, l2)"
    and "ftdi_setrts (logging L) rts (Some c2, w2, l2) = (0, Some c3, w3, l3)"
  shows "modem_after l1 reg = modem_after l3 reg \<and>
    (\<forall>n. bit (modem_after l1 reg) n \<longleftrightarrow>
       (if n = 0 then dtr \<noteq> 0 else if n = 1 then rts \<noteq> 0 else bit reg n))"
proof -
  let ?E = "\<lambda>q v r d. vendor_event c h q v r d"
  obtain d r where 1: "l1 = [?E SIO_SET_MODEM_CTRL_REQUEST
      ((if dtr \<noteq> 0 then SIO_SET_DTR_HIGH else SIO_SET_DTR_LOW) OR
       (if rts \<noteq> 0 then SIO_SET_RTS_HIGH else SIO_SET_RTS_LOW)) r d]" "0 \<le> r"
    by (rule setdtr_rts_event [OF assms(1,2)]) simp
  obtain d2 r2 where 2: "l2 = [?E SIO_SET_MODEM_CTRL_REQUEST
      (if dtr \<noteq> 0 then SIO_SET_DTR_HIGH else SIO_SET_DTR_LOW) r2 d2]" "0 \<le> r2" "c2 = c"
    by (rule setdtr_event [OF assms(1,3)]) simp
  obtain d3 r3 where 3: "l3 = l2 @ [?E SIO_SET_MODEM_CTRL_REQUEST
      (if rts \<noteq> 0 then SIO_SET_RTS_HIGH else SIO_SET_RTS_LOW) r3 d3]" "0 \<le> r3"
    by (rule setrts_event [OF assms(1) assms(4) [unfolded 2(3)]])
  show ?thesis
    using 1(2) 2(2) 3(2)
    by (auto simp: 1(1) 2(1) 3(1) vendor_event_def modem_bits modem_both bit_simps)
qed

theorem setdtr_rts_as_separate_witness:
  "modem_after [vendor_event tiny_context 1 SIO_SET_MODEM_CTRL_REQUEST
       (SIO_SET_DTR_HIGH OR SIO_SET_RTS_LOW) 0 []] 0xFFFF =
   modem_after [vendor_event tiny_context 1 SIO_SET_MODEM_CTRL_REQUEST SIO_SET_DTR_HIGH 0 [],
     vendor_event tiny_context 1 SIO_SET_MODEM_CTRL_REQUEST SIO_SET_RTS_LOW 0 []] 0xFFFF"
proof -
  let ?E = "\<lambda>v. vendor_event tiny_context 1 SIO_SET_MODEM_CTRL_REQUEST v 0 []"
  have "ftdi_setdtr_rts (logging packet_usb) 1 0 (Some tiny_context, [], []) =
      (0, Some tiny_context, [], [?E (SIO_SET_DTR_HIGH OR SIO_SET_RTS_LOW)])"
    and "ftdi_setdtr (logging packet_usb) 1 (Some tiny_context, [], []) =
      (0, Some tiny_context, [], [?E SIO_SET_DTR_HIGH])"
    and "ftdi_setrts (logging packet_usb) 0 (Some tiny_context, [], [?E SIO_SET_DTR_HIGH]) =
      (0, Some tiny_context, [], [?E SIO_SET_DTR_HIGH, ?E SIO_SET_RTS_LOW])"
    by (simp_all add: ftdi_setdtr_rts_def ftdi_setdtr_def ftdi_setrts_def with_dev_def Let_def
        vendor_out_def ctrl_out_def vendor_event_def)
  from setdtr_rts_as_separate [OF _ this, of 1 "0xFFFF"] show ?thesis by simp
qed

end
