(* ===== verification/Ftdi_Data.thy ===== *)
theory Ftdi_Data
  imports Ftdi_Control
begin

text \<open>
  The synchronous data path of libftdi (\<open>src/libftdi/ftdi.c\<close>): \<open>ftdi_write_data\<close>, which cuts a
  buffer into bulk transfers, and \<open>ftdi_read_data\<close>, which strips the two modem status bytes
  every USB packet starts with, in place, and keeps what the caller did not ask for in the
  read buffer of the context.
\<close>

section \<open>Writing\<close>

text \<open>
  The chunk size is an \<open>unsigned int\<close> of the context; \<open>int write_size = ftdi->writebuffer_chunksize\<close>
  reads it as an \<open>int\<close>, which is negative from 2^31 on.
\<close>

definition write_chunk :: "ftdi_context \<Rightarrow> int" where
  "write_chunk c = sint (writebuffer_chunksize c)"

text \<open>
  The loop may not end (a chunk size of 0, or a device that accepts no byte): \<open>None\<close> stands
  for that. The sum \<open>offset+write_size\<close> is computed on \<open>int\<close>s. Where it leaves their range, or
  the chunk size is negative, the code hands libusb a length that is negative or reaches past the
  buffer; the model then sends what the buffer has of it. The theorems about the loop either keep
  the chunk size and the sum inside the range or hold whatever such a transfer does.
\<close>

partial_function (option) write_loop ::
  "'w libusb \<Rightarrow> ftdi_context \<Rightarrow> handle \<Rightarrow> byte list \<Rightarrow> int \<Rightarrow> int \<Rightarrow> 'w \<Rightarrow> (int \<times> 'w st) option"
where
  "write_loop L c h buf sz offset w =
     (if offset < sz then
        (let chunk = write_chunk c;
             write_size = (if wrap32 (offset + chunk) > sz then sz - offset else chunk) in
         case lu_bulk_out L h (in_ep c) (take (nat write_size) (drop (nat offset) buf))
                (usb_write_timeout c) w of
           ((r, actual_length), w') \<Rightarrow>
             if r < 0 then Some (ftdi_error_return (-1) ''usb bulk write failed'' (Some c, w'))
             else write_loop L c h buf sz (offset + int actual_length) w')
      else Some (offset, Some c, w))"

definition ftdi_write_data ::
  "'w libusb \<Rightarrow> byte list \<Rightarrow> int \<Rightarrow> 'w st \<Rightarrow> (int \<times> 'w st) option" where
  "ftdi_write_data L buf sz =
     with_dev (\<lambda>s. Some (ftdi_error_return (-666) ''USB device unavailable'' s))
       (\<lambda>c h w. write_loop L c h buf sz 0 w)"

section \<open>Reading\<close>

text \<open>
  The in-place removal of the status bytes: the read buffer \<open>b\<close> holds a transfer of
  \<open>actual_length > 2\<close> bytes; the result is the buffer, in which the payload now starts at
  offset 2, and the length of the payload. The loop variable \<open>i\<close> ends as
  \<open>max 1 num_of_chunks\<close>.
\<close>

definition move_packets :: "nat \<Rightarrow> nat \<Rightarrow> byte list \<Rightarrow> byte list" where
  "move_packets packet_size num_of_chunks b =
     fold (\<lambda>i b. memmove b (2 + (packet_size - 2) * i) (2 + packet_size * i) (packet_size - 2))
       [1..<num_of_chunks] b"

definition strip_status :: "nat \<Rightarrow> byte list \<Rightarrow> nat \<Rightarrow> byte list \<times> nat" where
  "strip_status packet_size b actual_length =
     (let num_of_chunks = actual_length div packet_size;
          chunk_remains = actual_length mod packet_size;
          actual = actual_length - 2 in
      if int actual > int packet_size - 2 then
        (let b1 = move_packets packet_size num_of_chunks b;
             i = max 1 num_of_chunks in
         if chunk_remains > 2 then
           (memmove b1 (2 + (packet_size - 2) * i) (2 + packet_size * i) (chunk_remains - 2),
            actual - 2 * num_of_chunks)
         else (b1, actual - (2 * (num_of_chunks - 1) + chunk_remains)))
      else (b, actual))"

text \<open>
  The read loop: \<open>out\<close> is what was stored in the caller's buffer so far, \<open>offset\<close> how much.
  It ends because every further round stores at least one byte.
\<close>

function read_loop ::
  "'w libusb \<Rightarrow> handle \<Rightarrow> nat \<Rightarrow> nat \<Rightarrow> ftdi_context \<Rightarrow> byte list \<Rightarrow> nat \<Rightarrow> nat \<Rightarrow> 'w
   \<Rightarrow> (int \<times> byte list) \<times> 'w st"
where
  "read_loop L h packet_size sz c out offset actual w =
     (if offset < sz \<and> 0 < actual then
        (let c1 = invalidate_readbuffer c in
         case lu_bulk_in L h (out_ep c) (readbuffer_chunksize c) (usb_read_timeout c) w of
           ((ret, d), w') \<Rightarrow>
             (let c2 = c1\<lparr>readbuffer := overlay d (readbuffer c1)\<rparr> in
              if ret < 0 then
                (case ftdi_error_return ret ''usb bulk read failed'' (Some c2, w') of
                   (r, s) \<Rightarrow> ((r, out), s))
              else if length d > 2 then
                (case strip_status packet_size (readbuffer c2) (length d) of
                   (b, act) \<Rightarrow>
                     (let c3 = c2\<lparr>readbuffer := b, readbuffer_offset := 2\<rparr> in
                      if act > 0 then
                        (if offset + act \<le> sz then
                           (let out' = out @ take act (drop 2 b) in
                            if offset + act = sz then ((int (offset + act), out'), Some c3, w')
                            else read_loop L h packet_size sz c3 out' (offset + act) act w')
                         else
                           (let part_size = sz - offset in
                            ((int (offset + part_size), out @ take part_size (drop 2 b)),
                             Some (c3\<lparr>readbuffer_offset := 2 + part_size,
                                      readbuffer_remaining := act - part_size\<rparr>), w')))
                      else read_loop L h packet_size sz c3 out offset act w'))
              else ((int offset, out), Some c2, w')))
      else ((-127, out), Some c, w))"
  by pat_completeness auto
termination
  by (relation "measure (\<lambda>(L, h, ps, sz, c, out, offset, actual, w).
        2 * (sz - offset) + (if 0 < actual then 1 else 0))") auto

declare read_loop.simps [simp del]

text \<open>
  \<open>ftdi_read_data\<close> for a size that is not negative. The first statement reads
  \<open>ftdi->max_packet_size\<close>, before the test for a NULL context: on a NULL context the call
  crashes. The result holds the return value and the bytes stored through \<open>buf\<close>.
\<close>

definition ftdi_read_data ::
  "'w libusb \<Rightarrow> nat \<Rightarrow> 'w st \<Rightarrow> (int \<times> byte list) outcome \<times> 'w st" where
  "ftdi_read_data L sz s =
     (case fst s of
        None \<Rightarrow> (Crashes, s)
      | Some c \<Rightarrow>
          (let packet_size = max_packet_size c;
               fail = (\<lambda>res. case res of (r, s') \<Rightarrow> (Ret (r, []), s')) in
           case usb_dev c of
             None \<Rightarrow> fail (ftdi_error_return (-666) ''USB device unavailable'' s)
           | Some h \<Rightarrow>
               if packet_size = 0 then
                 fail (ftdi_error_return (-1) ''max_packet_size is bogus (zero)'' s)
               else if sz \<le> readbuffer_remaining c then
                 (Ret (int sz, take sz (drop (readbuffer_offset c) (readbuffer c))),
                  Some (c\<lparr>readbuffer_remaining := readbuffer_remaining c - sz,
                          readbuffer_offset := readbuffer_offset c + sz\<rparr>), snd s)
               else
                 (let out = take (readbuffer_remaining c)
                              (drop (readbuffer_offset c) (readbuffer c)) in
                  case read_loop L h packet_size sz c out (readbuffer_remaining c) 1 (snd s) of
                    (res, s') \<Rightarrow> (Ret res, s'))))"

section \<open>The in-place stripping equals its specification\<close>

text \<open>
  What a transfer carries: it is cut into packets, and each packet loses its two status bytes.
\<close>

definition strip_headers :: "nat \<Rightarrow> byte list \<Rightarrow> byte list" where
  "strip_headers packet_size d = concat (map (drop 2) (chunks packet_size d))"

lemma strip_headers_short:
  "0 < ps \<Longrightarrow> length d \<le> ps \<Longrightarrow> strip_headers ps d = drop 2 d"
  by (cases "d = []") (simp_all add: strip_headers_def chunks_short)

lemma strip_headers_append:
  "0 < ps \<Longrightarrow> length d = ps * n \<Longrightarrow>
   strip_headers ps (d @ e) = strip_headers ps d @ strip_headers ps e"
  by (simp add: strip_headers_def chunks_append)

lemma strip_headers_blocks:
  assumes "2 < ps" and "ps * n \<le> length d"
  shows "strip_headers ps (take (ps * n) d) =
         concat (map (\<lambda>j. take (ps - 2) (drop (2 + ps * j) d)) [0..<n])"
proof -
  have blk: "drop 2 (take ps (drop (ps * j) (take (ps * n) d))) = take (ps - 2) (drop (2 + ps * j) d)"
    if "j < n" for j
  proof -
    from that have "ps * j + ps \<le> ps * n"
      by (metis Suc_leI mult_Suc_right mult_le_mono2 add.commute)
    then show ?thesis
      by (simp add: drop_take min_def add.commute)
  qed
  have "chunks ps (take (ps * n) d) =
        map (\<lambda>j. take ps (drop (ps * j) (take (ps * n) d))) [0..<n]"
    using assms by (intro chunks_blocks) auto
  then have "strip_headers ps (take (ps * n) d) =
        concat (map (\<lambda>j. drop 2 (take ps (drop (ps * j) (take (ps * n) d)))) [0..<n])"
    by (simp add: strip_headers_def comp_def)
  also have "\<dots> = concat (map (\<lambda>j. take (ps - 2) (drop (2 + ps * j) d)) [0..<n])"
    by (rule arg_cong [where f = concat], rule map_cong [OF refl], rule blk) simp
  finally show ?thesis .
qed

lemma length_strip_blocks:
  assumes "2 < ps" and "ps * n \<le> length d"
  shows "length (strip_headers ps (take (ps * n) d)) = (ps - 2) * n"
proof -
  have blk: "length (take (ps - 2) (drop (2 + ps * j) d)) = ps - 2" if "j < n" for j
  proof -
    from that have "ps * j + ps \<le> ps * n"
      by (metis Suc_leI mult_Suc_right mult_le_mono2 add.commute)
    with assms show ?thesis by simp
  qed
  have "length (strip_headers ps (take (ps * n) d)) =
        sum_list (map (\<lambda>j. length (take (ps - 2) (drop (2 + ps * j) d))) [0..<n])"
    using strip_headers_blocks [OF assms] by (simp only: length_concat map_map comp_def)
  also have "\<dots> = sum_list (map (\<lambda>j. ps - 2) [0..<n])"
    by (rule arg_cong [where f = sum_list], rule map_cong) (auto simp only: set_upt atLeastLessThan_iff blk)
  finally show ?thesis by (simp add: sum_list_triv)
qed

text \<open>One round of the loop: the packets moved so far lie before the untouched rest.\<close>

lemma move_packets_inv:
  assumes "2 < ps" and "ps * n \<le> length b" and "1 \<le> k" and "k \<le> n"
  shows "length (move_packets ps k b) = length b \<and>
         take (2 + (ps - 2) * k) (move_packets ps k b) =
           take 2 b @ concat (map (\<lambda>j. take (ps - 2) (drop (2 + ps * j) b)) [0..<k]) \<and>
         drop (2 + (ps - 2) * k) (move_packets ps k b) = drop (2 + (ps - 2) * k) b"
  using assms(3,4)
proof (induction k rule: nat_induct_at_least)
  case base
  have "take (2 + (ps - 2)) b = take 2 b @ take (ps - 2) (drop 2 b)"
    by (rule take_add)
  then show ?case by (simp add: move_packets_def numeral_2_eq_2)
next
  case (Suc k)
  let ?m = "move_packets ps k b"
  let ?dst = "2 + (ps - 2) * k" and ?src = "2 + ps * k"
  from Suc have IH: "length ?m = length b"
      "take ?dst ?m = take 2 b @ concat (map (\<lambda>j. take (ps - 2) (drop (2 + ps * j) b)) [0..<k])"
      "drop ?dst ?m = drop ?dst b"
    by simp_all
  have "ps * Suc k \<le> ps * n" using Suc.prems by (rule mult_le_mono2)
  then have fits: "?src + (ps - 2) \<le> length ?m" using assms IH(1) by simp
  have le: "?dst \<le> ?src" by (simp add: diff_mult_distrib)
  with fits have fits': "?dst + (ps - 2) \<le> length ?m" by linarith
  have step: "move_packets ps (Suc k) b = memmove ?m ?dst ?src (ps - 2)"
    using Suc.hyps by (simp add: move_packets_def)
  have eq: "?dst + (ps - 2) = 2 + (ps - 2) * Suc k" by simp
  have src: "drop ?src ?m = drop ?src b"
  proof -
    have "drop ?src ?m = drop (?src - ?dst) (drop ?dst ?m)" using le by simp
    also have "\<dots> = drop ?src b" using le by (simp only: IH(3)) simp
    finally show ?thesis .
  qed
  have "take (2 + (ps - 2) * Suc k) (move_packets ps (Suc k) b) =
        take ?dst ?m @ take (ps - 2) (drop ?src b)"
    using take_memmove [OF fits fits'] by (simp only: step eq src)
  moreover have "drop (2 + (ps - 2) * Suc k) (move_packets ps (Suc k) b) =
        drop (2 + (ps - 2) * Suc k) ?m"
    using drop_memmove [OF fits fits', of "2 + (ps - 2) * Suc k"] by (simp only: step eq)
  moreover have "drop (2 + (ps - 2) * Suc k) ?m = drop (2 + (ps - 2) * Suc k) b"
  proof -
    have "drop (2 + (ps - 2) * Suc k) ?m = drop (ps - 2) (drop ?dst ?m)"
      by (simp only: drop_drop eq [symmetric] add.commute)
    also have "\<dots> = drop (2 + (ps - 2) * Suc k) b"
      by (simp only: IH(3) drop_drop eq [symmetric] add.commute)
    finally show ?thesis .
  qed
  moreover have "length (move_packets ps (Suc k) b) = length b"
    using fits fits' IH(1) by (simp only: step length_memmove)
  ultimately show ?case
    using IH(2) by simp
qed

text \<open>
  The in-place routine computes the payload: of a transfer \<open>d\<close> lying at the start of the
  buffer, the \<open>act\<close> bytes from offset 2 on are \<open>d\<close> without its packet headers.
\<close>

lemma strip_status_correct:
  assumes ps: "2 < ps" and len: "2 < length d" "length d \<le> length b" "take (length d) b = d"
    and res: "strip_status ps b (length d) = (b', act)"
  shows "take act (drop 2 b') = strip_headers ps d \<and> act = length (strip_headers ps d) \<and>
         length b' = length b \<and> 0 < act \<and> act + 2 \<le> length d"
proof (cases "length d \<le> ps")
  case True
  then have "b' = b" and "act = length d - 2"
    using res ps len(1) by (auto simp: strip_status_def Let_def)
  moreover have "take (length d - 2) (drop 2 b) = drop 2 d"
    by (metis len(3) drop_take)
  ultimately show ?thesis
    using True ps len by (simp add: strip_headers_short)
next
  case False
  define n r where "n = length d div ps" and "r = length d mod ps"
  have dlen: "length d = ps * n + r" and rlt: "r < ps"
    using ps by (simp_all add: n_def r_def)
  have n1: "1 \<le> n" using False ps by (simp add: n_def Suc_leI div_greater_zero_iff)
  let ?B = "move_packets ps n b" and ?k = "2 + (ps - 2) * n" and ?h = "strip_headers ps (take (ps * n) d)"
  have fit: "ps * n \<le> length b" using dlen len(2) by simp
  have fitd: "ps * n \<le> length d" using dlen by simp
  have dropb: "take m (drop s b) = take m (drop s d)" if "s + m \<le> length d" for s m
  proof -
    have "take m (drop s b) = take m (drop s (take (length d) b))"
      using that by (simp add: drop_take)
    then show ?thesis by (simp add: len(3))
  qed
  have inv: "length ?B = length b"
      "take ?k ?B = take 2 b @ concat (map (\<lambda>j. take (ps - 2) (drop (2 + ps * j) b)) [0..<n])"
      "drop ?k ?B = drop ?k b"
    using move_packets_inv [OF ps fit n1 order_refl] by simp_all
  have blocks: "concat (map (\<lambda>j. take (ps - 2) (drop (2 + ps * j) b)) [0..<n]) = ?h"
  proof -
    have "take (ps * n) b = take (ps * n) d"
      using dropb [of 0 "ps * n"] fitd by simp
    then show ?thesis
      using strip_headers_blocks [OF ps fit] strip_headers_blocks [OF ps fitd] by simp
  qed
  have hlen: "length ?h = (ps - 2) * n" by (rule length_strip_blocks [OF ps fitd])
  define q where "q = ps - 3"
  have psq: "ps = q + 3" using ps by (simp add: q_def)
  have payload: "take ((ps - 2) * n) (drop 2 ?B) = ?h"
  proof -
    have "take ((ps - 2) * n) (drop 2 ?B) = drop 2 (take ?k ?B)" by (simp add: drop_take)
    also have "take ?k ?B = take 2 b @ ?h" by (simp only: inv(2) blocks)
    finally show ?thesis using len by simp
  qed
  have rest: "strip_headers ps d = ?h @ drop 2 (drop (ps * n) d)"
  proof -
    have "strip_headers ps (take (ps * n) d @ drop (ps * n) d) =
          ?h @ strip_headers ps (drop (ps * n) d)"
      using ps fitd by (intro strip_headers_append) auto
    moreover have "strip_headers ps (drop (ps * n) d) = drop 2 (drop (ps * n) d)"
      using ps rlt dlen by (intro strip_headers_short) auto
    ultimately show ?thesis by simp
  qed
  have cond: "int (length d - 2) > int ps - 2" using False len by simp
  have max1: "max (Suc 0) n = n" using n1 by simp
  show ?thesis
  proof (cases "r > 2")
    case True
    have b': "b' = memmove ?B ?k (2 + ps * n) (r - 2)" and act: "act = length d - 2 - 2 * n"
      using res cond True by (simp_all add: strip_status_def Let_def max1 flip: n_def r_def)
    have act': "act = (ps - 2) * n + (r - 2)"
      using True by (simp add: act dlen psq algebra_simps)
    have fits: "2 + ps * n + (r - 2) \<le> length ?B" using True dlen len(2) inv(1) by simp
    then have fits': "?k + (r - 2) \<le> length ?B" using True by (simp add: psq algebra_simps)
    have src: "take (r - 2) (drop (2 + ps * n) ?B) = drop 2 (drop (ps * n) d)"
    proof -
      have "2 + ps * n = (2 + ps * n - ?k) + ?k" by (simp add: psq algebra_simps)
      then have "drop (2 + ps * n) ?B = drop (2 + ps * n) b"
        by (metis drop_drop inv(3))
      then show ?thesis using dropb [of "2 + ps * n" "r - 2"] True dlen by (simp add: add.commute)
    qed
    have "take act (drop 2 b') = drop 2 (take (?k + (r - 2)) b')"
      by (simp add: act' drop_take)
    also have "take (?k + (r - 2)) b' = take ?k ?B @ drop 2 (drop (ps * n) d)"
      using take_memmove [OF fits fits'] by (simp only: b' src)
    also have "take ?k ?B = take 2 b @ ?h" by (simp only: inv(2) blocks)
    also have "drop 2 ((take 2 b @ ?h) @ drop 2 (drop (ps * n) d)) = strip_headers ps d"
      using len by (simp add: rest)
    finally have main: "take act (drop 2 b') = strip_headers ps d" .
    have "length b' = length b" using fits fits' inv(1) by (simp only: b' length_memmove)
    moreover have "length (strip_headers ps d) = act" using dlen by (simp add: rest hlen act')
    moreover have "0 < act \<and> act + 2 \<le> length d"
      using True dlen by (simp add: act' psq algebra_simps)
    ultimately show ?thesis using main by simp
  next
    case False
    have b': "b' = ?B" and act: "act = length d - 2 - (2 * (n - 1) + r)"
      using res cond False by (simp_all add: strip_status_def Let_def max1 flip: n_def r_def)
    have act': "act = (ps - 2) * n"
      using n1 False by (cases n) (simp_all add: act dlen psq algebra_simps)
    have tail: "drop 2 (drop (ps * n) d) = []" using False dlen by simp
    then have "take act (drop 2 b') = strip_headers ps d"
      using payload by (simp only: b' act' rest append_Nil2)
    moreover have "length (strip_headers ps d) = act" using tail by (simp add: rest hlen act')
    moreover have "0 < act \<and> act + 2 \<le> length d"
      using n1 dlen by (simp add: act' psq algebra_simps)
    ultimately show ?thesis using inv(1) by (simp add: b')
  qed
qed

section \<open>Reading is a byte stream\<close>

text \<open>
  The invariant of a context: the read buffer has the size the context says, and the bytes
  kept for the next call lie inside it. \<open>pending\<close> are those bytes.
\<close>

definition ctx_wf :: "ftdi_context \<Rightarrow> bool" where
  "ctx_wf c \<longleftrightarrow>
     length (readbuffer c) = readbuffer_chunksize c \<and>
     readbuffer_offset c + readbuffer_remaining c \<le> readbuffer_chunksize c"

definition pending :: "ftdi_context \<Rightarrow> byte list" where
  "pending c = take (readbuffer_remaining c) (drop (readbuffer_offset c) (readbuffer c))"

lemma ctx_wf_tiny [simp]: "ctx_wf tiny_context"
  by (simp add: ctx_wf_def)

lemma length_pending: "ctx_wf c \<Longrightarrow> length (pending c) = readbuffer_remaining c"
  by (auto simp: ctx_wf_def pending_def)

lemma pending_nothing [simp]: "readbuffer_remaining c = 0 \<Longrightarrow> pending c = []"
  by (simp add: pending_def)

text \<open>
  What a read that started with the bytes \<open>out\<close> stored and ended with \<open>(n, res)\<close> and the
  context \<open>c'\<close> did, in terms of the transfers \<open>new\<close> it made.
\<close>

definition read_done ::
  "nat \<Rightarrow> nat \<Rightarrow> byte list \<Rightarrow> int \<Rightarrow> byte list \<Rightarrow> ftdi_context \<Rightarrow> usb_event list \<Rightarrow> bool" where
  "read_done ps sz out n res c' new \<longleftrightarrow>
     (if 0 \<le> n then
        res @ pending c' = out @ concat (map (strip_headers ps) (received new)) \<and>
        n = int (length res) \<and> length res \<le> sz \<and>
        (length res < sz \<longrightarrow>
           (\<exists>ev ep k r d. new = ev @ [Bulk_In ep k r d] \<and> 0 \<le> r \<and> length d \<le> 2))
      else pending c' = [] \<and> (\<exists>ev ep k d. new = ev @ [Bulk_In ep k n d]))"

lemma read_loop_stream:
  assumes L: "bulk_ok L" and ps: "2 < ps"
  shows "length out = offset \<Longrightarrow> offset < sz \<Longrightarrow> 0 < actual \<Longrightarrow>
    length (readbuffer c) = readbuffer_chunksize c \<Longrightarrow>
    read_loop (logging L) h ps sz c out offset actual (w, l) = ((n, res), s') \<Longrightarrow>
    \<exists>c' w' new. s' = (Some c', w', l @ new) \<and> ctx_wf c' \<and>
      max_packet_size c' = max_packet_size c \<and> usb_dev c' = usb_dev c \<and>
      read_done ps sz out n res c' new"
proof (induction "sz - offset" arbitrary: c out offset actual w l rule: less_induct)
  case less
  let ?k = "readbuffer_chunksize c"
  obtain ret d w1 where tr: "lu_bulk_in L h (out_ep c) ?k (usb_read_timeout c) w = ((ret, d), w1)"
    by (metis prod.exhaust_sel)
  let ?l1 = "l @ [Bulk_In (out_ep c) ?k ret d]"
  let ?c2 = "invalidate_readbuffer c\<lparr>readbuffer := overlay d (readbuffer c)\<rparr>"
  have dk: "length d \<le> ?k" using bulk_ok_in [OF L tr] .
  have c2: "readbuffer_chunksize ?c2 = ?k" "length (readbuffer ?c2) = ?k"
      "take (length d) (readbuffer ?c2) = d"
    using dk less.prems(4) by (simp_all add: invalidate_readbuffer_def overlay_def)
  consider (err) "ret < 0" | (short) "0 \<le> ret" "length d \<le> 2" | (data) "0 \<le> ret" "2 < length d"
    by linarith
  then show ?case
  proof cases
    case err
    then show ?thesis
      using less.prems tr dk
      by (subst (asm) read_loop.simps)
        (auto simp: invalidate_readbuffer_def ftdi_error_return_def ctx_wf_def read_done_def)
  next
    case short
    have "strip_headers ps d = []" using ps short by (simp add: strip_headers_short)
    then show ?thesis
      using less.prems tr dk short
      by (subst (asm) read_loop.simps)
        (auto simp: invalidate_readbuffer_def ctx_wf_def read_done_def Let_def)
  next
    case data
    obtain b act where strip: "strip_status ps (readbuffer ?c2) (length d) = (b, act)"
      by (metis prod.exhaust)
    have "length d \<le> length (readbuffer ?c2)" using dk c2(2) by simp
    note st0 = strip_status_correct [OF ps data(2) this c2(3) strip]
    then have st: "take act (drop 2 b) = strip_headers ps d" "act = length (strip_headers ps d)"
        "length b = ?k" "0 < act" "act + 2 \<le> length d"
      unfolding c2(2) by blast+
    let ?c3 = "?c2\<lparr>readbuffer := b, readbuffer_offset := 2\<rparr>"
    have c3: "length (readbuffer ?c3) = readbuffer_chunksize ?c3"
      by (simp add: invalidate_readbuffer_def st(3))
    have unf: "read_loop (logging L) h ps sz c out offset actual (w, l) =
      (if offset + act \<le> sz then
         (if offset + act = sz then ((int (offset + act), out @ strip_headers ps d), Some ?c3, w1, ?l1)
          else read_loop (logging L) h ps sz ?c3 (out @ strip_headers ps d) (offset + act) act (w1, ?l1))
       else ((int sz, out @ take (sz - offset) (drop 2 b)),
             Some (?c3\<lparr>readbuffer_offset := 2 + (sz - offset),
                       readbuffer_remaining := act - (sz - offset)\<rparr>), w1, ?l1))"
      using less.prems tr data strip st(4)
      by (subst read_loop.simps) (simp add: Let_def invalidate_readbuffer_def st(1))
    show ?thesis
    proof (cases "offset + act < sz")
      case True
      let ?out = "out @ strip_headers ps d"
      have run: "read_loop (logging L) h ps sz ?c3 ?out (offset + act) act (w1, ?l1) = ((n, res), s')"
        using unf less.prems(5) True by simp
      have "sz - (offset + act) < sz - offset" using less.prems(2) st(4) by linarith
      from less.hyps [OF this _ True st(4) c3 run] less.prems(1) st(2)
      obtain c' w' new where IH: "s' = (Some c', w', ?l1 @ new)" "ctx_wf c'"
          "max_packet_size c' = max_packet_size c" "usb_dev c' = usb_dev c"
          "read_done ps sz ?out n res c' new"
        by (auto simp: invalidate_readbuffer_def)
      have "read_done ps sz out n res c' (Bulk_In (out_ep c) ?k ret d # new)"
        using IH(5) data(1) by (auto simp: read_done_def split: if_splits)
      with IH show ?thesis by auto
    next
      case False
      then show ?thesis
      proof (cases "offset + act = sz")
        case True
        then show ?thesis
          using unf less.prems(1,5) data st dk
          by (auto simp: invalidate_readbuffer_def ctx_wf_def read_done_def)
      next
        case no: False
        let ?p = "sz - offset"
        have lt: "?p < act" using no False less.prems(2) by linarith
        have "take ?p (drop 2 b) @ take (act - ?p) (drop (2 + ?p) b) = take act (drop 2 b)"
          using lt by (metis add_diff_inverse_nat drop_drop add.commute less_imp_not_less take_add)
        then show ?thesis
          using unf less.prems(1,2,5) False no data(1) st lt dk
          by (auto simp: invalidate_readbuffer_def ctx_wf_def read_done_def pending_def min_def)
      qed
    qed
  qed
qed

lemma ftdi_read_data_done:
  assumes "bulk_ok L" and "ctx_wf c" and "usb_dev c = Some h" and "2 < max_packet_size c"
    and run: "ftdi_read_data (logging L) sz (Some c, w, l) = (res, s')"
  shows "\<exists>n out c' w' new. res = Ret (n, out) \<and> s' = (Some c', w', l @ new) \<and> ctx_wf c' \<and>
           max_packet_size c' = max_packet_size c \<and> usb_dev c' = usb_dev c \<and>
           (if sz \<le> readbuffer_remaining c then
              new = [] \<and> n = int sz \<and> length out = sz \<and> pending c = out @ pending c'
            else read_done (max_packet_size c) sz (pending c) n out c' new)"
proof (cases "sz \<le> readbuffer_remaining c")
  case True
  have "pending c = take sz (drop (readbuffer_offset c) (readbuffer c)) @
          take (readbuffer_remaining c - sz) (drop (readbuffer_offset c + sz) (readbuffer c))"
    using True by (metis pending_def add.commute drop_drop le_add_diff_inverse take_add)
  with True assms show ?thesis
    by (auto simp: ftdi_read_data_def Let_def pending_def ctx_wf_def)
next
  case False
  obtain n out s1 where loop: "read_loop (logging L) h (max_packet_size c) sz c (pending c)
      (readbuffer_remaining c) 1 (w, l) = ((n, out), s1)"
    by (metis prod.exhaust)
  have "\<exists>c' w' new. s1 = (Some c', w', l @ new) \<and> ctx_wf c' \<and>
      max_packet_size c' = max_packet_size c \<and> usb_dev c' = usb_dev c \<and>
      read_done (max_packet_size c) sz (pending c) n out c' new"
    using False assms(2)
    by (intro read_loop_stream [OF assms(1,4) _ _ _ _ loop]) (auto simp: length_pending ctx_wf_def)
  moreover have "res = Ret (n, out) \<and> s' = s1"
    using run loop assms(3,4) False by (simp add: ftdi_read_data_def Let_def pending_def)
  ultimately show ?thesis using False by auto
qed

section \<open>Writing sends the buffer in order\<close>

text \<open>
  A bulk OUT transfer that does not fail moves at least one byte. Without it the write loop
  need not end.
\<close>

definition bulk_progress :: "'w libusb \<Rightarrow> bool" where
  "bulk_progress L \<longleftrightarrow>
     (\<forall>h ep d t w r n w'. lu_bulk_out L h ep d t w = ((r, n), w') \<longrightarrow> 0 \<le> r \<longrightarrow> d \<noteq> [] \<longrightarrow> 0 < n)"

lemma bulk_progress_packet [simp]: "bulk_progress packet_usb"
  by (auto simp: bulk_progress_def packet_usb_def idle_usb_def)

definition chunks_at_most :: "nat \<Rightarrow> int \<Rightarrow> usb_event list \<Rightarrow> bool" where
  "chunks_at_most k ep es \<longleftrightarrow>
     list_all (\<lambda>e. case e of Bulk_Out ep' d r n \<Rightarrow> ep' = ep \<and> length d \<le> k | _ \<Rightarrow> False) es"

lemma write_chunk_small: "writebuffer_chunksize c < 2 ^ 31 \<Longrightarrow> write_chunk c = uint (writebuffer_chunksize c)"
proof -
  assume "writebuffer_chunksize c < 2 ^ 31"
  then have "uint (writebuffer_chunksize c) < 2 ^ 31" by (simp add: word_less_def)
  then show "write_chunk c = uint (writebuffer_chunksize c)"
    by (subst write_chunk_def, subst sint_uint, intro signed_take_bit_int_eq_self)
      (use uint_ge_0 in \<open>auto intro: order_trans [OF _ uint_ge_0]\<close>)
qed

lemma write_chunk_positive:
  "0 < writebuffer_chunksize c \<Longrightarrow> writebuffer_chunksize c < 2 ^ 31 \<Longrightarrow> 0 < write_chunk c"
  by (simp add: write_chunk_small word_less_def)

lemma write_chunk_default [simp]: "writebuffer_chunksize c = 4096 \<Longrightarrow> write_chunk c = 4096"
  by (simp add: write_chunk_def)

lemma write_loop_step:
  assumes "sz = int (length buf)" and "0 \<le> offset" and "0 \<le> write_chunk c"
  shows "write_loop L c h buf sz offset w =
     (if offset < sz then
        (case lu_bulk_out L h (in_ep c)
                (take (nat (min (sz - offset) (write_chunk c))) (drop (nat offset) buf))
                (usb_write_timeout c) w of
           ((r, n), w') \<Rightarrow>
             if r < 0 then Some (ftdi_error_return (-1) ''usb bulk write failed'' (Some c, w'))
             else write_loop L c h buf sz (offset + int n) w')
      else Some (offset, Some c, w))"
proof -
  let ?size = "if wrap32 (offset + write_chunk c) > sz then sz - offset else write_chunk c"
  have "take (nat ?size) (drop (nat offset) buf) =
      take (nat (min (sz - offset) (write_chunk c))) (drop (nat offset) buf)"
  proof (cases "wrap32 (offset + write_chunk c) > sz")
    case True
    then have "sz < offset + write_chunk c"
      using wrap32_le [of "offset + write_chunk c"] assms(2,3) by linarith
    then show ?thesis using True by (simp add: min_def)
  next
    case False
    have "take (nat (min (sz - offset) k)) (drop (nat offset) buf) = take (nat k) (drop (nat offset) buf)"
      for k using assms(1,2) by (simp add: min_def nat_diff_distrib)
    then show ?thesis using False by simp
  qed
  then show ?thesis by (subst write_loop.simps) (simp only: Let_def)
qed

lemma write_loop_complete:
  assumes L: "bulk_ok L" "bulk_progress L" and chunk: "0 < write_chunk c"
  shows "offset \<le> length buf \<Longrightarrow>
    \<exists>r c' w' new. write_loop (logging L) c h buf (int (length buf)) (int offset) (w, l) =
        Some (r, Some c', w', l @ new) \<and>
      chunks_at_most (nat (write_chunk c)) (in_ep c) new \<and>
      (r = int (length buf) \<and> c' = c \<and> sent_bytes new = drop offset buf \<or>
       r = -1 \<and> (\<exists>k. sent_bytes new = take k (drop offset buf)))"
proof (induction "length buf - offset" arbitrary: offset w l rule: less_induct)
  case less
  let ?m = "nat (min (int (length buf) - int offset) (write_chunk c))"
  let ?d = "take ?m (drop offset buf)"
  obtain r n w1 where tr: "lu_bulk_out L h (in_ep c) ?d (usb_write_timeout c) w = ((r, n), w1)"
    by (metis prod.exhaust)
  let ?ev = "Bulk_Out (in_ep c) ?d r n"
  show ?case
  proof (cases "offset < length buf \<and> 0 \<le> r")
    case False
    then show ?thesis
      using tr less.prems
      by (subst write_loop_step [OF _ _ order.strict_implies_order [OF chunk]])
        (auto simp: ftdi_error_return_def chunks_at_most_def intro!: exI [of _ 0])
  next
    case True
    then have "?d \<noteq> []" using chunk by (simp add: min_def)
    then have n: "0 < n" "n \<le> length ?d"
      using L tr True bulk_ok_out [OF L(1) tr] unfolding bulk_progress_def by blast+
    then have on: "offset + n \<le> length buf" by simp
    have "length buf - (offset + n) < length buf - offset" using True n(1) by linarith
    from less.hyps [OF this on, of w1 "l @ [?ev]"]
    obtain r2 c2 w2 new where IH:
        "write_loop (logging L) c h buf (int (length buf)) (int (offset + n)) (w1, l @ [?ev]) =
          Some (r2, Some c2, w2, (l @ [?ev]) @ new)"
        "chunks_at_most (nat (write_chunk c)) (in_ep c) new"
        "r2 = int (length buf) \<and> c2 = c \<and> sent_bytes new = drop (offset + n) buf \<or>
         r2 = -1 \<and> (\<exists>k. sent_bytes new = take k (drop (offset + n) buf))"
      by blast
    have run: "write_loop (logging L) c h buf (int (length buf)) (int offset) (w, l) =
        Some (r2, Some c2, w2, l @ (?ev # new))"
      using tr True IH(1) chunk by (subst write_loop_step) simp_all
    have chk: "chunks_at_most (nat (write_chunk c)) (in_ep c) (?ev # new)"
      using IH(2) by (simp add: chunks_at_most_def)
    have sent: "sent_bytes (?ev # new) = take n (drop offset buf) @ sent_bytes new"
    proof -
      have "n \<le> ?m" using n(2) by (simp only: length_take)
      then have "take n ?d = take n (drop offset buf)" by (simp only: take_take min_absorb1)
      then show ?thesis using True by (simp only: sent_bytes.simps if_True)
    qed
    have "take n (drop offset buf) @ drop (offset + n) buf = drop offset buf"
      by (metis append_take_drop_id drop_drop add.commute)
    moreover have "take n (drop offset buf) @ take k (drop (offset + n) buf) =
        take (n + k) (drop offset buf)" for k
      unfolding take_add drop_drop by (simp only: add.commute [of offset n])
    ultimately show ?thesis
      using run chk IH(3) sent by (metis (no_types, lifting))
  qed
qed

text \<open>With a chunk size of 0 and a device that reports no error the loop never ends.\<close>

lemma write_loop_hangs:
  assumes "bulk_ok L" and "\<And>h ep d t w. 0 \<le> fst (fst (lu_bulk_out L h ep d t w))"
    and "write_chunk c = 0" and "0 \<le> offset" and "offset < sz"
  shows "write_loop L c h buf sz offset w = None"
proof (rule ccontr)
  assume "write_loop L c h buf sz offset w \<noteq> None"
  then obtain res where res: "write_loop L c h buf sz offset w = Some res" by blast
  have "\<not> (bulk_ok L \<and> (\<forall>h ep d t w. 0 \<le> fst (fst (lu_bulk_out L h ep d t w))) \<and>
            write_chunk c = 0 \<and> 0 \<le> offset \<and> offset < sz)"
  proof (rule write_loop.raw_induct [OF _ res, where P = "\<lambda>L c h buf sz offset w res.
      \<not> (bulk_ok L \<and> (\<forall>h ep d t w. 0 \<le> fst (fst (lu_bulk_out L h ep d t w))) \<and>
         write_chunk c = 0 \<and> 0 \<le> offset \<and> offset < sz)"], goal_cases)
    case (1 f L c h buf sz offset w res)
    show ?case
    proof
      assume asm: "bulk_ok L \<and> (\<forall>h ep d t w. 0 \<le> fst (fst (lu_bulk_out L h ep d t w))) \<and>
         write_chunk c = 0 \<and> 0 \<le> offset \<and> offset < sz"
      have "wrap32 offset \<le> sz" using wrap32_le [of offset] asm by linarith
      then have "(if wrap32 (offset + 0) > sz then sz - offset else 0) = 0" by simp
      note size = this
      obtain r n w1 where tr: "lu_bulk_out L h (in_ep c) [] (usb_write_timeout c) w = ((r, n), w1)"
        by (metis prod.exhaust)
      have "n = 0" using bulk_ok_out [OF _ tr] asm by simp
      moreover have "0 \<le> r" using asm tr by (metis fst_conv)
      ultimately have "f L c h buf sz offset w1 = Some res"
        using 1(2) asm tr size by (simp add: Let_def split: if_splits)
      from 1(1) [OF this] asm show False by blast
    qed
  qed
  with assms show False by blast
qed

section \<open>A sequence of reads\<close>

text \<open>A client that calls \<open>ftdi_read_data\<close> for each size in turn and collects the bytes.\<close>

fun read_many :: "'w libusb \<Rightarrow> nat list \<Rightarrow> 'w st \<Rightarrow> (int \<times> byte list) outcome list \<times> 'w st" where
  "read_many L [] s = ([], s)"
| "read_many L (sz # szs) s =
     (case ftdi_read_data L sz s of
        (r, s1) \<Rightarrow> (case read_many L szs s1 of (rs, s2) \<Rightarrow> (r # rs, s2)))"

fun bytes_read :: "(int \<times> byte list) outcome list \<Rightarrow> byte list" where
  "bytes_read [] = []"
| "bytes_read (Ret (n, out) # rs) = out @ bytes_read rs"
| "bytes_read (_ # rs) = bytes_read rs"

definition read_failed :: "(int \<times> byte list) outcome \<Rightarrow> bool" where
  "read_failed r = (case r of Ret (n, _) \<Rightarrow> n < 0 | _ \<Rightarrow> True)"

lemma read_many_stream:
  assumes L: "bulk_ok L" and ps: "2 < ps"
  shows "ctx_wf c \<Longrightarrow> usb_dev c = Some h \<Longrightarrow> max_packet_size c = ps \<Longrightarrow>
    read_many (logging L) szs (Some c, w, l) = (rs, s') \<Longrightarrow>
    \<forall>r\<in>set rs. \<not> read_failed r \<Longrightarrow>
    \<exists>c' w' new. s' = (Some c', w', l @ new) \<and> ctx_wf c' \<and>
      bytes_read rs @ pending c' = pending c @ concat (map (strip_headers ps) (received new))"
proof (induction szs arbitrary: c w l rs s')
  case Nil
  then show ?case by auto
next
  case (Cons sz szs)
  obtain r s1 where one: "ftdi_read_data (logging L) sz (Some c, w, l) = (r, s1)"
    by (metis prod.exhaust)
  obtain rs2 s2 where rest: "read_many (logging L) szs s1 = (rs2, s2)"
    by (metis prod.exhaust)
  have rs: "rs = r # rs2" "s' = s2" using Cons.prems(4) one rest by simp_all
  have "2 < max_packet_size c" using ps Cons.prems(3) by simp
  from ftdi_read_data_done [OF L Cons.prems(1,2) this one] Cons.prems(3)
  obtain n out c1 w1 new1 where st: "r = Ret (n, out)" "s1 = (Some c1, w1, l @ new1)" "ctx_wf c1"
      "max_packet_size c1 = ps" "usb_dev c1 = Some h"
    and fin: "if sz \<le> readbuffer_remaining c then
          new1 = [] \<and> n = int sz \<and> length out = sz \<and> pending c = out @ pending c1
        else read_done ps sz (pending c) n out c1 new1"
    using Cons.prems(2) by auto
  have n: "0 \<le> n" using Cons.prems(5) rs(1) st(1) by (auto simp: read_failed_def)
  have first: "out @ pending c1 = pending c @ concat (map (strip_headers ps) (received new1))"
    using fin n by (auto simp: read_done_def split: if_splits)
  have "\<forall>r\<in>set rs2. \<not> read_failed r" using Cons.prems(5) rs(1) by simp
  from Cons.IH [OF st(3,5,4) rest [unfolded st(2)] this]
  obtain c' w' new where "s2 = (Some c', w', (l @ new1) @ new)" "ctx_wf c'"
      "bytes_read rs2 @ pending c' = pending c1 @ concat (map (strip_headers ps) (received new))"
    by blast
  moreover from this(3) first
  have "(out @ bytes_read rs2) @ pending c' =
      pending c @ concat (map (strip_headers ps) (received (new1 @ new)))"
    by (metis append_assoc concat_append map_append received_append)
  ultimately show ?case
    using rs st(1) by (intro exI [of _ c'] exI [of _ w'] exI [of _ "new1 @ new"]) simp
qed

section \<open>Properties of the data path\<close>

text \<open>C1: A sequence of reads is a byte stream. On any bus, whatever the sizes asked for, the
  bytes a sequence of successful \<open>ftdi_read_data\<close> calls stored, followed by what the context
  still keeps, are the bytes kept before followed by the payload of every bulk IN transfer
  the calls made, in order and with the two status bytes of each packet removed: no byte is
  lost, repeated or reordered across packets, transfers and calls.\<close>

theorem reads_form_a_stream:
  assumes "bulk_ok L" and "ctx_wf c" and "usb_dev c = Some h" and "2 < max_packet_size c"
    and "read_many (logging L) szs (Some c, w, l) = (rs, s')"
    and "\<forall>r\<in>set rs. \<not> read_failed r"
  shows "\<exists>c' w' new. s' = (Some c', w', l @ new) \<and> ctx_wf c' \<and>
    bytes_read rs @ pending c' =
      pending c @ concat (map (strip_headers (max_packet_size c)) (received new))"
  using read_many_stream [OF assms(1,4,2,3) refl assms(5,6)] .

theorem reads_form_a_stream_witness:
  "\<exists>c' w' new. snd (read_many (logging packet_usb) [1, 3]
       (Some tiny_context, [[1, 2, 7, 8, 1, 2, 9, 10], [1, 2]], [])) = (Some c', w', [] @ new) \<and>
     ctx_wf c' \<and> [7, 8, 9, 10] @ pending c' =
       pending tiny_context @ concat (map (strip_headers 4) (received new))"
proof -
  let ?s = "(Some tiny_context, [[1, 2, 7, 8, 1, 2, 9, 10], [1, 2]], [])"
  have run: "read_many (logging packet_usb) [1, 3] ?s =
      ([Ret (1, [7]), Ret (3, [8, 9, 10])], snd (read_many (logging packet_usb) [1, 3] ?s))"
    by code_simp
  show ?thesis
    using reads_form_a_stream [OF bulk_ok_packet _ _ _ run, of 1]
    by (simp add: read_failed_def)
qed

text \<open>C4: One call of \<open>ftdi_read_data\<close> always returns, keeps the context well-formed, and either
  fails with the code of its last transfer, dropping every byte it holds, or returns the
  number of bytes it stored, at most the size asked for; it stores fewer than that only when
  its last transfer brought a packet without payload.\<close>

theorem ftdi_read_data_result:
  assumes "bulk_ok L" and "ctx_wf c" and "usb_dev c = Some h" and "2 < max_packet_size c"
  shows "\<exists>n out c' w' new.
    ftdi_read_data (logging L) sz (Some c, w, l) = (Ret (n, out), Some c', w', l @ new) \<and>
    ctx_wf c' \<and>
    (0 \<le> n \<longrightarrow> n = int (length out) \<and> length out \<le> sz \<and>
      (length out < sz \<longrightarrow>
        (\<exists>ev ep k r d. new = ev @ [Bulk_In ep k r d] \<and> 0 \<le> r \<and> length d \<le> 2))) \<and>
    (n < 0 \<longrightarrow> pending c' = [] \<and> (\<exists>ev ep k d. new = ev @ [Bulk_In ep k n d]))"
proof -
  obtain r s' where run: "ftdi_read_data (logging L) sz (Some c, w, l) = (r, s')"
    by (metis prod.exhaust)
  from ftdi_read_data_done [OF assms run] show ?thesis
    unfolding run read_done_def by (auto split: if_splits)
qed

theorem ftdi_read_data_result_witness:
  "\<exists>n out c' w' new.
    ftdi_read_data (logging packet_usb) 9 (Some tiny_context, [[1, 2, 7, 8], [1, 2]], []) =
      (Ret (n, out), Some c', w', [] @ new) \<and> ctx_wf c' \<and> (0 \<le> n \<longrightarrow> n = int (length out))"
  using ftdi_read_data_result [OF bulk_ok_packet, of tiny_context 1 9
      "[[1, 2, 7, 8], [1, 2]]" "[]"]
  by (simp, blast)

text \<open>C5: When the write chunk size, which the loop reads as an \<open>int\<close>, is positive (so at least 1 and
  below 2^31), the size of the buffer and the chunk size together stay in the range of an
  \<open>int\<close>, and a transfer that does not fail moves at least one byte, \<open>ftdi_write_data\<close> returns:
  either the whole size, after bulk OUT transfers of at most the chunk size on the context's
  endpoint carried exactly the buffer in order, or -1, after a prefix of it.\<close>

theorem ftdi_write_data_complete:
  assumes "bulk_ok L" and "bulk_progress L" and "usb_dev c = Some h"
    and "0 < writebuffer_chunksize c" and "writebuffer_chunksize c < 2 ^ 31"
    and "int (length buf) + uint (writebuffer_chunksize c) < 2 ^ 31"
  shows "\<exists>r c' w' new.
    ftdi_write_data (logging L) buf (int (length buf)) (Some c, w, l) =
      Some (r, Some c', w', l @ new) \<and>
    chunks_at_most (unat (writebuffer_chunksize c)) (in_ep c) new \<and>
    (r = int (length buf) \<and> c' = c \<and> sent_bytes new = buf \<or>
     r = -1 \<and> (\<exists>k. sent_bytes new = take k buf))"
  using write_loop_complete [OF assms(1,2) write_chunk_positive [OF assms(4,5)], of 0 buf h w l] assms(3)
  by (simp add: ftdi_write_data_def with_dev_def write_chunk_small [OF assms(5)])

theorem ftdi_write_data_complete_witness:
  "\<exists>r c' w' new.
    ftdi_write_data (logging packet_usb) [1, 2, 3] 3 (Some tiny_context, [], []) =
      Some (r, Some c', w', [] @ new) \<and>
    (r = 3 \<and> sent_bytes new = [1, 2, 3] \<or> r = -1 \<and> (\<exists>k. sent_bytes new = take k [1, 2, 3]))"
  using ftdi_write_data_complete [OF bulk_ok_packet bulk_progress_packet,
      of tiny_context 1 "[1, 2, 3]" "[]" "[]"]
  by auto

text \<open>C17: With the chunk size 0, which \<open>ftdi_write_data_set_chunksize\<close> accepts,
  \<open>ftdi_write_data\<close> never returns on a bus that reports no error, however little there is to
  write.\<close>

theorem ftdi_write_data_zero_chunk_hangs:
  assumes "bulk_ok L" and "\<And>h ep d t w. 0 \<le> fst (fst (lu_bulk_out L h ep d t w))"
    and "usb_dev c = Some h" and "0 < sz"
  shows "ftdi_write_data L buf sz (snd (ftdi_write_data_set_chunksize 0 (Some c, w))) = None"
  using assms(3)
  by (simp add: ftdi_write_data_def ftdi_write_data_set_chunksize_def with_dev_def
      write_loop_hangs [OF assms(1,2) _ _ assms(4)] write_chunk_def)

theorem ftdi_write_data_zero_chunk_hangs_witness:
  "ftdi_write_data packet_usb [1] 1
     (snd (ftdi_write_data_set_chunksize 0 (Some tiny_context, []))) = None"
  by (rule ftdi_write_data_zero_chunk_hangs [of _ _ 1]) simp_all

end
