(* ===== verification/Ftdi_Baud.thy ===== *)
theory Ftdi_Baud
  imports Ftdi_Control
begin

unbundle bit_operations_syntax

text \<open>
  Baud rates (\<open>src/libftdi/ftdi.c\<close>): the choice and encoding of the clock divisor and
  \<open>ftdi_set_baudrate\<close>. The computations are on C \<open>int\<close>s. Two products can leave their range,
  \<open>baudrate*10\<close> and (in bitbang mode) \<open>baudrate*4\<close>; the definitions wrap them. The other
  products cannot: a divisor is at least 8, a returned rate at most 12000000, and the test for
  \<open>actual_baudrate * 2 < baudrate\<close> comes before the products of the tolerance test.
\<close>

section \<open>Divisors\<close>

abbreviation (input) frac_code :: "int list" where "frac_code \<equiv> [0, 3, 2, 4, 1, 5, 6, 7]"
abbreviation (input) am_adjust_up :: "int list" where "am_adjust_up \<equiv> [0, 0, 0, 1, 0, 3, 2, 1]"
abbreviation (input) am_adjust_dn :: "int list" where "am_adjust_dn \<equiv> [0, 0, 0, 1, 0, 1, 2, 3]"

definition am_try_divisor :: "int \<Rightarrow> int \<Rightarrow> int" where
  "am_try_divisor divisor i =
     (let try_divisor = divisor + i in
      if try_divisor \<le> 8 then 8
      else if divisor < 16 then 16
      else
        (let try_divisor = try_divisor + am_adjust_up ! nat (try_divisor AND 7) in
         if try_divisor > 0x1FFF8 then 0x1FFF8 else try_divisor))"

definition am_estimate :: "int \<Rightarrow> int" where
  "am_estimate try_divisor = (24000000 + try_divisor div 2) div try_divisor"

text \<open>The divisor the two rounds of the loop choose.\<close>

definition am_best_divisor :: "int \<Rightarrow> int \<Rightarrow> int" where
  "am_best_divisor rate divisor =
     (let d0 = am_try_divisor divisor 0;
          diff0 = \<bar>am_estimate d0 - rate\<bar>;
          d1 = am_try_divisor divisor 1;
          diff1 = \<bar>am_estimate d1 - rate\<bar> in
      if diff0 = 0 then d0 else if diff1 < diff0 then d1 else d0)"

definition encode_divisor :: "int \<Rightarrow> int" where
  "encode_divisor best_divisor =
     drop_bit 3 best_divisor OR push_bit 14 (frac_code ! nat (best_divisor AND 7))"

definition ftdi_to_clkbits_AM :: "int \<Rightarrow> int \<times> int" where
  "ftdi_to_clkbits_AM rate =
     (let divisor0 = 24000000 div rate;
          divisor = divisor0 - am_adjust_dn ! nat (divisor0 AND 7);
          best_divisor = am_best_divisor rate divisor;
          encoded_divisor = encode_divisor best_divisor in
      (am_estimate best_divisor,
       if encoded_divisor = 1 then 0 else if encoded_divisor = 0x4001 then 1 else encoded_divisor))"

definition ftdi_to_clkbits :: "int \<Rightarrow> int \<Rightarrow> int \<Rightarrow> int \<times> int" where
  "ftdi_to_clkbits rate clk clk_div =
     (if rate \<ge> clk div clk_div then (clk div clk_div, 0)
      else if rate \<ge> clk div (clk_div + clk_div div 2) then
        (clk div (clk_div + clk_div div 2), 1)
      else if rate \<ge> clk div (2 * clk_div) then (clk div (2 * clk_div), 2)
      else
        (let divisor = clk * 16 div clk_div div rate;
             best_divisor0 = (if divisor AND 1 \<noteq> 0 then divisor div 2 + 1 else divisor div 2);
             best_divisor = (if best_divisor0 > 0x20000 then 0x1ffff else best_divisor0);
             best_baud = clk * 16 div clk_div div best_divisor in
         (if best_baud AND 1 \<noteq> 0 then best_baud div 2 + 1 else best_baud div 2,
          encode_divisor best_divisor)))"

abbreviation (input) H_CLK :: int where "H_CLK \<equiv> 120000000"
abbreviation (input) C_CLK :: int where "C_CLK \<equiv> 48000000"

definition h_type :: "ftdi_chip_type \<Rightarrow> bool" where
  "h_type t = (t = TYPE_2232H \<or> t = TYPE_4232H \<or> t = TYPE_232H \<or> t = TYPE_230X)"

text \<open>
  The result is the returned rate and the two 16-bit words; on an error the words are not
  written.
\<close>

definition encoded_baud :: "int \<Rightarrow> ftdi_chip_type \<Rightarrow> int \<times> int" where
  "encoded_baud rate t =
     (if h_type t then
        (if wrap32 (rate * 10) > H_CLK div 0x3fff then
           (case ftdi_to_clkbits rate H_CLK 10 of (best, enc) \<Rightarrow> (best, enc OR 0x20000))
         else ftdi_to_clkbits rate C_CLK 16)
      else if t = TYPE_BM \<or> t = TYPE_2232C \<or> t = TYPE_R then ftdi_to_clkbits rate C_CLK 16
      else ftdi_to_clkbits_AM rate)"

definition ftdi_convert_baudrate :: "int \<Rightarrow> ftdi_context \<Rightarrow> int \<times> (u16 \<times> u16) option" where
  "ftdi_convert_baudrate rate c =
     (if rate \<le> 0 then (-1, None)
      else
        (case encoded_baud rate (ftype c) of
           (best_baud, encoded_divisor) \<Rightarrow>
             (let val = word_of_int (encoded_divisor AND 0xFFFF);
                  idx = (if h_type (ftype c)
                         then (word_of_int (drop_bit 8 encoded_divisor) AND 0xFF00) OR index16 c
                         else word_of_int (drop_bit 16 encoded_divisor)) in
              (best_baud, Some (val, idx)))))"

definition out_of_tolerance :: "int \<Rightarrow> int \<Rightarrow> bool" where
  "out_of_tolerance actual_baudrate rate \<longleftrightarrow>
     actual_baudrate * 2 < rate \<or>
     (if actual_baudrate < rate then actual_baudrate * 21 < rate * 20
      else rate * 21 < actual_baudrate * 20)"

definition ftdi_set_baudrate :: "'w libusb \<Rightarrow> int \<Rightarrow> 'w st \<Rightarrow> int \<times> 'w st" where
  "ftdi_set_baudrate L baudrate0 s =
     with_dev (ftdi_error_return (-3) ''USB device unavailable'')
       (\<lambda>c h w.
          let baud = (if bitbang_enabled c \<noteq> 0 then wrap32 (baudrate0 * 4) else baudrate0) in
          case ftdi_convert_baudrate baud c of
            (actual_baudrate, None) \<Rightarrow> ftdi_error_return (-1) ''Silly baudrate <= 0.'' (Some c, w)
          | (actual_baudrate, Some (val, idx)) \<Rightarrow>
              if actual_baudrate \<le> 0 then
                ftdi_error_return (-1) ''Silly baudrate <= 0.'' (Some c, w)
              else if out_of_tolerance actual_baudrate baud then
                ftdi_error_return (-1)
                  ''Unsupported baudrate. Note: bitbang baudrates are automatically multiplied by 4''
                  (Some c, w)
              else vendor_out L SIO_SET_BAUDRATE_REQUEST val idx
                     (-2) ''Setting new baudrate failed'' (\<lambda>c. c\<lparr>baudrate := baud\<rparr>) c h w) s"

section \<open>What the device makes of a divisor\<close>

text \<open>
  The device divides its base rate by a divisor given in eighths: bits 0 to 13 are the integral
  part, bits 14 to 16 a code of the fraction (application note AN120), and the encodings 0 and 1
  stand for the divisors 1 and 1.5.
\<close>

abbreviation (input) frac_of_code :: "int list" where "frac_of_code \<equiv> [0, 4, 2, 1, 3, 5, 6, 7]"

definition divisor_eighths :: "int \<Rightarrow> int" where
  "divisor_eighths enc =
     (if enc = 0 then 8 else if enc = 1 then 12
      else 8 * (enc AND 0x3FFF) + frac_of_code ! nat (drop_bit 14 enc AND 7))"

text \<open>
  The encoding as the device of type \<open>t\<close> puts it together from the two words of the request:
  without the clock switch, and the clock switch.
\<close>

definition received_divisor :: "ftdi_chip_type \<Rightarrow> u16 \<Rightarrow> u16 \<Rightarrow> int" where
  "received_divisor t val idx =
     uint val + 65536 * (if h_type t then uint (drop_bit 8 idx AND 1) else uint (idx AND 1))"

definition fast_clock :: "ftdi_chip_type \<Rightarrow> u16 \<Rightarrow> bool" where
  "fast_clock t idx \<longleftrightarrow> h_type t \<and> bit idx 9"

text \<open>\<open>b\<close> is the integer nearest to \<open>8 * base / d\<close>.\<close>

definition nearest_rate :: "int \<Rightarrow> int \<Rightarrow> int \<Rightarrow> bool" where
  "nearest_rate base d b \<longleftrightarrow> 2 * \<bar>b * d - 8 * base\<bar> \<le> d"

lemma and_7 [simp]: "(d :: int) AND 7 = d mod 8"
  using take_bit_eq_mask [of 3 d] by (simp add: mask_eq_exp_minus_1 take_bit_eq_mod)

lemma encode_divisor_plus:
  assumes "0 \<le> d" and "d < 0x20000"
  shows "encode_divisor d = d div 8 + 16384 * (frac_code ! nat (d mod 8))"
proof -
  have "take_bit 14 (d div 8) = d div 8"
    using assms by (intro take_bit_int_eq_self) auto
  then have "d div 8 OR push_bit 14 x = d div 8 + push_bit 14 x" for x
    using concat_bit_eq [of 14 "d div 8" x] by (simp add: concat_bit_def)
  then show ?thesis
    by (simp add: encode_divisor_def drop_bit_eq_div push_bit_eq_mult)
qed

lemma frac_code_range:
  assumes "0 \<le> f" and "f < (8::int)"
  shows "0 \<le> frac_code ! nat f \<and> frac_code ! nat f < 8 \<and> frac_of_code ! nat (frac_code ! nat f) = f"
proof -
  have "f \<in> {0, 1, 2, 3, 4, 5, 6, 7}" using assms by auto
  then show ?thesis by auto
qed

lemma decode_encode_divisor:
  assumes "16 \<le> d" and "d < 0x20000"
  shows "divisor_eighths (encode_divisor d) = d"
    and "0 \<le> encode_divisor d" and "encode_divisor d < 0x20000"
proof -
  define n f k where "n = d div 8" and "f = d mod 8" and "k = frac_code ! nat f"
  have k: "0 \<le> k" "k < 8" "frac_of_code ! nat k = f"
    using frac_code_range [of f] by (auto simp: k_def f_def)
  have n: "2 \<le> n" "n < 16384" and d: "d = 8 * n + f"
    using assms by (auto simp: n_def f_def)
  have enc: "encode_divisor d = n + 16384 * k"
    using encode_divisor_plus [of d] assms by (simp add: n_def f_def k_def)
  have "(n + 16384 * k) AND 0x3FFF = n"
    using take_bit_eq_mask [of 14 "n + 16384 * k"] n by (simp add: mask_eq_exp_minus_1 take_bit_eq_mod)
  moreover have "drop_bit 14 (n + 16384 * k) AND 7 = k"
    using n k by (simp add: drop_bit_eq_div)
  ultimately show "divisor_eighths (encode_divisor d) = d"
    using n k unfolding divisor_eighths_def enc by (simp add: d)
  show "0 \<le> encode_divisor d" "encode_divisor d < 0x20000"
    using n k by (simp_all add: enc)
qed

lemma received_divisor_split:
  assumes idx: "idx = (if h_type t then (word_of_int (drop_bit 8 e) AND 0xFF00) OR word_of_int i
                       else word_of_int (drop_bit 16 e))"
    and i: "0 \<le> i" "i < 256"
  shows "received_divisor t (word_of_int (e AND 0xFFFF)) idx = take_bit 17 e"
    and "fast_clock t idx \<longleftrightarrow> h_type t \<and> bit e 17"
proof -
  have ibit: "\<not> bit i n" if "8 \<le> n" for n
  proof -
    have "i = take_bit 8 i" using i by (simp add: take_bit_int_eq_self)
    then show ?thesis using that by (metis bit_take_bit_iff linorder_not_less)
  qed
  have hi: "bit (0xFF00 :: u16) 8" "bit (0xFF00 :: u16) 9" by simp_all
  have b16: "(if h_type t then bit idx 8 else bit idx 0) \<longleftrightarrow> bit e 16"
    using hi ibit [of 8] by (simp add: idx bit_simps)
  have one: "uint (w AND 1) = of_bool (bit w 0)" for w :: u16
    by (simp add: and_one_eq bit_0 odd_iff_mod_2_eq_one)
  have "uint (word_of_int (e AND 0xFFFF) :: u16) = take_bit 16 e"
    using take_bit_eq_mask [of 16 e] by (simp add: mask_eq_exp_minus_1 uint_word_of_int_eq)
  moreover have "(if h_type t then uint (drop_bit 8 idx AND 1) else uint (idx AND 1)) = of_bool (bit e 16)"
    using b16 by (auto simp: one bit_drop_bit_eq split: if_splits)
  moreover have "take_bit 17 e = take_bit 16 e + 65536 * of_bool (bit e 16)"
    using take_bit_Suc_from_most [of 16 e] by (simp add: add.commute mult.commute)
  ultimately show "received_divisor t (word_of_int (e AND 0xFFFF)) idx = take_bit 17 e"
    by (simp add: received_divisor_def)
  show "fast_clock t idx \<longleftrightarrow> h_type t \<and> bit e 17"
    using hi ibit [of 9] by (auto simp: fast_clock_def idx bit_simps)
qed

lemma nearest_div:
  assumes "0 < (d::int)" and "b = (a + d div 2) div d"
  shows "2 * \<bar>b * d - a\<bar> \<le> d"
proof -
  define p where "p = b * d"
  have "p \<le> a + d div 2" and "a + d div 2 < p + d"
    using assms by (simp_all add: p_def minus_mod_eq_div_mult [symmetric])
  moreover have "2 * (d div 2) \<le> d" and "d \<le> 2 * (d div 2) + 1" by presburger+
  ultimately have "2 * \<bar>p - a\<bar> \<le> d" by arith
  then show ?thesis by (simp add: p_def)
qed

lemma nearest_half_div:
  assumes "0 < (d::int)" and "x = a div d"
  shows "\<bar>((x + 1) div 2) * (2 * d) - a\<bar> \<le> d"
proof -
  have x: "x * d \<le> a" "a < x * d + d"
    using assms by (simp_all add: minus_mod_eq_div_mult [symmetric])
  have "x = 2 * (x div 2) \<or> x = 2 * (x div 2) + 1" by presburger
  then show ?thesis
  proof
    assume e: "x = 2 * (x div 2)"
    then have "(x + 1) div 2 = x div 2" by presburger
    then have "((x + 1) div 2) * (2 * d) = x * d" using e by (metis mult.assoc mult.commute)
    then show ?thesis using x by linarith
  next
    assume o: "x = 2 * (x div 2) + 1"
    then have "(x + 1) div 2 * 2 = x + 1" by presburger
    then have "((x + 1) div 2) * (2 * d) = x * d + d" by (metis mult.assoc mult.commute distrib_right mult_1)
    then show ?thesis using x by linarith
  qed
qed

lemma round_half: "(if (x::int) AND 1 \<noteq> 0 then x div 2 + 1 else x div 2) = (x + 1) div 2"
proof -
  have "x AND 1 = x mod 2" by (simp add: and_one_eq)
  then show ?thesis by presburger
qed

text \<open>The divisor \<open>ftdi_to_clkbits\<close> chooses below half of the base rate.\<close>

lemma clkbits_divisor:
  assumes base: "base = 3000000 \<or> base = (12000000::int) \<and> 733 \<le> rate"
    and rate: "0 < rate" "2 * rate < base"
    and d: "d = (16 * base div rate + 1) div 2"
  shows "16 \<le> d" and "d \<noteq> 0x20000" and "d > 0x20000 \<Longrightarrow> rate \<le> 183 \<and> base = 3000000"
proof -
  define q where "q = 16 * base div rate"
  have q: "q * rate \<le> 16 * base" "16 * base < q * rate + rate"
    using rate(1) by (simp_all add: q_def minus_mod_eq_div_mult [symmetric])
  have dq: "d = (q + 1) div 2" using d by (simp add: q_def)
  have "32 * rate \<le> 16 * base" using rate(2) by simp
  then have "32 * rate div rate \<le> q" unfolding q_def using rate(1) by (rule zdiv_mono1)
  then have "32 \<le> q" using rate(1) by simp
  then show "16 \<le> d" using dq by presburger
  have big: "rate \<le> 183 \<and> base = 3000000" if "262143 \<le> q"
  proof -
    have "262143 * rate \<le> q * rate" using that rate(1) by (intro mult_right_mono) auto
    then have "262143 * rate \<le> 16 * base" using q(1) by linarith
    then show ?thesis using base by linarith
  qed
  have small: "184 \<le> rate \<or> base \<noteq> 3000000" if "q \<le> 262144"
  proof -
    have "q * rate \<le> 262144 * rate" using that rate(1) by (intro mult_right_mono) auto
    then show ?thesis using q(2) by linarith
  qed
  show "d \<noteq> 0x20000"
  proof
    assume "d = 0x20000"
    then have "q = 262143 \<or> q = 262144" using dq by presburger
    then show False using big small by auto
  qed
  show "rate \<le> 183 \<and> base = 3000000" if "d > 0x20000"
    using that dq by (intro big) presburger
qed

lemma clkbits_nearest:
  assumes base: "base = 3000000 \<or> base = (12000000::int) \<and> 733 \<le> rate" and rate: "0 < rate"
    and clk: "clk div clk_div = base" "clk * 16 div clk_div = 16 * base"
      "clk div (clk_div + clk_div div 2) = 2 * base div 3" "clk div (2 * clk_div) = base div 2"
    and res: "ftdi_to_clkbits rate clk clk_div = (best, enc)"
  shows "nearest_rate base (divisor_eighths enc) best \<and> 0 \<le> enc \<and> enc < 0x20000"
proof (cases "rate < base div 2")
  case False
  then have "(best, enc) \<in> {(base, 0), (2 * base div 3, 1), (base div 2, 2)}"
    using res by (auto simp: ftdi_to_clkbits_def clk split: if_splits)
  then show ?thesis
    using base by (auto simp: nearest_rate_def divisor_eighths_def drop_bit_eq_div)
next
  case True
  define d0 where "d0 = (16 * base div rate + 1) div 2"
  define d where "d = (if d0 > 0x20000 then 0x1ffff else d0)"
  have lt: "2 * rate < base" using True by linarith
  note D = clkbits_divisor [OF base rate lt d0_def]
  have d: "16 \<le> d" "d < 0x20000" using D(1,2) by (auto simp: d_def)
  have "\<not> rate \<ge> 2 * base div 3" "\<not> rate \<ge> base"
    using True base rate by auto
  then have "best = (16 * base div d + 1) div 2" and enc: "enc = encode_divisor d"
    unfolding d_def d0_def using res True
    by (simp_all add: ftdi_to_clkbits_def clk Let_def round_half split del: if_split)
  then have "\<bar>best * (2 * d) - 16 * base\<bar> \<le> d"
    using nearest_half_div [of d _ "16 * base", OF _ refl] d by simp
  moreover have "best * (2 * d) - 16 * base = 2 * (best * d - 8 * base)" by simp
  ultimately have "2 * \<bar>best * d - 8 * base\<bar> \<le> d" by (simp only: abs_mult)
  then show ?thesis
    using decode_encode_divisor [OF d] by (simp add: nearest_rate_def enc)
qed

text \<open>The AM chips: the divisor is 1, or one of the supported divisors from 2 on.\<close>

lemma am_adjust_up_range:
  "0 \<le> am_adjust_up ! nat ((x :: int) mod 8)"
proof -
  have "x mod 8 \<in> {0, 1, 2, 3, 4, 5, 6, 7}"
    using pos_mod_bound [of 8 x] pos_mod_sign [of 8 x] by (simp del: pos_mod_bound pos_mod_sign) linarith
  then show ?thesis by auto
qed

lemma am_try_divisor_range:
  "am_try_divisor divisor i = 8 \<or> 16 \<le> am_try_divisor divisor i \<and> am_try_divisor divisor i < 0x20000"
  if "0 \<le> i"
  using that am_adjust_up_range [of "divisor + i"] by (auto simp: am_try_divisor_def Let_def)

lemma am_best_divisor_try:
  "am_best_divisor rate x = am_try_divisor x 0 \<or> am_best_divisor rate x = am_try_divisor x 1"
  by (simp add: am_best_divisor_def Let_def)

lemma am_nearest:
  assumes "ftdi_to_clkbits_AM rate = (best, enc)"
  shows "nearest_rate 3000000 (divisor_eighths enc) best \<and> 0 \<le> enc \<and> enc < 0x20000"
proof -
  define x where "x = 24000000 div rate - am_adjust_dn ! nat (24000000 div rate AND 7)"
  define d where "d = am_best_divisor rate x"
  have d: "d = 8 \<or> 16 \<le> d \<and> d < 0x20000"
    using am_best_divisor_try [of rate x] am_try_divisor_range [of 0 x] am_try_divisor_range [of 1 x]
    unfolding d_def by (elim disjE) simp_all
  have "(am_estimate d, if encode_divisor d = 1 then 0 else if encode_divisor d = 0x4001 then 1
      else encode_divisor d) = (best, enc)"
    using assms unfolding ftdi_to_clkbits_AM_def Let_def d_def x_def .
  then have best: "best = am_estimate d"
    and enc: "enc = (if encode_divisor d = 1 then 0 else if encode_divisor d = 0x4001 then 1
                     else encode_divisor d)"
    by simp_all
  have rate: "2 * \<bar>best * d - 24000000\<bar> \<le> d"
    using nearest_div [of d best 24000000] d best by (auto simp: am_estimate_def)
  have "divisor_eighths enc = d \<and> 0 \<le> enc \<and> enc < 0x20000"
  proof (cases "d = 8")
    case True
    then show ?thesis by (simp add: enc encode_divisor_plus divisor_eighths_def)
  next
    case False
    then have r: "16 \<le> d" "d < 0x20000" using d by auto
    note dec = decode_encode_divisor [OF r]
    have "encode_divisor d \<noteq> 1" "encode_divisor d \<noteq> 0x4001"
      using dec(1) r by (auto simp: divisor_eighths_def drop_bit_eq_div)
    then show ?thesis using dec by (simp add: enc)
  qed
  then show ?thesis using rate by (simp add: nearest_rate_def)
qed

abbreviation base_rate :: "ftdi_chip_type \<Rightarrow> u16 \<Rightarrow> int" where
  "base_rate t idx \<equiv> (if fast_clock t idx then 12000000 else 3000000)"

lemma bit_17_small: "0 \<le> e \<Longrightarrow> e < 0x20000 \<Longrightarrow> \<not> bit (e :: int) 17"
  using bit_take_bit_iff [of 17 e 17] by (simp add: take_bit_int_eq_self)

lemma encoded_baud_nearest:
  assumes rate: "0 < rate" and res: "encoded_baud rate t = (best, e)"
  shows "nearest_rate (if h_type t \<and> bit e 17 then 12000000 else 3000000)
           (divisor_eighths (take_bit 17 e)) best"
    and "h_type t \<and> bit e 17 \<longleftrightarrow> h_type t \<and> 7324 < wrap32 (rate * 10)"
proof -
  have slow: "nearest_rate 3000000 (divisor_eighths e') b \<and> 0 \<le> e' \<and> e' < 0x20000"
    if "ftdi_to_clkbits rate C_CLK 16 = (b, e')" for b e'
    by (rule clkbits_nearest [OF _ rate _ _ _ _ that]) simp_all
  have ge: "733 \<le> rate" if "7324 < wrap32 (rate * 10)"
    using that wrap32_le [of "rate * 10"] rate by linarith
  consider (fast) "h_type t" "7324 < wrap32 (rate * 10)" | (slow2) "ftdi_to_clkbits rate C_CLK 16 = (best, e)"
      "\<not> (h_type t \<and> 7324 < wrap32 (rate * 10))" | (am) "ftdi_to_clkbits_AM rate = (best, e)" "\<not> h_type t"
    using res by (auto simp: encoded_baud_def split: if_splits prod.splits)
  then have "nearest_rate (if h_type t \<and> bit e 17 then 12000000 else 3000000)
           (divisor_eighths (take_bit 17 e)) best \<and>
      (h_type t \<and> bit e 17 \<longleftrightarrow> h_type t \<and> 7324 < wrap32 (rate * 10))"
  proof cases
    case fast
    obtain e' where e': "ftdi_to_clkbits rate H_CLK 10 = (best, e')" "e = e' OR 0x20000"
      using res fast by (auto simp: encoded_baud_def split: prod.splits)
    have n: "nearest_rate 12000000 (divisor_eighths e') best" "0 \<le> e'" "e' < 0x20000"
      using clkbits_nearest [OF _ rate _ _ _ _ e'(1), of 12000000] fast ge by simp_all
    have "bit (0x20000 :: int) 17" by simp
    then have "bit e 17" by (simp add: e'(2) bit_or_iff)
    moreover have "take_bit 17 e = e'"
      using n by (simp add: e'(2) take_bit_or take_bit_int_eq_self)
    ultimately show ?thesis using n fast by simp
  next
    case slow2
    then show ?thesis
      using slow [OF slow2(1)] bit_17_small [of e] by (auto simp: take_bit_int_eq_self)
  next
    case am
    then show ?thesis
      using am_nearest [OF am(1)] bit_17_small [of e] by (auto simp: take_bit_int_eq_self)
  qed
  then show "nearest_rate (if h_type t \<and> bit e 17 then 12000000 else 3000000)
           (divisor_eighths (take_bit 17 e)) best"
    and "h_type t \<and> bit e 17 \<longleftrightarrow> h_type t \<and> 7324 < wrap32 (rate * 10)"
    by blast+
qed

lemma convert_baudrate_encodes:
  assumes "0 < rate" and i: "0 \<le> index c" "index c < 256"
  shows "\<exists>best val idx. ftdi_convert_baudrate rate c = (best, Some (val, idx)) \<and>
    nearest_rate (base_rate (ftype c) idx)
      (divisor_eighths (received_divisor (ftype c) val idx)) best \<and>
    best = fst (encoded_baud rate (ftype c)) \<and>
    (fast_clock (ftype c) idx \<longleftrightarrow> h_type (ftype c) \<and> 7324 < wrap32 (rate * 10))"
proof -
  obtain best e where be: "encoded_baud rate (ftype c) = (best, e)" by (metis prod.exhaust)
  define idx where "idx = (if h_type (ftype c)
      then (word_of_int (drop_bit 8 e) AND 0xFF00) OR index16 c else word_of_int (drop_bit 16 e))"
  note split = received_divisor_split [OF idx_def i]
  show ?thesis
    using encoded_baud_nearest [OF assms(1) be] assms(1) be split
    by (intro exI [of _ best] exI [of _ "word_of_int (e AND 0xFFFF)"] exI [of _ idx])
      (simp add: ftdi_convert_baudrate_def idx_def [symmetric])
qed

text \<open>The clock switch, where \<open>baudrate*10\<close> does not overflow.\<close>

lemma fast_clock_bound: "rate \<le> 214748364 \<Longrightarrow> 0 < rate \<Longrightarrow> 7324 < wrap32 (rate * 10) \<longleftrightarrow> 733 \<le> rate"
  by (subst wrap32_id) auto

text \<open>C9: For every positive rate up to 214748364 Baud (beyond it \<open>baudrate*10\<close> overflows an \<open>int\<close>)
  and every chip, the two words \<open>ftdi_convert_baudrate\<close> computes encode a divisor without loss:
  put together again as the device does (the clock switch of the H chips, 14 integral bits, the
  fraction code, the special codes of 1 and 1.5), they give a divisor of the base rate whose
  quotient, rounded to the nearest integer, is the rate the function returns. Among these rates
  the fast clock is chosen exactly on the H chips from 733 Baud on.\<close>

theorem convert_baudrate_device_rate:
  assumes "0 < rate" and "rate \<le> 214748364" and "0 \<le> index c" and "index c < 256"
  shows "\<exists>best val idx. ftdi_convert_baudrate rate c = (best, Some (val, idx)) \<and>
    nearest_rate (base_rate (ftype c) idx)
      (divisor_eighths (received_divisor (ftype c) val idx)) best \<and>
    (fast_clock (ftype c) idx \<longleftrightarrow> h_type (ftype c) \<and> 733 \<le> rate)"
  using convert_baudrate_encodes [OF assms(1,3,4)] unfolding fast_clock_bound [OF assms(2,1)] by blast

theorem convert_baudrate_device_rate_witness:
  "\<exists>best val idx. ftdi_convert_baudrate 115200 sample_context = (best, Some (val, idx)) \<and>
    nearest_rate 12000000 (divisor_eighths (received_divisor TYPE_2232H val idx)) best"
proof -
  have "ftype sample_context = TYPE_2232H" "index sample_context = 1" "h_type TYPE_2232H"
    by (simp_all add: sample_context_def h_type_def)
  then show ?thesis
    using convert_baudrate_device_rate [of 115200 sample_context] by auto
qed

text \<open>Below half of the base rate the divisor is precise enough for the tolerance test.\<close>

lemma nearest_in_tolerance:
  assumes "\<bar>d * (2 * rate) - a\<bar> \<le> rate" and "\<bar>b * (2 * d) - a\<bar> \<le> d"
    and "183 \<le> rate" and d: "16 \<le> (d :: int)"
  shows "\<not> out_of_tolerance b rate \<and> 0 < b"
proof -
  define x where "x = \<bar>b - rate\<bar>"
  have "\<bar>b * (2 * d) - d * (2 * rate)\<bar> \<le> rate + d" using assms(1,2) by linarith
  moreover have "b * (2 * d) - d * (2 * rate) = 2 * d * (b - rate)" by (simp add: algebra_simps)
  ultimately have "2 * d * x \<le> rate + d" using d by (simp add: abs_mult x_def)
  then have dx: "d * (2 * x - 1) \<le> rate" by (simp add: algebra_simps)
  have "32 * x \<le> rate + 16"
  proof (cases "x = 0")
    case True
    then show ?thesis using assms(3) by simp
  next
    case False
    then have "1 \<le> x" by (simp add: x_def)
    then have "16 * (2 * x - 1) \<le> d * (2 * x - 1)" using d by (intro mult_right_mono) auto
    then have "16 * (2 * x - 1) \<le> rate" using dx by (rule order_trans)
    then show ?thesis by presburger
  qed
  then show ?thesis using assms(3) unfolding out_of_tolerance_def x_def by (auto simp: abs_if split: if_splits)
qed

lemma clkbits_in_tolerance:
  assumes base: "base = 3000000 \<or> base = (12000000::int) \<and> 733 \<le> rate"
    and rate: "183 \<le> rate" "2 * rate \<le> base"
    and clk: "clk div clk_div = base" "clk * 16 div clk_div = 16 * base"
      "clk div (clk_div + clk_div div 2) = 2 * base div 3" "clk div (2 * clk_div) = base div 2"
  shows "\<not> out_of_tolerance (fst (ftdi_to_clkbits rate clk clk_div)) rate \<and>
    0 < fst (ftdi_to_clkbits rate clk clk_div)"
proof (cases "rate < base div 2")
  case False
  then have "rate = base div 2" using base rate by auto
  then show ?thesis
    using base by (auto simp: ftdi_to_clkbits_def clk out_of_tolerance_def)
next
  case True
  define d0 where "d0 = (16 * base div rate + 1) div 2"
  define d where "d = (if d0 > 0x20000 then 0x1ffff else d0)"
  define b where "b = (16 * base div d + 1) div 2"
  have pos: "0 < rate" and lt: "2 * rate < base" using rate True by linarith+
  note D = clkbits_divisor [OF base pos lt d0_def]
  have d: "16 \<le> d" "d < 0x20000" using D(1,2) by (auto simp: d_def)
  have "\<not> rate \<ge> 2 * base div 3" "\<not> rate \<ge> base" using True base rate by auto
  then have res: "fst (ftdi_to_clkbits rate clk clk_div) = b"
    unfolding b_def d_def d0_def using True
    by (simp add: ftdi_to_clkbits_def clk Let_def round_half split del: if_split)
  show ?thesis
  proof (cases "d0 > 0x20000")
    case capped: True
    then have "rate = 183 \<and> base = 3000000" using D(3) rate(1) by simp
    moreover have "d = 0x1ffff" using capped by (simp add: d_def)
    ultimately show ?thesis unfolding res b_def by (simp add: out_of_tolerance_def)
  next
    case False
    then have "d = d0" by (simp add: d_def)
    then have "\<bar>d * (2 * rate) - 16 * base\<bar> \<le> rate"
      using nearest_half_div [OF pos refl, of "16 * base"] by (simp add: d0_def)
    moreover have "\<bar>b * (2 * d) - 16 * base\<bar> \<le> d"
      using nearest_half_div [of d _ "16 * base", OF _ refl] d by (simp add: b_def)
    ultimately show ?thesis
      unfolding res using rate(1) d(1) by (intro nearest_in_tolerance)
  qed
qed

lemma encoded_baud_in_tolerance:
  assumes "t \<noteq> TYPE_AM" and "183 \<le> rate" and "rate \<le> (if h_type t then 6000000 else 1500000)"
  shows "\<not> out_of_tolerance (fst (encoded_baud rate t)) rate \<and> 0 < fst (encoded_baud rate t)"
proof (cases "h_type t \<and> 733 \<le> rate")
  case True
  then have "wrap32 (rate * 10) = rate * 10" using assms(3) by (intro wrap32_id) auto
  then have fast: "7324 < wrap32 (rate * 10)" using True by simp
  have "\<not> out_of_tolerance (fst (ftdi_to_clkbits rate H_CLK 10)) rate \<and>
      0 < fst (ftdi_to_clkbits rate H_CLK 10)"
    by (rule clkbits_in_tolerance [of 12000000]) (use True assms in simp_all)
  then show ?thesis using True fast by (auto simp: encoded_baud_def split: prod.splits)
next
  case False
  have "wrap32 (rate * 10) = rate * 10" using assms(2,3) by (intro wrap32_id) (auto split: if_splits)
  then have slow: "\<not> (h_type t \<and> 7324 < wrap32 (rate * 10))" using False by auto
  have "\<not> out_of_tolerance (fst (ftdi_to_clkbits rate C_CLK 16)) rate \<and>
      0 < fst (ftdi_to_clkbits rate C_CLK 16)"
    by (rule clkbits_in_tolerance [of 3000000]) (use False assms in \<open>auto split: if_splits\<close>)
  moreover have "t = TYPE_BM \<or> t = TYPE_2232C \<or> t = TYPE_R \<or> h_type t"
    using assms(1) by (cases t) (auto simp: h_type_def)
  ultimately show ?thesis using slow by (auto simp: encoded_baud_def split: if_splits)
qed

text \<open>C10: Outside bitbang mode every chip but the AM accepts all rates from 183 Baud to half of
  its base rate (1.5 MBaud, or 6 MBaud on the H chips): \<open>ftdi_set_baudrate\<close> then makes exactly
  one request, fails with -2 only if the transfer does, and otherwise records the rate. The
  request's words encode a divisor whose rate is within the code's tolerance of the rate asked
  for.\<close>

theorem set_baudrate_accepts:
  assumes "usb_dev c = Some h" and "bitbang_enabled c = 0" and "0 \<le> index c" and "index c < 256"
    and "ftype c \<noteq> TYPE_AM" and "183 \<le> rate"
    and "rate \<le> (if h_type (ftype c) then 6000000 else 1500000)"
  shows "\<exists>best val idx r d c' w'.
    ftdi_set_baudrate (logging L) rate (Some c, w, l) =
      ((if r < 0 then -2 else 0), Some c', w',
       l @ [Control \<lparr>cs_dev = h, cs_reqtype = FTDI_DEVICE_OUT_REQTYPE,
              cs_request = SIO_SET_BAUDRATE_REQUEST, cs_value = val, cs_index = idx, cs_length = 0,
              cs_timeout = usb_write_timeout c\<rparr> r d]) \<and>
    (0 \<le> r \<longrightarrow> baudrate c' = rate) \<and> \<not> out_of_tolerance best rate \<and>
    nearest_rate (base_rate (ftype c) idx)
      (divisor_eighths (received_divisor (ftype c) val idx)) best"
proof -
  have pos: "0 < rate" using assms(6) by simp
  from convert_baudrate_encodes [OF pos assms(3,4)]
  obtain best val idx where conv: "ftdi_convert_baudrate rate c = (best, Some (val, idx))"
    and near: "nearest_rate (base_rate (ftype c) idx)
      (divisor_eighths (received_divisor (ftype c) val idx)) best"
    and best: "best = fst (encoded_baud rate (ftype c))"
    by blast
  have tol: "\<not> out_of_tolerance best rate" "0 < best"
    using encoded_baud_in_tolerance [OF assms(5-7)] by (simp_all add: best)
  obtain r d w' where tr: "lu_control_transfer L
      \<lparr>cs_dev = h, cs_reqtype = FTDI_DEVICE_OUT_REQTYPE, cs_request = SIO_SET_BAUDRATE_REQUEST,
       cs_value = val, cs_index = idx, cs_length = 0, cs_timeout = usb_write_timeout c\<rparr> w = ((r, d), w')"
    by (metis prod.exhaust)
  have run: "ftdi_set_baudrate (logging L) rate (Some c, w, l) =
      ((if r < 0 then -2 else 0),
       Some (if r < 0 then c\<lparr>error_str := Some ''Setting new baudrate failed''\<rparr>
             else c\<lparr>baudrate := rate\<rparr>), w',
       l @ [Control \<lparr>cs_dev = h, cs_reqtype = FTDI_DEVICE_OUT_REQTYPE,
              cs_request = SIO_SET_BAUDRATE_REQUEST, cs_value = val, cs_index = idx, cs_length = 0,
              cs_timeout = usb_write_timeout c\<rparr> r d])"
    using tr tol conv assms(1,2) by (simp add: ftdi_set_baudrate_def call_defs vendor_out_def)
  show ?thesis
    by (rule exI [of _ best], rule exI [of _ val], rule exI [of _ idx], rule exI [of _ r],
        rule exI [of _ d], rule exI, rule exI, intro conjI, rule run) (use near tol in simp_all)
qed

theorem set_baudrate_accepts_witness:
  "\<exists>best val idx r d c' w'.
    ftdi_set_baudrate (logging packet_usb) 921600 (Some tiny_context, [], []) =
      ((if r < 0 then -2 else 0), Some c', w',
       [] @ [Control \<lparr>cs_dev = 1, cs_reqtype = FTDI_DEVICE_OUT_REQTYPE,
              cs_request = SIO_SET_BAUDRATE_REQUEST, cs_value = val, cs_index = idx, cs_length = 0,
              cs_timeout = usb_write_timeout tiny_context\<rparr> r d]) \<and>
    (0 \<le> r \<longrightarrow> baudrate c' = 921600) \<and> \<not> out_of_tolerance best 921600 \<and>
    nearest_rate (base_rate (ftype tiny_context) idx)
      (divisor_eighths (received_divisor (ftype tiny_context) val idx)) best"
proof -
  have t: "bitbang_enabled tiny_context = 0" "index tiny_context = 1"
      "ftype tiny_context = TYPE_2232H" "h_type TYPE_2232H"
    by (simp_all add: tiny_context_def sample_context_def h_type_def)
  show ?thesis
    by (rule set_baudrate_accepts) (simp_all add: t)
qed

end
