(* ===== verification/Ftdi_Open.thy ===== *)
theory Ftdi_Open
  imports Ftdi_Baud
begin

text \<open>
  Finding and opening devices (\<open>src/libftdi/ftdi.c\<close>): enumeration, string descriptors, the
  packet size of the device and \<open>ftdi_usb_open_dev\<close> with its error paths. A device list is the
  list of libusb devices; the reference counts of libusb's devices and lists are not modelled.
\<close>

section \<open>Enumerating devices\<close>

definition matches_ids :: "int \<Rightarrow> int \<Rightarrow> device_descriptor \<Rightarrow> bool" where
  "matches_ids vendor prd desc \<longleftrightarrow>
     (vendor \<noteq> 0 \<and> prd \<noteq> 0) \<and> idVendor desc = vendor \<and> idProduct desc = prd \<or>
     (vendor = 0 \<and> prd = 0) \<and> idVendor desc = 0x403 \<and>
       (idProduct desc = 0x6001 \<or> idProduct desc = 0x6010 \<or>
        idProduct desc = 0x6011 \<or> idProduct desc = 0x6014)"

text \<open>
  The loop over the devices: \<open>found\<close> is the list built so far; the result is \<open>Inl\<close> of the
  error or \<open>Inr\<close> of the count, with the list as it is left. \<open>alloc k\<close> says whether the
  allocation of the entry at \<open>k\<close> succeeds.
\<close>

fun find_loop ::
  "'w libusb \<Rightarrow> (nat \<Rightarrow> bool) \<Rightarrow> int \<Rightarrow> int \<Rightarrow> handle list \<Rightarrow> handle list \<Rightarrow> 'w
   \<Rightarrow> ((int \<times> string) + int) \<times> handle list \<times> 'w"
where
  "find_loop L alloc vendor prd [] found w = (Inr (int (length found)), found, w)"
| "find_loop L alloc vendor prd (dev # devs) found w =
     (case lu_get_device_descriptor L dev w of
        ((r, desc), w') \<Rightarrow>
          if r < 0 then (Inl (-6, ''libusb_get_device_descriptor() failed''), found, w')
          else if matches_ids vendor prd desc then
            (if \<not> alloc (length found) then (Inl (-3, ''out of memory''), found, w')
             else find_loop L alloc vendor prd devs (found @ [dev]) w')
          else find_loop L alloc vendor prd devs found w')"

text \<open>The context is dereferenced without a test.\<close>

definition ftdi_usb_find_all ::
  "'w libusb \<Rightarrow> (nat \<Rightarrow> bool) \<Rightarrow> int \<Rightarrow> int \<Rightarrow> 'w st \<Rightarrow> (int \<times> handle list option) outcome \<times> 'w st"
where
  "ftdi_usb_find_all L alloc vendor prd s =
     (case fst s of
        None \<Rightarrow> (Crashes, s)
      | Some c \<Rightarrow>
          (case lu_get_device_list L (usb_ctx c) (snd s) of
             ((r, devs), w) \<Rightarrow>
               if r < 0 then
                 (case ftdi_error_return (-5) ''libusb_get_device_list() failed'' (Some c, w) of
                    (e, s') \<Rightarrow> (Ret (e, None), s'))
               else
                 (case find_loop L alloc vendor prd devs [] w of
                    (Inl (code, msg), found, w') \<Rightarrow>
                      (case ftdi_error_return code msg (Some c, w') of
                         (e, s') \<Rightarrow> (Ret (e, Some found), s'))
                  | (Inr n, found, w') \<Rightarrow> (Ret (n, Some found), Some c, w'))))"

section \<open>String descriptors\<close>

text \<open>
  One of the three string requests of \<open>ftdi_usb_get_strings\<close>; \<open>want\<close> is the size of the
  caller's buffer, \<open>None\<close> for a NULL buffer.
\<close>

definition fetch_string ::
  "'w libusb \<Rightarrow> int \<Rightarrow> int \<Rightarrow> nat option \<Rightarrow> ftdi_context \<Rightarrow> handle \<Rightarrow> 'w
   \<Rightarrow> ((int \<times> 'w st) + string option) \<times> 'w"
where
  "fetch_string L code idx want c h w =
     (case want of
        None \<Rightarrow> (Inr None, w)
      | Some len \<Rightarrow>
          (case lu_get_string_descriptor_ascii L h idx len w of
             ((r, str), w') \<Rightarrow>
               if r < 0 then
                 (Inl (ftdi_error_return code ''libusb_get_string_descriptor_ascii() failed''
                         (ftdi_usb_close_internal L (Some c, w'))), w')
               else (Inr (Some str), w')))"

definition ftdi_usb_get_strings ::
  "'w libusb \<Rightarrow> handle option \<Rightarrow> nat option \<Rightarrow> nat option \<Rightarrow> nat option \<Rightarrow> 'w st
   \<Rightarrow> (int \<times> (string option \<times> string option \<times> string option)) \<times> 'w st"
where
  "ftdi_usb_get_strings L dev mnf_len desc_len serial_len s =
     (let fail = (\<lambda>strs res. case res of (r, s') \<Rightarrow> ((r, strs), s')) in
      case (fst s, dev) of
        (Some c, Some d) \<Rightarrow>
          (case lu_open L d (snd s) of
             ((r, h), w1) \<Rightarrow>
               if r < 0 then
                 fail (None, None, None) (ftdi_error_return (-4) ''libusb_open() failed'' (Some c, w1))
               else
                 (let c1 = c\<lparr>usb_dev := Some h\<rparr> in
                  case lu_get_device_descriptor L d w1 of
                    ((r2, desc), w2) \<Rightarrow>
                      if r2 < 0 then
                        fail (None, None, None)
                          (ftdi_error_return (-11) ''libusb_get_device_descriptor() failed''
                             (Some c1, w2))
                      else
                        (case fetch_string L (-7) (iManufacturer desc) mnf_len c1 h w2 of
                           (Inl res, _) \<Rightarrow> fail (None, None, None) res
                         | (Inr m, w3) \<Rightarrow>
                             (case fetch_string L (-8) (iProduct desc) desc_len c1 h w3 of
                                (Inl res, _) \<Rightarrow> fail (m, None, None) res
                              | (Inr p, w4) \<Rightarrow>
                                  (case fetch_string L (-9) (iSerialNumber desc) serial_len c1 h w4 of
                                     (Inl res, _) \<Rightarrow> fail (m, p, None) res
                                   | (Inr sn, w5) \<Rightarrow>
                                       ((0, (m, p, sn)),
                                        ftdi_usb_close_internal L (Some c1, w5)))))))
      | _ \<Rightarrow> ((-1, (None, None, None)), s))"

section \<open>Opening a device\<close>

definition ftdi_determine_max_packet_size ::
  "'w libusb \<Rightarrow> ftdi_context option \<Rightarrow> handle option \<Rightarrow> 'w \<Rightarrow> nat \<times> 'w"
where
  "ftdi_determine_max_packet_size L ftdi dev w =
     (case (ftdi, dev) of
        (Some c, Some d) \<Rightarrow>
          (let packet_size = (if h_type (ftype c) then 512 else 64) in
           case lu_get_device_descriptor L d w of
             ((r, desc), w1) \<Rightarrow>
               if r < 0 then (packet_size, w1)
               else
                 (case lu_get_config_descriptor L d w1 of
                    ((r2, config0), w2) \<Rightarrow>
                      if r2 < 0 then (packet_size, w2)
                      else if 0 < bNumConfigurations desc \<and>
                              nat (interface c) < length (cfg_interfaces config0) then
                        (case cfg_interfaces config0 ! nat (interface c) of
                           (ep # _) # _ \<Rightarrow> (ep, w2)
                         | _ \<Rightarrow> (packet_size, w2))
                      else (packet_size, w2)))
      | _ \<Rightarrow> (64, w))"

definition chip_of_descriptor :: "device_descriptor \<Rightarrow> ftdi_chip_type \<Rightarrow> ftdi_chip_type" where
  "chip_of_descriptor desc old =
     (if bcdDevice desc = 0x400 \<or> (bcdDevice desc = 0x200 \<and> iSerialNumber desc = 0) then TYPE_BM
      else if bcdDevice desc = 0x200 then TYPE_AM
      else if bcdDevice desc = 0x500 then TYPE_2232C
      else if bcdDevice desc = 0x600 then TYPE_R
      else if bcdDevice desc = 0x700 then TYPE_2232H
      else if bcdDevice desc = 0x800 then TYPE_4232H
      else if bcdDevice desc = 0x900 then TYPE_232H
      else if bcdDevice desc = 0x1000 then TYPE_230X
      else old)"

abbreviation (input) EPERM :: int where "EPERM \<equiv> 1"

text \<open>\<open>ftdi_usb_close_internal(ftdi); ftdi_error_return(...)\<close>.\<close>

definition close_and_fail :: "'w libusb \<Rightarrow> int \<Rightarrow> string \<Rightarrow> 'w st \<Rightarrow> int \<times> 'w st" where
  "close_and_fail L code msg s = ftdi_error_return code msg (ftdi_usb_close_internal L s)"

text \<open>From the claim of the interface on.\<close>

definition open_claimed ::
  "'w libusb \<Rightarrow> handle \<Rightarrow> device_descriptor \<Rightarrow> int \<Rightarrow> ftdi_context \<Rightarrow> handle \<Rightarrow> 'w \<Rightarrow> int \<times> 'w st"
where
  "open_claimed L dev desc detach_errno c h w =
     (case lu_claim_interface L h (interface c) w of
        (r, w1) \<Rightarrow>
          if r < 0 then
            (if detach_errno = EPERM then
               close_and_fail L (-8) ''inappropriate permissions on device!'' (Some c, w1)
             else close_and_fail L (-5)
                    ''unable to claim usb device. Make sure the default FTDI driver is not in use''
                    (Some c, w1))
          else
            (case ftdi_usb_reset L (Some c, w1) of
               (r2, s2) \<Rightarrow>
                 if r2 \<noteq> 0 then close_and_fail L (-6) ''ftdi_usb_reset failed'' s2
                 else
                   (let c3 = (the (fst s2))\<lparr>ftype := chip_of_descriptor desc (ftype c)\<rparr> in
                    case ftdi_determine_max_packet_size L (Some c3) (Some dev) (snd s2) of
                      (ps, w4) \<Rightarrow>
                        (case ftdi_set_baudrate L 9600 (Some (c3\<lparr>max_packet_size := ps\<rparr>), w4) of
                           (r5, s5) \<Rightarrow>
                             if r5 \<noteq> 0 then close_and_fail L (-7) ''set baudrate failed'' s5
                             else ftdi_error_return 0 ''all fine'' s5))))"

definition ftdi_usb_open_dev :: "'w libusb \<Rightarrow> handle \<Rightarrow> 'w st \<Rightarrow> int \<times> 'w st" where
  "ftdi_usb_open_dev L dev s =
     (case fst s of
        None \<Rightarrow> ftdi_error_return (-8) ''ftdi context invalid'' s
      | Some c0 \<Rightarrow>
          (case lu_open L dev (snd s) of
             ((r, h), w1) \<Rightarrow>
               if r < 0 then ftdi_error_return (-4) ''libusb_open() failed'' (Some c0, w1)
               else
                 (let c = c0\<lparr>usb_dev := Some h\<rparr> in
                  case lu_get_device_descriptor L dev w1 of
                    ((r2, desc), w2) \<Rightarrow>
                      if r2 < 0 then
                        ftdi_error_return (-9) ''libusb_get_device_descriptor() failed'' (Some c, w2)
                      else
                        (case lu_get_config_descriptor L dev w2 of
                           ((r3, config0), w3) \<Rightarrow>
                             if r3 < 0 then
                               ftdi_error_return (-10) ''libusb_get_config_descriptor() failed''
                                 (Some c, w3)
                             else
                               (let cfg0 = bConfigurationValue config0;
                                    (detach_errno, w4) =
                                      (if module_detach_mode c = AUTO_DETACH_SIO_MODULE then
                                         (case lu_detach_kernel_driver L h (interface c) w3 of
                                            ((r4, errno), w') \<Rightarrow> (if r4 \<noteq> 0 then errno else 0, w'))
                                       else (0, w3)) in
                                case lu_get_configuration L h w4 of
                                  ((r5, cfg), w5) \<Rightarrow>
                                    if r5 < 0 then
                                      ftdi_error_return (-12) ''libusb_get_configuration () failed''
                                        (Some c, w5)
                                    else if 0 < bNumConfigurations desc \<and> cfg \<noteq> cfg0 then
                                      (case lu_set_configuration L h cfg0 w5 of
                                         (r6, w6) \<Rightarrow>
                                           if r6 < 0 then
                                             (if detach_errno = EPERM then
                                                close_and_fail L (-8)
                                                  ''inappropriate permissions on device!'' (Some c, w6)
                                              else close_and_fail L (-3)
                                                ''unable to set usb configuration. Make sure the default FTDI driver is not in use''
                                                (Some c, w6))
                                           else open_claimed L dev desc detach_errno c h w6)
                                    else open_claimed L dev desc detach_errno c h w5)))))"

section \<open>Searching a device\<close>

text \<open>
  The tests of a matching device in \<open>ftdi_usb_open_desc_index\<close>, while the device is open:
  \<open>Inl\<close> an error, \<open>Inr\<close> whether description and serial number are the ones asked for.
\<close>

definition string_matches ::
  "'w libusb \<Rightarrow> int \<Rightarrow> string \<Rightarrow> int \<Rightarrow> string option \<Rightarrow> ftdi_context \<Rightarrow> handle \<Rightarrow> 'w
   \<Rightarrow> ((int \<times> 'w st) + bool) \<times> 'w"
where
  "string_matches L code msg idx expected c h w =
     (case expected of
        None \<Rightarrow> (Inr True, w)
      | Some str \<Rightarrow>
          (case lu_get_string_descriptor_ascii L h idx 256 w of
             ((r, got), w') \<Rightarrow>
               if r < 0 then (Inl (close_and_fail L code msg (Some c, w')), w')
               else (Inr (take 256 got = take 256 str), w')))"

fun open_loop ::
  "'w libusb \<Rightarrow> int \<Rightarrow> int \<Rightarrow> string option \<Rightarrow> string option \<Rightarrow> handle list \<Rightarrow> nat
   \<Rightarrow> ftdi_context \<Rightarrow> 'w \<Rightarrow> int \<times> 'w st"
where
  "open_loop L vendor prd description ser [] idx c w =
     ftdi_error_return (-3) ''device not found'' (Some c, w)"
| "open_loop L vendor prd description ser (dev # devs) idx c w =
     (case lu_get_device_descriptor L dev w of
        ((r, desc), w1) \<Rightarrow>
          if r < 0 then
            ftdi_error_return (-13) ''libusb_get_device_descriptor() failed'' (Some c, w1)
          else if idVendor desc = vendor \<and> idProduct desc = prd then
            (case lu_open L dev w1 of
               ((r2, h), w2) \<Rightarrow>
                 if r2 < 0 then ftdi_error_return (-4) ''usb_open() failed'' (Some c, w2)
                 else
                   (let c1 = c\<lparr>usb_dev := Some h\<rparr>;
                        closed = (\<lambda>w. ftdi_usb_close_internal L (Some c1, w));
                        skip = (\<lambda>s idx. open_loop L vendor prd description ser devs idx
                                           (the (fst s)) (snd s)) in
                    case string_matches L (-8) ''unable to fetch product description''
                           (iProduct desc) description c1 h w2 of
                      (Inl res, _) \<Rightarrow> res
                    | (Inr ok, w3) \<Rightarrow>
                        if \<not> ok then skip (closed w3) idx
                        else
                          (case string_matches L (-9) ''unable to fetch serial number''
                                  (iSerialNumber desc) ser c1 h w3 of
                             (Inl res, _) \<Rightarrow> res
                           | (Inr ok2, w4) \<Rightarrow>
                               if \<not> ok2 then skip (closed w4) idx
                               else if idx > 0 then skip (closed w4) (idx - 1)
                               else ftdi_usb_open_dev L dev (closed w4))))
          else open_loop L vendor prd description ser devs idx c w1)"

definition ftdi_usb_open_desc_index ::
  "'w libusb \<Rightarrow> int \<Rightarrow> int \<Rightarrow> string option \<Rightarrow> string option \<Rightarrow> nat \<Rightarrow> 'w st \<Rightarrow> int \<times> 'w st"
where
  "ftdi_usb_open_desc_index L vendor prd description ser idx s =
     (case fst s of
        None \<Rightarrow> ftdi_error_return (-11) ''ftdi context invalid'' s
      | Some c \<Rightarrow>
          (case lu_get_device_list L (usb_ctx c) (snd s) of
             ((r, devs), w) \<Rightarrow>
               if r < 0 then ftdi_error_return (-12) ''libusb_get_device_list() failed'' (Some c, w)
               else open_loop L vendor prd description ser devs idx c w))"

definition ftdi_usb_open_desc ::
  "'w libusb \<Rightarrow> int \<Rightarrow> int \<Rightarrow> string option \<Rightarrow> string option \<Rightarrow> 'w st \<Rightarrow> int \<times> 'w st" where
  "ftdi_usb_open_desc L vendor prd description ser =
     ftdi_usb_open_desc_index L vendor prd description ser 0"

definition ftdi_usb_open :: "'w libusb \<Rightarrow> int \<Rightarrow> int \<Rightarrow> 'w st \<Rightarrow> int \<times> 'w st" where
  "ftdi_usb_open L vendor prd = ftdi_usb_open_desc L vendor prd None None"

section \<open>What opening leaves behind\<close>

lemma usb_reset_frame:
  assumes "ftdi_usb_reset L (Some c, w) = (r, s')" and "usb_dev c = Some h"
  shows "\<exists>c' w'. s' = (Some c', w') \<and> usb_dev c' = Some h \<and> ftype c' = ftype c \<and>
           interface c' = interface c \<and> (r = 0 \<longrightarrow> readbuffer_remaining c' = 0)"
  using assms
  by (auto simp: ftdi_usb_reset_def with_dev_def vendor_out_def ftdi_error_return_def
      invalidate_readbuffer_def split: prod.splits if_splits)

lemma set_baudrate_frame:
  assumes "ftdi_set_baudrate L rate (Some c, w) = (r, s')" and "usb_dev c = Some h"
  shows "\<exists>c' w'. s' = (Some c', w') \<and> usb_dev c' = Some h \<and> ftype c' = ftype c \<and>
           readbuffer_remaining c' = readbuffer_remaining c \<and> max_packet_size c' = max_packet_size c"
  using assms
  by (auto simp: ftdi_set_baudrate_def with_dev_def vendor_out_def ftdi_error_return_def Let_def
      split: prod.splits if_splits option.splits)

lemma close_and_fail_closed:
  "\<exists>c' w'. close_and_fail L code msg (Some c, w) = (code, Some c', w') \<and> usb_dev c' = None"
  by (auto simp: close_and_fail_def ftdi_usb_close_internal_def ftdi_error_return_def
      split: option.splits)

definition opened_result ::
  "ftdi_chip_type \<Rightarrow> handle \<Rightarrow> device_descriptor \<Rightarrow> int \<times> 'w st \<Rightarrow> bool" where
  "opened_result t h desc res =
     (case res of
        (r, Some c', w') \<Rightarrow>
          if r = 0 then
            usb_dev c' = Some h \<and> ftype c' = chip_of_descriptor desc t \<and>
            readbuffer_remaining c' = 0 \<and> error_str c' = Some ''all fine''
          else if r \<in> {-9, -10, -12} then usb_dev c' = Some h
          else r \<in> {-3, -5, -6, -7, -8} \<and> usb_dev c' = None
      | _ \<Rightarrow> False)"

lemma opened_result_failed:
  "code \<in> {-3, -5, -6, -7, -8} \<Longrightarrow> opened_result t h desc (close_and_fail L code msg (Some c, w))"
  using close_and_fail_closed [of L code msg c w] by (auto simp: opened_result_def)

lemma open_claimed_result:
  assumes "usb_dev c = Some h"
  shows "opened_result (ftype c) h desc (open_claimed L dev desc errno c h w)"
proof -
  obtain r w1 where 1: "lu_claim_interface L h (interface c) w = (r, w1)" by (metis prod.exhaust)
  obtain r2 s2 where 2: "ftdi_usb_reset L (Some c, w1) = (r2, s2)" by (metis prod.exhaust)
  obtain c2 w2 where s2: "s2 = (Some c2, w2)" "usb_dev c2 = Some h" "r2 = 0 \<longrightarrow> readbuffer_remaining c2 = 0"
    using usb_reset_frame [OF 2 assms] by blast
  let ?c3 = "c2\<lparr>ftype := chip_of_descriptor desc (ftype c)\<rparr>"
  obtain ps w4 where 3: "ftdi_determine_max_packet_size L (Some ?c3) (Some dev) w2 = (ps, w4)"
    by (metis prod.exhaust)
  let ?c4 = "?c3\<lparr>max_packet_size := ps\<rparr>"
  obtain r5 s5 where 5: "ftdi_set_baudrate L 9600 (Some ?c4, w4) = (r5, s5)" by (metis prod.exhaust)
  have "usb_dev ?c4 = Some h" using s2(2) by simp
  from set_baudrate_frame [OF 5 this] obtain c5 w5 where s5: "s5 = (Some c5, w5)" "usb_dev c5 = Some h"
      "ftype c5 = chip_of_descriptor desc (ftype c)" "r2 = 0 \<longrightarrow> readbuffer_remaining c5 = 0"
    using s2(3) by auto
  show ?thesis
    unfolding open_claimed_def
    by (simp only: Let_def 1 2 3 5 s2(1) s5(1) prod.case fst_conv snd_conv option.sel split: if_split)
      (auto simp: opened_result_failed, simp add: opened_result_def ftdi_error_return_def s5)
qed

text \<open>C11: \<open>ftdi_usb_open_dev\<close> reports what it leaves: with result 0 the context holds the new
  handle, the chip type read from the device descriptor and an empty read buffer; with -4 it is
  as before but for the error text; with -3, -5, -6, -7 and -8 the handle was closed again; and
  with -9, -10 and -12 (a descriptor or the configuration could not be read) the call fails but
  leaves the new handle open in the context. There is no other result.
\<close>

theorem open_dev_result:
  "case lu_open L dev w of
     ((r, h), w1) \<Rightarrow>
       (if r < 0 then
          ftdi_usb_open_dev L dev (Some c, w) =
            (-4, Some (c\<lparr>error_str := Some ''libusb_open() failed''\<rparr>), w1)
        else
          opened_result (ftype c) h (snd (fst (lu_get_device_descriptor L dev w1)))
            (ftdi_usb_open_dev L dev (Some c, w)))"
proof -
  obtain r h w1 where 1: "lu_open L dev w = ((r, h), w1)" by (metis prod.exhaust)
  let ?c = "c\<lparr>usb_dev := Some h\<rparr>"
  obtain r2 desc w2 where 2: "lu_get_device_descriptor L dev w1 = ((r2, desc), w2)"
    by (metis prod.exhaust)
  obtain r3 cfg w3 where 3: "lu_get_config_descriptor L dev w2 = ((r3, cfg), w3)"
    by (metis prod.exhaust)
  obtain er w4 where 4: "(if module_detach_mode ?c = AUTO_DETACH_SIO_MODULE then
        (case lu_detach_kernel_driver L h (interface ?c) w3 of
           ((r4, errno), w') \<Rightarrow> (if r4 \<noteq> 0 then errno else 0, w'))
      else (0, w3)) = (er, w4)" by (metis prod.exhaust)
  obtain r5 n w5 where 5: "lu_get_configuration L h w4 = ((r5, n), w5)" by (metis prod.exhaust)
  obtain r6 w6 where 6: "lu_set_configuration L h (bConfigurationValue cfg) w5 = (r6, w6)"
    by (metis prod.exhaust)
  have claimed: "opened_result (ftype c) h desc (open_claimed L dev desc e ?c h v)" for e v
    using open_claimed_result [of ?c h] by simp
  have failed: "opened_result (ftype c) h desc (ftdi_error_return code msg (Some ?c, v))"
    if "code \<in> {-9, -10, -12}" for code msg v
    using that by (auto simp: opened_result_def ftdi_error_return_def)
  show ?thesis
    unfolding ftdi_usb_open_dev_def
    by (simp only: Let_def fst_conv snd_conv option.case 1 2 3 4 5 6 prod.case split: if_split)
      (auto simp: claimed failed opened_result_failed ftdi_error_return_def [of "-4"])
qed

end
