(* ===== verification/Ftdi_Open_String.thy ===== *)
theory Ftdi_Open_String
  imports Ftdi_Open
begin

text \<open>
  \<open>ftdi_usb_open_string\<close> (\<open>src/libftdi/ftdi.c\<close>): opening a device by a description string, which is
  a bus position (\<open>d:\<close>), or the two ids with an index (\<open>i:\<close>) or a serial number (\<open>s:\<close>). The
  functions \<open>strtoul\<close> and \<open>sscanf\<close> of the C library it parses the string with are written out.
\<close>

section \<open>Numbers\<close>

definition is_space :: "char \<Rightarrow> bool" where
  "is_space ch \<longleftrightarrow> ch = CHR '' '' \<or> 9 \<le> (of_char ch :: nat) \<and> (of_char ch :: nat) \<le> 13"

definition digit_of :: "char \<Rightarrow> nat option" where
  "digit_of ch =
     (let n = of_char ch :: nat in
      if 48 \<le> n \<and> n \<le> 57 then Some (n - 48)
      else if 97 \<le> n \<and> n \<le> 122 then Some (n - 87)
      else if 65 \<le> n \<and> n \<le> 90 then Some (n - 55) else None)"

definition digit_in :: "nat \<Rightarrow> char \<Rightarrow> bool" where
  "digit_in base ch = (case digit_of ch of None \<Rightarrow> False | Some n \<Rightarrow> n < base)"

definition digits_number :: "nat \<Rightarrow> string \<Rightarrow> nat" where
  "digits_number base ds = foldl (\<lambda>v ch. v * base + the (digit_of ch)) 0 ds"

definition hex_prefix :: "string \<Rightarrow> bool" where
  "hex_prefix s =
     (case s of z # x # d # _ \<Rightarrow> z = CHR ''0'' \<and> (x = CHR ''x'' \<or> x = CHR ''X'') \<and> digit_in 16 d
      | _ \<Rightarrow> False)"

text \<open>
  \<open>strtoul\<close> with a 64-bit result: the number, the text it stopped at (the whole text when there
  is no number), and whether it set \<open>errno\<close>. The base 0 stands for the one the prefix tells.
\<close>

definition strtoul :: "nat \<Rightarrow> string \<Rightarrow> nat \<times> string \<times> bool" where
  "strtoul base s =
     (let s1 = dropWhile is_space s;
          neg = (s1 \<noteq> [] \<and> hd s1 = CHR ''-'');
          s2 = (if s1 \<noteq> [] \<and> (hd s1 = CHR ''-'' \<or> hd s1 = CHR ''+'') then tl s1 else s1);
          hex = ((base = 0 \<or> base = 16) \<and> hex_prefix s2);
          b = (if base \<noteq> 0 then base else if hex then 16
               else if s2 \<noteq> [] \<and> hd s2 = CHR ''0'' then 8 else 10);
          s3 = (if hex then drop 2 s2 else s2);
          ds = takeWhile (digit_in b) s3;
          v = digits_number b ds in
      if ds = [] then (0, s, False)
      else if v \<ge> 2 ^ 64 then (2 ^ 64 - 1, dropWhile (digit_in b) s3, True)
      else (if neg then (2 ^ 64 - v) mod 2 ^ 64 else v, dropWhile (digit_in b) s3, False))"

text \<open>A number stored into an \<open>unsigned int\<close>.\<close>

definition c_unsigned :: "nat \<Rightarrow> nat" where
  "c_unsigned n = n mod 2 ^ 32"

text \<open>\<open>sscanf(s, "%u/%u", ...)\<close> when it converts both numbers.\<close>

definition scan_pair :: "string \<Rightarrow> (nat \<times> nat) option" where
  "scan_pair s =
     (case strtoul 10 s of (a, e, _) \<Rightarrow>
        if e = s \<or> e = [] \<or> hd e \<noteq> CHR ''/'' then None
        else (case strtoul 10 (tl e) of (b, e', _) \<Rightarrow>
                if e' = tl e then None else Some (c_unsigned a, c_unsigned b)))"

section \<open>Opening\<close>

definition illegal_description :: "'w st \<Rightarrow> int \<times> 'w st" where
  "illegal_description = ftdi_error_return (-11) ''illegal description format''"

text \<open>
  The bus number and the device address libusb knows of a device are the argument \<open>position\<close>.
\<close>

definition open_at_position ::
  "'w libusb \<Rightarrow> (handle \<Rightarrow> nat \<times> nat) \<Rightarrow> string \<Rightarrow> ftdi_context \<Rightarrow> 'w \<Rightarrow> int \<times> 'w st" where
  "open_at_position L position s c w =
     (case lu_get_device_list L (usb_ctx c) w of
        ((r, devs), w1) \<Rightarrow>
          if r < 0 then ftdi_error_return (-2) ''libusb_get_device_list() failed'' (Some c, w1)
          else (case scan_pair s of
                  None \<Rightarrow> illegal_description (Some c, w1)
                | Some p \<Rightarrow>
                    (case find (\<lambda>d. position d = p) devs of
                       None \<Rightarrow> ftdi_error_return (-3) ''device not found'' (Some c, w1)
                     | Some dev \<Rightarrow> ftdi_usb_open_dev L dev (Some c, w1))))"

text \<open>The forms with ids; \<open>by_serial\<close> tells the \<open>s:\<close> form from the \<open>i:\<close> form.\<close>

definition open_by_ids :: "'w libusb \<Rightarrow> bool \<Rightarrow> string \<Rightarrow> 'w st \<Rightarrow> int \<times> 'w st" where
  "open_by_ids L by_serial s st =
     (case strtoul 0 s of (vendor, e1, o1) \<Rightarrow>
        if e1 = [] \<or> hd e1 \<noteq> CHR '':'' \<or> e1 = s \<or> o1 then illegal_description st
        else (case strtoul 0 (tl e1) of (prd, e2, o2) \<Rightarrow>
          if e2 = tl e1 \<or> o2 then illegal_description st
          else
            (let open_device = (\<lambda>ser idx. ftdi_usb_open_desc_index L
                   (wrap32 (int vendor)) (wrap32 (int prd)) None ser idx st) in
             if \<not> by_serial \<and> e2 = [] then open_device None 0
             else if e2 = [] \<or> hd e2 \<noteq> CHR '':'' then illegal_description st
             else if by_serial then open_device (Some (tl e2)) 0
             else (case strtoul 0 (tl e2) of (idx, e3, o3) \<Rightarrow>
               if e3 \<noteq> [] \<or> e3 = tl e2 \<or> o3 then illegal_description st
               else open_device None (c_unsigned idx)))))"

definition ftdi_usb_open_string ::
  "'w libusb \<Rightarrow> (handle \<Rightarrow> nat \<times> nat) \<Rightarrow> string \<Rightarrow> 'w st \<Rightarrow> int \<times> 'w st" where
  "ftdi_usb_open_string L position description s =
     (case fst s of
        None \<Rightarrow> ftdi_error_return (-12) ''ftdi context invalid'' s
      | Some c \<Rightarrow>
          (case description of
             k # colon # rest \<Rightarrow>
               if colon \<noteq> CHR '':'' then illegal_description s
               else if k = CHR ''d'' then open_at_position L position rest c (snd s)
               else if k = CHR ''i'' \<or> k = CHR ''s'' then open_by_ids L (k = CHR ''s'') rest s
               else illegal_description s
           | _ \<Rightarrow> illegal_description s))"

lemmas strtoul_eval = strtoul_def Let_def is_space_def digit_in_def digit_of_def digits_number_def hex_prefix_def

lemma open_string_ids_example:
  "ftdi_usb_open_string L position ''i:0x0403:0x6010:1'' (Some c, w) =
     ftdi_usb_open_desc_index L 0x0403 0x6010 None None 1 (Some c, w)"
proof -
  have "strtoul 0 ''0x0403:0x6010:1'' = (0x0403, '':0x6010:1'', False)"
    "strtoul 0 ''0x6010:1'' = (0x6010, '':1'', False)" "strtoul 0 ''1'' = (1, '''', False)"
    by (simp_all add: strtoul_eval)
  then show ?thesis by (simp add: ftdi_usb_open_string_def open_by_ids_def c_unsigned_def)
qed

lemma open_string_serial_example:
  "ftdi_usb_open_string L position ''s:1027:24592:FT1:A'' (Some c, w) =
     ftdi_usb_open_desc_index L 1027 24592 None (Some ''FT1:A'') 0 (Some c, w)"
proof -
  have "strtoul 0 ''1027:24592:FT1:A'' = (1027, '':24592:FT1:A'', False)"
    "strtoul 0 ''24592:FT1:A'' = (24592, '':FT1:A'', False)"
    by (simp_all add: strtoul_eval)
  then show ?thesis by (simp add: ftdi_usb_open_string_def open_by_ids_def)
qed

end
