(* ===== verification/Ftdi_Eeprom_Values.thy ===== *)
theory Ftdi_Eeprom_Values
  imports Ftdi_Control
begin

text \<open>
  The decoded EEPROM of a context (\<open>src/libftdi/ftdi.c\<close>): its default content, its strings, and
  access to its fields and to the binary image. \<open>alloc n\<close> says whether \<open>malloc(n)\<close> succeeds.
\<close>

section \<open>Fields by name\<close>

datatype ftdi_eeprom_value =
    VENDOR_ID | PRODUCT_ID | SELF_POWERED | REMOTE_WAKEUP | IS_NOT_PNP | SUSPEND_DBUS7
  | IN_IS_ISOCHRONOUS | OUT_IS_ISOCHRONOUS | SUSPEND_PULL_DOWNS | USE_SERIAL | USB_VERSION
  | USE_USB_VERSION | MAX_POWER | CHANNEL_A_TYPE | CHANNEL_B_TYPE | CHANNEL_A_DRIVER
  | CHANNEL_B_DRIVER | CBUS_FUNCTION_0 | CBUS_FUNCTION_1 | CBUS_FUNCTION_2 | CBUS_FUNCTION_3
  | CBUS_FUNCTION_4 | CBUS_FUNCTION_5 | CBUS_FUNCTION_6 | CBUS_FUNCTION_7 | CBUS_FUNCTION_8
  | CBUS_FUNCTION_9 | HIGH_CURRENT | HIGH_CURRENT_A | HIGH_CURRENT_B | INVERT | GROUP0_DRIVE
  | GROUP0_SCHMITT | GROUP0_SLEW | GROUP1_DRIVE | GROUP1_SCHMITT | GROUP1_SLEW | GROUP2_DRIVE
  | GROUP2_SCHMITT | GROUP2_SLEW | GROUP3_DRIVE | GROUP3_SCHMITT | GROUP3_SLEW | CHIP_SIZE
  | CHIP_TYPE | POWER_SAVE | CLOCK_POLARITY | DATA_ORDER | FLOW_CONTROL | CHANNEL_C_DRIVER
  | CHANNEL_D_DRIVER | CHANNEL_A_RS485 | CHANNEL_B_RS485 | CHANNEL_C_RS485 | CHANNEL_D_RS485
  | RELEASE_NUMBER

text \<open>
  The assignments of the two \<open>switch\<close> statements. \<open>CBUS_FUNCTION_9\<close> is stored at index 9 but
  read from index 8, as the code does.
\<close>

fun eeprom_get :: "ftdi_eeprom_value \<Rightarrow> ftdi_eeprom \<Rightarrow> int" where
  "eeprom_get VENDOR_ID e = vendor_id e"
| "eeprom_get PRODUCT_ID e = product_id e"
| "eeprom_get RELEASE_NUMBER e = release_number e"
| "eeprom_get SELF_POWERED e = self_powered e"
| "eeprom_get REMOTE_WAKEUP e = remote_wakeup e"
| "eeprom_get IS_NOT_PNP e = is_not_pnp e"
| "eeprom_get SUSPEND_DBUS7 e = suspend_dbus7 e"
| "eeprom_get IN_IS_ISOCHRONOUS e = in_is_isochronous e"
| "eeprom_get OUT_IS_ISOCHRONOUS e = out_is_isochronous e"
| "eeprom_get SUSPEND_PULL_DOWNS e = suspend_pull_downs e"
| "eeprom_get USE_SERIAL e = use_serial e"
| "eeprom_get USB_VERSION e = usb_version e"
| "eeprom_get USE_USB_VERSION e = use_usb_version e"
| "eeprom_get MAX_POWER e = max_power e"
| "eeprom_get CHANNEL_A_TYPE e = channel_a_type e"
| "eeprom_get CHANNEL_B_TYPE e = channel_b_type e"
| "eeprom_get CHANNEL_A_DRIVER e = channel_a_driver e"
| "eeprom_get CHANNEL_B_DRIVER e = channel_b_driver e"
| "eeprom_get CHANNEL_C_DRIVER e = channel_c_driver e"
| "eeprom_get CHANNEL_D_DRIVER e = channel_d_driver e"
| "eeprom_get CHANNEL_A_RS485 e = channel_a_rs485enable e"
| "eeprom_get CHANNEL_B_RS485 e = channel_b_rs485enable e"
| "eeprom_get CHANNEL_C_RS485 e = channel_c_rs485enable e"
| "eeprom_get CHANNEL_D_RS485 e = channel_d_rs485enable e"
| "eeprom_get CBUS_FUNCTION_0 e = cbus_function e ! 0"
| "eeprom_get CBUS_FUNCTION_1 e = cbus_function e ! 1"
| "eeprom_get CBUS_FUNCTION_2 e = cbus_function e ! 2"
| "eeprom_get CBUS_FUNCTION_3 e = cbus_function e ! 3"
| "eeprom_get CBUS_FUNCTION_4 e = cbus_function e ! 4"
| "eeprom_get CBUS_FUNCTION_5 e = cbus_function e ! 5"
| "eeprom_get CBUS_FUNCTION_6 e = cbus_function e ! 6"
| "eeprom_get CBUS_FUNCTION_7 e = cbus_function e ! 7"
| "eeprom_get CBUS_FUNCTION_8 e = cbus_function e ! 8"
| "eeprom_get CBUS_FUNCTION_9 e = cbus_function e ! 8"
| "eeprom_get HIGH_CURRENT e = high_current e"
| "eeprom_get HIGH_CURRENT_A e = high_current_a e"
| "eeprom_get HIGH_CURRENT_B e = high_current_b e"
| "eeprom_get INVERT e = invert e"
| "eeprom_get GROUP0_DRIVE e = group0_drive e"
| "eeprom_get GROUP0_SCHMITT e = group0_schmitt e"
| "eeprom_get GROUP0_SLEW e = group0_slew e"
| "eeprom_get GROUP1_DRIVE e = group1_drive e"
| "eeprom_get GROUP1_SCHMITT e = group1_schmitt e"
| "eeprom_get GROUP1_SLEW e = group1_slew e"
| "eeprom_get GROUP2_DRIVE e = group2_drive e"
| "eeprom_get GROUP2_SCHMITT e = group2_schmitt e"
| "eeprom_get GROUP2_SLEW e = group2_slew e"
| "eeprom_get GROUP3_DRIVE e = group3_drive e"
| "eeprom_get GROUP3_SCHMITT e = group3_schmitt e"
| "eeprom_get GROUP3_SLEW e = group3_slew e"
| "eeprom_get POWER_SAVE e = powersave e"
| "eeprom_get CLOCK_POLARITY e = clock_polarity e"
| "eeprom_get DATA_ORDER e = data_order e"
| "eeprom_get FLOW_CONTROL e = flow_control e"
| "eeprom_get CHIP_TYPE e = chip e"
| "eeprom_get CHIP_SIZE e = eeprom_size e"

fun eeprom_put :: "ftdi_eeprom_value \<Rightarrow> int \<Rightarrow> ftdi_eeprom \<Rightarrow> ftdi_eeprom" where
  "eeprom_put VENDOR_ID v e = e\<lparr>vendor_id := v\<rparr>"
| "eeprom_put PRODUCT_ID v e = e\<lparr>product_id := v\<rparr>"
| "eeprom_put RELEASE_NUMBER v e = e\<lparr>release_number := v\<rparr>"
| "eeprom_put SELF_POWERED v e = e\<lparr>self_powered := v\<rparr>"
| "eeprom_put REMOTE_WAKEUP v e = e\<lparr>remote_wakeup := v\<rparr>"
| "eeprom_put IS_NOT_PNP v e = e\<lparr>is_not_pnp := v\<rparr>"
| "eeprom_put SUSPEND_DBUS7 v e = e\<lparr>suspend_dbus7 := v\<rparr>"
| "eeprom_put IN_IS_ISOCHRONOUS v e = e\<lparr>in_is_isochronous := v\<rparr>"
| "eeprom_put OUT_IS_ISOCHRONOUS v e = e\<lparr>out_is_isochronous := v\<rparr>"
| "eeprom_put SUSPEND_PULL_DOWNS v e = e\<lparr>suspend_pull_downs := v\<rparr>"
| "eeprom_put USE_SERIAL v e = e\<lparr>use_serial := v\<rparr>"
| "eeprom_put USB_VERSION v e = e\<lparr>usb_version := v\<rparr>"
| "eeprom_put USE_USB_VERSION v e = e\<lparr>use_usb_version := v\<rparr>"
| "eeprom_put MAX_POWER v e = e\<lparr>max_power := v\<rparr>"
| "eeprom_put CHANNEL_A_TYPE v e = e\<lparr>channel_a_type := v\<rparr>"
| "eeprom_put CHANNEL_B_TYPE v e = e\<lparr>channel_b_type := v\<rparr>"
| "eeprom_put CHANNEL_A_DRIVER v e = e\<lparr>channel_a_driver := v\<rparr>"
| "eeprom_put CHANNEL_B_DRIVER v e = e\<lparr>channel_b_driver := v\<rparr>"
| "eeprom_put CHANNEL_C_DRIVER v e = e\<lparr>channel_c_driver := v\<rparr>"
| "eeprom_put CHANNEL_D_DRIVER v e = e\<lparr>channel_d_driver := v\<rparr>"
| "eeprom_put CHANNEL_A_RS485 v e = e\<lparr>channel_a_rs485enable := v\<rparr>"
| "eeprom_put CHANNEL_B_RS485 v e = e\<lparr>channel_b_rs485enable := v\<rparr>"
| "eeprom_put CHANNEL_C_RS485 v e = e\<lparr>channel_c_rs485enable := v\<rparr>"
| "eeprom_put CHANNEL_D_RS485 v e = e\<lparr>channel_d_rs485enable := v\<rparr>"
| "eeprom_put CBUS_FUNCTION_0 v e = e\<lparr>cbus_function := (cbus_function e)[0 := v]\<rparr>"
| "eeprom_put CBUS_FUNCTION_1 v e = e\<lparr>cbus_function := (cbus_function e)[1 := v]\<rparr>"
| "eeprom_put CBUS_FUNCTION_2 v e = e\<lparr>cbus_function := (cbus_function e)[2 := v]\<rparr>"
| "eeprom_put CBUS_FUNCTION_3 v e = e\<lparr>cbus_function := (cbus_function e)[3 := v]\<rparr>"
| "eeprom_put CBUS_FUNCTION_4 v e = e\<lparr>cbus_function := (cbus_function e)[4 := v]\<rparr>"
| "eeprom_put CBUS_FUNCTION_5 v e = e\<lparr>cbus_function := (cbus_function e)[5 := v]\<rparr>"
| "eeprom_put CBUS_FUNCTION_6 v e = e\<lparr>cbus_function := (cbus_function e)[6 := v]\<rparr>"
| "eeprom_put CBUS_FUNCTION_7 v e = e\<lparr>cbus_function := (cbus_function e)[7 := v]\<rparr>"
| "eeprom_put CBUS_FUNCTION_8 v e = e\<lparr>cbus_function := (cbus_function e)[8 := v]\<rparr>"
| "eeprom_put CBUS_FUNCTION_9 v e = e\<lparr>cbus_function := (cbus_function e)[9 := v]\<rparr>"
| "eeprom_put HIGH_CURRENT v e = e\<lparr>high_current := v\<rparr>"
| "eeprom_put HIGH_CURRENT_A v e = e\<lparr>high_current_a := v\<rparr>"
| "eeprom_put HIGH_CURRENT_B v e = e\<lparr>high_current_b := v\<rparr>"
| "eeprom_put INVERT v e = e\<lparr>invert := v\<rparr>"
| "eeprom_put GROUP0_DRIVE v e = e\<lparr>group0_drive := v\<rparr>"
| "eeprom_put GROUP0_SCHMITT v e = e\<lparr>group0_schmitt := v\<rparr>"
| "eeprom_put GROUP0_SLEW v e = e\<lparr>group0_slew := v\<rparr>"
| "eeprom_put GROUP1_DRIVE v e = e\<lparr>group1_drive := v\<rparr>"
| "eeprom_put GROUP1_SCHMITT v e = e\<lparr>group1_schmitt := v\<rparr>"
| "eeprom_put GROUP1_SLEW v e = e\<lparr>group1_slew := v\<rparr>"
| "eeprom_put GROUP2_DRIVE v e = e\<lparr>group2_drive := v\<rparr>"
| "eeprom_put GROUP2_SCHMITT v e = e\<lparr>group2_schmitt := v\<rparr>"
| "eeprom_put GROUP2_SLEW v e = e\<lparr>group2_slew := v\<rparr>"
| "eeprom_put GROUP3_DRIVE v e = e\<lparr>group3_drive := v\<rparr>"
| "eeprom_put GROUP3_SCHMITT v e = e\<lparr>group3_schmitt := v\<rparr>"
| "eeprom_put GROUP3_SLEW v e = e\<lparr>group3_slew := v\<rparr>"
| "eeprom_put CHIP_TYPE v e = e\<lparr>chip := v\<rparr>"
| "eeprom_put POWER_SAVE v e = e\<lparr>powersave := v\<rparr>"
| "eeprom_put CLOCK_POLARITY v e = e\<lparr>clock_polarity := v\<rparr>"
| "eeprom_put DATA_ORDER v e = e\<lparr>data_order := v\<rparr>"
| "eeprom_put FLOW_CONTROL v e = e\<lparr>flow_control := v\<rparr>"
| "eeprom_put CHIP_SIZE v e = e"

text \<open>
  Neither function tests its context: a NULL context or EEPROM pointer is dereferenced. A value
  name outside the enumeration is \<open>None\<close>.
\<close>

definition ftdi_get_eeprom_value ::
  "ftdi_eeprom_value option \<Rightarrow> 'w st \<Rightarrow> (int \<times> int option) outcome \<times> 'w st" where
  "ftdi_get_eeprom_value value_name s =
     (case value_name of
        None \<Rightarrow> (case no_value (ftdi_error_return (-1) ''Request for unknown EEPROM value'' s) of
                  (r, s') \<Rightarrow> (Ret r, s'))
      | Some v \<Rightarrow>
          (case Option.bind (fst s) eeprom of
             None \<Rightarrow> (Crashes, s)
           | Some e \<Rightarrow> (Ret (0, Some (eeprom_get v e)), s)))"

definition ftdi_set_eeprom_value ::
  "ftdi_eeprom_value option \<Rightarrow> int \<Rightarrow> 'w st \<Rightarrow> int outcome \<times> 'w st" where
  "ftdi_set_eeprom_value value_name val s =
     (let fail = (\<lambda>res. case res of (r, s') \<Rightarrow> (Ret r, s')) in
      case value_name of
        None \<Rightarrow> fail (ftdi_error_return (-1) ''Request to unknown EEPROM value'' s)
      | Some v \<Rightarrow>
          if v = CHIP_SIZE then fail (ftdi_error_return (-2) ''EEPROM Value can't be changed'' s)
          else
            (case fst s of
               None \<Rightarrow> (Crashes, s)
             | Some c \<Rightarrow>
                 (case eeprom c of
                    None \<Rightarrow> (Crashes, s)
                  | Some e \<Rightarrow>
                      (Ret 0, Some (c\<lparr>eeprom := Some ((eeprom_put v val e)
                                      \<lparr>initialized_for_connected_device := 0\<rparr>)\<rparr>), snd s))))"

section \<open>The binary image\<close>

definition ftdi_get_eeprom_buf :: "nat \<Rightarrow> 'w st \<Rightarrow> (int \<times> byte list option) \<times> 'w st" where
  "ftdi_get_eeprom_buf sz s =
     (case Option.bind (fst s) eeprom of
        None \<Rightarrow> no_value (ftdi_error_return (-1) ''No appropriate structure'' s)
      | Some e \<Rightarrow>
          if int sz < eeprom_size e then
            no_value (ftdi_error_return (-1) ''Not enough room to store eeprom'' s)
          else ((0, Some (take (min sz FTDI_MAX_EEPROM_SIZE) (ebuf e))), s))"

text \<open>\<open>d\<close> is the content of the caller's buffer, of \<open>sz\<close> bytes, or \<open>None\<close> for NULL.\<close>

definition ftdi_set_eeprom_buf :: "byte list option \<Rightarrow> nat \<Rightarrow> 'w st \<Rightarrow> int \<times> 'w st" where
  "ftdi_set_eeprom_buf d sz s =
     (case (fst s, d) of
        (Some c, Some b) \<Rightarrow>
          (case eeprom c of
             None \<Rightarrow> ftdi_error_return (-1) ''No appropriate structure'' s
           | Some e \<Rightarrow>
               (let n = min sz FTDI_MAX_EEPROM_SIZE in
                (0, Some (c\<lparr>eeprom := Some (e\<lparr>ebuf := overlay (take n b) (ebuf e)\<rparr>)\<rparr>), snd s)))
      | _ \<Rightarrow> ftdi_error_return (-1) ''No appropriate structure'' s)"

section \<open>Defaults and strings\<close>

text \<open>A string field after \<open>malloc(strlen(s) + 1)\<close> and \<open>strcpy\<close>.\<close>

definition c_strdup :: "(nat \<Rightarrow> bool) \<Rightarrow> string \<Rightarrow> string option" where
  "c_strdup alloc s = (if alloc (length s + 1) then Some s else None)"

fun default_product :: "ftdi_chip_type \<Rightarrow> string" where
  "default_product TYPE_AM = ''AM''"
| "default_product TYPE_BM = ''BM''"
| "default_product TYPE_2232C = ''Dual RS232''"
| "default_product TYPE_R = ''FT232R USB UART''"
| "default_product TYPE_2232H = ''Dual RS232-HS''"
| "default_product TYPE_4232H = ''FT4232H''"
| "default_product TYPE_232H = ''Single-RS232-HS''"
| "default_product TYPE_230X = ''FT230X Basic UART''"

fun default_release :: "ftdi_chip_type \<Rightarrow> int" where
  "default_release TYPE_AM = 0x0200"
| "default_release TYPE_BM = 0x0400"
| "default_release TYPE_2232C = 0x0500"
| "default_release TYPE_R = 0x0600"
| "default_release TYPE_2232H = 0x0700"
| "default_release TYPE_4232H = 0x0800"
| "default_release TYPE_232H = 0x0900"
| "default_release TYPE_230X = 0x1000"

abbreviation (input) CBUS_TXDEN :: int where "CBUS_TXDEN \<equiv> 0"
abbreviation (input) CBUS_PWREN :: int where "CBUS_PWREN \<equiv> 1"
abbreviation (input) CBUS_RXLED :: int where "CBUS_RXLED \<equiv> 2"
abbreviation (input) CBUS_TXLED :: int where "CBUS_TXLED \<equiv> 3"
abbreviation (input) CBUS_SLEEP :: int where "CBUS_SLEEP \<equiv> 5"
abbreviation (input) CBUS_BB :: int where "CBUS_BB \<equiv> 0xd"
abbreviation (input) CBUSH_TRISTATE :: int where "CBUSH_TRISTATE \<equiv> 0"
abbreviation (input) CBUSH_RXLED :: int where "CBUSH_RXLED \<equiv> 1"
abbreviation (input) CBUSH_TXLED :: int where "CBUSH_TXLED \<equiv> 2"
abbreviation (input) CBUSH_SLEEP :: int where "CBUSH_SLEEP \<equiv> 5"
abbreviation (input) CBUSH_TXDEN :: int where "CBUSH_TXDEN \<equiv> 9"
abbreviation (input) CBUSH_CLK7_5 :: int where "CBUSH_CLK7_5 \<equiv> 12"
abbreviation (input) CBUSH_AWAKE :: int where "CBUSH_AWAKE \<equiv> 21"

text \<open>The fields \<open>ftdi_eeprom_initdefaults\<close> fills in after the \<open>memset\<close>.\<close>

definition default_eeprom ::
  "(nat \<Rightarrow> bool) \<Rightarrow> ftdi_chip_type \<Rightarrow> string option \<Rightarrow> string option \<Rightarrow> string option \<Rightarrow> ftdi_eeprom"
where
  "default_eeprom alloc t manuf prd ser =
     (let e0 = zero_eeprom
            \<lparr>vendor_id := 0x0403, use_serial := 1,
             product_id :=
               (if t = TYPE_AM \<or> t = TYPE_BM \<or> t = TYPE_R then 0x6001
                else if t = TYPE_4232H then 0x6011
                else if t = TYPE_232H then 0x6014
                else if t = TYPE_230X then 0x6015
                else 0x6010),
             usb_version := (if t = TYPE_AM then 0x0101 else 0x0200),
             max_power := 100,
             manufacturer := Option.bind manuf (c_strdup alloc),
             product :=
               (case prd of Some p \<Rightarrow> c_strdup alloc p
                | None \<Rightarrow> c_strdup alloc (default_product t)),
             serial := Option.bind ser (c_strdup alloc)\<rparr>;
          e1 =
            (if t = TYPE_R then
               e0\<lparr>max_power := 90, eeprom_size := 0x80,
                  cbus_function := [CBUS_TXLED, CBUS_RXLED, CBUS_TXDEN, CBUS_PWREN, CBUS_SLEEP]
                    @ drop 5 (cbus_function e0)\<rparr>
             else if t = TYPE_230X then
               e0\<lparr>max_power := 90, eeprom_size := 0x100,
                  cbus_function := [CBUSH_TXDEN, CBUSH_RXLED, CBUSH_TXLED, CBUSH_SLEEP]
                    @ drop 4 (cbus_function e0)\<rparr>
             else
               e0\<lparr>cbus_function := (if t = TYPE_232H then replicate 10 CBUSH_TRISTATE
                                   else cbus_function e0),
                  eeprom_size := -1\<rparr>) in
      e1\<lparr>release_number := default_release t\<rparr>)"

definition ftdi_eeprom_initdefaults ::
  "(nat \<Rightarrow> bool) \<Rightarrow> string option \<Rightarrow> string option \<Rightarrow> string option \<Rightarrow> 'w st \<Rightarrow> int \<times> 'w st" where
  "ftdi_eeprom_initdefaults alloc manuf prd ser s =
     (case fst s of
        None \<Rightarrow> ftdi_error_return (-1) ''No struct ftdi_context'' s
      | Some c \<Rightarrow>
          (case eeprom c of
             None \<Rightarrow> ftdi_error_return (-2) ''No struct ftdi_eeprom'' s
           | Some e \<Rightarrow>
               if usb_dev c = None then
                 ftdi_error_return (-3) ''No connected device or device not yet opened''
                   (Some (c\<lparr>eeprom := Some zero_eeprom\<rparr>), snd s)
               else
                 (0, Some (c\<lparr>eeprom := Some (default_eeprom alloc (ftype c) manuf prd ser)\<rparr>), snd s)))"

definition ftdi_eeprom_set_strings ::
  "(nat \<Rightarrow> bool) \<Rightarrow> string option \<Rightarrow> string option \<Rightarrow> string option \<Rightarrow> 'w st \<Rightarrow> int \<times> 'w st" where
  "ftdi_eeprom_set_strings alloc manuf prd ser s =
     (case fst s of
        None \<Rightarrow> ftdi_error_return (-1) ''No struct ftdi_context'' s
      | Some c \<Rightarrow>
          (case eeprom c of
             None \<Rightarrow> ftdi_error_return (-2) ''No struct ftdi_eeprom'' s
           | Some e \<Rightarrow>
               if usb_dev c = None then
                 ftdi_error_return (-3) ''No connected device or device not yet opened'' s
               else
                 (let set = (\<lambda>new old. case new of None \<Rightarrow> old | Some t \<Rightarrow> c_strdup alloc t);
                      e1 = e\<lparr>manufacturer := set manuf (manufacturer e),
                             product := set prd (product e),
                             serial := set ser (serial e)\<rparr>;
                      e2 = (if ser \<noteq> None \<and> serial e1 \<noteq> None then e1\<lparr>use_serial := 1\<rparr> else e1) in
                  (0, Some (c\<lparr>eeprom := Some e2\<rparr>), snd s))))"

section \<open>Properties of the fields\<close>

lemma eeprom_get_put:
  assumes "length (cbus_function e) = 10" and "v \<noteq> CHIP_SIZE"
  shows "eeprom_get u (eeprom_put v x e) =
    (if u = v \<and> v \<noteq> CBUS_FUNCTION_9 \<or> u = CBUS_FUNCTION_9 \<and> v = CBUS_FUNCTION_8 then x
     else eeprom_get u e)"
  using assms by (cases v) (cases u; simp)+

lemma eeprom_get_initialized [simp]:
  "eeprom_get u (e\<lparr>initialized_for_connected_device := k\<rparr>) = eeprom_get u e"
  by (cases u) simp_all

text \<open>C15: Setting a field of the decoded EEPROM and reading the fields back: every field but the
  size can be set, a set field reads as the value, and every other field as before, with one
  exception: \<open>CBUS_FUNCTION_9\<close> always reads as \<open>CBUS_FUNCTION_8\<close>, whatever was stored in it.
  The context is no longer marked as initialised for its device.\<close>

theorem set_get_eeprom_value:
  assumes "eeprom c = Some e" and "length (cbus_function e) = 10" and "v \<noteq> CHIP_SIZE"
  shows "\<exists>c'. ftdi_set_eeprom_value (Some v) x (Some c, w) = (Ret 0, Some c', w) \<and>
    map_option initialized_for_connected_device (eeprom c') = Some 0 \<and>
    (\<forall>u. ftdi_get_eeprom_value (Some u) (Some c', w) =
       (Ret (0, Some (if u = v \<and> v \<noteq> CBUS_FUNCTION_9 \<or> u = CBUS_FUNCTION_9 \<and> v = CBUS_FUNCTION_8
                      then x else eeprom_get u e)), Some c', w))"
  using assms
  by (simp add: ftdi_set_eeprom_value_def ftdi_get_eeprom_value_def eeprom_get_put
      del: eeprom_get.simps eeprom_put.simps)

theorem set_get_eeprom_value_witness:
  "\<exists>c'. ftdi_set_eeprom_value (Some CBUS_FUNCTION_9) 7
       (Some (tiny_context\<lparr>eeprom := Some zero_eeprom\<rparr>), ()) = (Ret 0, Some c', ()) \<and>
     ftdi_get_eeprom_value (Some CBUS_FUNCTION_9) (Some c', ()) = (Ret (0, Some 0), Some c', ())"
proof -
  have "length (cbus_function zero_eeprom) = 10" and "eeprom_get CBUS_FUNCTION_9 zero_eeprom = 0"
    by (simp_all add: zero_eeprom_def)
  then show ?thesis
    using set_get_eeprom_value [of "tiny_context\<lparr>eeprom := Some zero_eeprom\<rparr>" zero_eeprom
        CBUS_FUNCTION_9 7 "()"]
    by (auto simp del: eeprom_get.simps)
qed

end
