(* ===== verification/Ftdi_Eeprom_Io.thy ===== *)
theory Ftdi_Eeprom_Io
  imports Ftdi_Eeprom_Values "HOL-Library.Signed_Division"
begin

unbundle bit_operations_syntax

text \<open>
  Access to the EEPROM of the device (\<open>src/libftdi/ftdi.c\<close>): reading and writing single
  locations and the whole image, the chip id of the R type, and erasing with the detection of
  the EEPROM chip.
\<close>

section \<open>Reading\<close>

text \<open>A word read by a transfer of two bytes, on a little-endian machine.\<close>

definition le16 :: "byte list \<Rightarrow> u16" where
  "le16 d = ucast (buf_byte d 0) OR push_bit 8 (ucast (buf_byte d 1))"

definition ftdi_read_eeprom_location ::
  "'w libusb \<Rightarrow> int \<Rightarrow> 'w st \<Rightarrow> (int \<times> u16 option) \<times> 'w st" where
  "ftdi_read_eeprom_location L eeprom_addr =
     with_dev (\<lambda>s. no_value (ftdi_error_return (-2) ''USB device unavailable'' s))
       (\<lambda>c h w. vendor_in L SIO_READ_EEPROM_REQUEST 0 (word_of_int eeprom_addr) 2
                 (-1) ''reading eeprom failed'' le16 c h w)"

text \<open>The buffer \<open>b\<close> after the bytes \<open>d\<close> were stored at \<open>pos\<close>.\<close>

definition store_at :: "byte list \<Rightarrow> nat \<Rightarrow> byte list \<Rightarrow> byte list" where
  "store_at b pos d = take pos b @ d @ drop (pos + length d) b"

lemma length_store_at [simp]: "pos + length d \<le> length b \<Longrightarrow> length (store_at b pos d) = length b"
  by (simp add: store_at_def)

text \<open>The words at the addresses \<open>is\<close>: whether all were read, and the buffer.\<close>

fun read_words ::
  "'w libusb \<Rightarrow> ftdi_context \<Rightarrow> handle \<Rightarrow> nat list \<Rightarrow> byte list \<Rightarrow> 'w \<Rightarrow> (bool \<times> byte list) \<times> 'w"
where
  "read_words L c h [] b w = ((True, b), w)"
| "read_words L c h (i # is) b w =
     (case ctrl_in L c h SIO_READ_EEPROM_REQUEST 0 (of_nat i) 2 w of
        ((r, d), w') \<Rightarrow>
          (let b' = store_at b (i * 2) (take 2 d) in
           if r \<noteq> 2 then ((False, b'), w') else read_words L c h is b' w'))"

text \<open>
  \<open>strrchr(buf, 0xff) == buf + 255\<close>: the scan goes to the first NUL. Without one in the buffer
  it goes on over the field \<open>release_number\<close>, which follows it; \<open>None\<close> when there is none
  there either.
\<close>

definition blank_image :: "byte list \<Rightarrow> int \<Rightarrow> bool option" where
  "blank_image b release =
     (if 0 \<in> set b then Some False
      else
        (let rel = map (\<lambda>k. word_of_int (drop_bit (8 * k) release) :: byte) [0..<4] in
         if 0 \<notin> set rel then None
         else Some (last b = 0xff \<and> 0xff \<notin> set (takeWhile (\<lambda>x. x \<noteq> 0) rel))))"

definition ftdi_read_eeprom :: "'w libusb \<Rightarrow> 'w st \<Rightarrow> int outcome \<times> 'w st" where
  "ftdi_read_eeprom L s =
     (let fail = (\<lambda>res. case res of (r, s') \<Rightarrow> (Ret r, s')) in
      with_dev (\<lambda>s. fail (ftdi_error_return (-2) ''USB device unavailable'' s))
        (\<lambda>c h w.
           case eeprom c of
             None \<Rightarrow> (Crashes, s)
           | Some e \<Rightarrow>
               (case read_words L c h [0..<FTDI_MAX_EEPROM_SIZE div 2] (ebuf e) w of
                  ((ok, b), w') \<Rightarrow>
                    (let e1 = e\<lparr>ebuf := b\<rparr>;
                         sized = (\<lambda>n. (Ret 0, Some (c\<lparr>eeprom := Some (e1\<lparr>eeprom_size := n\<rparr>)\<rparr>), w')) in
                     if \<not> ok then
                       fail (ftdi_error_return (-1) ''reading eeprom failed''
                               (Some (c\<lparr>eeprom := Some e1\<rparr>), w'))
                     else if ftype c = TYPE_R then sized 0x80
                     else
                       (case blank_image b (release_number e1) of
                          None \<Rightarrow> (Crashes, Some (c\<lparr>eeprom := Some e1\<rparr>), w')
                        | Some blank \<Rightarrow>
                            if blank then sized (-1)
                            else if take 0x80 b = take 0x80 (drop 0x80 b) then sized 0x80
                            else if take 0x40 b = take 0x40 (drop 0x40 b) then sized 0x40
                            else sized 0x100)))) s)"

section \<open>The chip id\<close>

definition ftdi_read_chipid_shift :: "byte \<Rightarrow> byte" where
  "ftdi_read_chipid_shift v =
     push_bit 1 (v AND 1) OR push_bit 5 (v AND 2) OR drop_bit 2 (v AND 4) OR push_bit 4 (v AND 8)
     OR drop_bit 1 (v AND 16) OR drop_bit 1 (v AND 32) OR drop_bit 4 (v AND 64)
     OR drop_bit 2 (v AND 128)"

text \<open>The id from the two words read.\<close>

definition chipid_of :: "u32 \<Rightarrow> u32 \<Rightarrow> u32" where
  "chipid_of a b =
     (let a = push_bit 8 a OR drop_bit 8 a;
          b = push_bit 8 b OR drop_bit 8 b;
          a = push_bit 16 a OR (b AND 0xFFFF);
          sh = (\<lambda>x. ucast (ftdi_read_chipid_shift (ucast x)) :: u32);
          a = sh a OR push_bit 8 (sh (drop_bit 8 a)) OR push_bit 16 (sh (drop_bit 16 a))
              OR push_bit 24 (sh (drop_bit 24 a)) in
      a XOR 0xa5f0f7d1)"

definition ftdi_read_chipid :: "'w libusb \<Rightarrow> 'w st \<Rightarrow> (int \<times> u32 option) \<times> 'w st" where
  "ftdi_read_chipid L =
     with_dev (\<lambda>s. no_value (ftdi_error_return (-2) ''USB device unavailable'' s))
       (\<lambda>c h w.
          let fail = (\<lambda>w. no_value (ftdi_error_return (-1) ''read of FTDIChip-ID failed'' (Some c, w))) in
          case ctrl_in L c h SIO_READ_EEPROM_REQUEST 0 0x43 2 w of
            ((r, d), w1) \<Rightarrow>
              if r \<noteq> 2 then fail w1
              else
                (case ctrl_in L c h SIO_READ_EEPROM_REQUEST 0 0x44 2 w1 of
                   ((r2, d2), w2) \<Rightarrow>
                     if r2 \<noteq> 2 then fail w2
                     else ((0, Some (chipid_of (ucast (le16 d)) (ucast (le16 d2)))), Some c, w2)))"

section \<open>Writing\<close>

definition ftdi_write_eeprom_location ::
  "'w libusb \<Rightarrow> int \<Rightarrow> u16 \<Rightarrow> 'w st \<Rightarrow> int \<times> 'w st" where
  "ftdi_write_eeprom_location L eeprom_addr eeprom_val s =
     with_dev (ftdi_error_return (-2) ''USB device unavailable'')
       (\<lambda>c h w.
          if eeprom_addr < 0x80 then
            ftdi_error_return (-2) ''Invalid access to checksum protected area  below 0x80'' s
          else
            (let go = (\<lambda>chip_type_location :: int.
                   case ftdi_read_eeprom_location L (drop_bit 1 chip_type_location) s of
                     ((r, v), s1) \<Rightarrow>
                       if r \<noteq> 0 then ftdi_error_return (-5) ''Reading failed'' s1
                       else if the v AND 0xff \<noteq> 0x66 then
                         ftdi_error_return (-6) ''EEPROM is not of 93x66'' s1
                       else
                         (case ctrl_out L c h SIO_WRITE_EEPROM_REQUEST eeprom_val
                                 (word_of_int eeprom_addr) (snd s1) of
                            (r2, w2) \<Rightarrow>
                              if r2 \<noteq> 0 then
                                ftdi_error_return (-1) ''unable to write eeprom'' (fst s1, w2)
                              else (0, fst s1, w2))) in
             case ftype c of
               TYPE_BM \<Rightarrow> go 0x14
             | TYPE_2232C \<Rightarrow> go 0x14
             | TYPE_2232H \<Rightarrow> go 0x18
             | TYPE_4232H \<Rightarrow> go 0x18
             | TYPE_232H \<Rightarrow> go 0x1e
             | _ \<Rightarrow> ftdi_error_return (-4) ''Device can't access unprotected area'' s)) s"

definition image_word :: "byte list \<Rightarrow> nat \<Rightarrow> u16" where
  "image_word b i = ucast (b ! (i * 2)) + push_bit 8 (ucast (b ! (i * 2 + 1)))"

function write_words ::
  "'w libusb \<Rightarrow> ftdi_context \<Rightarrow> handle \<Rightarrow> byte list \<Rightarrow> nat \<Rightarrow> nat \<Rightarrow> 'w \<Rightarrow> bool \<times> 'w" where
  "write_words L c h b n i w =
     (if i < n then
        (let i = (if ftype c = TYPE_230X \<and> i = 0x40 then 0x50 else i) in
         case ctrl_out L c h SIO_WRITE_EEPROM_REQUEST (image_word b i) (of_nat i) w of
           (r, w') \<Rightarrow> if r < 0 then (False, w') else write_words L c h b n (i + 1) w')
      else (True, w))"
  by pat_completeness auto
termination by (relation "measure (\<lambda>(L, c, h, b, n, i, w). n - i)") auto

declare write_words.simps [simp del]

text \<open>Undefined for a size beyond the buffer, which no operation of the library stores.\<close>

definition ftdi_write_eeprom :: "'w libusb \<Rightarrow> 'w st \<Rightarrow> int outcome \<times> 'w st" where
  "ftdi_write_eeprom L s =
     (let ret = (\<lambda>res. case res of (r, s') \<Rightarrow> (Ret r, s')) in
      with_dev (\<lambda>s. ret (ftdi_error_return (-2) ''USB device unavailable'' s))
        (\<lambda>c h w.
           case eeprom c of
             None \<Rightarrow> (Crashes, s)
           | Some e \<Rightarrow>
               if initialized_for_connected_device e = 0 then
                 ret (ftdi_error_return (-3) ''EEPROM not initialized for the connected device'' s)
               else
                 (case ftdi_usb_reset L s of
                    (r1, s1) \<Rightarrow>
                      if r1 \<noteq> 0 then (Ret r1, s1)
                      else
                        (case ftdi_poll_modem_status L s1 of
                           ((r2, _), s2) \<Rightarrow>
                             if r2 \<noteq> 0 then (Ret r2, s2)
                             else
                               (case ftdi_set_latency_timer L 0x77 s2 of
                                  (r3, s3) \<Rightarrow>
                                    if r3 \<noteq> 0 then (Ret r3, s3)
                                    else if 256 < eeprom_size e then (Crashes, s3)
                                    else
                                      (case write_words L c h (ebuf e) (nat (eeprom_size e sdiv 2)) 0
                                              (snd s3) of
                                         (ok, w4) \<Rightarrow>
                                           if \<not> ok then
                                             ret (ftdi_error_return (-1) ''unable to write eeprom''
                                                    (fst s3, w4))
                                           else (Ret 0, fst s3, w4)))))) s)"

section \<open>Erasing\<close>

abbreviation (input) MAGIC :: u16 where "MAGIC \<equiv> 0x55aa"

definition set_chip :: "int \<Rightarrow> ftdi_context \<Rightarrow> ftdi_context" where
  "set_chip n c = c\<lparr>eeprom := map_option (\<lambda>e. e\<lparr>chip := n\<rparr>) (eeprom c)\<rparr>"

text \<open>
  The detection of the chip: the magic written to word 0xc0 is looked for at the words where
  the smaller chips wrap around to. The result is \<open>None\<close> when a read fails.
\<close>

fun detect_chip :: "'w libusb \<Rightarrow> (int \<times> int) list \<Rightarrow> 'w st \<Rightarrow> int option \<times> 'w st" where
  "detect_chip L [] s = (Some (-1), s)"
| "detect_chip L ((addr, n) # rest) s =
     (case ftdi_read_eeprom_location L addr s of
        ((r, v), s1) \<Rightarrow>
          if r \<noteq> 0 then (None, s1)
          else if the v = MAGIC then (Some n, s1)
          else detect_chip L rest s1)"

definition ftdi_erase_eeprom :: "'w libusb \<Rightarrow> 'w st \<Rightarrow> int outcome \<times> 'w st" where
  "ftdi_erase_eeprom L s =
     (let ret = (\<lambda>res. case res of (r, s') \<Rightarrow> (Ret r, s')) in
      with_dev (\<lambda>s. ret (ftdi_error_return (-2) ''USB device unavailable'' s))
        (\<lambda>c h w.
           if ftype c = TYPE_R then
             (if eeprom c = None then (Crashes, s) else (Ret 0, Some (set_chip 0 c), w))
           else
             (case ctrl_out L c h SIO_ERASE_EEPROM_REQUEST 0 0 w of
                (r1, w1) \<Rightarrow>
                  if r1 < 0 then ret (ftdi_error_return (-1) ''unable to erase eeprom'' (Some c, w1))
                  else
                    (case ctrl_out L c h SIO_WRITE_EEPROM_REQUEST MAGIC 0xc0 w1 of
                       (r2, w2) \<Rightarrow>
                         if r2 \<noteq> 0 then ret (ftdi_error_return (-3) ''Writing magic failed'' (Some c, w2))
                         else
                           (case detect_chip L [(0x00, 0x46), (0x40, 0x56), (0xc0, 0x66)] (Some c, w2) of
                              (None, s3) \<Rightarrow> ret (ftdi_error_return (-4) ''Reading failed'' s3)
                            | (Some n, s3) \<Rightarrow>
                                if eeprom c = None then (Crashes, s3)
                                else
                                  (let f = map_option (set_chip n) (fst s3) in
                                   case ctrl_out L c h SIO_ERASE_EEPROM_REQUEST 0 0 (snd s3) of
                                     (r4, w4) \<Rightarrow>
                                       if r4 < 0 then
                                         ret (ftdi_error_return (-1) ''unable to erase eeprom'' (f, w4))
                                       else (Ret 0, f, w4)))))) s)"

section \<open>A serial EEPROM behind the device\<close>

text \<open>
  The behaviour of a device with a serial EEPROM of \<open>n\<close> words, of which \<open>mem\<close> reads the
  content: addresses wrap around at \<open>n\<close>, erasing sets every bit, and no other request changes
  the content or fails.
\<close>

definition serial_eeprom :: "'w libusb \<Rightarrow> nat \<Rightarrow> ('w \<Rightarrow> nat \<Rightarrow> u16) \<Rightarrow> bool" where
  "serial_eeprom L n mem \<longleftrightarrow>
     (\<forall>cs w. \<exists>r d w'. lu_control_transfer L cs w = ((r, d), w') \<and>
        (if cs_reqtype cs = FTDI_DEVICE_OUT_REQTYPE then
           r = 0 \<and>
           mem w' = (if cs_request cs = SIO_WRITE_EEPROM_REQUEST
                     then (mem w)(unat (cs_index cs) mod n := cs_value cs)
                     else if cs_request cs = SIO_ERASE_EEPROM_REQUEST then (\<lambda>_. 0xFFFF)
                     else mem w)
         else
           r = int (cs_length cs) \<and> mem w' = mem w \<and>
           (cs_request cs = SIO_READ_EEPROM_REQUEST \<longrightarrow>
              d = [ucast (mem w (unat (cs_index cs) mod n)),
                   ucast (drop_bit 8 (mem w (unat (cs_index cs) mod n)))])))"

lemma serial_out:
  assumes "serial_eeprom L n mem"
  obtains w' where "ctrl_out L c h request val idx w = (0, w')"
    and "mem w' = (if request = SIO_WRITE_EEPROM_REQUEST then (mem w)(unat idx mod n := val)
                   else if request = SIO_ERASE_EEPROM_REQUEST then (\<lambda>_. 0xFFFF) else mem w)"
proof -
  let ?cs = "\<lparr>cs_dev = h, cs_reqtype = FTDI_DEVICE_OUT_REQTYPE, cs_request = request, cs_value = val,
    cs_index = idx, cs_length = 0, cs_timeout = usb_write_timeout c\<rparr>"
  obtain r d w' where "lu_control_transfer L ?cs w = ((r, d), w')" and "r = 0"
    and "mem w' = (if request = SIO_WRITE_EEPROM_REQUEST then (mem w)(unat idx mod n := val)
                   else if request = SIO_ERASE_EEPROM_REQUEST then (\<lambda>_. 0xFFFF) else mem w)"
    using assms [unfolded serial_eeprom_def, rule_format, of ?cs w] by auto
  then show ?thesis using that by (simp add: ctrl_out_def)
qed

lemma serial_in:
  assumes "serial_eeprom L n mem"
  obtains d w' where "ctrl_in L c h request val idx len w = ((int len, d), w')" and "mem w' = mem w"
    and "request = SIO_READ_EEPROM_REQUEST \<longrightarrow>
      d = [ucast (mem w (unat idx mod n)), ucast (drop_bit 8 (mem w (unat idx mod n)))]"
proof -
  let ?cs = "\<lparr>cs_dev = h, cs_reqtype = FTDI_DEVICE_IN_REQTYPE, cs_request = request, cs_value = val,
    cs_index = idx, cs_length = len, cs_timeout = usb_read_timeout c\<rparr>"
  obtain r d w' where "lu_control_transfer L ?cs w = ((r, d), w')" and "r = int len"
    and "mem w' = mem w" and "request = SIO_READ_EEPROM_REQUEST \<longrightarrow>
      d = [ucast (mem w (unat idx mod n)), ucast (drop_bit 8 (mem w (unat idx mod n)))]"
    using assms [unfolded serial_eeprom_def, rule_format, of ?cs w] by auto
  then show ?thesis using that by (simp add: ctrl_in_def)
qed

lemma le16_bytes [simp]: "le16 [ucast v, ucast (drop_bit 8 v)] = v"
  unfolding le16_def buf_byte_def
  by (rule bit_word_eqI) (auto simp: bit_simps not_le)

lemma serial_read_location:
  assumes "serial_eeprom L n mem" and "usb_dev c = Some h"
  obtains w' where "ftdi_read_eeprom_location L addr (Some c, w) =
      ((0, Some (mem w (unat (word_of_int addr :: u16) mod n))), Some c, w')" and "mem w' = mem w"
proof -
  obtain d w' where "ctrl_in L c h SIO_READ_EEPROM_REQUEST 0 (word_of_int addr) 2 w = ((2, d), w')"
    and "mem w' = mem w" and "d = [ucast (mem w (unat (word_of_int addr :: u16) mod n)),
      ucast (drop_bit 8 (mem w (unat (word_of_int addr :: u16) mod n)))]"
    using serial_in [OF assms(1), of c h SIO_READ_EEPROM_REQUEST 0 "word_of_int addr" 2 w] by auto
  then show ?thesis
    using that assms(2) by (simp add: ftdi_read_eeprom_location_def with_dev_def vendor_in_def)
qed

text \<open>C8: \<open>ftdi_erase_eeprom\<close> recognises the EEPROM chip: on a device with a serial EEPROM of 64,
  128 or 256 words, whose addresses wrap around at its size, it returns 0, records the chip
  93x46, 93x56 or 93x66 in the context, changes nothing else of it, and leaves every word of
  the EEPROM erased, also the one it wrote its magic to.\<close>

theorem erase_detects_chip:
  assumes dev: "serial_eeprom L n mem" and n: "n \<in> {64, 128, 256}"
    and c: "usb_dev c = Some h" "eeprom c = Some e" "ftype c \<noteq> TYPE_R"
  shows "\<exists>w'. ftdi_erase_eeprom L (Some c, w) =
      (Ret 0, Some (c\<lparr>eeprom := Some (e\<lparr>chip := if n = 64 then 0x46 else if n = 128 then 0x56
                                               else 0x66\<rparr>)\<rparr>), w') \<and>
    mem w' = (\<lambda>_. 0xFFFF)"
proof -
  let ?k = "if n = 64 then 0x46 else if n = 128 then 0x56 else 0x66"
  obtain w1 where w1: "ctrl_out L c h SIO_ERASE_EEPROM_REQUEST 0 0 w = (0, w1)" "mem w1 = (\<lambda>_. 0xFFFF)"
    using serial_out [OF dev, where c = c and h = h and w = w and request = SIO_ERASE_EEPROM_REQUEST
        and val = 0 and idx = 0] by auto
  obtain w2 where w2: "ctrl_out L c h SIO_WRITE_EEPROM_REQUEST MAGIC 0xc0 w1 = (0, w2)"
      "mem w2 = (\<lambda>_. 0xFFFF)(192 mod n := MAGIC)"
    using serial_out [OF dev, where c = c and h = h and w = w1 and request = SIO_WRITE_EEPROM_REQUEST
        and val = MAGIC and idx = "0xc0"] w1(2) by auto
  obtain w3 where w3: "detect_chip L [(0x00, 0x46), (0x40, 0x56), (0xc0, 0x66)] (Some c, w2) =
      (Some ?k, Some c, w3)"
  proof -
    obtain v1 where v1: "ftdi_read_eeprom_location L 0x00 (Some c, w2) =
        ((0, Some (mem w2 0)), Some c, v1)" "mem v1 = mem w2"
      by (rule serial_read_location [OF dev c(1), of 0 w2]) simp
    obtain v2 where v2: "ftdi_read_eeprom_location L 0x40 (Some c, v1) =
        ((0, Some (mem w2 (64 mod n))), Some c, v2)" "mem v2 = mem w2"
      by (rule serial_read_location [OF dev c(1), of "0x40" v1]) (simp add: v1)
    obtain v3 where v3: "ftdi_read_eeprom_location L 0xc0 (Some c, v2) =
        ((0, Some (mem w2 (192 mod n))), Some c, v3)" "mem v3 = mem w2"
      by (rule serial_read_location [OF dev c(1), of "0xc0" v2]) (simp add: v2)
    have "\<exists>w3. detect_chip L [(0x00, 0x46), (0x40, 0x56), (0xc0, 0x66)] (Some c, w2) =
        (Some ?k, Some c, w3)"
      using n v1 v2 v3 by (auto simp: w2(2))
    then show ?thesis using that by blast
  qed
  obtain w4 where w4: "ctrl_out L c h SIO_ERASE_EEPROM_REQUEST 0 0 w3 = (0, w4)" "mem w4 = (\<lambda>_. 0xFFFF)"
    using serial_out [OF dev, where c = c and h = h and w = w3 and request = SIO_ERASE_EEPROM_REQUEST
        and val = 0 and idx = 0] by auto
  show ?thesis
    by (intro exI [of _ w4])
      (simp add: ftdi_erase_eeprom_def Let_def with_dev_def c w1 w2 w3 w4 set_chip_def
        del: detect_chip.simps split del: if_split)
qed

text \<open>A bus whose state is the content of a serial EEPROM of \<open>n\<close> words.\<close>

definition eeprom_usb :: "nat \<Rightarrow> (nat \<Rightarrow> u16) libusb" where
  "eeprom_usb n = idle_usb\<lparr>lu_control_transfer := (\<lambda>cs m.
     if cs_reqtype cs = FTDI_DEVICE_OUT_REQTYPE then
       ((0, []),
        if cs_request cs = SIO_WRITE_EEPROM_REQUEST then m(unat (cs_index cs) mod n := cs_value cs)
        else if cs_request cs = SIO_ERASE_EEPROM_REQUEST then (\<lambda>_. 0xFFFF) else m)
     else
       ((int (cs_length cs),
         [ucast (m (unat (cs_index cs) mod n)), ucast (drop_bit 8 (m (unat (cs_index cs) mod n)))]), m))\<rparr>"

lemma serial_eeprom_usb: "serial_eeprom (eeprom_usb n) n (\<lambda>m. m)"
  by (simp add: serial_eeprom_def eeprom_usb_def)

definition eeprom_io_context :: ftdi_context where
  "eeprom_io_context = tiny_context\<lparr>eeprom := Some (zero_eeprom
     \<lparr>eeprom_size := 0x80, initialized_for_connected_device := 1\<rparr>)\<rparr>"

lemma eeprom_io_simps [simp]:
  "usb_dev eeprom_io_context = Some 1" "ftype eeprom_io_context = TYPE_2232H"
  "eeprom eeprom_io_context =
     Some (zero_eeprom\<lparr>eeprom_size := 0x80, initialized_for_connected_device := 1\<rparr>)"
  by (simp_all add: eeprom_io_context_def tiny_context_def sample_context_def)

theorem erase_detects_chip_witness:
  "\<exists>c' w'. ftdi_erase_eeprom (eeprom_usb 128) (Some eeprom_io_context, \<lambda>_. 0) = (Ret 0, Some c', w') \<and>
     map_option chip (eeprom c') = Some 0x56 \<and> w' = (\<lambda>_. 0xFFFF)"
  using erase_detects_chip [OF serial_eeprom_usb, of 128 eeprom_io_context 1 _ "\<lambda>_. 0"] by auto

section \<open>Writing and reading back\<close>

lemma serial_write_words:
  assumes dev: "serial_eeprom L n mem" and t: "ftype c \<noteq> TYPE_230X" and n: "n \<le> 65536"
  shows "i \<le> n \<Longrightarrow> \<exists>w'. write_words L c h b n i w = (True, w') \<and>
    (\<forall>k. mem w' k = (if i \<le> k \<and> k < n then image_word b k else mem w k))"
proof (induction "n - i" arbitrary: i w)
  case 0
  then show ?case by (auto simp: write_words.simps)
next
  case (Suc m)
  then have lt: "i < n" by simp
  have "unat (of_nat i :: u16) = i" using lt n by (simp add: unat_of_nat)
  then obtain w1 where w1: "ctrl_out L c h SIO_WRITE_EEPROM_REQUEST (image_word b i) (of_nat i) w = (0, w1)"
      "mem w1 = (mem w)(i := image_word b i)"
    using serial_out [OF dev, where c = c and h = h and w = w and request = SIO_WRITE_EEPROM_REQUEST
        and val = "image_word b i" and idx = "of_nat i"] lt by auto
  have "m = n - (i + 1)" "i + 1 \<le> n" using Suc.hyps(2) lt by simp_all
  from Suc.hyps(1) [OF this, of w1]
  obtain w' where "write_words L c h b n (i + 1) w1 = (True, w')"
      "\<forall>k. mem w' k = (if i + 1 \<le> k \<and> k < n then image_word b k else mem w1 k)"
    by blast
  then show ?case
    using lt t w1 by (subst write_words.simps) (auto simp: Suc_le_eq)
qed

text \<open>The bytes of the words \<open>f i\<close>.\<close>

definition word_bytes :: "(nat \<Rightarrow> u16) \<Rightarrow> nat list \<Rightarrow> byte list" where
  "word_bytes f is = concat (map (\<lambda>i. [ucast (f i), ucast (drop_bit 8 (f i))]) is)"

lemma length_word_bytes [simp]: "length (word_bytes f is) = 2 * length is"
  by (induction "is") (simp_all add: word_bytes_def)

lemma word_bytes_Cons [simp]:
  "word_bytes f (i # is) = [ucast (f i), ucast (drop_bit 8 (f i))] @ word_bytes f is"
  by (simp add: word_bytes_def)

lemma word_bytes_append: "word_bytes f (is @ js) = word_bytes f is @ word_bytes f js"
  by (simp add: word_bytes_def)

lemma serial_read_words:
  assumes dev: "serial_eeprom L n mem"
  shows "k + j \<le> 65536 \<Longrightarrow> 2 * (k + j) \<le> length b \<Longrightarrow>
    \<exists>w'. read_words L c h [k..<k + j] b w =
      ((True, take (2 * k) b @ word_bytes (\<lambda>i. mem w (i mod n)) [k..<k + j] @ drop (2 * (k + j)) b), w')
      \<and> mem w' = mem w"
proof (induction j arbitrary: k b w)
  case 0
  then show ?case by (simp add: word_bytes_def)
next
  case (Suc j)
  have "unat (of_nat k :: u16) = k" using Suc.prems by (simp add: unat_of_nat)
  then obtain w1 where w1: "ctrl_in L c h SIO_READ_EEPROM_REQUEST 0 (of_nat k) 2 w =
      ((2, [ucast (mem w (k mod n)), ucast (drop_bit 8 (mem w (k mod n)))]), w1)" "mem w1 = mem w"
    using serial_in [OF dev, where c = c and h = h and w = w and request = SIO_READ_EEPROM_REQUEST
        and val = 0 and idx = "of_nat k" and len = 2] by auto
  let ?d = "[ucast (mem w (k mod n)), ucast (drop_bit 8 (mem w (k mod n)))] :: byte list"
  let ?b = "store_at b (k * 2) ?d"
  have "length ?b = length b" using Suc.prems(2) by simp
  with Suc.IH [of "Suc k" ?b w1] Suc.prems
  obtain w' where IH: "read_words L c h [Suc k..<Suc k + j] ?b w1 =
      ((True, take (2 * Suc k) ?b @ word_bytes (\<lambda>i. mem w (i mod n)) [Suc k..<Suc k + j]
         @ drop (2 * (Suc k + j)) ?b), w')" "mem w' = mem w"
    by (auto simp: w1(2))
  have "take (2 * Suc k) ?b = take (2 * k) b @ ?d"
    using Suc.prems(2) by (simp add: store_at_def mult.commute)
  moreover have "drop (2 * (Suc k + j)) ?b = drop (2 * (k + Suc j)) b"
    using Suc.prems(2) by (simp add: store_at_def min_def mult.commute add.commute)
  moreover have "[k..<k + Suc j] = k # [Suc k..<Suc k + j]" by (simp add: upt_conv_Cons)
  ultimately show ?case
    using w1 IH by (simp del: upt_Suc)
qed

lemma image_word_bytes:
  "[ucast (image_word b i), ucast (drop_bit 8 (image_word b i))] = [b ! (i * 2), b ! (i * 2 + 1)]"
proof -
  have "image_word b i = ucast (b ! (i * 2)) OR push_bit 8 (ucast (b ! (i * 2 + 1)))"
    unfolding image_word_def
    by (rule disjunctive_add) (auto simp: bit_simps)
  then show ?thesis
    by (auto intro!: bit_word_eqI simp: bit_simps)
qed

lemma word_bytes_image:
  assumes "2 * n \<le> length b"
  shows "word_bytes (image_word b) [0..<n] = take (2 * n) b"
  using assms
proof (induction n)
  case 0
  then show ?case by (simp add: word_bytes_def)
next
  case (Suc n)
  have "word_bytes (image_word b) [0..<Suc n] =
      word_bytes (image_word b) [0..<n] @ [b ! (2 * n), b ! (2 * n + 1)]"
    using image_word_bytes [of b n] by (simp add: word_bytes_def mult.commute)
  also have "\<dots> = take (2 * Suc n) b"
    using Suc by (simp add: take_Suc_conv_app_nth)
  finally show ?case .
qed

lemma read_eeprom_buffer:
  assumes "usb_dev c = Some h" and "eeprom c = Some e"
    and "read_words L c h [0..<128] (ebuf e) w = ((True, b), w2)"
  shows "\<exists>r e2. ftdi_read_eeprom L (Some c, w) = (r, Some (c\<lparr>eeprom := Some e2\<rparr>), w2) \<and>
    ebuf e2 = b \<and> (0 \<in> set b \<longrightarrow> r = Ret 0)"
proof -
  let ?e = "e\<lparr>ebuf := b\<rparr>"
  have half: "(256 :: nat) div 2 = 128" by simp
  have run: "ftdi_read_eeprom L (Some c, w) =
     (let sized = (\<lambda>n. (Ret 0, Some (c\<lparr>eeprom := Some (?e\<lparr>eeprom_size := n\<rparr>)\<rparr>), w2)) in
      if ftype c = TYPE_R then sized 0x80
      else (case blank_image b (release_number ?e) of
              None \<Rightarrow> (Crashes, Some (c\<lparr>eeprom := Some ?e\<rparr>), w2)
            | Some blank \<Rightarrow>
                if blank then sized (-1)
                else if take 0x80 b = take 0x80 (drop 0x80 b) then sized 0x80
                else if take 0x40 b = take 0x40 (drop 0x40 b) then sized 0x40
                else sized 0x100))"
    using assms unfolding ftdi_read_eeprom_def with_dev_def half by (simp add: Let_def)
  have "0 \<in> set b \<longrightarrow> blank_image b (release_number ?e) = Some False"
    by (simp add: blank_image_def)
  moreover consider "ftype c = TYPE_R" | "ftype c \<noteq> TYPE_R" "blank_image b (release_number ?e) = None"
    | k where "ftype c \<noteq> TYPE_R" "blank_image b (release_number ?e) = Some k"
    by blast
  then have "\<exists>r n. ftdi_read_eeprom L (Some c, w) =
      (r, Some (c\<lparr>eeprom := Some (?e\<lparr>eeprom_size := n\<rparr>)\<rparr>), w2) \<and>
      (blank_image b (release_number ?e) = None \<or> r = Ret 0)"
  proof cases
    case 1
    then have "ftdi_read_eeprom L (Some c, w) =
        (Ret 0, Some (c\<lparr>eeprom := Some (?e\<lparr>eeprom_size := 0x80\<rparr>)\<rparr>), w2)"
      by (simp add: run Let_def)
    then show ?thesis by blast
  next
    case 2
    then have "ftdi_read_eeprom L (Some c, w) = (Crashes, Some (c\<lparr>eeprom := Some ?e\<rparr>), w2)"
      by (simp add: run Let_def)
    moreover have "?e = ?e\<lparr>eeprom_size := eeprom_size ?e\<rparr>" by simp
    ultimately show ?thesis using 2(2) by metis
  next
    case 3
    then have "ftdi_read_eeprom L (Some c, w) =
        (Ret 0, Some (c\<lparr>eeprom := Some (?e\<lparr>eeprom_size :=
           if k then -1 else if take 0x80 b = take 0x80 (drop 0x80 b) then 0x80
           else if take 0x40 b = take 0x40 (drop 0x40 b) then 0x40 else 0x100\<rparr>)\<rparr>), w2)"
      by (simp add: run Let_def)
    then show ?thesis by blast
  qed
  ultimately show ?thesis by force
qed

text \<open>Requests of other kinds keep the EEPROM.\<close>

lemma serial_prepare:
  assumes dev: "serial_eeprom L n mem" and c: "usb_dev c = Some h"
  obtains c' s1 st s2 s3 w' where "ftdi_usb_reset L (Some c, w) = (0, s1)"
    and "ftdi_poll_modem_status L s1 = ((0, st), s2)"
    and "ftdi_set_latency_timer L 0x77 s2 = (0, s3)"
    and "s3 = (Some (invalidate_readbuffer c), w')" and "mem w' = mem w"
proof -
  let ?c = "invalidate_readbuffer c"
  obtain w1 where w1: "ctrl_out L c h SIO_RESET_REQUEST SIO_RESET_SIO (index16 c) w = (0, w1)" "mem w1 = mem w"
    using serial_out [OF dev, where c = c and h = h and w = w and request = SIO_RESET_REQUEST
        and val = SIO_RESET_SIO and idx = "index16 c"] by auto
  obtain d w2 where w2: "ctrl_in L ?c h SIO_POLL_MODEM_STATUS_REQUEST 0 (index16 ?c) 2 w1 = ((2, d), w2)"
      "mem w2 = mem w1"
    using serial_in [OF dev, where c = ?c and h = h and w = w1 and request = SIO_POLL_MODEM_STATUS_REQUEST
        and val = 0 and idx = "index16 ?c" and len = 2] by auto
  obtain w3 where w3: "ctrl_out L ?c h SIO_SET_LATENCY_TIMER_REQUEST 0x77 (index16 ?c) w2 = (0, w3)"
      "mem w3 = mem w2"
    using serial_out [OF dev, where c = ?c and h = h and w = w2 and request = SIO_SET_LATENCY_TIMER_REQUEST
        and val = "0x77" and idx = "index16 ?c"] by auto
  have "ftdi_usb_reset L (Some c, w) = (0, Some ?c, w1)"
    using w1 c by (simp add: ftdi_usb_reset_def with_dev_def vendor_out_def)
  moreover have "\<exists>st. ftdi_poll_modem_status L (Some ?c, w1) = ((0, st), Some ?c, w2)"
    using w2 c by (simp add: ftdi_poll_modem_status_def with_dev_def vendor_in_def)
  moreover have "ftdi_set_latency_timer L 0x77 (Some ?c, w2) = (0, Some ?c, w3)"
    using w3 c by (simp add: ftdi_set_latency_timer_def with_dev_def vendor_out_def)
  ultimately show ?thesis using that w1(2) w2(2) w3(2) by metis
qed



section \<open>The chip id identifies the device\<close>

lemma and_power_bit: "bit ((v :: byte) AND 2 ^ k) n \<longleftrightarrow> n = k \<and> bit v k"
  using bit_imp_le_length [of v k] by (auto simp: bit_and_iff bit_exp_iff)

lemma chipid_shift_bits:
  "bit (ftdi_read_chipid_shift v) 0 = bit v 2" "bit (ftdi_read_chipid_shift v) 1 = bit v 0"
  "bit (ftdi_read_chipid_shift v) 2 = bit v 6" "bit (ftdi_read_chipid_shift v) 3 = bit v 4"
  "bit (ftdi_read_chipid_shift v) 4 = bit v 5" "bit (ftdi_read_chipid_shift v) 5 = bit v 7"
  "bit (ftdi_read_chipid_shift v) 6 = bit v 1" "bit (ftdi_read_chipid_shift v) 7 = bit v 3"
proof -
  have "ftdi_read_chipid_shift v =
     push_bit 1 (v AND 2 ^ 0) OR push_bit 5 (v AND 2 ^ 1) OR drop_bit 2 (v AND 2 ^ 2)
     OR push_bit 4 (v AND 2 ^ 3) OR drop_bit 1 (v AND 2 ^ 4) OR drop_bit 1 (v AND 2 ^ 5)
     OR drop_bit 4 (v AND 2 ^ 6) OR drop_bit 2 (v AND 2 ^ 7)"
    by (simp add: ftdi_read_chipid_shift_def)
  note expand = this bit_or_iff bit_push_bit_iff bit_drop_bit_eq comp_def and_power_bit
  show "bit (ftdi_read_chipid_shift v) 0 = bit v 2" "bit (ftdi_read_chipid_shift v) 1 = bit v 0"
    "bit (ftdi_read_chipid_shift v) 2 = bit v 6" "bit (ftdi_read_chipid_shift v) 3 = bit v 4"
    "bit (ftdi_read_chipid_shift v) 4 = bit v 5" "bit (ftdi_read_chipid_shift v) 5 = bit v 7"
    "bit (ftdi_read_chipid_shift v) 6 = bit v 1" "bit (ftdi_read_chipid_shift v) 7 = bit v 3"
    unfolding expand by simp_all
qed

lemma byte_eqI: 
  assumes "bit (v :: byte) 0 = bit w 0" "bit v 1 = bit w 1" "bit v 2 = bit w 2" "bit v 3 = bit w 3"
    "bit v 4 = bit w 4" "bit v 5 = bit w 5" "bit v 6 = bit w 6" "bit v 7 = bit w 7"
  shows "v = w"
proof (rule bit_word_eqI)
  fix n assume "n < LENGTH(8)"
  then have "n \<in> {0, 1, 2, 3, 4, 5, 6, 7}" by auto
  then show "bit v n = bit w n" using assms by auto
qed

lemma chipid_shift_inject: "ftdi_read_chipid_shift v = ftdi_read_chipid_shift w \<longleftrightarrow> v = w"
proof
  assume eq: "ftdi_read_chipid_shift v = ftdi_read_chipid_shift w"
  show "v = w"
    using chipid_shift_bits [of v] chipid_shift_bits [of w] unfolding eq by (intro byte_eqI) blast+
qed simp

text \<open>The four bytes of a word, and a word of four bytes.\<close>

definition join4 :: "byte \<Rightarrow> byte \<Rightarrow> byte \<Rightarrow> byte \<Rightarrow> u32" where
  "join4 a b c d = ucast a OR push_bit 8 (ucast b) OR push_bit 16 (ucast c) OR push_bit 24 (ucast d)"

lemma join4_bytes:
  "ucast (join4 a b c d) = a" "ucast (drop_bit 8 (join4 a b c d)) = b"
  "ucast (drop_bit 16 (join4 a b c d)) = c" "ucast (drop_bit 24 (join4 a b c d)) = d"
  unfolding join4_def by (auto intro!: bit_word_eqI simp: bit_simps)

lemma join4_inject: "join4 a b c d = join4 a' b' c' d' \<longleftrightarrow> a = a' \<and> b = b' \<and> c = c' \<and> d = d'"
  by (metis join4_bytes)

definition swapped :: "u16 \<Rightarrow> u16 \<Rightarrow> u32" where
  "swapped a b =
     push_bit 16 (push_bit 8 (ucast a) OR drop_bit 8 (ucast a)) OR
     ((push_bit 8 (ucast b) OR drop_bit 8 (ucast b)) AND 0xFFFF)"

lemma swapped_bit:
  "bit (swapped a b) n \<longleftrightarrow>
     (if n < 8 then bit b (n + 8) else if n < 16 then bit b (n - 8)
      else if n < 24 then bit a (n - 8) else n < 32 \<and> bit a (n - 24))"
proof -
  have low: "((push_bit 8 (ucast b) OR drop_bit 8 (ucast b)) AND 0xFFFF :: u32) =
      take_bit 16 (push_bit 8 (ucast b) OR drop_bit 8 (ucast b))"
    by (simp add: take_bit_eq_mask mask_eq_exp_minus_1)
  have ub: "bit (ucast v :: u32) k = bit v k" for v :: u16 and k
    using bit_imp_le_length [of v k] by (auto simp: bit_unsigned_iff)
  show ?thesis
    unfolding swapped_def low bit_or_iff bit_take_bit_iff bit_push_bit_iff bit_drop_bit_eq comp_def
      possible_bit_word ub
    using bit_imp_le_length [of b "n + 8"] bit_imp_le_length [of b "n - 8"]
      bit_imp_le_length [of a "n - 16 + 8"]
    by (auto simp: add.commute)
qed

lemma swapped_bytes:
  "ucast (swapped a b) = (ucast (drop_bit 8 b) :: byte)"
  "ucast (drop_bit 8 (swapped a b)) = (ucast b :: byte)"
  "ucast (drop_bit 16 (swapped a b)) = (ucast (drop_bit 8 a) :: byte)"
  "ucast (drop_bit 24 (swapped a b)) = (ucast a :: byte)"
  by (rule bit_word_eqI; simp add: bit_unsigned_iff bit_drop_bit_eq swapped_bit add.commute)+

lemma chipid_of_join:
  "chipid_of (ucast a) (ucast b) =
     join4 (ftdi_read_chipid_shift (ucast (drop_bit 8 b))) (ftdi_read_chipid_shift (ucast b))
       (ftdi_read_chipid_shift (ucast (drop_bit 8 a))) (ftdi_read_chipid_shift (ucast a))
     XOR 0xa5f0f7d1" for a b :: u16
  unfolding chipid_of_def Let_def swapped_def [symmetric] swapped_bytes
  by (simp only: join4_def or.assoc)

lemma u16_bytes_eqI:
  assumes "ucast (v :: u16) = (ucast w :: byte)" and "ucast (drop_bit 8 v) = (ucast (drop_bit 8 w) :: byte)"
  shows "v = w"
  by (metis assms from_be16_be16)

lemma xor_cancel: "x XOR k = y XOR k \<longleftrightarrow> x = (y :: u32)"
  by (metis xor.assoc xor.right_neutral xor_self_eq)

text \<open>C16: The FTDIChip-ID identifies the device: the scrambling of its bits is injective. On two
  devices \<open>ftdi_read_chipid\<close> returns the same id only if the two words at 0x43 and 0x44 of
  their EEPROMs are equal.\<close>

theorem chipid_identifies:
  assumes dev: "serial_eeprom L n mem" and n: "0x44 < n" "n \<le> 65536" and c: "usb_dev c = Some h"
  shows "\<exists>id1 id2 w1 w2. ftdi_read_chipid L (Some c, w) = ((0, Some id1), Some c, w1) \<and>
    ftdi_read_chipid L (Some c, w') = ((0, Some id2), Some c, w2) \<and>
    (id1 = id2 \<longleftrightarrow> mem w 0x43 = mem w' 0x43 \<and> mem w 0x44 = mem w' 0x44)"
proof -
  have read: "\<exists>w2. ftdi_read_chipid L (Some c, w) =
      ((0, Some (chipid_of (ucast (mem w 0x43)) (ucast (mem w 0x44)))), Some c, w2)" for w
  proof -
    obtain w1 where w1: "ctrl_in L c h SIO_READ_EEPROM_REQUEST 0 0x43 2 w =
        ((2, [ucast (mem w 0x43), ucast (drop_bit 8 (mem w 0x43))]), w1)" "mem w1 = mem w"
      using serial_in [OF dev, where c = c and h = h and w = w and request = SIO_READ_EEPROM_REQUEST
          and val = 0 and idx = "0x43" and len = 2] n by auto
    obtain w2 where w2: "ctrl_in L c h SIO_READ_EEPROM_REQUEST 0 0x44 2 w1 =
        ((2, [ucast (mem w 0x44), ucast (drop_bit 8 (mem w 0x44))]), w2)"
      using serial_in [OF dev, where c = c and h = h and w = w1 and request = SIO_READ_EEPROM_REQUEST
          and val = 0 and idx = "0x44" and len = 2] n w1(2) by auto
    show ?thesis using w1 w2 c by (simp add: ftdi_read_chipid_def with_dev_def Let_def)
  qed
  have inj: "chipid_of (ucast a) (ucast b) = chipid_of (ucast a') (ucast b') \<longleftrightarrow> a = a' \<and> b = b'"
    for a b a' b' :: u16
    unfolding chipid_of_join xor_cancel join4_inject chipid_shift_inject
    by (metis u16_bytes_eqI)
  from read [of w] read [of w'] show ?thesis using inj by blast
qed

theorem chipid_identifies_witness:
  "\<exists>id1 id2 w1 w2. ftdi_read_chipid (eeprom_usb 128) (Some tiny_context, \<lambda>_. 0) =
      ((0, Some id1), Some tiny_context, w1) \<and>
    ftdi_read_chipid (eeprom_usb 128) (Some tiny_context, \<lambda>i. if i = 0x43 then 1 else 0) =
      ((0, Some id2), Some tiny_context, w2) \<and> id1 \<noteq> id2"
  using chipid_identifies [OF serial_eeprom_usb, of 128 tiny_context 1 "\<lambda>_. 0" "\<lambda>i. if i = 0x43 then 1 else 0"]
  by fastforce

end
