(* ===== verification/Ftdi_Eeprom_Image.thy ===== *)
theory Ftdi_Eeprom_Image
  imports Ftdi_Eeprom_Values "HOL-Library.Char_ord" "HOL-Library.Signed_Division"
begin

unbundle bit_operations_syntax

text \<open>
  The binary EEPROM image (\<open>src/libftdi/ftdi.c\<close>): \<open>ftdi_eeprom_build\<close> encodes the decoded
  EEPROM of a context into its 256 byte buffer, \<open>ftdi_eeprom_decode\<close> decodes it. The long
  \<open>switch\<close> over the chip types is one list of updates per type, in the order of the code.
\<close>

section \<open>Updates of the image\<close>

type_synonym update = "byte list \<Rightarrow> byte list"

definition run_updates :: "update list \<Rightarrow> update" where
  "run_updates us b = fold (\<lambda>u b. u b) us b"

text \<open>\<open>output[a] = v\<close>, \<open>output[a] |= m\<close> and \<open>output[a] &= ~m\<close>.\<close>

definition store :: "nat \<Rightarrow> int \<Rightarrow> update" where
  "store a v b = b[a := word_of_int v]"

definition or_at :: "nat \<Rightarrow> int \<Rightarrow> update" where
  "or_at a m b = b[a := b ! a OR word_of_int m]"

definition clear_at :: "nat \<Rightarrow> int \<Rightarrow> update" where
  "clear_at a m b = b[a := b ! a AND NOT (word_of_int m)]"

text \<open>\<open>if (c) output[a] |= m; else output[a] &= ~m;\<close>\<close>

definition flag_at :: "bool \<Rightarrow> nat \<Rightarrow> int \<Rightarrow> update" where
  "flag_at c a m = (if c then or_at a m else clear_at a m)"

definition or_if :: "bool \<Rightarrow> nat \<Rightarrow> int \<Rightarrow> update" where
  "or_if c a m = (if c then or_at a m else (\<lambda>b. b))"

section \<open>Building an image\<close>

abbreviation (input) CHANNEL_IS_UART :: byte where "CHANNEL_IS_UART \<equiv> 0x0"
abbreviation (input) CHANNEL_IS_FIFO :: byte where "CHANNEL_IS_FIFO \<equiv> 0x1"
abbreviation (input) CHANNEL_IS_OPTO :: byte where "CHANNEL_IS_OPTO \<equiv> 0x2"
abbreviation (input) CHANNEL_IS_CPU :: byte where "CHANNEL_IS_CPU \<equiv> 0x4"
abbreviation (input) CHANNEL_IS_FT1284 :: byte where "CHANNEL_IS_FT1284 \<equiv> 0x8"
abbreviation (input) CHANNEL_IS_RS485 :: int where "CHANNEL_IS_RS485 \<equiv> 0x10"
abbreviation (input) DRIVE_16MA :: int where "DRIVE_16MA \<equiv> 3"
abbreviation (input) SLOW_SLEW :: int where "SLOW_SLEW \<equiv> 4"
abbreviation (input) IS_SCHMITT :: int where "IS_SCHMITT \<equiv> 8"
abbreviation (input) DRIVER_VCP :: int where "DRIVER_VCP \<equiv> 0x08"
abbreviation (input) DRIVER_VCPH :: int where "DRIVER_VCPH \<equiv> 0x10"
abbreviation (input) USE_USB_VERSION_BIT :: int where "USE_USB_VERSION_BIT \<equiv> 0x10"
abbreviation (input) SUSPEND_DBUS7_BIT :: int where "SUSPEND_DBUS7_BIT \<equiv> 0x80"
abbreviation (input) HIGH_CURRENT_DRIVE :: int where "HIGH_CURRENT_DRIVE \<equiv> 0x10"
abbreviation (input) HIGH_CURRENT_DRIVE_R :: int where "HIGH_CURRENT_DRIVE_R \<equiv> 0x04"
abbreviation (input) FT1284_CLK_IDLE_STATE :: int where "FT1284_CLK_IDLE_STATE \<equiv> 0x01"
abbreviation (input) FT1284_DATA_LSB :: int where "FT1284_DATA_LSB \<equiv> 0x02"
abbreviation (input) FT1284_FLOW_CONTROL :: int where "FT1284_FLOW_CONTROL \<equiv> 0x04"
abbreviation (input) POWER_SAVE_DISABLE_H :: int where "POWER_SAVE_DISABLE_H \<equiv> 0x80"
abbreviation (input) USE_SERIAL_NUM :: int where "USE_SERIAL_NUM \<equiv> 0x08"
abbreviation (input) CBUS_CLK6 :: int where "CBUS_CLK6 \<equiv> 9"

definition set_ft232h_cbus :: "ftdi_eeprom \<Rightarrow> update" where
  "set_ft232h_cbus e =
     run_updates (map (\<lambda>i.
       let mode_low = (if cbus_function e ! (2 * i) > CBUSH_CLK7_5 then CBUSH_TRISTATE
                       else cbus_function e ! (2 * i));
           mode_high = (if cbus_function e ! (2 * i + 1) > CBUSH_CLK7_5 then CBUSH_TRISTATE
                        else cbus_function e ! (2 * i + 1)) in
       store (0x18 + i) (push_bit 4 mode_high OR mode_low)) [0..<5])"

definition type2bit :: "byte \<Rightarrow> ftdi_chip_type \<Rightarrow> int" where
  "type2bit type t =
     (if t = TYPE_2232H \<or> t = TYPE_2232C then
        (if type = CHANNEL_IS_UART then 0
         else if type = CHANNEL_IS_FIFO then 0x01
         else if type = CHANNEL_IS_OPTO then 0x02
         else if type = CHANNEL_IS_CPU then 0x04
         else 0)
      else if t = TYPE_232H then
        (if type = CHANNEL_IS_UART then 0
         else if type = CHANNEL_IS_FIFO then 0x01
         else if type = CHANNEL_IS_OPTO then 0x02
         else if type = CHANNEL_IS_CPU then 0x04
         else if type = CHANNEL_IS_FT1284 then 0x08
         else 0)
      else 0)"

fun user_area :: "ftdi_chip_type \<Rightarrow> int" where
  "user_area TYPE_AM = 96"
| "user_area TYPE_BM = 96"
| "user_area TYPE_2232C = 90"
| "user_area TYPE_R = 88"
| "user_area TYPE_230X = 88"
| "user_area TYPE_2232H = 86"
| "user_area TYPE_4232H = 86"
| "user_area TYPE_232H = 80"

text \<open>An \<open>unsigned char\<close> set to \<open>strlen\<close> of a string that may be NULL: the length modulo 256.\<close>

definition c_strlen8 :: "string option \<Rightarrow> nat" where
  "c_strlen8 s = (case s of None \<Rightarrow> 0 | Some t \<Rightarrow> length t mod 256)"

definition clear_image :: "ftdi_chip_type \<Rightarrow> update" where
  "clear_image t b =
     (if t = TYPE_230X then
        replicate 0x80 0 @ take 0x20 (drop 0x80 b) @ replicate (FTDI_MAX_EEPROM_SIZE - 0xa0) 0
      else replicate FTDI_MAX_EEPROM_SIZE 0)"

definition build_common :: "ftdi_chip_type \<Rightarrow> ftdi_eeprom \<Rightarrow> update list" where
  "build_common t e =
     [store 0x02 (vendor_id e), store 0x03 (drop_bit 8 (vendor_id e)),
      store 0x04 (product_id e), store 0x05 (drop_bit 8 (product_id e)),
      store 0x06 (release_number e), store 0x07 (drop_bit 8 (release_number e)),
      store 0x08 (0x80 OR (if self_powered e \<noteq> 0 then 0x40 else 0)
                       OR (if remote_wakeup e \<noteq> 0 then 0x20 else 0)),
      store 0x09 (max_power e sdiv MAX_POWER_MILLIAMP_PER_UNIT)] @
     (if t \<noteq> TYPE_AM \<and> t \<noteq> TYPE_230X then
        [store 0x0A ((if in_is_isochronous e \<noteq> 0 then 1 else 0)
                      OR (if out_is_isochronous e \<noteq> 0 then 2 else 0))]
      else [])"

text \<open>Where the strings start: the cases of the \<open>switch\<close> fall through.\<close>

fun strings_start :: "ftdi_chip_type \<Rightarrow> byte" where
  "strings_start TYPE_2232H = 2 + (2 + (2 + 0x94))"
| "strings_start TYPE_4232H = 2 + (2 + (2 + 0x94))"
| "strings_start TYPE_R = 2 + (2 + 0x94)"
| "strings_start TYPE_2232C = 2 + 0x94"
| "strings_start TYPE_AM = 0x94"
| "strings_start TYPE_BM = 0x94"
| "strings_start TYPE_232H = 0xa0"
| "strings_start TYPE_230X = 0xa0"

text \<open>
  Bytes written from the 8-bit counter \<open>i\<close> on: \<open>output[i & eeprom_size_mask] = x, i++\<close>.
\<close>

fun put_bytes :: "byte \<Rightarrow> byte \<Rightarrow> byte list \<Rightarrow> update" where
  "put_bytes msk i [] b = b"
| "put_bytes msk i (x # xs) b = put_bytes msk (i + 1) xs (b[unat (i AND msk) := x])"

text \<open>The bytes of a string descriptor; \<open>n\<close> is the 8-bit length.\<close>

definition string_descriptor :: "string option \<Rightarrow> byte list" where
  "string_descriptor s =
     (let n = c_strlen8 s in
      [of_nat (n * 2 + 2), 0x03] @
      concat (map (\<lambda>c. [of_char c, 0x00]) (case s of None \<Rightarrow> [] | Some t \<Rightarrow> take n t)))"

definition build_strings :: "ftdi_chip_type \<Rightarrow> ftdi_eeprom \<Rightarrow> update" where
  "build_strings t e b =
     (let msk = word_of_int (eeprom_size e - 1);
          i0 = strings_start t;
          dm = string_descriptor (manufacturer e);
          dp = string_descriptor (product e);
          ds = string_descriptor (serial e);
          b = b[0x0E := i0];
          b = put_bytes msk i0 dm b;
          i1 = i0 + of_nat (length dm);
          b = b[0x0F := of_nat (c_strlen8 (manufacturer e) * 2 + 2)];
          b = b[0x10 := i1 OR 0x80];
          b = put_bytes msk i1 dp b;
          i2 = i1 + of_nat (length dp);
          b = b[0x11 := of_nat (c_strlen8 (product e) * 2 + 2)];
          b = b[0x12 := i2 OR 0x80];
          b = put_bytes msk i2 ds b;
          i3 = i2 + of_nat (length ds);
          b = (if t > TYPE_BM
               then put_bytes msk i3 [0x02, 0x03, word_of_int (is_not_pnp e)] b else b) in
      b[0x13 := of_nat (c_strlen8 (serial e) * 2 + 2)])"

text \<open>\<open>output[0x0A] |= / &= ~USE_SERIAL_NUM\<close>, not on the AM.\<close>

definition build_use_serial :: "ftdi_chip_type \<Rightarrow> ftdi_eeprom \<Rightarrow> update list" where
  "build_use_serial t e =
     (if t > TYPE_AM then [flag_at (use_serial e \<noteq> 0) 0x0A USE_SERIAL_NUM] else [])"

definition build_bm :: "ftdi_eeprom \<Rightarrow> update list" where
  "build_bm e =
     [store 0x0C (usb_version e AND 0xff),
      store 0x0D (drop_bit 8 (usb_version e) AND 0xff),
      flag_at (use_usb_version e = USE_USB_VERSION_BIT) 0x0A USE_USB_VERSION_BIT]"

definition build_2232c :: "ftdi_eeprom \<Rightarrow> update list" where
  "build_2232c e =
     [store 0x00 (type2bit (word_of_int (channel_a_type e)) TYPE_2232C),
      flag_at (channel_a_driver e = DRIVER_VCP) 0x00 DRIVER_VCP,
      flag_at (high_current_a e = HIGH_CURRENT_DRIVE) 0x00 HIGH_CURRENT_DRIVE,
      store 0x01 (type2bit (word_of_int (channel_b_type e)) TYPE_2232C),
      flag_at (channel_b_driver e = DRIVER_VCP) 0x01 DRIVER_VCP,
      flag_at (high_current_b e = HIGH_CURRENT_DRIVE) 0x01 HIGH_CURRENT_DRIVE,
      flag_at (in_is_isochronous e \<noteq> 0) 0x0A 0x1,
      flag_at (out_is_isochronous e \<noteq> 0) 0x0A 0x2,
      flag_at (suspend_pull_downs e \<noteq> 0) 0x0A 0x4,
      flag_at (use_usb_version e = USE_USB_VERSION_BIT) 0x0A USE_USB_VERSION_BIT,
      store 0x0C (usb_version e AND 0xff),
      store 0x0D (drop_bit 8 (usb_version e) AND 0xff),
      store 0x14 (chip e)]"

definition build_r :: "ftdi_eeprom \<Rightarrow> update list" where
  "build_r e =
     (let f = (\<lambda>i. cbus_function e ! i) in
     [or_if (high_current e = HIGH_CURRENT_DRIVE_R) 0x00 HIGH_CURRENT_DRIVE_R,
      store 0x01 0x40,
      flag_at (suspend_pull_downs e \<noteq> 0) 0x0A 0x4,
      store 0x0B (invert e),
      store 0x0C (usb_version e AND 0xff),
      store 0x0D (drop_bit 8 (usb_version e) AND 0xff),
      store 0x14 (if f 0 > CBUS_BB then CBUS_TXLED else f 0),
      or_at 0x14 (if f 1 > CBUS_BB then push_bit 4 CBUS_RXLED else push_bit 4 (f 1)),
      store 0x15 (if f 2 > CBUS_BB then CBUS_TXDEN else f 2),
      or_at 0x15 (if f 3 > CBUS_BB then push_bit 4 CBUS_PWREN else push_bit 4 (f 3)),
      store 0x16 (if f 4 > CBUS_CLK6 then CBUS_SLEEP else f 4)])"

text \<open>The drive strength, Schmitt trigger and slew rate of a pin group, at a nibble of a byte.\<close>

definition build_group :: "nat \<Rightarrow> nat \<Rightarrow> int \<Rightarrow> int \<Rightarrow> int \<Rightarrow> update list" where
  "build_group a shift drive schmitt slew =
     [or_at a (push_bit shift (if drive > DRIVE_16MA then DRIVE_16MA else drive)),
      or_if (schmitt = IS_SCHMITT) a (push_bit shift IS_SCHMITT),
      or_if (slew = SLOW_SLEW) a (push_bit shift SLOW_SLEW)]"

definition build_groups4 :: "ftdi_eeprom \<Rightarrow> update list" where
  "build_groups4 e =
     build_group 0x0c 0 (group0_drive e) (group0_schmitt e) (group0_slew e) @
     build_group 0x0c 4 (group1_drive e) (group1_schmitt e) (group1_slew e) @
     build_group 0x0d 0 (group2_drive e) (group2_schmitt e) (group2_slew e) @
     build_group 0x0d 4 (group3_drive e) (group3_schmitt e) (group3_slew e)"

definition build_2232h :: "ftdi_eeprom \<Rightarrow> update list" where
  "build_2232h e =
     [store 0x00 (type2bit (word_of_int (channel_a_type e)) TYPE_2232H),
      flag_at (channel_a_driver e = DRIVER_VCP) 0x00 DRIVER_VCP,
      store 0x01 (type2bit (word_of_int (channel_b_type e)) TYPE_2232H),
      flag_at (channel_b_driver e = DRIVER_VCP) 0x01 DRIVER_VCP,
      flag_at (suspend_dbus7 e = SUSPEND_DBUS7_BIT) 0x01 SUSPEND_DBUS7_BIT,
      flag_at (suspend_pull_downs e \<noteq> 0) 0x0A 0x4] @
     build_groups4 e @
     [store 0x18 (chip e)]"

definition build_4232h :: "ftdi_eeprom \<Rightarrow> update list" where
  "build_4232h e =
     [flag_at (channel_a_driver e = DRIVER_VCP) 0x00 DRIVER_VCP,
      flag_at (channel_b_driver e = DRIVER_VCP) 0x01 DRIVER_VCP,
      flag_at (channel_c_driver e = DRIVER_VCP) 0x00 (push_bit 4 DRIVER_VCP),
      flag_at (channel_d_driver e = DRIVER_VCP) 0x01 (push_bit 4 DRIVER_VCP),
      flag_at (suspend_pull_downs e \<noteq> 0) 0x0A 0x4,
      flag_at (channel_a_rs485enable e \<noteq> 0) 0x0b (push_bit 0 CHANNEL_IS_RS485),
      flag_at (channel_b_rs485enable e \<noteq> 0) 0x0b (push_bit 1 CHANNEL_IS_RS485),
      flag_at (channel_c_rs485enable e \<noteq> 0) 0x0b (push_bit 2 CHANNEL_IS_RS485),
      flag_at (channel_d_rs485enable e \<noteq> 0) 0x0b (push_bit 3 CHANNEL_IS_RS485)] @
     build_groups4 e @
     [store 0x18 (chip e)]"

definition build_232h :: "ftdi_eeprom \<Rightarrow> update list" where
  "build_232h e =
     [store 0x00 (type2bit (word_of_int (channel_a_type e)) TYPE_232H),
      flag_at (channel_a_driver e = DRIVER_VCP) 0x00 DRIVER_VCPH,
      flag_at (powersave e \<noteq> 0) 0x01 POWER_SAVE_DISABLE_H,
      flag_at (suspend_pull_downs e \<noteq> 0) 0x0a 0x4,
      flag_at (clock_polarity e \<noteq> 0) 0x01 FT1284_CLK_IDLE_STATE,
      flag_at (data_order e \<noteq> 0) 0x01 FT1284_DATA_LSB,
      flag_at (flow_control e \<noteq> 0) 0x01 FT1284_FLOW_CONTROL] @
     build_group 0x0c 0 (group0_drive e) (group0_schmitt e) (group0_slew e) @
     build_group 0x0d 0 (group1_drive e) (group1_schmitt e) (group1_slew e) @
     [set_ft232h_cbus e, store 0x1e (chip e)]"

definition build_230x :: "ftdi_eeprom \<Rightarrow> update list" where
  "build_230x e =
     [store 0x00 0x80, store 0x0a 0x08, store 0x0c (0x01 OR push_bit 4 0x3)] @
     map (\<lambda>j. store (0x1a + j) (cbus_function e ! j)) [0..<7]"

fun build_specific :: "ftdi_chip_type \<Rightarrow> ftdi_eeprom \<Rightarrow> update list" where
  "build_specific TYPE_AM e = []"
| "build_specific TYPE_BM e = build_bm e"
| "build_specific TYPE_2232C e = build_2232c e"
| "build_specific TYPE_R e = build_r e"
| "build_specific TYPE_2232H e = build_2232h e"
| "build_specific TYPE_4232H e = build_4232h e"
| "build_specific TYPE_232H e = build_232h e"
| "build_specific TYPE_230X e = build_230x e"

text \<open>
  The checksum over the first \<open>n\<close> 16-bit words; on the FT230X the loop jumps over the words
  0x12 to 0x3f.
\<close>

definition word_at :: "byte list \<Rightarrow> nat \<Rightarrow> u16" where
  "word_at b i = ucast (b ! (i * 2)) + push_bit 8 (ucast (b ! (i * 2 + 1)))"

definition checksum_step :: "u16 \<Rightarrow> u16 \<Rightarrow> u16" where
  "checksum_step val checksum =
     (let x = val XOR checksum in push_bit 1 x OR drop_bit 15 x)"

function checksum_loop :: "ftdi_chip_type \<Rightarrow> nat \<Rightarrow> byte list \<Rightarrow> nat \<Rightarrow> u16 \<Rightarrow> u16" where
  "checksum_loop t n b i checksum =
     (if i < n then
        (let i = (if t = TYPE_230X \<and> i = 0x12 then 0x40 else i) in
         checksum_loop t n b (i + 1) (checksum_step (word_at b i) checksum))
      else checksum)"
  by pat_completeness auto
termination by (relation "measure (\<lambda>(t, n, b, i, c). n - i)") auto

declare checksum_loop.simps [simp del]

definition eeprom_checksum :: "ftdi_chip_type \<Rightarrow> nat \<Rightarrow> byte list \<Rightarrow> u16" where
  "eeprom_checksum t sz b = checksum_loop t (sz div 2 - 1) b 0 0xAAAA"

text \<open>The image of an EEPROM whose size is known.\<close>

definition build_image :: "ftdi_chip_type \<Rightarrow> ftdi_eeprom \<Rightarrow> byte list" where
  "build_image t e =
     (let sz = nat (eeprom_size e);
          b = clear_image t (ebuf e);
          b = run_updates (build_common t e) b;
          b = build_strings t e b;
          b = run_updates (build_use_serial t e) b;
          b = run_updates (build_specific t e) b;
          checksum = eeprom_checksum t sz b in
      b[sz - 2 := ucast checksum, sz - 1 := ucast (drop_bit 8 checksum)])"

text \<open>
  A size below 2 or beyond the buffer makes the final stores miss the buffer. (After
  \<open>ftdi_new\<close> the size is 0 until the EEPROM was read or initialised.)
\<close>

definition ftdi_eeprom_build :: "'w st \<Rightarrow> int outcome \<times> 'w st" where
  "ftdi_eeprom_build s =
     (let fail = (\<lambda>res. case res of (r, s') \<Rightarrow> (Ret r, s')) in
      case fst s of
        None \<Rightarrow> fail (ftdi_error_return (-2) ''No context'' s)
      | Some c \<Rightarrow>
          (case eeprom c of
             None \<Rightarrow> fail (ftdi_error_return (-2) ''No eeprom structure'' s)
           | Some e0 \<Rightarrow>
               if chip e0 = -1 then
                 fail (ftdi_error_return (-6) ''No connected EEPROM or EEPROM type unknown'' s)
               else
                 (let e = (if eeprom_size e0 = -1 then
                             e0\<lparr>eeprom_size := (if chip e0 = 0x56 \<or> chip e0 = 0x66 then 0x100
                                               else 0x80)\<rparr>
                           else e0);
                      c1 = c\<lparr>eeprom := Some e\<rparr>;
                      user_area_size = user_area (ftype c) -
                        (int (c_strlen8 (manufacturer e)) + int (c_strlen8 (product e)) +
                         int (c_strlen8 (serial e))) * 2 in
                  if user_area_size < 0 then
                    fail (ftdi_error_return (-1) ''eeprom size exceeded'' (Some c1, snd s))
                  else if eeprom_size e < 2 \<or> 256 < eeprom_size e then (Crashes, (Some c1, snd s))
                  else
                    (Ret user_area_size,
                     Some (c\<lparr>eeprom := Some (e\<lparr>ebuf := build_image (ftype c) e,
                                           initialized_for_connected_device := 1\<rparr>)\<rparr>), snd s))))"

section \<open>Decoding an image\<close>

definition bit2type :: "byte \<Rightarrow> int" where
  "bit2type bits =
     (if bits = 0 then 0 else if bits = 1 then 1 else if bits = 2 then 2
      else if bits = 4 then 4 else if bits = 8 then 8 else 0)"

text \<open>A byte of the image as an \<open>int\<close>, and 16 bits in little-endian order.\<close>

definition byte_at :: "byte list \<Rightarrow> nat \<Rightarrow> int" where
  "byte_at b a = uint (b ! a)"

definition short_at :: "byte list \<Rightarrow> nat \<Rightarrow> int" where
  "short_at b a = byte_at b a + push_bit 8 (byte_at b (a + 1))"

text \<open>
  A string of the image: the descriptor's offset is at \<open>a\<close>, its length at \<open>a + 1\<close>. The
  result is \<open>None\<close> when the characters reach beyond the buffer, and \<open>Some None\<close> for a NULL
  string. A C string ends at its first NUL.
\<close>

definition decode_string ::
  "(nat \<Rightarrow> bool) \<Rightarrow> int \<Rightarrow> byte list \<Rightarrow> nat \<Rightarrow> string option option" where
  "decode_string alloc sz b a =
     (let n = unat (b ! (a + 1)) div 2 in
      if n = 0 \<or> \<not> alloc n then Some None
      else
        (let i = nat (byte_at b a AND (sz - 1)) in
         if n - 1 > 0 \<and> 2 * (n - 2) + i + 2 \<ge> 256 then None
         else Some (Some (takeWhile (\<lambda>ch. ch \<noteq> CHR 0x00)
                (map (\<lambda>j. char_of (unat (b ! (2 * j + i + 2)))) [0..<n - 1])))))"

definition decode_common :: "byte list \<Rightarrow> ftdi_eeprom \<Rightarrow> ftdi_eeprom" where
  "decode_common b e =
     e\<lparr>vendor_id := short_at b 0x02, product_id := short_at b 0x04,
       release_number := short_at b 0x06,
       self_powered := byte_at b 0x08 AND 0x40, remote_wakeup := byte_at b 0x08 AND 0x20,
       max_power := MAX_POWER_MILLIAMP_PER_UNIT * byte_at b 0x09,
       in_is_isochronous := byte_at b 0x0A AND 0x01,
       out_is_isochronous := byte_at b 0x0A AND 0x02,
       suspend_pull_downs := byte_at b 0x0A AND 0x04,
       use_serial := (if byte_at b 0x0A AND USE_SERIAL_NUM \<noteq> 0 then 1 else 0),
       use_usb_version := byte_at b 0x0A AND USE_USB_VERSION_BIT,
       usb_version := short_at b 0x0C\<rparr>"

definition decode_2232c :: "byte list \<Rightarrow> ftdi_eeprom \<Rightarrow> ftdi_eeprom" where
  "decode_2232c b e =
     e\<lparr>channel_a_type := bit2type ((b ! 0x00) AND 0x7),
       channel_a_driver := byte_at b 0x00 AND DRIVER_VCP,
       high_current_a := byte_at b 0x00 AND HIGH_CURRENT_DRIVE,
       channel_b_type := byte_at b 0x01 AND 0x7,
       channel_b_driver := byte_at b 0x01 AND DRIVER_VCP,
       high_current_b := byte_at b 0x01 AND HIGH_CURRENT_DRIVE,
       chip := byte_at b 0x14\<rparr>"

definition decode_r :: "byte list \<Rightarrow> ftdi_eeprom \<Rightarrow> ftdi_eeprom" where
  "decode_r b e =
     e\<lparr>channel_a_driver := NOT (byte_at b 0x00) AND DRIVER_VCP,
       high_current := byte_at b 0x00 AND HIGH_CURRENT_DRIVE_R,
       chip := byte_at b 0x16,
       invert := byte_at b 0x0B,
       cbus_function :=
         [byte_at b 0x14 AND 0x0f, drop_bit 4 (byte_at b 0x14) AND 0x0f,
          byte_at b 0x15 AND 0x0f, drop_bit 4 (byte_at b 0x15) AND 0x0f,
          byte_at b 0x16 AND 0x0f] @ drop 5 (cbus_function e)\<rparr>"

definition decode_x232h :: "ftdi_chip_type \<Rightarrow> byte list \<Rightarrow> ftdi_eeprom \<Rightarrow> ftdi_eeprom" where
  "decode_x232h t b e =
     (let e1 = e\<lparr>channel_a_driver := byte_at b 0x00 AND DRIVER_VCP,
                 channel_b_driver := byte_at b 0x01 AND DRIVER_VCP\<rparr>;
          e2 = (if t = TYPE_2232H then
                  e1\<lparr>channel_a_type := bit2type ((b ! 0x00) AND 0x7),
                     channel_b_type := bit2type ((b ! 0x01) AND 0x7),
                     suspend_dbus7 := byte_at b 0x01 AND SUSPEND_DBUS7_BIT\<rparr>
                else
                  e1\<lparr>channel_c_driver := drop_bit 4 (byte_at b 0x00) AND DRIVER_VCP,
                     channel_d_driver := drop_bit 4 (byte_at b 0x01) AND DRIVER_VCP,
                     channel_a_rs485enable := byte_at b 0x0b AND push_bit 0 CHANNEL_IS_RS485,
                     channel_b_rs485enable := byte_at b 0x0b AND push_bit 1 CHANNEL_IS_RS485,
                     channel_c_rs485enable := byte_at b 0x0b AND push_bit 2 CHANNEL_IS_RS485,
                     channel_d_rs485enable := byte_at b 0x0b AND push_bit 3 CHANNEL_IS_RS485\<rparr>) in
      e2\<lparr>chip := byte_at b 0x18,
         group0_drive := byte_at b 0x0c AND DRIVE_16MA,
         group0_schmitt := byte_at b 0x0c AND IS_SCHMITT,
         group0_slew := byte_at b 0x0c AND SLOW_SLEW,
         group1_drive := drop_bit 4 (byte_at b 0x0c) AND 0x3,
         group1_schmitt := drop_bit 4 (byte_at b 0x0c) AND IS_SCHMITT,
         group1_slew := drop_bit 4 (byte_at b 0x0c) AND SLOW_SLEW,
         group2_drive := byte_at b 0x0d AND DRIVE_16MA,
         group2_schmitt := byte_at b 0x0d AND IS_SCHMITT,
         group2_slew := byte_at b 0x0d AND SLOW_SLEW,
         group3_drive := drop_bit 4 (byte_at b 0x0d) AND DRIVE_16MA,
         group3_schmitt := drop_bit 4 (byte_at b 0x0d) AND IS_SCHMITT,
         group3_slew := drop_bit 4 (byte_at b 0x0d) AND SLOW_SLEW\<rparr>)"

definition decode_232h :: "byte list \<Rightarrow> ftdi_eeprom \<Rightarrow> ftdi_eeprom" where
  "decode_232h b e =
     e\<lparr>channel_a_type := byte_at b 0x00 AND 0xf,
       channel_a_driver := (if byte_at b 0x00 AND DRIVER_VCPH \<noteq> 0 then DRIVER_VCP else 0),
       clock_polarity := byte_at b 0x01 AND FT1284_CLK_IDLE_STATE,
       data_order := byte_at b 0x01 AND FT1284_DATA_LSB,
       flow_control := byte_at b 0x01 AND FT1284_FLOW_CONTROL,
       powersave := byte_at b 0x01 AND POWER_SAVE_DISABLE_H,
       group0_drive := byte_at b 0x0c AND DRIVE_16MA,
       group0_schmitt := byte_at b 0x0c AND IS_SCHMITT,
       group0_slew := byte_at b 0x0c AND SLOW_SLEW,
       group1_drive := byte_at b 0x0d AND DRIVE_16MA,
       group1_schmitt := byte_at b 0x0d AND IS_SCHMITT,
       group1_slew := byte_at b 0x0d AND SLOW_SLEW,
       cbus_function := concat (map (\<lambda>i. [byte_at b (0x18 + i) AND 0x0f,
                                          drop_bit 4 (byte_at b (0x18 + i)) AND 0x0f]) [0..<5])
                        @ drop 10 (cbus_function e),
       chip := byte_at b 0x1e\<rparr>"

definition decode_230x :: "byte list \<Rightarrow> ftdi_eeprom \<Rightarrow> ftdi_eeprom" where
  "decode_230x b e =
     e\<lparr>cbus_function := map (\<lambda>i. byte_at b (0x1a + i) AND 0xFF) [0..<4] @ drop 4 (cbus_function e),
       group0_drive := byte_at b 0x0c AND 0x03,
       group0_schmitt := byte_at b 0x0c AND IS_SCHMITT,
       group0_slew := byte_at b 0x0c AND SLOW_SLEW,
       group1_drive := drop_bit 4 (byte_at b 0x0c) AND 0x03,
       group1_schmitt := drop_bit 4 (byte_at b 0x0c) AND IS_SCHMITT,
       group1_slew := drop_bit 4 (byte_at b 0x0c) AND SLOW_SLEW\<rparr>"

fun decode_specific :: "ftdi_chip_type \<Rightarrow> byte list \<Rightarrow> ftdi_eeprom \<Rightarrow> ftdi_eeprom" where
  "decode_specific TYPE_AM b e = e\<lparr>chip := -1\<rparr>"
| "decode_specific TYPE_BM b e = e\<lparr>chip := -1\<rparr>"
| "decode_specific TYPE_2232C b e = decode_2232c b e"
| "decode_specific TYPE_R b e = decode_r b e"
| "decode_specific TYPE_2232H b e = decode_x232h TYPE_2232H b e"
| "decode_specific TYPE_4232H b e = decode_x232h TYPE_4232H b e"
| "decode_specific TYPE_232H b e = decode_232h b e"
| "decode_specific TYPE_230X b e = decode_230x b e"

text \<open>
  \<open>ftdi_eeprom_decode\<close> without its output to stdout and stderr. It is undefined when a string
  or the checksum lies outside of the buffer.
\<close>

definition ftdi_eeprom_decode :: "(nat \<Rightarrow> bool) \<Rightarrow> 'w st \<Rightarrow> int outcome \<times> 'w st" where
  "ftdi_eeprom_decode alloc s =
     (let fail = (\<lambda>res. case res of (r, s') \<Rightarrow> (Ret r, s')) in
      case fst s of
        None \<Rightarrow> fail (ftdi_error_return (-1) ''No context'' s)
      | Some c \<Rightarrow>
          (case eeprom c of
             None \<Rightarrow> fail (ftdi_error_return (-1) ''No eeprom structure'' s)
           | Some e \<Rightarrow>
               (let sz = eeprom_size e; b = ebuf e in
                case (decode_string alloc sz b 0x0E, decode_string alloc sz b 0x10,
                      decode_string alloc sz b 0x12) of
                  (Some m, Some p, Some sn) \<Rightarrow>
                    if sz < 2 \<or> 256 < sz then (Crashes, s)
                    else
                      (let e1 = (decode_common b e)
                                  \<lparr>manufacturer := m, product := p, serial := sn\<rparr> in
                       if short_at b (nat sz - 2) \<noteq> uint (eeprom_checksum (ftype c) (nat sz) b) then
                         fail (ftdi_error_return (-1) ''EEPROM checksum error''
                                 (Some (c\<lparr>eeprom := Some e1\<rparr>), snd s))
                       else
                         (Ret 0, Some (c\<lparr>eeprom :=
                            Some (decode_specific (ftype c) b (e1\<lparr>channel_a_type := 0\<rparr>))\<rparr>), snd s))
                | _ \<Rightarrow> (Crashes, s))))"

end
