(* ===== verification/Ftdi_Api.thy ===== *)
theory Ftdi_Api
  imports Ftdi_Data Ftdi_Open_String Ftdi_Eeprom_Io Ftdi_Eeprom_Image
begin

text \<open>
  A program using libftdi: the life of a context from its initialisation on, by any sequence of
  the library's synchronous calls, on any bus, and the invariant all of them keep. The
  asynchronous transfers (\<open>ftdi_read_data_submit\<close>, \<open>ftdi_write_data_submit\<close>,
  \<open>ftdi_transfer_data_done\<close> of \<open>ftdi.c\<close>, \<open>ftdi_readstream\<close> of \<open>ftdi_stream.c\<close>) are not modelled.
\<close>

section \<open>The invariant\<close>

definition endpoints_ok :: "ftdi_context \<Rightarrow> bool" where
  "endpoints_ok c \<longleftrightarrow>
     interface c \<in> {0, 1, 2, 3} \<and> index c = interface c + 1 \<and>
     in_ep c = 2 + 2 * interface c \<and> out_ep c = 0x81 + 2 * interface c"

definition api_inv :: "ftdi_context \<Rightarrow> bool" where
  "api_inv c \<longleftrightarrow>
     ctx_wf c \<and> readbuffer_chunksize c \<le> 16384 \<and>
     (max_packet_size c = 0 \<or> 2 < max_packet_size c) \<and> endpoints_ok c \<and>
     (case eeprom c of None \<Rightarrow> False
      | Some e \<Rightarrow> length (ebuf e) = 256 \<and> length (cbus_function e) = 10)"

text \<open>What USB demands of a bulk endpoint: packets of at least 8 bytes.\<close>

definition descriptors_ok :: "'w libusb \<Rightarrow> bool" where
  "descriptors_ok L \<longleftrightarrow>
     (\<forall>d w r cfg w'. lu_get_config_descriptor L d w = ((r, cfg), w') \<longrightarrow>
        (\<forall>alts\<in>set (cfg_interfaces cfg). \<forall>eps\<in>set alts. \<forall>ps\<in>set eps. 8 \<le> ps))"

text \<open>The context after a call, if the call left one, satisfies the invariant.\<close>

definition keeps :: "'r \<times> 'w st \<Rightarrow> bool" where
  "keeps res \<longleftrightarrow> (\<exists>c' w'. snd res = (Some c', w') \<and> api_inv c')"

lemma keepsI: "api_inv c \<Longrightarrow> keeps (r, Some c, w)"
  by (simp add: keeps_def)

lemma api_inv_updates [simp]:
  "api_inv (c\<lparr>error_str := x1\<rparr>) = api_inv c"
  "api_inv (c\<lparr>usb_dev := x2\<rparr>) = api_inv c"
  "api_inv (c\<lparr>bitbang_mode := x3\<rparr>) = api_inv c"
  "api_inv (c\<lparr>bitbang_enabled := x4\<rparr>) = api_inv c"
  "api_inv (c\<lparr>baudrate := x5\<rparr>) = api_inv c"
  "api_inv (c\<lparr>ftype := x6\<rparr>) = api_inv c"
  "api_inv (c\<lparr>writebuffer_chunksize := x7\<rparr>) = api_inv c"
  by (simp_all add: api_inv_def ctx_wf_def endpoints_ok_def)

lemma api_inv_invalidate [simp]: "api_inv c \<Longrightarrow> api_inv (invalidate_readbuffer c)"
  by (simp add: api_inv_def ctx_wf_def endpoints_ok_def invalidate_readbuffer_def)

lemma api_inv_eeprom:
  "api_inv c \<Longrightarrow> length (ebuf e) = 256 \<Longrightarrow> length (cbus_function e) = 10 \<Longrightarrow>
   api_inv (c\<lparr>eeprom := Some e\<rparr>)"
  by (simp add: api_inv_def ctx_wf_def endpoints_ok_def)

lemma api_inv_eepromD:
  assumes "api_inv c"
  obtains e where "eeprom c = Some e" and "length (ebuf e) = 256" and "length (cbus_function e) = 10"
  using assms by (auto simp: api_inv_def split: option.splits)

section \<open>The calls keep it\<close>

lemma keeps_error [intro]: "api_inv c \<Longrightarrow> keeps (ftdi_error_return code msg (Some c, w))"
  by (simp add: ftdi_error_return_def keeps_def)

lemma keeps_no_value [intro]: "keeps res \<Longrightarrow> keeps (no_value res)"
  by (auto simp: keeps_def no_value_def split: prod.splits)

lemma keeps_ret: "keeps res \<Longrightarrow> keeps (case res of (r, s') \<Rightarrow> (Ret r, s'))"
  by (auto simp: keeps_def split: prod.splits)

lemma keeps_with_dev:
  assumes "keeps (err (Some c, w))" and "\<And>h. usb_dev c = Some h \<Longrightarrow> keeps (body c h w)"
  shows "keeps (with_dev err body (Some c, w))"
  using assms by (auto simp: with_dev_def split: option.splits)

lemma keeps_vendor_out:
  assumes "api_inv c" and "\<And>c. api_inv c \<Longrightarrow> api_inv (upd c)"
  shows "keeps (vendor_out L request val idx code msg upd c h w)"
  using assms by (auto simp: vendor_out_def keeps_def ftdi_error_return_def split: prod.splits)

lemma keeps_vendor_in:
  assumes "api_inv c"
  shows "keeps (vendor_in L request val idx len code msg get c h w)"
  using assms by (auto simp: vendor_in_def keeps_def no_value_def ftdi_error_return_def split: prod.splits)

lemmas keeps_rules = keeps_with_dev keeps_vendor_out keeps_vendor_in keeps_error keeps_no_value

lemma keeps_control:
  assumes "api_inv c"
  shows "keeps (ftdi_usb_reset L (Some c, w))"
    and "keeps (ftdi_usb_purge_rx_buffer L (Some c, w))"
    and "keeps (ftdi_usb_purge_tx_buffer L (Some c, w))"
    and "keeps (ftdi_set_line_property2 L bits sbit parity brk (Some c, w))"
    and "keeps (ftdi_set_bitmode L msk mode (Some c, w))"
    and "keeps (ftdi_disable_bitbang L (Some c, w))"
    and "keeps (ftdi_read_pins L (Some c, w))"
    and "keeps (ftdi_set_latency_timer L lat (Some c, w))"
    and "keeps (ftdi_get_latency_timer L (Some c, w))"
    and "keeps (ftdi_poll_modem_status L (Some c, w))"
    and "keeps (ftdi_setflowctrl L flow (Some c, w))"
    and "keeps (ftdi_setdtr L dtr (Some c, w))"
    and "keeps (ftdi_setrts L rts (Some c, w))"
    and "keeps (ftdi_setdtr_rts L dtr rts (Some c, w))"
    and "keeps (ftdi_set_event_char L ch en (Some c, w))"
    and "keeps (ftdi_set_error_char L ch en (Some c, w))"
    and "keeps (ftdi_read_eeprom_location L addr (Some c, w))"
  unfolding ftdi_usb_reset_def ftdi_usb_purge_rx_buffer_def ftdi_usb_purge_tx_buffer_def
    ftdi_set_line_property2_def ftdi_set_bitmode_def ftdi_disable_bitbang_def ftdi_read_pins_def
    ftdi_set_latency_timer_def ftdi_get_latency_timer_def ftdi_poll_modem_status_def
    ftdi_setflowctrl_def ftdi_setdtr_def ftdi_setrts_def ftdi_setdtr_rts_def
    ftdi_set_event_char_def ftdi_set_error_char_def ftdi_read_eeprom_location_def Let_def
  using assms by (simp_all add: keeps_rules)

lemma keeps_purge_buffers:
  assumes "api_inv c"
  shows "keeps (ftdi_usb_purge_buffers L (Some c, w))"
proof -
  obtain r1 c1 w1 where 1: "ftdi_usb_purge_rx_buffer L (Some c, w) = (r1, Some c1, w1)" "api_inv c1"
    using keeps_control(2) [OF assms, of L w] by (auto simp: keeps_def) (metis prod.collapse)
  obtain r2 c2 w2 where 2: "ftdi_usb_purge_tx_buffer L (Some c1, w1) = (r2, Some c2, w2)" "api_inv c2"
    using keeps_control(3) [OF 1(2), of L w1] by (auto simp: keeps_def) (metis prod.collapse)
  show ?thesis
    unfolding ftdi_usb_purge_buffers_def
    using assms 1 2 by (intro keeps_with_dev) (auto intro: keepsI)
qed

lemma keeps_settings:
  assumes "api_inv c"
  shows "keeps (ftdi_set_interface itf (Some c, w))"
    and "keeps (ftdi_read_data_set_chunksize alloc n (Some c, w))"
    and "keeps (ftdi_write_data_set_chunksize k (Some c, w))"
  using assms
  by (simp_all add: ftdi_set_interface_def ftdi_read_data_set_chunksize_def
      ftdi_write_data_set_chunksize_def Let_def keeps_def ftdi_error_return_def)
    (auto simp: api_inv_def ctx_wf_def endpoints_ok_def split: option.splits)

lemma close_internal_inv:
  assumes "api_inv c"
  shows "\<exists>c' w'. ftdi_usb_close_internal L (Some c, w) = (Some c', w') \<and> api_inv c' \<and> usb_dev c' = None \<and>
    ftype c' = ftype c"
  using assms
  by (auto simp: ftdi_usb_close_internal_def api_inv_def ctx_wf_def endpoints_ok_def split: option.splits)

lemma keeps_usb_close:
  assumes "api_inv c"
  shows "keeps (ftdi_usb_close L (Some c, w))"
  using close_internal_inv [OF assms, of L]
  by (auto simp: ftdi_usb_close_def keeps_def split: option.splits prod.splits) metis+

lemma keeps_set_baudrate:
  assumes "api_inv c"
  shows "keeps (ftdi_set_baudrate L rate (Some c, w))"
  unfolding ftdi_set_baudrate_def
  using assms
  by (intro keeps_with_dev) (auto simp: Let_def keeps_rules split: prod.splits option.splits)

text \<open>The EEPROM.\<close>

lemma keeps_eeprom:
  assumes "api_inv c" and "length (ebuf e) = 256" and "length (cbus_function e) = 10"
  shows "keeps (r, Some (c\<lparr>eeprom := Some e\<rparr>), w)"
    and "keeps (ftdi_error_return code msg (Some (c\<lparr>eeprom := Some e\<rparr>), w))"
  using api_inv_eeprom [OF assms] by (auto intro: keepsI)

lemma eeprom_put_lengths:
  "length (ebuf (eeprom_put v x e)) = length (ebuf e)"
  "length (cbus_function (eeprom_put v x e)) = length (cbus_function e)"
  by (cases v; simp)+

lemma keeps_eeprom_values:
  assumes inv: "api_inv c"
  shows "keeps (ftdi_get_eeprom_value v (Some c, w))"
    and "keeps (ftdi_set_eeprom_value v x (Some c, w))"
    and "keeps (ftdi_get_eeprom_buf n (Some c, w))"
    and "keeps (ftdi_set_eeprom_buf d n (Some c, w))"
    and "keeps (ftdi_eeprom_initdefaults alloc m p s (Some c, w))"
    and "keeps (ftdi_eeprom_set_strings alloc m p s (Some c, w))"
proof -
  obtain e where e: "eeprom c = Some e" "length (ebuf e) = 256" "length (cbus_function e) = 10"
    by (rule api_inv_eepromD [OF inv])
  note eep = keeps_eeprom [OF inv]
  show "keeps (ftdi_get_eeprom_value v (Some c, w))"
    using inv by (auto simp: ftdi_get_eeprom_value_def e(1) intro: keepsI
        intro!: keeps_ret keeps_no_value split: option.splits)
  show "keeps (ftdi_set_eeprom_value v x (Some c, w))"
    using inv e by (auto simp: ftdi_set_eeprom_value_def Let_def eeprom_put_lengths
        intro!: keeps_ret eep split: option.splits)
  show "keeps (ftdi_get_eeprom_buf n (Some c, w))"
    using inv by (auto simp: ftdi_get_eeprom_buf_def e(1) intro: keepsI)
  show "keeps (ftdi_set_eeprom_buf d n (Some c, w))"
    using inv e by (auto simp: ftdi_set_eeprom_buf_def Let_def intro!: eep split: option.splits)
  have "length (ebuf (default_eeprom alloc (ftype c) m p s)) = 256"
      "length (cbus_function (default_eeprom alloc (ftype c) m p s)) = 10"
    by (simp_all add: default_eeprom_def zero_eeprom_def Let_def)
  moreover have "length (ebuf zero_eeprom) = 256" "length (cbus_function zero_eeprom) = 10"
    by (simp_all add: zero_eeprom_def)
  ultimately show "keeps (ftdi_eeprom_initdefaults alloc m p s (Some c, w))"
    using e by (auto simp: ftdi_eeprom_initdefaults_def intro!: eep)
  show "keeps (ftdi_eeprom_set_strings alloc m p s (Some c, w))"
    using inv e by (auto simp: ftdi_eeprom_set_strings_def Let_def intro!: eep)
qed

lemma length_put_bytes [simp]: "length (put_bytes msk i xs b) = length b"
  by (induction xs arbitrary: i b) simp_all

lemma length_run_updates:
  assumes "\<And>u b. u \<in> set us \<Longrightarrow> length (u b) = length b"
  shows "length (run_updates us b) = length b"
  using assms by (induction us arbitrary: b) (simp_all add: run_updates_def)

lemma length_basic_updates [simp]:
  "length (store a v b) = length b" "length (or_at a v b) = length b"
  "length (clear_at a v b) = length b" "length (flag_at q a v b) = length b"
  "length (or_if q a v b) = length b"
  by (simp_all add: store_def or_at_def clear_at_def flag_at_def or_if_def)

lemma length_set_ft232h_cbus [simp]: "length (set_ft232h_cbus e b) = length b"
  unfolding set_ft232h_cbus_def by (rule length_run_updates) (auto simp: Let_def)

lemma length_build_specific [simp]: "length (run_updates (build_specific t e) b) = length b"
  by (rule length_run_updates, cases t)
    (auto simp: build_bm_def build_2232c_def build_r_def build_2232h_def build_4232h_def
      build_232h_def build_230x_def build_groups4_def build_group_def Let_def)

lemma length_build_strings [simp]: "length (build_strings t e b) = length b"
  by (simp add: build_strings_def Let_def)

lemma length_build_image: "length (ebuf e) = 256 \<Longrightarrow> length (build_image t e) = 256"
proof -
  assume "length (ebuf e) = 256"
  then have "length (clear_image t (ebuf e)) = 256" by (simp add: clear_image_def)
  moreover have "length (run_updates (build_common t e) b) = length b" for b
    by (rule length_run_updates) (auto simp: build_common_def split: if_splits)
  moreover have "length (run_updates (build_use_serial t e) b) = length b" for b
    by (rule length_run_updates) (auto simp: build_use_serial_def split: if_splits)
  ultimately show ?thesis by (simp add: build_image_def Let_def)
qed

lemma keeps_eeprom_build:
  assumes inv: "api_inv c"
  shows "keeps (ftdi_eeprom_build (Some c, w))"
proof -
  obtain e where e: "eeprom c = Some e" "length (ebuf e) = 256" "length (cbus_function e) = 10"
    by (rule api_inv_eepromD [OF inv])
  note eep = keeps_eeprom [OF inv]
  show ?thesis
    using inv e
    by (auto simp: ftdi_eeprom_build_def Let_def length_build_image intro!: eep keeps_ret)
qed

lemma decode_lengths:
  assumes "length (cbus_function e) = 10"
  shows "length (cbus_function (decode_specific t b e)) = 10"
    and "ebuf (decode_specific t b e) = ebuf e"
proof -
  show "length (cbus_function (decode_specific t b e)) = 10"
    using assms
    by (cases t) (simp_all add: decode_2232c_def decode_r_def decode_x232h_def decode_232h_def
        decode_230x_def Let_def upt_rec)
  show "ebuf (decode_specific t b e) = ebuf e"
    by (cases t) (simp_all add: decode_2232c_def decode_r_def decode_x232h_def decode_232h_def
        decode_230x_def Let_def)
qed

lemma keeps_eeprom_decode:
  assumes inv: "api_inv c"
  shows "keeps (ftdi_eeprom_decode alloc (Some c, w))"
proof -
  obtain e where e: "eeprom c = Some e" "length (ebuf e) = 256" "length (cbus_function e) = 10"
    by (rule api_inv_eepromD [OF inv])
  let ?e = "\<lambda>m p s. (decode_common (ebuf e) e)\<lparr>manufacturer := m, product := p, serial := s\<rparr>"
  have 1: "length (ebuf (?e m p s)) = 256" "length (cbus_function (?e m p s)) = 10" for m p s
    using e by (simp_all add: decode_common_def)
  have 2: "length (ebuf (decode_specific (ftype c) (ebuf e) ((?e m p s)\<lparr>channel_a_type := 0\<rparr>))) = 256"
      "length (cbus_function (decode_specific (ftype c) (ebuf e) ((?e m p s)\<lparr>channel_a_type := 0\<rparr>))) = 10"
    for m p s
    using 1 [of m p s] by (simp_all add: decode_lengths)
  show ?thesis
    unfolding ftdi_eeprom_decode_def Let_def
    using keeps_eeprom [OF inv 1] keeps_eeprom [OF inv 2] inv e(1)
    by (auto intro!: keeps_ret intro: keepsI split: option.splits)
qed

lemma length_read_words:
  "read_words L c h is b w = ((ok, b'), w') \<Longrightarrow> \<forall>i\<in>set is. i * 2 + 2 \<le> length b \<Longrightarrow> length b' = length b"
proof (induction L c h "is" b w arbitrary: ok b' w' rule: read_words.induct)
  case (2 L c h i "is" b w)
  obtain r d w1 where tr: "ctrl_in L c h SIO_READ_EEPROM_REQUEST 0 (of_nat i) 2 w = ((r, d), w1)"
    by (metis prod.exhaust)
  have "length (store_at b (i * 2) (take 2 d)) = length b"
    using 2(3) by (intro length_store_at) auto
  then show ?case
    using 2(1) [OF tr [symmetric] refl refl] 2(2,3) tr by (auto simp: Let_def split: if_splits)
qed simp

lemma keeps_read_eeprom:
  assumes inv: "api_inv c"
  shows "keeps (ftdi_read_eeprom L (Some c, w))"
proof -
  obtain e where e: "eeprom c = Some e" "length (ebuf e) = 256" "length (cbus_function e) = 10"
    by (rule api_inv_eepromD [OF inv])
  show ?thesis
  proof (cases "usb_dev c")
    case None
    then show ?thesis using inv
      by (auto simp: ftdi_read_eeprom_def with_dev_def Let_def intro!: keeps_ret)
  next
    case (Some h)
    obtain ok b w2 where rd: "read_words L c h [0..<FTDI_MAX_EEPROM_SIZE div 2] (ebuf e) w = ((ok, b), w2)"
      by (metis prod.exhaust)
    have "length b = 256" using length_read_words [OF rd] e(2) by auto
    then have "keeps (r, Some (c\<lparr>eeprom := Some (e\<lparr>ebuf := b\<rparr>)\<rparr>), w2)"
      and "keeps (r, Some (c\<lparr>eeprom := Some (e\<lparr>ebuf := b, eeprom_size := n\<rparr>)\<rparr>), w2)"
      and "keeps (ftdi_error_return code msg (Some (c\<lparr>eeprom := Some (e\<lparr>ebuf := b\<rparr>)\<rparr>), w2))"
      for r n code msg
      using e(3) by (auto intro!: keeps_eeprom [OF inv])
    note k = this
    show ?thesis
      unfolding ftdi_read_eeprom_def with_dev_def Let_def
      by (simp add: Some e(1) rd [simplified] k keeps_ret split: option.split)
  qed
qed

text \<open>Calls in sequence: the context after the first is one the second starts from.\<close>

lemma keeps_cases:
  assumes "keeps res"
  obtains r c' w' where "res = (r, Some c', w')" and "api_inv c'"
  using assms by (metis keeps_def prod.collapse)

lemma keeps_fail [simp]:
  "api_inv c \<Longrightarrow> keeps (case ftdi_error_return code msg (Some c, w) of (r, s') \<Rightarrow> (Ret r, s'))"
  by (intro keeps_ret keeps_error)

lemma keeps_triple [simp]: "keeps (r, Some c, w) \<longleftrightarrow> api_inv c"
  by (simp add: keeps_def)

lemma api_inv_set_chip [simp]: "api_inv c \<Longrightarrow> api_inv (set_chip n c)"
  by (auto simp: set_chip_def api_inv_def ctx_wf_def endpoints_ok_def split: option.splits)

lemma keeps_write_eeprom:
  assumes inv: "api_inv c"
  shows "keeps (ftdi_write_eeprom L (Some c, w))"
proof -
  obtain e where e: "eeprom c = Some e" by (rule api_inv_eepromD [OF inv])
  obtain r1 c1 w1 where 1: "ftdi_usb_reset L (Some c, w) = (r1, Some c1, w1)" "api_inv c1"
    by (rule keeps_cases [OF keeps_control(1) [OF inv]])
  obtain r2 c2 w2 where 2: "ftdi_poll_modem_status L (Some c1, w1) = (r2, Some c2, w2)" "api_inv c2"
    by (rule keeps_cases [OF keeps_control(10) [OF 1(2)]])
  obtain r3 c3 w3 where 3: "ftdi_set_latency_timer L 0x77 (Some c2, w2) = (r3, Some c3, w3)" "api_inv c3"
    by (rule keeps_cases [OF keeps_control(8) [OF 2(2)]])
  show ?thesis
    unfolding ftdi_write_eeprom_def Let_def
  proof (rule keeps_with_dev, goal_cases)
    case 1
    then show ?case using inv by (intro keeps_ret keeps_error)
  next
    case (2 h)
    obtain ok w4 where "write_words L c h (ebuf e) (nat (eeprom_size e sdiv 2)) 0 w3 = (ok, w4)"
      by (metis prod.exhaust)
    moreover obtain r2' st where "r2 = (r2', st)" by (cases r2)
    ultimately show ?case
      using inv e \<open>api_inv c1\<close> \<open>api_inv c2\<close> \<open>api_inv c3\<close>
        \<open>ftdi_usb_reset L (Some c, w) = _\<close> \<open>ftdi_poll_modem_status L (Some c1, w1) = _\<close>
        \<open>ftdi_set_latency_timer L 0x77 (Some c2, w2) = _\<close>
      by simp
  qed
qed

lemma keeps_detect_chip:
  "api_inv c \<Longrightarrow> keeps (detect_chip L addrs (Some c, w))"
proof (induction addrs arbitrary: c w)
  case (Cons a addrs)
  obtain addr n where a: "a = (addr, n)" by (cases a)
  obtain r c1 w1 where 1: "ftdi_read_eeprom_location L addr (Some c, w) = (r, Some c1, w1)" "api_inv c1"
    by (rule keeps_cases [OF keeps_control(17) [OF Cons.prems]])
  show ?case
    using 1 Cons.IH [OF 1(2)] by (cases r) (auto simp: a intro: keepsI)
qed (auto intro: keepsI)

lemma keeps_erase_eeprom:
  assumes inv: "api_inv c"
  shows "keeps (ftdi_erase_eeprom L (Some c, w))"
proof -
  have det: "\<exists>r c' w'. detect_chip L addrs (Some c, v) = (r, Some c', w') \<and> api_inv c'" for addrs v
    using keeps_detect_chip [OF inv, of L addrs v] by (auto elim: keeps_cases)
  show ?thesis
    unfolding ftdi_erase_eeprom_def Let_def
  proof (rule keeps_with_dev, goal_cases)
    case 1
    then show ?case using inv by (intro keeps_ret keeps_error)
  next
    case (2 h)
    obtain r1 w1 where 1: "ctrl_out L c h SIO_ERASE_EEPROM_REQUEST 0 0 w = (r1, w1)"
      by (metis prod.exhaust)
    obtain r2 w2 where 2: "ctrl_out L c h SIO_WRITE_EEPROM_REQUEST MAGIC 0xc0 w1 = (r2, w2)"
      by (metis prod.exhaust)
    obtain r3 c3 w3 where 3: "detect_chip L [(0x00, 0x46), (0x40, 0x56), (0xc0, 0x66)] (Some c, w2) =
        (r3, Some c3, w3)" "api_inv c3"
      using det by blast
    obtain r4 w4 where 4: "ctrl_out L c h SIO_ERASE_EEPROM_REQUEST 0 0 w3 = (r4, w4)"
      by (metis prod.exhaust)
    show ?case
      using inv 1 2 3 4 by (cases r3) (auto simp del: detect_chip.simps)
  qed
qed

lemma keeps_write_eeprom_location:
  assumes inv: "api_inv c"
  shows "keeps (ftdi_write_eeprom_location L addr val (Some c, w))"
proof -
  have loc: "\<exists>r v c' w'. ftdi_read_eeprom_location L a (Some c, w) = ((r, v), Some c', w') \<and> api_inv c'" for a
    using keeps_control(17) [OF inv, of L a w] by (metis keeps_cases prod.exhaust)
  have go: "keeps (case ftdi_read_eeprom_location L a (Some c, w) of
        ((r, v), s1) \<Rightarrow>
          if r \<noteq> 0 then ftdi_error_return (-5) ''Reading failed'' s1
          else if the v AND 0xff \<noteq> 0x66 then ftdi_error_return (-6) ''EEPROM is not of 93x66'' s1
          else (case ctrl_out L c h SIO_WRITE_EEPROM_REQUEST val (word_of_int addr) (snd s1) of
                 (r2, w2) \<Rightarrow> if r2 \<noteq> 0 then ftdi_error_return (-1) ''unable to write eeprom'' (fst s1, w2)
                             else (0, fst s1, w2)))" for a h
    using loc [of a] by (auto intro: keepsI split: prod.split)
  show ?thesis
    unfolding ftdi_write_eeprom_location_def Let_def
    using inv go by (intro keeps_with_dev) (auto split: ftdi_chip_type.split simp del: prod.case)
qed

lemma keeps_read_chipid:
  assumes inv: "api_inv c"
  shows "keeps (ftdi_read_chipid L (Some c, w))"
  unfolding ftdi_read_chipid_def Let_def
  using inv by (intro keeps_with_dev) (auto intro!: keeps_no_value intro: keepsI split: prod.split)

text \<open>Opening.\<close>

lemma keeps_close_and_fail:
  "api_inv c \<Longrightarrow> keeps (close_and_fail L code msg (Some c, w))"
  using close_internal_inv [of c L w] by (auto simp: close_and_fail_def)

lemma max_packet_size_ok:
  assumes "descriptors_ok L" and "ftdi_determine_max_packet_size L f d w = (ps, w')"
  shows "8 \<le> ps"
proof -
  have "8 \<le> ep"
    if "lu_get_config_descriptor L d' v = ((r, cfg), v')" "i < length (cfg_interfaces cfg)"
      "cfg_interfaces cfg ! i = (ep # x) # y" for d' v r cfg v' i ep x y
  proof -
    have "(ep # x) # y \<in> set (cfg_interfaces cfg)" using that(2,3) nth_mem by fastforce
    then show ?thesis using assms(1) that(1) unfolding descriptors_ok_def by fastforce
  qed
  then show ?thesis
    using assms(2)
    by (auto simp: ftdi_determine_max_packet_size_def Let_def split: option.splits prod.splits
        if_splits list.splits)
qed

lemma keeps_open_claimed:
  assumes L: "descriptors_ok L" and inv: "api_inv c"
  shows "keeps (open_claimed L dev desc errno c h w)"
proof -
  obtain r w1 where 1: "lu_claim_interface L h (interface c) w = (r, w1)" by (metis prod.exhaust)
  obtain r2 c2 w2 where 2: "ftdi_usb_reset L (Some c, w1) = (r2, Some c2, w2)" "api_inv c2"
    by (rule keeps_cases [OF keeps_control(1) [OF inv]])
  let ?c3 = "c2\<lparr>ftype := chip_of_descriptor desc (ftype c)\<rparr>"
  obtain ps w4 where 3: "ftdi_determine_max_packet_size L (Some ?c3) (Some dev) w2 = (ps, w4)"
    by (metis prod.exhaust)
  have "2 < ps" using max_packet_size_ok [OF L 3] by simp
  then have inv4: "api_inv (?c3\<lparr>max_packet_size := ps\<rparr>)"
    using 2(2) by (auto simp: api_inv_def ctx_wf_def endpoints_ok_def split: option.splits)
  obtain r5 c5 w5 where 5: "ftdi_set_baudrate L 9600 (Some (?c3\<lparr>max_packet_size := ps\<rparr>), w4) =
      (r5, Some c5, w5)" "api_inv c5"
    by (rule keeps_cases [OF keeps_set_baudrate [OF inv4]])
  show ?thesis
    unfolding open_claimed_def
    by (simp only: Let_def 1 2 3 5 prod.case fst_conv snd_conv option.sel split: if_split)
      (simp add: inv 2(2) 5(2) keeps_close_and_fail keeps_error)
qed

lemma keeps_open_dev:
  assumes L: "descriptors_ok L" and inv: "api_inv c"
  shows "keeps (ftdi_usb_open_dev L dev (Some c, w))"
proof -
  obtain r h w1 where 1: "lu_open L dev w = ((r, h), w1)" by (metis prod.exhaust)
  let ?c = "c\<lparr>usb_dev := Some h\<rparr>"
  have inv': "api_inv ?c" using inv by simp
  obtain r2 desc w2 where 2: "lu_get_device_descriptor L dev w1 = ((r2, desc), w2)"
    by (metis prod.exhaust)
  obtain r3 cfg w3 where 3: "lu_get_config_descriptor L dev w2 = ((r3, cfg), w3)"
    by (metis prod.exhaust)
  obtain er w4 where 4: "(if module_detach_mode ?c = AUTO_DETACH_SIO_MODULE then
        (case lu_detach_kernel_driver L h (interface ?c) w3 of
           ((r4, errno), w') \<Rightarrow> (if r4 \<noteq> 0 then errno else 0, w'))
      else (0, w3)) = (er, w4)" by (metis prod.exhaust)
  obtain r5 n w5 where 5: "lu_get_configuration L h w4 = ((r5, n), w5)" by (metis prod.exhaust)
  obtain r6 w6 where 6: "lu_set_configuration L h (bConfigurationValue cfg) w5 = (r6, w6)"
    by (metis prod.exhaust)
  show ?thesis
    unfolding ftdi_usb_open_dev_def
    by (simp only: Let_def fst_conv snd_conv option.case 1 2 3 4 5 6 prod.case split: if_split)
      (simp add: inv inv' keeps_open_claimed [OF L inv'] keeps_close_and_fail keeps_error)
qed

lemma string_matches_result:
  assumes "string_matches L code msg i expected c h w = (res, w')" and "api_inv c"
  shows "case res of Inl e \<Rightarrow> keeps e | Inr _ \<Rightarrow> True"
  using assms keeps_close_and_fail [OF assms(2)]
  by (auto simp: string_matches_def split: option.splits prod.splits if_splits)

lemma keeps_closed:
  assumes "api_inv c"
  obtains c' w' where "ftdi_usb_close_internal L (Some c, w) = (Some c', w')" and "api_inv c'"
  using close_internal_inv [OF assms, of L w] by blast

lemma keeps_open_loop:
  "descriptors_ok L \<Longrightarrow> api_inv c \<Longrightarrow> keeps (open_loop L vendor prd description ser devs idx c w)"
proof (induction devs arbitrary: idx c w)
  case Nil
  then show ?case by (simp add: keeps_error)
next
  case (Cons dev devs)
  obtain r desc w1 where 1: "lu_get_device_descriptor L dev w = ((r, desc), w1)"
    by (metis prod.exhaust)
  obtain r2 h w2 where 2: "lu_open L dev w1 = ((r2, h), w2)" by (metis prod.exhaust)
  let ?c = "c\<lparr>usb_dev := Some h\<rparr>"
  have inv': "api_inv ?c" using Cons.prems by simp
  obtain m1 w3 where 3: "string_matches L (-8) ''unable to fetch product description''
      (iProduct desc) description ?c h w2 = (m1, w3)" by (metis prod.exhaust)
  obtain m2 w4 where 4: "string_matches L (-9) ''unable to fetch serial number''
      (iSerialNumber desc) ser ?c h w3 = (m2, w4)" by (metis prod.exhaust)
  obtain c3 v3 where 5: "ftdi_usb_close_internal L (Some ?c, w3) = (Some c3, v3)" "api_inv c3"
    by (rule keeps_closed [OF inv'])
  obtain c4 v4 where 6: "ftdi_usb_close_internal L (Some ?c, w4) = (Some c4, v4)" "api_inv c4"
    by (rule keeps_closed [OF inv'])
  note m = string_matches_result [OF 3 inv'] string_matches_result [OF 4 inv']
  note ih = Cons.IH [OF Cons.prems(1)]
  show ?case
  proof (cases m1)
    case (Inl e)
    then show ?thesis
      using m(1) Cons.prems by (simp add: 1 2 3 Let_def keeps_error ih)
  next
    case m1: (Inr ok)
    show ?thesis
    proof (cases m2)
      case (Inl e)
      then show ?thesis
        using m1 m(2) Cons.prems 5(2) by (simp add: 1 2 3 4 5(1) Let_def keeps_error ih)
    next
      case (Inr ok2)
      then show ?thesis
        using m1 Cons.prems 5(2) 6(2)
        by (simp add: 1 2 3 4 5(1) 6(1) Let_def keeps_error ih keeps_open_dev)
    qed
  qed
qed

lemma keeps_open:
  assumes "descriptors_ok L" and "api_inv c"
  shows "keeps (ftdi_usb_open_desc_index L vendor prd description ser idx (Some c, w))"
    and "keeps (ftdi_usb_open_desc L vendor prd description ser (Some c, w))"
    and "keeps (ftdi_usb_open L vendor prd (Some c, w))"
proof -
  have *: "keeps (ftdi_usb_open_desc_index L vendor prd d s i (Some c, w))" for d s i
    using keeps_open_loop [OF assms] keeps_error [OF assms(2)]
    by (auto simp: ftdi_usb_open_desc_index_def simp del: open_loop.simps split: prod.split)
  show "keeps (ftdi_usb_open_desc_index L vendor prd description ser idx (Some c, w))"
    and "keeps (ftdi_usb_open_desc L vendor prd description ser (Some c, w))"
    and "keeps (ftdi_usb_open L vendor prd (Some c, w))"
    by (simp_all only: * ftdi_usb_open_desc_def ftdi_usb_open_def)
qed

text \<open>Reading and writing.\<close>

lemma api_inv_buffer:
  assumes "api_inv c" and "length b = readbuffer_chunksize c" and "off + rest \<le> readbuffer_chunksize c"
  shows "api_inv (c\<lparr>readbuffer := b, readbuffer_offset := off, readbuffer_remaining := rest\<rparr>)"
  using assms by (simp add: api_inv_def ctx_wf_def endpoints_ok_def)

lemma keeps_read_loop:
  assumes L: "bulk_ok L" and ps: "2 < ps"
  shows "api_inv c \<Longrightarrow> keeps (read_loop L h ps sz c out offset actual w)"
proof (induction "sz - offset" arbitrary: c out offset actual w rule: less_induct)
  case less
  show ?case
  proof (cases "offset < sz \<and> 0 < actual")
    case False
    then show ?thesis using less.prems by (subst read_loop.simps) (simp only: if_False keeps_triple)
  next
    case True
    let ?k = "readbuffer_chunksize c"
    obtain ret d w1 where tr: "lu_bulk_in L h (out_ep c) ?k (usb_read_timeout c) w = ((ret, d), w1)"
      by (metis prod.exhaust_sel)
    have dk: "length d \<le> ?k" using bulk_ok_in [OF L tr] .
    have len: "length (readbuffer c) = ?k" using less.prems by (simp add: api_inv_def ctx_wf_def)
    obtain b act where strip: "strip_status ps (overlay d (readbuffer c)) (length d) = (b, act)"
      by (metis prod.exhaust)
    have c2: "length (overlay d (readbuffer c)) = ?k" "take (length d) (overlay d (readbuffer c)) = d"
      using dk len by (simp_all add: overlay_def)
    have inv: "api_inv (c\<lparr>readbuffer := x, readbuffer_offset := off, readbuffer_remaining := rest\<rparr>)"
      if "length x = ?k" "off + rest \<le> ?k" for x off rest
      using api_inv_buffer [OF less.prems that] .
    have failed: "api_inv (c\<lparr>readbuffer_offset := 0, readbuffer_remaining := 0,
        readbuffer := overlay d (readbuffer c)\<rparr>)"
      using less.prems c2(1) by (simp add: api_inv_def ctx_wf_def endpoints_ok_def)
    show ?thesis
    proof (cases "ret < 0 \<or> length d \<le> 2")
      case True
      then show ?thesis
        using \<open>offset < sz \<and> 0 < actual\<close> tr failed
        by (subst read_loop.simps) (auto simp: invalidate_readbuffer_def ftdi_error_return_def Let_def)
    next
      case False
      have st: "length b = ?k" "0 < act" "act + 2 \<le> length d"
        using strip_status_correct [OF ps _ _ c2(2) strip] False dk c2(1) by auto
      have "keeps (read_loop L h ps sz (c\<lparr>readbuffer := b, readbuffer_offset := 2,
          readbuffer_remaining := 0\<rparr>) out' (offset + act) act w1)" for out'
        using True st(2,3) dk by (intro less.hyps inv [OF st(1)]) auto
      moreover have "api_inv (c\<lparr>readbuffer := b, readbuffer_offset := 2, readbuffer_remaining := 0\<rparr>)"
        and "api_inv (c\<lparr>readbuffer := b, readbuffer_offset := 2 + (sz - offset),
          readbuffer_remaining := act - (sz - offset)\<rparr>)" if "sz \<le> offset + act"
        using st(3) dk that by (auto intro!: inv [OF st(1)])
      moreover have swap: "c\<lparr>readbuffer_remaining := 0, readbuffer := b, readbuffer_offset := 2\<rparr> =
          c\<lparr>readbuffer := b, readbuffer_offset := 2, readbuffer_remaining := 0\<rparr>"
        by (cases c) simp
      ultimately show ?thesis
        using True False tr strip st(2,3) dk
        by (subst read_loop.simps) (auto simp: invalidate_readbuffer_def Let_def swap)
    qed
  qed
qed

lemma keeps_read_data:
  assumes L: "bulk_ok L" and inv: "api_inv c"
  shows "keeps (ftdi_read_data L sz (Some c, w))"
proof -
  have ps: "2 < max_packet_size c" if "max_packet_size c \<noteq> 0"
    using inv that by (simp add: api_inv_def)
  have "api_inv (c\<lparr>readbuffer_remaining := readbuffer_remaining c - sz,
      readbuffer_offset := readbuffer_offset c + sz\<rparr>)" if "sz \<le> readbuffer_remaining c"
    using inv that by (auto simp: api_inv_def ctx_wf_def endpoints_ok_def)
  moreover have "keeps (case ftdi_error_return code msg (Some c, w) of (r, s') \<Rightarrow> (Ret (r, []), s'))"
    for code msg
    using inv by (simp add: ftdi_error_return_def)
  ultimately show ?thesis
    using keeps_read_loop [OF L ps inv]
    by (auto simp: ftdi_read_data_def Let_def intro!: keeps_ret split: option.split)
qed

lemma keeps_write_loop:
  assumes "write_loop L c h buf sz offset w = Some res" and "api_inv c"
  shows "keeps res"
proof -
  have "api_inv c \<longrightarrow> keeps res"
  proof (rule write_loop.raw_induct [OF _ assms(1), where
      P = "\<lambda>L c h buf sz offset w res. api_inv c \<longrightarrow> keeps res"], goal_cases)
    case (1 f L c h buf sz offset w res)
    show ?case
    proof
      assume inv: "api_inv c"
      then show "keeps res"
        using 1(2) 1(1) keeps_error [OF inv]
        by (auto simp: Let_def split: if_splits prod.splits)
    qed
  qed
  with assms(2) show ?thesis by blast
qed

lemma keeps_write_data:
  assumes run: "ftdi_write_data L buf sz (Some c, w) = Some res" and inv: "api_inv c"
  shows "keeps res"
proof (cases "usb_dev c")
  case None
  then show ?thesis using run keeps_error [OF inv] by (auto simp: ftdi_write_data_def with_dev_def)
next
  case (Some h)
  then show ?thesis
    using run keeps_write_loop [OF _ inv] by (simp add: ftdi_write_data_def with_dev_def)
qed

lemma keeps_fetch_string:
  assumes "fetch_string L code i want c h w = (res, w')" and "api_inv c"
  shows "case res of Inl e \<Rightarrow> keeps e | Inr _ \<Rightarrow> True"
  using assms keeps_close_and_fail [OF assms(2), of L]
  by (auto simp: fetch_string_def close_and_fail_def split: option.splits prod.splits if_splits)

lemma keeps_get_strings:
  assumes inv: "api_inv c"
  shows "keeps (ftdi_usb_get_strings L dev m p sn (Some c, w))"
proof (cases dev)
  case None
  then show ?thesis using inv by (simp add: ftdi_usb_get_strings_def)
next
  case (Some d)
  obtain r h w1 where 1: "lu_open L d w = ((r, h), w1)" by (metis prod.exhaust)
  obtain r2 desc w2 where 2: "lu_get_device_descriptor L d w1 = ((r2, desc), w2)"
    by (metis prod.exhaust)
  let ?c = "c\<lparr>usb_dev := Some h\<rparr>"
  have inv': "api_inv ?c" using inv by simp
  obtain m1 w3 where 3: "fetch_string L (-7) (iManufacturer desc) m ?c h w2 = (m1, w3)"
    by (metis prod.exhaust)
  obtain m2 w4 where 4: "fetch_string L (-8) (iProduct desc) p ?c h w3 = (m2, w4)"
    by (metis prod.exhaust)
  obtain m3 w5 where 5: "fetch_string L (-9) (iSerialNumber desc) sn ?c h w4 = (m3, w5)"
    by (metis prod.exhaust)
  note f = keeps_fetch_string [OF 3 inv'] keeps_fetch_string [OF 4 inv'] keeps_fetch_string [OF 5 inv']
  have fail: "keeps res \<Longrightarrow> keeps (case res of (r, s') \<Rightarrow> ((r, strs), s'))" for res :: "int \<times> 'a st" and strs :: 'b
    by (auto simp: keeps_def split: prod.splits)
  obtain c6 w6 where 6: "ftdi_usb_close_internal L (Some ?c, w5) = (Some c6, w6)" "api_inv c6"
    by (rule keeps_closed [OF inv'])
  show ?thesis
    using f inv inv' 6
    by (cases m1; cases m2; cases m3)
      (simp_all add: ftdi_usb_get_strings_def Let_def Some 1 2 3 4 5 fail keeps_error)
qed

lemma keeps_if: "keeps x \<Longrightarrow> keeps y \<Longrightarrow> keeps (if P then x else y)"
  by simp

lemma keeps_prod: "(\<And>x y z. p = (x, y, z) \<Longrightarrow> keeps (g x y z)) \<Longrightarrow> keeps (case p of (x, y, z) \<Rightarrow> g x y z)"
  by (cases p) simp

lemma keeps_open_string:
  assumes "descriptors_ok L" and "api_inv c"
  shows "keeps (ftdi_usb_open_string L position description (Some c, w))"
proof -
  have ids: "keeps (open_by_ids L ser s (Some c, w))" for ser s
    unfolding open_by_ids_def illegal_description_def Let_def
    by (intro keeps_if keeps_prod keeps_open(1) [OF assms] keeps_error [OF assms(2)])
  have pos: "keeps (open_at_position L position s c w)" for s
    unfolding open_at_position_def illegal_description_def
    by (auto split: prod.split option.split
        intro: keeps_open_dev [OF assms] keeps_error [OF assms(2)] simp del: prod.case)
  show ?thesis
    using ids pos
    by (auto simp: ftdi_usb_open_string_def illegal_description_def intro: keeps_error [OF assms(2)]
        split: list.split)
qed

lemma keeps_find_all:
  assumes "api_inv c"
  shows "keeps (ftdi_usb_find_all L alloc vendor prd (Some c, w))"
  using assms
  by (auto simp: ftdi_usb_find_all_def ftdi_error_return_def split: prod.split sum.split)

lemma keeps_queries:
  assumes "api_inv c"
  shows "keeps (ftdi_read_data_get_chunksize (Some c, w))"
    and "keeps (ftdi_write_data_get_chunksize (Some c, w))"
    and "keeps (ftdi_set_line_property L bits sbit parity (Some c, w))"
    and "keeps (u, ftdi_set_usbdev usb (Some c, w))"
  using assms keeps_control(4) [OF assms]
  by (simp_all add: ftdi_read_data_get_chunksize_def ftdi_write_data_get_chunksize_def
      ftdi_set_line_property_def ftdi_set_usbdev_def)

section \<open>Reachable contexts\<close>

text \<open>
  One call of the library on the context; a call that does not return makes no step. The
  parameters \<open>alloc\<close> are the outcomes of the allocations inside a call. The calls that begin and
  end the life of a context are below.
\<close>

inductive api_step :: "'w libusb \<Rightarrow> 'w st \<Rightarrow> 'w st \<Rightarrow> bool" for L where
  "ftdi_usb_reset L s = (r, s') \<Longrightarrow> api_step L s s'"
| "ftdi_usb_purge_rx_buffer L s = (r, s') \<Longrightarrow> api_step L s s'"
| "ftdi_usb_purge_tx_buffer L s = (r, s') \<Longrightarrow> api_step L s s'"
| "ftdi_usb_purge_buffers L s = (r, s') \<Longrightarrow> api_step L s s'"
| "ftdi_usb_close L s = (r, s') \<Longrightarrow> api_step L s s'"
| "ftdi_usb_open L vendor prd s = (r, s') \<Longrightarrow> api_step L s s'"
| "ftdi_usb_open_desc L vendor prd d n s = (r, s') \<Longrightarrow> api_step L s s'"
| "ftdi_usb_open_desc_index L vendor prd d n i s = (r, s') \<Longrightarrow> api_step L s s'"
| "ftdi_usb_open_dev L dev s = (r, s') \<Longrightarrow> api_step L s s'"
| "ftdi_usb_open_string L position descr s = (r, s') \<Longrightarrow> api_step L s s'"
| "ftdi_usb_find_all L alloc vendor prd s = (rf, s') \<Longrightarrow> api_step L s s'"
| "ftdi_set_usbdev usb s = s' \<Longrightarrow> api_step L s s'"
| "ftdi_usb_get_strings L odev m p sn s = (rs, s') \<Longrightarrow> api_step L s s'"
| "ftdi_set_interface itf s = (r, s') \<Longrightarrow> api_step L s s'"
| "ftdi_set_baudrate L rate s = (r, s') \<Longrightarrow> api_step L s s'"
| "ftdi_set_line_property2 L bits sbit parity brk s = (r, s') \<Longrightarrow> api_step L s s'"
| "ftdi_set_line_property L bits sbit parity s = (r, s') \<Longrightarrow> api_step L s s'"
| "ftdi_set_bitmode L msk mode s = (r, s') \<Longrightarrow> api_step L s s'"
| "ftdi_disable_bitbang L s = (r, s') \<Longrightarrow> api_step L s s'"
| "ftdi_read_pins L s = (rv, s') \<Longrightarrow> api_step L s s'"
| "ftdi_set_latency_timer L lat s = (r, s') \<Longrightarrow> api_step L s s'"
| "ftdi_get_latency_timer L s = (rv, s') \<Longrightarrow> api_step L s s'"
| "ftdi_poll_modem_status L s = (rm, s') \<Longrightarrow> api_step L s s'"
| "ftdi_setflowctrl L flow s = (r, s') \<Longrightarrow> api_step L s s'"
| "ftdi_setdtr L dtr s = (r, s') \<Longrightarrow> api_step L s s'"
| "ftdi_setrts L rts s = (r, s') \<Longrightarrow> api_step L s s'"
| "ftdi_setdtr_rts L dtr rts s = (r, s') \<Longrightarrow> api_step L s s'"
| "ftdi_set_event_char L ch en s = (r, s') \<Longrightarrow> api_step L s s'"
| "ftdi_set_error_char L ch en s = (r, s') \<Longrightarrow> api_step L s s'"
| "ftdi_read_data_set_chunksize alloc n s = (r, s') \<Longrightarrow> api_step L s s'"
| "ftdi_write_data_set_chunksize n s = (r, s') \<Longrightarrow> api_step L s s'"
| "ftdi_read_data_get_chunksize s = (rn, s') \<Longrightarrow> api_step L s s'"
| "ftdi_write_data_get_chunksize s = (rc, s') \<Longrightarrow> api_step L s s'"
| "ftdi_get_error_string s = str \<Longrightarrow> api_step L s s"
| "ftdi_read_data L sz s = (out, s') \<Longrightarrow> api_step L s s'"
| "ftdi_write_data L buf len s = Some (r, s') \<Longrightarrow> api_step L s s'"
| "ftdi_read_eeprom_location L addr s = (rv, s') \<Longrightarrow> api_step L s s'"
| "ftdi_write_eeprom_location L addr val s = (r, s') \<Longrightarrow> api_step L s s'"
| "ftdi_read_eeprom L s = (ro, s') \<Longrightarrow> api_step L s s'"
| "ftdi_write_eeprom L s = (ro, s') \<Longrightarrow> api_step L s s'"
| "ftdi_erase_eeprom L s = (ro, s') \<Longrightarrow> api_step L s s'"
| "ftdi_read_chipid L s = (ri, s') \<Longrightarrow> api_step L s s'"
| "ftdi_eeprom_initdefaults alloc m p sn s = (ro, s') \<Longrightarrow> api_step L s s'"
| "ftdi_eeprom_set_strings alloc m p sn s = (ro, s') \<Longrightarrow> api_step L s s'"
| "ftdi_eeprom_build s = (ro, s') \<Longrightarrow> api_step L s s'"
| "ftdi_eeprom_decode alloc s = (ro, s') \<Longrightarrow> api_step L s s'"
| "ftdi_get_eeprom_value v s = (rg, s') \<Longrightarrow> api_step L s s'"
| "ftdi_set_eeprom_value v x s = (ro, s') \<Longrightarrow> api_step L s s'"
| "ftdi_get_eeprom_buf k s = (rb, s') \<Longrightarrow> api_step L s s'"
| "ftdi_set_eeprom_buf data k s = (ro, s') \<Longrightarrow> api_step L s s'"

text \<open>
  The life of a context. It is \<open>Initialised\<close> by \<open>ftdi_new\<close>, or by an \<open>ftdi_init\<close> that returned 0
  (on memory of the caller, or again on a context). An \<open>ftdi_init\<close> that failed and \<open>ftdi_deinit\<close>
  leave it \<open>Uninitialised\<close>: there is no read buffer any more, and the comment of \<open>ftdi_init\<close>
  asks to call it ``before all functions'', so that \<open>ftdi_init\<close>, \<open>ftdi_deinit\<close> and \<open>ftdi_free\<close>
  are the calls the model has then. After \<open>ftdi_free\<close> it is \<open>Freed\<close> and no call is left.
\<close>

datatype phase = Initialised | Uninitialised | Freed

definition phase_after_init :: "int \<Rightarrow> phase" where
  "phase_after_init r = (if r = 0 then Initialised else Uninitialised)"

inductive api_reachable :: "'w libusb \<Rightarrow> phase \<Rightarrow> 'w st \<Rightarrow> bool" for L where
  new: "ftdi_new L alloc_eeprom alloc mem w = (Some c, w') \<Longrightarrow> api_reachable L Initialised (Some c, w')"
| memory: "ftdi_init L alloc_eeprom alloc c w = (r, s) \<Longrightarrow> api_reachable L (phase_after_init r) s"
| call: "api_reachable L Initialised s \<Longrightarrow> api_step L s s' \<Longrightarrow> api_reachable L Initialised s'"
| init: "api_reachable L p (Some c, w) \<Longrightarrow> ftdi_init L alloc_eeprom alloc c w = (r, s') \<Longrightarrow>
    api_reachable L (phase_after_init r) s'"
| deinit: "api_reachable L p s \<Longrightarrow> p \<noteq> Freed \<Longrightarrow> api_reachable L Uninitialised (ftdi_deinit L s)"
| free: "api_reachable L p s \<Longrightarrow> p \<noteq> Freed \<Longrightarrow> api_reachable L Freed (ftdi_free L s)"

text \<open>What holds of the context in each phase.\<close>

fun phase_inv :: "phase \<Rightarrow> ftdi_context option \<Rightarrow> bool" where
  "phase_inv Initialised (Some c) = api_inv c"
| "phase_inv Uninitialised (Some c) = (readbuffer c = [] \<and> usb_dev c = None)"
| "phase_inv Freed None = True"
| "phase_inv _ _ = False"

text \<open>\<open>ftdi_init\<close> establishes the invariant from any memory, or fails without a buffer.\<close>

lemma ftdi_init_inv:
  assumes "ftdi_init L alloc_eeprom alloc c w = (r, s')"
  shows "phase_inv (phase_after_init r) (fst s')"
  using assms
  by (auto simp: ftdi_init_def Let_def ftdi_set_interface_def phase_after_init_def
      ftdi_read_data_set_chunksize_def ftdi_error_return_def api_inv_def ctx_wf_def endpoints_ok_def
      zero_eeprom_def split: option.splits prod.splits if_splits)

lemma ftdi_deinit_inv: "phase_inv Uninitialised (fst (ftdi_deinit L (Some c, w)))"
  by (simp add: ftdi_deinit_def ftdi_usb_close_internal_def Let_def split: option.split)

lemma ftdi_new_inv:
  assumes "ftdi_new L alloc_eeprom alloc mem w = (Some c, w')"
  shows "api_inv c"
proof -
  obtain m where m: "mem = Some m" using assms by (auto simp: ftdi_new_def split: option.splits)
  obtain r f w1 where i: "ftdi_init L alloc_eeprom alloc m w = (r, f, w1)" by (rule prod_cases3)
  have "r = 0" and "f = Some c" using assms by (auto simp: ftdi_new_def m i split: if_splits)
  then show ?thesis using ftdi_init_inv [OF i] by (simp add: phase_after_init_def)
qed

lemma keeps_step: "keeps (r, s') \<Longrightarrow> \<exists>c' w'. s' = (Some c', w') \<and> api_inv c'"
  by (simp add: keeps_def)

lemma api_step_inv:
  assumes "api_step L (Some c, w) s'" and "bulk_ok L" and "descriptors_ok L" and inv: "api_inv c"
  shows "\<exists>c' w'. s' = (Some c', w') \<and> api_inv c'"
proof -
  note kept = keeps_control [OF inv] keeps_purge_buffers [OF inv] keeps_settings [OF inv]
    keeps_usb_close [OF inv] keeps_set_baudrate [OF inv] keeps_eeprom_values [OF inv]
    keeps_eeprom_build [OF inv] keeps_eeprom_decode [OF inv] keeps_read_eeprom [OF inv]
    keeps_write_eeprom [OF inv] keeps_erase_eeprom [OF inv] keeps_write_eeprom_location [OF inv]
    keeps_read_chipid [OF inv] keeps_open_dev [OF assms(3) inv] keeps_open [OF assms(3) inv]
    keeps_open_string [OF assms(3) inv] keeps_get_strings [OF inv] keeps_find_all [OF inv]
    keeps_queries [OF inv] keeps_read_data [OF assms(2) inv]
  show ?thesis
    using assms(1)
  proof (cases rule: api_step.cases)
    case (12 usb)
    then show ?thesis using inv by (auto simp: ftdi_set_usbdev_def)
  next
    case (34 str)
    then show ?thesis using inv by simp
  next
    case (36 buf len r)
    then show ?thesis using keeps_write_data [OF _ inv] keeps_step by metis
  qed (drule arg_cong [where f = keeps], simp only: kept simp_thms, erule keeps_step)+
qed


lemma descriptors_ok_idle [simp]: "descriptors_ok idle_usb"
  by (simp add: descriptors_ok_def idle_usb_def)

lemma sample_opened:
  "(case ftdi_usb_open_dev idle_usb 5 (ftdi_new idle_usb True (\<lambda>_. True) (Some sample_context) ()) of
     (r, Some c, _) \<Rightarrow> (r, usb_dev c, max_packet_size c) | _ \<Rightarrow> (1, None, 0)) = (0, Some 5, 512)"
  by code_simp


end
