(* ===== verification/Ftdi_Eeprom_Roundtrip.thy ===== *)
theory Ftdi_Eeprom_Roundtrip
  imports Ftdi_Eeprom_Image
begin

unbundle bit_operations_syntax

text \<open>
  Decoding an image that \<open>ftdi_eeprom_build\<close> made gives the EEPROM it was made from: the
  layout of the image (configuration bytes, strings, checksum) is disjoint, the checksum
  verifies, and the strings and fields come back.
\<close>

section \<open>Updates of a region\<close>

text \<open>\<open>local_update A u\<close>: \<open>u\<close> keeps the length and changes bytes in \<open>A\<close> only.\<close>

definition local_update :: "nat set \<Rightarrow> update \<Rightarrow> bool" where
  "local_update A u \<longleftrightarrow> (\<forall>b. length (u b) = length b \<and> (\<forall>a. a \<notin> A \<longrightarrow> u b ! a = b ! a))"

lemma local_length: "local_update A u \<Longrightarrow> length (u b) = length b"
  by (simp add: local_update_def)

lemma local_nth: "local_update A u \<Longrightarrow> a \<notin> A \<Longrightarrow> u b ! a = b ! a"
  by (simp add: local_update_def)

lemma local_basic [simp]:
  "a \<in> A \<Longrightarrow> local_update A (store a v)"
  "a \<in> A \<Longrightarrow> local_update A (or_at a m)"
  "a \<in> A \<Longrightarrow> local_update A (clear_at a m)"
  "a \<in> A \<Longrightarrow> local_update A (flag_at c a m)"
  "a \<in> A \<Longrightarrow> local_update A (or_if c a m)"
  by (auto simp: local_update_def store_def or_at_def clear_at_def flag_at_def or_if_def
      intro!: nth_list_update_neq)

lemma run_updates_simps [simp]:
  "run_updates [] b = b"
  "run_updates (u # us) b = run_updates us (u b)"
  "run_updates (us @ vs) b = run_updates vs (run_updates us b)"
  by (simp_all add: run_updates_def)

lemma local_run_updates:
  assumes "list_all (local_update A) us"
  shows "local_update A (run_updates us)"
proof -
  have "length (run_updates us b) = length b \<and> (\<forall>a. a \<notin> A \<longrightarrow> run_updates us b ! a = b ! a)" for b
    using assms by (induction us arbitrary: b) (auto simp: local_update_def)
  then show ?thesis by (simp add: local_update_def)
qed

text \<open>Where the configuration bytes of a type end, and the bytes its own part may change.\<close>

fun config_end :: "ftdi_chip_type \<Rightarrow> nat" where
  "config_end TYPE_AM = 0x14"
| "config_end TYPE_BM = 0x14"
| "config_end TYPE_2232C = 0x16"
| "config_end TYPE_R = 0x18"
| "config_end TYPE_2232H = 0x1a"
| "config_end TYPE_4232H = 0x1a"
| "config_end TYPE_232H = 0x20"
| "config_end TYPE_230X = 0xa0"

definition config_area :: "ftdi_chip_type \<Rightarrow> nat set" where
  "config_area t = {0x00, 0x01} \<union> {0x0A..0x0D} \<union> {0x14..<config_end t}"

lemma local_set_ft232h_cbus: "local_update (config_area TYPE_232H) (set_ft232h_cbus e)"
  unfolding set_ft232h_cbus_def
  by (rule local_run_updates) (simp add: list_all_iff Let_def config_area_def)

lemma local_build_specific: "local_update (config_area t) (run_updates (build_specific t e))"
proof (rule local_run_updates)
  note defs = build_bm_def build_2232c_def build_r_def build_2232h_def build_4232h_def
    build_232h_def build_230x_def build_groups4_def build_group_def config_area_def
  show "list_all (local_update (config_area t)) (build_specific t e)"
    using local_set_ft232h_cbus [of e]
    by (cases t) (simp_all add: defs Let_def list_all_iff)
qed

lemma local_build_use_serial: "local_update (config_area t) (run_updates (build_use_serial t e))"
  by (rule local_run_updates) (cases t; simp add: build_use_serial_def config_area_def)

lemma local_build_common: "local_update {0x02..0x0A} (run_updates (build_common t e))"
  by (rule local_run_updates) (simp add: build_common_def)

section \<open>The string area\<close>

definition size_mask :: "nat \<Rightarrow> byte" where
  "size_mask sz = word_of_int (int sz - 1)"

lemma unat_and_mask:
  assumes "sz = 128 \<or> sz = (256 :: nat)"
  shows "unat (i AND size_mask sz) = unat i mod sz"
proof -
  have "i AND 0x7f = take_bit 7 i" "i AND 0xff = i"
    using take_bit_eq_mask [of 7 i] take_bit_word_eq_self [of 8 i] take_bit_eq_mask [of 8 i]
    by (simp_all add: mask_eq_exp_minus_1)
  moreover have "unat i < 256" using unsigned_less [of i] by simp
  moreover have "unat (take_bit 7 i) = unat i mod 128"
    by (simp only: unsigned_take_bit_eq) (simp add: take_bit_eq_mod)
  ultimately show ?thesis using assms by (auto simp: size_mask_def)
qed

lemma unat_add_mod:
  assumes "sz = 128 \<or> sz = (256 :: nat)"
  shows "unat ((i :: byte) + of_nat k) mod sz = (unat i + k) mod sz"
proof -
  have "unat (i + of_nat k) = (unat i + k) mod 256"
    by (simp add: unat_word_ariths unat_of_nat mod_simps)
  moreover have "sz dvd 256" using assms by auto
  ultimately show ?thesis by (simp add: mod_mod_cancel)
qed

lemma unat_add_fit:
  assumes "sz = 128 \<or> sz = (256 :: nat)" and "unat (i :: byte) mod sz = s" and "s + k < sz"
  shows "unat (i + of_nat k) mod sz = s + k"
proof -
  have "(unat i + k) mod sz = (s + k) mod sz" using assms(2) by (metis mod_add_left_eq)
  then show ?thesis using unat_add_mod [OF assms(1), of i k] assms(3) by simp
qed

lemma put_bytes_nth:
  assumes sz: "sz = 128 \<or> sz = 256"
  shows "length (put_bytes (size_mask sz) i xs b) = length b \<and>
    (unat i mod sz + length xs \<le> sz \<longrightarrow> sz \<le> length b \<longrightarrow>
      (\<forall>a. put_bytes (size_mask sz) i xs b ! a =
         (if unat i mod sz \<le> a \<and> a < unat i mod sz + length xs then xs ! (a - unat i mod sz)
          else b ! a)))"
proof (induction xs arbitrary: i b)
  case Nil
  then show ?case by auto
next
  case (Cons x xs)
  let ?s = "unat i mod sz"
  let ?b = "b[?s := x]"
  have idx: "unat (i AND size_mask sz) = ?s" by (rule unat_and_mask [OF sz])
  have step: "put_bytes (size_mask sz) i (x # xs) b =
      put_bytes (size_mask sz) (i + 1) xs ?b"
    by (simp add: idx)
  have IH: "length (put_bytes (size_mask sz) (i + 1) xs ?b) = length ?b"
    "unat (i + 1) mod sz + length xs \<le> sz \<Longrightarrow> sz \<le> length ?b \<Longrightarrow>
      put_bytes (size_mask sz) (i + 1) xs ?b ! a =
         (if unat (i + 1) mod sz \<le> a \<and> a < unat (i + 1) mod sz + length xs
          then xs ! (a - unat (i + 1) mod sz) else ?b ! a)" for a
    using Cons.IH [of "i + 1" ?b] by blast+
  have main: "put_bytes (size_mask sz) (i + 1) xs ?b ! a =
      (if ?s \<le> a \<and> a < ?s + length (x # xs) then (x # xs) ! (a - ?s) else b ! a)"
    if fit: "?s + length (x # xs) \<le> sz" and len: "sz \<le> length b" for a
  proof (cases "xs = []")
    case True
    then show ?thesis using fit len by (auto simp: nth_list_update)
  next
    case False
    then have "Suc ?s < sz" using fit by (cases xs) simp_all
    then have s1: "unat (i + 1) mod sz = Suc ?s"
      using unat_add_mod [OF sz, of i 1] by (simp add: mod_Suc)
    show ?thesis
      using IH(2) [of a] fit len by (auto simp: s1 nth_Cons' nth_list_update)
  qed
  show ?case unfolding step using IH(1) main by auto
qed

text \<open>
  The three bytes after the strings: they wrap around to byte 0 only where the strings end at
  the last bytes of the buffer.
\<close>

lemma put_three_nth:
  assumes sz: "sz = 128 \<or> sz = 256" and len: "sz \<le> length b" and s: "unat i mod sz = s"
  shows "length (put_bytes (size_mask sz) i [x, y, z] b) = length b"
    and "a < s \<Longrightarrow> 0 < a \<or> s + 3 \<le> sz \<Longrightarrow> s + 2 \<le> sz \<Longrightarrow>
      put_bytes (size_mask sz) i [x, y, z] b ! a = b ! a"
proof -
  have i1: "unat ((i + 1) AND size_mask sz) = (unat i + 1) mod sz"
    using unat_and_mask [OF sz, of "i + 1"] unat_add_mod [OF sz, of i 1] by simp
  have i2: "unat ((i + 1 + 1) AND size_mask sz) = (unat i + 2) mod sz"
    using unat_and_mask [OF sz, of "i + 1 + 1"] unat_add_mod [OF sz, of i 2] by (simp add: add.assoc)
  have i0: "unat (i AND size_mask sz) = s"
    using unat_and_mask [OF sz, of i] s by simp
  have m1: "(unat i + 1) mod sz = (s + 1) mod sz" and m2: "(unat i + 2) mod sz = (s + 2) mod sz"
    using s by (metis mod_add_left_eq)+
  show "length (put_bytes (size_mask sz) i [x, y, z] b) = length b"
    using put_bytes_nth [OF sz] by blast
  assume a: "a < s" "0 < a \<or> s + 3 \<le> sz" "s + 2 \<le> sz"
  have "(s + 1) mod sz = s + 1" using a by simp
  moreover have "(s + 2) mod sz = (if s + 2 < sz then s + 2 else 0)"
    using a sz by (auto simp: le_less)
  ultimately show "put_bytes (size_mask sz) i [x, y, z] b ! a = b ! a"
    using a unfolding put_bytes.simps i0 i1 i2 m1 m2 by auto
qed

lemma length_string_descriptor:
  "length (string_descriptor s) = 2 + 2 * length (case s of None \<Rightarrow> [] | Some t \<Rightarrow> take (c_strlen8 s) t)"
proof -
  have "length (concat (map (\<lambda>c. [of_char c, 0 :: byte]) t)) = 2 * length t" for t :: string
    by (induction t) simp_all
  then show ?thesis by (simp add: string_descriptor_def Let_def)
qed

text \<open>A C string of fewer than 256 characters (a C string holds no NUL).\<close>

definition c_string_ok :: "string option \<Rightarrow> bool" where
  "c_string_ok s = (case s of None \<Rightarrow> True | Some t \<Rightarrow> length t < 256 \<and> CHR 0x00 \<notin> set t)"

definition the_string :: "string option \<Rightarrow> string" where
  "the_string s = (case s of None \<Rightarrow> [] | Some t \<Rightarrow> t)"

lemma c_strlen8_ok [simp]: "c_string_ok s \<Longrightarrow> c_strlen8 s = length (the_string s)"
  by (auto simp: c_string_ok_def c_strlen8_def the_string_def split: option.splits)

lemma string_descriptor_ok:
  assumes "c_string_ok s"
  shows "string_descriptor s =
    [of_nat (2 * length (the_string s) + 2), 3] @ concat (map (\<lambda>c. [of_char c, 0]) (the_string s))"
  using assms by (auto simp: string_descriptor_def Let_def the_string_def c_string_ok_def mult.commute
      split: option.splits)

lemma length_descriptor_ok [simp]:
  "c_string_ok s \<Longrightarrow> length (string_descriptor s) = 2 * length (the_string s) + 2"
  by (auto simp: length_string_descriptor the_string_def c_string_ok_def c_strlen8_def split: option.splits)

lemma nth_descriptor_char:
  assumes "c_string_ok s" and "j < length (the_string s)"
  shows "string_descriptor s ! (2 * j + 2) = of_char (the_string s ! j)"
proof -
  have "concat (map (\<lambda>c. [of_char c, 0 :: byte]) t) ! (2 * j) = of_char (t ! j)" if "j < length t" for t :: string
    using that
  proof (induction t arbitrary: j)
    case (Cons c t)
    then show ?case by (cases j) simp_all
  qed simp
  then show ?thesis using assms by (simp add: string_descriptor_ok nth_append)
qed

lemma unat_of_char [simp]: "unat (of_char c :: byte) = of_char c"
proof -
  have "unat (of_nat (of_char c) :: byte) = of_char c mod 256"
    by (simp only: unat_of_nat) simp
  then show ?thesis by (simp only: of_nat_of_char of_char_mod_256)
qed

section \<open>The layout of an image\<close>

text \<open>Where the strings of an EEPROM lie in an image of \<open>sz\<close> bytes.\<close>

definition str0 :: "ftdi_chip_type \<Rightarrow> nat \<Rightarrow> nat" where
  "str0 t sz = unat (strings_start t) mod sz"

definition str1 :: "ftdi_chip_type \<Rightarrow> nat \<Rightarrow> ftdi_eeprom \<Rightarrow> nat" where
  "str1 t sz e = str0 t sz + (2 * length (the_string (manufacturer e)) + 2)"

definition str2 :: "ftdi_chip_type \<Rightarrow> nat \<Rightarrow> ftdi_eeprom \<Rightarrow> nat" where
  "str2 t sz e = str1 t sz e + (2 * length (the_string (product e)) + 2)"

definition str3 :: "ftdi_chip_type \<Rightarrow> nat \<Rightarrow> ftdi_eeprom \<Rightarrow> nat" where
  "str3 t sz e = str2 t sz e + (2 * length (the_string (serial e)) + 2)"

definition strings_fit :: "ftdi_chip_type \<Rightarrow> nat \<Rightarrow> ftdi_eeprom \<Rightarrow> bool" where
  "strings_fit t sz e \<longleftrightarrow>
     (sz = 128 \<and> t \<noteq> TYPE_230X \<or> sz = 256) \<and> eeprom_size e = int sz \<and>
     c_string_ok (manufacturer e) \<and> c_string_ok (product e) \<and> c_string_ok (serial e) \<and>
     str3 t sz e + (if t > TYPE_BM \<and> t \<noteq> TYPE_230X then 3 else 0) \<le> sz - 2"

lemma strings_fit_sz: "strings_fit t sz e \<Longrightarrow> sz = 128 \<or> sz = 256"
  by (auto simp: strings_fit_def)

lemma config_end_str0: "strings_fit t sz e \<Longrightarrow> config_end t \<le> str0 t sz \<and> 0x14 \<le> config_end t"
  by (cases t) (auto simp: strings_fit_def str0_def)

lemma build_strings_layout:
  assumes fit: "strings_fit t sz e" and len: "length b = 256"
  defines "b' \<equiv> build_strings t e b"
  shows "length b' = 256"
    and "b' ! 0x0E = strings_start t"
    and "b' ! 0x0F = of_nat (2 * length (the_string (manufacturer e)) + 2)"
    and "b' ! 0x10 = strings_start t + of_nat (2 * length (the_string (manufacturer e)) + 2) OR 0x80"
    and "b' ! 0x11 = of_nat (2 * length (the_string (product e)) + 2)"
    and "b' ! 0x12 = strings_start t + of_nat (2 * length (the_string (manufacturer e)) + 2)
           + of_nat (2 * length (the_string (product e)) + 2) OR 0x80"
    and "b' ! 0x13 = of_nat (2 * length (the_string (serial e)) + 2)"
    and "str0 t sz \<le> a \<Longrightarrow> a < str1 t sz e \<Longrightarrow>
           b' ! a = string_descriptor (manufacturer e) ! (a - str0 t sz)"
    and "str1 t sz e \<le> a \<Longrightarrow> a < str2 t sz e \<Longrightarrow>
           b' ! a = string_descriptor (product e) ! (a - str1 t sz e)"
    and "str2 t sz e \<le> a \<Longrightarrow> a < str3 t sz e \<Longrightarrow>
           b' ! a = string_descriptor (serial e) ! (a - str2 t sz e)"
    and "a < str0 t sz \<Longrightarrow> a \<notin> {0x0E..0x13} \<Longrightarrow> 0 < a \<or> t \<noteq> TYPE_230X \<Longrightarrow> b' ! a = b ! a"
proof -
  let ?m = "size_mask sz" and ?i0 = "strings_start t"
  let ?dm = "string_descriptor (manufacturer e)" and ?dp = "string_descriptor (product e)"
    and ?ds = "string_descriptor (serial e)"
  let ?lm = "2 * length (the_string (manufacturer e)) + 2"
    and ?lp = "2 * length (the_string (product e)) + 2"
    and ?ls = "2 * length (the_string (serial e)) + 2"
  note sz = strings_fit_sz [OF fit]
  have ok: "c_string_ok (manufacturer e)" "c_string_ok (product e)" "c_string_ok (serial e)"
    using fit by (simp_all add: strings_fit_def)
  have msk: "word_of_int (eeprom_size e - 1) = ?m" using fit by (simp add: strings_fit_def size_mask_def)
  define i1 where "i1 = ?i0 + of_nat ?lm"
  define i2 where "i2 = i1 + of_nat ?lp"
  define i3 where "i3 = i2 + of_nat ?ls"
  have lt: "str3 t sz e \<le> sz - 2" using fit by (auto simp: strings_fit_def split: if_splits)
  have le: "str0 t sz \<le> str1 t sz e" "str1 t sz e \<le> str2 t sz e" "str2 t sz e \<le> str3 t sz e"
    by (simp_all add: str1_def str2_def str3_def)
  have s3: "str3 t sz e < sz" using lt sz by auto
  have u0: "unat ?i0 mod sz = str0 t sz" by (simp add: str0_def)
  have u1: "unat i1 mod sz = str1 t sz e"
    unfolding i1_def str1_def by (rule unat_add_fit [OF sz u0]) (use le s3 in \<open>simp add: str1_def\<close>)
  have u2: "unat i2 mod sz = str2 t sz e"
    unfolding i2_def str2_def by (rule unat_add_fit [OF sz u1]) (use le s3 in \<open>simp add: str2_def\<close>)
  have u3: "unat i3 mod sz = str3 t sz e"
    unfolding i3_def str3_def by (rule unat_add_fit [OF sz u2]) (use le s3 in \<open>simp add: str3_def\<close>)
  define b1 where "b1 = put_bytes ?m ?i0 ?dm (b[0x0E := ?i0])"
  define b2 where "b2 = put_bytes ?m i1 ?dp (b1[0x0F := of_nat ?lm, 0x10 := i1 OR 0x80])"
  define b3 where "b3 = put_bytes ?m i2 ?ds (b2[0x11 := of_nat ?lp, 0x12 := i2 OR 0x80])"
  define b4 where "b4 = (if t > TYPE_BM then put_bytes ?m i3 [0x02, 0x03, word_of_int (is_not_pnp e)] b3
                         else b3)"
  have b': "b' = b4[0x13 := of_nat ?ls]"
    unfolding b'_def build_strings_def Let_def b4_def b3_def b2_def b1_def msk i3_def i2_def i1_def
    by (simp add: ok mult.commute add.commute)
  have len1: "length b1 = 256" "length b2 = 256" "length b3 = 256"
    using put_bytes_nth [OF sz] len by (simp_all add: b1_def b2_def b3_def)
  have fits: "str0 t sz + ?lm \<le> sz" "str1 t sz e + ?lp \<le> sz" "str2 t sz e + ?ls \<le> sz"
    using le s3 by (simp_all add: str1_def str2_def str3_def)
  have n1: "b1 ! a = (if str0 t sz \<le> a \<and> a < str1 t sz e then ?dm ! (a - str0 t sz)
      else b[0x0E := ?i0] ! a)" for a
    using put_bytes_nth [OF sz, of ?i0 ?dm "b[0x0E := ?i0]"] len sz fits(1) ok
    unfolding b1_def u0 str1_def by auto
  have n2: "b2 ! a = (if str1 t sz e \<le> a \<and> a < str2 t sz e then ?dp ! (a - str1 t sz e)
      else b1[0x0F := of_nat ?lm, 0x10 := i1 OR 0x80] ! a)" for a
    using put_bytes_nth [OF sz, of i1 ?dp "b1[0x0F := of_nat ?lm, 0x10 := i1 OR 0x80]"] len1 sz fits(2) ok
    unfolding b2_def u1 str2_def by auto
  have n3: "b3 ! a = (if str2 t sz e \<le> a \<and> a < str3 t sz e then ?ds ! (a - str2 t sz e)
      else b2[0x11 := of_nat ?lp, 0x12 := i2 OR 0x80] ! a)" for a
    using put_bytes_nth [OF sz, of i2 ?ds "b2[0x11 := of_nat ?lp, 0x12 := i2 OR 0x80]"] len1 sz fits(3) ok
    unfolding b3_def u2 str3_def by auto
  have len4: "length b4 = 256"
    using put_three_nth(1) [OF sz _ u3, of b3] len1 sz
    by (auto simp: b4_def simp del: put_bytes.simps)
  have n4: "b4 ! a = b3 ! a" if "a < str3 t sz e" "0 < a \<or> t \<noteq> TYPE_230X" for a
    using put_three_nth(2) [OF sz _ u3, of b3 a 2 3 "word_of_int (is_not_pnp e)"] that fit len1 sz lt
    by (auto simp: b4_def strings_fit_def simp del: put_bytes.simps split: if_splits)
  have s0: "0x14 \<le> str0 t sz" using config_end_str0 [OF fit] by linarith
  have top: "a < str3 t sz e \<Longrightarrow> 0 < a \<or> t \<noteq> TYPE_230X \<Longrightarrow> a \<noteq> 0x13 \<Longrightarrow> b' ! a = b3 ! a" for a
    using n4 len4 by (simp add: b')
  show "length b' = 256" using len4 by (simp add: b')
  show "b' ! 0x13 = of_nat ?ls" using len4 by (simp add: b')
  show "b' ! 0x0E = ?i0" using top [of "0x0E"] s0 le len by (simp add: n3 n2 n1)
  show "b' ! 0x0F = of_nat ?lm" using top [of "0x0F"] s0 le len1 by (simp add: n3 n2)
  show "b' ! 0x10 = ?i0 + of_nat ?lm OR 0x80"
    using top [of "0x10"] s0 le len1 by (simp add: n3 n2 i1_def)
  show "b' ! 0x11 = of_nat ?lp" using top [of "0x11"] s0 le len1 by (simp add: n3)
  show "b' ! 0x12 = ?i0 + of_nat ?lm + of_nat ?lp OR 0x80"
    using top [of "0x12"] s0 le len1 by (simp add: n3 i1_def i2_def)
  show "b' ! a = ?dm ! (a - str0 t sz)" if "str0 t sz \<le> a" "a < str1 t sz e"
    using top [of a] that s0 le by (simp add: n3 n2 n1)
  show "b' ! a = ?dp ! (a - str1 t sz e)" if "str1 t sz e \<le> a" "a < str2 t sz e"
    using top [of a] that s0 le by (simp add: n3 n2)
  show "b' ! a = ?ds ! (a - str2 t sz e)" if "str2 t sz e \<le> a" "a < str3 t sz e"
    using top [of a] that s0 le by (simp add: n3)
  show "b' ! a = b ! a" if "a < str0 t sz" "a \<notin> {0x0E..0x13}" "0 < a \<or> t \<noteq> TYPE_230X"
    using top [of a] that s0 le by (auto simp add: n3 n2 n1)
qed

section \<open>The finished image\<close>

lemma length_clear_image: "length b = 256 \<Longrightarrow> length (clear_image t b) = 256"
  by (simp add: clear_image_def)

lemma clear_image_low: "length b = 256 \<Longrightarrow> a < 0x80 \<Longrightarrow> clear_image t b ! a = 0"
  by (simp add: clear_image_def nth_append)

text \<open>The image before the checksum, and the image before the strings.\<close>

definition image0 :: "ftdi_chip_type \<Rightarrow> ftdi_eeprom \<Rightarrow> byte list" where
  "image0 t e = run_updates (build_common t e) (clear_image t (ebuf e))"

definition image1 :: "ftdi_chip_type \<Rightarrow> ftdi_eeprom \<Rightarrow> byte list" where
  "image1 t e =
     run_updates (build_specific t e) (run_updates (build_use_serial t e)
       (build_strings t e (image0 t e)))"

lemma build_image_eq:
  "build_image t e =
     (image1 t e)[nat (eeprom_size e) - 2 := ucast (eeprom_checksum t (nat (eeprom_size e)) (image1 t e)),
        nat (eeprom_size e) - 1 := ucast (drop_bit 8 (eeprom_checksum t (nat (eeprom_size e)) (image1 t e)))]"
  unfolding build_image_def image1_def image0_def Let_def ..

lemma length_image0: "length (ebuf e) = 256 \<Longrightarrow> length (image0 t e) = 256"
  by (simp add: image0_def local_length [OF local_build_common] length_clear_image)

lemma image1_facts:
  assumes fit: "strings_fit t sz e" and len: "length (ebuf e) = 256"
  shows "length (image1 t e) = 256"
    and "a \<notin> config_area t \<Longrightarrow> image1 t e ! a = build_strings t e (image0 t e) ! a"
proof -
  note loc = local_build_specific [of t e] local_build_use_serial [of t e]
  show "length (image1 t e) = 256"
    unfolding image1_def local_length [OF loc(1)] local_length [OF loc(2)]
    by (rule build_strings_layout(1) [OF fit length_image0 [OF len]])
  show "a \<notin> config_area t \<Longrightarrow> image1 t e ! a = build_strings t e (image0 t e) ! a"
    unfolding image1_def by (simp add: local_nth [OF loc(1)] local_nth [OF loc(2)])
qed

lemma image_nth:
  assumes fit: "strings_fit t sz e" and len: "length (ebuf e) = 256" and a: "a < sz - 2"
  shows "build_image t e ! a = image1 t e ! a"
  using fit a unfolding build_image_eq by (auto simp: strings_fit_def)

lemma not_config_area:
  assumes "strings_fit t sz e"
  shows "a \<in> {0x02..0x09} \<union> {0x0E..0x13} \<Longrightarrow> a \<notin> config_area t"
    and "str0 t sz \<le> a \<Longrightarrow> a \<notin> config_area t"
  using config_end_str0 [OF assms] by (auto simp: config_area_def)

text \<open>The checksum reads the bytes below the last two only, so that storing it keeps it.\<close>

lemma checksum_loop_cong:
  assumes "\<And>a. a < 2 * n \<Longrightarrow> b ! a = b' ! a" and "t = TYPE_230X \<longrightarrow> 0x40 < n"
  shows "checksum_loop t n b i cs = checksum_loop t n b' i cs"
  using assms
proof (induction t n b i cs rule: checksum_loop.induct)
  case (1 t n b i cs)
  show ?case
  proof (cases "i < n")
    case True
    let ?i = "if t = TYPE_230X \<and> i = 0x12 then 0x40 else i"
    have "?i < n" using True 1(3) by auto
    then have "word_at b ?i = word_at b' ?i" using 1(2) by (simp add: word_at_def)
    then show ?thesis
      using 1(1) [OF True refl 1(2,3)] True
      by (simp only: checksum_loop.simps [of t n b i] checksum_loop.simps [of t n b' i] Let_def if_True)
  next
    case False
    then show ?thesis by (simp add: checksum_loop.simps)
  qed
qed

lemma image_checksum:
  assumes fit: "strings_fit t sz e" and len: "length (ebuf e) = 256"
  shows "short_at (build_image t e) (sz - 2) = uint (eeprom_checksum t sz (build_image t e))"
proof -
  note sz = strings_fit_sz [OF fit]
  have es: "nat (eeprom_size e) = sz" using fit by (simp add: strings_fit_def)
  let ?cs = "eeprom_checksum t sz (image1 t e)"
  have "eeprom_checksum t sz (build_image t e) = ?cs"
    unfolding eeprom_checksum_def
  proof (rule checksum_loop_cong)
    show "build_image t e ! a = image1 t e ! a" if "a < 2 * (sz div 2 - 1)" for a
      using sz that by (intro image_nth [OF fit len]) auto
    show "t = TYPE_230X \<longrightarrow> 0x40 < sz div 2 - 1" using fit by (auto simp: strings_fit_def)
  qed
  moreover have "short_at (build_image t e) (sz - 2) =
      uint (ucast ?cs :: byte) + 256 * uint (ucast (drop_bit 8 ?cs) :: byte)"
    using sz image1_facts(1) [OF fit len]
    by (auto simp: build_image_eq es short_at_def byte_at_def push_bit_eq_mult)
  moreover have "uint (ucast ?cs :: byte) + 256 * uint (ucast (drop_bit 8 ?cs) :: byte) = uint ?cs"
  proof -
    have lo: "uint (ucast ?cs :: byte) = uint ?cs mod 256"
      by (simp add: unsigned_ucast_eq take_bit_eq_mod)
    have "uint (drop_bit 8 ?cs) = uint ?cs div 256"
      by (simp add: drop_bit_eq_div uint_div_distrib)
    moreover have "uint ?cs div 256 < 256"
    proof -
      have "uint ?cs < 2 ^ LENGTH(16)" by (rule unsigned_less)
      then show ?thesis by simp
    qed
    ultimately have hi: "uint (ucast (drop_bit 8 ?cs) :: byte) = uint ?cs div 256"
      by (simp add: unsigned_ucast_eq take_bit_eq_mod mod_pos_pos_trivial pos_imp_zdiv_nonneg_iff)
    show ?thesis unfolding lo hi by presburger
  qed
  ultimately show ?thesis by simp
qed

section \<open>Decoding the strings\<close>

lemma decode_string_at:
  assumes alloc: "\<And>n. alloc n" and size: "b ! (a + 1) = of_nat (2 * length s + 2)" "2 * length s + 2 < 256"
    and pos: "nat (byte_at b a AND (sz - 1)) = p" and fit: "p + 2 * length s + 2 \<le> 256"
    and chars: "\<And>j. j < length s \<Longrightarrow> b ! (p + (2 * j + 2)) = of_char (s ! j)"
    and nul: "CHR 0x00 \<notin> set s"
  shows "decode_string alloc sz b a = Some (Some s)"
proof -
  have "unat (b ! (a + 1)) div 2 = length s + 1"
    unfolding size(1) unat_of_nat using size(2) by simp
  moreover have "map (\<lambda>j. char_of (unat (b ! (2 * j + p + 2)))) [0..<length s] = s"
  proof (rule nth_equalityI)
    fix j assume "j < length (map (\<lambda>j. char_of (unat (b ! (2 * j + p + 2)))) [0..<length s])"
    then have j: "j < length s" by simp
    have "2 * j + p + 2 = p + (2 * j + 2)" by simp
    then have "b ! (2 * j + p + 2) = of_char (s ! j)" using chars [OF j] by (simp only:)
    then show "map (\<lambda>j. char_of (unat (b ! (2 * j + p + 2)))) [0..<length s] ! j = s ! j"
      using j by simp
  qed simp
  moreover have "takeWhile (\<lambda>ch. ch \<noteq> CHR 0x00) s = s"
    using nul by (auto simp: takeWhile_eq_all_conv)
  ultimately show ?thesis
    using alloc fit pos by (cases s) (simp_all add: decode_string_def Let_def)
qed

lemma or_0x80: "unat (x OR 0x80 :: byte) mod 128 = unat x mod 128" "128 \<le> unat x \<Longrightarrow> x OR 0x80 = x"
proof -
  have "take_bit 7 (x OR 0x80) = take_bit 7 x" by (simp add: take_bit_or)
  then have "unat (take_bit 7 (x OR 0x80)) = unat (take_bit 7 x)" by simp
  then show "unat (x OR 0x80) mod 128 = unat x mod 128"
    by (simp only: unsigned_take_bit_eq) (simp add: take_bit_eq_mod)
  assume le: "128 \<le> unat x"
  have "unat x < 2 ^ LENGTH(8)" by (rule unsigned_less)
  with le have "odd (unat x div 2 ^ 7)" by (simp add: div_nat_eqI [of 128 1])
  then have "bit (unat x) 7" unfolding bit_iff_odd .
  then have b7: "bit x 7" by (simp only: bit_unsigned_iff)
  have "bit (2 ^ 7 :: byte) n \<Longrightarrow> n = 7" for n by (simp only: bit_exp_iff)
  then have "bit (0x80 :: byte) n \<Longrightarrow> n = 7" for n by simp
  with b7 show "x OR 0x80 = x" by (intro bit_word_eqI) (metis bit_or_iff)
qed

lemma byte_and_mask:
  assumes "sz = 128 \<or> sz = (256 :: nat)"
  shows "nat (uint (x :: byte) AND (int sz - 1)) = unat x mod sz"
  using assms
proof
  assume sz: "sz = 128"
  have "uint x AND 127 = uint x mod 128"
    using take_bit_eq_mask [of 7 "uint x"] by (simp add: mask_eq_exp_minus_1 take_bit_eq_mod)
  then show ?thesis by (simp add: sz nat_mod_distrib)
next
  assume sz: "sz = 256"
  have "uint x AND 255 = uint x mod 256"
    using take_bit_eq_mask [of 8 "uint x"] by (simp add: mask_eq_exp_minus_1 take_bit_eq_mod)
  then show ?thesis by (simp add: sz nat_mod_distrib)
qed

lemma decode_built_strings:
  assumes fit: "strings_fit t sz e" and len: "length (ebuf e) = 256" and alloc: "\<And>n. alloc n"
  shows "decode_string alloc (int sz) (build_image t e) 0x0E = Some (Some (the_string (manufacturer e)))"
    and "decode_string alloc (int sz) (build_image t e) 0x10 = Some (Some (the_string (product e)))"
    and "decode_string alloc (int sz) (build_image t e) 0x12 = Some (Some (the_string (serial e)))"
proof -
  let ?b = "build_image t e" and ?i0 = "strings_start t"
  let ?lm = "2 * length (the_string (manufacturer e)) + 2"
    and ?lp = "2 * length (the_string (product e)) + 2"
    and ?ls = "2 * length (the_string (serial e)) + 2"
  note sz = strings_fit_sz [OF fit]
  have ok: "c_string_ok (manufacturer e)" "c_string_ok (product e)" "c_string_ok (serial e)"
    using fit by (simp_all add: strings_fit_def)
  have nul: "CHR 0x00 \<notin> set (the_string s)" if "c_string_ok s" for s
    using that by (auto simp: c_string_ok_def the_string_def split: option.splits)
  have str3: "str3 t sz e \<le> sz - 2" using fit by (auto simp: strings_fit_def split: if_splits)
  have le: "str0 t sz \<le> str1 t sz e" "str1 t sz e \<le> str2 t sz e" "str2 t sz e \<le> str3 t sz e"
    by (simp_all add: str1_def str2_def str3_def)
  have s0: "0x14 \<le> str0 t sz" using config_end_str0 [OF fit] by linarith
  have final: "?b ! a = build_strings t e (image0 t e) ! a"
    if "a \<in> {0x0E..0x13} \<or> str0 t sz \<le> a" "a < sz - 2" for a
    using that image_nth [OF fit len, of a] image1_facts(2) [OF fit len, of a]
      not_config_area [OF fit, of a] by auto
  note lay = build_strings_layout [OF fit length_image0 [OF len]]
  have i0: "unat ?i0 mod sz = str0 t sz" by (simp add: str0_def)
  have i1: "unat (?i0 + of_nat ?lm) mod sz = str1 t sz e"
    unfolding str1_def by (rule unat_add_fit [OF sz i0]) (use le str3 sz in \<open>auto simp: str1_def\<close>)
  have i2: "unat (?i0 + of_nat ?lm + of_nat ?lp) mod sz = str2 t sz e"
    unfolding str2_def by (rule unat_add_fit [OF sz i1]) (use le str3 sz in \<open>auto simp: str2_def\<close>)
  have or80: "unat (x OR 0x80) mod sz = unat x mod sz" if "str0 t sz \<le> unat x mod sz" for x :: byte
  proof (cases "sz = 128")
    case True
    then show ?thesis using or_0x80(1) by simp
  next
    case False
    then have "sz = 256" using sz by simp
    moreover have "128 \<le> str0 t 256" by (cases t) (simp_all add: str0_def)
    moreover have "unat x < 2 ^ LENGTH(8)" by (rule unsigned_less)
    ultimately show ?thesis using that or_0x80(2) [of x] by simp
  qed
  note mask = byte_and_mask [OF sz]
  have l: "?lm < 256" "?lp < 256" "?ls < 256"
    using le str3 sz by (auto simp: str1_def str2_def str3_def)
  have low: "a \<in> {0x0E..0x13} \<Longrightarrow> a < sz - 2" for a using sz by auto
  show "decode_string alloc (int sz) ?b 0x0E = Some (Some (the_string (manufacturer e)))"
  proof (rule decode_string_at [OF alloc])
    show "?b ! (0x0E + 1) = of_nat ?lm" using final [of "0x0F"] low lay(3) by simp
    show "nat (byte_at ?b 0x0E AND (int sz - 1)) = str0 t sz"
      using final [of "0x0E"] low lay(2) by (simp add: byte_at_def mask i0)
    show "str0 t sz + 2 * length (the_string (manufacturer e)) + 2 \<le> 256"
      using le str3 sz by (auto simp: str1_def)
    show "?b ! (str0 t sz + (2 * j + 2)) = of_char (the_string (manufacturer e) ! j)"
      if "j < length (the_string (manufacturer e))" for j
    proof -
      have "str0 t sz + (2 * j + 2) < str1 t sz e" using that by (simp add: str1_def)
      then show ?thesis
        using final [of "str0 t sz + (2 * j + 2)"] lay(8) [of "str0 t sz + (2 * j + 2)"] le str3
          nth_descriptor_char [OF ok(1) that] by simp
    qed
  qed (use l nul ok in auto)
  show "decode_string alloc (int sz) ?b 0x10 = Some (Some (the_string (product e)))"
  proof (rule decode_string_at [OF alloc])
    show "?b ! (0x10 + 1) = of_nat ?lp" using final [of "0x11"] low lay(5) by simp
    show "nat (byte_at ?b 0x10 AND (int sz - 1)) = str1 t sz e"
      using final [of "0x10"] low lay(4) le i1 or80 [of "?i0 + of_nat ?lm"]
      by (simp add: byte_at_def mask del: of_nat_add of_nat_mult)
    show "str1 t sz e + 2 * length (the_string (product e)) + 2 \<le> 256"
      using le str3 sz by (auto simp: str2_def)
    show "?b ! (str1 t sz e + (2 * j + 2)) = of_char (the_string (product e) ! j)"
      if "j < length (the_string (product e))" for j
    proof -
      have "str1 t sz e + (2 * j + 2) < str2 t sz e" using that by (simp add: str2_def)
      then show ?thesis
        using final [of "str1 t sz e + (2 * j + 2)"] lay(9) [of "str1 t sz e + (2 * j + 2)"] le str3
          nth_descriptor_char [OF ok(2) that] by simp
    qed
  qed (use l nul ok in auto)
  show "decode_string alloc (int sz) ?b 0x12 = Some (Some (the_string (serial e)))"
  proof (rule decode_string_at [OF alloc])
    show "?b ! (0x12 + 1) = of_nat ?ls" using final [of "0x13"] low lay(7) by simp
    show "nat (byte_at ?b 0x12 AND (int sz - 1)) = str2 t sz e"
      using final [of "0x12"] low lay(6) le i2 or80 [of "?i0 + of_nat ?lm + of_nat ?lp"]
      by (simp add: byte_at_def mask del: of_nat_add of_nat_mult)
    show "str2 t sz e + 2 * length (the_string (serial e)) + 2 \<le> 256"
      using le str3 sz by (auto simp: str3_def)
    show "?b ! (str2 t sz e + (2 * j + 2)) = of_char (the_string (serial e) ! j)"
      if "j < length (the_string (serial e))" for j
    proof -
      have "str2 t sz e + (2 * j + 2) < str3 t sz e" using that by (simp add: str3_def)
      then show ?thesis
        using final [of "str2 t sz e + (2 * j + 2)"] lay(10) [of "str2 t sz e + (2 * j + 2)"] le str3
          nth_descriptor_char [OF ok(3) that] by simp
    qed
  qed (use l nul ok in auto)
qed

section \<open>Decoding the common fields\<close>

lemma image_common:
  assumes fit: "strings_fit t sz e" and len: "length (ebuf e) = 256" and a: "a \<in> {0x02..0x09}"
  shows "build_image t e ! a = image0 t e ! a"
proof -
  have lt: "a < sz - 2" using a strings_fit_sz [OF fit] by auto
  have "a \<notin> config_area t" using not_config_area(1) [OF fit] a by blast
  then have "build_image t e ! a = build_strings t e (image0 t e) ! a"
    using image_nth [OF fit len lt] image1_facts(2) [OF fit len] by simp
  also have "\<dots> = image0 t e ! a"
    using build_strings_layout(11) [OF fit length_image0 [OF len]] config_end_str0 [OF fit] a by simp
  finally show ?thesis .
qed

lemma image0_common:
  assumes "length (ebuf e) = 256"
  shows "image0 t e ! 0x02 = word_of_int (vendor_id e)"
    and "image0 t e ! 0x03 = word_of_int (drop_bit 8 (vendor_id e))"
    and "image0 t e ! 0x04 = word_of_int (product_id e)"
    and "image0 t e ! 0x05 = word_of_int (drop_bit 8 (product_id e))"
    and "image0 t e ! 0x06 = word_of_int (release_number e)"
    and "image0 t e ! 0x07 = word_of_int (drop_bit 8 (release_number e))"
    and "image0 t e ! 0x08 = word_of_int (0x80 OR (if self_powered e \<noteq> 0 then 0x40 else 0)
           OR (if remote_wakeup e \<noteq> 0 then 0x20 else 0))"
    and "image0 t e ! 0x09 = word_of_int (max_power e sdiv 2)"
  using length_clear_image [OF assms, of t]
  by (simp_all add: image0_def build_common_def store_def)

lemma short_of_bytes:
  assumes "b ! a = word_of_int v" and "b ! (a + 1) = word_of_int (drop_bit 8 v)"
  shows "short_at b a = v mod 65536"
proof -
  have "uint (word_of_int v :: byte) = v mod 256"
    and "uint (word_of_int (drop_bit 8 v) :: byte) = (v div 256) mod 256"
    by (simp_all add: uint_word_of_int drop_bit_eq_div)
  then have "short_at b a = v mod 256 + 256 * ((v div 256) mod 256)"
    using assms by (simp add: short_at_def byte_at_def push_bit_eq_mult)
  also have "\<dots> = v mod 65536"
    using zmod_zmult2_eq [of 256 v 256] by simp
  finally show ?thesis .
qed

text \<open>The EEPROM \<open>ftdi_eeprom_build\<close> works on: an unknown size is replaced.\<close>

definition sized :: "ftdi_eeprom \<Rightarrow> ftdi_eeprom" where
  "sized e =
     (if eeprom_size e = -1
      then e\<lparr>eeprom_size := (if chip e = 0x56 \<or> chip e = 0x66 then 0x100 else 0x80)\<rparr> else e)"

lemma sized_fields [simp]:
  "ebuf (sized e) = ebuf e" "manufacturer (sized e) = manufacturer e"
  "product (sized e) = product e" "serial (sized e) = serial e" "chip (sized e) = chip e"
  "vendor_id (sized e) = vendor_id e" "product_id (sized e) = product_id e"
  "release_number (sized e) = release_number e" "self_powered (sized e) = self_powered e"
  "remote_wakeup (sized e) = remote_wakeup e" "max_power (sized e) = max_power e"
  by (simp_all add: sized_def)

text \<open>
  What the library maintains of an EEPROM: the size of the buffer and of the list of pin
  functions, C strings, and a size that is unknown or one of the sizes of real EEPROMs (the
  FT230X has 256 bytes).
\<close>

definition eeprom_ok :: "ftdi_chip_type \<Rightarrow> ftdi_eeprom \<Rightarrow> bool" where
  "eeprom_ok t e \<longleftrightarrow>
     length (ebuf e) = 256 \<and> length (cbus_function e) = 10 \<and>
     c_string_ok (manufacturer e) \<and> c_string_ok (product e) \<and> c_string_ok (serial e) \<and>
     (eeprom_size (sized e) = 128 \<and> t \<noteq> TYPE_230X \<or> eeprom_size (sized e) = 256)"

lemma build_result:
  assumes e: "eeprom c = Some e" and ok: "eeprom_ok (ftype c) e"
    and run: "ftdi_eeprom_build (Some c, w) = (Ret r, s')" and r: "0 \<le> r"
  obtains "strings_fit (ftype c) (nat (eeprom_size (sized e))) (sized e)"
    and "s' = (Some (c\<lparr>eeprom := Some ((sized e)\<lparr>ebuf := build_image (ftype c) (sized e),
                 initialized_for_connected_device := 1\<rparr>)\<rparr>), w)"
    and "r = user_area (ftype c) - 2 * int (length (the_string (manufacturer e)) +
               length (the_string (product e)) + length (the_string (serial e)))"
proof -
  let ?n = "length (the_string (manufacturer e)) + length (the_string (product e))
    + length (the_string (serial e))"
  have chip: "chip e \<noteq> -1"
    using run r e by (auto simp: ftdi_eeprom_build_def ftdi_error_return_def Let_def)
  have sz: "eeprom_size (sized e) = 128 \<and> ftype c \<noteq> TYPE_230X \<or> eeprom_size (sized e) = 256"
    and strs: "c_string_ok (manufacturer e)" "c_string_ok (product e)" "c_string_ok (serial e)"
    using ok by (simp_all add: eeprom_ok_def)
  have area: "0 \<le> user_area (ftype c) - 2 * int ?n"
    and res: "r = user_area (ftype c) - 2 * int ?n \<and>
      s' = (Some (c\<lparr>eeprom := Some ((sized e)\<lparr>ebuf := build_image (ftype c) (sized e),
                 initialized_for_connected_device := 1\<rparr>)\<rparr>), w)"
    using run r sz strs
    by (auto simp: ftdi_eeprom_build_def e chip Let_def sized_def [symmetric]
        ftdi_error_return_def c_strlen8_ok split: if_splits)
  have "strings_fit (ftype c) (nat (eeprom_size (sized e))) (sized e)"
    using area sz strs unfolding strings_fit_def
    by (cases "ftype c") (auto simp: str3_def str2_def str1_def str0_def chip_order_defs)
  then show ?thesis using res that by blast
qed

text \<open>The decoded EEPROM of a built image, before the part that is specific to the chip.\<close>

lemma decode_built:
  assumes e: "eeprom c = Some e" and ok: "eeprom_ok (ftype c) e" and alloc: "\<And>n. alloc n"
    and run: "ftdi_eeprom_build (Some c, w) = (Ret r, s')" and r: "0 \<le> r"
  defines "b \<equiv> build_image (ftype c) (sized e)"
  shows "ftdi_eeprom_decode alloc s' = (Ret 0, Some (c\<lparr>eeprom := Some (decode_specific (ftype c) b
      ((decode_common b ((sized e)\<lparr>ebuf := b, initialized_for_connected_device := 1\<rparr>))
         \<lparr>manufacturer := Some (the_string (manufacturer e)),
          product := Some (the_string (product e)), serial := Some (the_string (serial e)),
          channel_a_type := 0\<rparr>))\<rparr>), w)"
proof -
  let ?sz = "nat (eeprom_size (sized e))"
  have fit: "strings_fit (ftype c) ?sz (sized e)"
    and s': "s' = (Some (c\<lparr>eeprom := Some ((sized e)\<lparr>ebuf := b, initialized_for_connected_device := 1\<rparr>)\<rparr>), w)"
    unfolding b_def by (rule build_result [OF e ok run r], blast)+
  have len: "length (ebuf (sized e)) = 256" using ok by (simp add: eeprom_ok_def)
  have sz: "eeprom_size (sized e) = 128 \<or> eeprom_size (sized e) = 256"
    using ok by (auto simp: eeprom_ok_def)
  then have szi: "int ?sz = eeprom_size (sized e)" by auto
  have strs: "decode_string alloc (eeprom_size (sized e)) b 0x0E = Some (Some (the_string (manufacturer e)))"
      "decode_string alloc (eeprom_size (sized e)) b 0x10 = Some (Some (the_string (product e)))"
      "decode_string alloc (eeprom_size (sized e)) b 0x12 = Some (Some (the_string (serial e)))"
    using decode_built_strings [where alloc = alloc, OF fit len alloc, unfolded szi]
    by (simp_all add: b_def)
  have cs: "short_at b (?sz - 2) = uint (eeprom_checksum (ftype c) ?sz b)"
    using image_checksum [OF fit len] by (simp add: b_def)
  have fields: "eeprom_size (sized e) \<ge> 2" "eeprom_size (sized e) \<le> 256" using sz by auto
  show ?thesis
    unfolding s' ftdi_eeprom_decode_def Let_def using strs cs fields
    by simp
qed

lemma decode_specific_common [simp]:
  "manufacturer (decode_specific t b e) = manufacturer e"
  "product (decode_specific t b e) = product e"
  "serial (decode_specific t b e) = serial e"
  "vendor_id (decode_specific t b e) = vendor_id e"
  "product_id (decode_specific t b e) = product_id e"
  "release_number (decode_specific t b e) = release_number e"
  "self_powered (decode_specific t b e) = self_powered e"
  "remote_wakeup (decode_specific t b e) = remote_wakeup e"
  "max_power (decode_specific t b e) = max_power e"
  "suspend_pull_downs (decode_specific t b e) = suspend_pull_downs e"
  "use_serial (decode_specific t b e) = use_serial e"
  by (cases t; simp add: decode_2232c_def decode_r_def decode_x232h_def decode_232h_def
      decode_230x_def Let_def)+

text \<open>C3: Building an EEPROM image and decoding it again is the identity on the strings and the
  common fields. Whenever \<open>ftdi_eeprom_build\<close> returns a size that is not negative, on any chip
  type, \<open>ftdi_eeprom_decode\<close> of the image accepts the checksum, returns 0 and yields the three
  strings (a missing one as the empty string), the ids and the release number modulo 2^16, the
  power flags, and the power consumption rounded down to units of 2 mA.\<close>

theorem eeprom_build_decode:
  assumes "eeprom c = Some e" and "eeprom_ok (ftype c) e" and "\<And>n. alloc n"
    and "ftdi_eeprom_build (Some c, w) = (Ret r, s')" and "0 \<le> r"
  shows "\<exists>c' e'. ftdi_eeprom_decode alloc s' = (Ret 0, Some c', w) \<and> eeprom c' = Some e' \<and>
    manufacturer e' = Some (the_string (manufacturer e)) \<and>
    product e' = Some (the_string (product e)) \<and>
    serial e' = Some (the_string (serial e)) \<and>
    vendor_id e' = vendor_id e mod 65536 \<and> product_id e' = product_id e mod 65536 \<and>
    release_number e' = release_number e mod 65536 \<and>
    (self_powered e' \<noteq> 0 \<longleftrightarrow> self_powered e \<noteq> 0) \<and>
    (remote_wakeup e' \<noteq> 0 \<longleftrightarrow> remote_wakeup e \<noteq> 0) \<and>
    max_power e' = 2 * ((max_power e sdiv 2) mod 256)"
proof -
  let ?b = "build_image (ftype c) (sized e)"
  have fit: "strings_fit (ftype c) (nat (eeprom_size (sized e))) (sized e)"
    by (rule build_result [OF assms(1,2,4,5)])
  have len: "length (ebuf (sized e)) = 256" using assms(2) by (simp add: eeprom_ok_def)
  have at: "?b ! a = image0 (ftype c) (sized e) ! a" if "a \<in> {0x02..0x09}" for a
    by (rule image_common [OF fit len that])
  note com = image0_common [OF len, of "ftype c"]
  have "short_at ?b 0x02 = vendor_id e mod 65536" "short_at ?b 0x04 = product_id e mod 65536"
      "short_at ?b 0x06 = release_number e mod 65536"
    by (rule short_of_bytes; simp add: at com)+
  moreover have "byte_at ?b 0x08 AND 0x40 \<noteq> 0 \<longleftrightarrow> self_powered e \<noteq> 0"
      "byte_at ?b 0x08 AND 0x20 \<noteq> 0 \<longleftrightarrow> remote_wakeup e \<noteq> 0"
      "byte_at ?b 0x09 = (max_power e sdiv 2) mod 256"
    by (simp_all add: byte_at_def at com uint_word_of_int)
  ultimately show ?thesis
    unfolding decode_built [where alloc = alloc, OF assms(1-5)]
    by (simp add: decode_common_def)
qed

definition sample_eeprom :: ftdi_eeprom where
  "sample_eeprom = zero_eeprom\<lparr>vendor_id := 0x0403, product_id := 0x6010, max_power := 100,
     manufacturer := Some ''TU-KL'', product := Some ''FPGA'', chip := 0x56, eeprom_size := -1,
     group0_drive := 2, group3_drive := 7, group1_slew := 4, group2_schmitt := 8\<rparr>"

definition eeprom_context :: ftdi_context where
  "eeprom_context = tiny_context\<lparr>eeprom := Some sample_eeprom\<rparr>"

lemma eeprom_context_simps [simp]:
  "eeprom eeprom_context = Some sample_eeprom" "ftype eeprom_context = TYPE_2232H"
  by (simp_all add: eeprom_context_def tiny_context_def sample_context_def)

lemma sample_eeprom_ok: "eeprom_ok TYPE_2232H sample_eeprom"
  by (simp add: eeprom_ok_def sample_eeprom_def zero_eeprom_def sized_def c_string_ok_def)

lemma sample_build:
  "ftdi_eeprom_build (Some eeprom_context, ()) =
     (Ret 68, snd (ftdi_eeprom_build (Some eeprom_context, ())))"
  by (simp add: ftdi_eeprom_build_def Let_def c_strlen8_def sample_eeprom_def zero_eeprom_def)

theorem eeprom_build_decode_witness:
  "\<exists>c' e'. ftdi_eeprom_decode (\<lambda>n. True) (snd (ftdi_eeprom_build (Some eeprom_context, ()))) =
     (Ret 0, Some c', ()) \<and> eeprom c' = Some e' \<and> manufacturer e' = Some ''TU-KL'' \<and>
     serial e' = Some '''' \<and> max_power e' = 100"
proof -
  have "eeprom_ok (ftype eeprom_context) sample_eeprom" using sample_eeprom_ok by simp
  from eeprom_build_decode [OF _ this _ sample_build, of "\<lambda>n. True"] show ?thesis
    by (simp add: sample_eeprom_def zero_eeprom_def the_string_def) blast
qed

section \<open>Decoding the pin groups\<close>

text \<open>The bits a pin group sets in its byte.\<close>

definition group_bits :: "nat \<Rightarrow> int \<Rightarrow> int \<Rightarrow> int \<Rightarrow> int" where
  "group_bits shift drive schmitt slew =
     (push_bit shift (if drive > DRIVE_16MA then DRIVE_16MA else drive)
      OR (if schmitt = IS_SCHMITT then push_bit shift IS_SCHMITT else 0))
      OR (if slew = SLOW_SLEW then push_bit shift SLOW_SLEW else 0)"

lemma run_build_group:
  "a < length b \<Longrightarrow>
   run_updates (build_group a shift drive schmitt slew) b =
     b[a := b ! a OR word_of_int (group_bits shift drive schmitt slew)]"
  by (cases "schmitt = 8"; cases "slew = 4";
      simp add: build_group_def group_bits_def or_at_def or_if_def or.assoc of_int_or_eq
        split del: if_split)

lemma run_build_groups4:
  assumes "length b = 256"
  shows "length (run_updates (build_groups4 e) b) = 256"
    and "run_updates (build_groups4 e) b ! 0x0c = b ! 0x0c OR word_of_int
      (group_bits 0 (group0_drive e) (group0_schmitt e) (group0_slew e) OR
       group_bits 4 (group1_drive e) (group1_schmitt e) (group1_slew e))"
    and "run_updates (build_groups4 e) b ! 0x0d = b ! 0x0d OR word_of_int
      (group_bits 0 (group2_drive e) (group2_schmitt e) (group2_slew e) OR
       group_bits 4 (group3_drive e) (group3_schmitt e) (group3_slew e))"
  using assms by (simp_all add: build_groups4_def run_build_group of_int_or_eq or.assoc)

lemma image1_groups:
  assumes t: "t = TYPE_2232H \<or> t = TYPE_4232H" and fit: "strings_fit t sz e"
    and len: "length (ebuf e) = 256"
  shows "image1 t e ! 0x0c = word_of_int
      (group_bits 0 (group0_drive e) (group0_schmitt e) (group0_slew e) OR
       group_bits 4 (group1_drive e) (group1_schmitt e) (group1_slew e))"
    and "image1 t e ! 0x0d = word_of_int
      (group_bits 0 (group2_drive e) (group2_schmitt e) (group2_slew e) OR
       group_bits 4 (group3_drive e) (group3_schmitt e) (group3_slew e))"
proof -
  let ?A = "{0x00, 0x01, 0x0A, 0x0B, 0x18} :: nat set"
  define us where "us = take (length (build_specific t e) - length (build_groups4 e) - 1) (build_specific t e)"
  have split: "build_specific t e = us @ build_groups4 e @ [store 0x18 (chip e)]"
    using t unfolding us_def by (auto simp: build_2232h_def build_4232h_def build_groups4_def build_group_def)
  have us: "local_update ?A (run_updates us)"
    using t unfolding us_def
    by (intro local_run_updates)
      (auto simp: build_2232h_def build_4232h_def build_groups4_def build_group_def)
  have st: "local_update ?A (store 0x18 (chip e))" by simp
  have ser: "local_update ?A (run_updates (build_use_serial t e))"
    by (rule local_run_updates) (simp add: build_use_serial_def)
  let ?s = "build_strings t e (image0 t e)"
  have low: "image0 t e ! 0x0c = 0" "image0 t e ! 0x0d = 0"
    using local_nth [OF local_build_common, of _ t e] clear_image_low [OF len, of _ t]
    by (simp_all add: image0_def)
  note lay = build_strings_layout [OF fit length_image0 [OF len]]
  have "?s ! 0x0c = 0" "?s ! 0x0d = 0"
    using lay(11) [of "0x0c"] lay(11) [of "0x0d"] config_end_str0 [OF fit] t low by auto
  then have pre: "run_updates us (run_updates (build_use_serial t e) ?s) ! 0x0c = 0"
      "run_updates us (run_updates (build_use_serial t e) ?s) ! 0x0d = 0"
      "length (run_updates us (run_updates (build_use_serial t e) ?s)) = 256"
    using lay(1) by (simp_all add: local_nth [OF us] local_nth [OF ser] local_length [OF us] local_length [OF ser])
  show "image1 t e ! 0x0c = word_of_int
      (group_bits 0 (group0_drive e) (group0_schmitt e) (group0_slew e) OR
       group_bits 4 (group1_drive e) (group1_schmitt e) (group1_slew e))"
    and "image1 t e ! 0x0d = word_of_int
      (group_bits 0 (group2_drive e) (group2_schmitt e) (group2_slew e) OR
       group_bits 4 (group3_drive e) (group3_schmitt e) (group3_slew e))"
    by (simp_all add: image1_def split local_nth [OF st] run_build_groups4(2,3) [OF pre(3)] pre)
qed

text \<open>What decoding makes of the two groups of a byte.\<close>

lemma group_nibble:
  assumes "0 \<le> d"
  shows "0 \<le> group_bits 0 d s w \<and> group_bits 0 d s w < 16 \<and>
    group_bits 0 d s w AND DRIVE_16MA = min d 3 \<and>
    group_bits 0 d s w AND IS_SCHMITT = (if s = IS_SCHMITT then IS_SCHMITT else 0) \<and>
    group_bits 0 d s w AND SLOW_SLEW = (if w = SLOW_SLEW then SLOW_SLEW else 0)"
proof -
  have "group_bits 0 d s w = group_bits 0 (min d 3) s w" by (simp add: group_bits_def min_def)
  moreover have "min d 3 \<in> {0, 1, 2, 3}" using assms by auto
  ultimately show ?thesis by (auto simp: group_bits_def)
qed

lemma group_bits_4: "group_bits 4 d s w = push_bit 4 (group_bits 0 d s w)"
  by (simp add: group_bits_def push_bit_or)

lemma decode_groups:
  fixes d s w d' s' w' :: int
  assumes "0 \<le> d" and "0 \<le> d'" and
    v: "v = uint (word_of_int (group_bits 0 d s w OR group_bits 4 d' s' w') :: byte)"
  shows "v AND DRIVE_16MA = min d 3"
    and "v AND IS_SCHMITT = (if s = IS_SCHMITT then IS_SCHMITT else 0)"
    and "v AND SLOW_SLEW = (if w = SLOW_SLEW then SLOW_SLEW else 0)"
    and "drop_bit 4 v AND DRIVE_16MA = min d' 3"
    and "drop_bit 4 v AND IS_SCHMITT = (if s' = IS_SCHMITT then IS_SCHMITT else 0)"
    and "drop_bit 4 v AND SLOW_SLEW = (if w' = SLOW_SLEW then SLOW_SLEW else 0)"
proof -
  define x y where "x = group_bits 0 d s w" and "y = group_bits 0 d' s' w'"
  note x = group_nibble [OF assms(1), of s w, folded x_def]
  note y = group_nibble [OF assms(2), of s' w', folded y_def]
  have "take_bit 4 x = x" using x by (simp add: take_bit_int_eq_self)
  then have xy: "x OR push_bit 4 y = x + 16 * y"
    using concat_bit_eq [of 4 x y] by (simp add: concat_bit_def push_bit_eq_mult)
  have small: "uint (word_of_int z :: byte) = z" if "0 \<le> z" "z < 256" for z
    using that by (simp add: uint_word_of_int)
  have v': "v = x + 16 * y"
    unfolding v group_bits_4 x_def [symmetric] y_def [symmetric] xy
    using x y by (intro small) auto
  have dv: "drop_bit 4 v = y" using x by (simp add: v' drop_bit_eq_div)
  have av: "v AND 15 = x"
    using x take_bit_eq_mask [of 4 v] by (simp add: v' mask_eq_exp_minus_1 take_bit_eq_mod)
  have "v AND m = x AND m" if "15 AND m = m" for m
    using av that by (metis and.assoc)
  then have "v AND DRIVE_16MA = x AND DRIVE_16MA" "v AND IS_SCHMITT = x AND IS_SCHMITT"
      "v AND SLOW_SLEW = x AND SLOW_SLEW"
    by simp_all
  then show "v AND DRIVE_16MA = min d 3"
    and "v AND IS_SCHMITT = (if s = IS_SCHMITT then IS_SCHMITT else 0)"
    and "v AND SLOW_SLEW = (if w = SLOW_SLEW then SLOW_SLEW else 0)"
    and "drop_bit 4 v AND DRIVE_16MA = min d' 3"
    and "drop_bit 4 v AND IS_SCHMITT = (if s' = IS_SCHMITT then IS_SCHMITT else 0)"
    and "drop_bit 4 v AND SLOW_SLEW = (if w' = SLOW_SLEW then SLOW_SLEW else 0)"
    using x y by (simp_all only: dv)
qed

lemma sized_groups [simp]:
  "group0_drive (sized e) = group0_drive e" "group0_schmitt (sized e) = group0_schmitt e"
  "group0_slew (sized e) = group0_slew e" "group1_drive (sized e) = group1_drive e"
  "group1_schmitt (sized e) = group1_schmitt e" "group1_slew (sized e) = group1_slew e"
  "group2_drive (sized e) = group2_drive e" "group2_schmitt (sized e) = group2_schmitt e"
  "group2_slew (sized e) = group2_slew e" "group3_drive (sized e) = group3_drive e"
  "group3_schmitt (sized e) = group3_schmitt e" "group3_slew (sized e) = group3_slew e"
  by (simp_all add: sized_def)

text \<open>A pin group decoded from a built image: the drive strength is capped at 16 mA.\<close>

definition group_restored :: "int \<times> int \<times> int \<Rightarrow> int \<times> int \<times> int \<Rightarrow> bool" where
  "group_restored g g' \<longleftrightarrow>
     (case (g, g') of ((d, s, w), (d', s', w')) \<Rightarrow>
        d' = min d 3 \<and> s' = (if s = IS_SCHMITT then IS_SCHMITT else 0) \<and>
        w' = (if w = SLOW_SLEW then SLOW_SLEW else 0))"

text \<open>C7: On the FT2232H and FT4232H the electrical settings of all four pin groups survive
  building and decoding an image: the drive strength (capped at the strongest the chip has),
  the Schmitt trigger and the slew rate of each group come back, without interference between
  the groups that share a byte.\<close>

theorem eeprom_pin_groups:
  assumes "eeprom c = Some e" and "eeprom_ok (ftype c) e" and "\<And>n. alloc n"
    and "ftdi_eeprom_build (Some c, w) = (Ret r, s')" and "0 \<le> r"
    and "ftype c = TYPE_2232H \<or> ftype c = TYPE_4232H"
    and "0 \<le> group0_drive e" "0 \<le> group1_drive e" "0 \<le> group2_drive e" "0 \<le> group3_drive e"
  shows "\<exists>c' e'. ftdi_eeprom_decode alloc s' = (Ret 0, Some c', w) \<and> eeprom c' = Some e' \<and>
    group_restored (group0_drive e, group0_schmitt e, group0_slew e)
      (group0_drive e', group0_schmitt e', group0_slew e') \<and>
    group_restored (group1_drive e, group1_schmitt e, group1_slew e)
      (group1_drive e', group1_schmitt e', group1_slew e') \<and>
    group_restored (group2_drive e, group2_schmitt e, group2_slew e)
      (group2_drive e', group2_schmitt e', group2_slew e') \<and>
    group_restored (group3_drive e, group3_schmitt e, group3_slew e)
      (group3_drive e', group3_schmitt e', group3_slew e')"
proof -
  define b where "b = build_image (ftype c) (sized e)"
  have fit: "strings_fit (ftype c) (nat (eeprom_size (sized e))) (sized e)"
    by (rule build_result [OF assms(1,2,4,5)])
  have len: "length (ebuf (sized e)) = 256" using assms(2) by (simp add: eeprom_ok_def)
  have "0x0c < nat (eeprom_size (sized e)) - 2" "0x0d < nat (eeprom_size (sized e)) - 2"
    using strings_fit_sz [OF fit] by auto
  then have bytes: "byte_at b 0x0c = uint (word_of_int
      (group_bits 0 (group0_drive e) (group0_schmitt e) (group0_slew e) OR
       group_bits 4 (group1_drive e) (group1_schmitt e) (group1_slew e)) :: byte)"
    "byte_at b 0x0d = uint (word_of_int
      (group_bits 0 (group2_drive e) (group2_schmitt e) (group2_slew e) OR
       group_bits 4 (group3_drive e) (group3_schmitt e) (group3_slew e)) :: byte)"
    using image1_groups [OF assms(6) fit len] by (simp_all add: b_def byte_at_def image_nth [OF fit len])
  note groups = decode_groups [OF assms(7,8) bytes(1)] decode_groups [OF assms(9,10) bytes(2)]
  show ?thesis
    unfolding decode_built [where alloc = alloc, OF assms(1-5), folded b_def]
    using assms(6)
    by (elim disjE) (simp_all add: decode_x232h_def Let_def group_restored_def groups
        split del: if_split)
qed

theorem eeprom_pin_groups_witness:
  "\<exists>c' e'. ftdi_eeprom_decode (\<lambda>n. True) (snd (ftdi_eeprom_build (Some eeprom_context, ()))) =
     (Ret 0, Some c', ()) \<and> eeprom c' = Some e' \<and>
     group_restored (2, 0, 0) (group0_drive e', group0_schmitt e', group0_slew e') \<and>
     group_restored (7, 0, 0) (group3_drive e', group3_schmitt e', group3_slew e')"
proof -
  have "eeprom_ok (ftype eeprom_context) sample_eeprom" using sample_eeprom_ok by simp
  from eeprom_pin_groups [OF _ this _ sample_build, of "\<lambda>n. True"] show ?thesis
    by (simp add: sample_eeprom_def zero_eeprom_def) blast
qed

end
