(* ===== verification/Cpp.thy ===== *)
theory Cpp
  imports Prelude
begin

unbundle bit_operations_syntax

text \<open>
  Sequencing of C++ code: an operation on a state of type \<open>'s\<close> maps the state before to its
  outcome and the state after, which is the state at the point of the throw when it ends by an
  exception. \<open>bind_act\<close> and \<open>then_act\<close> run operations one after the other: what follows is
  skipped unless the first returns.
\<close>

section \<open>Operations\<close>

type_synonym ('s, 'a) act = "'s \<Rightarrow> 'a outcome \<times> 's"

definition return_act :: "'a \<Rightarrow> ('s, 'a) act" where
  "return_act x s = (Ret x, s)"

definition throw_act :: "string \<Rightarrow> ('s, 'a) act" where
  "throw_act what s = (Throws what, s)"

definition modify_act :: "('s \<Rightarrow> 's) \<Rightarrow> ('s, unit) act" where
  "modify_act f s = (Ret (), f s)"

definition bind_act :: "('s, 'a) act \<Rightarrow> ('a \<Rightarrow> ('s, 'b) act) \<Rightarrow> ('s, 'b) act" where
  "bind_act m f s =
     (case m s of
        (Ret x, s') \<Rightarrow> f x s'
      | (Throws e, s') \<Rightarrow> (Throws e, s')
      | (Crashes, s') \<Rightarrow> (Crashes, s')
      | (Hangs, s') \<Rightarrow> (Hangs, s'))"

definition then_act :: "('s, unit) act \<Rightarrow> ('s, 'b) act \<Rightarrow> ('s, 'b) act" where
  "then_act m k = bind_act m (\<lambda>_. k)"

text \<open>The operations of a list in order.\<close>

fun run_acts :: "('s, unit) act list \<Rightarrow> ('s, unit) act" where
  "run_acts [] = return_act ()"
| "run_acts (m # ms) = then_act m (run_acts ms)"

text \<open>An operation on a part of the state: \<open>get\<close> reads the part, \<open>put\<close> stores it.\<close>

definition on_part :: "('s \<Rightarrow> 'p) \<Rightarrow> ('p \<Rightarrow> 's \<Rightarrow> 's) \<Rightarrow> ('p, 'a) act \<Rightarrow> ('s, 'a) act" where
  "on_part get put m s = (case m (get s) of (r, p) \<Rightarrow> (r, put p s))"

section \<open>When an operation returns\<close>

lemma return_act_returns [simp]: "return_act x s = (Ret y, s') \<longleftrightarrow> x = y \<and> s = s'"
  by (simp add: return_act_def)

lemma throw_act_returns [simp]: "throw_act e s \<noteq> (Ret y, s')"
  by (simp add: throw_act_def)

lemma modify_act_returns [simp]: "modify_act f s = (Ret u, s') \<longleftrightarrow> s' = f s"
  by (auto simp: modify_act_def)

lemma bind_act_returns [simp]:
  "bind_act m f s = (Ret y, s'') \<longleftrightarrow> (\<exists>x s'. m s = (Ret x, s') \<and> f x s' = (Ret y, s''))"
  by (auto simp: bind_act_def split: prod.splits outcome.splits)

lemma then_act_returns [simp]:
  "then_act m k s = (Ret y, s'') \<longleftrightarrow> (\<exists>s'. m s = (Ret (), s') \<and> k s' = (Ret y, s''))"
  by (simp add: then_act_def)

lemma on_part_returns [simp]:
  "on_part get put m s = (Ret x, s') \<longleftrightarrow> (\<exists>p. m (get s) = (Ret x, p) \<and> s' = put p s)"
  by (auto simp: on_part_def split: prod.splits)

lemma bind_act_Ret: "m s = (Ret x, s') \<Longrightarrow> bind_act m f s = f x s'"
  by (simp add: bind_act_def)

lemma then_act_Ret: "m s = (Ret (), s') \<Longrightarrow> then_act m k s = k s'"
  by (simp add: then_act_def bind_act_def)

lemma then_act_not_Ret:
  assumes "m s = (r, s')" and "\<And>x. r \<noteq> Ret x"
  shows "\<exists>r'. then_act m k s = (r', s') \<and> (\<forall>x. r' \<noteq> Ret x)"
  using assms by (cases r) (auto simp: then_act_def bind_act_def)

section \<open>What every outcome keeps\<close>

text \<open>
  \<open>upholds P m\<close>: started where \<open>P\<close> holds, the operation has no undefined behaviour and \<open>P\<close> holds
  after it, also when it throws.
\<close>

definition upholds :: "('s \<Rightarrow> bool) \<Rightarrow> ('s, 'a) act \<Rightarrow> bool" where
  "upholds P m \<longleftrightarrow> (\<forall>s r s'. P s \<longrightarrow> m s = (r, s') \<longrightarrow> r \<noteq> Crashes \<and> P s')"

lemma upholdsD: "upholds P m \<Longrightarrow> P s \<Longrightarrow> m s = (r, s') \<Longrightarrow> r \<noteq> Crashes \<and> P s'"
  unfolding upholds_def by blast

lemma upholds_return [intro]: "upholds P (return_act x)"
  by (auto simp: upholds_def return_act_def)

lemma upholds_throw [intro]: "upholds P (throw_act e)"
  by (auto simp: upholds_def throw_act_def)

lemma upholds_modify: "(\<And>s. P s \<Longrightarrow> P (f s)) \<Longrightarrow> upholds P (modify_act f)"
  by (auto simp: upholds_def modify_act_def)

lemma upholds_bind:
  assumes "upholds P m" and "\<And>x. upholds P (f x)"
  shows "upholds P (bind_act m f)"
  unfolding upholds_def
proof (intro allI impI)
  fix s r s''
  assume P: "P s" and run: "bind_act m f s = (r, s'')"
  obtain r' s' where m: "m s = (r', s')" by (metis prod.exhaust)
  note k = upholdsD [OF assms(1) P m]
  show "r \<noteq> Crashes \<and> P s''"
  proof (cases r')
    case (Ret x)
    then show ?thesis using run m k upholdsD [OF assms(2)] by (simp add: bind_act_Ret)
  qed (use run m k in \<open>auto simp: bind_act_def\<close>)
qed

lemma upholds_then: "upholds P m \<Longrightarrow> upholds P k \<Longrightarrow> upholds P (then_act m k)"
  unfolding then_act_def by (rule upholds_bind)

lemma upholds_at: "(\<And>s. P s \<Longrightarrow> upholds P (f s)) \<Longrightarrow> upholds P (\<lambda>s. f s s)"
  unfolding upholds_def by blast

lemma upholds_if: "(b \<Longrightarrow> upholds P m) \<Longrightarrow> (\<not> b \<Longrightarrow> upholds P k) \<Longrightarrow> upholds P (if b then m else k)"
  by simp

lemma upholds_prod: "(\<And>a b. p = (a, b) \<Longrightarrow> upholds P (f a b)) \<Longrightarrow> upholds P (case p of (a, b) \<Rightarrow> f a b)"
  by (cases p) simp

lemma upholds_option:
  "(x = None \<Longrightarrow> upholds P m) \<Longrightarrow> (\<And>y. x = Some y \<Longrightarrow> upholds P (f y)) \<Longrightarrow>
   upholds P (case x of None \<Rightarrow> m | Some y \<Rightarrow> f y)"
  by (cases x) simp_all

lemmas upholds_rules = upholds_return upholds_throw upholds_bind upholds_then upholds_if upholds_prod upholds_option

text \<open>\<open>returns P m\<close>: started where \<open>P\<close> holds, the operation returns, and \<open>P\<close> holds then.\<close>

definition returns :: "('s \<Rightarrow> bool) \<Rightarrow> ('s, 'a) act \<Rightarrow> bool" where
  "returns P m \<longleftrightarrow> (\<forall>s. P s \<longrightarrow> (\<exists>x s'. m s = (Ret x, s') \<and> P s'))"

lemma returnsE:
  assumes "returns P m" and "P s"
  obtains x s' where "m s = (Ret x, s')" and "P s'"
  using assms unfolding returns_def by blast

lemma returns_return: "returns P (return_act x)"
  by (simp add: returns_def return_act_def)

lemma returns_modify: "(\<And>s. P s \<Longrightarrow> P (f s)) \<Longrightarrow> returns P (modify_act f)"
  by (simp add: returns_def modify_act_def)

lemma returns_bind:
  assumes "returns P m" and "\<And>x. returns P (f x)"
  shows "returns P (bind_act m f)"
  unfolding returns_def
proof (intro allI impI)
  fix s assume "P s"
  with assms(1) obtain x s' where 1: "m s = (Ret x, s')" and "P s'" by (rule returnsE)
  from assms(2) [of x] \<open>P s'\<close> obtain y s'' where "f x s' = (Ret y, s'')" and "P s''" by (rule returnsE)
  with 1 show "\<exists>y s''. bind_act m f s = (Ret y, s'') \<and> P s''" by (simp add: bind_act_Ret)
qed

lemma returns_then: "returns P m \<Longrightarrow> returns P k \<Longrightarrow> returns P (then_act m k)"
  unfolding then_act_def by (rule returns_bind)

lemma returns_if: "(b \<Longrightarrow> returns P m) \<Longrightarrow> (\<not> b \<Longrightarrow> returns P k) \<Longrightarrow> returns P (if b then m else k)"
  by simp

lemma returns_run: "(\<And>m. m \<in> set ms \<Longrightarrow> returns P m) \<Longrightarrow> returns P (run_acts ms)"
  by (induction ms) (simp_all add: returns_return returns_then)

lemma returns_at: "(\<And>s. P s \<Longrightarrow> returns P (f s)) \<Longrightarrow> (\<And>s. m s = f s s) \<Longrightarrow> returns P m"
  unfolding returns_def by simp

lemmas returns_rules = returns_return returns_bind returns_then returns_if

section \<open>Bits of a byte buffer\<close>

text \<open>Bit \<open>i\<close> of a buffer, the least significant bit of a byte first.\<close>

definition bit_at :: "byte list \<Rightarrow> nat \<Rightarrow> bool" where
  "bit_at b i = bit (b ! (i div 8)) (i mod 8)"

definition bits_of :: "byte list \<Rightarrow> nat \<Rightarrow> bool list" where
  "bits_of b n = map (bit_at b) [0..<n]"

lemma length_bits_of [simp]: "length (bits_of b n) = n"
  by (simp add: bits_of_def)

lemma bits_of_0 [simp]: "bits_of b 0 = []"
  by (simp add: bits_of_def)

lemma bits_of_Suc: "bits_of b (Suc n) = bits_of b n @ [bit_at b n]"
  by (simp add: bits_of_def)

text \<open>The bits of a buffer from a byte boundary on.\<close>

lemma bit_at_drop: "k * 8 + i < 8 * length b \<Longrightarrow> bit_at (drop k b) i = bit_at b (k * 8 + i)"
  by (simp add: bit_at_def)

lemma bit_at_take: "i < 8 * k \<Longrightarrow> bit_at (take k b) i = bit_at b i"
  by (simp add: bit_at_def)

lemma bits_of_split:
  assumes "k * 8 + n \<le> 8 * length b"
  shows "bits_of b (k * 8 + n) = bits_of (take k b) (k * 8) @ bits_of (drop k b) n"
proof (rule nth_equalityI)
  fix i assume "i < length (bits_of b (k * 8 + n))"
  then show "bits_of b (k * 8 + n) ! i = (bits_of (take k b) (k * 8) @ bits_of (drop k b) n) ! i"
    using assms bit_at_drop [of k "i - k * 8" b] bit_at_take [of i k b]
    by (cases "i < k * 8") (simp_all add: bits_of_def nth_append)
qed simp

end
