(* ===== verification/Iobase.thy ===== *)
theory Iobase
  imports Cpp
begin

unbundle bit_operations_syntax

text \<open>
  The cable base class (\<open>src/devices/xc3sprog/iobase.cpp\<close>): TMS values are collected in a
  buffer of \<open>CHUNK_SIZE\<close> bytes; every shift of data flushes it first. The pure virtual functions
  a cable implements are the fields of a record over the state \<open>'s\<close> of the cable.
\<close>

section \<open>State and virtual functions\<close>

abbreviation (input) CHUNK_SIZE :: nat where "CHUNK_SIZE \<equiv> 128"

text \<open>
  \<open>txrx_block(tdi, tdo, length, last)\<close> with NULL pointers as \<open>None\<close>; the result is the content
  of the \<open>tdo\<close> buffer after the call. \<open>tx_tms(pat, length, force)\<close>.
\<close>

record 's cable =
  cb_txrx :: "byte list option \<Rightarrow> byte list option \<Rightarrow> nat \<Rightarrow> bool \<Rightarrow> ('s, byte list option) act"
  cb_tms :: "byte list \<Rightarrow> nat \<Rightarrow> bool \<Rightarrow> ('s, unit) act"
  cb_usleep :: "nat \<Rightarrow> ('s, unit) act"

record 's iobase =
  tms_buf :: "byte list"
  tms_len :: nat
  drv :: 's

abbreviation (input) zeros :: "byte list" where "zeros \<equiv> replicate CHUNK_SIZE 0"
abbreviation (input) ones :: "byte list" where "ones \<equiv> replicate CHUNK_SIZE 0xff"

definition iobase_init :: "'s \<Rightarrow> 's iobase" where
  "iobase_init d = \<lparr>tms_buf = zeros, tms_len = 0, drv = d\<rparr>"

definition on_drv :: "('s, 'a) act \<Rightarrow> ('s iobase, 'a) act" where
  "on_drv = on_part drv (\<lambda>d s. s\<lparr>drv := d\<rparr>)"

section \<open>Operations\<close>

definition flush_tms :: "'s cable \<Rightarrow> bool \<Rightarrow> ('s iobase, unit) act" where
  "flush_tms D force s =
     then_act (if tms_len s \<noteq> 0 then on_drv (cb_tms D (tms_buf s) (tms_len s) force) else return_act ())
       (modify_act (\<lambda>s. s\<lparr>tms_buf := zeros, tms_len := 0\<rparr>)) s"

definition put_tms :: "bool \<Rightarrow> 's iobase \<Rightarrow> 's iobase" where
  "put_tms val s =
     s\<lparr>tms_buf := (if val then (tms_buf s)[tms_len s div 8 :=
                                   (tms_buf s ! (tms_len s div 8)) OR push_bit (tms_len s mod 8) 1]
                   else tms_buf s),
       tms_len := tms_len s + 1\<rparr>"

definition set_tms :: "'s cable \<Rightarrow> bool \<Rightarrow> ('s iobase, unit) act" where
  "set_tms D val s =
     then_act (if tms_len s + 1 > CHUNK_SIZE * 8 then flush_tms D False else return_act ())
       (modify_act (put_tms val)) s"

definition shiftTDITDO ::
  "'s cable \<Rightarrow> byte list option \<Rightarrow> byte list option \<Rightarrow> nat \<Rightarrow> bool \<Rightarrow> ('s iobase, byte list option) act"
where
  "shiftTDITDO D tdi tdo len final =
     (if len = 0 then return_act tdo
      else bind_act (flush_tms D False) (\<lambda>_. on_drv (cb_txrx D tdi tdo len final)))"

definition shiftTDI :: "'s cable \<Rightarrow> byte list option \<Rightarrow> nat \<Rightarrow> bool \<Rightarrow> ('s iobase, unit) act" where
  "shiftTDI D tdi len final = bind_act (shiftTDITDO D tdi None len final) (\<lambda>_. return_act ())"

definition shiftTDO :: "'s cable \<Rightarrow> byte list option \<Rightarrow> nat \<Rightarrow> bool \<Rightarrow> ('s iobase, byte list option) act" where
  "shiftTDO D tdo len final = shiftTDITDO D None tdo len final"

text \<open>The loop of \<open>shift\<close> over blocks of \<open>CHUNK_SIZE\<close> bytes, and the rest.\<close>

function shift_loop :: "'s cable \<Rightarrow> byte list \<Rightarrow> nat \<Rightarrow> bool \<Rightarrow> ('s iobase, unit) act" where
  "shift_loop D block len final s =
     (if len > CHUNK_SIZE * 8 then
        (case on_drv (cb_txrx D (Some block) None (CHUNK_SIZE * 8) False) s of
           (Ret _, s') \<Rightarrow> shift_loop D block (len - CHUNK_SIZE * 8) final s'
         | (Throws e, s') \<Rightarrow> (Throws e, s')
         | (Crashes, s') \<Rightarrow> (Crashes, s')
         | (Hangs, s') \<Rightarrow> (Hangs, s'))
      else shiftTDI D (Some block) len final s)"
  by pat_completeness auto
termination by (relation "measure (\<lambda>(D, block, len, final, s). len)") auto

declare shift_loop.simps [simp del]

definition shift :: "'s cable \<Rightarrow> bool \<Rightarrow> nat \<Rightarrow> bool \<Rightarrow> ('s iobase, unit) act" where
  "shift D tdi len final =
     then_act (flush_tms D False) (shift_loop D (if tdi then ones else zeros) len final)"

text \<open>
  The virtual \<open>Usleep\<close> as the cable overrides it: it flushes the TMS values first, \<open>cb_usleep\<close> is
  the rest.
\<close>

definition io_Usleep :: "'s cable \<Rightarrow> nat \<Rightarrow> ('s iobase, unit) act" where
  "io_Usleep D usec = then_act (flush_tms D False) (on_drv (cb_usleep D usec))"

end
