(* ===== verification/Tap.thy ===== *)
theory Tap
  imports Iobase
begin

text \<open>
  What a cable does to the JTAG chain, as its users see it: the clock cycles with the levels of
  TMS and TDI, and the TAP controller of IEEE 1149.1 they drive. The locale \<open>jtag_cable\<close> is the
  contract of a cable: the clock cycles its two virtual functions make.
\<close>

section \<open>The TAP controller\<close>

datatype tapState_t =
    TEST_LOGIC_RESET | RUN_TEST_IDLE
  | SELECT_DR_SCAN | CAPTURE_DR | SHIFT_DR | EXIT1_DR | PAUSE_DR | EXIT2_DR | UPDATE_DR
  | SELECT_IR_SCAN | CAPTURE_IR | SHIFT_IR | EXIT1_IR | PAUSE_IR | EXIT2_IR | UPDATE_IR
  | UNKNOWN

text \<open>
  The state after a clock cycle with the given level of TMS (IEEE 1149.1, figure 6-1). The
  controller itself is never in \<open>UNKNOWN\<close>.
\<close>

fun tap_next :: "bool \<Rightarrow> tapState_t \<Rightarrow> tapState_t" where
  "tap_next tms TEST_LOGIC_RESET = (if tms then TEST_LOGIC_RESET else RUN_TEST_IDLE)"
| "tap_next tms RUN_TEST_IDLE = (if tms then SELECT_DR_SCAN else RUN_TEST_IDLE)"
| "tap_next tms SELECT_DR_SCAN = (if tms then SELECT_IR_SCAN else CAPTURE_DR)"
| "tap_next tms CAPTURE_DR = (if tms then EXIT1_DR else SHIFT_DR)"
| "tap_next tms SHIFT_DR = (if tms then EXIT1_DR else SHIFT_DR)"
| "tap_next tms EXIT1_DR = (if tms then UPDATE_DR else PAUSE_DR)"
| "tap_next tms PAUSE_DR = (if tms then EXIT2_DR else PAUSE_DR)"
| "tap_next tms EXIT2_DR = (if tms then UPDATE_DR else SHIFT_DR)"
| "tap_next tms UPDATE_DR = (if tms then SELECT_DR_SCAN else RUN_TEST_IDLE)"
| "tap_next tms SELECT_IR_SCAN = (if tms then TEST_LOGIC_RESET else CAPTURE_IR)"
| "tap_next tms CAPTURE_IR = (if tms then EXIT1_IR else SHIFT_IR)"
| "tap_next tms SHIFT_IR = (if tms then EXIT1_IR else SHIFT_IR)"
| "tap_next tms EXIT1_IR = (if tms then UPDATE_IR else PAUSE_IR)"
| "tap_next tms PAUSE_IR = (if tms then EXIT2_IR else PAUSE_IR)"
| "tap_next tms EXIT2_IR = (if tms then UPDATE_IR else SHIFT_IR)"
| "tap_next tms UPDATE_IR = (if tms then SELECT_DR_SCAN else RUN_TEST_IDLE)"
| "tap_next tms UNKNOWN = UNKNOWN"

text \<open>A clock cycle: the level of TMS, and that of TDI (\<open>None\<close> where the cable leaves it open).\<close>

type_synonym clk = "bool \<times> bool option"

fun tap_run :: "tapState_t \<Rightarrow> clk list \<Rightarrow> tapState_t" where
  "tap_run s [] = s"
| "tap_run s (c # cs) = tap_run (tap_next (fst c) s) cs"

lemma tap_run_append [simp]: "tap_run s (cs @ ds) = tap_run (tap_run s cs) ds"
  by (induction cs arbitrary: s) simp_all

lemma tap_next_known [simp]: "tap_next b s = UNKNOWN \<longleftrightarrow> s = UNKNOWN"
  by (cases s) auto

lemma tap_run_known [simp]: "tap_run s cs = UNKNOWN \<longleftrightarrow> s = UNKNOWN"
  by (induction cs arbitrary: s) simp_all

text \<open>Five cycles with TMS high reset the controller, whatever state it is in.\<close>

lemma tap_five_ones:
  "s \<noteq> UNKNOWN \<Longrightarrow>
   tap_next True (tap_next True (tap_next True (tap_next True (tap_next True s)))) = TEST_LOGIC_RESET"
  by (cases s) simp_all

text \<open>The bits a data or instruction register takes in: TDI while the controller is in \<open>sh\<close>.\<close>

fun shifted_in :: "tapState_t \<Rightarrow> tapState_t \<Rightarrow> clk list \<Rightarrow> bool option list" where
  "shifted_in sh s [] = []"
| "shifted_in sh s (c # cs) =
     (if s = sh then [snd c] else []) @ shifted_in sh (tap_next (fst c) s) cs"

lemma shifted_in_append [simp]:
  "shifted_in sh s (cs @ ds) = shifted_in sh s cs @ shifted_in sh (tap_run s cs) ds"
  by (induction cs arbitrary: s) simp_all

text \<open>The states the controller stays in while TMS keeps its level.\<close>

definition stable :: "tapState_t \<Rightarrow> bool" where
  "stable s \<longleftrightarrow> s \<in> {TEST_LOGIC_RESET, RUN_TEST_IDLE, SHIFT_DR, PAUSE_DR, SHIFT_IR, PAUSE_IR}"

definition stays :: "tapState_t \<Rightarrow> bool \<Rightarrow> bool" where
  "stays s level \<longleftrightarrow> (stable s \<longrightarrow> level = (s = TEST_LOGIC_RESET))"

lemma stays_next: "s \<noteq> UNKNOWN \<Longrightarrow> stays (tap_next b s) b"
  by (cases s) (auto simp: stays_def stable_def)

lemma stable_next: "stable s \<Longrightarrow> stays s b \<Longrightarrow> tap_next b s = s"
  by (cases s) (auto simp: stays_def stable_def)

section \<open>Clock cycles of the shifts\<close>

text \<open>The level TMS keeps after a run: that of the last cycle; it starts low.\<close>

definition held :: "clk list \<Rightarrow> bool" where
  "held cs = (cs \<noteq> [] \<and> fst (last cs))"

definition tms_clocks :: "bool list \<Rightarrow> clk list" where
  "tms_clocks = map (\<lambda>b. (b, Some True))"

text \<open>
  Cycles with data on TDI while TMS keeps its level; it goes high in the last one if \<open>final\<close>.
  Then TDI is driven in the last one even where there is no data: it is low.
\<close>

definition data_clocks :: "bool \<Rightarrow> bool option list \<Rightarrow> bool \<Rightarrow> clk list" where
  "data_clocks level ds final =
     (if final \<and> ds \<noteq> [] then map (Pair level) (butlast ds) @ [(True, Some (last ds = Some True))]
      else map (Pair level) ds)"

definition tdi_bits :: "byte list option \<Rightarrow> nat \<Rightarrow> bool option list" where
  "tdi_bits tdi n = (case tdi of None \<Rightarrow> replicate n None | Some b \<Rightarrow> map Some (bits_of b n))"

lemma length_tdi_bits [simp]: "length (tdi_bits tdi n) = n"
  by (simp add: tdi_bits_def split: option.split)

lemma tdi_bits_0 [simp]: "tdi_bits tdi 0 = []"
  by (simp add: tdi_bits_def split: option.split)

lemma data_clocks_Nil [simp]: "data_clocks level [] final = []"
  by (simp add: data_clocks_def)

lemma data_clocks_append:
  "ds \<noteq> [] \<Longrightarrow> data_clocks level (cs @ ds) final = data_clocks level cs False @ data_clocks level ds final"
  by (simp add: data_clocks_def butlast_append)

lemma tms_clocks_simps [simp]:
  "tms_clocks [] = []" "tms_clocks (b # bs) = (b, Some True) # tms_clocks bs"
  "tms_clocks (bs @ cs) = tms_clocks bs @ tms_clocks cs"
  by (simp_all add: tms_clocks_def)

lemma held_simps [simp]:
  "held [] = False" "held (cs @ [c]) = fst c"
  "held (cs @ tms_clocks (bs @ [b])) = b"
  "held (cs @ map (Pair level) ds) = (if ds = [] then held cs else level)"
  by (simp_all add: held_def tms_clocks_def last_map)

lemma held_data [simp]:
  "held (cs @ data_clocks level ds False) = (if ds = [] then held cs else level)"
  by (simp add: data_clocks_def)

lemma tap_run_level: "stable s \<Longrightarrow> stays s level \<Longrightarrow> tap_run s (map (Pair level) ds) = s"
  by (induction ds) (simp_all add: stable_next)

lemma tap_run_data [simp]:
  "tap_run SHIFT_DR (data_clocks False ds final) = (if final \<and> ds \<noteq> [] then EXIT1_DR else SHIFT_DR)"
  "tap_run SHIFT_IR (data_clocks False ds final) = (if final \<and> ds \<noteq> [] then EXIT1_IR else SHIFT_IR)"
  by (auto simp: data_clocks_def tap_run_level stable_def stays_def)

lemma shifted_in_level:
  "stable s \<Longrightarrow> stays s level \<Longrightarrow> shifted_in s s (map (Pair level) ds) = ds"
  by (induction ds) (simp_all add: stable_next)

definition driven :: "bool option list \<Rightarrow> bool \<Rightarrow> bool option list" where
  "driven ds final = (if final \<and> ds \<noteq> [] then butlast ds @ [Some (last ds = Some True)] else ds)"

lemma driven_known [simp]:
  "driven (map Some bs) final = map Some bs"
proof (cases bs rule: rev_cases)
  case (snoc cs b)
  then show ?thesis by (cases b) (simp_all add: driven_def butlast_append)
qed (simp add: driven_def)

lemma shifted_in_data [simp]:
  "shifted_in SHIFT_DR SHIFT_DR (data_clocks False ds final) = driven ds final"
  "shifted_in SHIFT_IR SHIFT_IR (data_clocks False ds final) = driven ds final"
  by (auto simp: data_clocks_def driven_def shifted_in_level tap_run_level stable_def stays_def)

end
