(* ===== verification/Mpsse.thy ===== *)
theory Mpsse
  imports Tap
begin

unbundle bit_operations_syntax

text \<open>
  The multi-protocol engine of the FTDI chips, as far as the commands of this program go (FTDI
  application note AN108): which clock cycles a stream of command bytes makes. It is the
  specification the output of \<open>ioftdi.cpp\<close> is checked against, not code of the repository.
\<close>

section \<open>Commands\<close>

text \<open>
  What a command does to the pins: set the level of TMS, or make a clock cycle, which may set
  TMS (\<open>None\<close>: it keeps its level) and TDI (\<open>None\<close>: not driven by the command).
\<close>

datatype pin_op = Level bool | Cycle "bool option" "bool option"

definition arg16 :: "byte \<Rightarrow> byte \<Rightarrow> nat" where
  "arg16 lo hi = unat lo + 256 * unat hi"

text \<open>
  The length of the first command of a stream, \<open>None\<close> if the stream ends before its length is
  known or the code is not one of the program's.
\<close>

fun cmd_len :: "byte list \<Rightarrow> nat option" where
  "cmd_len [] = None"
| "cmd_len (c # args) =
     (if c \<in> {0x84, 0x85, 0x87, 0x8a} then Some 1
      else if c \<in> {0x2f, 0x8e} then Some 2
      else if c \<in> {0x80, 0x82, 0x86, 0x8f, 0x1b, 0x3f, 0x2d, 0x4b, 0x6f} then Some 3
      else if c \<in> {0x19, 0x3d} then
        (case args of lo # hi # _ \<Rightarrow> Some (4 + arg16 lo hi) | _ \<Rightarrow> None)
      else None)"

fun cmd_ops :: "byte list \<Rightarrow> pin_op list" where
  "cmd_ops (c # a # args) =
     (if c = 0x80 then [Level (bit a 3)]
      else if c \<in> {0x2f, 0x8e} then replicate (unat a + 1) (Cycle None None)
      else if c = 0x8f then replicate ((arg16 a (hd args) + 1) * 8) (Cycle None None)
      else if c = 0x2d then replicate ((arg16 a (hd args) + 1) * 8) (Cycle None None)
      else if c \<in> {0x1b, 0x3f} then
        map (\<lambda>i. Cycle None (Some (bit (hd args) i))) [0..<unat a + 1]
      else if c \<in> {0x4b, 0x6f} then
        map (\<lambda>i. Cycle (Some (bit (hd args) i)) (Some (bit (hd args) 7))) [0..<unat a + 1]
      else if c \<in> {0x19, 0x3d} then
        map (\<lambda>b. Cycle None (Some b)) (bits_of (tl args) ((arg16 a (hd args) + 1) * 8))
      else [])"
| "cmd_ops _ = []"

text \<open>The pin operations of a stream, \<open>None\<close> if it does not consist of whole commands.\<close>

function mpsse_ops :: "byte list \<Rightarrow> pin_op list option" where
  "mpsse_ops xs =
     (if xs = [] then Some []
      else
        (case cmd_len xs of
           None \<Rightarrow> None
         | Some n \<Rightarrow>
             if length xs < n \<or> n = 0 then None
             else map_option ((@) (cmd_ops (take n xs))) (mpsse_ops (drop n xs))))"
  by pat_completeness auto
termination by (relation "measure length") auto

declare mpsse_ops.simps [simp del]

lemma mpsse_ops_Nil [simp]: "mpsse_ops [] = Some []"
  by (simp add: mpsse_ops.simps)

lemma cmd_len_append: "cmd_len xs = Some n \<Longrightarrow> cmd_len (xs @ ys) = Some n"
proof (cases xs)
  case (Cons c args)
  assume n: "cmd_len xs = Some n"
  show ?thesis
  proof (cases "c \<in> {0x19, 0x3d}")
    case True
    with n Cons obtain lo hi rest where "args = lo # hi # rest"
      by (auto split: list.splits)
    then have "cmd_len (xs @ ys) = cmd_len xs" using Cons by simp
    then show ?thesis using n by simp
  next
    case False
    then have "cmd_len (xs @ ys) = cmd_len xs" using Cons by simp
    then show ?thesis using n by simp
  qed
qed simp

lemma mpsse_ops_append:
  "mpsse_ops xs = Some a \<Longrightarrow> mpsse_ops (xs @ ys) = map_option ((@) a) (mpsse_ops ys)"
proof (induction xs arbitrary: a rule: mpsse_ops.induct)
  case (1 xs)
  show ?case
  proof (cases "xs = []")
    case True
    then show ?thesis using 1(2) by (simp add: option.map_id0 [unfolded id_def])
  next
    case False
    with 1(2) obtain n b where n: "cmd_len xs = Some n" "n \<le> length xs" "n \<noteq> 0"
        and b: "mpsse_ops (drop n xs) = Some b" "a = cmd_ops (take n xs) @ b"
      by (subst (asm) mpsse_ops.simps) (auto split: option.splits if_splits)
    have "mpsse_ops (drop n xs @ ys) = map_option ((@) b) (mpsse_ops ys)"
      using 1(1) [OF False n(1) _ b(1)] n by simp
    then show ?thesis
      using False n b(2) cmd_len_append [OF n(1), of ys]
      by (subst mpsse_ops.simps) (cases "mpsse_ops ys"; simp)
  qed
qed

lemma mpsse_ops_append_Some:
  "mpsse_ops xs = Some a \<Longrightarrow> mpsse_ops ys = Some b \<Longrightarrow> mpsse_ops (xs @ ys) = Some (a @ b)"
  by (simp add: mpsse_ops_append)

lemma mpsse_ops_cmd:
  "cmd_len xs = Some (length xs) \<Longrightarrow> mpsse_ops xs = Some (cmd_ops xs)"
  by (cases "xs = []") (simp_all add: mpsse_ops.simps [of xs])

section \<open>Clock cycles\<close>

fun pin_clocks :: "bool \<Rightarrow> pin_op list \<Rightarrow> clk list" where
  "pin_clocks level [] = []"
| "pin_clocks level (Level b # ops) = pin_clocks b ops"
| "pin_clocks level (Cycle t d # ops) =
     (let b = (case t of None \<Rightarrow> level | Some b \<Rightarrow> b) in (b, d) # pin_clocks b ops)"

fun pin_level :: "bool \<Rightarrow> pin_op list \<Rightarrow> bool" where
  "pin_level level [] = level"
| "pin_level level (Level b # ops) = pin_level b ops"
| "pin_level level (Cycle t d # ops) = pin_level (case t of None \<Rightarrow> level | Some b \<Rightarrow> b) ops"

lemma pin_clocks_append:
  "pin_clocks level (xs @ ys) = pin_clocks level xs @ pin_clocks (pin_level level xs) ys"
  by (induction level xs rule: pin_clocks.induct) (simp_all add: Let_def)

lemma pin_level_append: "pin_level level (xs @ ys) = pin_level (pin_level level xs) ys"
  by (induction level xs rule: pin_level.induct) simp_all

text \<open>Once a command made a clock cycle, TMS has the level of the last one.\<close>

lemma pin_clocks_Nil: "(\<And>b. Level b \<notin> set ops) \<Longrightarrow> pin_clocks level ops = [] \<longleftrightarrow> ops = []"
  by (cases "(level, ops)" rule: pin_clocks.cases) (auto simp: Let_def)

lemma pin_level_held:
  "(\<And>b. Level b \<notin> set ops) \<Longrightarrow> pin_level level ops = (if ops = [] then level else held (pin_clocks level ops))"
proof (induction ops arbitrary: level)
  case (Cons p ops)
  then obtain t d where p: "p = Cycle t d" by (cases p) auto
  let ?b = "case t of None \<Rightarrow> level | Some b \<Rightarrow> b"
  have "pin_clocks ?b ops = [] \<longleftrightarrow> ops = []" using Cons.prems by (intro pin_clocks_Nil) auto
  moreover have "pin_level ?b ops = (if ops = [] then ?b else held (pin_clocks ?b ops))"
    using Cons.prems by (intro Cons.IH) auto
  ultimately show ?case by (auto simp: p held_def Let_def)
qed simp

lemma pin_clocks_tms:
  "pin_clocks level (map (\<lambda>b. Cycle (Some b) (Some True)) bs) = tms_clocks bs"
  by (induction bs arbitrary: level) simp_all

lemma pin_clocks_data: "pin_clocks level (map (Cycle None) ds) = map (Pair level) ds"
  by (induction ds) simp_all

lemma pin_level_tms:
  "pin_level level (map (\<lambda>b. Cycle (Some b) d) bs) = (if bs = [] then level else last bs)"
  by (induction bs arbitrary: level) simp_all

lemma pin_level_data [simp]: "pin_level level (map (Cycle None) ds) = level"
  by (induction ds) simp_all

end
