(* ===== verification/Ioftdi.thy ===== *)
theory Ioftdi
  imports Mpsse Ftdi_Open Ftdi_Data "HOL-Library.Signed_Division"
begin

unbundle bit_operations_syntax

text \<open>
  The FTDI cable (\<open>src/devices/xc3sprog/ioftdi.h\<close>, \<open>ioftdi.cpp\<close>, built without
  \<open>USE_FTD2XX\<close>): the command buffer for the MPSSE engine, the commands for TMS and data shifts,
  reading back, opening and closing. Debug output is left out.
\<close>

section \<open>State\<close>

abbreviation (input) TX_BUF :: nat where "TX_BUF \<equiv> 4096"

text \<open>
  What the code relies on besides libusb: \<open>errno\<close> as the last system call left it,
  \<open>strerror\<close>, and the content of the uninitialised buffer \<open>rbuf\<close> on the stack.
\<close>

record 'w io_env =
  ev_usb :: "'w libusb"
  ev_errno :: "'w \<Rightarrow> int"
  ev_strerror :: "int \<Rightarrow> string"
  ev_stack :: "byte list"

text \<open>
  \<open>handle\<close> is the context \<open>ftdi_handle\<close> points to and the bus; \<open>usbuf\<close> the first \<open>bptr\<close> bytes
  of the buffer of that name.
\<close>

record 'w ioftdi =
  ftdi_handle :: "'w st"
  usbuf :: "byte list"
  calls_rd :: nat
  calls_wr :: nat
  retries :: nat
  device_has_fast_clock :: bool
  tck_freq :: u32

definition ioftdi_blank :: "'w \<Rightarrow> 'w ioftdi" where
  "ioftdi_blank w =
     \<lparr>ftdi_handle = (None, w), usbuf = [], calls_rd = 0, calls_wr = 0, retries = 0,
      device_has_fast_clock = True, tck_freq = 30000000\<rparr>"

abbreviation bptr :: "'w ioftdi \<Rightarrow> nat" where "bptr s \<equiv> length (usbuf s)"

abbreviation (input) MPSSE_WRITE_NEG :: byte where "MPSSE_WRITE_NEG \<equiv> 0x01"
abbreviation (input) MPSSE_BITMODE :: byte where "MPSSE_BITMODE \<equiv> 0x02"
abbreviation (input) MPSSE_READ_NEG :: byte where "MPSSE_READ_NEG \<equiv> 0x04"
abbreviation (input) MPSSE_LSB :: byte where "MPSSE_LSB \<equiv> 0x08"
abbreviation (input) MPSSE_DO_WRITE :: byte where "MPSSE_DO_WRITE \<equiv> 0x10"
abbreviation (input) MPSSE_DO_READ :: byte where "MPSSE_DO_READ \<equiv> 0x20"
abbreviation (input) MPSSE_WRITE_TMS :: byte where "MPSSE_WRITE_TMS \<equiv> 0x40"
abbreviation (input) SET_BITS_LOW :: byte where "SET_BITS_LOW \<equiv> 0x80"
abbreviation (input) SET_BITS_HIGH :: byte where "SET_BITS_HIGH \<equiv> 0x82"
abbreviation (input) LOOPBACK_START :: byte where "LOOPBACK_START \<equiv> 0x84"
abbreviation (input) LOOPBACK_END :: byte where "LOOPBACK_END \<equiv> 0x85"
abbreviation (input) TCK_DIVISOR :: byte where "TCK_DIVISOR \<equiv> 0x86"
abbreviation (input) SEND_IMMEDIATE :: byte where "SEND_IMMEDIATE \<equiv> 0x87"
abbreviation (input) DIS_DIV_5 :: byte where "DIS_DIV_5 \<equiv> 0x8a"

section \<open>The command buffer\<close>

definition mpsse_send :: "'w io_env \<Rightarrow> ('w ioftdi, unit) act" where
  "mpsse_send E s =
     (if usbuf s = [] then (Ret (), s)
      else
        (case ftdi_write_data (ev_usb E) (usbuf s) (int (bptr s)) (ftdi_handle s) of
           None \<Rightarrow> (Hangs, s\<lparr>calls_wr := calls_wr s + 1\<rparr>)
         | Some (written, h) \<Rightarrow>
             (let s1 = s\<lparr>calls_wr := calls_wr s + 1, ftdi_handle := h\<rparr> in
              if written \<noteq> int (bptr s) then
                (case ftdi_get_error_string h of
                   None \<Rightarrow> (Crashes, s1)
                 | Some str \<Rightarrow> (Throws str, s1))
              else (Ret (), s1\<lparr>usbuf := []\<rparr>))))"

definition put_cmd :: "byte list \<Rightarrow> ('w ioftdi, unit) act" where
  "put_cmd buf s =
     (if bptr s + length buf > TX_BUF then (Crashes, s) else (Ret (), s\<lparr>usbuf := usbuf s @ buf\<rparr>))"

definition mpsse_add_cmd :: "'w io_env \<Rightarrow> byte list \<Rightarrow> ('w ioftdi, unit) act" where
  "mpsse_add_cmd E buf s =
     then_act (if bptr s + length buf + 1 \<ge> TX_BUF then mpsse_send E else return_act ()) (put_cmd buf) s"

section \<open>Reading\<close>

definition read_ftdi :: "'w io_env \<Rightarrow> nat \<Rightarrow> ('w ioftdi, int \<times> byte list) act" where
  "read_ftdi E len = on_part ftdi_handle (\<lambda>h s. s\<lparr>ftdi_handle := h\<rparr>) (ftdi_read_data (ev_usb E) len)"

text \<open>
  The loop of \<open>readusb\<close> with \<open>n\<close> retries left: \<open>acc\<close> are the bytes read so far. The result also
  holds \<open>last_read\<close>, \<open>last_errno\<close> and the retries left.
\<close>

fun read_retry ::
  "'w io_env \<Rightarrow> nat \<Rightarrow> nat \<Rightarrow> byte list \<Rightarrow> int \<Rightarrow> int \<Rightarrow> ('w ioftdi, byte list \<times> int \<times> int \<times> nat) act"
where
  "read_retry E 0 len acc last_read last_errno = return_act (acc, last_read, last_errno, 0)"
| "read_retry E (Suc n) len acc last_read last_errno =
     (if length acc < len then
        then_act (modify_act (\<lambda>s. s\<lparr>retries := retries s + 1\<rparr>))
          (bind_act (read_ftdi E (len - length acc))
            (\<lambda>(got, out) s.
               if got > 0 then read_retry E n len (acc @ out) got 0 s
               else read_retry E n len acc got (ev_errno E (snd (ftdi_handle s))) s))
      else return_act (acc, last_read, last_errno, Suc n))"

text \<open>\<open>readusb\<close>: the bytes stored in \<open>rbuf\<close>, fewer than \<open>len\<close> after a timeout.\<close>

definition readusb :: "'w io_env \<Rightarrow> nat \<Rightarrow> ('w ioftdi, byte list) act" where
  "readusb E len =
     then_act (mpsse_add_cmd E [SEND_IMMEDIATE])
       (then_act (mpsse_send E)
         (then_act (modify_act (\<lambda>s. s\<lparr>calls_rd := calls_rd s + 1\<rparr>))
           (bind_act (read_ftdi E len)
             (\<lambda>(got, out).
                bind_act (read_retry E 1000 len (if got > 0 then out else []) got 0)
                  (\<lambda>(acc, last_read, last_errno, left).
                     if left = 0 \<and> last_errno \<noteq> 0 then throw_act (ev_strerror E last_errno)
                     else if last_read < 0 then throw_act (ev_strerror E (- last_read))
                     else return_act acc)))))"

section \<open>Shifting TMS\<close>

text \<open>The data byte of a TMS command: \<open>n\<close> bits of the pattern from bit \<open>k\<close> on, and TDI high.\<close>

definition tms_byte :: "byte list \<Rightarrow> nat \<Rightarrow> nat \<Rightarrow> byte" where
  "tms_byte pat k n =
     fold (\<lambda>i b. b OR (if bit_at pat (k + i) then push_bit i 1 else 0)) [0..<n] 0x80"

function tms_loop :: "'w io_env \<Rightarrow> byte list \<Rightarrow> nat \<Rightarrow> nat \<Rightarrow> ('w ioftdi, unit) act" where
  "tms_loop E pat k len s =
     (if len = 0 then (Ret (), s)
      else
        (let n = (if len > 6 then 6 else len) in
         case mpsse_add_cmd E [0x4b, of_nat (n - 1), tms_byte pat k n] s of
           (Ret _, s') \<Rightarrow> tms_loop E pat (k + n) (len - n) s'
         | (Throws e, s') \<Rightarrow> (Throws e, s')
         | (Crashes, s') \<Rightarrow> (Crashes, s')
         | (Hangs, s') \<Rightarrow> (Hangs, s')))"
  by pat_completeness auto
termination by (relation "measure (\<lambda>(E, pat, k, len, s). len)") auto

declare tms_loop.simps [simp del]

lemma tms_loop_step:
  "len \<noteq> 0 \<Longrightarrow> n = (if len > 6 then 6 else len) \<Longrightarrow>
   tms_loop E pat k len s =
     bind_act (mpsse_add_cmd E [0x4b, of_nat (n - 1), tms_byte pat k n])
       (\<lambda>_. tms_loop E pat (k + n) (len - n)) s"
  by (simp only: tms_loop.simps [of E pat k len s] bind_act_def Let_def if_False)

definition tx_tms :: "'w io_env \<Rightarrow> byte list \<Rightarrow> nat \<Rightarrow> bool \<Rightarrow> ('w ioftdi, unit) act" where
  "tx_tms E pat len force =
     (if len = 0 then return_act ()
      else then_act (tms_loop E pat 0 len) (if force then mpsse_send E else return_act ()))"

section \<open>Shifting data\<close>

text \<open>The first byte of a command: writing and reading as far as there are buffers.\<close>

definition data_op :: "byte list option \<Rightarrow> byte list option \<Rightarrow> byte \<Rightarrow> byte" where
  "data_op tdi tdo flags =
     (if tdo \<noteq> None then MPSSE_DO_READ OR MPSSE_READ_NEG else 0) OR
     (if tdi \<noteq> None then MPSSE_DO_WRITE else 0) OR flags"

definition write_at :: "nat \<Rightarrow> byte list \<Rightarrow> byte list \<Rightarrow> byte list" where
  "write_at k d b = take k b @ d @ drop (k + length d) b"

text \<open>A byte command for \<open>n\<close> bytes of \<open>tdi\<close> from byte \<open>k\<close> on.\<close>

definition add_bytes_cmd ::
  "'w io_env \<Rightarrow> byte list option \<Rightarrow> byte list option \<Rightarrow> nat \<Rightarrow> nat \<Rightarrow> ('w ioftdi, unit) act" where
  "add_bytes_cmd E tdi tdo k n =
     then_act
       (mpsse_add_cmd E [data_op tdi tdo (MPSSE_LSB OR MPSSE_WRITE_NEG),
          of_nat (n - 1) AND 0xff, of_nat ((n - 1) div 256) AND 0xff])
       (case tdi of None \<Rightarrow> return_act () | Some b \<Rightarrow> mpsse_add_cmd E (take n (drop k b)))"

text \<open>
  The loop over full buffers: \<open>k\<close> is the offset reached in \<open>tdi\<close> and in \<open>tdo\<close>, \<open>rem\<close> the bits
  left. The result holds \<open>rem\<close>, the offset and the content of \<open>tdo\<close>.
\<close>

abbreviation (input) FULL :: nat where "FULL \<equiv> TX_BUF - 3"

function full_chunks ::
  "'w io_env \<Rightarrow> byte list option \<Rightarrow> byte list option \<Rightarrow> nat \<Rightarrow> nat
   \<Rightarrow> ('w ioftdi, nat \<times> nat \<times> byte list option) act"
where
  "full_chunks E tdi tdo k rem s =
     (if rem div 8 > FULL then
        (case bind_act (add_bytes_cmd E tdi tdo k FULL)
                (\<lambda>_. case tdo of
                       None \<Rightarrow> return_act None
                     | Some b \<Rightarrow> bind_act (readusb E FULL) (\<lambda>r. return_act (Some (write_at k r b)))) s of
           (Ret tdo', s') \<Rightarrow> full_chunks E tdi tdo' (k + FULL) (rem - FULL * 8) s'
         | (Throws e, s') \<Rightarrow> (Throws e, s')
         | (Crashes, s') \<Rightarrow> (Crashes, s')
         | (Hangs, s') \<Rightarrow> (Hangs, s'))
      else (Ret (rem, k, tdo), s))"
  by pat_completeness auto
termination by (relation "measure (\<lambda>(E, tdi, tdo, k, rem, s). rem)") auto

declare full_chunks.simps [simp del]

lemma full_chunks_step:
  "rem div 8 > FULL \<Longrightarrow>
   full_chunks E tdi tdo k rem s =
     bind_act (bind_act (add_bytes_cmd E tdi tdo k FULL)
         (\<lambda>_. case tdo of None \<Rightarrow> return_act None
            | Some b \<Rightarrow> bind_act (readusb E FULL) (\<lambda>r. return_act (Some (write_at k r b)))))
       (\<lambda>tdo'. full_chunks E tdi tdo' (k + FULL) (rem - FULL * 8)) s"
  by (simp only: full_chunks.simps [of E tdi tdo k rem s] bind_act_def if_True)

lemma full_chunks_done:
  "\<not> rem div 8 > FULL \<Longrightarrow> full_chunks E tdi tdo k rem s = (Ret (rem, k, tdo), s)"
  by (simp only: full_chunks.simps [of E tdi tdo k rem s] if_False)

text \<open>The last byte received in bit mode holds its \<open>n\<close> bits at the top.\<close>

definition shift_down :: "nat \<Rightarrow> nat \<Rightarrow> byte list \<Rightarrow> byte list" where
  "shift_down i n b = b[i := drop_bit (8 - n) (b ! i)]"

text \<open>
  The bytes received for the data bits and the bit of the TMS command, of which only bit 7 is
  data: the last bit is put after the others.
\<close>

definition align_last :: "nat \<Rightarrow> nat \<Rightarrow> byte list \<Rightarrow> byte list" where
  "align_last rembits n rbuf =
     (if rembits = 0 then rbuf[n - 1 := if (rbuf ! (n - 1)) AND 0x80 \<noteq> 0 then 1 else 0]
      else rbuf[n - 2 := drop_bit (8 - rembits) (rbuf ! (n - 2)) OR
                         drop_bit (7 - rembits) ((rbuf ! (n - 1)) AND 0x80)])"

definition read_result ::
  "'w io_env \<Rightarrow> bool \<Rightarrow> nat \<Rightarrow> nat \<Rightarrow> nat \<Rightarrow> byte list \<Rightarrow> ('w ioftdi, byte list) act" where
  "read_result E final rembits k n tdo =
     bind_act (readusb E n)
       (\<lambda>r. return_act
          (if \<not> final then
             (let b = write_at k r tdo in if rembits \<noteq> 0 then shift_down (k + n - 1) rembits b else b)
           else
             (let m = (if rembits = 0 then n else n - 1) in
              write_at k (take m (align_last rembits n (overlay r (ev_stack E)))) tdo)))"

definition txrx_block ::
  "'w io_env \<Rightarrow> byte list option \<Rightarrow> byte list option \<Rightarrow> nat \<Rightarrow> bool \<Rightarrow> ('w ioftdi, byte list option) act"
where
  "txrx_block E tdi tdo len final =
     bind_act (full_chunks E tdi tdo 0 (if final then len - 1 else len))
       (\<lambda>(rem0, k, tdo1).
          let rembits = rem0 mod 8; n = rem0 div 8 in
          then_act (if n \<noteq> 0 then add_bytes_cmd E tdi tdo k n else return_act ())
            (bind_act
              (if n \<ge> TX_BUF - 4 then
                 (case tdo1 of
                    None \<Rightarrow> return_act (k, 0, None)
                  | Some b \<Rightarrow> bind_act (readusb E n) (\<lambda>r. return_act (k + n, 0, Some (write_at k r b))))
               else return_act (k, n, tdo1))
              (\<lambda>(ko, m, tdo2).
                 let m1 = (if rembits \<noteq> 0 then m + 1 else m);
                     lastbit = (case tdi of None \<Rightarrow> False | Some b \<Rightarrow> bit (b ! (k + n)) rembits) in
                 then_act
                   (if rembits \<noteq> 0 then
                      then_act (mpsse_add_cmd E
                          [data_op tdi tdo (MPSSE_LSB OR MPSSE_BITMODE OR MPSSE_WRITE_NEG), of_nat (rembits - 1)])
                        (case tdi of None \<Rightarrow> return_act () | Some b \<Rightarrow> mpsse_add_cmd E [b ! (k + n)])
                    else return_act ())
                   (then_act
                     (if final then
                        mpsse_add_cmd E
                          [data_op None tdo (MPSSE_WRITE_TMS OR MPSSE_LSB OR MPSSE_BITMODE OR MPSSE_WRITE_NEG),
                           0, if lastbit then 0x81 else 1]
                      else return_act ())
                     (case tdo2 of
                        None \<Rightarrow> return_act None
                      | Some b \<Rightarrow>
                          bind_act (read_result E final rembits ko (if final then m1 + 1 else m1) b)
                            (\<lambda>b'. return_act (Some b')))))))"

section \<open>Delays\<close>

text \<open>One-byte commands while more than eight ticks are left; what remains.\<close>

function tick_bytes :: "'w io_env \<Rightarrow> u32 \<Rightarrow> ('w ioftdi, u32) act" where
  "tick_bytes E ticks s =
     (if ticks > 8 then
        (case mpsse_add_cmd E [0] s of
           (Ret _, s') \<Rightarrow> tick_bytes E (ticks - 8) s'
         | (Throws e, s') \<Rightarrow> (Throws e, s')
         | (Crashes, s') \<Rightarrow> (Crashes, s')
         | (Hangs, s') \<Rightarrow> (Hangs, s'))
      else (Ret ticks, s))"
  by pat_completeness auto
termination
proof (relation "measure (\<lambda>(E, ticks, s). unat ticks)", goal_cases)
  case (2 E ticks s a x)
  then have "8 < unat ticks" by (simp add: word_less_nat_alt)
  then have "8 \<le> ticks" by (simp add: word_le_nat_alt)
  then have "unat (ticks - 8) = unat ticks - 8" by (simp add: unat_sub)
  with \<open>8 < unat ticks\<close> show ?case by simp
qed simp

declare tick_bytes.simps [simp del]

lemma tick_bytes_step:
  "ticks > 8 \<Longrightarrow> tick_bytes E ticks s = bind_act (mpsse_add_cmd E [0]) (\<lambda>_. tick_bytes E (ticks - 8)) s"
  by (simp only: tick_bytes.simps [of E ticks s] bind_act_def if_True)

lemma tick_bytes_done: "\<not> ticks > 8 \<Longrightarrow> tick_bytes E ticks s = (Ret ticks, s)"
  by (simp only: tick_bytes.simps [of E ticks s] if_False)

definition usleep_ticks :: "'w ioftdi \<Rightarrow> nat \<Rightarrow> u32" where
  "usleep_ticks s usec = (of_nat usec * (tck_freq s div 100) + tck_freq s div 100 - 1) div 10000"

definition Usleep :: "'w io_env \<Rightarrow> nat \<Rightarrow> ('w ioftdi, unit) act" where
  "Usleep E usec s =
     (let ticks = usleep_ticks s usec;
          lo = ucast (ticks div 8); hi = ucast (drop_bit 8 (ticks div 8)) in
      if usec < 20000 then
        (if device_has_fast_clock s then
           then_act (if ticks > 8 then mpsse_add_cmd E [0x8f, lo, hi] else return_act ())
             (let rest = (if ticks > 8 then ticks mod 8 else ticks) in
              if rest \<noteq> 0 then mpsse_add_cmd E [0x8e, ucast (rest - 1)] else return_act ()) s
         else
           bind_act
             (if ticks > 8 then
                then_act (mpsse_add_cmd E [MPSSE_DO_WRITE OR MPSSE_LSB OR MPSSE_WRITE_NEG, lo, hi])
                  (tick_bytes E ticks)
              else return_act ticks)
             (\<lambda>rest. if rest \<noteq> 0 then
                mpsse_add_cmd E [MPSSE_DO_WRITE OR MPSSE_LSB OR MPSSE_BITMODE OR MPSSE_WRITE_NEG]
              else return_act ()) s)
      else mpsse_send E s)"

section \<open>Opening and closing\<close>

text \<open>
  The divisor of \<open>Init\<close> for the 6 MHz clock. The code tests \<open>6000000&freq\<close>, a bitwise and. A
  negative quotient becomes a large unsigned number, and so the largest divisor.
\<close>

definition clamp16 :: "int \<Rightarrow> int" where
  "clamp16 d = (if d < 0 \<or> d > 0xffff then 0xffff else d)"

definition slow_divisor :: "int \<Rightarrow> int" where
  "slow_divisor freq =
     clamp16 (if freq = 0 \<or> freq \<ge> 6000000 then 0
              else 6000000 sdiv freq - (if (6000000 AND freq) \<noteq> 0 then 0 else 1))"

definition fast_divisor :: "int \<Rightarrow> int" where
  "fast_divisor freq =
     clamp16 (if freq = 0 \<or> freq \<ge> 30000000 then 0
              else 30000000 div freq - (if 30000000 mod freq \<noteq> 0 then 0 else 1))"

definition fast_clock_type :: "ftdi_chip_type \<Rightarrow> bool" where
  "fast_clock_type t \<longleftrightarrow> t = TYPE_2232H \<or> t = TYPE_4232H \<or> t = TYPE_232H"

definition lo8 :: "int \<Rightarrow> byte" where "lo8 d = word_of_int (d AND 0xff)"
definition hi8 :: "int \<Rightarrow> byte" where "hi8 d = word_of_int (drop_bit 8 d AND 0xff)"

text \<open>A call of libftdi on the handle, and one whose negative result ends \<open>Init\<close>.\<close>

definition call_ftdi :: "('w st \<Rightarrow> 'r \<times> 'w st) \<Rightarrow> ('w ioftdi, 'r) act" where
  "call_ftdi f s = (case f (ftdi_handle s) of (r, h) \<Rightarrow> (Ret r, s\<lparr>ftdi_handle := h\<rparr>))"

abbreviation (input) init_error :: string where
  "init_error \<equiv> ''Error initializing IOFtdi''"

definition or_fail :: "('w st \<Rightarrow> int \<times> 'w st) \<Rightarrow> ('w ioftdi, unit) act" where
  "or_fail f = bind_act (call_ftdi f) (\<lambda>r. if r < 0 then throw_act init_error else return_act ())"

text \<open>
  The constructor, which throws when \<open>Init\<close> returns an error; the context is not freed then.
  \<open>ctx\<close> is what \<open>ftdi_new\<close> returns.
\<close>

definition open_ftdi :: "'w io_env \<Rightarrow> handle \<Rightarrow> int \<Rightarrow> ('w ioftdi, unit) act" where
  "open_ftdi E dev itf =
     (let L = ev_usb E in
      then_act (or_fail (ftdi_set_interface itf))
        (bind_act (call_ftdi (ftdi_usb_open_dev L dev))
          (\<lambda>res.
             if res = 0 then
               then_act (or_fail (ftdi_set_bitmode L 0x00 BITMODE_RESET))
                 (then_act (or_fail (ftdi_usb_purge_buffers L))
                   (then_act (or_fail (ftdi_set_latency_timer L 1))
                     (then_act (or_fail (ftdi_set_bitmode L 0xfb BITMODE_MPSSE))
                       (bind_act (read_ftdi E 5)
                         (\<lambda>_. modify_act (\<lambda>s. s\<lparr>device_has_fast_clock :=
                                 (case fst (ftdi_handle s) of
                                    None \<Rightarrow> False | Some c \<Rightarrow> fast_clock_type (ftype c))\<rparr>))))))
             else
               then_act (modify_act (\<lambda>s. s\<lparr>ftdi_handle := ftdi_free L (ftdi_handle s)\<rparr>))
                 (throw_act init_error))))"

definition init_commands :: "'w io_env \<Rightarrow> int \<Rightarrow> ('w ioftdi, unit) act" where
  "init_commands E freq =
     (let d = slow_divisor freq in
      then_act (mpsse_add_cmd E [SET_BITS_LOW, 0x00, 0x0b, TCK_DIVISOR, lo8 d, hi8 d, SET_BITS_HIGH, 0x00, 0x00])
        (then_act (mpsse_send E)
          (\<lambda>s. if device_has_fast_clock s \<and> (freq = 0 \<or> freq > 458) then
                 (let d2 = fast_divisor freq in
                  then_act (mpsse_add_cmd E [DIS_DIV_5, TCK_DIVISOR, lo8 d2, hi8 d2])
                    (then_act (mpsse_send E)
                      (modify_act (\<lambda>s. s\<lparr>tck_freq := word_of_int (30000000 div (1 + d2))\<rparr>))) s)
               else (Ret (), s\<lparr>tck_freq := word_of_int (6000000 div (1 + d))\<rparr>))))"

definition IOFtdi_new ::
  "'w io_env \<Rightarrow> 'w st \<Rightarrow> handle \<Rightarrow> int \<Rightarrow> int \<Rightarrow> ('w ioftdi, unit) act" where
  "IOFtdi_new E ctx dev itf freq =
     then_act (modify_act (\<lambda>s. s\<lparr>ftdi_handle := ctx\<rparr>))
       (then_act (open_ftdi E dev itf) (init_commands E freq))"

text \<open>
  The buffer of \<open>deinit\<close> is a static variable: its content \<open>tbuf\<close> is kept between calls, and
  \<open>readusb\<close> stores the bytes it reads into it. (When \<open>readusb\<close> throws, bytes it may have
  stored before are not tracked.)
\<close>

definition deinit_commands :: "byte list" where
  "deinit_commands =
     [SET_BITS_LOW, 0xff, 0x00, SET_BITS_HIGH, 0xff, 0x00, LOOPBACK_START, 0x3d, 0x04, 0x00,
      0xaa, 0x55, 0x00, 0xff, 0xaa, LOOPBACK_END]"

definition catching :: "('s, 'a) act \<Rightarrow> 'a \<Rightarrow> ('s, 'a) act" where
  "catching m x s = (case m s of (Throws _, s') \<Rightarrow> (Ret x, s') | res \<Rightarrow> res)"

definition deinit :: "'w io_env \<Rightarrow> byte list \<Rightarrow> ('w ioftdi, byte list) act" where
  "deinit E tbuf =
     (let L = ev_usb E in
      bind_act
        (catching
          (then_act (mpsse_add_cmd E tbuf)
            (bind_act (readusb E 5) (\<lambda>r. return_act (overlay r tbuf))))
          tbuf)
        (\<lambda>tbuf'.
           bind_act (call_ftdi (ftdi_set_bitmode L 0 BITMODE_RESET))
             (\<lambda>_. bind_act (call_ftdi (ftdi_usb_reset L))
               (\<lambda>_. bind_act (call_ftdi (ftdi_usb_close L))
                 (\<lambda>_. then_act (modify_act (\<lambda>s. s\<lparr>ftdi_handle := ftdi_free L (ftdi_handle s)\<rparr>))
                        (return_act tbuf'))))))"

text \<open>The cable as the base class sees it.\<close>

definition ioftdi_cable :: "'w io_env \<Rightarrow> 'w ioftdi cable" where
  "ioftdi_cable E = \<lparr>cb_txrx = txrx_block E, cb_tms = tx_tms E, cb_usleep = Usleep E\<rparr>"

text \<open>An environment and an open cable, for concrete instances.\<close>

definition sample_env :: "'w libusb \<Rightarrow> 'w io_env" where
  "sample_env L = \<lparr>ev_usb = L, ev_errno = (\<lambda>_. 0), ev_strerror = (\<lambda>_. ''''), ev_stack = replicate TX_BUF 0\<rparr>"

definition sample_ioftdi :: "'w \<Rightarrow> 'w ioftdi" where
  "sample_ioftdi w = (ioftdi_blank w)\<lparr>ftdi_handle := (Some tiny_context, w)\<rparr>"

end
