(* ===== verification/Ioftdi_Bounds.thy ===== *)
theory Ioftdi_Bounds
  imports Ioftdi
begin

unbundle bit_operations_syntax

text \<open>
  The command buffer of the FTDI cable: whatever happens on the bus, no operation writes past its
  end, and the space kept free is enough for the next one.
\<close>

section \<open>The handle\<close>

text \<open>
  A read changes only the read buffer and the message of the context, and of the bus only what
  its transfers change.
\<close>

definition same_port :: "ftdi_context \<Rightarrow> ftdi_context \<Rightarrow> bool" where
  "same_port c c' \<longleftrightarrow> usb_dev c' = usb_dev c \<and> writebuffer_chunksize c' = writebuffer_chunksize c \<and>
     in_ep c' = in_ep c"

lemma same_port_refl [simp]: "same_port c c"
  by (simp add: same_port_def)

lemma same_port_trans: "same_port c c' \<Longrightarrow> same_port c' c'' \<Longrightarrow> same_port c c''"
  by (simp add: same_port_def)

lemma same_port_updates [simp]:
  "same_port c (c'\<lparr>readbuffer := b\<rparr>) = same_port c c'"
  "same_port c (c'\<lparr>readbuffer_offset := x\<rparr>) = same_port c c'"
  "same_port c (c'\<lparr>readbuffer_remaining := y\<rparr>) = same_port c c'"
  "same_port c (c'\<lparr>error_str := m\<rparr>) = same_port c c'"
  "same_port c (invalidate_readbuffer c') = same_port c c'"
  "same_port (c\<lparr>readbuffer := b\<rparr>) c' = same_port c c'"
  "same_port (c\<lparr>readbuffer_offset := x\<rparr>) c' = same_port c c'"
  "same_port (invalidate_readbuffer c) c' = same_port c c'"
  by (simp_all add: same_port_def invalidate_readbuffer_def)

lemma read_loop_frame:
  assumes Q: "\<And>ep k t w r d w'. lu_bulk_in L h ep k t w = ((r, d), w') \<Longrightarrow> Q w \<Longrightarrow> Q w'"
  shows "read_loop L h ps sz c out offset actual w = (res, f, w') \<Longrightarrow> Q w \<Longrightarrow>
   (\<exists>c'. f = Some c' \<and> same_port c c') \<and> Q w'"
proof (induction "2 * (sz - offset) + (if 0 < actual then 1 else 0)"
    arbitrary: c out offset actual w rule: less_induct)
  case less
  show ?case
  proof (cases "offset < sz \<and> 0 < actual")
    case False
    then show ?thesis
      using less.prems by (subst (asm) read_loop.simps) (simp only: if_False prod.inject, auto)
  next
    case True
    let ?k = "readbuffer_chunksize c"
    obtain ret d w1 where tr: "lu_bulk_in L h (out_ep c) ?k (usb_read_timeout c) w = ((ret, d), w1)"
      by (metis prod.exhaust_sel)
    have Qw1: "Q w1" by (rule Q [OF tr less.prems(2)])
    let ?c2 = "invalidate_readbuffer c\<lparr>readbuffer := overlay d (readbuffer (invalidate_readbuffer c))\<rparr>"
    obtain b act where strip: "strip_status ps (readbuffer ?c2) (length d) = (b, act)"
      by (metis prod.exhaust)
    let ?c3 = "?c2\<lparr>readbuffer := b, readbuffer_offset := 2\<rparr>"
    consider (err) "ret < 0" | (short) "0 \<le> ret" "length d \<le> 2" | (data) "0 \<le> ret" "2 < length d"
      by linarith
    then show ?thesis
    proof cases
      case err
      then show ?thesis
        using less.prems True tr Qw1 by (subst (asm) read_loop.simps) (auto simp: ftdi_error_return_def)
    next
      case short
      then show ?thesis
        using less.prems True tr Qw1 by (subst (asm) read_loop.simps) (auto simp: Let_def)
    next
      case data
      have unf: "read_loop L h ps sz c out offset actual w =
        (if act > 0 then
          (if offset + act \<le> sz then
             (let out' = out @ take act (drop 2 b) in
              if offset + act = sz then ((int (offset + act), out'), Some ?c3, w1)
              else read_loop L h ps sz ?c3 out' (offset + act) act w1)
           else
             (let part_size = sz - offset in
              ((int (offset + part_size), out @ take part_size (drop 2 b)),
               Some (?c3\<lparr>readbuffer_offset := 2 + part_size,
                        readbuffer_remaining := act - part_size\<rparr>), w1)))
         else read_loop L h ps sz ?c3 out offset act w1)"
        using True tr data strip by (subst read_loop.simps) (simp add: Let_def)
      have IH: "(\<exists>c'. f = Some c' \<and> same_port ?c3 c') \<and> Q w'"
        if "read_loop L h ps sz ?c3 out' offset' act w1 = (res, f, w')"
          and "2 * (sz - offset') + (if 0 < act then 1 else 0) < 2 * (sz - offset) + (if 0 < actual then 1 else 0)"
        for out' offset'
        using less.hyps [OF that(2,1) Qw1] .
      consider (again) "act = 0" | (more) "0 < act" "offset + act < sz" | (last) "0 < act" "sz \<le> offset + act"
        by linarith
      then show ?thesis
      proof cases
        case again
        with less.prems unf True IH [of out offset] show ?thesis by simp
      next
        case more
        with less.prems unf IH [of "out @ take act (drop 2 b)" "offset + act"] show ?thesis
          by (simp add: Let_def)
      next
        case last
        with less.prems unf Qw1 show ?thesis by (auto simp: Let_def split: if_splits)
      qed
    qed
  qed
qed

lemma read_data_frame:
  assumes "\<And>d ep k t w r d' w'. lu_bulk_in L d ep k t w = ((r, d'), w') \<Longrightarrow> Q w \<Longrightarrow> Q w'" and "Q w"
    and "ftdi_read_data L n (Some c, w) = (r, h')"
  shows "(\<exists>c'. fst h' = Some c' \<and> same_port c c') \<and> Q (snd h')"
proof (cases "usb_dev c")
  case None
  then show ?thesis
    using assms(2,3) by (auto simp: ftdi_read_data_def Let_def ftdi_error_return_def)
next
  case (Some d)
  obtain f w' where h': "h' = (f, w')" by (metis prod.exhaust)
  consider "max_packet_size c = 0" | "n \<le> readbuffer_remaining c" "max_packet_size c \<noteq> 0"
    | res where "read_loop L d (max_packet_size c) n c
        (take (readbuffer_remaining c) (drop (readbuffer_offset c) (readbuffer c)))
        (readbuffer_remaining c) 1 w = (res, f, w')"
    using assms(3) Some by (auto simp: h' ftdi_read_data_def Let_def split: if_splits prod.splits)
  then show ?thesis
  proof cases
    case 3
    from read_loop_frame [of L d Q, OF assms(1) 3 assms(2)] show ?thesis by (simp add: h')
  qed (use assms(2,3) Some in \<open>auto simp: ftdi_read_data_def Let_def ftdi_error_return_def\<close>)
qed

text \<open>A failed write leaves a message, which \<open>mpsse_send\<close> makes the exception from.\<close>

lemma write_step_message:
  assumes L: "bulk_ok L" and sz: "sz = int (length buf)" and offset: "0 \<le> offset" "offset \<le> sz"
    and run: "(if offset < sz
      then let chunk = write_chunk c;
               write_size = if sz < wrap32 (offset + chunk) then sz - offset else chunk
           in case lu_bulk_out L h (in_ep c) (take (nat write_size) (drop (nat offset) buf))
                    (usb_write_timeout c) w of
              ((r, n), w') \<Rightarrow>
                if r < 0 then Some (ftdi_error_return (- 1) ''usb bulk write failed'' (Some c, w'))
                else loop (offset + int n) w'
      else Some (offset, Some c, w)) = Some x"
    and loop: "\<And>offset' w'. 0 \<le> offset' \<Longrightarrow> offset' \<le> sz \<Longrightarrow> loop offset' w' = Some x \<Longrightarrow>
      fst x = sz \<and> fst (snd x) = Some c \<or> (\<exists>m. fst (snd x) = Some (c\<lparr>error_str := Some m\<rparr>))"
  shows "fst x = sz \<and> fst (snd x) = Some c \<or> (\<exists>m. fst (snd x) = Some (c\<lparr>error_str := Some m\<rparr>))"
proof (cases "offset < sz")
  case False
  then show ?thesis using run offset by auto
next
  case True
  define size where "size = (if wrap32 (offset + write_chunk c) > sz then sz - offset else write_chunk c)"
  obtain r n w1 where tr: "lu_bulk_out L h (in_ep c) (take (nat size) (drop (nat offset) buf))
      (usb_write_timeout c) w = ((r, n), w1)"
    by (metis prod.exhaust)
  have "n \<le> length (take (nat size) (drop (nat offset) buf))" by (rule bulk_ok_out [OF L tr])
  then have "n \<le> length buf - nat offset" by simp
  then have le: "0 \<le> offset + int n" "offset + int n \<le> sz" using sz offset True by linarith+
  have "(if r < 0 then Some (ftdi_error_return (- 1) ''usb bulk write failed'' (Some c, w1))
      else loop (offset + int n) w1) = Some x"
    using run True tr by (simp only: Let_def if_True size_def prod.case)
  then show ?thesis
    using loop [OF le] by (cases "r < 0") (auto simp: ftdi_error_return_def)
qed

lemma write_loop_message:
  assumes "bulk_ok L" and "sz = int (length buf)" and "0 \<le> offset" and "offset \<le> sz"
    and run: "write_loop L c h buf sz offset w = Some x"
  shows "fst x = sz \<and> fst (snd x) = Some c \<or> (\<exists>m. fst (snd x) = Some (c\<lparr>error_str := Some m\<rparr>))"
proof -
  let ?P = "\<lambda>L c (h :: handle) (buf :: byte list) sz offset (w :: 'a) x. bulk_ok L \<longrightarrow>
      sz = int (length buf) \<longrightarrow> 0 \<le> offset \<longrightarrow> offset \<le> sz \<longrightarrow>
      fst x = sz \<and> fst (snd x) = Some c \<or> (\<exists>m. fst (snd x) = Some (c\<lparr>error_str := Some m\<rparr>))"
  have "?P L c h buf sz offset w x"
  proof (rule write_loop.raw_induct [OF _ run, where P = ?P], goal_cases)
    case (1 loop L c h buf sz offset w x)
    show ?case by (intro impI, rule write_step_message [OF _ _ _ _ 1(2)]) (use 1(1) in blast)+
  qed
  with assms(1-4) show ?thesis by blast
qed

lemma write_data_message:
  assumes "bulk_ok L" and "fst h \<noteq> None" and "ftdi_write_data L buf (int (length buf)) h = Some (r, h')"
  shows "fst h' \<noteq> None \<and> (r \<noteq> int (length buf) \<longrightarrow> ftdi_get_error_string h' \<noteq> None)"
proof -
  obtain c w where h: "h = (Some c, w)" using assms(2) by (cases h) auto
  obtain f w' where h': "h' = (f, w')" by (metis prod.exhaust)
  show ?thesis
  proof (cases "usb_dev c")
    case None
    then show ?thesis
      using assms(3) by (auto simp: h h' ftdi_write_data_def with_dev_def ftdi_error_return_def
          ftdi_get_error_string_def)
  next
    case (Some d)
    then have "write_loop L c d buf (int (length buf)) 0 w = Some (r, f, w')"
      using assms(3) by (simp add: h h' ftdi_write_data_def with_dev_def)
    from write_loop_message [OF assms(1) refl order_refl _ this] have "r = int (length buf) \<and> f = Some c \<or> (\<exists>m. f = Some (c\<lparr>error_str := Some m\<rparr>))"
      by simp
    then show ?thesis
      by (auto simp: h' ftdi_get_error_string_def)
  qed
qed

lemma read_data_handle:
  assumes "fst h \<noteq> None" and "ftdi_read_data L n h = (r, h')"
  shows "r \<noteq> Crashes \<and> fst h' \<noteq> None"
proof -
  obtain c w where h: "h = (Some c, w)" using assms(1) by (cases h) auto
  have "r \<noteq> Crashes"
    using assms(2) by (auto simp: h ftdi_read_data_def Let_def split: option.splits if_splits prod.splits)
  moreover have "fst h' \<noteq> None"
    using read_data_frame [of L "\<lambda>_. True"] assms(2) by (fastforce simp: h)
  ultimately show ?thesis by simp
qed

text \<open>In \<open>full_chunks\<close> a block of at most \<open>FULL\<close> whole bytes is left.\<close>

lemma full_chunks_rest:
  "full_chunks E tdi tdo k rem s = (Ret (rem', k', tdo'), s') \<Longrightarrow> rem' div 8 \<le> FULL"
proof (induction rem arbitrary: k tdo s rule: less_induct)
  case (less rem)
  show ?case
  proof (cases "rem div 8 > FULL")
    case False
    then show ?thesis using less.prems by (simp add: full_chunks_done)
  next
    case True
    then have "rem - FULL * 8 < rem" by simp
    then show ?thesis using less.prems less.IH unfolding full_chunks_step [OF True] bind_act_returns by blast
  qed
qed

section \<open>The operations\<close>

text \<open>
  What the operations of the cable keep of the handle, as a locale: a predicate that writing and
  reading keep, and under which they do not crash. With it, two bytes of the buffer are free
  between commands.
\<close>

definition fits :: "('w st \<Rightarrow> bool) \<Rightarrow> 'w ioftdi \<Rightarrow> bool" where
  "fits Q s \<longleftrightarrow> Q (ftdi_handle s) \<and> bptr s \<le> TX_BUF - 2"

locale kept_handle =
  fixes E :: "'w io_env" and Q :: "'w st \<Rightarrow> bool"
  assumes kept_write: "Q h \<Longrightarrow> ftdi_write_data (ev_usb E) buf (int (length buf)) h = Some (n, h') \<Longrightarrow>
      Q h' \<and> (n \<noteq> int (length buf) \<longrightarrow> ftdi_get_error_string h' \<noteq> None)"
    and kept_read: "Q h \<Longrightarrow> ftdi_read_data (ev_usb E) k h = (r, h') \<Longrightarrow> r \<noteq> Crashes \<and> Q h'"
begin

lemma send_bounds:
  assumes "fits Q s" and "mpsse_send E s = (r, s')"
  shows "r \<noteq> Crashes \<and> fits Q s' \<and> (r = Ret () \<longrightarrow> usbuf s' = [])"
proof (cases "usbuf s = []")
  case True
  then show ?thesis using assms by (auto simp: mpsse_send_def)
next
  case False
  show ?thesis
  proof (cases "ftdi_write_data (ev_usb E) (usbuf s) (int (bptr s)) (ftdi_handle s)")
    case None
    then show ?thesis using False assms by (auto simp: mpsse_send_def fits_def)
  next
    case (Some res)
    obtain n h where res: "res = (n, h)" by (metis prod.exhaust)
    have "Q h \<and> (n \<noteq> int (bptr s) \<longrightarrow> ftdi_get_error_string h \<noteq> None)"
      using kept_write [OF _ Some [unfolded res]] assms(1) by (simp add: fits_def)
    then show ?thesis
      using assms False Some
      by (auto simp: res mpsse_send_def fits_def Let_def split: if_splits option.splits)
  qed
qed

lemma upholds_add_cmd:
  assumes "length buf \<le> TX_BUF - 2"
  shows "upholds (fits Q) (mpsse_add_cmd E buf)"
  unfolding upholds_def
proof (intro allI impI)
  fix s r s'
  assume P: "fits Q s" and run: "mpsse_add_cmd E buf s = (r, s')"
  show "r \<noteq> Crashes \<and> fits Q s'"
  proof (cases "bptr s + length buf + 1 \<ge> TX_BUF")
    case False
    then show ?thesis
      using run P by (auto simp: mpsse_add_cmd_def then_act_Ret return_act_def put_cmd_def fits_def)
  next
    case True
    obtain r1 s1 where send: "mpsse_send E s = (r1, s1)" by (metis prod.exhaust)
    note k = send_bounds [OF P send]
    have run': "then_act (mpsse_send E) (put_cmd buf) s = (r, s')"
      using run True by (simp add: mpsse_add_cmd_def)
    show ?thesis
    proof (cases "r1 = Ret ()")
      case ret: True
      then show ?thesis
        using run' send k assms by (auto simp: then_act_Ret put_cmd_def fits_def)
    next
      case False
      then show ?thesis
        using run' send k by (cases r1) (auto simp: then_act_def bind_act_def)
    qed
  qed
qed

lemma upholds_read: "upholds (fits Q) (read_ftdi E n)"
  unfolding upholds_def
proof (intro allI impI)
  fix s r s'
  assume P: "fits Q s" and run: "read_ftdi E n s = (r, s')"
  obtain r1 h where rd: "ftdi_read_data (ev_usb E) n (ftdi_handle s) = (r1, h)" by (metis prod.exhaust)
  have "r = r1" and s': "s' = s\<lparr>ftdi_handle := h\<rparr>" using run rd by (simp_all add: read_ftdi_def on_part_def)
  with kept_read [OF _ rd] P show "r \<noteq> Crashes \<and> fits Q s'" by (simp add: fits_def)
qed

lemma upholds_count:
  "upholds (fits Q) (modify_act (\<lambda>s. s\<lparr>retries := f s\<rparr>))"
  "upholds (fits Q) (modify_act (\<lambda>s. s\<lparr>calls_rd := g s\<rparr>))"
  by (auto intro!: upholds_modify simp: fits_def)

lemma upholds_retry: "upholds (fits Q) (read_retry E k n acc a b)"
proof (induction k arbitrary: acc a b)
  case 0
  then show ?case by auto
next
  case (Suc k)
  have "upholds (fits Q) (\<lambda>s. if got > 0 then read_retry E k n (acc @ out) got 0 s
      else read_retry E k n acc got (ev_errno E (snd (ftdi_handle s))) s)" for got :: int and out
    using Suc.IH unfolding upholds_def by simp
  then show ?case unfolding read_retry.simps
    by (intro upholds_rules upholds_read upholds_count)
qed

lemma upholds_send: "upholds (fits Q) (mpsse_send E)"
  using send_bounds unfolding upholds_def by blast

lemma upholds_readusb: "upholds (fits Q) (readusb E n)"
  unfolding readusb_def
  by (intro upholds_rules upholds_add_cmd upholds_read upholds_retry upholds_count upholds_send) simp_all

lemma upholds_tms_loop: "upholds (fits Q) (tms_loop E pat k len)"
proof (induction len arbitrary: k rule: less_induct)
  case (less len)
  show ?case
  proof (cases "len = 0")
    case True
    have "tms_loop E pat k len s = return_act () s" for s
      using tms_loop.simps [of E pat k 0 s] True by (simp add: return_act_def)
    then show ?thesis unfolding upholds_def return_act_def by auto
  next
    case False
    define n where "n = (if len > 6 then 6 else len)"
    have "upholds (fits Q) (bind_act (mpsse_add_cmd E [0x4b, of_nat (n - 1), tms_byte pat k n])
        (\<lambda>_. tms_loop E pat (k + n) (len - n)))"
      using less False by (intro upholds_rules upholds_add_cmd) (simp_all add: n_def)
    then show ?thesis unfolding upholds_def tms_loop_step [OF False n_def] .
  qed
qed

lemma upholds_bytes:
  assumes "n \<le> TX_BUF - 2"
  shows "upholds (fits Q) (add_bytes_cmd E tdi tdo k n)"
  using assms unfolding add_bytes_cmd_def by (intro upholds_rules upholds_add_cmd) simp_all

lemma upholds_full_chunks: "upholds (fits Q) (full_chunks E tdi tdo k rem)"
proof (induction rem arbitrary: k tdo rule: less_induct)
  case (less rem)
  show ?case
  proof (cases "rem div 8 > FULL")
    case False
    then show ?thesis unfolding upholds_def by (auto simp: full_chunks_done)
  next
    case True
    have "upholds (fits Q) (bind_act (bind_act (add_bytes_cmd E tdi tdo k FULL)
         (\<lambda>_. case tdo of None \<Rightarrow> return_act None
            | Some b \<Rightarrow> bind_act (readusb E FULL) (\<lambda>r. return_act (Some (write_at k r b)))))
       (\<lambda>tdo'. full_chunks E tdi tdo' (k + FULL) (rem - FULL * 8)))"
      using less True by (intro upholds_rules upholds_bytes upholds_readusb) simp_all
    then show ?thesis unfolding upholds_def full_chunks_step [OF True] .
  qed
qed

lemma upholds_tick_bytes: "upholds (fits Q) (tick_bytes E ticks)"
proof (induction "unat ticks" arbitrary: ticks rule: less_induct)
  case less
  show ?case
  proof (cases "ticks > 8")
    case False
    then show ?thesis unfolding upholds_def by (auto simp: tick_bytes_done)
  next
    case True
    then have "8 < unat ticks" by (simp add: word_less_nat_alt)
    then have "8 \<le> ticks" by (simp add: word_le_nat_alt)
    then have "unat (ticks - 8) < unat ticks" using \<open>8 < unat ticks\<close> by (simp add: unat_sub)
    then have "upholds (fits Q) (bind_act (mpsse_add_cmd E [0]) (\<lambda>_. tick_bytes E (ticks - 8)))"
      using less by (intro upholds_rules upholds_add_cmd) simp_all
    then show ?thesis unfolding upholds_def tick_bytes_step [OF True] .
  qed
qed

lemma upholds_txrx_block:
  shows "upholds (fits Q) (txrx_block E tdi tdo len final)"
  unfolding upholds_def
proof (intro allI impI)
  fix s r s'
  assume P: "fits Q s" and run: "txrx_block E tdi tdo len final s = (r, s')"
  define rest where "rest = (\<lambda>(rem0, k, tdo1).
      let rembits = rem0 mod 8; n = rem0 div 8 in
      then_act (if n \<noteq> 0 then add_bytes_cmd E tdi tdo k n else return_act ())
        (bind_act
          (if n \<ge> TX_BUF - 4 then
             (case tdo1 of
                None \<Rightarrow> return_act (k, 0, None)
              | Some b \<Rightarrow> bind_act (readusb E n) (\<lambda>r. return_act (k + n, 0, Some (write_at k r b))))
           else return_act (k, n, tdo1))
          (\<lambda>(ko, m, tdo2).
             let m1 = (if rembits \<noteq> 0 then m + 1 else m);
                 lastbit = (case tdi of None \<Rightarrow> False | Some b \<Rightarrow> bit (b ! (k + n)) rembits) in
             then_act
               (if rembits \<noteq> 0 then
                  then_act (mpsse_add_cmd E
                      [data_op tdi tdo (MPSSE_LSB OR MPSSE_BITMODE OR MPSSE_WRITE_NEG), of_nat (rembits - 1)])
                    (case tdi of None \<Rightarrow> return_act () | Some b \<Rightarrow> mpsse_add_cmd E [b ! (k + n)])
                else return_act ())
               (then_act
                 (if final then
                    mpsse_add_cmd E
                      [data_op None tdo (MPSSE_WRITE_TMS OR MPSSE_LSB OR MPSSE_BITMODE OR MPSSE_WRITE_NEG),
                       0, if lastbit then 0x81 else 1]
                  else return_act ())
                 (case tdo2 of
                    None \<Rightarrow> return_act None
                  | Some b \<Rightarrow>
                      bind_act (read_result E final rembits ko (if final then m1 + 1 else m1) b)
                        (\<lambda>b'. return_act (Some b')))))))"
  have rest: "upholds (fits Q) (rest (rem0, k, tdo1))" if "rem0 div 8 \<le> FULL" for rem0 k tdo1
    using that unfolding rest_def Let_def prod.case read_result_def
    by (intro upholds_rules upholds_bytes upholds_readusb upholds_add_cmd) simp_all
  have run': "bind_act (full_chunks E tdi tdo 0 (if final then len - 1 else len)) rest s = (r, s')"
    using run by (simp only: txrx_block_def rest_def)
  obtain r1 s1 where f: "full_chunks E tdi tdo 0 (if final then len - 1 else len) s = (r1, s1)"
    by (metis prod.exhaust)
  note k = upholdsD [OF upholds_full_chunks P f]
  show "r \<noteq> Crashes \<and> fits Q s'"
  proof (cases r1)
    case (Ret x)
    obtain rem0 k tdo1 where x: "x = (rem0, k, tdo1)" by (metis prod.exhaust)
    have "rest x s1 = (r, s')" using run' f Ret by (simp only: bind_act_Ret)
    with upholdsD [OF rest [OF full_chunks_rest]] f Ret x k show ?thesis by blast
  qed (use run' f k in \<open>auto simp: bind_act_def\<close>)
qed

lemma upholds_tx_tms: "upholds (fits Q) (tx_tms E pat len force)"
  unfolding tx_tms_def by (intro upholds_rules upholds_tms_loop upholds_send)

lemma upholds_Usleep:
  shows "upholds (fits Q) (Usleep E usec)"
proof -
  define body where "body = (\<lambda>fast (ticks :: u32).
    if usec < 20000 then
      (if fast then
         then_act (if ticks > 8 then mpsse_add_cmd E [0x8f, ucast (ticks div 8), ucast (drop_bit 8 (ticks div 8))]
                   else return_act ())
           (if (if ticks > 8 then ticks mod 8 else ticks) \<noteq> 0
            then mpsse_add_cmd E [0x8e, ucast ((if ticks > 8 then ticks mod 8 else ticks) - 1)] else return_act ())
       else
         bind_act
           (if ticks > 8 then
              then_act (mpsse_add_cmd E [MPSSE_DO_WRITE OR MPSSE_LSB OR MPSSE_WRITE_NEG,
                  ucast (ticks div 8), ucast (drop_bit 8 (ticks div 8))])
                (tick_bytes E ticks)
            else return_act ticks)
           (\<lambda>rest. if rest \<noteq> 0 then
              mpsse_add_cmd E [MPSSE_DO_WRITE OR MPSSE_LSB OR MPSSE_BITMODE OR MPSSE_WRITE_NEG]
            else return_act ()))
    else mpsse_send E)"
  have "upholds (fits Q) (body fast ticks)" for fast ticks
    unfolding body_def
    by (intro upholds_rules upholds_tick_bytes upholds_add_cmd upholds_send) simp_all
  moreover have "Usleep E usec s = body (device_has_fast_clock s) (usleep_ticks s usec) s" for s
    by (simp only: Usleep_def body_def Let_def) simp
  ultimately show ?thesis unfolding upholds_def by simp
qed

end

text \<open>An open handle, on a bus that keeps the laws of libusb.\<close>

definition in_buffer :: "'w ioftdi \<Rightarrow> bool" where
  "in_buffer s \<longleftrightarrow> fst (ftdi_handle s) \<noteq> None \<and> bptr s \<le> TX_BUF - 2"

interpretation open_handle: kept_handle E "\<lambda>h. bulk_ok (ev_usb E) \<and> fst h \<noteq> None" for E
  by unfold_locales (use write_data_message read_data_handle in blast)+

lemma fits_in_buffer: "bulk_ok L \<Longrightarrow> fits (\<lambda>h. bulk_ok L \<and> fst h \<noteq> None) = in_buffer"
  by (simp add: fun_eq_iff fits_def in_buffer_def)

lemma tx_tms_in_buffer: "bulk_ok (ev_usb E) \<Longrightarrow> upholds in_buffer (tx_tms E pat len force)"
  by (metis fits_in_buffer open_handle.upholds_tx_tms)

lemma txrx_in_buffer: "bulk_ok (ev_usb E) \<Longrightarrow> upholds in_buffer (txrx_block E tdi tdo len final)"
  by (metis fits_in_buffer open_handle.upholds_txrx_block)

lemma Usleep_in_buffer: "bulk_ok (ev_usb E) \<Longrightarrow> upholds in_buffer (Usleep E usec)"
  by (metis fits_in_buffer open_handle.upholds_Usleep)

section \<open>Properties\<close>

text \<open>C22: The command buffer never overflows. On any bus on which a transfer moves at most the
  bytes asked for, whatever errors it reports: the three operations of the FTDI cable, started
  with a handle and at least two bytes free in the 4096-byte buffer, never write past the end of
  the buffer and never crash, and leave a handle and two bytes free, also when they throw.\<close>

theorem ioftdi_buffer_safe:
  assumes "bulk_ok (ev_usb E)"
  shows "upholds in_buffer (cb_tms (ioftdi_cable E) pat n force) \<and>
    upholds in_buffer (cb_txrx (ioftdi_cable E) tdi tdo len final) \<and>
    upholds in_buffer (cb_usleep (ioftdi_cable E) usec)"
  using tx_tms_in_buffer [OF assms] txrx_in_buffer [OF assms] Usleep_in_buffer [OF assms]
  by (simp add: ioftdi_cable_def)

theorem ioftdi_buffer_safe_witness:
  "\<exists>r s'. cb_txrx (ioftdi_cable (sample_env packet_usb)) (Some [5, 9]) (Some [0, 0]) 11 True
       (sample_ioftdi []) = (r, s') \<and> r \<noteq> Crashes \<and> bptr s' \<le> TX_BUF - 2"
proof -
  obtain r s' where run: "cb_txrx (ioftdi_cable (sample_env packet_usb)) (Some [5, 9]) (Some [0, 0]) 11 True
       (sample_ioftdi []) = (r, s')"
    by (metis prod.exhaust)
  have start: "in_buffer (sample_ioftdi [])"
    by (simp add: in_buffer_def sample_ioftdi_def ioftdi_blank_def)
  have "bulk_ok (ev_usb (sample_env packet_usb))" by (simp add: sample_env_def)
  from upholdsD [OF conjunct1 [OF conjunct2 [OF ioftdi_buffer_safe [OF this]]] start run] run
  show ?thesis by (simp add: in_buffer_def)
qed

end
