(* ===== verification/Cable.thy ===== *)
theory Cable
  imports Tap
begin

unbundle bit_operations_syntax

text \<open>
  The contract between the base class of the cables and a cable, as a locale: the clock cycles
  each virtual function makes when it returns. From it follow the clock cycles of every
  operation of the base class, with the buffered TMS values counted as already made.
\<close>

locale jtag_cable =
  fixes D :: "'s cable" and clocks :: "'s \<Rightarrow> clk list" and ok :: "'s \<Rightarrow> bool"
  assumes cable_tms: "ok s \<Longrightarrow> 0 < n \<Longrightarrow> n \<le> 8 * length pat \<Longrightarrow>
      cb_tms D pat n force s = (Ret u, s') \<Longrightarrow>
      ok s' \<and> clocks s' = clocks s @ tms_clocks (bits_of pat n)"
    and cable_txrx: "ok s \<Longrightarrow> 0 < n \<Longrightarrow> tdi \<noteq> None \<or> tdo \<noteq> None \<Longrightarrow> (\<And>b. tdi = Some b \<Longrightarrow> n \<le> 8 * length b) \<Longrightarrow>
      cb_txrx D tdi tdo n final s = (Ret r, s') \<Longrightarrow>
      ok s' \<and> clocks s' = clocks s @ data_clocks (held (clocks s)) (tdi_bits tdi n) final"
    and cable_usleep: "ok s \<Longrightarrow> cb_usleep D usec s = (Ret u, s') \<Longrightarrow>
      ok s' \<and> (\<exists>k. clocks s' = clocks s @ map (Pair (held (clocks s))) (replicate k None))"
begin

text \<open>All cycles, the ones waiting in the buffer included.\<close>

definition wires :: "'s iobase \<Rightarrow> clk list" where
  "wires s = clocks (drv s) @ tms_clocks (bits_of (tms_buf s) (tms_len s))"

text \<open>The buffer has its size, and is zero beyond its length: \<open>set_tms\<close> only sets bits.\<close>

definition io_ok :: "'s iobase \<Rightarrow> bool" where
  "io_ok s \<longleftrightarrow> ok (drv s) \<and> length (tms_buf s) = CHUNK_SIZE \<and> tms_len s \<le> CHUNK_SIZE * 8 \<and>
     (\<forall>i. tms_len s \<le> i \<longrightarrow> i < CHUNK_SIZE * 8 \<longrightarrow> \<not> bit_at (tms_buf s) i)"

lemma io_ok_init: "ok d \<Longrightarrow> io_ok (iobase_init d) \<and> wires (iobase_init d) = clocks d"
  by (simp add: io_ok_def wires_def iobase_init_def bit_at_def)

lemma flush_tms_wires:
  assumes "io_ok s" and "flush_tms D force s = (Ret u, s')"
  shows "io_ok s' \<and> wires s' = wires s \<and> tms_len s' = 0"
proof (cases "tms_len s = 0")
  case True
  then show ?thesis
    using assms by (auto simp: flush_tms_def io_ok_def wires_def bit_at_def)
next
  case False
  with assms(2) obtain d u2 where call: "cb_tms D (tms_buf s) (tms_len s) force (drv s) = (Ret u2, d)"
      and s': "s' = s\<lparr>drv := d, tms_buf := zeros, tms_len := 0\<rparr>"
    by (auto simp: flush_tms_def on_drv_def)
  have "ok d \<and> clocks d = clocks (drv s) @ tms_clocks (bits_of (tms_buf s) (tms_len s))"
    using cable_tms [OF _ _ _ call] assms(1) False by (simp add: io_ok_def)
  then show ?thesis by (simp add: s' io_ok_def wires_def bit_at_def)
qed

lemma put_tms_wires:
  assumes "io_ok s" and "tms_len s < CHUNK_SIZE * 8"
  shows "io_ok (put_tms val s)" and "wires (put_tms val s) = wires s @ [(val, Some True)]"
proof -
  let ?n = "tms_len s" and ?b' = "tms_buf (put_tms val s)"
  have len: "length (tms_buf s) = CHUNK_SIZE" using assms(1) by (simp add: io_ok_def)
  have "bit_at ?b' i = (if i = ?n then val else bit_at (tms_buf s) i)" if "i < CHUNK_SIZE * 8" for i
  proof -
    have "\<not> bit_at (tms_buf s) ?n" using assms by (simp add: io_ok_def)
    moreover have "i div 8 = ?n div 8 \<and> i mod 8 = ?n mod 8 \<longleftrightarrow> i = ?n"
      by (metis div_mult_mod_eq)
    ultimately show ?thesis
      using that len assms(2)
      by (auto simp: put_tms_def bit_at_def nth_list_update bit_simps)
  qed
  note bits = this
  show "io_ok (put_tms val s)"
    using assms bits by (auto simp: io_ok_def put_tms_def)
  have "bits_of ?b' ?n = bits_of (tms_buf s) ?n"
    using bits assms(2) by (auto simp: bits_of_def)
  then show "wires (put_tms val s) = wires s @ [(val, Some True)]"
    using bits [of ?n] assms(2) by (simp add: wires_def bits_of_Suc put_tms_def)
qed

lemma set_tms_wires:
  assumes "io_ok s" and "set_tms D val s = (Ret u, s')"
  shows "io_ok s' \<and> wires s' = wires s @ [(val, Some True)]"
proof (cases "tms_len s + 1 > CHUNK_SIZE * 8")
  case True
  with assms(2) obtain u1 s1 where 1: "flush_tms D False s = (Ret u1, s1)" and s': "s' = put_tms val s1"
    by (auto simp: set_tms_def)
  from flush_tms_wires [OF assms(1) 1] put_tms_wires [of s1 val] show ?thesis by (simp add: s')
next
  case False
  with assms(2) have "s' = put_tms val s" by (simp add: set_tms_def)
  with put_tms_wires [OF assms(1), of val] False show ?thesis by simp
qed

lemma txrx_wires:
  assumes "io_ok s" and "tms_len s = 0" and "0 < n" and "tdi \<noteq> None \<or> tdo \<noteq> None" and "\<And>b. tdi = Some b \<Longrightarrow> n \<le> 8 * length b"
    and "on_drv (cb_txrx D tdi tdo n final) s = (Ret r, s')"
  shows "io_ok s' \<and> tms_len s' = 0 \<and>
    wires s' = wires s @ data_clocks (held (wires s)) (tdi_bits tdi n) final"
proof -
  obtain d where call: "cb_txrx D tdi tdo n final (drv s) = (Ret r, d)" and s': "s' = s\<lparr>drv := d\<rparr>"
    using assms(6) by (auto simp: on_drv_def)
  from cable_txrx [OF _ assms(3-5) call] show ?thesis
    using assms(1,2) by (simp add: s' io_ok_def wires_def)
qed

lemma shiftTDITDO_wires:
  assumes "io_ok s" and "tdi \<noteq> None \<or> tdo \<noteq> None" and "\<And>b. tdi = Some b \<Longrightarrow> n \<le> 8 * length b"
    and "shiftTDITDO D tdi tdo n final s = (Ret r, s')"
  shows "io_ok s' \<and> wires s' = wires s @ data_clocks (held (wires s)) (tdi_bits tdi n) final"
proof (cases "n = 0")
  case True
  then show ?thesis using assms(1,4) by (simp add: shiftTDITDO_def)
next
  case False
  then obtain s1 u where "flush_tms D False s = (Ret u, s1)"
      and 2: "on_drv (cb_txrx D tdi tdo n final) s1 = (Ret r, s')"
    using assms(4) by (auto simp: shiftTDITDO_def)
  with flush_tms_wires [OF assms(1)]
  have "io_ok s1" and 1: "wires s1 = wires s" and "tms_len s1 = 0" by simp_all
  from txrx_wires [OF this(1,3) _ assms(2,3) 2] show ?thesis using False by (simp add: 1)
qed

lemma shift_loop_wires:
  "io_ok s \<Longrightarrow> tms_len s = 0 \<Longrightarrow> length block = CHUNK_SIZE \<Longrightarrow> (\<And>i. i < CHUNK_SIZE * 8 \<Longrightarrow> bit_at block i = b) \<Longrightarrow>
   shift_loop D block n final s = (Ret u, s') \<Longrightarrow>
   io_ok s' \<and> wires s' = wires s @ data_clocks (held (wires s)) (replicate n (Some b)) final"
proof (induction n arbitrary: s rule: less_induct)
  case (less n)
  have bits: "tdi_bits (Some block) k = replicate k (Some b)" if "k \<le> CHUNK_SIZE * 8" for k
  proof -
    have "map (Some \<circ> bit_at block) [0..<k] = map (\<lambda>_. Some b) [0..<k]"
      using that less.prems(4) by auto
    then show ?thesis by (simp add: tdi_bits_def bits_of_def map_replicate_const)
  qed
  show ?case
  proof (cases "n > CHUNK_SIZE * 8")
    case False
    then have "shiftTDI D (Some block) n final s = (Ret u, s')"
      using less.prems(5) by (subst (asm) shift_loop.simps) simp
    then obtain r where "shiftTDITDO D (Some block) None n final s = (Ret r, s')"
      by (auto simp: shiftTDI_def)
    from shiftTDITDO_wires [OF less.prems(1) _ _ this] show ?thesis
      using False less.prems(3) by (simp add: bits)
  next
    case True
    let ?m = "n - CHUNK_SIZE * 8"
    obtain r s1 where 1: "on_drv (cb_txrx D (Some block) None (CHUNK_SIZE * 8) False) s = (Ret r, s1)"
        and 2: "shift_loop D block ?m final s1 = (Ret u, s')"
      using less.prems(5) True by (subst (asm) shift_loop.simps) (auto split: prod.splits outcome.splits)
    have s1: "io_ok s1" "tms_len s1 = 0"
        "wires s1 = wires s @ data_clocks (held (wires s)) (replicate (CHUNK_SIZE * 8) (Some b)) False"
      using txrx_wires [OF less.prems(1,2) _ _ _ 1] less.prems(3) by (simp_all add: bits)
    have "io_ok s' \<and> wires s' = wires s1 @ data_clocks (held (wires s1)) (replicate ?m (Some b)) final"
      using True by (intro less.IH [OF _ s1(1,2) less.prems(3,4) 2]) auto
    moreover have "held (wires s1) = held (wires s)" by (simp add: s1(3))
    moreover have "replicate n (Some b) = replicate (CHUNK_SIZE * 8) (Some b) @ replicate ?m (Some b)"
      using True by (simp add: replicate_add [symmetric])
    ultimately show ?thesis
      using True data_clocks_append [of "replicate ?m (Some b)"] by (simp add: s1(3))
  qed
qed

lemma shift_wires:
  assumes "io_ok s" and "shift D b n final s = (Ret u, s')"
  shows "io_ok s' \<and> wires s' = wires s @ data_clocks (held (wires s)) (replicate n (Some b)) final"
proof -
  obtain s1 u1 where "flush_tms D False s = (Ret u1, s1)"
      and 2: "shift_loop D (if b then ones else zeros) n final s1 = (Ret u, s')"
    using assms(2) by (auto simp: shift_def)
  with flush_tms_wires [OF assms(1)]
  have s1: "io_ok s1" "wires s1 = wires s" "tms_len s1 = 0" by simp_all
  have "bit_at (if b then ones else zeros) i = b" if "i < CHUNK_SIZE * 8" for i
  proof -
    have "i mod 8 < 8" by simp
    then have "bit (0xff :: byte) (i mod 8)"
      using bit_mask_iff [of 8 "i mod 8", where ?'a = "8 word"] by (simp add: mask_eq_exp_minus_1)
    then show ?thesis using that by (simp add: bit_at_def less_mult_imp_div_less)
  qed
  from shift_loop_wires [OF s1(1,3) _ this 2] show ?thesis by (simp add: s1(2))
qed

lemma Usleep_wires:
  assumes "io_ok s" and "io_Usleep D usec s = (Ret u, s')"
  shows "io_ok s' \<and> (\<exists>k. wires s' = wires s @ map (Pair (held (wires s))) (replicate k None))"
proof -
  obtain s1 u1 d where "flush_tms D False s = (Ret u1, s1)"
      and 2: "cb_usleep D usec (drv s1) = (Ret u, d)" and s': "s' = s1\<lparr>drv := d\<rparr>"
    using assms(2) by (auto simp: io_Usleep_def on_drv_def)
  with flush_tms_wires [OF assms(1)]
  have s1: "io_ok s1" "wires s1 = wires s" "tms_len s1 = 0" by simp_all
  from cable_usleep [OF _ 2] s1 show ?thesis
    unfolding s' io_ok_def wires_def by auto
qed

end

end
