(* ===== verification/Jtag.thy ===== *)
theory Jtag
  imports Cable
begin

unbundle bit_operations_syntax

text \<open>
  The JTAG layer (\<open>src/devices/xc3sprog/jtag.h\<close>, \<open>jtag.cpp\<close>): the chain of devices, the state
  the TAP controllers are believed to be in, and the shifts through the instruction and data
  registers of one device with the others in bypass. The debug output to \<open>fp_dbg\<close> is left out.
\<close>

section \<open>State\<close>

type_synonym u64 = "64 word"

record chainParam_t =
  idcode :: u32
  irlen :: int

record 's jtag =
  current_state :: tapState_t
  devices :: "chainParam_t list"
  numDevices :: int
  postDRState :: tapState_t
  postIRState :: tapState_t
  deviceIndex :: int
  shiftDRincomplete :: bool
  io :: "'s iobase"

abbreviation (input) MAXNUMDEVICES :: int where "MAXNUMDEVICES \<equiv> 1000"

definition Jtag_init :: "'s iobase \<Rightarrow> 's jtag" where
  "Jtag_init iob =
     \<lparr>current_state = UNKNOWN, devices = [], numDevices = -1, postDRState = RUN_TEST_IDLE,
      postIRState = RUN_TEST_IDLE, deviceIndex = -1, shiftDRincomplete = False, io = iob\<rparr>"

definition on_io :: "('s iobase, 'a) act \<Rightarrow> ('s jtag, 'a) act" where
  "on_io = on_part io (\<lambda>d j. j\<lparr>io := d\<rparr>)"

lemma on_io_returns [simp]:
  "on_io m j = (Ret x, j') \<longleftrightarrow> (\<exists>d. m (io j) = (Ret x, d) \<and> j' = j\<lparr>io := d\<rparr>)"
  by (simp add: on_io_def)

lemma on_io_state: "(Ret x, j') = on_io m j \<Longrightarrow> \<exists>d. j' = j\<lparr>io := d\<rparr>"
  by (metis on_io_returns)

definition byteArrayToLong :: "byte list \<Rightarrow> u64" where
  "byteArrayToLong b =
     push_bit 24 (ucast (b ! 3)) + push_bit 16 (ucast (b ! 2)) + push_bit 8 (ucast (b ! 1)) + ucast (b ! 0)"

definition getDeviceID :: "nat \<Rightarrow> 's jtag \<Rightarrow> u32" where
  "getDeviceID d j = (if d \<ge> length (devices j) then 0 else idcode (devices j ! d))"

section \<open>Moving the TAP controllers\<close>

definition tapTestLogicReset :: "'s cable \<Rightarrow> ('s jtag, unit) act" where
  "tapTestLogicReset D =
     then_act (run_acts (replicate 5 (on_io (set_tms D True))))
       (then_act (modify_act (\<lambda>j. j\<lparr>current_state := TEST_LOGIC_RESET\<rparr>))
         (on_io (flush_tms D True)))"

definition nextTapState :: "'s cable \<Rightarrow> bool \<Rightarrow> ('s jtag, unit) act" where
  "nextTapState D tms j =
     (if current_state j = SHIFT_DR then
        (Ret (), if tms then j\<lparr>current_state := EXIT1_DR\<rparr> else j)
      else if current_state j = SHIFT_IR then
        (Ret (), if tms then j\<lparr>current_state := EXIT1_IR\<rparr> else j)
      else tapTestLogicReset D j)"

text \<open>
  One round of the loop of \<open>setTapState\<close>, for a current state other than the target \<open>t\<close> and other
  than \<open>UNKNOWN\<close>: the level of TMS and the next state.
\<close>

fun tap_step :: "tapState_t \<Rightarrow> tapState_t \<Rightarrow> bool \<times> tapState_t" where
  "tap_step TEST_LOGIC_RESET t =
     (if t = TEST_LOGIC_RESET then (True, TEST_LOGIC_RESET) else (False, RUN_TEST_IDLE))"
| "tap_step RUN_TEST_IDLE t =
     (if t = RUN_TEST_IDLE then (False, RUN_TEST_IDLE) else (True, SELECT_DR_SCAN))"
| "tap_step SELECT_DR_SCAN t =
     (if t \<in> {CAPTURE_DR, SHIFT_DR, EXIT1_DR, PAUSE_DR, EXIT2_DR, UPDATE_DR}
      then (False, CAPTURE_DR) else (True, SELECT_IR_SCAN))"
| "tap_step CAPTURE_DR t = (if t = SHIFT_DR then (False, SHIFT_DR) else (True, EXIT1_DR))"
| "tap_step SHIFT_DR t = (if t = SHIFT_DR then (False, SHIFT_DR) else (True, EXIT1_DR))"
| "tap_step EXIT1_DR t =
     (if t \<in> {PAUSE_DR, EXIT2_DR, SHIFT_DR, EXIT1_DR} then (False, PAUSE_DR) else (True, UPDATE_DR))"
| "tap_step PAUSE_DR t = (if t = PAUSE_DR then (False, PAUSE_DR) else (True, EXIT2_DR))"
| "tap_step EXIT2_DR t =
     (if t \<in> {SHIFT_DR, EXIT1_DR, PAUSE_DR} then (False, SHIFT_DR) else (True, UPDATE_DR))"
| "tap_step UPDATE_DR t =
     (if t = RUN_TEST_IDLE then (False, RUN_TEST_IDLE) else (True, SELECT_DR_SCAN))"
| "tap_step SELECT_IR_SCAN t =
     (if t \<in> {CAPTURE_IR, SHIFT_IR, EXIT1_IR, PAUSE_IR, EXIT2_IR, UPDATE_IR}
      then (False, CAPTURE_IR) else (True, TEST_LOGIC_RESET))"
| "tap_step CAPTURE_IR t = (if t = SHIFT_IR then (False, SHIFT_IR) else (True, EXIT1_IR))"
| "tap_step SHIFT_IR t = (if t = SHIFT_IR then (False, SHIFT_IR) else (True, EXIT1_IR))"
| "tap_step EXIT1_IR t =
     (if t \<in> {PAUSE_IR, EXIT2_IR, SHIFT_IR, EXIT1_IR} then (False, PAUSE_IR) else (True, UPDATE_IR))"
| "tap_step PAUSE_IR t = (if t = PAUSE_IR then (False, PAUSE_IR) else (True, EXIT2_IR))"
| "tap_step EXIT2_IR t =
     (if t \<in> {SHIFT_IR, EXIT1_IR, PAUSE_IR} then (False, SHIFT_IR) else (True, UPDATE_IR))"
| "tap_step UPDATE_IR t =
     (if t = RUN_TEST_IDLE then (False, RUN_TEST_IDLE) else (True, SELECT_DR_SCAN))"
| "tap_step UNKNOWN t = (True, TEST_LOGIC_RESET)"

text \<open>How many rounds it takes to the target.\<close>

fun tap_rounds :: "nat \<Rightarrow> tapState_t \<Rightarrow> tapState_t \<Rightarrow> nat" where
  "tap_rounds 0 s t = 0"
| "tap_rounds (Suc n) s t = (if s = t then 0 else Suc (tap_rounds n (snd (tap_step s t)) t))"

lemma tap_rounds_step:
  "s \<noteq> t \<Longrightarrow> t \<noteq> UNKNOWN \<Longrightarrow> tap_rounds 16 (snd (tap_step s t)) t < tap_rounds 16 s t"
  by (cases s; cases t) (simp_all add: eval_nat_numeral)

lemma tap_rounds_reset: "t \<noteq> UNKNOWN \<Longrightarrow> tap_rounds 16 TEST_LOGIC_RESET t < tap_rounds 16 UNKNOWN t"
  using tap_rounds_step [of UNKNOWN t] by simp

text \<open>
  The loop of \<open>setTapState\<close>. With the target \<open>UNKNOWN\<close> it never ends, unless that is the current
  state already.
\<close>

function tap_loop :: "'s cable \<Rightarrow> tapState_t \<Rightarrow> ('s jtag, unit) act" where
  "tap_loop D t j =
     (if current_state j = t then (Ret (), j)
      else if t = UNKNOWN then (Hangs, j)
      else
        (case (if current_state j = UNKNOWN then tapTestLogicReset D j
               else (Ret (), j\<lparr>current_state := snd (tap_step (current_state j) t)\<rparr>)) of
           (Ret _, j1) \<Rightarrow>
             (case on_io (set_tms D (fst (tap_step (current_state j) t))) j1 of
                (Ret _, j2) \<Rightarrow> tap_loop D t j2
              | (Throws e, j2) \<Rightarrow> (Throws e, j2)
              | (Crashes, j2) \<Rightarrow> (Crashes, j2)
              | (Hangs, j2) \<Rightarrow> (Hangs, j2))
         | (Throws e, j1) \<Rightarrow> (Throws e, j1)
         | (Crashes, j1) \<Rightarrow> (Crashes, j1)
         | (Hangs, j1) \<Rightarrow> (Hangs, j1)))"
  by pat_completeness auto

lemma reset_state:
  assumes "tapTestLogicReset D j = (Ret u, j')"
  shows "\<exists>d. j' = j\<lparr>current_state := TEST_LOGIC_RESET, io := d\<rparr>"
proof -
  have "run_acts (replicate n (on_io m)) j = (Ret u, j') \<Longrightarrow> \<exists>d. j' = j\<lparr>io := d\<rparr>"
    for n and m :: "('a iobase, unit) act" and j j' :: "'a jtag" and u
  proof (induction n arbitrary: j)
    case 0
    then show ?case by (auto intro: exI [of _ "io j"])
  next
    case (Suc n)
    then show ?case by fastforce
  qed
  with assms show ?thesis unfolding tapTestLogicReset_def by fastforce
qed

termination tap_loop
  by (relation "measure (\<lambda>(D, t, j). tap_rounds 16 (current_state j) t)")
    (auto simp: tap_rounds_step tap_rounds_reset dest!: on_io_state reset_state [OF sym] split: if_splits)

declare tap_loop.simps [simp del]

definition setTapState :: "'s cable \<Rightarrow> tapState_t \<Rightarrow> nat \<Rightarrow> ('s jtag, unit) act" where
  "setTapState D t pre =
     then_act (tap_loop D t) (run_acts (replicate pre (on_io (set_tms D False))))"

section \<open>The chain\<close>

text \<open>
  The loop of \<open>getChain\<close>. \<open>idx\<close> is the buffer for the id, \<open>ir\<close> the value of \<open>irlen\<close> of a new
  \<open>chainParam_t\<close>, which the code leaves uninitialised.
\<close>

function chain_loop :: "'s cable \<Rightarrow> int \<Rightarrow> byte list \<Rightarrow> ('s jtag, unit) act" where
  "chain_loop D ir idx j =
     (case on_io (shiftTDITDO D (Some (replicate 4 0)) (Some idx) 32 False) j of
        (Ret r, j1) \<Rightarrow>
          (let id = byteArrayToLong (the r) in
           if id \<noteq> 0 \<and> id \<noteq> 0xffffffff then
             (let j2 = j1\<lparr>numDevices := numDevices j1 + 1,
                          devices := \<lparr>idcode = ucast id, irlen = ir\<rparr> # devices j1\<rparr> in
              if numDevices j2 < MAXNUMDEVICES then chain_loop D ir (the r) j2 else (Ret (), j2))
           else (Ret (), j1))
      | (Throws e, j1) \<Rightarrow> (Throws e, j1)
      | (Crashes, j1) \<Rightarrow> (Crashes, j1)
      | (Hangs, j1) \<Rightarrow> (Hangs, j1))"
  by pat_completeness auto
termination
  by (relation "measure (\<lambda>(D, ir, idx, j). nat (MAXNUMDEVICES - numDevices j))") (auto dest!: on_io_state)

declare chain_loop.simps [simp del]

definition getChain :: "'s cable \<Rightarrow> int \<Rightarrow> byte list \<Rightarrow> bool \<Rightarrow> ('s jtag, int) act" where
  "getChain D ir idx detect j =
     then_act
       (if numDevices j = -1 \<or> detect then
          then_act (tapTestLogicReset D)
            (then_act (setTapState D SHIFT_DR 0)
              (then_act (modify_act (\<lambda>j. j\<lparr>numDevices := 0\<rparr>))
                (then_act (chain_loop D ir idx) (setTapState D TEST_LOGIC_RESET 0))))
        else return_act ())
       (\<lambda>j. (Ret (numDevices j), j)) j"

definition selectDevice :: "int \<Rightarrow> ('s jtag, int) act" where
  "selectDevice d j =
     (let i = (if d \<ge> numDevices j then -1 else d) in (Ret i, j\<lparr>deviceIndex := i\<rparr>))"

definition setDeviceIRLength :: "int \<Rightarrow> int \<Rightarrow> ('s jtag, int) act" where
  "setDeviceIRLength d len j =
     (if d \<ge> numDevices j \<or> d < 0 then (Ret (-1), j)
      else (Ret d, j\<lparr>devices := (devices j)[nat d := (devices j ! nat d)\<lparr>irlen := len\<rparr>]\<rparr>))"

section \<open>Shifts\<close>

definition cycleTCK :: "'s cable \<Rightarrow> nat \<Rightarrow> bool \<Rightarrow> ('s jtag, unit) act" where
  "cycleTCK D n tdi = on_io (shift D tdi n False)"

definition jtag_Usleep :: "'s cable \<Rightarrow> nat \<Rightarrow> ('s jtag, unit) act" where
  "jtag_Usleep D usec = on_io (io_Usleep D usec)"

text \<open>\<open>while (pre <= 0) pre += align;\<close>\<close>

function align_pre :: "int \<Rightarrow> nat \<Rightarrow> int" where
  "align_pre pre align = (if pre \<le> 0 \<and> 0 < align then align_pre (pre + int align) align else pre)"
  by pat_completeness auto
termination by (relation "measure (\<lambda>(pre, align). nat (1 - pre))") auto

declare align_pre.simps [simp del]

definition shiftDR ::
  "'s cable \<Rightarrow> byte list option \<Rightarrow> byte list option \<Rightarrow> nat \<Rightarrow> nat \<Rightarrow> bool \<Rightarrow> ('s jtag, byte list option) act"
where
  "shiftDR D tdi tdo len align exit j =
     (if deviceIndex j < 0 then (Ret tdo, j)
      else
        (let post = nat (deviceIndex j);
             pre = (if align \<noteq> 0 then align_pre (- deviceIndex j) align
                    else numDevices j - deviceIndex j - 1);
             final = (post = 0 \<and> exit) in
         then_act (if \<not> shiftDRincomplete j then setTapState D SHIFT_DR (nat pre) else return_act ())
           (bind_act
             (if tdi = None \<and> tdo = None
              then then_act (on_io (shift D False len final)) (return_act None)
              else on_io (shiftTDITDO D tdi tdo len final))
             (\<lambda>res. then_act (nextTapState D final)
               (then_act
                 (if exit then
                    then_act (on_io (shift D False post True))
                      (then_act (if \<not> final then nextTapState D True else return_act ())
                        (then_act (\<lambda>j. setTapState D (postDRState j) 0 j)
                          (modify_act (\<lambda>j. j\<lparr>shiftDRincomplete := False\<rparr>))))
                  else modify_act (\<lambda>j. j\<lparr>shiftDRincomplete := True\<rparr>))
                 (return_act res)))) j))"

definition ir_bits :: "'s jtag \<Rightarrow> nat list \<Rightarrow> nat" where
  "ir_bits j ds = nat (sum_list (map (\<lambda>d. irlen (devices j ! d)) ds))"

definition shiftIR ::
  "'s cable \<Rightarrow> byte list option \<Rightarrow> byte list option \<Rightarrow> ('s jtag, byte list option) act"
where
  "shiftIR D tdi tdo j =
     (if deviceIndex j < 0 then (Ret tdo, j)
      else
        (let this = nat (deviceIndex j);
             pre = ir_bits j [this + 1..<nat (numDevices j)];
             post = ir_bits j [0..<this];
             len = nat (irlen (devices j ! this)) in
         then_act (setTapState D SHIFT_IR 0)
           (then_act (on_io (shift D True pre False))
             (bind_act (on_io (shiftTDITDO D tdi tdo len (post = 0)))
               (\<lambda>res. then_act (on_io (shift D True post True))
                 (then_act (nextTapState D True)
                   (then_act (\<lambda>j. setTapState D (postIRState j) 0 j) (return_act res)))))) j))"

end
