(* ===== verification/Jtag_Tap.thy ===== *)
theory Jtag_Tap
  imports Jtag
begin

unbundle bit_operations_syntax

text \<open>
  The JTAG layer against the TAP controllers of the chain: on any cable that keeps its
  contract, the state the code tracks is the state of the hardware, and the shifts take exactly
  the intended bits into the registers of the devices.
\<close>

section \<open>The paths of setTapState\<close>

lemma tap_step_next:
  "s \<noteq> t \<Longrightarrow> s \<noteq> UNKNOWN \<Longrightarrow> t \<noteq> UNKNOWN \<Longrightarrow> tap_next (fst (tap_step s t)) s = snd (tap_step s t)"
  by (cases s; cases t) simp_all

lemma tap_step_known: "s \<noteq> t \<Longrightarrow> t \<noteq> UNKNOWN \<Longrightarrow> snd (tap_step s t) \<noteq> UNKNOWN"
  by (cases s; cases t) simp_all

fun tap_path :: "nat \<Rightarrow> tapState_t \<Rightarrow> tapState_t \<Rightarrow> bool list" where
  "tap_path 0 s t = []"
| "tap_path (Suc n) s t =
     (if s = t then [] else fst (tap_step s t) # tap_path n (snd (tap_step s t)) t)"

lemma tap_path_step:
  "s \<noteq> t \<Longrightarrow> t \<noteq> UNKNOWN \<Longrightarrow>
   tap_path 16 s t = fst (tap_step s t) # tap_path 16 (snd (tap_step s t)) t"
  by (cases s; cases t) (simp_all add: eval_nat_numeral)

lemma tap_path_same [simp]: "tap_path 16 t t = []"
  by (simp add: eval_nat_numeral)

text \<open>The longest path is the one from a state to just before it, through the other column.\<close>

lemma tap_path_length: "t \<noteq> UNKNOWN \<Longrightarrow> length (tap_path 16 s t) \<le> 9"
  by (cases s; cases t) (simp_all add: eval_nat_numeral)

text \<open>The TMS values of \<open>setTapState\<close>; from an unknown state the controllers are reset first.\<close>

definition tap_moves :: "tapState_t \<Rightarrow> tapState_t \<Rightarrow> bool list" where
  "tap_moves s t =
     (if s = UNKNOWN then replicate 6 True @ tap_path 16 TEST_LOGIC_RESET t else tap_path 16 s t)"

lemma tap_path_run:
  "s \<noteq> UNKNOWN \<Longrightarrow> t \<noteq> UNKNOWN \<Longrightarrow> tap_run s (tms_clocks (tap_path 16 s t)) = t"
  by (cases s; cases t) (simp_all add: eval_nat_numeral)

lemma tap_loop_returns:
  assumes "tap_loop D t j = (Ret u, j')" and "current_state j \<noteq> t" and "t \<noteq> UNKNOWN"
  obtains u1 j1 u2 d where
    "(if current_state j = UNKNOWN then tapTestLogicReset D j
      else (Ret (), j\<lparr>current_state := snd (tap_step (current_state j) t)\<rparr>)) = (Ret u1, j1)"
    and "set_tms D (fst (tap_step (current_state j) t)) (io j1) = (Ret u2, d)"
    and "tap_loop D t (j1\<lparr>io := d\<rparr>) = (Ret u, j')"
proof -
  let ?reset = "\<lambda>j. if current_state j = UNKNOWN then tapTestLogicReset D j
      else (Ret (), j\<lparr>current_state := snd (tap_step (current_state j) t)\<rparr>)"
  have "tap_loop D t j =
      bind_act ?reset (\<lambda>_. bind_act (on_io (set_tms D (fst (tap_step (current_state j) t)))) (\<lambda>_. tap_loop D t)) j"
    using assms(2,3) by (subst tap_loop.simps) (simp only: bind_act_def if_False)
  with assms(1) that show thesis by auto
qed

section \<open>Tracking\<close>

context jtag_cable
begin

definition tracks :: "'s jtag \<Rightarrow> bool" where
  "tracks j \<longleftrightarrow> io_ok (io j) \<and>
     (current_state j \<noteq> UNKNOWN \<longrightarrow>
        (\<forall>s. s \<noteq> UNKNOWN \<longrightarrow> tap_run s (wires (io j)) = current_state j) \<and>
        stays (current_state j) (held (wires (io j))))"

lemma tracks_io_ok [simp]: "tracks j \<Longrightarrow> io_ok (io j)"
  by (simp add: tracks_def)

lemma tracks_frame:
  "tracks j \<Longrightarrow> io j' = io j \<Longrightarrow> current_state j' = current_state j \<Longrightarrow> tracks j'"
  by (simp add: tracks_def)

lemma tracks_tms:
  assumes "tracks j" and "current_state j \<noteq> UNKNOWN" and "set_tms D b (io j) = (Ret u, d)"
    and "current_state j' = tap_next b (current_state j)" and "io j' = d"
  shows "tracks j'"
  using set_tms_wires [OF _ assms(3)] assms by (auto simp: tracks_def stays_next)

lemma tms_ones:
  "io_ok (io j) \<Longrightarrow> run_acts (replicate n (on_io (set_tms D b))) j = (Ret u, j') \<Longrightarrow>
   \<exists>d. j' = j\<lparr>io := d\<rparr> \<and> io_ok d \<and> wires d = wires (io j) @ tms_clocks (replicate n b)"
proof (induction n arbitrary: j)
  case 0
  then show ?case by (auto intro: exI [of _ "io j"])
next
  case (Suc n)
  then obtain d1 where 1: "set_tms D b (io j) = (Ret (), d1)"
      and 2: "run_acts (replicate n (on_io (set_tms D b))) (j\<lparr>io := d1\<rparr>) = (Ret u, j')"
    by auto
  from set_tms_wires [OF Suc.prems(1) 1] Suc.IH [OF _ 2] show ?case by auto
qed

lemma reset_wires:
  assumes "io_ok (io j)" and "tapTestLogicReset D j = (Ret u, j')"
  obtains d where "j' = j\<lparr>current_state := TEST_LOGIC_RESET, io := d\<rparr>" and "tracks j'"
    and "wires d = wires (io j) @ tms_clocks (replicate 5 True)"
proof -
  from assms(2) obtain j1 d where 1: "run_acts (replicate 5 (on_io (set_tms D True))) j = (Ret (), j1)"
      and 2: "flush_tms D True (io j1) = (Ret u, d)"
      and j': "j' = j1\<lparr>current_state := TEST_LOGIC_RESET, io := d\<rparr>"
    by (auto simp: tapTestLogicReset_def)
  from tms_ones [OF assms(1) 1] obtain d1 where d1: "j1 = j\<lparr>io := d1\<rparr>" "io_ok d1"
      "wires d1 = wires (io j) @ tms_clocks (replicate 5 True)" by blast
  have "io_ok d" "wires d = wires (io j) @ tms_clocks (replicate 5 True)"
    using flush_tms_wires [OF _ 2] d1 by auto
  moreover have "tap_run s (tms_clocks (replicate 5 True)) = TEST_LOGIC_RESET" if "s \<noteq> UNKNOWN" for s
    using tap_five_ones [OF that] by (simp add: eval_nat_numeral)
  moreover have "held (wires (io j) @ tms_clocks (replicate 5 True))"
    using held_simps(3) [of "wires (io j)" "replicate 4 True" True]
    by (simp add: eval_nat_numeral)
  ultimately have "tracks j'"
    by (simp add: j' d1(1) tracks_def stays_def stable_def)
  with that [of d] show ?thesis using \<open>wires d = _\<close> by (simp add: j' d1(1))
qed


lemma tap_loop_wires:
  "tracks j \<Longrightarrow> t \<noteq> UNKNOWN \<Longrightarrow> tap_loop D t j = (Ret u, j') \<Longrightarrow>
   \<exists>d. j' = j\<lparr>current_state := t, io := d\<rparr> \<and> tracks j' \<and>
     wires d = wires (io j) @ tms_clocks (tap_moves (current_state j) t)"
proof (induction "tap_rounds 16 (current_state j) t" arbitrary: j rule: less_induct)
  case less
  let ?s = "current_state j"
  let ?b = "fst (tap_step ?s t)" and ?s' = "snd (tap_step ?s t)"
  show ?case
  proof (cases "?s = t")
    case True
    then have "j' = j" using less.prems(3) by (subst (asm) tap_loop.simps) simp
    then show ?thesis
      using True less.prems by (auto simp: tap_moves_def intro!: exI [of _ "io j"])
  next
    case ne: False
    show ?thesis
    proof (cases "?s = UNKNOWN")
      case True
      then obtain u1 j1 u2 d where 1: "tapTestLogicReset D j = (Ret u1, j1)"
          and 2: "set_tms D True (io j1) = (Ret u2, d)"
          and 3: "tap_loop D t (j1\<lparr>io := d\<rparr>) = (Ret u, j')"
        using tap_loop_returns [OF less.prems(3) ne less.prems(2)] by (metis fst_conv tap_step.simps(17))
      from less.prems(1) have "io_ok (io j)" by simp
      then obtain d1 where j1: "j1 = j\<lparr>current_state := TEST_LOGIC_RESET, io := d1\<rparr>" "tracks j1"
          "wires d1 = wires (io j) @ tms_clocks (replicate 5 True)"
        by (rule reset_wires [OF _ 1])
      have "tracks (j1\<lparr>io := d\<rparr>)"
        by (rule tracks_tms [OF j1(2) _ 2]) (simp_all add: j1(1))
      moreover have "tap_rounds 16 TEST_LOGIC_RESET t < tap_rounds 16 ?s t"
        using tap_rounds_reset less.prems(2) True by simp
      ultimately obtain d2 where IH: "j' = j\<lparr>current_state := t, io := d2\<rparr>" "tracks j'"
          "wires d2 = wires d @ tms_clocks (tap_moves TEST_LOGIC_RESET t)"
        using less.hyps [of "j1\<lparr>io := d\<rparr>"] less.prems(2) 3 by (auto simp: j1(1))
      have "wires d = wires (io j) @ tms_clocks (replicate 6 True)"
        using set_tms_wires [OF _ 2] tracks_io_ok [OF j1(2)] j1(3)
        by (simp add: j1(1) eval_nat_numeral)
      then show ?thesis using IH True by (auto simp: tap_moves_def)
    next
      case False
      obtain u1 j1 u2 d where "(if ?s = UNKNOWN then tapTestLogicReset D j
            else (Ret (), j\<lparr>current_state := ?s'\<rparr>)) = (Ret u1, j1)"
          and "set_tms D ?b (io j1) = (Ret u2, d)" and "tap_loop D t (j1\<lparr>io := d\<rparr>) = (Ret u, j')"
        by (rule tap_loop_returns [OF less.prems(3) ne less.prems(2)])
      with False have 2: "set_tms D ?b (io j) = (Ret u2, d)"
          and 3: "tap_loop D t (j\<lparr>current_state := ?s', io := d\<rparr>) = (Ret u, j')"
        by auto
      let ?j = "j\<lparr>current_state := ?s', io := d\<rparr>"
      have cs: "current_state ?j = ?s'" by simp
      have tr: "tracks ?j"
        using tracks_tms [OF less.prems(1) False 2, of ?j] tap_step_next [OF ne False less.prems(2)] cs
        by (metis jtag.select_convs(8) jtag.surjective jtag.update_convs(8))
      have lt: "tap_rounds 16 (current_state ?j) t < tap_rounds 16 ?s t"
        unfolding cs by (rule tap_rounds_step [OF ne less.prems(2)])
      obtain d2 where IH: "j' = ?j\<lparr>current_state := t, io := d2\<rparr>" "tracks j'"
          "wires d2 = wires (io ?j) @ tms_clocks (tap_moves (current_state ?j) t)"
        using less.hyps [OF lt tr less.prems(2) 3] by blast
      have "wires d = wires (io j) @ [(?b, Some True)]"
        using set_tms_wires [OF _ 2] less.prems(1) by simp
      moreover have "tap_moves ?s t = ?b # tap_moves ?s' t"
        using tap_path_step [OF ne less.prems(2)] tap_step_known [OF ne less.prems(2)] False
        by (simp add: tap_moves_def)
      ultimately show ?thesis using IH by (intro exI [of _ d2]) simp
    qed
  qed
qed

lemma setTapState_wires:
  assumes "tracks j" and "t \<noteq> UNKNOWN" and "pre = 0 \<or> tap_next False t = t"
    and "setTapState D t pre j = (Ret u, j')"
  obtains d where "j' = j\<lparr>current_state := t, io := d\<rparr>" and "tracks j'"
    and "wires d = wires (io j) @ tms_clocks (tap_moves (current_state j) t @ replicate pre False)"
proof -
  from assms(4) obtain j1 where 1: "tap_loop D t j = (Ret (), j1)"
      and 2: "run_acts (replicate pre (on_io (set_tms D False))) j1 = (Ret u, j')"
    by (auto simp: setTapState_def)
  from tap_loop_wires [OF assms(1,2) 1] obtain d1 where d1: "j1 = j\<lparr>current_state := t, io := d1\<rparr>"
      "tracks j1" "wires d1 = wires (io j) @ tms_clocks (tap_moves (current_state j) t)" by blast
  from tms_ones [OF tracks_io_ok [OF d1(2)] 2] obtain d where d: "j' = j1\<lparr>io := d\<rparr>" "io_ok d"
      "wires d = wires (io j1) @ tms_clocks (replicate pre False)" by blast
  have "tap_run t (tms_clocks (replicate k False)) = t" if "tap_next False t = t" for k
    using that by (induction k) simp_all
  then have run: "tap_run t (tms_clocks (replicate pre False)) = t" using assms(3) by auto
  have "stays t (held (wires (io j1) @ tms_clocks (replicate pre False)))"
  proof (cases pre)
    case 0
    then show ?thesis using d1(2) assms(2) by (simp add: tracks_def d1(1))
  next
    case (Suc k)
    then have "tap_next False t = t" using assms(3) by simp
    moreover have "held (wires (io j1) @ tms_clocks (replicate pre False)) = False"
      using held_simps(3) [of "wires (io j1)" "replicate k False" False]
      by (simp only: Suc replicate_append_same replicate_Suc)
    ultimately show ?thesis using stays_next [OF assms(2), of False] by simp
  qed
  then have "tracks j'"
    using d d1 run assms(2) by (auto simp: tracks_def)
  with that [of d] d d1 show thesis by simp
qed

lemma nextTapState_tracks:
  assumes "io_ok (io j)" and "nextTapState D tms j = (Ret u, j')"
    and "current_state j \<in> {SHIFT_DR, SHIFT_IR} \<Longrightarrow>
      tracks (if tms then j\<lparr>current_state := tap_next True (current_state j)\<rparr> else j)"
  shows "tracks j' \<and> (\<exists>d s. j' = j\<lparr>current_state := s, io := d\<rparr> \<and>
    (s = TEST_LOGIC_RESET \<or> current_state j \<in> {SHIFT_DR, SHIFT_IR} \<and> d = io j \<and>
       s = (if tms then tap_next True (current_state j) else current_state j)))"
proof (cases "current_state j \<in> {SHIFT_DR, SHIFT_IR}")
  case True
  then have "j' = (if tms then j\<lparr>current_state := tap_next True (current_state j)\<rparr> else j)"
    using assms(2) by (auto simp: nextTapState_def)
  then show ?thesis using True assms(3) by (cases j) auto
next
  case False
  then have "tapTestLogicReset D j = (Ret u, j')" using assms(2) by (simp add: nextTapState_def)
  then obtain d where "j' = j\<lparr>current_state := TEST_LOGIC_RESET, io := d\<rparr>" and "tracks j'"
    by (rule reset_wires [OF assms(1)])
  then show ?thesis by blast
qed

text \<open>Clock cycles with TMS at the level it has do not move a controller in a stable state.\<close>

lemma tracks_level:
  assumes "tracks j" and "stable (current_state j)"
    and "io_ok d" and "wires d = wires (io j) @ map (Pair (held (wires (io j)))) ds"
  shows "tracks (j\<lparr>io := d\<rparr>)"
proof (cases "current_state j = UNKNOWN")
  case False
  then have "stays (current_state j) (held (wires (io j)))"
    and "\<And>s. s \<noteq> UNKNOWN \<Longrightarrow> tap_run s (wires (io j)) = current_state j"
    using assms(1) by (simp_all add: tracks_def)
  then show ?thesis using assms by (simp add: tracks_def tap_run_level)
next
  case True
  then show ?thesis using assms(3) by (simp add: tracks_def)
qed

end

text \<open>What a data shift puts on TDI.\<close>

definition out_bits :: "byte list option \<Rightarrow> byte list option \<Rightarrow> nat \<Rightarrow> bool option list" where
  "out_bits tdi tdo len =
     (if tdi = None \<and> tdo = None then replicate len (Some False) else tdi_bits tdi len)"

lemma length_out_bits [simp]: "length (out_bits tdi tdo len) = len"
  by (simp add: out_bits_def)

lemma out_bits_nonempty [simp]: "out_bits tdi tdo len \<noteq> [] \<longleftrightarrow> 0 < len"
  by (metis length_0_conv length_out_bits neq0_conv)

definition dr_pre :: "'s jtag \<Rightarrow> nat \<Rightarrow> nat" where
  "dr_pre j align =
     nat (if align \<noteq> 0 then align_pre (- deviceIndex j) align else numDevices j - deviceIndex j - 1)"

lemma shiftDR_returns:
  assumes "shiftDR D tdi tdo len align exit j = (Ret r, j')" and "0 \<le> deviceIndex j"
  defines "final \<equiv> nat (deviceIndex j) = 0 \<and> exit"
  obtains j1 j2 j3 where
    "(if shiftDRincomplete j then j1 = j else setTapState D SHIFT_DR (dr_pre j align) j = (Ret (), j1))"
    and "(if tdi = None \<and> tdo = None then then_act (on_io (shift D False len final)) (return_act None)
          else on_io (shiftTDITDO D tdi tdo len final)) j1 = (Ret r, j2)"
    and "nextTapState D final j2 = (Ret (), j3)"
    and "if exit then
           \<exists>d j4 j5. shift D False (nat (deviceIndex j)) True (io j3) = (Ret (), d) \<and>
             (if final then j4 = j3\<lparr>io := d\<rparr> else nextTapState D True (j3\<lparr>io := d\<rparr>) = (Ret (), j4)) \<and>
             setTapState D (postDRState j4) 0 j4 = (Ret (), j5) \<and> j' = j5\<lparr>shiftDRincomplete := False\<rparr>
         else j' = j3\<lparr>shiftDRincomplete := True\<rparr>"
proof -
  let ?data = "if tdi = None \<and> tdo = None then then_act (on_io (shift D False len final)) (return_act None)
      else on_io (shiftTDITDO D tdi tdo len final)"
  from assms(1,2) obtain j1 j2 j3 where
      1: "(if \<not> shiftDRincomplete j then setTapState D SHIFT_DR (dr_pre j align) else return_act ()) j =
          (Ret (), j1)"
      and 2: "?data j1 = (Ret r, j2)" and 3: "nextTapState D final j2 = (Ret (), j3)"
      and 4: "(if exit then
                then_act (on_io (shift D False (nat (deviceIndex j)) True))
                  (then_act (if \<not> final then nextTapState D True else return_act ())
                    (then_act (\<lambda>j. setTapState D (postDRState j) 0 j)
                      (modify_act (\<lambda>j. j\<lparr>shiftDRincomplete := False\<rparr>))))
              else modify_act (\<lambda>j. j\<lparr>shiftDRincomplete := True\<rparr>)) j3 = (Ret (), j')"
    unfolding shiftDR_def Let_def dr_pre_def final_def
    by (simp only: bind_act_returns then_act_returns return_act_returns not_less [symmetric] if_False)
      blast
  show thesis
  proof (rule that [OF _ 2 3])
    show "if shiftDRincomplete j then j1 = j else setTapState D SHIFT_DR (dr_pre j align) j = (Ret (), j1)"
      using 1 by (auto split: if_splits)
    show "if exit then
           \<exists>d j4 j5. shift D False (nat (deviceIndex j)) True (io j3) = (Ret (), d) \<and>
             (if final then j4 = j3\<lparr>io := d\<rparr> else nextTapState D True (j3\<lparr>io := d\<rparr>) = (Ret (), j4)) \<and>
             setTapState D (postDRState j4) 0 j4 = (Ret (), j5) \<and> j' = j5\<lparr>shiftDRincomplete := False\<rparr>
         else j' = j3\<lparr>shiftDRincomplete := True\<rparr>"
      using 4 by (cases exit; cases final) auto
  qed
qed

lemma held_append: "ys \<noteq> [] \<Longrightarrow> held (xs @ ys) = held ys"
  by (simp add: held_def)

text \<open>What the shifts leave alone.\<close>

definition chain_setup :: "'s jtag \<Rightarrow> chainParam_t list \<times> int \<times> tapState_t \<times> tapState_t \<times> int" where
  "chain_setup j = (devices j, numDevices j, postDRState j, postIRState j, deviceIndex j)"

lemma chain_setup_simps [simp]:
  "chain_setup (j\<lparr>io := d\<rparr>) = chain_setup j" "chain_setup (j\<lparr>current_state := s\<rparr>) = chain_setup j"
  "chain_setup (j\<lparr>shiftDRincomplete := i\<rparr>) = chain_setup j"
  by (simp_all add: chain_setup_def)

lemma chain_setup_fields:
  "chain_setup j' = chain_setup j \<Longrightarrow> devices j' = devices j \<and> numDevices j' = numDevices j \<and>
   postDRState j' = postDRState j \<and> postIRState j' = postIRState j \<and> deviceIndex j' = deviceIndex j"
  by (simp add: chain_setup_def)

context jtag_cable
begin

lemma data_wires:
  assumes "io_ok (io j)" and "\<And>b. tdi = Some b \<Longrightarrow> len \<le> 8 * length b"
    and "(if tdi = None \<and> tdo = None then then_act (on_io (shift D False len final)) (return_act None)
          else on_io (shiftTDITDO D tdi tdo len final)) j = (Ret r, j')"
  obtains d where "j' = j\<lparr>io := d\<rparr>" and "io_ok d"
    and "wires d = wires (io j) @ data_clocks (held (wires (io j))) (out_bits tdi tdo len) final"
proof (cases "tdi = None \<and> tdo = None")
  case True
  with assms(3) obtain d u where "shift D False len final (io j) = (Ret u, d)" and "j' = j\<lparr>io := d\<rparr>"
    by auto
  with shift_wires [OF assms(1) this(1)] that [of d] show thesis
    using True by (simp add: out_bits_def)
next
  case False
  with assms(3) obtain d where "shiftTDITDO D tdi tdo len final (io j) = (Ret r, d)" and "j' = j\<lparr>io := d\<rparr>"
    by (auto split: if_splits)
  with shiftTDITDO_wires [OF assms(1) _ assms(2) this(1)] that [of d] show thesis
    using False by (auto simp: out_bits_def)
qed

lemma data_tracks:
  assumes "tracks j" and cs: "current_state j \<in> {SHIFT_DR, SHIFT_IR}" and "final \<longrightarrow> ds \<noteq> []"
    and "io_ok d" and "wires d = wires (io j) @ data_clocks (held (wires (io j))) ds final"
  shows "tracks (if final then j\<lparr>current_state := tap_next True (current_state j), io := d\<rparr> else j\<lparr>io := d\<rparr>)"
proof -
  have st: "stays (current_state j) (held (wires (io j)))"
      and run: "\<And>s. s \<noteq> UNKNOWN \<Longrightarrow> tap_run s (wires (io j)) = current_state j"
    using assms(1,2) by (auto simp: tracks_def)
  have low: "held (wires (io j)) = False" using st cs by (auto simp: stays_def stable_def)
  show ?thesis
  proof (cases final)
    case True
    have "fst (last (data_clocks False ds True))" and "data_clocks False ds True \<noteq> []"
      using assms(3) True by (simp_all add: data_clocks_def)
    then have "held (wires d)"
      using True by (simp add: assms(5) low held_append) (simp add: held_def)
    moreover have "tap_run s (wires d) = tap_next True (current_state j)" if "s \<noteq> UNKNOWN" for s
      using run [OF that] cs assms(3) True by (auto simp only: assms(5) low tap_run_append) auto
    moreover have "tap_next True (current_state j) \<in> {EXIT1_DR, EXIT1_IR}" using cs by auto
    ultimately show ?thesis using assms(4) True by (auto simp: tracks_def stays_def stable_def)
  next
    case False
    have "tap_run s (wires d) = current_state j" if "s \<noteq> UNKNOWN" for s
      using run [OF that] cs False by (auto simp only: assms(5) low tap_run_append) auto
    moreover have "held (wires d) = held (wires (io j))" by (simp add: assms(5) False)
    ultimately show ?thesis using assms(4) st False by (simp add: tracks_def)
  qed
qed

lemma idle_tracks:
  assumes "tracks j" and "io_ok d" and "wires d = wires (io j)"
  shows "tracks (j\<lparr>io := d\<rparr>)"
  using assms by (simp add: tracks_def)

lemma shift_and_next:
  assumes "tracks j" and "final \<longrightarrow> ds \<noteq> []" and "io_ok d"
    and w: "wires d = wires (io j) @ data_clocks (held (wires (io j))) ds final"
    and nxt: "nextTapState D final (j\<lparr>io := d\<rparr>) = (Ret u, j')"
  shows "tracks j' \<and> chain_setup j' = chain_setup j \<and>
    (current_state j' = TEST_LOGIC_RESET \<or>
     current_state j \<in> {SHIFT_DR, SHIFT_IR} \<and> io j' = d \<and>
       current_state j' = (if final then tap_next True (current_state j) else current_state j))"
proof -
  have "tracks (if final then (j\<lparr>io := d\<rparr>)\<lparr>current_state := tap_next True (current_state (j\<lparr>io := d\<rparr>))\<rparr>
        else j\<lparr>io := d\<rparr>)" if "current_state (j\<lparr>io := d\<rparr>) \<in> {SHIFT_DR, SHIFT_IR}"
    using data_tracks [OF assms(1) _ assms(2,3) w] that
    by (cases final) (auto elim!: tracks_frame)
  from nextTapState_tracks [OF _ nxt this] assms(3)
  obtain d' s where "tracks j'" and j': "j' = j\<lparr>io := d, current_state := s, io := d'\<rparr>"
      and "s = TEST_LOGIC_RESET \<or> current_state j \<in> {SHIFT_DR, SHIFT_IR} \<and> d' = d \<and>
         s = (if final then tap_next True (current_state j) else current_state j)"
    by auto
  then show ?thesis by auto
qed

lemma shiftDR_tracks:
  assumes tr: "tracks j" and post: "postDRState j \<noteq> UNKNOWN" and len: "0 < len"
    and sz: "\<And>b. tdi = Some b \<Longrightarrow> len \<le> 8 * length b"
    and run: "shiftDR D tdi tdo len align exit j = (Ret r, j')"
  shows "tracks j' \<and> chain_setup j' = chain_setup j \<and>
    current_state j' \<in> {current_state j, postDRState j, SHIFT_DR, SHIFT_IR, TEST_LOGIC_RESET}"
proof (cases "deviceIndex j < 0")
  case True
  then have "j' = j" using run by (simp add: shiftDR_def)
  then show ?thesis using tr by simp
next
  case False
  let ?post = "nat (deviceIndex j)" and ?ds = "out_bits tdi tdo len"
  define final where "final \<longleftrightarrow> ?post = 0 \<and> exit"
  obtain j1 j2 j3 where
      1: "if shiftDRincomplete j then j1 = j else setTapState D SHIFT_DR (dr_pre j align) j = (Ret (), j1)"
      and 2: "(if tdi = None \<and> tdo = None then then_act (on_io (shift D False len final)) (return_act None)
          else on_io (shiftTDITDO D tdi tdo len final)) j1 = (Ret r, j2)"
      and 3: "nextTapState D final j2 = (Ret (), j3)"
      and 4: "if exit then
           \<exists>d j4 j5. shift D False ?post True (io j3) = (Ret (), d) \<and>
             (if final then j4 = j3\<lparr>io := d\<rparr> else nextTapState D True (j3\<lparr>io := d\<rparr>) = (Ret (), j4)) \<and>
             setTapState D (postDRState j4) 0 j4 = (Ret (), j5) \<and> j' = j5\<lparr>shiftDRincomplete := False\<rparr>
         else j' = j3\<lparr>shiftDRincomplete := True\<rparr>"
    using shiftDR_returns [OF run] False unfolding final_def by (metis not_less)
  have j1: "tracks j1 \<and> chain_setup j1 = chain_setup j"
  proof (cases "shiftDRincomplete j")
    case True
    then show ?thesis using 1 tr by simp
  next
    case False
    with 1 have "setTapState D SHIFT_DR (dr_pre j align) j = (Ret (), j1)" by simp
    then obtain d where "j1 = j\<lparr>current_state := SHIFT_DR, io := d\<rparr>" and "tracks j1"
      by (rule setTapState_wires [OF tr, rotated 2]) simp_all
    then show ?thesis by simp
  qed
  obtain d2 where d2: "j2 = j1\<lparr>io := d2\<rparr>" "io_ok d2"
      "wires d2 = wires (io j1) @ data_clocks (held (wires (io j1))) ?ds final"
    using data_wires [OF _ sz 2] j1 by auto
  note n3 = shift_and_next [OF conjunct1 [OF j1] _ d2(2,3) 3 [unfolded d2(1)]]
  have j3: "tracks j3" "chain_setup j3 = chain_setup j"
      "final \<or> current_state j3 \<in> {SHIFT_DR, SHIFT_IR, TEST_LOGIC_RESET}"
    using n3 j1 len by (simp_all, auto)
  show ?thesis
  proof (cases exit)
    case False
    then have "j' = j3\<lparr>shiftDRincomplete := True\<rparr>" and "\<not> final" using 4 by (simp_all add: final_def)
    then show ?thesis using j3 tracks_frame [OF j3(1), of j'] by auto
  next
    case True
    then obtain d j4 j5 where 5: "shift D False ?post True (io j3) = (Ret (), d)"
        and 6: "if final then j4 = j3\<lparr>io := d\<rparr> else nextTapState D True (j3\<lparr>io := d\<rparr>) = (Ret (), j4)"
        and 7: "setTapState D (postDRState j4) 0 j4 = (Ret (), j5)"
        and j': "j' = j5\<lparr>shiftDRincomplete := False\<rparr>"
      using 4 by auto
    note w5 = shift_wires [OF tracks_io_ok [OF j3(1)] 5]
    have j4: "tracks j4 \<and> chain_setup j4 = chain_setup j"
    proof (cases final)
      case f: True
      then have "wires d = wires (io j3)" using w5 by (simp add: final_def)
      then show ?thesis using idle_tracks [OF j3(1)] w5 6 f j3(2) by simp
    next
      case f: False
      then have "replicate ?post (Some False) \<noteq> []" using True by (simp add: final_def)
      then show ?thesis
        using shift_and_next [OF j3(1), of True "replicate ?post (Some False)" d] w5 6 f j3(2) by simp
    qed
    then have p4: "postDRState j4 = postDRState j" using chain_setup_fields by blast
    obtain d5 where "j5 = j4\<lparr>current_state := postDRState j, io := d5\<rparr>" and "tracks j5"
      using setTapState_wires [OF _ _ _ 7] j4 post by (auto simp: p4)
    then show ?thesis using j4 tracks_frame [of j5 j'] by (auto simp: j')
  qed
qed

end

section \<open>The bits a shift takes into the chain\<close>

context jtag_cable
begin

text \<open>A whole data shift of one device, from a state outside of the data column.\<close>

lemma shiftDR_wires:
  assumes tr: "tracks j" and st: "current_state j \<noteq> UNKNOWN" and inc: "\<not> shiftDRincomplete j"
    and dev: "0 \<le> deviceIndex j" and post: "postDRState j \<noteq> UNKNOWN" and len: "0 < len"
    and sz: "\<And>b. tdi = Some b \<Longrightarrow> len \<le> 8 * length b"
    and run: "shiftDR D tdi tdo len align True j = (Ret r, j')"
  shows "wires (io j') = wires (io j) @ tms_clocks (tap_moves (current_state j) SHIFT_DR) @
      tms_clocks (replicate (dr_pre j align) False) @
      data_clocks False (out_bits tdi tdo len @ replicate (nat (deviceIndex j)) (Some False)) True @
      tms_clocks (tap_moves EXIT1_DR (postDRState j)) \<and>
    tracks j' \<and> chain_setup j' = chain_setup j \<and> current_state j' = postDRState j \<and> \<not> shiftDRincomplete j'"
proof -
  let ?post = "nat (deviceIndex j)" and ?ds = "out_bits tdi tdo len"
  obtain j1 j2 j3 where
      1: "if shiftDRincomplete j then j1 = j else setTapState D SHIFT_DR (dr_pre j align) j = (Ret (), j1)"
      and 2: "(if tdi = None \<and> tdo = None then then_act (on_io (shift D False len (?post = 0 \<and> True))) (return_act None)
          else on_io (shiftTDITDO D tdi tdo len (?post = 0 \<and> True))) j1 = (Ret r, j2)"
      and 3: "nextTapState D (?post = 0 \<and> True) j2 = (Ret (), j3)"
      and 4: "if True then
           \<exists>d j4 j5. shift D False ?post True (io j3) = (Ret (), d) \<and>
             (if ?post = 0 \<and> True then j4 = j3\<lparr>io := d\<rparr> else nextTapState D True (j3\<lparr>io := d\<rparr>) = (Ret (), j4)) \<and>
             setTapState D (postDRState j4) 0 j4 = (Ret (), j5) \<and> j' = j5\<lparr>shiftDRincomplete := False\<rparr>
         else j' = j3\<lparr>shiftDRincomplete := True\<rparr>"
    by (rule shiftDR_returns [OF run dev])
  from 1 inc have "setTapState D SHIFT_DR (dr_pre j align) j = (Ret (), j1)" by simp
  then obtain d1 where j1: "j1 = j\<lparr>current_state := SHIFT_DR, io := d1\<rparr>" "tracks j1"
      "wires d1 = wires (io j) @ tms_clocks (tap_moves (current_state j) SHIFT_DR @ replicate (dr_pre j align) False)"
    by (rule setTapState_wires [OF tr, rotated 2]) simp_all
  have low: "held (wires d1) = False"
    using j1(2) by (simp add: j1(1) tracks_def stays_def stable_def)
  obtain d2 where d2: "j2 = j1\<lparr>io := d2\<rparr>" "io_ok d2"
      "wires d2 = wires d1 @ data_clocks False ?ds (?post = 0)"
    using data_wires [OF tracks_io_ok [OF j1(2)] sz 2] low by (auto simp: j1(1))
  obtain d j4 j5 where 5: "shift D False ?post True (io j3) = (Ret (), d)"
      and 6: "if ?post = 0 then j4 = j3\<lparr>io := d\<rparr> else nextTapState D True (j3\<lparr>io := d\<rparr>) = (Ret (), j4)"
      and 7: "setTapState D (postDRState j4) 0 j4 = (Ret (), j5)"
      and j': "j' = j5\<lparr>shiftDRincomplete := False\<rparr>"
    using 4 by auto
  have cs2: "current_state j2 = SHIFT_DR" by (simp add: d2(1) j1(1))
  have j3: "j3 = (if ?post = 0 then j2\<lparr>current_state := EXIT1_DR\<rparr> else j2)"
    using 3 cs2 by (auto simp: nextTapState_def)
  then have io3: "io j3 = d2" and c3: "chain_setup j3 = chain_setup j" by (simp_all add: d2(1) j1(1))
  note w5 = shift_wires [OF d2(2) 5 [unfolded io3]]
  have wd: "wires d = wires d1 @ data_clocks False (?ds @ replicate ?post (Some False)) True"
  proof (cases "?post = 0")
    case True
    then show ?thesis using w5 d2(3) by simp
  next
    case False
    then have "held (wires d2) = False" using d2(3) len low by simp
    then show ?thesis using w5 d2(3) False data_clocks_append [of "replicate ?post (Some False)"] by simp
  qed
  have "tracks (if True then j1\<lparr>current_state := tap_next True (current_state j1), io := d\<rparr> else j1\<lparr>io := d\<rparr>)"
    using wd w5 len low j1(1) by (intro data_tracks [OF j1(2)]) auto
  then have tr': "tracks (j1\<lparr>current_state := EXIT1_DR, io := d\<rparr>)" by (simp add: j1(1))
  have j4: "j4 = j3\<lparr>current_state := EXIT1_DR, io := d\<rparr>"
    using 6 cs2 by (cases j2; cases "?post = 0") (simp_all add: j3 nextTapState_def)
  have "tracks j4" by (rule tracks_frame [OF tr']) (simp_all add: j4)
  moreover have p4: "postDRState j4 = postDRState j" using chain_setup_fields [OF c3] by (simp add: j4)
  ultimately obtain d5 where "j5 = j4\<lparr>current_state := postDRState j, io := d5\<rparr>" and "tracks j5"
      "wires d5 = wires (io j4) @ tms_clocks (tap_moves (current_state j4) (postDRState j) @ replicate 0 False)"
    using setTapState_wires [OF _ _ _ 7] post by (metis p4)
  then show ?thesis
    using tracks_frame [of j5 j'] c3 by (simp add: j' j4 wd j1(3))
qed

lemma shiftIR_returns:
  assumes "shiftIR D tdi tdo j = (Ret r, j')" and "0 \<le> deviceIndex j"
  defines "this \<equiv> nat (deviceIndex j)"
  obtains j1 d2 d3 d4 j5 where
    "setTapState D SHIFT_IR 0 j = (Ret (), j1)"
    and "shift D True (ir_bits j [this + 1..<nat (numDevices j)]) False (io j1) = (Ret (), d2)"
    and "shiftTDITDO D tdi tdo (nat (irlen (devices j ! this))) (ir_bits j [0..<this] = 0) d2 = (Ret r, d3)"
    and "shift D True (ir_bits j [0..<this]) True d3 = (Ret (), d4)"
    and "nextTapState D True (j1\<lparr>io := d4\<rparr>) = (Ret (), j5)"
    and "setTapState D (postIRState j5) 0 j5 = (Ret (), j')"
  using assms unfolding shiftIR_def Let_def by (auto simp: not_less)

text \<open>A whole instruction shift: the other devices get the instruction BYPASS, all ones.\<close>

lemma shiftIR_wires:
  assumes tr: "tracks j" and dev: "0 \<le> deviceIndex j" and post: "postIRState j \<noteq> UNKNOWN"
    and ir: "0 < irlen (devices j ! nat (deviceIndex j))"
    and some: "tdi \<noteq> None \<or> tdo \<noteq> None"
    and sz: "\<And>b. tdi = Some b \<Longrightarrow> nat (irlen (devices j ! nat (deviceIndex j))) \<le> 8 * length b"
    and run: "shiftIR D tdi tdo j = (Ret r, j')"
  shows "wires (io j') = wires (io j) @ tms_clocks (tap_moves (current_state j) SHIFT_IR) @
      data_clocks False
        (replicate (ir_bits j [nat (deviceIndex j) + 1..<nat (numDevices j)]) (Some True) @
         tdi_bits tdi (nat (irlen (devices j ! nat (deviceIndex j)))) @
         replicate (ir_bits j [0..<nat (deviceIndex j)]) (Some True)) True @
      tms_clocks (tap_moves EXIT1_IR (postIRState j)) \<and>
    tracks j' \<and> chain_setup j' = chain_setup j \<and> current_state j' = postIRState j \<and>
    shiftDRincomplete j' = shiftDRincomplete j"
proof -
  define this where "this = nat (deviceIndex j)"
  let ?pre = "ir_bits j [this + 1..<nat (numDevices j)]" and ?post = "ir_bits j [0..<this]"
    and ?len = "nat (irlen (devices j ! this))"
  let ?ds = "replicate ?pre (Some True) @ tdi_bits tdi ?len @ replicate ?post (Some True)"
  obtain j1 d2 d3 d4 j5 where 1: "setTapState D SHIFT_IR 0 j = (Ret (), j1)"
      and 2: "shift D True ?pre False (io j1) = (Ret (), d2)"
      and 3: "shiftTDITDO D tdi tdo ?len (?post = 0) d2 = (Ret r, d3)"
      and 4: "shift D True ?post True d3 = (Ret (), d4)"
      and 5: "nextTapState D True (j1\<lparr>io := d4\<rparr>) = (Ret (), j5)"
      and 6: "setTapState D (postIRState j5) 0 j5 = (Ret (), j')"
    unfolding this_def by (rule shiftIR_returns [OF run dev])
  obtain d1 where j1: "j1 = j\<lparr>current_state := SHIFT_IR, io := d1\<rparr>" "tracks j1"
      "wires d1 = wires (io j) @ tms_clocks (tap_moves (current_state j) SHIFT_IR @ replicate 0 False)"
    by (rule setTapState_wires [OF tr _ _ 1]) simp_all
  have ok1: "io_ok d1" and low: "held (wires d1) = False"
    using j1(2) by (simp_all add: j1(1) tracks_def stays_def stable_def)
  have io1: "io j1 = d1" by (simp add: j1(1))
  note w2 = shift_wires [OF ok1 2 [unfolded io1]]
  then have low2: "held (wires d2) = False" using low by simp
  note w3 = shiftTDITDO_wires [OF conjunct1 [OF w2] some sz [folded this_def] 3, unfolded low2]
  have "0 < length (tdi_bits tdi ?len)" using ir by (simp add: this_def)
  then have len: "tdi_bits tdi ?len \<noteq> []" by (metis length_greater_0_conv)
  have low3: "held (wires d3) = False" if "?post \<noteq> 0"
    using w3 len that held_data [of "wires d2" False "tdi_bits tdi ?len"] by auto
  note w4 = shift_wires [OF conjunct1 [OF w3] 4]
  have wd: "wires d4 = wires d1 @ data_clocks False ?ds True"
  proof (cases "?post = 0")
    case True
    then show ?thesis
      using w4 w3 w2 low len data_clocks_append [of "tdi_bits tdi ?len" False] by simp
  next
    case False
    have "data_clocks False ?ds True = data_clocks False (replicate ?pre (Some True)) False @
        data_clocks False (tdi_bits tdi ?len) False @ data_clocks False (replicate ?post (Some True)) True"
      using False len data_clocks_append [of "replicate ?post (Some True)" False "tdi_bits tdi ?len" True]
        data_clocks_append [of "tdi_bits tdi ?len @ replicate ?post (Some True)" False] by simp
    then show ?thesis using w4 w3 w2 low low3 False by simp
  qed
  have "tracks (if True then j1\<lparr>current_state := tap_next True (current_state j1), io := d4\<rparr> else j1\<lparr>io := d4\<rparr>)"
    using wd w4 len low by (intro data_tracks [OF j1(2)]) (auto simp: j1(1))
  then have tr': "tracks (j1\<lparr>current_state := EXIT1_IR, io := d4\<rparr>)" by (simp add: j1(1))
  have j5: "j5 = j1\<lparr>current_state := EXIT1_IR, io := d4\<rparr>"
    using 5 by (cases j) (simp add: nextTapState_def j1(1))
  obtain d6 where "j' = j5\<lparr>current_state := postIRState j, io := d6\<rparr>" and "tracks j'"
      "wires d6 = wires (io j5) @ tms_clocks (tap_moves (current_state j5) (postIRState j) @ replicate 0 False)"
    using setTapState_wires [OF tr' [folded j5] _ _ 6] post by (auto simp: j5 j1(1))
  then show ?thesis by (simp add: j5 j1(1,3) wd this_def)
qed

end

end
