(* ===== verification/Ioftdi_Clocks.thy ===== *)
theory Ioftdi_Clocks
  imports Ioftdi_Bounds Jtag_Tap
begin

unbundle bit_operations_syntax

text \<open>
  The bytes the FTDI cable writes, decoded as the MPSSE engine does, make exactly the clock
  cycles asked for: the cable keeps the contract \<open>jtag_cable\<close>. The stream is what the bulk OUT
  transfers of the log carried, followed by what still waits in the command buffer.
\<close>

section \<open>The port\<close>

text \<open>
  What the cable relies on in libftdi, as a locale: a successful write carries the whole buffer,
  a read carries nothing, and both leave the handle usable. The handle is usable when it is an
  open device with a positive write chunk size on a bus that keeps the laws of libusb.
\<close>

type_synonym 'w logged = "'w \<times> usb_event list"

definition port_ready :: "'w libusb \<Rightarrow> 'w logged st \<Rightarrow> bool" where
  "port_ready L h \<longleftrightarrow> bulk_ok L \<and> bulk_progress L \<and>
     (case fst h of
        None \<Rightarrow> False
      | Some c \<Rightarrow> usb_dev c \<noteq> None \<and> 0 < write_chunk c)"

definition port_sent :: "'w logged st \<Rightarrow> byte list" where
  "port_sent h = sent_bytes (snd (snd h))"

locale mpsse_port =
  fixes E :: "'w logged io_env" and L :: "'w libusb"
  assumes port_write: "port_ready L h \<Longrightarrow>
      ftdi_write_data (ev_usb E) buf (int (length buf)) h = Some (int (length buf), h') \<Longrightarrow>
      port_ready L h' \<and> port_sent h' = port_sent h @ buf"
    and port_read: "port_ready L h \<Longrightarrow> ftdi_read_data (ev_usb E) n h = (Ret r, h') \<Longrightarrow>
      port_ready L h' \<and> port_sent h' = port_sent h"

lemma port_readyE:
  assumes "port_ready L h"
  obtains c d w l where "h = (Some c, w, l)" "usb_dev c = Some d" "0 < write_chunk c"
    "bulk_ok L" "bulk_progress L"
proof -
  obtain f w l where "h = (f, w, l)" by (metis prod.exhaust)
  with assms show thesis by (cases f) (auto simp: port_ready_def intro: that)
qed

text \<open>libftdi keeps the contract on any bus.\<close>

lemma ftdi_write_port:
  assumes "port_ready L h"
    and "ftdi_write_data (logging L) buf (int (length buf)) h = Some (int (length buf), h')"
  shows "port_ready L h' \<and> port_sent h' = port_sent h @ buf"
proof -
  obtain c d w l where h: "h = (Some c, w, l)" and c: "usb_dev c = Some d" "0 < write_chunk c"
      and ok: "bulk_ok L" "bulk_progress L"
    using assms(1) by (rule port_readyE)
  obtain r c' w' new where wr: "write_loop (logging L) c d buf (int (length buf)) 0 (w, l) =
      Some (r, Some c', w', l @ new)"
      "r = int (length buf) \<and> c' = c \<and> sent_bytes new = buf \<or> r = -1"
    using write_loop_complete [OF ok c(2), of 0 buf d w l] by auto
  have "ftdi_write_data (logging L) buf (int (length buf)) h = Some (r, Some c', w', l @ new)"
    by (simp add: h ftdi_write_data_def with_dev_def c(1) wr(1))
  with assms(2) have "r = int (length buf)" and h': "h' = (Some c', w', l @ new)" by simp_all
  with wr(2) have "c' = c" and "sent_bytes new = buf" by auto
  then show ?thesis using c ok by (simp add: h h' port_ready_def port_sent_def)
qed

lemma ftdi_read_port:
  assumes "port_ready L h" and "ftdi_read_data (logging L) n h = (Ret r, h')"
  shows "port_ready L h' \<and> port_sent h' = port_sent h"
proof -
  obtain c d w l where h: "h = (Some c, w, l)" and c: "usb_dev c = Some d" "0 < write_chunk c"
      and ok: "bulk_ok L" "bulk_progress L"
    using assms(1) by (rule port_readyE)
  obtain f w' l' where h': "h' = (f, w', l')" by (metis prod.exhaust)
  have "(\<exists>c'. fst h' = Some c' \<and> same_port c c') \<and> sent_bytes (snd (snd h')) = sent_bytes l"
    by (rule read_data_frame [where Q = "\<lambda>w. sent_bytes (snd w) = sent_bytes l",
        OF _ _ assms(2) [unfolded h]]) (auto split: prod.splits)
  then show ?thesis
    using c ok by (auto simp: h h' port_ready_def port_sent_def same_port_def write_chunk_def)
qed

lemma ev_usb_update: "ev_usb (E\<lparr>ev_usb := U\<rparr>) = U"
  by simp

interpretation ftdi_port: mpsse_port "E\<lparr>ev_usb := logging L\<rparr>" L for E L
proof (unfold_locales, goal_cases)
  case (1 h buf h')
  from ftdi_write_port [OF 1 [unfolded ev_usb_update]] show ?case .
next
  case (2 h n r h')
  from ftdi_read_port [OF 2 [unfolded ev_usb_update]] show ?case .
qed


section \<open>The stream\<close>

definition stream :: "'w logged ioftdi \<Rightarrow> byte list" where
  "stream s = port_sent (ftdi_handle s) @ usbuf s"

text \<open>What the operations keep.\<close>

definition same_clock :: "'w ioftdi \<Rightarrow> 'w ioftdi \<Rightarrow> bool" where
  "same_clock s s' \<longleftrightarrow>
     device_has_fast_clock s' = device_has_fast_clock s \<and> tck_freq s' = tck_freq s"

lemma same_clock_refl [simp]: "same_clock s s"
  by (simp add: same_clock_def)

lemma same_clock_trans: "same_clock s s' \<Longrightarrow> same_clock s' s'' \<Longrightarrow> same_clock s s''"
  by (simp add: same_clock_def)

text \<open>An operation that adds the bytes \<open>bs\<close> to the stream.\<close>

definition adds :: "'w libusb \<Rightarrow> byte list \<Rightarrow> 'w logged ioftdi \<Rightarrow> 'w logged ioftdi \<Rightarrow> bool" where
  "adds L bs s s' \<longleftrightarrow> port_ready L (ftdi_handle s') \<and> stream s' = stream s @ bs \<and> same_clock s s'"

lemma adds_refl: "port_ready L (ftdi_handle s) \<Longrightarrow> adds L [] s s"
  by (simp add: adds_def)

lemma adds_trans: "adds L xs s s' \<Longrightarrow> adds L ys s' s'' \<Longrightarrow> adds L (xs @ ys) s s''"
  by (auto simp: adds_def intro: same_clock_trans)

lemma adds_ok: "adds L xs s s' \<Longrightarrow> port_ready L (ftdi_handle s')"
  by (simp add: adds_def)

lemma adds_count:
  "port_ready L (ftdi_handle s) \<Longrightarrow> adds L [] s (s\<lparr>retries := k\<rparr>)"
  "port_ready L (ftdi_handle s) \<Longrightarrow> adds L [] s (s\<lparr>calls_rd := k\<rparr>)"
  by (simp_all add: adds_def stream_def same_clock_def)

context mpsse_port
begin

lemma send_adds:
  assumes "port_ready L (ftdi_handle s)" and "mpsse_send E s = (Ret u, s')"
  shows "adds L [] s s' \<and> usbuf s' = []"
proof (cases "usbuf s = []")
  case True
  then show ?thesis using assms adds_refl by (simp add: mpsse_send_def)
next
  case False
  with assms(2) obtain h where "ftdi_write_data (ev_usb E) (usbuf s) (int (bptr s)) (ftdi_handle s) = Some (int (bptr s), h)"
      and s': "s' = s\<lparr>calls_wr := calls_wr s + 1, ftdi_handle := h, usbuf := []\<rparr>"
    by (auto simp: mpsse_send_def Let_def split: if_splits option.splits)
  from port_write [OF assms(1) this(1)] show ?thesis
    by (simp add: s' adds_def stream_def same_clock_def)
qed

lemma add_cmd_adds:
  assumes "port_ready L (ftdi_handle s)" and "mpsse_add_cmd E buf s = (Ret u, s')"
  shows "adds L buf s s'"
proof -
  obtain s1 where s1: "(if bptr s + length buf + 1 \<ge> TX_BUF then mpsse_send E else return_act ()) s = (Ret (), s1)"
      and put: "put_cmd buf s1 = (Ret u, s')"
    using assms(2) unfolding mpsse_add_cmd_def then_act_returns by blast
  have "adds L [] s s1"
    using s1 send_adds [OF assms(1)] adds_refl [OF assms(1)] by (auto split: if_splits)
  moreover have "s' = s1\<lparr>usbuf := usbuf s1 @ buf\<rparr>"
    using put by (simp add: put_cmd_def split: if_splits)
  ultimately show ?thesis by (simp add: adds_def stream_def same_clock_def)
qed

lemma read_ftdi_adds:
  assumes "port_ready L (ftdi_handle s)" and "read_ftdi E n s = (Ret r, s')"
  shows "adds L [] s s'"
proof -
  obtain h where rd: "ftdi_read_data (ev_usb E) n (ftdi_handle s) = (Ret r, h)"
      and s': "s' = s\<lparr>ftdi_handle := h\<rparr>"
    using assms(2) by (auto simp: read_ftdi_def)
  from port_read [OF assms(1) rd] show ?thesis
    by (simp add: s' adds_def stream_def same_clock_def)
qed

lemma read_retry_adds:
  "port_ready L (ftdi_handle s) \<Longrightarrow> read_retry E k n acc a b s = (Ret r, s') \<Longrightarrow> adds L [] s s'"
proof (induction k arbitrary: acc a b s)
  case 0
  then show ?case using adds_refl by auto
next
  case (Suc k)
  show ?case
  proof (cases "length acc < n")
    case False
    then show ?thesis using Suc.prems adds_refl by auto
  next
    case True
    let ?s = "s\<lparr>retries := retries s + 1\<rparr>"
    obtain got out s1 where 1: "read_ftdi E (n - length acc) ?s = (Ret (got, out), s1)"
        and 2: "\<exists>acc' a' b'. read_retry E k n acc' a' b' s1 = (Ret r, s')"
      using Suc.prems(2) True by (auto split: if_splits) blast+
    have "port_ready L (ftdi_handle ?s)" and "adds L [] s ?s"
      using Suc.prems(1) by (simp_all add: adds_def stream_def same_clock_def)
    moreover from this(1) 1 have "adds L [] ?s s1" by (rule read_ftdi_adds)
    ultimately show ?thesis using 2 Suc.IH adds_ok adds_trans by (metis append_Nil)
  qed
qed

lemma readusb_adds:
  assumes "port_ready L (ftdi_handle s)" and "readusb E n s = (Ret r, s')"
  shows "adds L [0x87] s s'"
proof -
  obtain s1 s2 got out s3 acc where 1: "mpsse_add_cmd E [0x87] s = (Ret (), s1)"
      and 2: "mpsse_send E s1 = (Ret (), s2)"
      and 3: "read_ftdi E n (s2\<lparr>calls_rd := calls_rd s2 + 1\<rparr>) = (Ret (got, out), s3)"
      and 4: "\<exists>a b c d. read_retry E 1000 n a b c s3 = (Ret d, s')"
    using assms(2) by (auto simp: readusb_def split: if_splits) blast+
  note a1 = add_cmd_adds [OF assms(1) 1]
  note a2 = conjunct1 [OF send_adds [OF adds_ok [OF a1] 2]]
  let ?s = "s2\<lparr>calls_rd := calls_rd s2 + 1\<rparr>"
  have a3: "adds L [] s2 ?s" and ok: "port_ready L (ftdi_handle ?s)"
    using a2 by (simp_all add: adds_def stream_def same_clock_def)
  note a4 = read_ftdi_adds [OF ok 3]
  from 4 read_retry_adds [OF adds_ok [OF a4]] have "adds L [] s3 s'" by blast
  with a1 a2 a3 a4 show ?thesis using adds_trans by (metis append_Nil append_Nil2)
qed

end

section \<open>The clock cycles of the cable\<close>

definition pin_ops :: "'w logged ioftdi \<Rightarrow> pin_op list" where
  "pin_ops s = the (mpsse_ops (stream s))"

definition ft_clocks :: "'w logged ioftdi \<Rightarrow> clk list" where
  "ft_clocks s = pin_clocks False (pin_ops s)"

text \<open>
  The stream consists of whole commands, the last level of TMS is that of the last clock cycle,
  and the device knows the commands that clock without data.
\<close>

definition ft_ok :: "'w libusb \<Rightarrow> 'w logged ioftdi \<Rightarrow> bool" where
  "ft_ok L s \<longleftrightarrow> port_ready L (ftdi_handle s) \<and> device_has_fast_clock s \<and> mpsse_ops (stream s) \<noteq> None \<and>
     pin_level False (pin_ops s) = held (ft_clocks s)"

text \<open>An operation that makes clock cycles after which TMS has the level of the last one.\<close>

definition clocked :: "'w libusb \<Rightarrow> clk list \<Rightarrow> 'w logged ioftdi \<Rightarrow> 'w logged ioftdi \<Rightarrow> bool" where
  "clocked L cs s s' \<longleftrightarrow> ft_ok L s' \<and> ft_clocks s' = ft_clocks s @ cs"

lemma clocked_trans: "clocked L cs s s' \<Longrightarrow> clocked L ds s' s'' \<Longrightarrow> clocked L (cs @ ds) s s''"
  by (simp add: clocked_def)

lemma clocked_refl: "ft_ok L s \<Longrightarrow> clocked L [] s s"
  by (simp add: clocked_def)

lemma clocked_ok: "clocked L cs s s' \<Longrightarrow> ft_ok L s'"
  by (simp add: clocked_def)

lemma held_append2: "held (cs @ ds) = (if ds = [] then held cs else held ds)"
  by (simp add: held_def)

lemma ft_ok_handle: "ft_ok L s \<Longrightarrow> port_ready L (ftdi_handle s)"
  by (simp add: ft_ok_def)

lemma adds_clocked:
  assumes "ft_ok L s" and "adds L bs s s'" and "mpsse_ops bs = Some ops" and "\<And>b. Level b \<notin> set ops"
  shows "clocked L (pin_clocks (held (ft_clocks s)) ops) s s'"
proof -
  let ?l = "held (ft_clocks s)"
  have st: "stream s' = stream s @ bs" using assms(2) by (simp add: adds_def)
  obtain a where a: "mpsse_ops (stream s) = Some a" using assms(1) by (auto simp: ft_ok_def)
  have "mpsse_ops (stream s') = Some (a @ ops)"
    using mpsse_ops_append_Some [OF a assms(3)] by (simp add: st)
  then have ops: "pin_ops s' = pin_ops s @ ops" "mpsse_ops (stream s') \<noteq> None"
    by (simp_all add: pin_ops_def a)
  have lev: "pin_level False (pin_ops s) = ?l" using assms(1) by (simp add: ft_ok_def)
  then have cl: "ft_clocks s' = ft_clocks s @ pin_clocks ?l ops"
    by (simp add: ft_clocks_def ops(1) pin_clocks_append)
  have "pin_level False (pin_ops s') = held (ft_clocks s')"
    using pin_level_held [OF assms(4), of ?l] pin_clocks_Nil [OF assms(4), of ?l]
    by (simp add: ops(1) pin_level_append lev cl held_append2)
  then show ?thesis
    using assms(1,2) ops(2) cl by (simp add: clocked_def ft_ok_def adds_def same_clock_def)
qed

text \<open>Cycles with data while TMS keeps its level.\<close>

definition ticked :: "'w libusb \<Rightarrow> bool option list \<Rightarrow> 'w logged ioftdi \<Rightarrow> 'w logged ioftdi \<Rightarrow> bool" where
  "ticked L ds s s' \<longleftrightarrow> clocked L (map (Pair (held (ft_clocks s))) ds) s s'"

lemma ticked_held: "ticked L ds s s' \<Longrightarrow> held (ft_clocks s') = held (ft_clocks s)"
  by (auto simp: ticked_def clocked_def)

lemma ticked_trans: "ticked L ds s s' \<Longrightarrow> ticked L es s' s'' \<Longrightarrow> ticked L (ds @ es) s s''"
  using ticked_held [of L ds s s'] clocked_trans by (auto simp: ticked_def)

lemma ticked_refl: "ft_ok L s \<Longrightarrow> ticked L [] s s"
  by (simp add: ticked_def clocked_refl)

lemma ticked_ok: "ticked L ds s s' \<Longrightarrow> ft_ok L s'"
  by (simp add: ticked_def clocked_def)

lemma adds_ticked:
  assumes "ft_ok L s" and "adds L bs s s'" and "mpsse_ops bs = Some (map (Cycle None) ds)"
  shows "ticked L ds s s'"
proof -
  have "Level b \<notin> set (map (Cycle None) ds)" for b by auto
  from adds_clocked [OF assms this] show ?thesis by (simp add: ticked_def pin_clocks_data)
qed

lemma same_state_ticked:
  assumes "ft_ok L s" and "adds L [] s s'"
  shows "ticked L [] s s'"
  by (rule adds_ticked [OF assms]) simp

section \<open>The commands\<close>

text \<open>The bits of \<open>tdi\<close> from bit \<open>i\<close> on.\<close>

definition tdi_slice :: "byte list option \<Rightarrow> nat \<Rightarrow> nat \<Rightarrow> bool option list" where
  "tdi_slice tdi i n =
     (case tdi of None \<Rightarrow> replicate n None | Some b \<Rightarrow> map (\<lambda>k. Some (bit_at b k)) [i..<i + n])"

lemma tdi_slice_0: "tdi_slice tdi 0 n = tdi_bits tdi n"
  by (simp add: tdi_slice_def tdi_bits_def bits_of_def comp_def split: option.split)

lemma tdi_slice_append: "tdi_slice tdi i (m + n) = tdi_slice tdi i m @ tdi_slice tdi (i + m) n"
proof (cases tdi)
  case (Some b)
  have "[i..<i + (m + n)] = [i..<i + m] @ [i + m..<i + m + n]"
    using upt_add_eq_append [of i "i + m" n] by (simp add: add.assoc)
  then show ?thesis using Some by (simp add: tdi_slice_def)
qed (simp add: tdi_slice_def replicate_add)

lemma tdi_slice_none [simp]: "tdi_slice tdi i 0 = []"
  by (simp add: tdi_slice_def split: option.split)

lemma length_tdi_slice [simp]: "length (tdi_slice tdi i n) = n"
  by (simp add: tdi_slice_def split: option.split)

lemma and_ff: "x AND 0xff = (x :: byte)"
proof -
  have "(0xff :: byte) = -1" by simp
  then show ?thesis by (simp only: and.right_neutral)
qed

lemma arg16_count:
  assumes "0 < n" and "n \<le> 65536"
  shows "arg16 (of_nat (n - 1) AND 0xff) (of_nat ((n - 1) div 256) AND 0xff) + 1 = n"
proof -
  have "unat (of_nat (n - 1) :: byte) = (n - 1) mod 256"
    by (simp add: unat_of_nat)
  moreover have "unat (of_nat ((n - 1) div 256) :: byte) = (n - 1) div 256"
    using assms by (simp add: unat_of_nat)
  ultimately show ?thesis using assms(1) by (simp add: arg16_def and_ff)
qed

lemma count_byte:
  assumes "0 < n" and "n \<le> 256"
  shows "unat (of_nat (n - 1) :: byte) + 1 = n"
proof -
  have "unat (of_nat (n - 1) :: byte) = n - 1" using assms by (intro of_nat_inverse [OF refl]) simp
  then show ?thesis using assms(1) by simp
qed

text \<open>The command for \<open>n\<close> bytes and the one for at most eight bits.\<close>

lemma bytes_cmd_ops:
  assumes "tdi \<noteq> None \<or> tdo \<noteq> None" and "0 < n" and "n \<le> 65536" and "\<And>b. tdi = Some b \<Longrightarrow> k + n \<le> length b"
  shows "mpsse_ops ([data_op tdi tdo (MPSSE_LSB OR MPSSE_WRITE_NEG),
      of_nat (n - 1) AND 0xff, of_nat ((n - 1) div 256) AND 0xff] @
      (case tdi of None \<Rightarrow> [] | Some b \<Rightarrow> take n (drop k b))) =
    Some (map (Cycle None) (tdi_slice tdi (k * 8) (n * 8)))"
proof -
  define lo hi where "lo = (of_nat (n - 1) AND 0xff :: byte)" and "hi = (of_nat ((n - 1) div 256) AND 0xff :: byte)"
  have cnt: "Suc (arg16 lo hi) = n" using arg16_count [OF assms(2,3)] by (simp only: lo_def hi_def)
  show ?thesis
  proof (cases tdi)
    case None
    then have "data_op tdi tdo (MPSSE_LSB OR MPSSE_WRITE_NEG) = 0x2d"
      using assms(1) by (simp add: data_op_def)
    then show ?thesis
      using cnt None unfolding lo_def [symmetric] hi_def [symmetric]
      by (subst mpsse_ops_cmd) (simp_all add: tdi_slice_def flip: mult_Suc)
  next
    case (Some b)
    let ?d = "take n (drop k b)"
    have len: "length ?d = n" using assms(4) [OF Some] by simp
    have op: "data_op tdi tdo (MPSSE_LSB OR MPSSE_WRITE_NEG) \<in> {0x19, 0x3d}"
      using Some by (simp add: data_op_def)
    have bits: "bits_of ?d (n * 8) = map (bit_at b) [k * 8..<k * 8 + n * 8]"
    proof (rule nth_equalityI)
      fix i assume "i < length (bits_of ?d (n * 8))"
      then have i: "i < n * 8" by simp
      then have "bit_at ?d i = bit_at (drop k b) i" by (simp add: bit_at_take)
      also have "\<dots> = bit_at b (k * 8 + i)" using assms(4) [OF Some] i by (intro bit_at_drop) simp
      finally show "bits_of ?d (n * 8) ! i = map (bit_at b) [k * 8..<k * 8 + n * 8] ! i"
        using i by (simp add: bits_of_def)
    qed simp
    have "mpsse_ops ([x, lo, hi] @ ?d) = Some (map (Cycle None) (tdi_slice tdi (k * 8) (n * 8)))"
      if "x \<in> {0x19, 0x3d}" for x
    proof -
      have "cmd_len (x # lo # hi # ?d) = Some (length (x # lo # hi # ?d))"
        using that cnt len by auto
      moreover have "cmd_ops (x # lo # hi # ?d) = map (Cycle None) (tdi_slice tdi (k * 8) (n * 8))"
        using that cnt by (auto simp: bits Some tdi_slice_def)
      ultimately show ?thesis by (simp add: mpsse_ops_cmd del: cmd_len.simps cmd_ops.simps)
    qed
    from this [OF op] show ?thesis
      unfolding lo_def [symmetric] hi_def [symmetric] by (simp add: Some)
  qed
qed

lemma bits_cmd_ops:
  assumes "tdi \<noteq> None \<or> tdo \<noteq> None" and "0 < n" and "n \<le> 8" and "\<And>b. tdi = Some b \<Longrightarrow> k < length b"
  shows "mpsse_ops ([data_op tdi tdo (MPSSE_LSB OR MPSSE_BITMODE OR MPSSE_WRITE_NEG), of_nat (n - 1)] @
      (case tdi of None \<Rightarrow> [] | Some b \<Rightarrow> [b ! k])) =
    Some (map (Cycle None) (tdi_slice tdi (k * 8) n))"
proof -
  define m where "m = (of_nat (n - 1) :: byte)"
  have cnt: "Suc (unat m) = n"
    using count_byte [of n] assms(2,3) by (simp add: m_def del: of_nat_diff)
  show ?thesis
  proof (cases tdi)
    case None
    then have "data_op tdi tdo (MPSSE_LSB OR MPSSE_BITMODE OR MPSSE_WRITE_NEG) = 0x2f"
      using assms(1) by (simp add: data_op_def)
    then show ?thesis
      using cnt None unfolding m_def [symmetric]
      by (subst mpsse_ops_cmd) (simp_all add: tdi_slice_def flip: replicate_Suc)
  next
    case (Some b)
    have op: "data_op tdi tdo (MPSSE_LSB OR MPSSE_BITMODE OR MPSSE_WRITE_NEG) \<in> {0x1b, 0x3f}"
      using Some by (simp add: data_op_def)
    have bits: "map (\<lambda>i. Cycle None (Some (bit (b ! k) i))) [0..<n] =
        map (Cycle None) (tdi_slice tdi (k * 8) n)"
    proof (rule nth_equalityI)
      fix i assume "i < length (map (\<lambda>i. Cycle None (Some (bit (b ! k) i))) [0..<n])"
      then have "i < n" by simp
      then show "map (\<lambda>i. Cycle None (Some (bit (b ! k) i))) [0..<n] ! i =
          map (Cycle None) (tdi_slice tdi (k * 8) n) ! i"
        using assms(3) by (simp add: Some tdi_slice_def bit_at_def)
    qed (simp add: Some)
    have "mpsse_ops [x, m, b ! k] = Some (map (Cycle None) (tdi_slice tdi (k * 8) n))"
      if "x \<in> {0x1b, 0x3f}" for x
      using that cnt by (subst mpsse_ops_cmd) (auto simp: bits)
    from this [OF op] show ?thesis unfolding m_def [symmetric] by (simp add: Some)
  qed
qed

text \<open>The TMS commands.\<close>

lemma bit_tms_byte:
  "n \<le> 7 \<Longrightarrow> i < 8 \<Longrightarrow> bit (tms_byte pat k n) i \<longleftrightarrow> i = 7 \<or> i < n \<and> bit_at pat (k + i)"
proof (induction n)
  case 0
  have "(0x80 :: byte) = push_bit 7 1" by simp
  then have "bit (0x80 :: byte) i \<longleftrightarrow> i = 7" using 0 by (simp only: bit_push_bit_iff) (auto simp: bit_simps)
  then show ?case by (simp add: tms_byte_def)
next
  case (Suc n)
  have "tms_byte pat k (Suc n) = tms_byte pat k n OR (if bit_at pat (k + n) then push_bit n 1 else 0)"
    by (simp add: tms_byte_def)
  then have "bit (tms_byte pat k (Suc n)) i \<longleftrightarrow> bit (tms_byte pat k n) i \<or> bit_at pat (k + n) \<and> i = n"
    using Suc.prems by (auto simp: bit_simps)
  then show ?case using Suc by (auto simp: less_Suc_eq)
qed

lemma tms_cmd_ops:
  assumes "0 < n" and "n \<le> 6"
  shows "mpsse_ops [0x4b, of_nat (n - 1), tms_byte pat k n] =
    Some (map (\<lambda>b. Cycle (Some b) (Some True)) (map (bit_at pat) [k..<k + n]))"
proof -
  define m where "m = (of_nat (n - 1) :: byte)"
  have cnt: "unat m + 1 = n" using count_byte [of n] assms by (simp only: m_def)
  have "map (\<lambda>i. Cycle (Some (bit (tms_byte pat k n) i)) (Some (bit (tms_byte pat k n) 7))) [0..<n] =
    map (\<lambda>b. Cycle (Some b) (Some True)) (map (bit_at pat) [k..<k + n])"
    using assms(2) by (intro nth_equalityI) (auto simp: bit_tms_byte)
  then show ?thesis using cnt unfolding m_def [symmetric]
    by (subst mpsse_ops_cmd) (simp_all del: upt_Suc)
qed

section \<open>The operations\<close>

lemma txrx_block_returns:
  assumes "txrx_block E tdi tdo len final s = (Ret r, s')"
  obtains rem0 k tdo1 s1 s2 ko m tdo2 s3 s4 s5 where
    "full_chunks E tdi tdo 0 (if final then len - 1 else len) s = (Ret (rem0, k, tdo1), s1)"
    and "(if rem0 div 8 \<noteq> 0 then add_bytes_cmd E tdi tdo k (rem0 div 8) else return_act ()) s1 = (Ret (), s2)"
    and "(if rem0 div 8 \<ge> TX_BUF - 4 then
            (case tdo1 of None \<Rightarrow> return_act (k, 0, None)
             | Some b \<Rightarrow> bind_act (readusb E (rem0 div 8))
                 (\<lambda>r. return_act (k + rem0 div 8, 0, Some (write_at k r b))))
          else return_act (k, rem0 div 8, tdo1)) s2 = (Ret (ko, m, tdo2), s3)"
    and "(if rem0 mod 8 \<noteq> 0 then
            then_act (mpsse_add_cmd E
                [data_op tdi tdo (MPSSE_LSB OR MPSSE_BITMODE OR MPSSE_WRITE_NEG), of_nat (rem0 mod 8 - 1)])
              (case tdi of None \<Rightarrow> return_act () | Some b \<Rightarrow> mpsse_add_cmd E [b ! (k + rem0 div 8)])
          else return_act ()) s3 = (Ret (), s4)"
    and "(if final then
            mpsse_add_cmd E
              [data_op None tdo (MPSSE_WRITE_TMS OR MPSSE_LSB OR MPSSE_BITMODE OR MPSSE_WRITE_NEG), 0,
               if (case tdi of None \<Rightarrow> False | Some b \<Rightarrow> bit (b ! (k + rem0 div 8)) (rem0 mod 8)) then 0x81 else 1]
          else return_act ()) s4 = (Ret (), s5)"
    and "(case tdo2 of None \<Rightarrow> return_act None
          | Some b \<Rightarrow>
              bind_act
                (read_result E final (rem0 mod 8) ko
                  (if final then (if rem0 mod 8 \<noteq> 0 then m + 1 else m) + 1
                   else (if rem0 mod 8 \<noteq> 0 then m + 1 else m)) b)
                (\<lambda>b'. return_act (Some b'))) s5 = (Ret r, s')"
  using assms unfolding txrx_block_def Let_def
  by (simp only: bind_act_returns then_act_returns split_paired_Ex prod.case) blast

context mpsse_port
begin

lemma add_cmd_ticked:
  "ft_ok L s \<Longrightarrow> mpsse_add_cmd E buf s = (Ret u, s') \<Longrightarrow> mpsse_ops buf = Some (map (Cycle None) ds) \<Longrightarrow>
   ticked L ds s s'"
  using add_cmd_adds adds_ticked ft_ok_handle by metis

lemma send_ticked: "ft_ok L s \<Longrightarrow> mpsse_send E s = (Ret u, s') \<Longrightarrow> ticked L [] s s'"
  using send_adds same_state_ticked ft_ok_handle by metis

lemma readusb_ticked:
  assumes "ft_ok L s" and "readusb E n s = (Ret r, s')"
  shows "ticked L [] s s'"
proof -
  have "mpsse_ops [0x87] = Some (map (Cycle None) [])" by (subst mpsse_ops_cmd) simp_all
  with adds_ticked [OF assms(1) readusb_adds [OF ft_ok_handle [OF assms(1)] assms(2)]]
  show ?thesis by blast
qed

lemma tms_loop_clocked:
  "ft_ok L s \<Longrightarrow> tms_loop E pat k len s = (Ret u, s') \<Longrightarrow>
   clocked L (tms_clocks (map (bit_at pat) [k..<k + len])) s s'"
proof (induction len arbitrary: k s rule: less_induct)
  case (less len)
  show ?case
  proof (cases "len = 0")
    case True
    then show ?thesis using less.prems clocked_refl by (simp add: tms_loop.simps)
  next
    case False
    define n where "n = (if len > 6 then 6 else len)"
    have n: "0 < n" "n \<le> 6" "n \<le> len" using False by (simp_all add: n_def)
    obtain s1 where 1: "mpsse_add_cmd E [0x4b, of_nat (n - 1), tms_byte pat k n] s = (Ret (), s1)"
        and 2: "tms_loop E pat (k + n) (len - n) s1 = (Ret u, s')"
      using less.prems(2) unfolding tms_loop_step [OF False n_def] by auto
    have "clocked L (tms_clocks (map (bit_at pat) [k..<k + n])) s s1"
      using adds_clocked [OF less.prems(1) add_cmd_adds [OF ft_ok_handle [OF less.prems(1)] 1] tms_cmd_ops [OF n(1,2)],
          unfolded pin_clocks_tms]
      by auto
    moreover have "clocked L (tms_clocks (map (bit_at pat) [k + n..<k + n + (len - n)])) s1 s'"
      using n by (intro less.IH [OF _ clocked_ok [OF calculation] 2]) simp
    moreover have "[k..<k + len] = [k..<k + n] @ [k + n..<k + n + (len - n)]"
      using upt_add_eq_append [of k "k + n" "len - n"] n(3) by simp
    ultimately show ?thesis using clocked_trans by fastforce
  qed
qed

lemma tx_tms_clocked:
  assumes "ft_ok L s" and "tx_tms E pat len force s = (Ret u, s')"
  shows "clocked L (tms_clocks (bits_of pat len)) s s'"
proof (cases "len = 0")
  case True
  then show ?thesis using assms clocked_refl by (simp add: tx_tms_def)
next
  case False
  then obtain s1 where 1: "tms_loop E pat 0 len s = (Ret (), s1)"
      and 2: "(if force then mpsse_send E else return_act ()) s1 = (Ret u, s')"
    using assms(2) by (auto simp: tx_tms_def)
  have c1: "clocked L (tms_clocks (bits_of pat len)) s s1"
    using tms_loop_clocked [OF assms(1) 1] by (simp add: bits_of_def)
  have "clocked L [] s1 s'"
    using 2 send_ticked [OF clocked_ok [OF c1]] clocked_refl [OF clocked_ok [OF c1]]
    by (auto simp: ticked_def split: if_splits)
  from clocked_trans [OF c1 this] show ?thesis by simp
qed

lemma cmds_adds:
  assumes "port_ready L (ftdi_handle s)"
    and "then_act (mpsse_add_cmd E xs) (case tdi of None \<Rightarrow> return_act () | Some b \<Rightarrow> mpsse_add_cmd E (f b)) s = (Ret u, s')"
  shows "adds L (xs @ (case tdi of None \<Rightarrow> [] | Some b \<Rightarrow> f b)) s s'"
proof -
  obtain s1 where 1: "mpsse_add_cmd E xs s = (Ret (), s1)"
      and 2: "(case tdi of None \<Rightarrow> return_act () | Some b \<Rightarrow> mpsse_add_cmd E (f b)) s1 = (Ret u, s')"
    using assms(2) by (auto simp only: then_act_returns)
  note a1 = add_cmd_adds [OF assms(1) 1]
  have "adds L (case tdi of None \<Rightarrow> [] | Some b \<Rightarrow> f b) s1 s'"
    using 2 add_cmd_adds [OF adds_ok [OF a1]] adds_refl [OF adds_ok [OF a1]] by (cases tdi) auto
  from adds_trans [OF a1 this] show ?thesis .
qed

lemma add_bytes_cmd_ticked:
  assumes "ft_ok L s" and "tdi \<noteq> None \<or> tdo \<noteq> None" and "0 < n" and "n \<le> 65536"
    and "\<And>b. tdi = Some b \<Longrightarrow> k + n \<le> length b"
    and "add_bytes_cmd E tdi tdo k n s = (Ret u, s')"
  shows "ticked L (tdi_slice tdi (k * 8) (n * 8)) s s'"
  using adds_ticked [OF assms(1) cmds_adds [OF ft_ok_handle [OF assms(1)] assms(6) [unfolded add_bytes_cmd_def]]
      bytes_cmd_ops [OF assms(2-5)]] .

lemma full_chunks_ticked:
  "ft_ok L s \<Longrightarrow> tdi \<noteq> None \<or> tdo \<noteq> None \<Longrightarrow> (\<And>b. tdi = Some b \<Longrightarrow> 8 * k + rem \<le> 8 * length b) \<Longrightarrow>
   full_chunks E tdi tdo k rem s = (Ret (rem', k', tdo'), s') \<Longrightarrow>
   ticked L (tdi_slice tdi (k * 8) (rem - rem')) s s' \<and> rem' \<le> rem \<and> 8 * k' + rem' = 8 * k + rem \<and>
   rem' div 8 \<le> FULL \<and> (tdo' = None \<longleftrightarrow> tdo = None)"
proof (induction rem arbitrary: k tdo s rule: less_induct)
  case (less rem)
  show ?case
  proof (cases "rem div 8 > FULL")
    case False
    then show ?thesis using less.prems ticked_refl by (auto simp: full_chunks_done)
  next
    case True
    define rd where "rd = (\<lambda>(_::unit). case tdo of None \<Rightarrow> return_act None
        | Some b \<Rightarrow> bind_act (readusb E FULL) (\<lambda>r. return_act (Some (write_at k r b))))"
    have "bind_act (bind_act (add_bytes_cmd E tdi tdo k FULL) rd)
        (\<lambda>tdo1. full_chunks E tdi tdo1 (k + FULL) (rem - FULL * 8)) s = (Ret (rem', k', tdo'), s')"
      using less.prems(4) unfolding rd_def full_chunks_step [OF True] .
    then obtain s1 s2 tdo1 where 1: "add_bytes_cmd E tdi tdo k FULL s = (Ret (), s1)"
        and 2: "rd () s1 = (Ret tdo1, s2)"
        and 3: "full_chunks E tdi tdo1 (k + FULL) (rem - FULL * 8) s2 = (Ret (rem', k', tdo'), s')"
      by (simp only: bind_act_returns) auto
    have fits: "k + FULL \<le> length b" if "tdi = Some b" for b
      using less.prems(3) [OF that] True by simp
    have t1: "ticked L (tdi_slice tdi (k * 8) (FULL * 8)) s s1"
      by (rule add_bytes_cmd_ticked [OF less.prems(1,2) _ _ fits 1]) simp_all
    have t2: "ticked L [] s1 s2" "tdo1 = None \<longleftrightarrow> tdo = None"
      using 2 readusb_ticked [OF ticked_ok [OF t1]] ticked_refl [OF ticked_ok [OF t1]]
      by (auto simp: rd_def split: option.splits)
    have "8 * (k + FULL) + (rem - FULL * 8) \<le> 8 * length b" if "tdi = Some b" for b
      using less.prems(3) [OF that] True by simp
    note IH = less.IH [OF _ ticked_ok [OF t2(1)] _ this 3]
    have t3: "ticked L (tdi_slice tdi ((k + FULL) * 8) (rem - FULL * 8 - rem')) s2 s'"
        "rem' \<le> rem - FULL * 8" "8 * k' + rem' = 8 * (k + FULL) + (rem - FULL * 8)"
        "rem' div 8 \<le> FULL" "tdo' = None \<longleftrightarrow> tdo = None"
      using IH True less.prems(2) t2(2) by auto
    have "ticked L (tdi_slice tdi (k * 8) (FULL * 8 + (rem - FULL * 8 - rem'))) s s'"
      using ticked_trans [OF ticked_trans [OF t1 t2(1)] t3(1)]
      by (simp add: tdi_slice_append add_mult_distrib)
    then show ?thesis using t3(2-5) True by simp
  qed
qed

text \<open>
  A block of data: the bytes of the full chunks, the remaining bytes, the remaining bits, and the
  last bit with TMS high.
\<close>

lemma last_bit_clocked:
  assumes "ft_ok L s"
    and "mpsse_add_cmd E [data_op None tdo (MPSSE_WRITE_TMS OR MPSSE_LSB OR MPSSE_BITMODE OR MPSSE_WRITE_NEG),
           0, if b then 0x81 else 1] s = (Ret u, s')"
  shows "clocked L [(True, Some b)] s s'"
proof -
  let ?op = "data_op None tdo (MPSSE_WRITE_TMS OR MPSSE_LSB OR MPSSE_BITMODE OR MPSSE_WRITE_NEG)"
  have "?op \<in> {0x4b, 0x6f}" by (simp add: data_op_def)
  moreover have "bit (0x81 :: byte) 7" and "bit (0x81 :: byte) 0" and "\<not> bit (1 :: byte) 7"
    by (simp_all add: bit_simps)
  ultimately have ops: "mpsse_ops [?op, 0, if b then 0x81 else 1] = Some [Cycle (Some True) (Some b)]"
    by (subst mpsse_ops_cmd) auto
  show ?thesis
    using adds_clocked [OF assms(1) add_cmd_adds [OF ft_ok_handle [OF assms(1)] assms(2)] ops] by simp
qed

lemma read_result_ticked:
  assumes "ft_ok L s" and "read_result E final rembits k n b s = (Ret r, s')"
  shows "ticked L [] s s'"
proof -
  obtain r' where "readusb E n s = (Ret r', s')" using assms(2) by (auto simp: read_result_def)
  with readusb_ticked [OF assms(1)] show ?thesis by blast
qed

lemma txrx_block_clocked:
  assumes ok: "ft_ok L s" and len: "0 < len" and some: "tdi \<noteq> None \<or> tdo \<noteq> None"
    and fits: "\<And>b. tdi = Some b \<Longrightarrow> len \<le> 8 * length b"
    and run: "txrx_block E tdi tdo len final s = (Ret r, s')"
  shows "clocked L (data_clocks (held (ft_clocks s)) (tdi_bits tdi len) final) s s'"
proof -
  let ?rem = "if final then len - 1 else len"
  obtain rem0 k tdo1 s1 s2 ko m tdo2 s3 s4 s5 where
      1: "full_chunks E tdi tdo 0 ?rem s = (Ret (rem0, k, tdo1), s1)"
      and 2: "(if rem0 div 8 \<noteq> 0 then add_bytes_cmd E tdi tdo k (rem0 div 8) else return_act ()) s1 = (Ret (), s2)"
      and 3: "(if rem0 div 8 \<ge> TX_BUF - 4 then
            (case tdo1 of None \<Rightarrow> return_act (k, 0, None)
             | Some b \<Rightarrow> bind_act (readusb E (rem0 div 8))
                 (\<lambda>r. return_act (k + rem0 div 8, 0, Some (write_at k r b))))
          else return_act (k, rem0 div 8, tdo1)) s2 = (Ret (ko, m, tdo2), s3)"
      and 4: "(if rem0 mod 8 \<noteq> 0 then
            then_act (mpsse_add_cmd E
                [data_op tdi tdo (MPSSE_LSB OR MPSSE_BITMODE OR MPSSE_WRITE_NEG), of_nat (rem0 mod 8 - 1)])
              (case tdi of None \<Rightarrow> return_act () | Some b \<Rightarrow> mpsse_add_cmd E [b ! (k + rem0 div 8)])
          else return_act ()) s3 = (Ret (), s4)"
      and 5: "(if final then
            mpsse_add_cmd E
              [data_op None tdo (MPSSE_WRITE_TMS OR MPSSE_LSB OR MPSSE_BITMODE OR MPSSE_WRITE_NEG), 0,
               if (case tdi of None \<Rightarrow> False | Some b \<Rightarrow> bit (b ! (k + rem0 div 8)) (rem0 mod 8)) then 0x81 else 1]
          else return_act ()) s4 = (Ret (), s5)"
      and 6: "(case tdo2 of None \<Rightarrow> return_act None
          | Some b \<Rightarrow>
              bind_act
                (read_result E final (rem0 mod 8) ko
                  (if final then (if rem0 mod 8 \<noteq> 0 then m + 1 else m) + 1
                   else (if rem0 mod 8 \<noteq> 0 then m + 1 else m)) b)
                (\<lambda>b'. return_act (Some b'))) s5 = (Ret r, s')"
    by (rule txrx_block_returns [OF run])
  define n q where "n = rem0 div 8" and "q = rem0 mod 8"
  have rem0: "rem0 = n * 8 + q" "q < 8" by (simp_all add: n_def q_def)
  have le: "?rem \<le> len" by simp
  have "8 * 0 + ?rem \<le> 8 * length b" if "tdi = Some b" for b using fits [OF that] le by simp
  note f = full_chunks_ticked [OF ok some this 1]
  then have "ticked L (tdi_slice tdi 0 (?rem - rem0)) s s1" and at: "8 * k + rem0 = ?rem" and small: "n \<le> FULL"
    unfolding n_def by (simp_all only: mult_0 mult_0_right add_0)
  moreover have "?rem - rem0 = k * 8" using at by linarith
  ultimately have t1: "ticked L (tdi_slice tdi 0 (k * 8)) s s1" by (simp only:)
  have pos: "k * 8 + (n * 8 + q) = ?rem" using at rem0(1) by linarith
  have t2: "ticked L (tdi_slice tdi (k * 8) (n * 8)) s1 s2"
  proof (cases "n = 0")
    case True
    then show ?thesis using 2 ticked_refl [OF ticked_ok [OF t1]] by (simp add: n_def)
  next
    case False
    have "k + n \<le> length b" if "tdi = Some b" for b using fits [OF that] pos le by simp
    from add_bytes_cmd_ticked [OF ticked_ok [OF t1] some _ _ this] 2 False small
    show ?thesis by (auto simp: n_def)
  qed
  have t3: "ticked L [] s2 s3"
    using 3 readusb_ticked [OF ticked_ok [OF t2]] ticked_refl [OF ticked_ok [OF t2]]
    by (auto split: if_splits option.splits)
  have t4: "ticked L (tdi_slice tdi ((k + n) * 8) q) s3 s4"
  proof (cases "q = 0")
    case True
    then show ?thesis using 4 ticked_refl [OF ticked_ok [OF t3]] by (simp add: q_def)
  next
    case False
    have "k + n < length b" if "tdi = Some b" for b using fits [OF that] pos le False by simp
    then have ops: "mpsse_ops ([data_op tdi tdo (MPSSE_LSB OR MPSSE_BITMODE OR MPSSE_WRITE_NEG), of_nat (q - 1)] @
        (case tdi of None \<Rightarrow> [] | Some b \<Rightarrow> [b ! (k + n)])) = Some (map (Cycle None) (tdi_slice tdi ((k + n) * 8) q))"
      using False rem0(2) by (intro bits_cmd_ops [OF some]) simp_all
    from 4 [folded n_def q_def] False
    have "then_act (mpsse_add_cmd E [data_op tdi tdo (MPSSE_LSB OR MPSSE_BITMODE OR MPSSE_WRITE_NEG), of_nat (q - 1)])
        (case tdi of None \<Rightarrow> return_act () | Some b \<Rightarrow> mpsse_add_cmd E [b ! (k + n)]) s3 = (Ret (), s4)"
      by (simp only: not_False_eq_True if_True)
    from adds_ticked [OF ticked_ok [OF t3] cmds_adds [OF ft_ok_handle [OF ticked_ok [OF t3]] this] ops]
    show ?thesis .
  qed
  have "tdi_slice tdi 0 (k * 8 + (n * 8 + q)) =
      tdi_slice tdi 0 (k * 8) @ tdi_slice tdi (k * 8) (n * 8) @ tdi_slice tdi ((k + n) * 8) q"
    by (simp only: tdi_slice_append [of tdi 0 "k * 8"] tdi_slice_append [of tdi "k * 8" "n * 8"]
        add_0 add_mult_distrib)
  then have t: "ticked L (tdi_bits tdi ?rem) s s4"
    using ticked_trans [OF t1 ticked_trans [OF t2 ticked_trans [OF t3 t4]]] pos by (simp add: tdi_slice_0)
  have c5: "clocked L (data_clocks (held (ft_clocks s)) (tdi_bits tdi len) final) s s5"
  proof (cases final)
    case False
    then show ?thesis using 5 t by (simp add: ticked_def data_clocks_def)
  next
    case True
    let ?b = "case tdi of None \<Rightarrow> False | Some b \<Rightarrow> bit (b ! (k + n)) q"
    have bits: "tdi_bits tdi len = tdi_bits tdi ?rem @ tdi_slice tdi (k * 8 + (n * 8 + q)) 1"
      using tdi_slice_append [of tdi 0 ?rem 1] True len pos by (simp add: tdi_slice_0)
    have "(tdi_slice tdi (k * 8 + (n * 8 + q)) 1 = [Some ?b] \<or> tdi_slice tdi (k * 8 + (n * 8 + q)) 1 = [None] \<and> \<not> ?b)"
    proof (cases tdi)
      case (Some b)
      have "k * 8 + (n * 8 + q) = (k + n) * 8 + q" by simp
      then show ?thesis using rem0(2) by (simp add: Some tdi_slice_def bit_at_def)
    qed (simp add: tdi_slice_def)
    then have dc: "data_clocks (held (ft_clocks s)) (tdi_bits tdi len) True =
        map (Pair (held (ft_clocks s))) (tdi_bits tdi ?rem) @ [(True, Some ?b)]"
      unfolding bits by (auto simp: data_clocks_def)
    have "clocked L [(True, Some ?b)] s4 s5"
      using 5 [folded n_def q_def] True by (intro last_bit_clocked [OF ticked_ok [OF t]]) (simp only: if_True)
    with t show ?thesis using clocked_trans True by (simp add: dc ticked_def)
  qed
  have "ticked L [] s5 s'"
    using 6 read_result_ticked [OF clocked_ok [OF c5]] ticked_refl [OF clocked_ok [OF c5]]
    by (auto split: option.splits)
  then have "clocked L [] s5 s'" by (simp add: ticked_def)
  from clocked_trans [OF c5 this] show ?thesis by simp
qed

text \<open>A delay clocks with TMS and TDI unchanged.\<close>

lemma Usleep_ticked:
  assumes "ft_ok L s" and "Usleep E usec s = (Ret u, s')"
  shows "\<exists>k. ticked L (replicate k None) s s'"
proof (cases "usec < 20000")
  case False
  then show ?thesis
    using assms send_ticked [OF assms(1)] by (auto simp: Usleep_def Let_def intro: exI [of _ 0])
next
  case True
  define ticks where "ticks = usleep_ticks s usec"
  define rest where "rest = (if ticks > 8 then ticks mod 8 else ticks)"
  have fast: "device_has_fast_clock s" using assms(1) by (simp add: ft_ok_def)
  obtain s1 where
      1: "(if ticks > 8 then mpsse_add_cmd E [0x8f, ucast (ticks div 8), ucast (drop_bit 8 (ticks div 8))]
           else return_act ()) s = (Ret (), s1)"
      and 2: "(if rest \<noteq> 0 then mpsse_add_cmd E [0x8e, ucast (rest - 1)] else return_act ()) s1 = (Ret u, s')"
    using assms(2) True fast
    unfolding Usleep_def Let_def ticks_def [symmetric] rest_def [symmetric] by auto
  have c8: "mpsse_ops [0x8f, a, b] = Some (map (Cycle None) (replicate ((arg16 a b + 1) * 8) None))" for a b
    by (subst mpsse_ops_cmd) simp_all
  have t1: "\<exists>k. ticked L (replicate k None) s s1"
  proof (cases "ticks > 8")
    case True
    with 1 have "mpsse_add_cmd E [0x8f, ucast (ticks div 8), ucast (drop_bit 8 (ticks div 8))] s = (Ret (), s1)"
      by (simp only: if_True)
    from add_cmd_ticked [OF assms(1) this c8] show ?thesis by blast
  next
    case False
    with 1 have "ticked L (replicate 0 None) s s1" using ticked_refl [OF assms(1)] by simp
    then show ?thesis by blast
  qed
  then have ok: "ft_ok L s1" using ticked_ok by blast
  have c1: "mpsse_ops [0x8e, a] = Some (map (Cycle None) (replicate (unat a + 1) None))" for a
    by (subst mpsse_ops_cmd) simp_all
  have "\<exists>k. ticked L (replicate k None) s1 s'"
  proof (cases "rest = 0")
    case True
    with 2 have "ticked L (replicate 0 None) s1 s'" using ticked_refl [OF ok] by simp
    then show ?thesis by blast
  next
    case False
    with 2 have "mpsse_add_cmd E [0x8e, ucast (rest - 1)] s1 = (Ret u, s')" by (simp only: if_True not_False_eq_True)
    from add_cmd_ticked [OF ok this c1] show ?thesis by blast
  qed
  with t1 show ?thesis using ticked_trans by (metis replicate_add)
qed

end

text \<open>The cable keeps the contract of the base class.\<close>

sublocale mpsse_port \<subseteq> ft: jtag_cable "ioftdi_cable E" ft_clocks "ft_ok L"
proof unfold_locales
  fix s s' :: "'w logged ioftdi" and pat n force u
  assume "ft_ok L s" and "cb_tms (ioftdi_cable E) pat n force s = (Ret u, s')"
  then show "ft_ok L s' \<and> ft_clocks s' = ft_clocks s @ tms_clocks (bits_of pat n)"
    using tx_tms_clocked by (simp add: ioftdi_cable_def clocked_def)
next
  fix s s' :: "'w logged ioftdi" and n tdi tdo final r
  assume "ft_ok L s" and "0 < n" and "tdi \<noteq> None \<or> tdo \<noteq> None"
    and "\<And>b. tdi = Some b \<Longrightarrow> n \<le> 8 * length b"
    and "cb_txrx (ioftdi_cable E) tdi tdo n final s = (Ret r, s')"
  then show "ft_ok L s' \<and> ft_clocks s' = ft_clocks s @ data_clocks (held (ft_clocks s)) (tdi_bits tdi n) final"
    using txrx_block_clocked by (simp add: ioftdi_cable_def clocked_def)
next
  fix s s' :: "'w logged ioftdi" and usec u
  assume "ft_ok L s" and "cb_usleep (ioftdi_cable E) usec s = (Ret u, s')"
  then show "ft_ok L s' \<and> (\<exists>k. ft_clocks s' = ft_clocks s @ map (Pair (held (ft_clocks s))) (replicate k None))"
    using Usleep_ticked by (fastforce simp: ioftdi_cable_def clocked_def ticked_def)
qed

end
