(* ===== verification/Jtag_Session.thy ===== *)
theory Jtag_Session
  imports Ioftdi_Clocks
begin

text \<open>
  A program that drives the chain through the public operations of \<open>Jtag\<close>
  (\<open>src/devices/xc3sprog/jtag.cpp\<close>) over the FTDI cable: what holds in every state it can reach.
\<close>

section \<open>The operations as steps\<close>

text \<open>
  The operations return, with arguments as the callers give them: the targets of moves are states
  the controllers stay in, shifts have a length and buffers of it, extra clock cycles are not asked
  for in the reset state, which they would leave.
\<close>

inductive jtag_step :: "'s cable \<Rightarrow> 's jtag \<Rightarrow> 's jtag \<Rightarrow> bool" for D where
  step_reset: "tapTestLogicReset D j = (Ret u, j') \<Longrightarrow> jtag_step D j j'"
| step_move: "stable t \<Longrightarrow> pre = 0 \<or> t \<noteq> TEST_LOGIC_RESET \<Longrightarrow> setTapState D t pre j = (Ret u, j') \<Longrightarrow>
    jtag_step D j j'"
| step_chain: "getChain D ir idx detect j = (Ret n, j') \<Longrightarrow> jtag_step D j j'"
| step_select: "selectDevice d j = (Ret n, j') \<Longrightarrow> jtag_step D j j'"
| step_irlen: "setDeviceIRLength d len j = (Ret n, j') \<Longrightarrow> jtag_step D j j'"
| step_postDR: "stable t \<Longrightarrow> jtag_step D j (j\<lparr>postDRState := t\<rparr>)"
| step_postIR: "stable t \<Longrightarrow> jtag_step D j (j\<lparr>postIRState := t\<rparr>)"
| step_cycle: "cycleTCK D n tdi j = (Ret u, j') \<Longrightarrow> jtag_step D j j'"
| step_sleep: "jtag_Usleep D usec j = (Ret u, j') \<Longrightarrow> jtag_step D j j'"
| step_DR: "0 < len \<Longrightarrow> (\<And>b. tdi = Some b \<Longrightarrow> len \<le> 8 * length b) \<Longrightarrow>
    shiftDR D tdi tdo len align exit j = (Ret r, j') \<Longrightarrow> jtag_step D j j'"
| step_IR: "0 < irlen (devices j ! nat (deviceIndex j)) \<Longrightarrow>
    nat (irlen (devices j ! nat (deviceIndex j))) \<le> 8 * length b \<Longrightarrow>
    shiftIR D (Some b) tdo j = (Ret r, j') \<Longrightarrow> jtag_step D j j'"

inductive jtag_reachable :: "'s cable \<Rightarrow> 's jtag \<Rightarrow> 's jtag \<Rightarrow> bool" for D j0 where
  reach_start: "jtag_reachable D j0 j0"
| reach_step: "jtag_reachable D j0 j \<Longrightarrow> jtag_step D j j' \<Longrightarrow> jtag_reachable D j0 j'"

section \<open>The invariant\<close>

context jtag_cable
begin

definition jtag_inv :: "'s jtag \<Rightarrow> bool" where
  "jtag_inv j \<longleftrightarrow> tracks j \<and> (current_state j = UNKNOWN \<or> stable (current_state j)) \<and>
     stable (postDRState j) \<and> stable (postIRState j)"

lemma stable_known: "stable t \<Longrightarrow> t \<noteq> UNKNOWN"
  by (auto simp: stable_def)

lemma stable_states [simp]:
  "stable TEST_LOGIC_RESET" "stable RUN_TEST_IDLE" "stable SHIFT_DR" "stable SHIFT_IR"
  by (simp_all add: stable_def)

lemma init_inv: "ok s \<Longrightarrow> jtag_inv (Jtag_init (iobase_init s))"
  using io_ok_init by (simp add: jtag_inv_def Jtag_init_def tracks_def)

lemma move_inv:
  assumes "jtag_inv j" and "stable t" and "pre = 0 \<or> t \<noteq> TEST_LOGIC_RESET"
    and "setTapState D t pre j = (Ret u, j')"
  shows "jtag_inv j' \<and> current_state j' = t"
proof -
  have "pre = 0 \<or> tap_next False t = t" using assms(2,3) by (auto simp: stable_def)
  then obtain d where "j' = j\<lparr>current_state := t, io := d\<rparr>" and "tracks j'"
    using setTapState_wires [OF _ _ _ assms(4)] assms(1) stable_known [OF assms(2)]
    unfolding jtag_inv_def by blast
  then show ?thesis using assms(1,2) by (simp add: jtag_inv_def)
qed

lemma reset_inv:
  assumes "jtag_inv j" and "tapTestLogicReset D j = (Ret u, j')"
  shows "jtag_inv j' \<and> current_state j' = TEST_LOGIC_RESET"
proof -
  have "io_ok (io j)" using assms(1) by (simp add: jtag_inv_def)
  then obtain d where "j' = j\<lparr>current_state := TEST_LOGIC_RESET, io := d\<rparr>" and "tracks j'"
    by (rule reset_wires [OF _ assms(2)])
  then show ?thesis using assms(1) by (simp add: jtag_inv_def)
qed

text \<open>Reading the ids of the chain in the state \<open>SHIFT_DR\<close>.\<close>

lemma chain_loop_inv:
  "jtag_inv j \<Longrightarrow> current_state j = SHIFT_DR \<Longrightarrow> chain_loop D ir idx j = (Ret u, j') \<Longrightarrow> jtag_inv j'"
proof (induction "nat (MAXNUMDEVICES - numDevices j)" arbitrary: j idx rule: less_induct)
  case less
  define nxt where "nxt = (\<lambda>r j1. let id = byteArrayToLong (the r) in
      if id \<noteq> 0 \<and> id \<noteq> 0xffffffff then
        (let j2 = j1\<lparr>numDevices := numDevices j1 + 1,
                     devices := \<lparr>idcode = ucast id, irlen = ir\<rparr> # devices j1\<rparr> in
         if numDevices j2 < MAXNUMDEVICES then chain_loop D ir (the r) j2 else (Ret (), j2))
      else (Ret (), j1))"
  have "chain_loop D ir idx j =
      bind_act (on_io (shiftTDITDO D (Some (replicate 4 0)) (Some idx) 32 False)) nxt j"
    by (subst chain_loop.simps) (simp only: bind_act_def nxt_def)
  with less.prems(3) obtain r d where 1: "shiftTDITDO D (Some (replicate 4 0)) (Some idx) 32 False (io j) = (Ret r, d)"
      and 2: "nxt r (j\<lparr>io := d\<rparr>) = (Ret u, j')"
    by (auto simp only: bind_act_returns on_io_returns)
  have tr: "tracks j" using less.prems(1) by (simp add: jtag_inv_def)
  have w: "io_ok d \<and> wires d = wires (io j) @ data_clocks (held (wires (io j))) (tdi_bits (Some (replicate 4 0)) 32) False"
    by (rule shiftTDITDO_wires [OF tracks_io_ok [OF tr] _ _ 1]) auto
  have "tracks (j\<lparr>io := d\<rparr>)"
    using data_tracks [OF tr, of False] less.prems(2) w by auto
  then have inv: "jtag_inv (j\<lparr>io := d\<rparr>)" using less.prems(1) by (simp add: jtag_inv_def)
  let ?j2 = "j\<lparr>io := d, numDevices := numDevices j + 1,
      devices := \<lparr>idcode = ucast (byteArrayToLong (the r)), irlen = ir\<rparr> # devices j\<rparr>"
  have inv2: "jtag_inv ?j2"
    using inv tracks_frame [of "j\<lparr>io := d\<rparr>" ?j2] by (simp add: jtag_inv_def)
  consider "j' = j\<lparr>io := d\<rparr>" | "j' = ?j2"
    | "numDevices j + 1 < MAXNUMDEVICES" "chain_loop D ir (the r) ?j2 = (Ret u, j')"
    using 2 by (auto simp: nxt_def Let_def split: if_splits)
  then show ?case
  proof cases
    case 3
    show ?thesis by (rule less.hyps [OF _ inv2 _ 3(2)]) (use 3(1) less.prems(2) in simp_all)
  qed (use inv inv2 in simp_all)
qed

lemma getChain_inv:
  assumes "jtag_inv j" and "getChain D ir idx detect j = (Ret n, j')"
  shows "jtag_inv j'"
proof (cases "numDevices j = -1 \<or> detect")
  case False
  then show ?thesis using assms by (auto simp: getChain_def)
next
  case True
  with assms(2) obtain j1 j2 j3 where 1: "tapTestLogicReset D j = (Ret (), j1)"
      and 2: "setTapState D SHIFT_DR 0 j1 = (Ret (), j2)"
      and 3: "chain_loop D ir idx (j2\<lparr>numDevices := 0\<rparr>) = (Ret (), j3)"
      and 4: "setTapState D TEST_LOGIC_RESET 0 j3 = (Ret (), j')"
    by (auto simp: getChain_def)
  note i1 = reset_inv [OF assms(1) 1]
  have i2: "jtag_inv j2 \<and> current_state j2 = SHIFT_DR"
    by (rule move_inv [OF conjunct1 [OF i1] _ _ 2]) simp_all
  then have "jtag_inv (j2\<lparr>numDevices := 0\<rparr>)"
    using tracks_frame [of j2 "j2\<lparr>numDevices := 0\<rparr>"] by (simp add: jtag_inv_def)
  then have i3: "jtag_inv j3" by (rule chain_loop_inv [OF _ _ 3]) (simp add: i2)
  show ?thesis using move_inv [OF i3 _ _ 4] by simp
qed

lemma level_inv:
  assumes "jtag_inv j" and "io_ok d" and "wires d = wires (io j) @ map (Pair (held (wires (io j)))) ds"
  shows "jtag_inv (j\<lparr>io := d\<rparr>)"
proof (cases "current_state j = UNKNOWN")
  case True
  then show ?thesis using assms by (simp add: jtag_inv_def tracks_def)
next
  case False
  then show ?thesis using tracks_level [OF _ _ assms(2,3)] assms(1) by (simp add: jtag_inv_def)
qed

lemma step_inv:
  assumes "jtag_step D j j'" and inv: "jtag_inv j"
  shows "jtag_inv j'"
  using assms(1)
proof cases
  case (step_reset u)
  then show ?thesis using reset_inv [OF inv] by blast
next
  case (step_move t pre u)
  then show ?thesis using move_inv [OF inv] by blast
next
  case (step_chain ir idx detect n)
  then show ?thesis using getChain_inv [OF inv] by blast
next
  case (step_select d n)
  then show ?thesis
    using inv tracks_frame [of j j'] by (auto simp: selectDevice_def Let_def jtag_inv_def)
next
  case (step_irlen d len n)
  then show ?thesis
    using inv tracks_frame [of j j'] by (auto simp: setDeviceIRLength_def jtag_inv_def split: if_splits)
next
  case (step_postDR t)
  then show ?thesis using inv tracks_frame [of j j'] by (simp add: jtag_inv_def)
next
  case (step_postIR t)
  then show ?thesis using inv tracks_frame [of j j'] by (simp add: jtag_inv_def)
next
  case (step_cycle n tdi u)
  then obtain d where 1: "shift D tdi n False (io j) = (Ret u, d)" and j': "j' = j\<lparr>io := d\<rparr>"
    by (auto simp: cycleTCK_def)
  have "io_ok (io j)" using inv by (simp add: jtag_inv_def)
  from shift_wires [OF this 1]
  have "io_ok d" and "wires d = wires (io j) @ map (Pair (held (wires (io j)))) (replicate n (Some tdi))"
    by (simp_all add: data_clocks_def)
  from level_inv [OF inv this] show ?thesis unfolding j' .
next
  case (step_sleep usec u)
  then obtain d where 1: "io_Usleep D usec (io j) = (Ret u, d)" and j': "j' = j\<lparr>io := d\<rparr>"
    by (auto simp: jtag_Usleep_def)
  have "io_ok (io j)" using inv by (simp add: jtag_inv_def)
  from Usleep_wires [OF this 1] level_inv [OF inv] show ?thesis unfolding j' by blast
next
  case (step_DR len tdi tdo align exit r)
  have "tracks j" and "postDRState j \<noteq> UNKNOWN"
    using inv stable_known by (auto simp: jtag_inv_def)
  from shiftDR_tracks [OF this step_DR(1-3)] inv show ?thesis
    by (auto simp: jtag_inv_def chain_setup_def)
next
  case (step_IR b tdo r)
  show ?thesis
  proof (cases "deviceIndex j < 0")
    case True
    then show ?thesis using step_IR(3) inv by (simp add: shiftIR_def)
  next
    case False
    then have "0 \<le> deviceIndex j" by simp
    have "tracks j" and post: "postIRState j \<noteq> UNKNOWN" using inv stable_known by (auto simp: jtag_inv_def)
    from shiftIR_wires [OF this(1) \<open>0 \<le> deviceIndex j\<close> post step_IR(1) _ _ step_IR(3)] step_IR(2) inv
    show ?thesis by (auto simp: jtag_inv_def chain_setup_def)
  qed
qed

lemma reachable_inv: "jtag_reachable D j0 j \<Longrightarrow> jtag_inv j0 \<Longrightarrow> jtag_inv j"
  by (induction rule: jtag_reachable.induct) (simp_all add: step_inv)

end

end
