(* ===== verification/Jtag_Live.thy ===== *)
theory Jtag_Live
  imports Jtag_Session
begin

text \<open>
  That the operations return. A cable whose writes always return is a \<open>live_cable\<close>; on it every
  operation of \<open>Jtag\<close> that reads nothing back returns, the loop of \<open>setTapState\<close> included.
\<close>

section \<open>Cables that return\<close>

locale live_cable = jtag_cable +
  assumes tms_returns: "ok s \<Longrightarrow> \<exists>s'. cb_tms D pat n force s = (Ret (), s')"
    and tdi_returns: "ok s \<Longrightarrow> 0 < n \<Longrightarrow> n \<le> 8 * length b \<Longrightarrow>
      \<exists>r s'. cb_txrx D (Some b) None n final s = (Ret r, s')"
    and usleep_returns: "ok s \<Longrightarrow> \<exists>s'. cb_usleep D usec s = (Ret (), s')"
begin

lemma flush_returns: "io_ok s \<Longrightarrow> \<exists>s'. flush_tms D force s = (Ret (), s')"
  using tms_returns [of "drv s" "tms_buf s" "tms_len s" force]
  by (auto simp: flush_tms_def on_drv_def on_part_def io_ok_def then_act_def bind_act_def modify_act_def
      return_act_def)

lemma set_returns:
  assumes "io_ok s"
  shows "\<exists>s'. set_tms D b s = (Ret (), s')"
proof (cases "tms_len s + 1 > CHUNK_SIZE * 8")
  case True
  obtain s1 where "flush_tms D False s = (Ret (), s1)" using flush_returns [OF assms] by blast
  then show ?thesis using True by (simp add: set_tms_def then_act_Ret modify_act_def)
next
  case False
  then show ?thesis by (simp add: set_tms_def then_act_Ret return_act_def modify_act_def)
qed

lemma shiftTDI_returns:
  assumes "io_ok s" and "n \<le> 8 * length b"
  shows "\<exists>r s'. shiftTDITDO D (Some b) None n final s = (Ret r, s')"
proof (cases "n = 0")
  case True
  then show ?thesis by (simp add: shiftTDITDO_def return_act_def)
next
  case False
  obtain s1 where 1: "flush_tms D False s = (Ret (), s1)" using flush_returns [OF assms(1)] by blast
  then have "ok (drv s1)" using flush_tms_wires [OF assms(1) 1] by (simp add: io_ok_def)
  then obtain r d where "cb_txrx D (Some b) None n final (drv s1) = (Ret r, d)"
    using tdi_returns False assms(2) by blast
  with 1 False show ?thesis
    by (auto simp: shiftTDITDO_def bind_act_Ret on_drv_def on_part_def)
qed

lemma shift_loop_returns:
  "io_ok s \<Longrightarrow> tms_len s = 0 \<Longrightarrow> length block = CHUNK_SIZE \<Longrightarrow>
   \<exists>s'. shift_loop D block n final s = (Ret (), s')"
proof (induction n arbitrary: s rule: less_induct)
  case (less n)
  show ?case
  proof (cases "n > CHUNK_SIZE * 8")
    case False
    obtain r s' where "shiftTDITDO D (Some block) None n final s = (Ret r, s')"
      using shiftTDI_returns [OF less.prems(1), of n block final] less.prems(3) False by auto
    then show ?thesis
      using False by (subst shift_loop.simps) (simp add: shiftTDI_def bind_act_Ret return_act_def)
  next
    case True
    have "ok (drv s)" using less.prems(1) by (simp add: io_ok_def)
    then obtain r d where d: "cb_txrx D (Some block) None (CHUNK_SIZE * 8) False (drv s) = (Ret r, d)"
      using tdi_returns [of "drv s" "CHUNK_SIZE * 8" block False] less.prems(3) by auto
    then have 1: "on_drv (cb_txrx D (Some block) None (CHUNK_SIZE * 8) False) s = (Ret r, s\<lparr>drv := d\<rparr>)"
      by (simp add: on_drv_def)
    have "io_ok (s\<lparr>drv := d\<rparr>)" and "tms_len (s\<lparr>drv := d\<rparr>) = 0"
      using txrx_wires [OF less.prems(1,2) _ _ _ 1] less.prems(2,3) by simp_all
    with True less.IH [OF _ this less.prems(3), of "n - CHUNK_SIZE * 8"]
    obtain s' where "shift_loop D block (n - CHUNK_SIZE * 8) final (s\<lparr>drv := d\<rparr>) = (Ret (), s')" by auto
    then show ?thesis using True 1 by (subst shift_loop.simps) simp
  qed
qed

lemma shift_returns:
  assumes "io_ok s"
  shows "\<exists>s'. shift D b n final s = (Ret (), s')"
proof -
  obtain s1 where 1: "flush_tms D False s = (Ret (), s1)" using flush_returns [OF assms] by blast
  with flush_tms_wires [OF assms 1] shift_loop_returns [of s1 "if b then ones else zeros" n final]
  show ?thesis by (auto simp: shift_def then_act_Ret)
qed

lemma Usleep_returns:
  assumes "io_ok s"
  shows "\<exists>s'. io_Usleep D usec s = (Ret (), s')"
proof -
  obtain s1 where 1: "flush_tms D False s = (Ret (), s1)" using flush_returns [OF assms] by blast
  then have "ok (drv s1)" using flush_tms_wires [OF assms 1] by (simp add: io_ok_def)
  with usleep_returns obtain d where "cb_usleep D usec (drv s1) = (Ret (), d)" by blast
  with 1 show ?thesis by (simp add: io_Usleep_def then_act_Ret on_drv_def on_part_def)
qed

section \<open>The JTAG layer\<close>

lemma tms_run_returns: "returns (\<lambda>j. io_ok (io j)) (run_acts (replicate n (on_io (set_tms D b))))"
proof (rule returns_run)
  fix m assume "m \<in> set (replicate n (on_io (set_tms D b)))"
  then have m: "m = on_io (set_tms D b)" by (auto split: if_splits)
  show "returns (\<lambda>j. io_ok (io j)) m"
    unfolding returns_def m
  proof (intro allI impI)
    fix j :: "'a jtag" assume ok: "io_ok (io j)"
    then obtain d where d: "set_tms D b (io j) = (Ret (), d)" using set_returns by blast
    with set_tms_wires [OF ok d]
    show "\<exists>x s'. on_io (set_tms D b) j = (Ret x, s') \<and> io_ok (io s')" by (auto simp: on_io_def on_part_def)
  qed
qed

lemma reset_returns:
  assumes "io_ok (io j)"
  shows "\<exists>j'. tapTestLogicReset D j = (Ret (), j')"
proof -
  obtain j1 where 1: "run_acts (replicate 5 (on_io (set_tms D True))) j = (Ret (), j1)" and "io_ok (io j1)"
    using returnsE [OF tms_run_returns, of j 5 True] assms by (metis (full_types) old.unit.exhaust)
  then obtain d where "flush_tms D True (io j1) = (Ret (), d)" using flush_returns by blast
  with 1 show ?thesis
    by (auto simp: tapTestLogicReset_def then_act_Ret modify_act_def on_io_def on_part_def)
qed

lemma tap_loop_total:
  "io_ok (io j) \<Longrightarrow> t \<noteq> UNKNOWN \<Longrightarrow> \<exists>j'. tap_loop D t j = (Ret (), j') \<and> io_ok (io j')"
proof (induction "tap_rounds 16 (current_state j) t" arbitrary: j rule: less_induct)
  case less
  let ?s = "current_state j"
  let ?b = "fst (tap_step ?s t)" and ?s' = "snd (tap_step ?s t)"
  show ?case
  proof (cases "?s = t")
    case True
    then show ?thesis using less.prems(1) by (subst tap_loop.simps) simp
  next
    case ne: False
    obtain j1 where 1: "(if ?s = UNKNOWN then tapTestLogicReset D j
          else (Ret (), j\<lparr>current_state := ?s'\<rparr>)) = (Ret (), j1)"
        and io1: "io_ok (io j1)"
        and next_state: "current_state j1 = (if ?s = UNKNOWN then TEST_LOGIC_RESET else ?s')"
    proof (cases "?s = UNKNOWN")
      case True
      obtain j1 where 1: "tapTestLogicReset D j = (Ret (), j1)" using reset_returns [OF less.prems(1)] by blast
      then obtain d where "j1 = j\<lparr>current_state := TEST_LOGIC_RESET, io := d\<rparr>" and "tracks j1"
        by (rule reset_wires [OF less.prems(1)])
      then show thesis using that [of j1] True 1 by (metis jtag.select_convs(1) jtag.surjective
            jtag.update_convs(1) jtag.update_convs(8) tracks_io_ok)
    next
      case False
      then show thesis using that [of "j\<lparr>current_state := ?s'\<rparr>"] less.prems(1) by simp
    qed
    obtain d where 2: "set_tms D ?b (io j1) = (Ret (), d)" using set_returns [OF io1] by blast
    let ?j2 = "j1\<lparr>io := d\<rparr>"
    have loop: "tap_loop D t j = tap_loop D t ?j2"
      using ne less.prems(2) 1 2 by (subst tap_loop.simps) (simp add: on_io_def on_part_def)
    have cs2: "current_state ?j2 = current_state j1" by simp
    have "tap_rounds 16 (current_state ?j2) t < tap_rounds 16 ?s t"
      using tap_rounds_reset [OF less.prems(2)] tap_rounds_step [OF ne less.prems(2)]
      unfolding cs2 next_state by (cases "?s = UNKNOWN") (simp_all only: if_True if_False refl)
    moreover have "io_ok (io ?j2)" using set_tms_wires [OF io1 2] by simp
    ultimately show ?thesis unfolding loop using less.hyps [of ?j2] less.prems(2) by blast
  qed
qed

lemma setTapState_total:
  assumes "io_ok (io j)" and "t \<noteq> UNKNOWN"
  shows "\<exists>j'. setTapState D t pre j = (Ret (), j')"
proof -
  obtain j1 where 1: "tap_loop D t j = (Ret (), j1)" and "io_ok (io j1)" using tap_loop_total [OF assms] by blast
  then obtain j2 where "run_acts (replicate pre (on_io (set_tms D False))) j1 = (Ret (), j2)"
    using returnsE [OF tms_run_returns, of j1 pre False] by (metis (full_types) old.unit.exhaust)
  with 1 show ?thesis by (simp add: setTapState_def then_act_Ret)
qed

lemma nextTapState_total: "io_ok (io j) \<Longrightarrow> \<exists>j'. nextTapState D tms j = (Ret (), j')"
  using reset_returns by (auto simp: nextTapState_def)

lemma on_io_Ret: "m (io j) = (Ret x, d) \<Longrightarrow> on_io m j = (Ret x, j\<lparr>io := d\<rparr>)"
  by (simp add: on_io_def on_part_def)

text \<open>The data part of a shift that only writes.\<close>

lemma data_total:
  assumes "io_ok (io j)" and "\<And>b. tdi = Some b \<Longrightarrow> len \<le> 8 * length b"
  shows "\<exists>r j'. (if tdi = None then then_act (on_io (shift D False len final)) (return_act None)
      else on_io (shiftTDITDO D tdi None len final)) j = (Ret r, j')"
proof (cases tdi)
  case None
  then show ?thesis
    using shift_returns [OF assms(1), of False len final] by (auto simp: on_io_Ret then_act_Ret return_act_def)
next
  case (Some b)
  then show ?thesis
    using shiftTDI_returns [OF assms(1), of len b final] assms(2) by (auto simp: on_io_Ret)
qed

text \<open>A data shift returns if its data part does.\<close>

lemma shiftDR_returns_if:
  assumes tr: "tracks j" and post: "postDRState j \<noteq> UNKNOWN" and len: "0 < len"
    and sz: "\<And>b. tdi = Some b \<Longrightarrow> len \<le> 8 * length b"
    and part: "\<And>k final. io_ok (io k) \<Longrightarrow> final = (nat (deviceIndex j) = 0 \<and> exit) \<Longrightarrow>
      \<exists>r k'. (if tdi = None \<and> tdo = None then then_act (on_io (shift D False len final)) (return_act None)
        else on_io (shiftTDITDO D tdi tdo len final)) k = (Ret r, k')"
  shows "\<exists>r j'. shiftDR D tdi tdo len align exit j = (Ret r, j')"
proof (cases "deviceIndex j < 0")
  case True
  then show ?thesis by (simp add: shiftDR_def)
next
  case False
  define final where "final \<longleftrightarrow> nat (deviceIndex j) = 0 \<and> exit"
  define data where "data = (if tdi = None \<and> tdo = None then then_act (on_io (shift D False len final)) (return_act None)
      else on_io (shiftTDITDO D tdi tdo len final))"
  define finish where "finish = then_act (on_io (shift D False (nat (deviceIndex j)) True))
      (then_act (if \<not> final then nextTapState D True else return_act ())
        (then_act (\<lambda>j. setTapState D (postDRState j) 0 j)
          (modify_act (\<lambda>j. j\<lparr>shiftDRincomplete := False\<rparr>))))"
  have body: "shiftDR D tdi tdo len align exit j =
      then_act (if \<not> shiftDRincomplete j then setTapState D SHIFT_DR (dr_pre j align) else return_act ())
        (bind_act data
          (\<lambda>res. then_act (nextTapState D final)
            (then_act (if exit then finish else modify_act (\<lambda>j. j\<lparr>shiftDRincomplete := True\<rparr>))
              (return_act res)))) j"
    using False by (simp add: shiftDR_def Let_def dr_pre_def data_def finish_def final_def)
  obtain j1 where 1: "(if \<not> shiftDRincomplete j then setTapState D SHIFT_DR (dr_pre j align) else return_act ()) j =
      (Ret (), j1)" and tr1: "tracks j1" and c1: "chain_setup j1 = chain_setup j"
  proof (cases "shiftDRincomplete j")
    case True
    then show thesis using that [of j] tr by (simp add: return_act_def)
  next
    case False
    obtain j1 where 1: "setTapState D SHIFT_DR (dr_pre j align) j = (Ret (), j1)"
      using setTapState_total [OF tracks_io_ok [OF tr], of SHIFT_DR] by blast
    then obtain d where "j1 = j\<lparr>current_state := SHIFT_DR, io := d\<rparr>" and "tracks j1"
      by (rule setTapState_wires [OF tr, rotated 2]) simp_all
    then show thesis using that [of j1] 1 False by simp
  qed
  have fin: "final = (nat (deviceIndex j) = 0 \<and> exit)" by (simp add: final_def)
  obtain r j2 where 2: "data j1 = (Ret r, j2)"
    using part [OF tracks_io_ok [OF tr1] fin] unfolding data_def by blast
  then obtain d2 where d2: "j2 = j1\<lparr>io := d2\<rparr>" "io_ok d2"
      "wires d2 = wires (io j1) @ data_clocks (held (wires (io j1))) (out_bits tdi tdo len) final"
    using data_wires [of j1 tdi len tdo final r j2] tr1 sz unfolding data_def by auto
  have "io_ok (io j2)" using d2 by simp
  then obtain j3 where 3: "nextTapState D final j2 = (Ret (), j3)" using nextTapState_total by blast
  have j3: "tracks j3" "chain_setup j3 = chain_setup j"
    using shift_and_next [OF tr1 _ d2(2,3) 3 [unfolded d2(1)]] c1 len by simp_all
  have "\<exists>j'. finish j3 = (Ret (), j')" if exit
  proof -
    let ?post = "nat (deviceIndex j)"
    obtain d where 5: "shift D False ?post True (io j3) = (Ret (), d)"
      using shift_returns [OF tracks_io_ok [OF j3(1)]] by blast
    note w5 = shift_wires [OF tracks_io_ok [OF j3(1)] 5]
    obtain j4 where 6: "(if \<not> final then nextTapState D True else return_act ()) (j3\<lparr>io := d\<rparr>) = (Ret (), j4)"
      using nextTapState_total [of "j3\<lparr>io := d\<rparr>" True] w5 by (cases final) (auto simp: return_act_def)
    have j4: "tracks j4 \<and> chain_setup j4 = chain_setup j"
    proof (cases final)
      case True
      then have "wires d = wires (io j3)" using w5 by (simp add: final_def)
      then have "tracks (j3\<lparr>io := d\<rparr>)" using idle_tracks [OF j3(1)] w5 by blast
      moreover have "j4 = j3\<lparr>io := d\<rparr>" using 6 True by (simp add: return_act_def)
      ultimately show ?thesis using j3(2) by simp
    next
      case False
      then have "replicate ?post (Some False) \<noteq> []" using \<open>exit\<close> by (simp add: final_def)
      then show ?thesis
        using shift_and_next [OF j3(1), of True "replicate ?post (Some False)" d] w5 6 False j3(2) by simp
    qed
    then have "postDRState j4 = postDRState j" using chain_setup_fields by blast
    then obtain j5 where "setTapState D (postDRState j4) 0 j4 = (Ret (), j5)"
      using setTapState_total [of j4 "postDRState j" 0] j4 post by (metis tracks_io_ok)
    moreover have "on_io (shift D False ?post True) j3 = (Ret (), j3\<lparr>io := d\<rparr>)"
      using 5 by (rule on_io_Ret)
    ultimately show ?thesis using 6 by (simp add: finish_def then_act_Ret modify_act_def)
  qed
  then obtain j' where "(if exit then finish else modify_act (\<lambda>j. j\<lparr>shiftDRincomplete := True\<rparr>)) j3 = (Ret (), j')"
    by (cases exit) (auto simp: modify_act_def)
  then show ?thesis using 1 2 3 unfolding body by (auto simp: then_act_Ret bind_act_Ret return_act_def)
qed

lemma shiftDR_total:
  assumes "tracks j" and "postDRState j \<noteq> UNKNOWN" and "0 < len"
    and "\<And>b. tdi = Some b \<Longrightarrow> len \<le> 8 * length b"
  shows "\<exists>r j'. shiftDR D tdi None len align exit j = (Ret r, j')"
  by (rule shiftDR_returns_if [OF assms]) (use data_total assms(4) in \<open>simp_all only: simp_thms\<close>)

text \<open>So does an instruction shift, with what the data part gives.\<close>

lemma shiftIR_returns_if:
  assumes tr: "tracks j" and post: "postIRState j \<noteq> UNKNOWN" and dev: "0 \<le> deviceIndex j"
    and ir: "0 < irlen (devices j ! nat (deviceIndex j))"
    and sz: "nat (irlen (devices j ! nat (deviceIndex j))) \<le> 8 * length b"
    and part: "\<And>d final. io_ok d \<Longrightarrow> final = (ir_bits j [0..<nat (deviceIndex j)] = 0) \<Longrightarrow>
      \<exists>r d'. shiftTDITDO D (Some b) tdo (nat (irlen (devices j ! nat (deviceIndex j)))) final d = (Ret r, d') \<and> R r"
  shows "\<exists>r j'. shiftIR D (Some b) tdo j = (Ret r, j') \<and> R r"
proof -
  define this where "this = nat (deviceIndex j)"
  let ?pre = "ir_bits j [this + 1..<nat (numDevices j)]" and ?post = "ir_bits j [0..<this]"
    and ?len = "nat (irlen (devices j ! this))"
  obtain j1 where 1: "setTapState D SHIFT_IR 0 j = (Ret (), j1)"
    using setTapState_total [OF tracks_io_ok [OF tr], of SHIFT_IR] by blast
  obtain d1 where j1: "j1 = j\<lparr>current_state := SHIFT_IR, io := d1\<rparr>" "tracks j1"
    by (rule setTapState_wires [OF tr _ _ 1]) simp_all
  obtain d2 where 2: "shift D True ?pre False (io j1) = (Ret (), d2)"
    using shift_returns [OF tracks_io_ok [OF j1(2)]] by blast
  note w2 = shift_wires [OF tracks_io_ok [OF j1(2)] 2]
  obtain r d3 where 3: "shiftTDITDO D (Some b) tdo ?len (?post = 0) d2 = (Ret r, d3)" and R: "R r"
    using part [OF conjunct1 [OF w2] refl] unfolding this_def by blast
  have w3: "io_ok d3" using shiftTDITDO_wires [OF _ _ _ 3] w2 sz by (simp add: this_def)
  obtain d4 where 4: "shift D True ?post True d3 = (Ret (), d4)" using shift_returns [OF w3] by blast
  let ?j5 = "j1\<lparr>current_state := EXIT1_IR, io := d4\<rparr>"
  have 5: "nextTapState D True (j1\<lparr>io := d4\<rparr>) = (Ret (), ?j5)"
    by (cases j) (simp add: nextTapState_def j1(1))
  have run: "shiftIR D (Some b) tdo j = then_act (\<lambda>j. setTapState D (postIRState j) 0 j) (return_act r) ?j5"
    using dev 1 2 3 4 5
    by (simp add: shiftIR_def Let_def then_act_Ret bind_act_Ret on_io_def on_part_def flip: this_def)
  moreover have "io_ok (io ?j5)" using shift_wires [OF w3 4] by simp
  then obtain j6 where "setTapState D (postIRState ?j5) 0 ?j5 = (Ret (), j6)"
    using setTapState_total [of ?j5 "postIRState ?j5" 0] post j1(1) by auto
  ultimately show ?thesis using R by (auto simp: then_act_Ret return_act_def)
qed

lemma shiftIR_total:
  assumes "tracks j" and "postIRState j \<noteq> UNKNOWN"
    and "0 < irlen (devices j ! nat (deviceIndex j))"
    and "nat (irlen (devices j ! nat (deviceIndex j))) \<le> 8 * length b"
  shows "\<exists>r j'. shiftIR D (Some b) None j = (Ret r, j')"
proof (cases "deviceIndex j < 0")
  case True
  then show ?thesis by (simp add: shiftIR_def)
next
  case False
  then have "0 \<le> deviceIndex j" by simp
  from shiftIR_returns_if [OF assms(1,2) this assms(3,4), where R = "\<lambda>_. True" and tdo = None]
    shiftTDI_returns [OF _ assms(4)]
  show ?thesis by blast
qed

end

end
