(* ===== verification/Ioftdi_Live.thy ===== *)
theory Ioftdi_Live
  imports Jtag_Live
begin

unbundle bit_operations_syntax

text \<open>
  The FTDI cable on a bus whose writes succeed: every operation that reads nothing back returns,
  so the cable is a \<open>live_cable\<close>.
\<close>

section \<open>Writing\<close>

lemma bind_return: "bind_act (return_act t) f = f t"
  by (rule ext) (simp add: bind_act_def return_act_def)


definition no_errors :: "'w libusb \<Rightarrow> bool" where
  "no_errors L \<longleftrightarrow> (\<forall>h ep d t w. 0 \<le> fst (fst (lu_bulk_out L h ep d t w)))"

lemma no_errors_packet [simp]: "no_errors packet_usb"
  by (simp add: no_errors_def)

lemma no_errors_logging: "no_errors L \<Longrightarrow> no_errors (logging L)"
  by (auto simp: no_errors_def split: prod.splits) (metis fst_conv)

lemma write_loop_succeeds:
  assumes "no_errors L" and "0 \<le> offset" and run: "write_loop L c h buf sz offset w = Some x"
  shows "0 \<le> fst x"
proof -
  let ?P = "\<lambda>L (c :: ftdi_context) (h :: handle) (buf :: byte list) (sz :: int) offset (w :: 'a) x.
      no_errors L \<longrightarrow> 0 \<le> offset \<longrightarrow> (0 :: int) \<le> fst x"
  have "?P L c h buf sz offset w x"
  proof (rule write_loop.raw_induct [OF _ run, where P = ?P], goal_cases)
    case (1 loop L c h buf sz offset w x)
    show ?case
    proof (intro impI)
      assume ne: "no_errors L" and pos: "0 \<le> offset"
      show "0 \<le> fst x"
      proof (cases "offset < sz")
        case False
        then show ?thesis using 1(2) pos by auto
      next
        case True
        define size where "size = (if sz < wrap32 (offset + write_chunk c) then sz - offset else write_chunk c)"
        obtain r n w1 where tr: "lu_bulk_out L h (in_ep c) (take (nat size) (drop (nat offset) buf))
            (usb_write_timeout c) w = ((r, n), w1)"
          by (metis prod.exhaust)
        have "0 \<le> r" using ne tr unfolding no_errors_def by (metis fst_conv)
        then have "loop L c h buf sz (offset + int n) w1 = Some x"
          using 1(2) True tr by (simp add: Let_def size_def)
        with 1(1) ne pos show ?thesis by fastforce
      qed
    qed
  qed
  with assms(1,2) show ?thesis by blast
qed

lemma write_live:
  assumes "port_ready L h" and "no_errors L"
  shows "\<exists>h'. ftdi_write_data (logging L) buf (int (length buf)) h = Some (int (length buf), h')"
proof -
  obtain c d w l where h: "h = (Some c, w, l)" and c: "usb_dev c = Some d" "0 < write_chunk c"
      and ok: "bulk_ok L" "bulk_progress L"
    using assms(1) by (rule port_readyE)
  obtain r c' w' new where wr: "write_loop (logging L) c d buf (int (length buf)) 0 (w, l) =
      Some (r, Some c', w', l @ new)" "r = int (length buf) \<or> r = -1"
    using write_loop_complete [OF ok c(2), of 0 buf d w l] by auto
  with write_loop_succeeds [OF no_errors_logging [OF assms(2)] order_refl wr(1)]
  show ?thesis by (auto simp: h ftdi_write_data_def with_dev_def c(1))
qed

section \<open>The operations\<close>

definition live_port :: "'w libusb \<Rightarrow> 'w logged ioftdi \<Rightarrow> bool" where
  "live_port L s \<longleftrightarrow> port_ready L (ftdi_handle s) \<and> no_errors L \<and> bptr s \<le> TX_BUF - 2"

lemma send_live:
  assumes usb: "ev_usb E = logging L" and "live_port L s"
  shows "\<exists>s'. mpsse_send E s = (Ret (), s') \<and> live_port L s' \<and> usbuf s' = []"
proof (cases "usbuf s = []")
  case True
  then show ?thesis using assms by (simp add: mpsse_send_def)
next
  case False
  obtain h where wr: "ftdi_write_data (ev_usb E) (usbuf s) (int (bptr s)) (ftdi_handle s) = Some (int (bptr s), h)"
    using write_live [of L "ftdi_handle s" "usbuf s"] assms by (auto simp: usb live_port_def)
  moreover have "port_ready L h"
    using ftdi_write_port [OF _ wr [unfolded usb]] assms by (simp add: live_port_def)
  ultimately show ?thesis using False assms by (simp add: mpsse_send_def live_port_def)
qed

lemma add_cmd_live:
  assumes usb: "ev_usb E = logging L" and "length buf \<le> TX_BUF - 2"
  shows "returns (live_port L) (mpsse_add_cmd E buf)"
  unfolding returns_def
proof (intro allI impI)
  fix s assume s: "live_port L s"
  show "\<exists>x s'. mpsse_add_cmd E buf s = (Ret x, s') \<and> live_port L s'"
  proof (cases "bptr s + length buf + 1 \<ge> TX_BUF")
    case True
    obtain s1 where "mpsse_send E s = (Ret (), s1)" "live_port L s1" "usbuf s1 = []"
      using send_live [OF usb s] by blast
    then show ?thesis
      using True assms by (simp add: mpsse_add_cmd_def then_act_Ret put_cmd_def live_port_def)
  next
    case False
    then show ?thesis
      using s by (simp add: mpsse_add_cmd_def then_act_Ret return_act_def put_cmd_def live_port_def)
  qed
qed

lemma send_returns: "ev_usb E = logging L \<Longrightarrow> returns (live_port L) (mpsse_send E)"
  using send_live unfolding returns_def by blast

lemma tms_loop_live: "ev_usb E = logging L \<Longrightarrow> returns (live_port L) (tms_loop E pat k len)"
proof (induction len arbitrary: k rule: less_induct)
  case (less len)
  show ?case
  proof (cases "len = 0")
    case True
    have "tms_loop E pat k len s = return_act () s" for s
      using tms_loop.simps [of E pat k 0 s] True by (simp add: return_act_def)
    then show ?thesis unfolding returns_def return_act_def by auto
  next
    case False
    define n where "n = (if len > 6 then 6 else len)"
    have "returns (live_port L) (bind_act (mpsse_add_cmd E [0x4b, of_nat (n - 1), tms_byte pat k n])
        (\<lambda>_. tms_loop E pat (k + n) (len - n)))"
      using less False by (intro returns_rules add_cmd_live) (simp_all add: n_def)
    then show ?thesis unfolding returns_def tms_loop_step [OF False n_def] .
  qed
qed

lemma bytes_live: "ev_usb E = logging L \<Longrightarrow> n \<le> TX_BUF - 2 \<Longrightarrow> returns (live_port L) (add_bytes_cmd E (Some b) tdo k n)"
  unfolding add_bytes_cmd_def option.case by (intro returns_rules add_cmd_live) simp_all

lemma full_chunks_live: "ev_usb E = logging L \<Longrightarrow> returns (live_port L) (full_chunks E (Some b) None k rem)"
proof (induction rem arbitrary: k rule: less_induct)
  case (less rem)
  show ?case
  proof (cases "rem div 8 > FULL")
    case False
    then show ?thesis unfolding returns_def by (auto simp: full_chunks_done)
  next
    case True
    have step: "full_chunks E (Some b) None k rem s =
        bind_act (add_bytes_cmd E (Some b) None k FULL)
          (\<lambda>_. full_chunks E (Some b) None (k + FULL) (rem - FULL * 8)) s" for s
      unfolding full_chunks_step [OF True] by (cases "add_bytes_cmd E (Some b) None k FULL s" rule: prod.exhaust)
        (simp add: bind_act_def return_act_def split: outcome.split)
    have "returns (live_port L) (bind_act (add_bytes_cmd E (Some b) None k FULL)
          (\<lambda>_. full_chunks E (Some b) None (k + FULL) (rem - FULL * 8)))"
      using less True by (intro returns_rules bytes_live) simp_all
    then show ?thesis unfolding returns_def step .
  qed
qed

lemma txrx_live:
  assumes usb: "ev_usb E = logging L" and "live_port L s"
  shows "\<exists>r s'. txrx_block E (Some b) None len final s = (Ret r, s')"
proof -
  obtain x s1 where f: "full_chunks E (Some b) None 0 (if final then len - 1 else len) s = (Ret x, s1)"
      and s1: "live_port L s1"
    using full_chunks_live [OF usb] assms(2) by (rule returnsE)
  obtain rem0 k tdo1 where x: "x = (rem0, k, tdo1)" by (metis prod.exhaust)
  have none: "tdo' = None" if "full_chunks E (Some b) None k rem s = (Ret (rem', k', tdo'), s')"
    for k rem s rem' k' tdo' s'
    using that
  proof (induction rem arbitrary: k s rule: less_induct)
    case (less rem)
    show ?case
    proof (cases "rem div 8 > FULL")
      case False
      then show ?thesis using less.prems by (simp add: full_chunks_done)
    next
      case True
      then have "rem - FULL * 8 < rem" by simp
      then show ?thesis using less.prems less.IH unfolding full_chunks_step [OF True] by fastforce
    qed
  qed
  have small: "rem0 div 8 \<le> FULL" using full_chunks_rest f by (simp add: x)
  have tdo1: "tdo1 = None" using none f by (simp add: x)
  define rest where "rest = (\<lambda>(rem0, k, tdo1).
      let rembits = rem0 mod 8; n = rem0 div 8 in
      then_act (if n \<noteq> 0 then add_bytes_cmd E (Some b) None k n else return_act ())
        (bind_act
          (if n \<ge> TX_BUF - 4 then
             (case tdo1 of
                None \<Rightarrow> return_act (k, 0, None)
              | Some b \<Rightarrow> bind_act (readusb E n) (\<lambda>r. return_act (k + n, 0, Some (write_at k r b))))
           else return_act (k, n, tdo1))
          (\<lambda>(ko, m, tdo2).
             let m1 = (if rembits \<noteq> 0 then m + 1 else m);
                 lastbit = (case Some b of None \<Rightarrow> False | Some b \<Rightarrow> bit (b ! (k + n)) rembits) in
             then_act
               (if rembits \<noteq> 0 then
                  then_act (mpsse_add_cmd E
                      [data_op (Some b) None (MPSSE_LSB OR MPSSE_BITMODE OR MPSSE_WRITE_NEG), of_nat (rembits - 1)])
                    (case Some b of None \<Rightarrow> return_act () | Some b \<Rightarrow> mpsse_add_cmd E [b ! (k + n)])
                else return_act ())
               (then_act
                 (if final then
                    mpsse_add_cmd E
                      [data_op None None (MPSSE_WRITE_TMS OR MPSSE_LSB OR MPSSE_BITMODE OR MPSSE_WRITE_NEG),
                       0, if lastbit then 0x81 else 1]
                  else return_act ())
                 (case tdo2 of
                    None \<Rightarrow> return_act None
                  | Some b \<Rightarrow>
                      bind_act (read_result E final rembits ko (if final then m1 + 1 else m1) b)
                        (\<lambda>b'. return_act (Some b')))))))"
  let ?n = "rem0 div 8" and ?q = "rem0 mod 8"
  have "returns (live_port L) (then_act (if ?n \<noteq> 0 then add_bytes_cmd E (Some b) None k ?n else return_act ())
      (then_act
        (if ?q \<noteq> 0 then
           then_act (mpsse_add_cmd E
               [data_op (Some b) None (MPSSE_LSB OR MPSSE_BITMODE OR MPSSE_WRITE_NEG), of_nat (?q - 1)])
             (mpsse_add_cmd E [b ! (k + ?n)])
         else return_act ())
        (then_act
          (if final then
             mpsse_add_cmd E
               [data_op None None (MPSSE_WRITE_TMS OR MPSSE_LSB OR MPSSE_BITMODE OR MPSSE_WRITE_NEG),
                0, if bit (b ! (k + ?n)) ?q then 0x81 else 1]
           else return_act ())
          (return_act (None :: byte list option)))))"
    using small by (intro returns_rules bytes_live add_cmd_live usb) simp_all
  moreover have "rest x = (then_act (if ?n \<noteq> 0 then add_bytes_cmd E (Some b) None k ?n else return_act ())
      (then_act
        (if ?q \<noteq> 0 then
           then_act (mpsse_add_cmd E
               [data_op (Some b) None (MPSSE_LSB OR MPSSE_BITMODE OR MPSSE_WRITE_NEG), of_nat (?q - 1)])
             (mpsse_add_cmd E [b ! (k + ?n)])
         else return_act ())
        (then_act
          (if final then
             mpsse_add_cmd E
               [data_op None None (MPSSE_WRITE_TMS OR MPSSE_LSB OR MPSSE_BITMODE OR MPSSE_WRITE_NEG),
                0, if bit (b ! (k + ?n)) ?q then 0x81 else 1]
           else return_act ())
          (return_act (None :: byte list option)))))"
    unfolding rest_def x tdo1 prod.case Let_def option.case
    by (cases "?n \<ge> TX_BUF - 4") (simp_all only: if_True if_False bind_return prod.case option.case)
  ultimately have "returns (live_port L) (rest x)" by simp
  from returnsE [OF this s1] obtain y s' where "rest x s1 = (Ret y, s')" by blast
  moreover have "txrx_block E (Some b) None len final s =
      bind_act (full_chunks E (Some b) None 0 (if final then len - 1 else len)) rest s"
    by (simp only: txrx_block_def rest_def)
  ultimately show ?thesis using f by (simp add: bind_act_Ret)
qed

lemma tx_tms_live: "ev_usb E = logging L \<Longrightarrow> returns (live_port L) (tx_tms E pat len force)"
  unfolding tx_tms_def by (intro returns_rules tms_loop_live send_returns)

lemma Usleep_live:
  assumes usb: "ev_usb E = logging L" and s: "live_port L s" and fast: "device_has_fast_clock s"
  shows "\<exists>s'. Usleep E usec s = (Ret (), s')"
proof -
  define ticks where "ticks = usleep_ticks s usec"
  define rest where "rest = (if ticks > 8 then ticks mod 8 else ticks)"
  have "returns (live_port L)
      (if usec < 20000 then
         then_act (if ticks > 8 then mpsse_add_cmd E [0x8f, ucast (ticks div 8), ucast (drop_bit 8 (ticks div 8))]
                   else return_act ())
           (if rest \<noteq> 0 then mpsse_add_cmd E [0x8e, ucast (rest - 1)] else return_act ())
       else mpsse_send E)"
    by (intro returns_rules add_cmd_live send_returns usb) simp_all
  from returnsE [OF this s] show ?thesis
    using fast unfolding Usleep_def Let_def ticks_def [symmetric] rest_def [symmetric] by fastforce
qed

section \<open>The cable returns\<close>

definition live_ok :: "'w libusb \<Rightarrow> 'w logged ioftdi \<Rightarrow> bool" where
  "live_ok L s \<longleftrightarrow> ft_ok L s \<and> in_buffer s \<and> no_errors L"

lemma live_ok_port: "live_ok L s \<Longrightarrow> live_port L s"
  by (simp add: live_ok_def live_port_def in_buffer_def ft_ok_def)

lemma live_ok_keeps:
  assumes "live_ok L s" and "upholds in_buffer m" and "m s = (Ret r, s')" and "ft_ok L s'"
  shows "live_ok L s'"
  using upholdsD [OF assms(2) _ assms(3)] assms(1,4) by (simp add: live_ok_def)

lemma live_ok_bulk: "live_ok L s \<Longrightarrow> bulk_ok L"
  by (auto simp: live_ok_def ft_ok_def port_ready_def)

interpretation ftdi_live: live_cable "ioftdi_cable (E\<lparr>ev_usb := logging L\<rparr>)" ft_clocks "live_ok L" for E L
proof (unfold_locales, goal_cases)
  case (1 s n pat force u s')
  have "bulk_ok (ev_usb (E\<lparr>ev_usb := logging L\<rparr>))" using live_ok_bulk [OF 1(1)] by simp
  from live_ok_keeps [OF 1(1) tx_tms_in_buffer [OF this]] 1 ftdi_port.ft.cable_tms [of L s n pat E force u s']
  show ?case by (simp add: live_ok_def ioftdi_cable_def)
next
  case (2 s n tdi tdo final r s')
  have "bulk_ok (ev_usb (E\<lparr>ev_usb := logging L\<rparr>))" using live_ok_bulk [OF 2(1)] by simp
  from live_ok_keeps [OF 2(1) txrx_in_buffer [OF this]] 2 ftdi_port.ft.cable_txrx [of L s n tdi tdo E final r s']
  show ?case by (simp add: live_ok_def ioftdi_cable_def)
next
  case (3 s usec u s')
  have "bulk_ok (ev_usb (E\<lparr>ev_usb := logging L\<rparr>))" using live_ok_bulk [OF 3(1)] by simp
  from live_ok_keeps [OF 3(1) Usleep_in_buffer [OF this]] 3 ftdi_port.ft.cable_usleep [of L s E usec u s']
  show ?case by (simp add: live_ok_def ioftdi_cable_def)
next
  case (4 s pat n force)
  then show ?case
    using returnsE [OF tx_tms_live live_ok_port, of "E\<lparr>ev_usb := logging L\<rparr>" L s pat n force]
    by (simp add: ioftdi_cable_def) (metis (full_types) old.unit.exhaust)
next
  case (5 s n b final)
  then show ?case
    using txrx_live [OF _ live_ok_port [OF 5(1)], of "E\<lparr>ev_usb := logging L\<rparr>" b n final]
    by (simp add: ioftdi_cable_def)
next
  case (6 s usec)
  then show ?case
    using Usleep_live [OF _ live_ok_port [OF 6], of "E\<lparr>ev_usb := logging L\<rparr>" usec]
    by (simp add: ioftdi_cable_def live_ok_def ft_ok_def)
qed

end
