(* ===== verification/Jtag_Ftdi.thy ===== *)
theory Jtag_Ftdi
  imports Ioftdi_Live
begin

unbundle bit_operations_syntax

text \<open>
  The JTAG layer on the FTDI cable: what the bytes written over USB make the TAP controllers of
  the chain do, stated without the contracts the proofs went through.
\<close>

section \<open>The wires\<close>

text \<open>
  The clock cycles of all commands written so far, of those in the command buffer and of the TMS
  values not yet turned into commands.
\<close>

definition ftdi_wires :: "'w logged ioftdi iobase \<Rightarrow> clk list" where
  "ftdi_wires s = ft_clocks (drv s) @ tms_clocks (bits_of (tms_buf s) (tms_len s))"

abbreviation on_ftdi :: "'w logged io_env \<Rightarrow> 'w libusb \<Rightarrow> 'w logged ioftdi cable" where
  "on_ftdi E L \<equiv> ioftdi_cable (E\<lparr>ev_usb := logging L\<rparr>)"

lemma wires_ftdi: "ftdi_live.wires = ftdi_wires"
  by (rule ext) (simp add: ftdi_live.wires_def ftdi_wires_def)

text \<open>
  A cable between two operations, whatever its chip: an open port, complete commands so far, and
  TMS at the level of the last clock cycle. The contract of the cable, \<open>ft_ok\<close>, is this on a chip
  that has the fast clock and with it the commands that clock without data. A chip without it
  (FT2232C and the like) keeps the contract only until the first \<open>Usleep\<close>, which breaks the
  stream there.
\<close>

definition in_sync :: "'w libusb \<Rightarrow> 'w logged ioftdi \<Rightarrow> bool" where
  "in_sync L s \<longleftrightarrow> port_ready L (ftdi_handle s) \<and> mpsse_ops (stream s) \<noteq> None \<and>
     pin_level False (pin_ops s) = held (ft_clocks s)"

lemma ft_ok_sync: "ft_ok L s \<longleftrightarrow> in_sync L s \<and> device_has_fast_clock s"
  by (auto simp: ft_ok_def in_sync_def)

text \<open>
  Where a program starts: nothing is known of the controllers, nothing is buffered, and the cable
  is in sync. Nothing is said about the chip.
\<close>

definition jtag_start :: "'w libusb \<Rightarrow> 'w logged ioftdi jtag \<Rightarrow> bool" where
  "jtag_start L j \<longleftrightarrow> current_state j = UNKNOWN \<and> stable (postDRState j) \<and> stable (postIRState j) \<and>
     io j = iobase_init (drv (io j)) \<and> in_sync L (drv (io j))"

text \<open>The start on a chip with the fast clock, with an empty buffer and a bus whose writes succeed.\<close>

definition jtag_live_start :: "'w libusb \<Rightarrow> 'w logged ioftdi jtag \<Rightarrow> bool" where
  "jtag_live_start L j \<longleftrightarrow> jtag_start L j \<and> device_has_fast_clock (drv (io j)) \<and>
     in_buffer (drv (io j)) \<and> no_errors L"

lemma start_inv: "jtag_start L j \<Longrightarrow> device_has_fast_clock (drv (io j)) \<Longrightarrow> ftdi_port.ft.jtag_inv L j"
  using ftdi_port.ft.io_ok_init [of L "drv (io j)"]
  by (simp add: jtag_start_def ft_ok_sync ftdi_port.ft.jtag_inv_def ftdi_port.ft.tracks_def)

lemma live_start_inv: "jtag_live_start L j \<Longrightarrow> ftdi_live.jtag_inv L j"
  using ftdi_live.io_ok_init [of L "drv (io j)"]
  by (simp add: jtag_live_start_def jtag_start_def ft_ok_sync ftdi_live.jtag_inv_def ftdi_live.tracks_def live_ok_def)

text \<open>On the way to a shift state and from its exit to a stable state no register is shifted.\<close>

lemma no_shift_before:
  "s \<noteq> UNKNOWN \<Longrightarrow> sh = SHIFT_DR \<or> sh = SHIFT_IR \<Longrightarrow>
   shifted_in sh s (tms_clocks (tap_moves s sh)) = [] \<and> tap_run s (tms_clocks (tap_moves s sh)) = sh"
  by (cases s) (auto simp: tap_moves_def eval_nat_numeral)

lemma no_shift_after:
  "stable t \<Longrightarrow> shifted_in SHIFT_DR EXIT1_DR (tms_clocks (tap_moves EXIT1_DR t)) = [] \<and>
     tap_run EXIT1_DR (tms_clocks (tap_moves EXIT1_DR t)) = t"
  "stable t \<Longrightarrow> shifted_in SHIFT_IR EXIT1_IR (tms_clocks (tap_moves EXIT1_IR t)) = [] \<and>
     tap_run EXIT1_IR (tms_clocks (tap_moves EXIT1_IR t)) = t"
  by (auto simp: stable_def tap_moves_def eval_nat_numeral)

lemma pre_shift:
  "shifted_in SHIFT_DR SHIFT_DR (tms_clocks (replicate n False)) = replicate n (Some True) \<and>
   tap_run SHIFT_DR (tms_clocks (replicate n False)) = SHIFT_DR"
  by (induction n) simp_all

lemma tap_moves_length: "t \<noteq> UNKNOWN \<Longrightarrow> length (tap_moves s t) \<le> 15"
  using tap_path_length [of t s] tap_path_length [of t TEST_LOGIC_RESET] by (simp add: tap_moves_def)

section \<open>Instances\<close>

text \<open>
  A fresh program on a bus that accepts everything, with the chain already known: two devices,
  the second one selected. The controllers are reset first.
\<close>

definition sample_jtag :: "(byte list list \<times> usb_event list) ioftdi jtag" where
  "sample_jtag = (Jtag_init (iobase_init (sample_ioftdi ([], []))))
     \<lparr>devices := [\<lparr>idcode = 0x01414093, irlen = 6\<rparr>, \<lparr>idcode = 0x05057093, irlen = 8\<rparr>],
      numDevices := 2, deviceIndex := 1\<rparr>"

lemma sample_start: "jtag_live_start packet_usb sample_jtag"
  by (simp add: jtag_live_start_def jtag_start_def sample_jtag_def Jtag_init_def sample_ioftdi_def
      ioftdi_blank_def stable_def in_sync_def port_ready_def stream_def port_sent_def pin_ops_def
      ft_clocks_def held_def in_buffer_def iobase_init_def)

lemma sample_reset:
  obtains j where "jtag_reachable (on_ftdi (sample_env (logging packet_usb)) packet_usb) sample_jtag j"
    and "current_state j = TEST_LOGIC_RESET" and "chain_setup j = chain_setup sample_jtag"
    and "\<not> shiftDRincomplete j"
proof -
  let ?D = "on_ftdi (sample_env (logging packet_usb)) packet_usb"
  have ok: "ftdi_live.io_ok packet_usb (io sample_jtag)"
    using live_start_inv [OF sample_start] by (simp add: ftdi_live.jtag_inv_def ftdi_live.tracks_def)
  then obtain j where 1: "tapTestLogicReset ?D sample_jtag = (Ret (), j)"
    using ftdi_live.reset_returns by blast
  then obtain d where "j = sample_jtag\<lparr>current_state := TEST_LOGIC_RESET, io := d\<rparr>"
    by (rule ftdi_live.reset_wires [OF ok])
  moreover have "jtag_reachable ?D sample_jtag j"
    by (rule reach_step [OF reach_start step_reset [OF 1]])
  ultimately show thesis
    by (intro that [of j]) (simp_all add: sample_jtag_def Jtag_init_def chain_setup_def)
qed

section \<open>Properties\<close>

text \<open>C18: The state \<open>Jtag\<close> tracks is the state of the hardware, on a cable whose chip has the fast
  clock (on the others \<open>Usleep\<close>, one of the operations, breaks the command stream). Whatever
  sequence of operations a program ran on such a cable, starting in sync with the controllers
  unknown, with whatever the bus did within the contract of libusb as long as the operations returned: the
  bytes written to the device, those still in the command buffer and the TMS values still
  buffered form complete MPSSE commands, and clocking them through the TAP controller, from any
  state it may have been in, leads to the state in \<open>current_state\<close>, unless that is unknown.\<close>

theorem tap_state_tracked:
  assumes "jtag_start L j0" and "device_has_fast_clock (drv (io j0))"
    and "jtag_reachable (on_ftdi E L) j0 j" and "current_state j \<noteq> UNKNOWN" and "s \<noteq> UNKNOWN"
  shows "mpsse_ops (stream (drv (io j))) \<noteq> None \<and> tap_run s (ftdi_wires (io j)) = current_state j"
proof -
  have "ftdi_port.ft.jtag_inv L j"
    using ftdi_port.ft.reachable_inv [OF assms(3) start_inv [OF assms(1,2)]] .
  then show ?thesis
    using assms(4,5)
    by (simp add: ftdi_port.ft.jtag_inv_def ftdi_port.ft.tracks_def ftdi_port.ft.io_ok_def ft_ok_def
        wires_ftdi [symmetric])
qed

theorem tap_state_tracked_witness:
  "\<exists>j. jtag_reachable (on_ftdi (sample_env (logging packet_usb)) packet_usb) sample_jtag j \<and>
     tap_run PAUSE_DR (ftdi_wires (io j)) = TEST_LOGIC_RESET"
proof -
  obtain j where j: "jtag_reachable (on_ftdi (sample_env (logging packet_usb)) packet_usb) sample_jtag j"
      "current_state j = TEST_LOGIC_RESET"
    by (rule sample_reset)
  from sample_start have "jtag_start packet_usb sample_jtag" "device_has_fast_clock (drv (io sample_jtag))"
    by (simp_all add: jtag_live_start_def)
  from tap_state_tracked [OF this j(1), of PAUSE_DR] j show ?thesis by auto
qed

text \<open>C21: Moving the controllers returns. On a cable whose chip has the fast clock and a bus whose
  writes succeed, in every state a program reaches, \<open>setTapState\<close> ends: it returns with the controllers in the target state, after at
  most 15 clock cycles, the reset from an unknown state included, and the \<open>pre\<close> extra ones.\<close>

theorem setTapState_returns:
  assumes "jtag_live_start L j0" and "jtag_reachable (on_ftdi E L) j0 j"
    and "t \<noteq> UNKNOWN" and "pre = 0 \<or> tap_next False t = t"
  shows "\<exists>j' cs. setTapState (on_ftdi E L) t pre j = (Ret (), j') \<and> current_state j' = t \<and>
    ftdi_wires (io j') = ftdi_wires (io j) @ cs \<and> length cs \<le> 15 + pre \<and>
    (\<forall>s. s \<noteq> UNKNOWN \<longrightarrow> tap_run s (ftdi_wires (io j')) = t)"
proof -
  have "ftdi_live.jtag_inv L j"
    using ftdi_live.reachable_inv [OF assms(2) live_start_inv [OF assms(1)]] .
  then have tr: "ftdi_live.tracks L j" by (simp add: ftdi_live.jtag_inv_def)
  then have "ftdi_live.io_ok L (io j)" by simp
  then obtain j' where 1: "setTapState (on_ftdi E L) t pre j = (Ret (), j')"
    using ftdi_live.setTapState_total assms(3) by blast
  obtain d where d: "j' = j\<lparr>current_state := t, io := d\<rparr>" "ftdi_live.tracks L j'"
      "ftdi_wires d = ftdi_wires (io j) @ tms_clocks (tap_moves (current_state j) t @ replicate pre False)"
    by (rule ftdi_live.setTapState_wires [OF tr assms(3,4) 1, unfolded wires_ftdi])
  moreover have "length (tms_clocks (tap_moves (current_state j) t @ replicate pre False)) \<le> 15 + pre"
    using tap_moves_length [OF assms(3)] by (simp add: tms_clocks_def)
  moreover have "tap_run s (ftdi_wires (io j')) = t" if "s \<noteq> UNKNOWN" for s
    using d(1,2) that assms(3) by (simp add: ftdi_live.tracks_def wires_ftdi)
  ultimately show ?thesis using 1 by auto
qed

theorem setTapState_returns_witness:
  "\<exists>j' cs. setTapState (on_ftdi (sample_env (logging packet_usb)) packet_usb) SHIFT_IR 3 sample_jtag = (Ret (), j') \<and>
    ftdi_wires (io j') = ftdi_wires (io sample_jtag) @ cs \<and> length cs \<le> 18 \<and> current_state j' = SHIFT_IR"
  using setTapState_returns [OF sample_start reach_start, where t = SHIFT_IR and pre = 3
      and E = "sample_env (logging packet_usb)"] by fastforce

text \<open>C19: A data shift returns and shifts in exactly the data. On a cable whose chip has the fast
  clock and a bus whose writes succeed, in every state a program reaches with the controllers known: \<open>shiftDR\<close> of \<open>len\<close> bits returns with
  the controllers in \<open>postDRState\<close>; in the state Shift-DR the chain takes in the bits that
  precede the data (one per device behind the selected one, or the alignment asked for), the
  \<open>len\<close> bits of the buffer, least significant bit of a byte first, and one zero for each device
  before the selected one, and nothing else.\<close>

theorem shiftDR_exact:
  assumes "jtag_live_start L j0" and "jtag_reachable (on_ftdi E L) j0 j"
    and "current_state j \<noteq> UNKNOWN" and "\<not> shiftDRincomplete j" and "0 \<le> deviceIndex j"
    and "0 < len" and "len \<le> 8 * length b"
  shows "\<exists>r j' cs. shiftDR (on_ftdi E L) (Some b) None len align True j = (Ret r, j') \<and>
    ftdi_wires (io j') = ftdi_wires (io j) @ cs \<and>
    shifted_in SHIFT_DR (current_state j) cs =
      replicate (dr_pre j align) (Some True) @ map Some (bits_of b len) @
      replicate (nat (deviceIndex j)) (Some False) \<and>
    tap_run (current_state j) cs = postDRState j \<and> current_state j' = postDRState j"
proof -
  have inv: "ftdi_live.jtag_inv L j"
    using ftdi_live.reachable_inv [OF assms(2) live_start_inv [OF assms(1)]] .
  then have tr: "ftdi_live.tracks L j" and st: "stable (postDRState j)"
    and post: "postDRState j \<noteq> UNKNOWN"
    using ftdi_live.stable_known by (auto simp: ftdi_live.jtag_inv_def)
  have sz: "\<And>c. Some b = Some c \<Longrightarrow> len \<le> 8 * length c" using assms(7) by simp
  obtain r j' where run: "shiftDR (on_ftdi E L) (Some b) None len align True j = (Ret r, j')"
    using ftdi_live.shiftDR_total [OF tr post assms(6) sz] by blast
  let ?ds = "map Some (bits_of b len @ replicate (nat (deviceIndex j)) False)"
  let ?cs = "tms_clocks (tap_moves (current_state j) SHIFT_DR) @ tms_clocks (replicate (dr_pre j align) False) @
      data_clocks False ?ds True @ tms_clocks (tap_moves EXIT1_DR (postDRState j))"
  have "out_bits (Some b) None len @ replicate (nat (deviceIndex j)) (Some False) = ?ds"
    by (simp add: out_bits_def tdi_bits_def)
  then have "ftdi_wires (io j') = ftdi_wires (io j) @ ?cs" and "current_state j' = postDRState j"
    using ftdi_live.shiftDR_wires [OF tr assms(3-5) post assms(6) sz run] by (simp_all only: wires_ftdi)
  moreover have "bits_of b len @ replicate (nat (deviceIndex j)) False \<noteq> []"
    using assms(6) by (metis append_is_Nil_conv length_0_conv length_bits_of less_numeral_extra(3))
  then have "shifted_in SHIFT_DR (current_state j) ?cs = replicate (dr_pre j align) (Some True) @ ?ds \<and>
      tap_run (current_state j) ?cs = postDRState j"
    using no_shift_before [OF assms(3), of SHIFT_DR] no_shift_after(1) [OF st] pre_shift [of "dr_pre j align"]
    by (simp del: tms_clocks_simps map_append)
  ultimately show ?thesis using run by (intro exI [of _ r] exI [of _ j'] exI [of _ ?cs]) simp
qed

theorem shiftDR_exact_witness:
  "\<exists>j r j' cs. shiftDR (on_ftdi (sample_env (logging packet_usb)) packet_usb) (Some [0x2d]) None 6 0 True j = (Ret r, j') \<and>
    ftdi_wires (io j') = ftdi_wires (io j) @ cs \<and>
    shifted_in SHIFT_DR TEST_LOGIC_RESET cs = map Some [True, False, True, True, False, True, False]"
proof -
  obtain j where j: "jtag_reachable (on_ftdi (sample_env (logging packet_usb)) packet_usb) sample_jtag j"
      "current_state j = TEST_LOGIC_RESET" "chain_setup j = chain_setup sample_jtag" "\<not> shiftDRincomplete j"
    by (rule sample_reset)
  then have "deviceIndex j = 1" and "dr_pre j 0 = 0"
    by (simp_all add: chain_setup_def sample_jtag_def dr_pre_def)
  moreover have "bits_of [0x2d] 6 = [True, False, True, True, False, True]"
    by (simp add: bits_of_def bit_at_def upt_rec)
  ultimately show ?thesis
    using shiftDR_exact [OF sample_start j(1), of 6 "[0x2d]" 0] j(2,4) by (auto simp: numeral_eq_Suc)
qed

text \<open>The instruction each device gets: the selected one \<open>b\<close>, the others BYPASS, all ones.\<close>

definition instruction :: "'s jtag \<Rightarrow> byte list \<Rightarrow> nat \<Rightarrow> bool list" where
  "instruction j b i =
     (let n = nat (irlen (devices j ! i)) in
      if i = nat (deviceIndex j) then bits_of b n else replicate n True)"

lemma ir_bits_concat:
  "(\<And>i. i \<in> set ks \<Longrightarrow> 0 \<le> irlen (devices j ! i)) \<Longrightarrow>
   concat (map (\<lambda>i. replicate (nat (irlen (devices j ! i))) x) ks) = replicate (ir_bits j ks) x"
proof (induction ks)
  case (Cons i ks)
  have nonneg: "0 \<le> sum_list (map (\<lambda>d. irlen (devices j ! d)) ks)"
    using Cons.prems by (intro sum_list_nonneg) auto
  have "ir_bits j (i # ks) = nat (irlen (devices j ! i)) + ir_bits j ks"
    using Cons.prems nonneg by (simp add: ir_bits_def nat_add_distrib)
  with Cons show ?case by (simp add: replicate_add)
qed (simp add: ir_bits_def)

lemma ir_bits_rev: "ir_bits j (rev ks) = ir_bits j ks"
  by (simp add: ir_bits_def flip: rev_map)

lemma instructions_chain:
  assumes "\<And>i. i < n \<Longrightarrow> 0 \<le> irlen (devices j ! i)" and sel: "this = nat (deviceIndex j)" and "this < n"
  shows "concat (map (instruction j b) (rev [0..<n])) =
    replicate (ir_bits j [this + 1..<n]) True @ bits_of b (nat (irlen (devices j ! this))) @
    replicate (ir_bits j [0..<this]) True"
proof -
  have split: "[0..<n] = [0..<this] @ [this] @ [this + 1..<n]"
    using upt_add_eq_append [of 0 this "n - this"] assms(3) by (simp add: upt_conv_Cons)
  have other: "concat (map (instruction j b) ks) = replicate (ir_bits j ks) True"
    if "\<And>i. i \<in> set ks \<Longrightarrow> i < n \<and> i \<noteq> this" for ks
  proof -
    have eq: "map (instruction j b) ks = map (\<lambda>i. replicate (nat (irlen (devices j ! i))) True) ks"
      using that sel by (simp add: instruction_def Let_def)
    show ?thesis unfolding eq by (rule ir_bits_concat) (use that assms(1) in blast)
  qed
  have "concat (map (instruction j b) (rev [this + 1..<n])) = replicate (ir_bits j [this + 1..<n]) True"
    by (subst other) (auto simp: ir_bits_rev)
  moreover have "concat (map (instruction j b) (rev [0..<this])) = replicate (ir_bits j [0..<this]) True"
    using assms(3) by (subst other) (auto simp: ir_bits_rev)
  moreover have "instruction j b this = bits_of b (nat (irlen (devices j ! this)))"
    by (simp add: instruction_def Let_def sel)
  ultimately show ?thesis by (simp add: split)
qed

text \<open>C20: An instruction shift returns and gives every device its instruction. On a cable whose chip
  has the fast clock and a bus whose writes succeed, in every state a program reaches with the controllers known: \<open>shiftIR\<close> returns
  with the controllers in \<open>postIRState\<close>, and what the chain takes in in the state Shift-IR is, from
  the last device to the first, the instruction of the buffer for the selected device and as many
  ones as the instruction register is long for each of the others, and nothing else.\<close>

theorem shiftIR_exact:
  assumes "jtag_live_start L j0" and "jtag_reachable (on_ftdi E L) j0 j"
    and "current_state j \<noteq> UNKNOWN" and "0 \<le> deviceIndex j" and "deviceIndex j < numDevices j"
    and "\<And>i. i < nat (numDevices j) \<Longrightarrow> 0 < irlen (devices j ! i)"
    and "nat (irlen (devices j ! nat (deviceIndex j))) \<le> 8 * length b"
  shows "\<exists>r j' cs. shiftIR (on_ftdi E L) (Some b) None j = (Ret r, j') \<and>
    ftdi_wires (io j') = ftdi_wires (io j) @ cs \<and>
    shifted_in SHIFT_IR (current_state j) cs =
      map Some (concat (map (instruction j b) (rev [0..<nat (numDevices j)]))) \<and>
    tap_run (current_state j) cs = postIRState j \<and> current_state j' = postIRState j"
proof -
  have inv: "ftdi_live.jtag_inv L j"
    using ftdi_live.reachable_inv [OF assms(2) live_start_inv [OF assms(1)]] .
  then have tr: "ftdi_live.tracks L j" and st: "stable (postIRState j)"
    and post: "postIRState j \<noteq> UNKNOWN"
    using ftdi_live.stable_known by (auto simp: ftdi_live.jtag_inv_def)
  define this where "this = nat (deviceIndex j)"
  have lt: "this < nat (numDevices j)" using assms(4,5) by (simp add: this_def)
  have ir: "0 < irlen (devices j ! nat (deviceIndex j))" using assms(6) lt by (simp add: this_def)
  obtain r j' where run: "shiftIR (on_ftdi E L) (Some b) None j = (Ret r, j')"
    using ftdi_live.shiftIR_total [OF tr post ir assms(7)] by blast
  let ?bs = "concat (map (instruction j b) (rev [0..<nat (numDevices j)]))"
  let ?cs = "tms_clocks (tap_moves (current_state j) SHIFT_IR) @ data_clocks False (map Some ?bs) True @
      tms_clocks (tap_moves EXIT1_IR (postIRState j))"
  have bs: "?bs = replicate (ir_bits j [this + 1..<nat (numDevices j)]) True @
      bits_of b (nat (irlen (devices j ! this))) @ replicate (ir_bits j [0..<this]) True"
    by (rule instructions_chain [OF less_imp_le [OF assms(6)] this_def lt])
  then have "map Some ?bs = replicate (ir_bits j [this + 1..<nat (numDevices j)]) (Some True) @
      tdi_bits (Some b) (nat (irlen (devices j ! this))) @ replicate (ir_bits j [0..<this]) (Some True)"
    by (simp add: tdi_bits_def)
  moreover have sz: "\<And>c. Some b = Some c \<Longrightarrow> nat (irlen (devices j ! nat (deviceIndex j))) \<le> 8 * length c"
    using assms(7) by simp
  ultimately have "ftdi_wires (io j') = ftdi_wires (io j) @ ?cs" and "current_state j' = postIRState j"
    using ftdi_live.shiftIR_wires [OF tr assms(4) post ir _ sz run] by (simp_all add: wires_ftdi this_def)
  moreover have "0 < length ?bs" using ir unfolding bs by (simp add: this_def)
  then have "?bs \<noteq> []" by (metis length_greater_0_conv)
  then have "shifted_in SHIFT_IR (current_state j) ?cs = map Some ?bs \<and> tap_run (current_state j) ?cs = postIRState j"
    using no_shift_before [OF assms(3), of SHIFT_IR] no_shift_after(2) [OF st]
    by (simp only: shifted_in_append tap_run_append shifted_in_data driven_known tap_run_data
        append_Nil append_Nil2 map_is_Nil_conv simp_thms if_True)
  ultimately show ?thesis using run by (intro exI [of _ r] exI [of _ j'] exI [of _ ?cs]) simp
qed

theorem shiftIR_exact_witness:
  "\<exists>j r j' cs. shiftIR (on_ftdi (sample_env (logging packet_usb)) packet_usb) (Some [0x05]) None j = (Ret r, j') \<and>
    ftdi_wires (io j') = ftdi_wires (io j) @ cs \<and>
    shifted_in SHIFT_IR TEST_LOGIC_RESET cs =
      map Some ([True, False, True, False, False, False, False, False] @ replicate 6 True)"
proof -
  obtain j where j: "jtag_reachable (on_ftdi (sample_env (logging packet_usb)) packet_usb) sample_jtag j"
      "current_state j = TEST_LOGIC_RESET" "chain_setup j = chain_setup sample_jtag" "\<not> shiftDRincomplete j"
    by (rule sample_reset)
  then have chain: "deviceIndex j = 1" "numDevices j = 2"
      "devices j = [\<lparr>idcode = 0x01414093, irlen = 6\<rparr>, \<lparr>idcode = 0x05057093, irlen = 8\<rparr>]"
    by (simp_all add: chain_setup_def sample_jtag_def)
  have "concat (map (instruction j [0x05]) (rev [0..<2])) =
      [True, False, True, False, False, False, False, False] @ replicate 6 True"
    by (simp add: instruction_def chain Let_def bits_of_def bit_at_def upt_rec)
  moreover have "0 < irlen (devices j ! i)" if "i < 2" for i
    using that by (auto simp: chain less_2_cases_iff)
  ultimately show ?thesis
    using shiftIR_exact [OF sample_start j(1), of "[0x05]"] j(2) chain by auto
qed

end
