(* ===== verification/Ioftdi_Props.thy ===== *)
theory Ioftdi_Props
  imports Ioftdi_Live
begin

unbundle bit_operations_syntax

text \<open>
  Further properties of the FTDI cable: the length of delays, the clock divisors, the commands
  sent when it is opened, and the bits read back.
\<close>

section \<open>Delays\<close>

lemma unat_ucast_byte: "unat (ucast (t :: u32) :: byte) = unat t mod 256"
  by (simp add: unsigned_ucast_eq unsigned_take_bit_eq take_bit_eq_mod)

lemma arg16_word:
  assumes "unat (t :: u32) < 65536"
  shows "arg16 (ucast t) (ucast (drop_bit 8 t)) = unat t"
proof -
  have "unat (ucast t :: byte) = unat t mod 256"
    by (rule unat_ucast_byte)
  moreover have "unat (ucast (drop_bit 8 t) :: byte) = unat t div 256"
    using assms by (simp add: unat_ucast_byte unat_drop_bit_eq drop_bit_eq_div unat_div)
  ultimately show ?thesis by (simp add: arg16_def)
qed

text \<open>How many cycles a number of ticks becomes: eight more than asked for from nine on.\<close>

definition delay_cycles :: "nat \<Rightarrow> nat" where
  "delay_cycles ticks = (if ticks > 8 then (ticks div 8 + 1) * 8 + ticks mod 8 else ticks)"

lemma delay_cycles_bounds: "ticks \<le> delay_cycles ticks \<and> delay_cycles ticks \<le> ticks + 8"
  using div_mult_mod_eq [of ticks 8] by (auto simp: delay_cycles_def)

context mpsse_port
begin

lemma Usleep_cycles:
  assumes ok: "ft_ok L s" and run: "Usleep E usec s = (Ret u, s')" and us: "usec < 20000"
    and small: "unat (usleep_ticks s usec) div 8 < 65536"
  shows "ticked L (replicate (delay_cycles (unat (usleep_ticks s usec))) None) s s'"
proof -
  define ticks where "ticks = usleep_ticks s usec"
  define rest where "rest = (if ticks > 8 then ticks mod 8 else ticks)"
  have fast: "device_has_fast_clock s" using ok by (simp add: ft_ok_def)
  obtain s1 where
      1: "(if ticks > 8 then mpsse_add_cmd E [0x8f, ucast (ticks div 8), ucast (drop_bit 8 (ticks div 8))]
           else return_act ()) s = (Ret (), s1)"
      and 2: "(if rest \<noteq> 0 then mpsse_add_cmd E [0x8e, ucast (rest - 1)] else return_act ()) s1 = (Ret u, s')"
    using run us fast
    unfolding Usleep_def Let_def ticks_def [symmetric] rest_def [symmetric] by auto
  have gt: "ticks > 8 \<longleftrightarrow> 8 < unat ticks" by (simp add: word_less_nat_alt)
  have "unat (ticks div 8) = unat ticks div 8" by (simp add: unat_div)
  then have arg: "arg16 (ucast (ticks div 8)) (ucast (drop_bit 8 (ticks div 8))) = unat ticks div 8"
    using small by (simp add: arg16_word ticks_def)
  define a where "a = (if ticks > 8 then (unat ticks div 8 + 1) * 8 else 0)"
  have t1: "ticked L (replicate a None) s s1"
  proof (cases "ticks > 8")
    case True
    then have cmd: "mpsse_add_cmd E [0x8f, ucast (ticks div 8), ucast (drop_bit 8 (ticks div 8))] s = (Ret (), s1)"
      using 1 by (simp only: if_True)
    have "mpsse_ops [0x8f, x, y] = Some (map (Cycle None) (replicate ((arg16 x y + 1) * 8) None))" for x y
      by (subst mpsse_ops_cmd) simp_all
    from add_cmd_ticked [OF ok cmd this] True show ?thesis by (simp only: a_def arg if_True)
  next
    case False
    then show ?thesis using 1 ticked_refl [OF ok] by (simp add: a_def)
  qed
  have small8: "unat rest < 256"
  proof (cases "ticks > 8")
    case True
    then show ?thesis by (simp add: rest_def unat_mod less_trans [OF mod_less_divisor])
  next
    case False
    then show ?thesis using gt by (simp add: rest_def)
  qed
  have t2: "ticked L (replicate (unat rest) None) s1 s'"
  proof (cases "rest = 0")
    case True
    then show ?thesis using 2 ticked_refl [OF ticked_ok [OF t1]] by simp
  next
    case False
    then have cmd: "mpsse_add_cmd E [0x8e, ucast (rest - 1)] s1 = (Ret u, s')"
      using 2 by (simp only: not_False_eq_True if_True)
    have "unat (rest - 1) = unat rest - 1" using False by (simp add: unat_minus_one)
    then have "unat (ucast (rest - 1) :: byte) = unat rest - 1" using small8 by (simp add: unat_ucast_byte)
    moreover have "0 < unat rest" using False by (simp add: unat_gt_0)
    ultimately have n: "unat (ucast (rest - 1) :: byte) + 1 = unat rest" by linarith
    have "mpsse_ops [0x8e, x] = Some (map (Cycle None) (replicate (unat x + 1) None))" for x
      by (subst mpsse_ops_cmd) simp_all
    from add_cmd_ticked [OF ticked_ok [OF t1] cmd this] show ?thesis unfolding n .
  qed
  have "a + unat rest = delay_cycles (unat ticks)"
    by (simp add: a_def rest_def delay_cycles_def gt unat_mod)
  with ticked_trans [OF t1 t2] show ?thesis
    by (simp add: replicate_add [symmetric] ticks_def)
qed

text \<open>A device without the fast clock: a short delay sends the first byte of a three-byte command.\<close>

lemma Usleep_slow:
  assumes h: "port_ready L (ftdi_handle s)" and ops: "mpsse_ops (stream s) \<noteq> None"
    and slow: "\<not> device_has_fast_clock s" and us: "usec < 20000"
    and ticks: "usleep_ticks s usec \<noteq> 0" "usleep_ticks s usec \<le> 8"
    and run: "Usleep E usec s = (Ret u, s')"
  shows "mpsse_ops (stream s') = None"
proof -
  have "\<not> usleep_ticks s usec > 8" using ticks(2) by simp
  then have "mpsse_add_cmd E [0x1b] s = (Ret u, s')"
    using run us slow ticks(1) by (simp add: Usleep_def Let_def)
  from add_cmd_adds [OF h this] have "stream s' = stream s @ [0x1b]" by (simp add: adds_def)
  moreover obtain a where "mpsse_ops (stream s) = Some a" using ops by blast
  moreover have "mpsse_ops [0x1b] = None" by (simp add: mpsse_ops.simps)
  ultimately show ?thesis by (simp add: mpsse_ops_append)
qed

end

section \<open>The clock divisor\<close>

lemma fast_divisor_quotient:
  assumes "458 < freq" and "freq < 30000000"
  shows "30000000 \<le> freq * (1 + fast_divisor freq) \<and> freq * fast_divisor freq < 30000000 \<and>
    0 \<le> fast_divisor freq \<and> fast_divisor freq \<le> 0xffff"
proof -
  let ?q = "30000000 div freq"
  have eq: "30000000 = freq * ?q + 30000000 mod freq" by simp
  have r: "0 \<le> 30000000 mod freq" "30000000 mod freq < freq" using assms(1) by simp_all
  have "?q \<le> 30000000 div 459" using assms(1) by (intro zdiv_mono2) simp_all
  then have q: "0 < ?q" "?q \<le> 65535" using assms by (simp_all add: pos_imp_zdiv_pos_iff)
  show ?thesis
  proof (cases "30000000 mod freq = 0")
    case True
    then have d: "fast_divisor freq = ?q - 1" using assms q by (simp add: fast_divisor_def clamp16_def)
    show ?thesis using eq True assms(1) q by (simp add: d right_diff_distrib)
  next
    case False
    then have d: "fast_divisor freq = ?q" using assms q by (simp add: fast_divisor_def clamp16_def)
    have "30000000 < freq * (1 + ?q)" using eq r(2) by (simp only: distrib_left)
    moreover have "freq * ?q < 30000000" using eq r False by linarith
    ultimately show ?thesis using q by (simp add: d)
  qed
qed

lemma slow_divisor_too_fast: "6000000 div (1 + slow_divisor 2097152) = 3000000"
  by (simp add: slow_divisor_def clamp16_def signed_divide_int_def)

section \<open>The bits read back\<close>

text \<open>
  What a reply of the engine says of the \<open>len\<close> bits clocked in: whole bytes, then the byte of the
  bit command, whose bits are shifted in from the top, then the byte of the TMS command, of which
  bit 7 is the one bit clocked.
\<close>

definition reply_bits :: "bool \<Rightarrow> nat \<Rightarrow> byte list \<Rightarrow> bool list" where
  "reply_bits final len r =
     (let m = (if final then len - 1 else len); n = m div 8; q = m mod 8 in
      bits_of r (8 * n) @ map (\<lambda>i. bit (r ! n) (8 - q + i)) [0..<q] @
      (if final then [bit (r ! (if q = 0 then n else n + 1)) 7] else []))"

definition reply_length :: "bool \<Rightarrow> nat \<Rightarrow> nat" where
  "reply_length final len =
     (let m = (if final then len - 1 else len) in
      m div 8 + (if m mod 8 = 0 then 0 else 1) + (if final then 1 else 0))"

lemma length_reply_bits: "0 < len \<or> \<not> final \<Longrightarrow> length (reply_bits final len r) = len"
  using div_mult_mod_eq [of "len - 1" 8] div_mult_mod_eq [of len 8]
  by (auto simp: reply_bits_def Let_def)

lemma bit_0x80: "bit (x AND 0x80 :: byte) i \<longleftrightarrow> bit x 7 \<and> i = 7"
proof -
  have "(0x80 :: byte) = push_bit 7 1" by simp
  then have "bit (0x80 :: byte) i \<longleftrightarrow> i = 7" by (simp only: bit_push_bit_iff) (auto simp: bit_simps)
  then show ?thesis by (auto simp: bit_and_iff)
qed

text \<open>The bits of the result, by the byte they are in.\<close>

lemma result_bits:
  assumes "len = 8 * n + q" and "\<And>i. i < n \<Longrightarrow> b ! i = r ! i" and "\<And>i. i < q \<Longrightarrow> bit (b ! n) i = f i" and "q \<le> 8"
  shows "bits_of b len = bits_of r (8 * n) @ map f [0..<q]"
proof (rule nth_equalityI)
  fix i assume "i < length (bits_of b len)"
  then have i: "i < 8 * n + q" using assms(1) by simp
  show "bits_of b len ! i = (bits_of r (8 * n) @ map f [0..<q]) ! i"
  proof (cases "i < 8 * n")
    case True
    then have "i div 8 < n" by (simp add: less_mult_imp_div_less mult.commute)
    then show ?thesis using True i assms(1,2) by (simp add: bits_of_def nth_append bit_at_def)
  next
    case False
    define k where "k = i - 8 * n"
    have k: "i = 8 * n + k" "k < q" "k < 8" using False i assms(4) by (simp_all add: k_def)
    then have "i div 8 = n" and "i mod 8 = k" by simp_all
    then show ?thesis using k assms(1,3) by (simp add: bits_of_def nth_append bit_at_def)
  qed
qed (simp add: assms(1))

lemma read_result_bits:
  assumes len: "0 < len" "len \<le> 8 * length b" and r: "length r = reply_length final len"
    and m: "m = (if final then len - 1 else len)" and q: "q = m mod 8"
    and stack: "length r \<le> length stk"
    and b': "b' = (if \<not> final then
        (let c = write_at 0 r b in if q \<noteq> 0 then shift_down (length r - 1) q c else c)
      else
        (let k = (if q = 0 then length r else length r - 1) in
         write_at 0 (take k (align_last q (length r) (overlay r stk))) b))"
  shows "bits_of b' len = reply_bits final len r"
proof -
  define n where "n = m div 8"
  have mn: "m = 8 * n + q" "q < 8" by (simp_all add: n_def q)
  have lr: "length r = n + (if q = 0 then 0 else 1) + (if final then 1 else 0)"
    using r by (simp add: reply_length_def Let_def n_def q m)
  have rb: "reply_bits final len r = bits_of r (8 * n) @ map (\<lambda>i. bit (r ! n) (8 - q + i)) [0..<q] @
      (if final then [bit (r ! (if q = 0 then n else n + 1)) 7] else [])"
    by (simp add: reply_bits_def Let_def n_def q m)
  have nth_write: "write_at 0 d b ! i = d ! i" if "i < length d" for d i
    using that by (simp add: write_at_def nth_append)
  let ?x = "overlay r stk"
  have x: "length ?x = length stk" "\<And>i. i < length r \<Longrightarrow> ?x ! i = r ! i"
    using stack by (simp_all add: overlay_def nth_append)
  show ?thesis
  proof (cases final)
    case False
    have last: "b' ! n = drop_bit (8 - q) (r ! n)" if "q \<noteq> 0"
    proof -
      have "n < length (write_at 0 r b)" using that lr by (simp add: write_at_def)
      then show ?thesis using False that lr nth_write [of n r]
        by (simp add: b' Let_def shift_down_def)
    qed
    have "bits_of b' len = bits_of r (8 * n) @ map (\<lambda>i. bit (r ! n) (8 - q + i)) [0..<q]"
    proof (rule result_bits)
      show "b' ! i = r ! i" if "i < n" for i
        using that False lr nth_write [of i r] by (auto simp: b' Let_def shift_down_def)
      show "bit (b' ! n) i = bit (r ! n) (8 - q + i)" if "i < q" for i
        using last that by (simp add: bit_drop_bit_eq)
    qed (use False m mn in simp_all)
    then show ?thesis using rb False by simp
  next
    case True
    then have len': "len = 8 * n + (q + 1)" using mn m len by simp
    show ?thesis
    proof (cases "q = 0")
      case q0: True
      let ?y = "?x[n := if (?x ! n) AND 0x80 \<noteq> 0 then 1 else 0]"
      have b'2: "b' = write_at 0 (take (n + 1) ?y) b"
        using True q0 lr by (simp add: b' align_last_def Let_def)
      have ly: "n < length ?y" using stack lr True x(1) by simp
      have at: "b' ! i = ?y ! i" if "i \<le> n" for i
        using that ly unfolding b'2 by (subst nth_write) simp_all
      have "bits_of b' len = bits_of r (8 * n) @ map (\<lambda>i. bit (r ! n) 7) [0..<1]"
      proof (rule result_bits)
        show "len = 8 * n + 1" using len' q0 by simp
        show "b' ! i = r ! i" if "i < n" for i
          using at [of i] that x(2) [of i] lr by simp
        have "(r ! n) AND 0x80 \<noteq> 0 \<longleftrightarrow> bit (r ! n) 7" by (metis bit_0x80 bit_0_eq bit_eq_iff bot_apply bot_bool_def)
        then show "bit (b' ! n) i = bit (r ! n) 7" if "i < 1" for i
          using at [of n] that x(2) [of n] lr ly True by (simp add: bit_0)
      qed simp
      then show ?thesis using rb True q0 by simp
    next
      case q1: False
      let ?z = "drop_bit (8 - q) (?x ! n) OR drop_bit (7 - q) ((?x ! (n + 1)) AND 0x80)"
      have b'2: "b' = write_at 0 (take (n + 1) (?x[n := ?z])) b"
        using True q1 lr by (simp add: b' align_last_def Let_def)
      have ly: "n < length (?x[n := ?z])" using stack lr True x(1) by simp
      have at: "b' ! i = ?x[n := ?z] ! i" if "i \<le> n" for i
        using that ly unfolding b'2 by (subst nth_write) simp_all
      let ?f = "\<lambda>i. if i < q then bit (r ! n) (8 - q + i) else bit (r ! (n + 1)) 7"
      have "bits_of b' len = bits_of r (8 * n) @ map ?f [0..<q + 1]"
      proof (rule result_bits)
        show "b' ! i = r ! i" if "i < n" for i
          using at [of i] that x(2) [of i] lr by simp
        show "bit (b' ! n) i = ?f i" if "i < q + 1" for i
        proof -
          have "b' ! n = drop_bit (8 - q) (r ! n) OR drop_bit (7 - q) ((r ! (n + 1)) AND 0x80)"
            using at [of n] x(2) [of n] x(2) [of "n + 1"] lr ly True q1 by simp
          moreover have "bit (drop_bit (7 - q) ((r ! (n + 1)) AND 0x80)) i \<longleftrightarrow> bit (r ! (n + 1)) 7 \<and> i = q"
            unfolding bit_drop_bit_eq comp_def bit_0x80 using mn(2) by auto
          moreover have "\<not> bit (drop_bit (8 - q) (r ! n)) q" using mn(2) by (simp add: bit_drop_bit_eq)
          ultimately show ?thesis using that by (auto simp: bit_or_iff bit_drop_bit_eq less_Suc_eq)
        qed
      qed (use len' mn in simp_all)
      then show ?thesis using rb True q1 by (simp add: comp_def)
    qed
  qed
qed

text \<open>The last read of a block that fits one command, and what becomes of it.\<close>

lemma full_chunks_one:
  assumes "full_chunks E tdi tdo 0 m s = (Ret (rem0, k, tdo1), s1)" and "m div 8 \<le> FULL"
  shows "rem0 = m \<and> k = 0 \<and> tdo1 = tdo \<and> s1 = s"
  using assms by (simp add: full_chunks_done)

lemma txrx_block_reads:
  assumes run: "txrx_block E tdi (Some b) len final s = (Ret res, s')"
    and len: "0 < len" "len \<le> 8 * length b" and one: "len div 8 < TX_BUF - 4"
    and stk: "TX_BUF \<le> length (ev_stack E)"
  shows "\<exists>b' r s5. res = Some b' \<and> readusb E (reply_length final len) s5 = (Ret r, s') \<and>
    (length r = reply_length final len \<longrightarrow> bits_of b' len = reply_bits final len r)"
proof -
  let ?m = "if final then len - 1 else len"
  have le: "?m div 8 \<le> len div 8" by (simp add: div_le_mono)
  obtain rem0 k tdo1 s1 s2 ko n' tdo2 s3 s4 s5 where
      1: "full_chunks E tdi (Some b) 0 ?m s = (Ret (rem0, k, tdo1), s1)"
      and 3: "(if rem0 div 8 \<ge> TX_BUF - 4 then
            (case tdo1 of None \<Rightarrow> return_act (k, 0, None)
             | Some b \<Rightarrow> bind_act (readusb E (rem0 div 8))
                 (\<lambda>r. return_act (k + rem0 div 8, 0, Some (write_at k r b))))
          else return_act (k, rem0 div 8, tdo1)) s2 = (Ret (ko, n', tdo2), s3)"
      and 6: "(case tdo2 of None \<Rightarrow> return_act None
          | Some b \<Rightarrow>
              bind_act
                (read_result E final (rem0 mod 8) ko
                  (if final then (if rem0 mod 8 \<noteq> 0 then n' + 1 else n') + 1
                   else (if rem0 mod 8 \<noteq> 0 then n' + 1 else n')) b)
                (\<lambda>b'. return_act (Some b'))) s5 = (Ret res, s')"
    by (rule txrx_block_returns [OF run])
  have c: "rem0 = ?m" "k = 0" "tdo1 = Some b"
    using full_chunks_one [OF 1] le one by auto
  then have "ko = 0" "n' = ?m div 8" "tdo2 = Some b"
    using 3 le one by (auto split: if_splits)
  with 6 c(1) obtain b' where res: "res = Some b'"
      and rr: "read_result E final (?m mod 8) 0 (reply_length final len) b s5 = (Ret b', s')"
    by (auto simp: reply_length_def Let_def split: if_splits)
  from rr obtain r where r: "readusb E (reply_length final len) s5 = (Ret r, s')"
      and b': "b' = (if \<not> final then
        (let c = write_at 0 r b in if ?m mod 8 \<noteq> 0 then shift_down (reply_length final len - 1) (?m mod 8) c else c)
      else
        (let k = (if ?m mod 8 = 0 then reply_length final len else reply_length final len - 1) in
         write_at 0 (take k (align_last (?m mod 8) (reply_length final len) (overlay r (ev_stack E)))) b))"
    by (auto simp: read_result_def Let_def split: if_splits)
  have "reply_length final len \<le> len div 8 + 2" using le by (auto simp: reply_length_def Let_def)
  note bound = this
  have "bits_of b' len = reply_bits final len r" if "length r = reply_length final len"
    by (rule read_result_bits [OF len that refl refl, where stk = "ev_stack E"])
      (use that one stk bound in simp, use b' that in \<open>simp only:\<close>)
  with res r show ?thesis by blast
qed

section \<open>Opening\<close>

lemma mpsse_ops_init:
  "mpsse_ops [0x80, 0x00, 0x0b, 0x86, lo, hi, 0x82, 0x00, 0x00] = Some [Level False]"
  "mpsse_ops [0x8a, 0x86, lo, hi] = Some []"
  by (simp_all add: mpsse_ops.simps)

context mpsse_port
begin

text \<open>The commands of \<open>Init\<close> leave the cable ready, with TMS low and no clock cycle made.\<close>

lemma init_commands_ready:
  assumes h: "port_ready L (ftdi_handle s)" and "stream s = []" and fast: "device_has_fast_clock s"
    and run: "init_commands E freq s = (Ret u, s')"
  shows "ft_ok L s' \<and> ft_clocks s' = [] \<and> usbuf s' = []"
proof -
  let ?c1 = "[SET_BITS_LOW, 0x00, 0x0b, TCK_DIVISOR, lo8 (slow_divisor freq), hi8 (slow_divisor freq),
      SET_BITS_HIGH, 0x00, 0x00]"
  obtain s1 s2 where 1: "mpsse_add_cmd E ?c1 s = (Ret (), s1)" and 2: "mpsse_send E s1 = (Ret (), s2)"
      and 3: "(\<lambda>s. if device_has_fast_clock s \<and> (freq = 0 \<or> freq > 458) then
                 (let d2 = fast_divisor freq in
                  then_act (mpsse_add_cmd E [DIS_DIV_5, TCK_DIVISOR, lo8 d2, hi8 d2])
                    (then_act (mpsse_send E)
                      (modify_act (\<lambda>s. s\<lparr>tck_freq := word_of_int (30000000 div (1 + d2))\<rparr>))) s)
               else (Ret (), s\<lparr>tck_freq := word_of_int (6000000 div (1 + slow_divisor freq))\<rparr>)) s2 = (Ret u, s')"
    using run unfolding init_commands_def Let_def then_act_returns by blast
  note a1 = add_cmd_adds [OF h 1]
  note a2 = send_adds [OF adds_ok [OF a1] 2]
  have st2: "stream s2 = ?c1" "usbuf s2 = []" "port_ready L (ftdi_handle s2)" "device_has_fast_clock s2"
    using a1 a2 assms(2) fast by (simp_all add: adds_def same_clock_def)
  have "\<exists>ys. stream s' = ?c1 @ ys \<and> mpsse_ops ys = Some [] \<and> usbuf s' = [] \<and>
      port_ready L (ftdi_handle s') \<and> device_has_fast_clock s'"
  proof (cases "freq = 0 \<or> freq > 458")
    case True
    let ?c2 = "[DIS_DIV_5, TCK_DIVISOR, lo8 (fast_divisor freq), hi8 (fast_divisor freq)]"
    obtain s3 s4 where 4: "mpsse_add_cmd E ?c2 s2 = (Ret (), s3)" and 5: "mpsse_send E s3 = (Ret (), s4)"
        and s': "s' = s4\<lparr>tck_freq := word_of_int (30000000 div (1 + fast_divisor freq))\<rparr>"
      using 3 True st2(4) by (auto simp: Let_def)
    note a3 = add_cmd_adds [OF st2(3) 4]
    note a4 = send_adds [OF adds_ok [OF a3] 5]
    show ?thesis
      using a3 a4 st2 mpsse_ops_init(2) by (auto simp: s' adds_def same_clock_def stream_def)
  next
    case False
    then have "s' = s2\<lparr>tck_freq := word_of_int (6000000 div (1 + slow_divisor freq))\<rparr>" using 3 by auto
    then show ?thesis using st2 by (auto simp: stream_def)
  qed
  then obtain ys where ys: "stream s' = ?c1 @ ys" "mpsse_ops ys = Some []" "usbuf s' = []"
      "port_ready L (ftdi_handle s')" "device_has_fast_clock s'"
    by blast
  have "mpsse_ops (stream s') = Some ([Level False] @ [])"
    unfolding ys(1) by (rule mpsse_ops_append_Some [OF mpsse_ops_init(1) ys(2)])
  then show ?thesis using ys by (simp add: ft_ok_def pin_ops_def ft_clocks_def)
qed

end

lemma usleep_ticks_value:
  assumes "100 \<le> unat (tck_freq s)" and "(usec + 1) * (unat (tck_freq s) div 100) < 2 ^ 32"
  shows "unat (usleep_ticks s usec) = ((usec + 1) * (unat (tck_freq s) div 100) - 1) div 10000"
proof -
  define f where "f = unat (tck_freq s) div 100"
  define N where "N = (usec + 1) * f - 1"
  have f: "1 \<le> f" using assms(1) by (simp add: f_def Suc_leI div_greater_zero_iff)
  then have one: "1 \<le> (usec + 1) * f" by simp
  have u: "f = unat (tck_freq s div 100)" by (simp add: f_def unat_div)
  then have F: "tck_freq s div 100 = of_nat f" by (simp only: u of_nat_unat) simp
  have "of_nat usec * of_nat f + of_nat f - 1 = (of_nat ((usec + 1) * f) - 1 :: u32)"
    by (simp add: distrib_right add.commute)
  also have "\<dots> = of_nat N" using one by (simp add: N_def of_nat_diff)
  finally have "usleep_ticks s usec = of_nat N div 10000" by (simp add: usleep_ticks_def F)
  moreover have "unat (of_nat N :: u32) = N"
    using assms(2) by (intro of_nat_inverse [OF refl]) (simp add: N_def f_def [symmetric])
  ultimately show ?thesis by (simp add: unat_div N_def f_def)
qed

section \<open>Properties\<close>

text \<open>C24: Delays. On a device with the fast clock commands, a delay of less than 20 ms that returns
  made clock cycles with TMS unchanged and nothing else. When the ticks are computed without
  overflow (at 30 MHz, up to 14315 microseconds), they last at least the time asked for when TCK
  runs at 1 MHz or more, at most one period less when it is slower, and never longer than the time
  for one microsecond more plus eight periods.\<close>

theorem Usleep_delay:
  assumes "ft_ok L s" and "usec < 20000" and "100 \<le> unat (tck_freq s)"
    and "(usec + 1) * (unat (tck_freq s) div 100) < 2 ^ 32"
    and "Usleep (E\<lparr>ev_usb := logging L\<rparr>) usec s = (Ret u, s')"
  shows "\<exists>k. ft_clocks s' = ft_clocks s @ replicate k (held (ft_clocks s), None) \<and>
    usec * (unat (tck_freq s) div 100) \<le> 10000 * k + (10000 - unat (tck_freq s) div 100) \<and>
    10000 * k \<le> (usec + 1) * (unat (tck_freq s) div 100) + 80000"
proof -
  define f where "f = unat (tck_freq s) div 100"
  define t where "t = unat (usleep_ticks s usec)"
  define N where "N = (usec + 1) * f - 1"
  have f: "1 \<le> f" using assms(3) by (simp add: f_def Suc_leI div_greater_zero_iff)
  have t: "t = N div 10000"
    using usleep_ticks_value [OF assms(3,4)] by (simp add: t_def N_def f_def)
  have N: "N + 1 = usec * f + f" using f by (simp add: N_def)
  have dm: "N = 10000 * t + N mod 10000" and "N mod 10000 < 10000" by (simp_all add: t)
  have "N < 2 ^ 32" using assms(4) by (simp add: N_def f_def [symmetric])
  then have "t div 8 < 65536" by (simp add: t)
  then have "ticked L (replicate (delay_cycles t) None) s s'"
    using ftdi_port.Usleep_cycles [OF assms(1,5,2)] by (simp add: t_def)
  then have "ft_clocks s' = ft_clocks s @ replicate (delay_cycles t) (held (ft_clocks s), None)"
    by (simp add: ticked_def clocked_def map_replicate)
  moreover have "usec * f \<le> 10000 * delay_cycles t + (10000 - f)"
    using delay_cycles_bounds [of t] N dm \<open>N mod 10000 < 10000\<close> by linarith
  moreover have "10000 * delay_cycles t \<le> (usec + 1) * f + 80000"
    using delay_cycles_bounds [of t] N dm by (simp only: distrib_right mult_1) linarith
  ultimately show ?thesis unfolding f_def by blast
qed

lemma sample_ready: "port_ready packet_usb (ftdi_handle (sample_ioftdi (w, [])))"
  by (simp add: port_ready_def sample_ioftdi_def ioftdi_blank_def)

lemma sample_stream: "stream (sample_ioftdi (w, [])) = []"
  by (simp add: stream_def port_sent_def sample_ioftdi_def ioftdi_blank_def)

lemma sample_ok: "ft_ok packet_usb (sample_ioftdi (w, []))"
  by (simp add: ft_ok_def sample_ready sample_stream pin_ops_def ft_clocks_def)
    (simp add: sample_ioftdi_def ioftdi_blank_def)

theorem Usleep_delay_witness:
  "\<exists>s' k. Usleep (sample_env (logging packet_usb)) 10 (sample_ioftdi ([], [])) = (Ret (), s') \<and>
     ft_clocks s' = replicate k (False, None) \<and> 300 \<le> k \<and> k \<le> 338"
proof -
  let ?s = "sample_ioftdi ([], []) :: (byte list list \<times> usb_event list) ioftdi"
  have freq: "unat (tck_freq ?s) = 30000000" by (simp add: sample_ioftdi_def ioftdi_blank_def)
  have "device_has_fast_clock ?s" and "live_port packet_usb ?s"
    using sample_ready by (simp_all add: live_port_def sample_ioftdi_def ioftdi_blank_def)
  then have "\<exists>s'. Usleep (sample_env (logging packet_usb)) 10 ?s = (Ret (), s')"
    by (intro Usleep_live) (simp_all add: sample_env_def)
  then obtain s' where run: "Usleep (sample_env (logging packet_usb)) 10 ?s = (Ret (), s')" by blast
  then have "Usleep ((sample_env (logging packet_usb))\<lparr>ev_usb := logging packet_usb\<rparr>) 10 ?s = (Ret (), s')"
    by (simp add: sample_env_def)
  from Usleep_delay [OF sample_ok _ _ _ this, unfolded freq]
  have "\<exists>k. ft_clocks s' = ft_clocks ?s @ replicate k (held (ft_clocks ?s), None) \<and>
      10 * 300000 \<le> 10000 * k \<and> 10000 * k \<le> 11 * 300000 + 80000"
    by simp
  then obtain k where "ft_clocks s' = ft_clocks ?s @ replicate k (held (ft_clocks ?s), None)"
      "10 * 300000 \<le> 10000 * k" "10000 * k \<le> 11 * 300000 + 80000"
    by blast
  moreover have "ft_clocks ?s = []" by (simp add: ft_clocks_def pin_ops_def sample_stream)
  ultimately show ?thesis using run by auto
qed

text \<open>C25: On a device without the fast clock commands a short delay breaks the command stream. With
  a stream of complete commands before, a delay of one to eight ticks that returns leaves a stream
  that ends inside of a command: the device takes the next command for the missing arguments.\<close>

theorem Usleep_slow_breaks_stream:
  assumes "port_ready L (ftdi_handle s)" and "mpsse_ops (stream s) \<noteq> None"
    and "\<not> device_has_fast_clock s" and "usec < 20000"
    and "0 < usleep_ticks s usec" and "usleep_ticks s usec \<le> 8"
    and "Usleep (E\<lparr>ev_usb := logging L\<rparr>) usec s = (Ret u, s')"
  shows "mpsse_ops (stream s') = None"
  using assms(5) by (intro ftdi_port.Usleep_slow [OF assms(1-4) _ assms(6,7)]) simp

theorem Usleep_slow_breaks_stream_witness:
  "\<exists>s'. Usleep (sample_env (logging packet_usb)) 2
       (sample_ioftdi ([], [])\<lparr>device_has_fast_clock := False, tck_freq := 3000000\<rparr>) = (Ret (), s') \<and>
     mpsse_ops (stream s') = None"
proof -
  let ?s = "sample_ioftdi ([], [])\<lparr>device_has_fast_clock := False, tck_freq := 3000000\<rparr> :: (byte list list \<times> usb_event list) ioftdi"
  have t: "usleep_ticks ?s 2 = 8" by (simp add: usleep_ticks_def)
  have st: "stream ?s = []" using sample_stream by (simp add: stream_def)
  have buf: "usbuf ?s = []" by (simp add: sample_ioftdi_def ioftdi_blank_def)
  have "mpsse_add_cmd (sample_env (logging packet_usb)) [0x1b] ?s = (Ret (), ?s\<lparr>usbuf := [0x1b]\<rparr>)"
    by (simp add: mpsse_add_cmd_def then_act_Ret return_act_def put_cmd_def sample_ioftdi_def ioftdi_blank_def)
  then have run: "Usleep (sample_env (logging packet_usb)) 2 ?s = (Ret (), ?s\<lparr>usbuf := [0x1b]\<rparr>)"
    by (simp add: Usleep_def Let_def t bind_act_Ret return_act_def)
  then have "Usleep ((sample_env (logging packet_usb))\<lparr>ev_usb := logging packet_usb\<rparr>) 2 ?s =
      (Ret (), ?s\<lparr>usbuf := [0x1b]\<rparr>)"
    by (simp add: sample_env_def)
  from Usleep_slow_breaks_stream [OF _ _ _ _ _ _ this] run show ?thesis
    using sample_ready t st by (auto simp del: mpsse_ops_cmd)
qed

text \<open>C23: The bits read back. A block of data of at most 32735 bits that reads TDO and returns made
  one read of the reply at its end, of one byte for each eight bits, one for the rest and, when the
  block ends the shift, one more for its last bit; when the whole reply arrived, the \<open>len\<close> bits
  of the buffer are the bits the device clocked in, in order: the bits of the incomplete byte
  moved down, and the last bit, which comes in a byte of its own, put after them.\<close>

theorem txrx_block_reads_back:
  assumes "txrx_block E tdi (Some b) len final s = (Ret res, s')"
    and "0 < len" and "len \<le> 8 * length b" and "len div 8 < TX_BUF - 4"
    and "TX_BUF \<le> length (ev_stack E)"
  shows "\<exists>b' r s5. res = Some b' \<and> readusb E (reply_length final len) s5 = (Ret r, s') \<and>
    (length r = reply_length final len \<longrightarrow> bits_of b' len = reply_bits final len r)"
  using txrx_block_reads [OF assms] .

lemma packet_write:
  assumes "length buf \<le> TX_BUF"
  shows "ftdi_write_data packet_usb buf (int (length buf)) (Some tiny_context, w) =
    Some (int (length buf), Some tiny_context, w)"
proof -
  have end_loop: "write_loop packet_usb tiny_context 1 buf (int (length buf)) (int (length buf)) w =
      Some (int (length buf), Some tiny_context, w)"
    by (subst write_loop.simps) simp
  show ?thesis
    unfolding ftdi_write_data_def with_dev_def
    by (cases "buf = []") (use assms end_loop in \<open>auto simp: write_loop.simps [of _ _ _ _ _ 0] Let_def\<close>)
qed

lemma packet_send:
  assumes "ftdi_handle s = (Some tiny_context, w)" and "usbuf s \<noteq> []" and "bptr s \<le> TX_BUF"
  shows "mpsse_send (sample_env packet_usb) s =
    (Ret (), s\<lparr>calls_wr := calls_wr s + 1, ftdi_handle := (Some tiny_context, w), usbuf := []\<rparr>)"
  using assms packet_write [of "usbuf s" w] by (simp add: mpsse_send_def sample_env_def)

lemma add_cmd_room:
  "bptr s + length buf + 1 < TX_BUF \<Longrightarrow> mpsse_add_cmd E buf s = (Ret (), s\<lparr>usbuf := usbuf s @ buf\<rparr>)"
  by (simp add: mpsse_add_cmd_def then_act_Ret return_act_def put_cmd_def)

lemma read_retry_full: "len \<le> length acc \<Longrightarrow> read_retry E k len acc a b s = (Ret (acc, a, b, k), s)"
  by (cases k) (simp_all add: return_act_def)

lemma packet_readusb:
  assumes "ftdi_handle s = (Some tiny_context, [[1, 2, x, y]])" and "bptr s + 2 < TX_BUF"
  shows "\<exists>s'. readusb (sample_env packet_usb) 2 s = (Ret [x, y], s')"
proof -
  let ?E = "sample_env packet_usb"
  let ?s1 = "s\<lparr>usbuf := usbuf s @ [0x87]\<rparr>"
  let ?s2 = "?s1\<lparr>calls_wr := calls_wr ?s1 + 1, ftdi_handle := (Some tiny_context, [[1, 2, x, y]]), usbuf := []\<rparr>"
  have 1: "mpsse_add_cmd ?E [0x87] s = (Ret (), ?s1)" using assms(2) by (intro add_cmd_room) simp
  have 2: "mpsse_send ?E ?s1 = (Ret (), ?s2)" using assms by (intro packet_send) simp_all
  have "fst (ftdi_read_data packet_usb 2 (Some tiny_context, [[1, 2, x, y]])) = Ret (2, [x, y])"
    by (simp add: ftdi_read_data_def Let_def read_loop.simps packet_usb_def overlay_def strip_status_def)
  then obtain h where rd: "ftdi_read_data packet_usb 2 (Some tiny_context, [[1, 2, x, y]]) = (Ret (2, [x, y]), h)"
    by (metis prod.collapse)
  then have 3: "read_ftdi ?E 2 (?s2\<lparr>calls_rd := calls_rd ?s2 + 1\<rparr>) =
      (Ret (2, [x, y]), ?s2\<lparr>calls_rd := calls_rd ?s2 + 1, ftdi_handle := h\<rparr>)"
    by (simp add: read_ftdi_def on_part_def sample_env_def)
  show ?thesis
    using 1 2 3 by (simp add: readusb_def then_act_Ret modify_act_def bind_act_Ret read_retry_full return_act_def)
qed

theorem txrx_block_reads_back_witness:
  "\<exists>b' r s5 s'. txrx_block (sample_env packet_usb) None (Some [0]) 3 True
       (sample_ioftdi [[1, 2, 0x40, 0x80]]) = (Ret (Some b'), s') \<and>
     readusb (sample_env packet_usb) 2 s5 = (Ret r, s') \<and>
     (length r = 2 \<longrightarrow> bits_of b' 3 = reply_bits True 3 r)"
proof -
  let ?s = "sample_ioftdi [[1, 2, 0x40, 0x80]] :: byte list list ioftdi" and ?E = "sample_env packet_usb"
  let ?s5 = "?s\<lparr>usbuf := [0x2f, 1, 0x6f, 0, 1]\<rparr>"
  have h: "ftdi_handle ?s5 = (Some tiny_context, [[1, 2, 0x40, 0x80]])"
    by (simp add: sample_ioftdi_def)
  obtain s' where rd: "readusb ?E 2 ?s5 = (Ret [0x40, 0x80], s')"
    using packet_readusb [OF h] by auto
  have "usbuf ?s = []" by (simp add: sample_ioftdi_def ioftdi_blank_def)
  then have a1: "mpsse_add_cmd ?E [0x2f, 1] ?s = (Ret (), ?s\<lparr>usbuf := [0x2f, 1]\<rparr>)"
    by (subst add_cmd_room) simp_all
  have a2: "mpsse_add_cmd ?E [0x6f, 0, 1] (?s\<lparr>usbuf := [0x2f, 1]\<rparr>) = (Ret (), ?s5)"
    by (subst add_cmd_room) simp_all
  have "\<exists>r. txrx_block ?E None (Some [0]) 3 True ?s = (Ret r, s')"
    using rd a1 a2 by (simp add: txrx_block_def full_chunks_done bind_act_Ret return_act_def then_act_Ret
        Let_def data_op_def read_result_def numeral_2_eq_2)
  then obtain r where run: "txrx_block ?E None (Some [0]) 3 True ?s = (Ret r, s')" by blast
  have n: "reply_length True 3 = 2" by (simp add: reply_length_def)
  have "TX_BUF \<le> length (ev_stack ?E)" by (simp add: sample_env_def)
  from txrx_block_reads_back [OF run _ _ _ this, unfolded n] run show ?thesis by auto
qed

text \<open>C26: Opening leaves the cable ready. When the commands of \<open>Init\<close> return, on a fresh handle of a
  device with the fast clock: the stream consists of complete commands, TMS is low, no clock cycle
  was made, and nothing is left in the buffer.\<close>

theorem init_leaves_cable_ready:
  assumes "port_ready L (ftdi_handle s)" and "stream s = []" and "device_has_fast_clock s"
    and "init_commands (E\<lparr>ev_usb := logging L\<rparr>) freq s = (Ret u, s')"
  shows "ft_ok L s' \<and> ft_clocks s' = [] \<and> usbuf s' = []"
  by (rule ftdi_port.init_commands_ready [OF assms])

text \<open>C27: The clock divisor of fast devices. For a frequency above 458 Hz and below 30 MHz the
  divisor of \<open>Init\<close> gives a clock that is not faster than asked for, and it is the smallest one
  that does.\<close>

theorem fast_divisor_best:
  assumes "458 < freq" and "freq < 30000000" and "0 \<le> d" and "30000000 \<le> freq * (1 + d)"
  shows "30000000 \<le> freq * (1 + fast_divisor freq) \<and> fast_divisor freq \<le> d \<and>
    0 \<le> fast_divisor freq \<and> fast_divisor freq \<le> 0xffff"
proof -
  note q = fast_divisor_quotient [OF assms(1,2)]
  have "freq * fast_divisor freq < freq * (1 + d)" using q assms(4) by linarith
  then have "fast_divisor freq < 1 + d" using assms(1) by (simp add: mult_less_cancel_left)
  then show ?thesis using q by simp
qed

theorem fast_divisor_best_witness:
  "30000000 \<le> 7000000 * (1 + fast_divisor 7000000) \<and> fast_divisor 7000000 \<le> 4"
  using fast_divisor_best [of 7000000 4] by simp

theorem init_leaves_cable_ready_witness:
  "\<exists>s'. init_commands (sample_env (logging packet_usb)) 7000000 (sample_ioftdi ([], [])) = (Ret (), s') \<and>
     ft_ok packet_usb s' \<and> ft_clocks s' = []"
proof -
  let ?s = "sample_ioftdi ([], []) :: (byte list list \<times> usb_event list) ioftdi" and ?E = "sample_env (logging packet_usb)"
  have fast: "device_has_fast_clock ?s" and live: "live_port packet_usb ?s"
    using sample_ready by (simp_all add: live_port_def sample_ioftdi_def ioftdi_blank_def)
  have usb: "ev_usb ?E = logging packet_usb" by (simp add: sample_env_def)
  let ?rest = "\<lambda>s. if device_has_fast_clock s \<and> (7000000 = (0 :: int) \<or> 7000000 > (458 :: int)) then
      then_act (mpsse_add_cmd ?E [DIS_DIV_5, TCK_DIVISOR, lo8 (fast_divisor 7000000), hi8 (fast_divisor 7000000)])
        (then_act (mpsse_send ?E)
          (modify_act (\<lambda>s. s\<lparr>tck_freq := word_of_int (30000000 div (1 + fast_divisor 7000000))\<rparr>))) s
      else (Ret (), s\<lparr>tck_freq := word_of_int (6000000 div (1 + slow_divisor 7000000))\<rparr>)"
  have "returns (live_port packet_usb)
      (then_act (mpsse_add_cmd ?E [DIS_DIV_5, TCK_DIVISOR, lo8 (fast_divisor 7000000), hi8 (fast_divisor 7000000)])
        (then_act (mpsse_send ?E)
          (modify_act (\<lambda>s. s\<lparr>tck_freq := word_of_int (30000000 div (1 + fast_divisor 7000000))\<rparr>))))"
    by (intro returns_then add_cmd_live send_returns returns_modify usb) (simp_all add: live_port_def)
  then have rest: "returns (live_port packet_usb) ?rest"
    unfolding returns_def by (simp add: live_port_def)
  have "returns (live_port packet_usb) (init_commands ?E 7000000)"
    unfolding init_commands_def Let_def
    by (intro returns_then add_cmd_live send_returns usb rest) simp
  from returnsE [OF this live] obtain u s' where run: "init_commands ?E 7000000 ?s = (Ret u, s')" by blast
  then have "init_commands (?E\<lparr>ev_usb := logging packet_usb\<rparr>) 7000000 ?s = (Ret u, s')"
    by (simp add: sample_env_def)
  from init_leaves_cable_ready [OF sample_ready sample_stream fast this] run show ?thesis by simp
qed

end
