(* ===== verification/Bitrev.thy ===== *)
theory Bitrev
  imports Cpp
begin

text \<open>
  The table of bit-reversed bytes (\<open>src/devices/xc3sprog/bitrev.cpp\<close>), and that it is what its
  name says: Xilinx tools write the most significant bit of a byte first, JTAG shifts the least
  significant bit first.
\<close>

section \<open>The table\<close>

definition bitRevNats :: "nat list" where
  "bitRevNats =
   [0x00, 0x80, 0x40, 0xc0, 0x20, 0xa0, 0x60, 0xe0,
    0x10, 0x90, 0x50, 0xd0, 0x30, 0xb0, 0x70, 0xf0,
    0x08, 0x88, 0x48, 0xc8, 0x28, 0xa8, 0x68, 0xe8,
    0x18, 0x98, 0x58, 0xd8, 0x38, 0xb8, 0x78, 0xf8,
    0x04, 0x84, 0x44, 0xc4, 0x24, 0xa4, 0x64, 0xe4,
    0x14, 0x94, 0x54, 0xd4, 0x34, 0xb4, 0x74, 0xf4,
    0x0c, 0x8c, 0x4c, 0xcc, 0x2c, 0xac, 0x6c, 0xec,
    0x1c, 0x9c, 0x5c, 0xdc, 0x3c, 0xbc, 0x7c, 0xfc,
    0x02, 0x82, 0x42, 0xc2, 0x22, 0xa2, 0x62, 0xe2,
    0x12, 0x92, 0x52, 0xd2, 0x32, 0xb2, 0x72, 0xf2,
    0x0a, 0x8a, 0x4a, 0xca, 0x2a, 0xaa, 0x6a, 0xea,
    0x1a, 0x9a, 0x5a, 0xda, 0x3a, 0xba, 0x7a, 0xfa,
    0x06, 0x86, 0x46, 0xc6, 0x26, 0xa6, 0x66, 0xe6,
    0x16, 0x96, 0x56, 0xd6, 0x36, 0xb6, 0x76, 0xf6,
    0x0e, 0x8e, 0x4e, 0xce, 0x2e, 0xae, 0x6e, 0xee,
    0x1e, 0x9e, 0x5e, 0xde, 0x3e, 0xbe, 0x7e, 0xfe,
    0x01, 0x81, 0x41, 0xc1, 0x21, 0xa1, 0x61, 0xe1,
    0x11, 0x91, 0x51, 0xd1, 0x31, 0xb1, 0x71, 0xf1,
    0x09, 0x89, 0x49, 0xc9, 0x29, 0xa9, 0x69, 0xe9,
    0x19, 0x99, 0x59, 0xd9, 0x39, 0xb9, 0x79, 0xf9,
    0x05, 0x85, 0x45, 0xc5, 0x25, 0xa5, 0x65, 0xe5,
    0x15, 0x95, 0x55, 0xd5, 0x35, 0xb5, 0x75, 0xf5,
    0x0d, 0x8d, 0x4d, 0xcd, 0x2d, 0xad, 0x6d, 0xed,
    0x1d, 0x9d, 0x5d, 0xdd, 0x3d, 0xbd, 0x7d, 0xfd,
    0x03, 0x83, 0x43, 0xc3, 0x23, 0xa3, 0x63, 0xe3,
    0x13, 0x93, 0x53, 0xd3, 0x33, 0xb3, 0x73, 0xf3,
    0x0b, 0x8b, 0x4b, 0xcb, 0x2b, 0xab, 0x6b, 0xeb,
    0x1b, 0x9b, 0x5b, 0xdb, 0x3b, 0xbb, 0x7b, 0xfb,
    0x07, 0x87, 0x47, 0xc7, 0x27, 0xa7, 0x67, 0xe7,
    0x17, 0x97, 0x57, 0xd7, 0x37, 0xb7, 0x77, 0xf7,
    0x0f, 0x8f, 0x4f, 0xcf, 0x2f, 0xaf, 0x6f, 0xef,
    0x1f, 0x9f, 0x5f, 0xdf, 0x3f, 0xbf, 0x7f, 0xff]"

definition bitRevTable :: "byte list" where
  "bitRevTable = map of_nat bitRevNats"

text \<open>\<open>bitRevTable[b]\<close>.\<close>

definition bitrev :: "byte \<Rightarrow> byte" where
  "bitrev b = bitRevTable ! unat b"

section \<open>Reversal\<close>

text \<open>The number with the eight lowest bits in reverse order.\<close>

definition flip_nat :: "nat \<Rightarrow> nat" where
  "flip_nat n = 128 * (n mod 2) + 64 * (n div 2 mod 2) + 32 * (n div 4 mod 2) + 16 * (n div 8 mod 2) +
     8 * (n div 16 mod 2) + 4 * (n div 32 mod 2) + 2 * (n div 64 mod 2) + n div 128 mod 2"

lemma table_flips: "bitRevNats = map flip_nat [0..<256]"
  by (simp add: bitRevNats_def flip_nat_def upt_rec)

lemma bitrev_flip: "bitrev b = of_nat (flip_nat (unat b))"
proof -
  have "unat b < 256" using unsigned_less [of b] by simp
  then show ?thesis by (simp add: bitrev_def bitRevTable_def table_flips)
qed

lemma less_8_cases:
  fixes i :: nat
  assumes "i < 8"
  obtains "i = 0" | "i = 1" | "i = 2" | "i = 3" | "i = 4" | "i = 5" | "i = 6" | "i = 7"
  using assms by linarith

lemma digit_at:
  fixes hi lo d :: nat
  assumes "lo < m" and "d < 2"
  shows "(m * (2 * hi + d) + lo) div m mod 2 = d"
proof -
  have "(m * (2 * hi + d) + lo) div m = 2 * hi + d"
    using assms(1) by simp
  then show ?thesis using assms(2) by simp
qed

lemma flip_digits:
  fixes a b c d e f g h :: nat
  assumes "a < 2" "b < 2" "c < 2" "d < 2" "e < 2" "f < 2" "g < 2" "h < 2" and "i < 8"
  shows "(128 * a + 64 * b + 32 * c + 16 * d + 8 * e + 4 * f + 2 * g + h) div 2 ^ i mod 2 =
    [h, g, f, e, d, c, b, a] ! i"
proof -
  show ?thesis
  proof (rule less_8_cases [OF assms(9)], goal_cases)
    case 1 then show ?thesis using digit_at [of 0 1 h "64 * a + 32 * b + 16 * c + 8 * d + 4 * e + 2 * f + g"] assms
      by (simp add: algebra_simps)
  next
    case 2 then show ?thesis using digit_at [of h 2 g "32 * a + 16 * b + 8 * c + 4 * d + 2 * e + f"] assms
      by (simp add: algebra_simps del: One_nat_def)
  next
    case 3 then show ?thesis using digit_at [of "2 * g + h" 4 f "16 * a + 8 * b + 4 * c + 2 * d + e"] assms
      by (simp add: algebra_simps)
  next
    case 4 then show ?thesis using digit_at [of "4 * f + 2 * g + h" 8 e "8 * a + 4 * b + 2 * c + d"] assms
      by (simp add: algebra_simps)
  next
    case 5 then show ?thesis using digit_at [of "8 * e + 4 * f + 2 * g + h" 16 d "4 * a + 2 * b + c"] assms
      by (simp add: algebra_simps)
  next
    case 6 then show ?thesis using digit_at [of "16 * d + 8 * e + 4 * f + 2 * g + h" 32 c "2 * a + b"] assms
      by (simp add: algebra_simps)
  next
    case 7 then show ?thesis using digit_at [of "32 * c + 16 * d + 8 * e + 4 * f + 2 * g + h" 64 b a] assms
      by (simp add: algebra_simps)
  next
    case 8 then show ?thesis
      using digit_at [of "64 * b + 32 * c + 16 * d + 8 * e + 4 * f + 2 * g + h" 128 a 0] assms
      by (simp add: algebra_simps)
  qed
qed

lemma flip_nat_bit:
  assumes "i < 8"
  shows "flip_nat n div 2 ^ i mod 2 = n div 2 ^ (7 - i) mod 2"
proof -
  have "flip_nat n div 2 ^ i mod 2 = [n div 128 mod 2, n div 64 mod 2, n div 32 mod 2, n div 16 mod 2,
      n div 8 mod 2, n div 4 mod 2, n div 2 mod 2, n mod 2] ! i"
    unfolding flip_nat_def by (rule flip_digits) (use assms in simp_all)
  also have "\<dots> = n div 2 ^ (7 - i) mod 2"
    by (rule less_8_cases [OF assms]) simp_all
  finally show ?thesis .
qed

lemma bit_bitrev: "bit (bitrev b) i \<longleftrightarrow> i < 8 \<and> bit b (7 - i)"
proof (cases "i < 8")
  case True
  then have "bit (bitrev b) i \<longleftrightarrow> odd (flip_nat (unat b) div 2 ^ i)"
    by (simp add: bitrev_flip bit_of_nat_iff bit_iff_odd [of "_ :: nat"])
  also have "\<dots> \<longleftrightarrow> odd (unat b div 2 ^ (7 - i))"
    using flip_nat_bit [OF True, of "unat b"] by (simp add: odd_iff_mod_2_eq_one)
  also have "\<dots> \<longleftrightarrow> bit (unat b) (7 - i)" by (simp add: bit_iff_odd)
  also have "\<dots> \<longleftrightarrow> bit b (7 - i)" by (simp add: bit_unsigned_iff)
  finally show ?thesis using True by simp
qed (simp add: not_less)

lemma bitrev_bitrev [simp]: "bitrev (bitrev b) = b"
  by (rule bit_word_eqI) (auto simp: bit_bitrev)

lemma map_bitrev_bitrev [simp]: "map bitrev (map bitrev bs) = bs"
  by (induction bs) simp_all

end
