(* ===== verification/Stdio.thy ===== *)
theory Stdio
  imports Cpp
begin

unbundle bit_operations_syntax

text \<open>
  What the sources use of C's \<open>stdio\<close>: reading a file byte by byte and line by line, numbers in
  hexadecimal with \<open>sscanf\<close>, and the output of \<open>printf\<close> for them. Files are lists of bytes, texts
  are lists of character codes; reading a file never fails before its end.
\<close>

section \<open>Files\<close>

text \<open>An open file: its content, what is left of it, and the end-of-file indicator.\<close>

record stdio_file =
  whole :: "byte list"
  unread :: "byte list"
  at_eof :: bool

definition open_file :: "byte list \<Rightarrow> stdio_file" where
  "open_file d = \<lparr>whole = d, unread = d, at_eof = False\<rparr>"

definition fread :: "nat \<Rightarrow> stdio_file \<Rightarrow> byte list \<times> stdio_file" where
  "fread n f =
     (take n (unread f), f\<lparr>unread := drop n (unread f), at_eof := at_eof f \<or> length (unread f) < n\<rparr>)"

text \<open>\<open>fseek(fp, 0, SEEK_SET)\<close>, after the length was taken at the end.\<close>

definition to_start :: "stdio_file \<Rightarrow> stdio_file" where
  "to_start f = f\<lparr>unread := whole f, at_eof := False\<rparr>"

definition ftell_end :: "stdio_file \<Rightarrow> nat" where
  "ftell_end f = length (whole f)"

text \<open>\<open>fgets(buf, n, fp)\<close>: the characters read, up to a newline and at most \<open>n - 1\<close>.\<close>

definition line_of :: "byte list \<Rightarrow> byte list" where
  "line_of s = takeWhile (\<lambda>c. c \<noteq> 0x0a) s @ (if 0x0a \<in> set s then [0x0a] else [])"

definition fgets :: "nat \<Rightarrow> stdio_file \<Rightarrow> byte list option \<times> stdio_file" where
  "fgets n f =
     (let l = line_of (take (n - 1) (unread f)) in
      (if unread f = [] then None else Some l,
       f\<lparr>unread := drop (length l) (unread f),
         at_eof := at_eof f \<or> (length (unread f) < n - 1 \<and> 0x0a \<notin> set l)\<rparr>))"

lemma length_line_of: "length (line_of s) \<le> length s"
  by (induction s) (auto simp: line_of_def split: if_splits)

lemma line_of_Nil [simp]: "line_of s = [] \<longleftrightarrow> s = []"
  by (cases s) (auto simp: line_of_def)

lemma line_of_line: "0x0a \<notin> set l \<Longrightarrow> line_of (l @ 0x0a # s) = l @ [0x0a]"
  by (induction l) (simp_all add: line_of_def)

section \<open>Hexadecimal numbers\<close>

definition is_space :: "byte \<Rightarrow> bool" where
  "is_space c \<longleftrightarrow> c = 0x20 \<or> (0x09 \<le> c \<and> c \<le> 0x0d)"

definition hex_value :: "byte \<Rightarrow> nat option" where
  "hex_value c =
     (if 0x30 \<le> c \<and> c \<le> 0x39 then Some (unat c - 48)
      else if 0x41 \<le> c \<and> c \<le> 0x46 then Some (unat c - 55)
      else if 0x61 \<le> c \<and> c \<le> 0x66 then Some (unat c - 87)
      else None)"

definition hex_number :: "byte list \<Rightarrow> nat" where
  "hex_number ds = foldl (\<lambda>n c. 16 * n + the (hex_value c)) 0 ds"

text \<open>
  The conversion \<open>%x\<close> of \<open>sscanf\<close> with a maximal width: white space, a sign, the prefix \<open>0x\<close>, and
  digits. The result is the value and the rest of the text, or \<open>None\<close> when there is no number.
\<close>

definition scan_sign :: "nat \<Rightarrow> byte list \<Rightarrow> bool \<times> nat \<times> byte list" where
  "scan_sign w s =
     (case s of
        [] \<Rightarrow> (False, w, s)
      | c # cs \<Rightarrow> if 0 < w \<and> c = 0x2d then (True, w - 1, cs)
                 else if 0 < w \<and> c = 0x2b then (False, w - 1, cs) else (False, w, s))"

definition scan_prefix :: "nat \<Rightarrow> byte list \<Rightarrow> nat \<times> byte list" where
  "scan_prefix w s =
     (case s of
        c # x # cs \<Rightarrow> if 2 \<le> w \<and> c = 0x30 \<and> (x = 0x78 \<or> x = 0x58) then (w - 2, cs) else (w, s)
      | _ \<Rightarrow> (w, s))"

definition scan_hex :: "nat \<Rightarrow> byte list \<Rightarrow> (u32 \<times> byte list) option" where
  "scan_hex w s =
     (case scan_sign w (dropWhile is_space s) of
        (neg, w1, s1) \<Rightarrow>
          (case scan_prefix w1 s1 of
             (w2, s2) \<Rightarrow>
               (let ds = takeWhile (\<lambda>c. hex_value c \<noteq> None) (take w2 s2); n = of_nat (hex_number ds) in
                if ds = [] then None else Some (if neg then - n else n, drop (length ds) s2))))"

text \<open>Digits as \<open>printf\<close> writes them, in upper case (\<open>%X\<close>) or lower case (\<open>%x\<close>).\<close>

definition hex_digit :: "bool \<Rightarrow> nat \<Rightarrow> byte" where
  "hex_digit upper n =
     (if n < 10 then of_nat (48 + n) else if upper then of_nat (55 + n) else of_nat (87 + n))"

definition hex2 :: "bool \<Rightarrow> byte \<Rightarrow> byte list" where
  "hex2 upper b = [hex_digit upper (unat b div 16), hex_digit upper (unat b mod 16)]"

text \<open>\<open>%04X\<close> of a number below \<open>2 ^ 16\<close>.\<close>

definition hex4 :: "bool \<Rightarrow> u16 \<Rightarrow> byte list" where
  "hex4 upper v = hex2 upper (ucast (drop_bit 8 v)) @ hex2 upper (ucast v)"

text \<open>\<open>%7d\<close>: a decimal number, padded to seven characters.\<close>

fun decimal :: "nat \<Rightarrow> byte list" where
  "decimal n = (if n < 10 then [of_nat (48 + n)] else decimal (n div 10) @ [of_nat (48 + n mod 10)])"

declare decimal.simps [simp del]

definition pad7 :: "byte list \<Rightarrow> byte list" where
  "pad7 s = replicate (7 - length s) 0x20 @ s"

text \<open>A C string: the characters before the first NUL.\<close>

definition cstr :: "byte list \<Rightarrow> byte list" where
  "cstr b = takeWhile (\<lambda>c. c \<noteq> 0) b"

section \<open>Reading back what was written\<close>

lemma hex_digit_cases:
  fixes n :: nat
  assumes lt: "n < 16"
  obtains "n = 0" | "n = 1" | "n = 2" | "n = 3" | "n = 4" | "n = 5" | "n = 6" | "n = 7"
    | "n = 8" | "n = 9" | "n = 10" | "n = 11" | "n = 12" | "n = 13" | "n = 14" | "n = 15"
  using lt by (auto simp: less_Suc_eq eval_nat_numeral)

lemma hex_value_digit [simp]: "n < 16 \<Longrightarrow> hex_value (hex_digit upper n) = Some n"
  by (erule hex_digit_cases) (simp_all add: hex_digit_def hex_value_def)

lemma hex_digit_plain:
  "n < 16 \<Longrightarrow> \<not> is_space (hex_digit upper n) \<and> hex_digit upper n \<noteq> 0 \<and> hex_digit upper n \<noteq> 0x0a \<and>
   hex_digit upper n \<noteq> 0x0d \<and> hex_digit upper n \<noteq> 0x20 \<and> hex_digit upper n \<noteq> 0x2f \<and>
   hex_digit upper n \<noteq> 0x2b \<and> hex_digit upper n \<noteq> 0x2d \<and> hex_digit upper n \<noteq> 0x78 \<and>
   hex_digit upper n \<noteq> 0x58"
  by (erule hex_digit_cases) (simp_all add: hex_digit_def is_space_def)

lemma byte_less: "unat (b :: byte) < 256"
  using unsigned_less [of b] by simp

lemma nibbles [simp]: "unat (b :: byte) div 16 < 16" "unat (b :: byte) mod 16 < 16"
  using byte_less [of b] by (simp_all add: less_mult_imp_div_less)

lemma length_hex2 [simp]: "length (hex2 upper b) = 2"
  by (simp add: hex2_def)

lemma length_hex4 [simp]: "length (hex4 upper v) = 4"
  by (simp add: hex4_def)

lemma scan_hex_digits:
  assumes "ds \<noteq> []" and "length ds = w" and "\<And>d. d \<in> set ds \<Longrightarrow> \<exists>n < 16. d = hex_digit upper n"
  shows "scan_hex w (ds @ s) = Some (of_nat (hex_number ds), s)"
proof -
  have plain: "\<not> is_space d \<and> d \<noteq> 0x2b \<and> d \<noteq> 0x2d \<and> d \<noteq> 0x78 \<and> d \<noteq> 0x58 \<and> hex_value d \<noteq> None"
    if "d \<in> set ds" for d
    using assms(3) [OF that] hex_digit_plain by fastforce
  obtain c cs where ds: "ds = c # cs" using assms(1) by (cases ds) auto
  have sp: "dropWhile is_space (ds @ s) = ds @ s" using plain [of c] by (simp add: ds)
  have sg: "scan_sign w (ds @ s) = (False, w, ds @ s)"
    using plain [of c] by (simp add: scan_sign_def ds)
  have pf: "scan_prefix w (ds @ s) = (w, ds @ s)"
  proof (cases cs)
    case Nil
    then show ?thesis using assms(2) by (simp add: scan_prefix_def ds split: list.split)
  next
    case (Cons x xs)
    then show ?thesis using plain [of x] by (simp add: scan_prefix_def ds)
  qed
  have tw: "takeWhile (\<lambda>c. hex_value c \<noteq> None) ds = ds"
    using plain by (simp add: takeWhile_eq_all_conv)
  have tk: "take w (ds @ s) = ds" "drop w (ds @ s) = s" using assms(2) by simp_all
  show ?thesis
    by (simp only: scan_hex_def sp sg pf Let_def prod.case tk(1) tw assms(1) if_False)
      (simp add: assms(2) tk(2))
qed

lemma hex2_digits: "d \<in> set (hex2 upper b) \<Longrightarrow> \<exists>n < 16. d = hex_digit upper n"
  unfolding hex2_def using nibbles [of b] by (auto intro: exI [of _ "unat b div 16"] exI [of _ "unat b mod 16"])

lemma hex4_digits: "d \<in> set (hex4 upper v) \<Longrightarrow> \<exists>n < 16. d = hex_digit upper n"
  unfolding hex4_def using hex2_digits by (metis Un_iff set_append)

lemma hex_number_hex2 [simp]: "hex_number (hex2 upper b) = unat b"
  by (simp add: hex_number_def hex2_def)

lemma scan_hex2 [simp]: "scan_hex 2 (hex2 upper b @ s) = Some (ucast b, s)"
proof -
  have "hex2 upper b \<noteq> []" by (metis length_hex2 list.size(3) zero_neq_numeral)
  from scan_hex_digits [OF this length_hex2 hex2_digits] show ?thesis by simp
qed

lemma hex_number_append: "hex_number (xs @ ys) = hex_number xs * 16 ^ length ys + hex_number ys"
proof (induction ys rule: rev_induct)
  case Nil
  then show ?case by (simp add: hex_number_def)
next
  case (snoc y ys)
  then show ?case by (simp add: hex_number_def algebra_simps)
qed

lemma u16_less: "unat (v :: u16) < 65536"
  using unsigned_less [of v] by simp

lemma u16_bytes: "unat (ucast (drop_bit 8 v) :: byte) * 256 + unat (ucast v :: byte) = unat (v :: u16)"
proof -
  have lo: "unat (ucast v :: byte) = unat v mod 256"
    by (simp add: unsigned_ucast_eq take_bit_eq_mod)
  have "unat (drop_bit 8 v) < 256"
    using u16_less [of v] by (simp add: drop_bit_eq_div unat_div less_mult_imp_div_less)
  then have "unat (ucast (drop_bit 8 v) :: byte) = unat v div 256"
    by (simp add: unsigned_ucast_eq take_bit_eq_mod drop_bit_eq_div unat_div)
  then show ?thesis by (simp add: lo)
qed

lemma hex_number_hex4 [simp]: "hex_number (hex4 upper v) = unat v"
  using u16_bytes [of v] by (simp add: hex4_def hex_number_append)

lemma scan_hex4 [simp]: "scan_hex 4 (hex4 upper v @ s) = Some (ucast v, s)"
proof -
  have "hex4 upper v \<noteq> []" by (metis length_hex4 list.size(3) zero_neq_numeral)
  from scan_hex_digits [OF this length_hex4 hex4_digits] show ?thesis by simp
qed

end
