(* ===== verification/Bitfile.thy ===== *)
theory Bitfile
  imports Bitrev Stdio
begin

unbundle bit_operations_syntax

text \<open>
  Bit stream files (\<open>src/devices/xc3sprog/bitfile.h\<close>, \<open>bitfile.cpp\<close>): reading Xilinx bit files,
  raw, hexadecimal and Intel MCS files, writing them, and access to the data. The data is kept with
  the bits of each byte reversed, as JTAG shifts them. Messages to \<open>stderr\<close> are left out, memory is
  not limited.
\<close>

section \<open>State\<close>

datatype FILE_STYLE =
    STYLE_BIT | STYLE_BIN | STYLE_BPI | STYLE_HEX | STYLE_HEX_RAW
  | STYLE_MCS | STYLE_IHEX | STYLE_JEDEC | STYLE_AUTO

text \<open>\<open>blength\<close> is \<open>length\<close>, \<open>bError\<close> is \<open>Error\<close>; texts are byte lists.\<close>

record bitfile =
  ncdFilename :: "byte list"
  partName :: "byte list"
  date :: "byte list"
  dtime :: "byte list"
  blength :: nat
  buffer :: "byte list option"
  bError :: bool
  errorStr :: string
  boffset :: nat
  rlength :: nat

definition BitFile_new :: bitfile where
  "BitFile_new =
     \<lparr>ncdFilename = [], partName = [], date = [], dtime = [], blength = 0, buffer = None,
      bError = False, errorStr = '''', boffset = 0, rlength = 0\<rparr>"

definition bf_error :: "string \<Rightarrow> bitfile \<Rightarrow> bitfile" where
  "bf_error str bf = bf\<lparr>errorStr := str, bError := True\<rparr>"

definition getError :: "bitfile \<Rightarrow> string \<times> bitfile" where
  "getError bf = (if \<not> bError bf then ('''', bf) else (errorStr bf, bf\<lparr>bError := False\<rparr>))"

definition getLength :: "bitfile \<Rightarrow> nat" where
  "getLength bf = blength bf * 8 mod 2 ^ 32"

text \<open>
  What memory holds that was not initialised: \<open>g v i\<close> is cell \<open>i\<close> of the variable \<open>v\<close>, which is
  \<open>buffer\<close> for a new buffer.
\<close>

type_synonym uninit = "string \<Rightarrow> nat \<Rightarrow> u32"

definition stack_bytes :: "uninit \<Rightarrow> string \<Rightarrow> nat \<Rightarrow> byte list" where
  "stack_bytes g v n = map (\<lambda>i. ucast (g v i)) [0..<n]"

lemma length_stack_bytes [simp]: "length (stack_bytes g v n) = n"
  by (simp add: stack_bytes_def)

abbreviation new_bytes :: "uninit \<Rightarrow> nat \<Rightarrow> byte list" where
  "new_bytes g n \<equiv> stack_bytes g ''buffer'' n"

text \<open>\<open>fread(&b, 1, 1, fp)\<close>: the variable \<open>b\<close> keeps its value at the end of the file.\<close>

definition fread_byte :: "byte \<Rightarrow> stdio_file \<Rightarrow> byte \<times> stdio_file" where
  "fread_byte b f = (case fread 1 f of (got, f') \<Rightarrow> (case got of [] \<Rightarrow> b | c # _ \<Rightarrow> c, f'))"

definition from_be :: "byte list \<Rightarrow> nat" where
  "from_be bs = foldl (\<lambda>n b. 256 * n + unat b) 0 bs"

section \<open>Xilinx bit files\<close>

text \<open>\<open>readField\<close>: the bytes appended to the field.\<close>

fun field_loop :: "uninit \<Rightarrow> nat \<Rightarrow> stdio_file \<Rightarrow> byte list \<times> stdio_file" where
  "field_loop g 0 f = ([], f)"
| "field_loop g (Suc n) f =
     (case fread_byte (ucast (g ''b'' n)) f of
        (b, f1) \<Rightarrow> (case field_loop g n f1 of (bs, f2) \<Rightarrow> (b # bs, f2)))"

definition readField :: "uninit \<Rightarrow> stdio_file \<Rightarrow> byte list \<times> stdio_file" where
  "readField g f =
     (case fread 2 f of
        (got, f1) \<Rightarrow> field_loop g (from_be (overlay got (stack_bytes g ''t'' 2))) f1)"

text \<open>The loop of \<open>processData\<close>: the bytes stored in the buffer, while the end is not reached.\<close>

fun data_loop :: "uninit \<Rightarrow> nat \<Rightarrow> stdio_file \<Rightarrow> byte list \<times> stdio_file" where
  "data_loop g 0 f = ([], f)"
| "data_loop g (Suc n) f =
     (if at_eof f then ([], f)
      else
        (case fread_byte (ucast (g ''b'' n)) f of
           (b, f1) \<Rightarrow> (case data_loop g n f1 of (bs, f2) \<Rightarrow> (bitrev b # bs, f2))))"

definition processData :: "uninit \<Rightarrow> (bitfile \<times> stdio_file, unit) act" where
  "processData g s =
     (case fread 4 (snd s) of
        (got, f1) \<Rightarrow>
          (let n = from_be (overlay got (stack_bytes g ''t'' 4)) in
           case data_loop g n f1 of
             (bs, f2) \<Rightarrow>
               (let bf = (fst s)\<lparr>blength := n, buffer := Some (overlay bs (new_bytes g n))\<rparr> in
                if at_eof f2 then (Throws ''Unexpected end of file'', bf, f2)
                else
                  (case fread 1 f2 of
                     (_, f3) \<Rightarrow>
                       (Ret (), if at_eof f3 then bf else bf_error ''Ignoring extra data at end of file'' bf,
                        f3)))))"

definition add_field :: "byte \<Rightarrow> byte list \<Rightarrow> bitfile \<Rightarrow> bitfile" where
  "add_field key v bf =
     (if key = 0x61 then bf\<lparr>ncdFilename := ncdFilename bf @ v\<rparr>
      else if key = 0x62 then bf\<lparr>partName := partName bf @ v\<rparr>
      else if key = 0x63 then bf\<lparr>date := date bf @ v\<rparr>
      else if key = 0x64 then bf\<lparr>dtime := dtime bf @ v\<rparr>
      else bf)"

lemma field_loop_unread:
  "field_loop g n f = (bs, f') \<Longrightarrow> length (unread f') \<le> length (unread f) \<and> (at_eof f \<longrightarrow> at_eof f')"
  by (induction g n f arbitrary: bs rule: field_loop.induct)
    (fastforce simp: fread_byte_def fread_def split: prod.splits list.splits)+

lemma readField_unread:
  assumes "readField g f = (bs, f')"
  shows "length (unread f') \<le> length (unread f) \<and> (at_eof f \<longrightarrow> at_eof f')"
proof -
  from assms obtain n where "field_loop g n (snd (fread 2 f)) = (bs, f')"
    by (auto simp: readField_def split: prod.splits)
  from field_loop_unread [OF this] show ?thesis by (auto simp: fread_def)
qed

lemma fread_byte_progress:
  assumes "fread_byte b f = (c, f')"
  shows "(unread f = [] \<and> at_eof f' \<and> unread f' = []) \<or>
    (length (unread f') < length (unread f) \<and> at_eof f' = at_eof f)"
  using assms by (cases "unread f") (auto simp: fread_byte_def fread_def)

function bit_loop :: "uninit \<Rightarrow> byte \<Rightarrow> (bitfile \<times> stdio_file, int) act" where
  "bit_loop g key s =
     (if at_eof (snd s) then (Throws ''Unexpected end of file'', s)
      else
        (case fread_byte key (snd s) of
           (key', f1) \<Rightarrow>
             if key' = 0x65 then then_act (processData g) (return_act 0) (fst s, f1)
             else (case readField g f1 of (v, f2) \<Rightarrow> bit_loop g key' (add_field key' v (fst s), f2))))"
  by pat_completeness auto
termination
  by (relation "measure (\<lambda>(g, key, bf, f). length (unread f) + (if at_eof f then 0 else 1))")
    (auto dest!: readField_unread [OF sym] fread_byte_progress [OF sym])

declare bit_loop.simps [simp del]

text \<open>\<open>readBitfile\<close>: every exception is caught.\<close>

definition readBitfile :: "uninit \<Rightarrow> (bitfile \<times> stdio_file, int) act" where
  "readBitfile g s =
     (case bit_loop g (ucast (g ''key'' 0)) (fst s, snd (fread 13 (snd s))) of
        (Throws _, s') \<Rightarrow> (Ret 2, s')
      | res \<Rightarrow> res)"

section \<open>Raw files\<close>

definition readBIN :: "uninit \<Rightarrow> bool \<Rightarrow> (bitfile \<times> stdio_file, int) act" where
  "readBIN g do_bitrev s =
     (let n = ftell_end (snd s) mod 2 ^ 32 in
      case fread n (to_start (snd s)) of
        (got, f1) \<Rightarrow>
          (let b = overlay got (new_bytes g n) in
           (Ret 0, (fst s)\<lparr>blength := n, buffer := Some (if do_bitrev then map bitrev b else b)\<rparr>, f1)))"

section \<open>Hexadecimal files\<close>

text \<open>
  The line buffer \<open>buf\<close> of the readers, 1024 characters: \<open>fgets\<close> overwrites its start and puts a NUL
  after it. A number is read at index \<open>k\<close> by \<open>sscanf\<close>; \<open>None\<close> stands for an access outside of the
  buffer, which \<open>sscanf\<close> makes when there is no NUL from \<open>k\<close> on.
\<close>

abbreviation (input) LINE :: nat where "LINE \<equiv> 1024"

definition line_buf :: "uninit \<Rightarrow> byte list" where
  "line_buf g = stack_bytes g ''buf'' LINE"

definition scan_at :: "nat \<Rightarrow> byte list \<Rightarrow> nat \<Rightarrow> u32 \<Rightarrow> u32 option" where
  "scan_at w buf k old =
     (if 0 \<notin> set (drop k buf) then None
      else Some (case scan_hex w (cstr (drop k buf)) of None \<Rightarrow> old | Some (v, _) \<Rightarrow> v))"

function hex_line :: "byte list \<Rightarrow> nat \<Rightarrow> byte \<Rightarrow> byte list \<Rightarrow> nat \<Rightarrow> (byte list \<times> nat) option" where
  "hex_line buf k value b n =
     (if length buf \<le> k then None
      else if buf ! k \<in> {0x0a, 0x0d, 0x20, 0x2f} then Some (b, n)
      else
        (case scan_at 2 buf k (ucast value) of
           None \<Rightarrow> None
         | Some v \<Rightarrow>
             if length b \<le> n then None
             else hex_line buf (k + 2) (ucast v) (b[n := bitrev (ucast v)]) (n + 1)))"
  by pat_completeness auto
termination by (relation "measure (\<lambda>(buf, k, _). length buf - k)") auto

declare hex_line.simps [simp del]

lemma fgets_progress: "fgets LINE f = (Some l, f') \<Longrightarrow> length (unread f') < length (unread f)"
proof -
  assume "fgets LINE f = (Some l, f')"
  then have "unread f \<noteq> []" and eq: "l = line_of (take (LINE - 1) (unread f))" "unread f' = drop (length l) (unread f)"
    by (auto simp: fgets_def Let_def split: if_splits)
  then have "l \<noteq> []" by simp
  with \<open>unread f \<noteq> []\<close> show ?thesis by (simp add: eq(2))
qed

function hex_lines ::
  "uninit \<Rightarrow> byte list \<Rightarrow> byte list \<Rightarrow> nat \<Rightarrow> stdio_file \<Rightarrow> (byte list \<times> nat) option \<times> stdio_file"
where
  "hex_lines g buf b n f =
     (case fgets LINE f of
        (None, f1) \<Rightarrow> (Some (b, n), f1)
      | (Some l, f1) \<Rightarrow>
          (let buf1 = overlay (l @ [0]) buf in
           case hex_line buf1 0 (ucast (g ''value'' 0)) b n of
             None \<Rightarrow> (None, f1)
           | Some (b', n') \<Rightarrow> hex_lines g buf1 b' n' f1))"
  by pat_completeness auto
termination
  by (relation "measure (\<lambda>(g, buf, b, n, f). length (unread f))") (auto dest: fgets_progress [OF sym])

declare hex_lines.simps [simp del]

definition readHEXRAW :: "uninit \<Rightarrow> (bitfile \<times> stdio_file, int) act" where
  "readHEXRAW g s =
     (let res = ftell_end (snd s) mod 2 ^ 32; n = (if res = 2 ^ 32 - 1 then 0 else res) div 2 in
      case hex_lines g (line_buf g) (new_bytes g n) 0 (to_start (snd s)) of
        (None, f1) \<Rightarrow> (Crashes, fst s, f1)
      | (Some (b, cnt), f1) \<Rightarrow> (Ret 0, (fst s)\<lparr>blength := cnt, buffer := Some b\<rparr>, f1))"

section \<open>Intel MCS files\<close>

text \<open>The head of a record, \<open>":%2x%4x%2x"\<close>: count, address and type.\<close>

definition scan_head :: "byte list \<Rightarrow> (u32 \<times> u32 \<times> u32) option" where
  "scan_head s =
     (case s of
        [] \<Rightarrow> None
      | c # s1 \<Rightarrow>
          if c \<noteq> 0x3a then None
          else
            (case scan_hex 2 s1 of
               None \<Rightarrow> None
             | Some (cnt, s2) \<Rightarrow>
                 (case scan_hex 4 s2 of
                    None \<Rightarrow> None
                  | Some (addr, s3) \<Rightarrow>
                      (case scan_hex 2 s3 of None \<Rightarrow> None | Some (typ, _) \<Rightarrow> Some (cnt, addr, typ)))))"

text \<open>Data bytes from index \<open>k\<close> of the line: the new index, checksum, address and buffer.\<close>

fun mcs_data ::
  "uninit \<Rightarrow> nat \<Rightarrow> byte list \<Rightarrow> nat \<Rightarrow> byte \<Rightarrow> u32 \<Rightarrow> byte list \<Rightarrow> (nat \<times> byte \<times> u32 \<times> byte list) option"
where
  "mcs_data g 0 buf k cal addr b = Some (k, cal, addr, b)"
| "mcs_data g (Suc n) buf k cal addr b =
     (case scan_at 2 buf k (g ''value'' 0) of
        None \<Rightarrow> None
      | Some v \<Rightarrow>
          if length b \<le> unat addr then None
          else mcs_data g n buf (k + 2) (cal + ucast v) (addr + 1) (b[unat addr := ucast v]))"

text \<open>A record of type 3: its bytes are read and added to the checksum.\<close>

fun mcs_skip :: "nat \<Rightarrow> byte list \<Rightarrow> nat \<Rightarrow> byte \<Rightarrow> u32 \<Rightarrow> (nat \<times> byte) option" where
  "mcs_skip 0 buf k cal dummy = Some (k, cal)"
| "mcs_skip (Suc n) buf k cal dummy =
     (case scan_at 2 buf k dummy of
        None \<Rightarrow> None
      | Some v \<Rightarrow> mcs_skip n buf (k + 2) (cal + ucast v) v)"

definition low16 :: "u32 \<Rightarrow> u32" where "low16 a = a AND 0xffff"

text \<open>A record of type 2 or 4: the upper part of the address, shifted by \<open>n\<close>.\<close>

definition mcs_upper ::
  "uninit \<Rightarrow> nat \<Rightarrow> byte list \<Rightarrow> byte \<Rightarrow> u32 \<Rightarrow> (nat \<times> byte \<times> u32) option" where
  "mcs_upper g n buf cal addr =
     (case scan_at 4 buf 9 (g ''upper_address'' 0) of
        None \<Rightarrow> None
      | Some v \<Rightarrow>
          (let up = (ucast v :: u16) in
           Some (13, cal + ucast (drop_bit 8 up) + ucast up,
             if drop_bit n addr \<noteq> ucast up then low16 addr OR push_bit n (ucast up) else addr)))"

definition mcs_start :: "uninit \<Rightarrow> byte list \<Rightarrow> byte \<Rightarrow> (nat \<times> byte) option" where
  "mcs_start g buf cal =
     (case scan_at 8 buf 9 (g ''start_address'' 0) of
        None \<Rightarrow> None
      | Some v \<Rightarrow>
          Some (17, cal + ucast (drop_bit 24 v) + ucast (drop_bit 16 v) + ucast (drop_bit 8 v) + ucast v))"

text \<open>
  One record: \<open>Inl\<close> the value \<open>readMCSfile\<close> returns, or \<open>Inr\<close> the address and buffer to go on with.
  The address is part of the result in both cases, it becomes the length at the end record.
\<close>

definition mcs_body ::
  "uninit \<Rightarrow> byte list \<Rightarrow> u32 \<Rightarrow> byte \<Rightarrow> u32 \<Rightarrow> u32 \<Rightarrow> u32 \<Rightarrow> byte list
   \<Rightarrow> (nat \<times> byte \<times> u32 \<times> byte list) option"
where
  "mcs_body g buf cnt cal typ address full b =
     (if typ = 0 then
        mcs_data g (unat cnt) buf 9 cal
          (if low16 full \<noteq> address then (full AND 0xffff0000) OR address else full) b
      else if typ = 3 then
        map_option (\<lambda>(k, cal'). (k, cal', full, b)) (mcs_skip (unat cnt) buf 9 cal (g ''dummy'' 0))
      else if typ = 5 then map_option (\<lambda>(k, cal'). (k, cal', full, b)) (mcs_start g buf cal)
      else
        map_option (\<lambda>(k, cal', full'). (k, cal', full', b))
          (mcs_upper g (if typ = 2 then 4 else 16) buf cal full))"

definition mcs_record ::
  "uninit \<Rightarrow> byte list \<Rightarrow> u32 \<Rightarrow> byte list \<Rightarrow> (int option \<times> u32 \<times> byte list) option" where
  "mcs_record g buf full b =
     (case scan_head (cstr buf) of
        None \<Rightarrow> Some (Some 1, full, b)
      | Some (cnt, address, typ) \<Rightarrow>
          if typ = 1 then Some (Some 0, full, b)
          else if typ > 5 then Some (Some 2, full, b)
          else
            (case mcs_body g buf cnt
                    (ucast cnt + ucast (drop_bit 8 address) + ucast address + ucast typ) typ address full b of
               None \<Rightarrow> None
             | Some (k, cal, full', b') \<Rightarrow>
                 (case scan_at 2 buf k (g ''checksum'' 0) of
                    None \<Rightarrow> None
                  | Some c \<Rightarrow>
                      Some (if ucast c \<noteq> NOT cal + 1 then Some 3 else None, full', b'))))"

function mcs_lines ::
  "uninit \<Rightarrow> byte list \<Rightarrow> u32 \<Rightarrow> byte list \<Rightarrow> stdio_file \<Rightarrow> (int \<times> u32 \<times> byte list) option \<times> stdio_file"
where
  "mcs_lines g buf full b f =
     (case fgets LINE f of
        (None, f1) \<Rightarrow> (Some (4, full, b), f1)
      | (Some l, f1) \<Rightarrow>
          (let buf1 = overlay (l @ [0]) buf in
           case mcs_record g buf1 full b of
             None \<Rightarrow> (None, f1)
           | Some (Some r, full', b') \<Rightarrow> (Some (r, full', b'), f1)
           | Some (None, full', b') \<Rightarrow> mcs_lines g buf1 full' b' f1))"
  by pat_completeness auto
termination
  by (relation "measure (\<lambda>(g, buf, full, b, f). length (unread f))") (auto dest: fgets_progress [OF sym])

declare mcs_lines.simps [simp del]

definition readMCSfile :: "uninit \<Rightarrow> (bitfile \<times> stdio_file, int) act" where
  "readMCSfile g s =
     (let n = ftell_end (snd s) div 2 mod 2 ^ 32 in
      case mcs_lines g (line_buf g) 0 (new_bytes g n) (to_start (snd s)) of
        (None, f1) \<Rightarrow> (Crashes, fst s, f1)
      | (Some (r, full, b), f1) \<Rightarrow>
          (Ret r, (fst s)\<lparr>blength := (if r = 0 then unat full else n), buffer := Some b\<rparr>, f1))"

section \<open>Reading a file\<close>

text \<open>The bytes in the first \<open>length\<close> cells of the buffer are reversed; it may be shorter.\<close>

definition reverse_data :: "bitfile \<Rightarrow> bitfile outcome" where
  "reverse_data bf =
     (case buffer bf of
        None \<Rightarrow> if blength bf = 0 then Ret bf else Crashes
      | Some b \<Rightarrow>
          if length b < blength bf then Crashes
          else Ret (bf\<lparr>buffer := Some (map bitrev (take (blength bf) b) @ drop (blength bf) b)\<rparr>))"

definition readFile :: "uninit \<Rightarrow> FILE_STYLE \<Rightarrow> (bitfile \<times> stdio_file, int) act" where
  "readFile g style =
     (case style of
        STYLE_BIT \<Rightarrow> readBitfile g
      | STYLE_MCS \<Rightarrow>
          bind_act (readMCSfile g)
            (\<lambda>res s. if res = 0 then
               (case reverse_data (fst s) of
                  Ret bf \<Rightarrow> (Ret res, bf, snd s)
                | _ \<Rightarrow> (Crashes, s))
             else (Ret res, s))
      | STYLE_IHEX \<Rightarrow> readMCSfile g
      | STYLE_HEX_RAW \<Rightarrow> readHEXRAW g
      | STYLE_BIN \<Rightarrow> readBIN g True
      | STYLE_BPI \<Rightarrow> readBIN g False
      | _ \<Rightarrow> return_act 1)"

text \<open>\<open>readFile\<close> with a NULL file.\<close>

definition readFile_ptr ::
  "uninit \<Rightarrow> FILE_STYLE \<Rightarrow> stdio_file option \<Rightarrow> bitfile \<Rightarrow> int outcome \<times> bitfile" where
  "readFile_ptr g style fp bf =
     (case fp of
        None \<Rightarrow> (Ret 1, bf)
      | Some f \<Rightarrow> (case readFile g style (bf, f) of (r, bf', _) \<Rightarrow> (r, bf')))"

section \<open>Changing the data\<close>

definition be_bytes32 :: "u32 \<Rightarrow> byte list" where
  "be_bytes32 v =
     [ucast (drop_bit 24 v), ucast (drop_bit 16 v), ucast (drop_bit 8 v), ucast v]"

text \<open>The old data: the first \<open>length\<close> bytes of the buffer, \<open>None\<close> where there are fewer.\<close>

definition old_data :: "bitfile \<Rightarrow> byte list option" where
  "old_data bf =
     (case buffer bf of
        None \<Rightarrow> if blength bf = 0 then Some [] else None
      | Some b \<Rightarrow> if length b < blength bf then None else Some (take (blength bf) b))"

text \<open>
  \<open>append(val, cnt)\<close>; the new length is computed in 32 bits. When it wraps, the copy of the old data
  writes past the new buffer.
\<close>

definition append_word :: "u32 \<Rightarrow> nat \<Rightarrow> (bitfile, unit) act" where
  "append_word val cnt bf =
     (let nlen = (blength bf + 4 * cnt) mod 2 ^ 32 in
      case old_data bf of
        None \<Rightarrow> (Crashes, bf)
      | Some d \<Rightarrow>
          if nlen < blength bf then (Crashes, bf)
          else (Ret (), bf\<lparr>blength := nlen,
                  buffer := Some (d @ concat (replicate ((nlen - blength bf) div 4) (map bitrev (be_bytes32 val))))\<rparr>))"

text \<open>\<open>append(fname)\<close>: \<open>fs\<close> are the files that can be opened; \<open>stat\<close> gives the size of the content.\<close>

fun append_loop :: "uninit \<Rightarrow> nat \<Rightarrow> stdio_file \<Rightarrow> byte list option" where
  "append_loop g 0 f = Some []"
| "append_loop g (Suc n) f =
     (if at_eof f then None
      else
        (case fread_byte (ucast (g ''b'' n)) f of
           (b, f1) \<Rightarrow> map_option (\<lambda>bs. bitrev b # bs) (append_loop g n f1)))"

definition append_file :: "uninit \<Rightarrow> (string \<Rightarrow> byte list option) \<Rightarrow> string \<Rightarrow> (bitfile, unit) act" where
  "append_file g fs fname bf =
     (case fs fname of
        None \<Rightarrow> (Throws (''Cannot open file '' @ fname), bf)
      | Some content \<Rightarrow>
          (case old_data bf of
             None \<Rightarrow> (Crashes, bf)
           | Some d \<Rightarrow>
               (case append_loop g (length content) (open_file content) of
                  None \<Rightarrow> (Throws ''Unexpected end of file'', bf)
                | Some bs \<Rightarrow> (Ret (), bf\<lparr>blength := (blength bf + length content) mod 2 ^ 32,
                    buffer := Some (d @ bs)\<rparr>))))"

definition setLength :: "nat \<Rightarrow> bitfile \<Rightarrow> bitfile" where
  "setLength bits bf =
     (let n = bits div 8 + (if bits mod 8 \<noteq> 0 then 1 else 0) in
      bf\<lparr>blength := n, buffer := Some (replicate n 0xff)\<rparr>)"

definition set_bit_at :: "nat \<Rightarrow> bool \<Rightarrow> (bitfile, unit) act" where
  "set_bit_at idx blow bf =
     (if idx div 8 \<ge> blength bf then (Throws ''bit_set_fuse'', bf)
      else
        (case buffer bf of
           None \<Rightarrow> (Crashes, bf)
         | Some b \<Rightarrow>
             if length b \<le> idx div 8 then (Crashes, bf)
             else
               (let m = push_bit (idx mod 8) 1; v = b ! (idx div 8) in
                (Ret (), bf\<lparr>buffer := Some (b[idx div 8 := if blow then v OR m else v AND NOT m])\<rparr>))))"

definition get_bit_at :: "nat \<Rightarrow> bitfile \<Rightarrow> int outcome" where
  "get_bit_at idx bf =
     (if idx div 8 \<ge> blength bf then Ret 1
      else
        (case buffer bf of
           None \<Rightarrow> Crashes
         | Some b \<Rightarrow>
             if length b \<le> idx div 8 then Crashes
             else Ret (if (b ! (idx div 8)) AND push_bit (idx mod 8) 1 \<noteq> 0 then 1 else 0)))"

section \<open>Names of the styles\<close>

definition styleToString :: "FILE_STYLE \<Rightarrow> string option" where
  "styleToString style =
     (case style of
        STYLE_BIT \<Rightarrow> Some ''BIT'' | STYLE_BIN \<Rightarrow> Some ''BIN'' | STYLE_HEX \<Rightarrow> Some ''HEX''
      | STYLE_HEX_RAW \<Rightarrow> Some ''HEXRAW'' | STYLE_MCS \<Rightarrow> Some ''MCS'' | STYLE_IHEX \<Rightarrow> Some ''IHEX''
      | STYLE_JEDEC \<Rightarrow> Some ''JEDEC'' | STYLE_AUTO \<Rightarrow> Some ''AUTO'' | STYLE_BPI \<Rightarrow> None)"

definition upper_char :: "char \<Rightarrow> char" where
  "upper_char c = (if of_char c \<in> {97..122 :: nat} then char_of (of_char c - 32 :: nat) else c)"

text \<open>\<open>strncasecmp(s, t, n) == 0\<close> of two C strings.\<close>

definition strn_equal :: "nat \<Rightarrow> string \<Rightarrow> string \<Rightarrow> bool" where
  "strn_equal n s t \<longleftrightarrow>
     take n (map upper_char s @ [char_of (0 :: nat)]) = take n (map upper_char t @ [char_of (0 :: nat)])"

text \<open>The style \<open>styleFromString\<close> stores, and what it returns.\<close>

definition styleFromString :: "string \<Rightarrow> int \<times> FILE_STYLE option" where
  "styleFromString s =
     (let n = length (takeWhile (\<lambda>c. c \<noteq> CHR '':'') s) in
      if strn_equal n s ''BIT'' then (0, Some STYLE_BIT)
      else if strn_equal n s ''BIN'' then (0, Some STYLE_BIN)
      else if strn_equal n s ''BPI'' then (0, Some STYLE_BPI)
      else if strn_equal n s ''HEX'' then (0, Some STYLE_HEX)
      else if strn_equal n s ''HEXRAW'' then (0, Some STYLE_HEX_RAW)
      else if strn_equal n s ''MCS'' then (0, Some STYLE_MCS)
      else if strn_equal n s ''IHEX'' then (0, Some STYLE_IHEX)
      else if strn_equal n s ''JEDEC'' then (0, Some STYLE_JEDEC)
      else if strn_equal n s ''AUTO'' then (0, Some STYLE_AUTO)
      else (1, None))"

section \<open>Writing a file\<close>

definition text_bytes :: "string \<Rightarrow> byte list" where
  "text_bytes = map of_char"

text \<open>
  \<open>tm\<close> is what \<open>localtime\<close> and \<open>strftime\<close> give for the date and the time, \<open>None\<close> where they fail.
  The date is set where the time is missing: the code tests \<open>dtime\<close> for both.
\<close>

definition setNCDFields :: "(byte list \<times> byte list) option \<Rightarrow> byte list \<Rightarrow> bitfile \<Rightarrow> bitfile" where
  "setNCDFields tm device bf =
     (let bf1 = (if ncdFilename bf = [] then bf\<lparr>ncdFilename := text_bytes ''XC3SPROG'' @ [0]\<rparr> else bf);
          bf2 = (if partName bf1 = [] then bf1\<lparr>partName := device @ [0]\<rparr> else bf1) in
      case tm of
        None \<Rightarrow> bf2
      | Some (day, clock) \<Rightarrow>
          if dtime bf2 = [] then bf2\<lparr>date := day @ [0], dtime := clock @ [0]\<rparr> else bf2)"

text \<open>The sum of the bytes a text of hexadecimal digits stands for, and the checksum of a record.\<close>

fun hex_sum :: "byte list \<Rightarrow> byte" where
  "hex_sum (a # b # s) =
     (case scan_hex 2 (a # b # s) of None \<Rightarrow> 0 | Some (v, _) \<Rightarrow> ucast v + hex_sum s)"
| "hex_sum _ = 0"

definition bf_checksum :: "byte list \<Rightarrow> byte" where
  "bf_checksum s = (hex_sum s XOR 0xff) + 1"

text \<open>The index of the last byte other than \<open>0xff\<close>, from \<open>i\<close> down, and 0 if there is none.\<close>

fun clip_index :: "byte list \<Rightarrow> nat \<Rightarrow> nat" where
  "clip_index b 0 = 0"
| "clip_index b (Suc i) = (if b ! Suc i = 0xff then clip_index b i else Suc i)"

definition field_bytes :: "byte \<Rightarrow> byte list \<Rightarrow> byte list" where
  "field_bytes key v = key # be16 (of_nat (length v)) @ v"

definition bit_header :: "byte list" where
  "bit_header = [0x00, 0x09, 0x0f, 0xf0, 0x0f, 0xf0, 0x0f, 0xf0, 0x0f, 0xf0, 0x00, 0x00, 0x01]"

definition bit_file_head :: "bitfile \<Rightarrow> nat \<Rightarrow> byte list" where
  "bit_file_head bf clip =
     bit_header @ field_bytes 0x61 (ncdFilename bf) @ field_bytes 0x62 (partName bf) @
     field_bytes 0x63 (date bf) @ field_bytes 0x64 (dtime bf) @ 0x65 # be_bytes32 (of_nat clip)"

text \<open>The listing of \<open>STYLE_HEX\<close> and the lines of \<open>STYLE_HEX_RAW\<close>, for the byte at index \<open>i\<close>.\<close>

definition hex_item :: "nat \<Rightarrow> byte \<Rightarrow> byte list" where
  "hex_item i b =
     (if i mod 16 = 0 then pad7 (decimal i) @ text_bytes '':  '' else []) @ hex2 False b @ [0x20] @
     (if i mod 16 = 7 then [0x20] else []) @ (if i mod 16 = 15 then [0x0a] else [])"

definition hexraw_item :: "nat \<Rightarrow> byte \<Rightarrow> byte list" where
  "hexraw_item i b = hex2 False b @ (if i mod 4 = 3 then [0x0a] else [])"

definition indexed :: "(nat \<Rightarrow> byte \<Rightarrow> byte list) \<Rightarrow> byte list \<Rightarrow> byte list" where
  "indexed item d = concat (map (\<lambda>i. item i (d ! i)) [0..<length d])"

text \<open>A record of an MCS file, from its hexadecimal digits.\<close>

definition mcs_line :: "byte list \<Rightarrow> byte list" where
  "mcs_line s = 0x3a # s @ hex2 True (bf_checksum s) @ [0x0d, 0x0a]"

text \<open>
  The loop of the MCS writer at byte \<open>i\<close> of \<open>d\<close>, with the digits \<open>s\<close> of the record begun and the
  \<open>base\<close> of the last extended address record.
\<close>

definition mcs_base_line :: "nat \<Rightarrow> byte list" where
  "mcs_base_line base = mcs_line (text_bytes ''02000004'' @ hex4 True (of_nat base))"

function mcs_write :: "byte list \<Rightarrow> nat \<Rightarrow> nat option \<Rightarrow> byte list \<Rightarrow> byte list" where
  "mcs_write d i base s =
     (if i < length d then
        (let clip = length d; up = i div 2 ^ 16;
             s1 = (if i mod 16 = 0 then
                     (if clip - i < 15 then hex2 True (of_nat (clip - i)) else text_bytes ''10'') @
                     hex4 True (of_nat i) @ text_bytes ''00''
                   else s) @ hex2 True (d ! i) in
         (if base \<noteq> Some up then mcs_base_line up else []) @
         (if i mod 16 = 15 \<or> i = clip - 1 then mcs_line s1 else []) @
         mcs_write d (i + 1) (Some up) s1)
      else [])"
  by pat_completeness auto
termination by (relation "measure (\<lambda>(d, i, _). length d - i)") auto

declare mcs_write.simps [simp del]

definition mcs_file :: "byte list \<Rightarrow> byte list" where
  "mcs_file d = mcs_write d 0 None [] @ mcs_line (text_bytes ''00000001'')"

text \<open>What is written for the data \<open>d\<close>, without the head of a bit file.\<close>

definition file_body :: "FILE_STYLE \<Rightarrow> byte list \<Rightarrow> byte list" where
  "file_body style d =
     (case style of
        STYLE_BIT \<Rightarrow> map bitrev d
      | STYLE_BIN \<Rightarrow> map bitrev d
      | STYLE_BPI \<Rightarrow> d
      | STYLE_HEX \<Rightarrow> indexed hex_item (map bitrev d)
      | STYLE_HEX_RAW \<Rightarrow>
          indexed hexraw_item (map bitrev d) @ (if length d mod 4 \<noteq> 3 then [0x0a] else [])
      | STYLE_MCS \<Rightarrow> mcs_file (map bitrev d)
      | STYLE_IHEX \<Rightarrow> mcs_file d
      | _ \<Rightarrow> [])"

text \<open>
  \<open>saveAs\<close>: the number of bytes saved and the bytes written. With \<open>rlength\<close> set, that many are
  saved, whether or not the buffer has them.
\<close>

definition saved_bytes :: "bitfile \<Rightarrow> byte list \<Rightarrow> nat" where
  "saved_bytes bf b = (if rlength bf \<noteq> 0 then rlength bf else clip_index b (blength bf - 1) + 1)"

definition saveAs ::
  "(byte list \<times> byte list) option \<Rightarrow> FILE_STYLE \<Rightarrow> byte list \<Rightarrow> (bitfile, nat \<times> byte list) act"
where
  "saveAs tm style device bf =
     (if blength bf = 0 then (Ret (0, []), bf)
      else
        (let bf1 = setNCDFields tm device bf in
         case buffer bf1 of
           None \<Rightarrow> (Crashes, bf1)
         | Some b \<Rightarrow>
             (let clip = saved_bytes bf1 b in
              if length b < blength bf1 \<or> (style \<notin> {STYLE_JEDEC, STYLE_AUTO} \<and> length b < clip) then (Crashes, bf1)
              else
                (Ret (clip, (if style = STYLE_BIT then bit_file_head bf1 clip else []) @
                       file_body style (take clip b)), bf1))))"

end
