(* ===== verification/Bitfile_Props.thy ===== *)
theory Bitfile_Props
  imports Bitfile
begin

unbundle bit_operations_syntax

text \<open>
  What reading and writing bit stream files comes to: which files are accepted as bit files, and
  that the files written are read back.
\<close>

section \<open>Big-endian numbers\<close>

lemma from_be_Nil [simp]: "from_be [] = 0"
  by (simp add: from_be_def)

lemma from_be_snoc: "from_be (bs @ [b]) = 256 * from_be bs + unat b"
  by (simp add: from_be_def)

lemma from_be_append: "from_be (as @ bs) = from_be as * 256 ^ length bs + from_be bs"
proof (induction bs rule: rev_induct)
  case (snoc b bs)
  have "from_be (as @ bs @ [b]) = 256 * from_be (as @ bs) + unat b"
    using from_be_snoc [of "as @ bs" b] by simp
  then show ?case using snoc by (simp add: from_be_snoc algebra_simps)
qed simp

lemma from_be_less: "from_be bs < 256 ^ length bs"
proof (induction bs rule: rev_induct)
  case (snoc b bs)
  then show ?case using byte_less [of b] by (simp add: from_be_snoc)
qed simp

lemma from_be_inject: "length as = length bs \<Longrightarrow> from_be as = from_be bs \<Longrightarrow> as = bs"
proof (induction as arbitrary: bs rule: rev_induct)
  case (snoc a as)
  then obtain b cs where bs: "bs = cs @ [b]" by (cases bs rule: rev_cases) auto
  then have eq: "256 * from_be as + unat a = 256 * from_be cs + unat b"
    using snoc.prems(2) by (simp add: from_be_snoc)
  have lt: "unat a < 256" "unat b < 256" by (rule byte_less)+
  have "a' = b' \<and> x = y" if "256 * x + a' = 256 * y + b'" "a' < 256" "b' < 256" for a' b' x y :: nat
  proof -
    have "(256 * x + a') mod 256 = (256 * y + b') mod 256" "(256 * x + a') div 256 = (256 * y + b') div 256"
      using that(1) by simp_all
    then show ?thesis using that(2,3) by simp
  qed
  from this [OF eq lt] have "unat a = unat b" and "from_be as = from_be cs" by simp_all
  then show ?case using snoc.IH [of cs] snoc.prems(1) bs by (simp add: word_unat_eq_iff)
qed simp

lemma from_be_be16 [simp]: "from_be (be16 v) = unat v"
  using u16_bytes [of v] by (simp add: from_be_def be16_def mult.commute)

lemma be_bytes32_split:
  "be_bytes32 v = be16 (ucast (drop_bit 16 v)) @ be16 (ucast v)"
  by (auto simp: be_bytes32_def be16_def intro!: bit_word_eqI simp: bit_simps)

lemma u32_less: "unat (v :: u32) < 4294967296"
  using unsigned_less [of v] by simp

lemma from_be_be_bytes32 [simp]: "from_be (be_bytes32 v) = unat v"
proof -
  have "unat (ucast v :: u16) = unat v mod 65536"
    by (simp add: unsigned_ucast_eq take_bit_eq_mod)
  moreover have "unat (drop_bit 16 v) < 65536"
    using u32_less [of v] by (simp add: drop_bit_eq_div unat_div less_mult_imp_div_less)
  then have "unat (ucast (drop_bit 16 v) :: u16) = unat v div 65536"
    by (simp add: unsigned_ucast_eq take_bit_eq_mod drop_bit_eq_div unat_div)
  ultimately show ?thesis by (simp add: be_bytes32_split from_be_append)
qed

lemma length_be_bytes32 [simp]: "length (be_bytes32 v) = 4"
  by (simp add: be_bytes32_def)

section \<open>Reading parts of a file\<close>

lemma fread_whole: "unread f = d @ s \<Longrightarrow> length d = n \<Longrightarrow> fread n f = (d, f\<lparr>unread := s\<rparr>)"
  by (simp add: fread_def)

lemma fread_byte_Cons: "unread f = c # s \<Longrightarrow> fread_byte b f = (c, f\<lparr>unread := s\<rparr>)"
  by (simp add: fread_byte_def fread_def)

lemma field_loop_whole:
  "unread f = v @ s \<Longrightarrow> length v = n \<Longrightarrow> field_loop g n f = (v, f\<lparr>unread := s\<rparr>)"
proof (induction n arbitrary: v f)
  case (Suc n)
  then obtain c w where v: "v = c # w" by (cases v) auto
  with Suc.prems have "fread_byte (ucast (g ''b'' n)) f = (c, f\<lparr>unread := w @ s\<rparr>)"
    by (simp add: fread_byte_Cons)
  moreover have "field_loop g n (f\<lparr>unread := w @ s\<rparr>) = (w, f\<lparr>unread := w @ s, unread := s\<rparr>)"
    using Suc.prems v by (intro Suc.IH) simp_all
  ultimately show ?case by (simp add: v)
qed simp

lemma readField_whole:
  assumes "unread f = be16 (of_nat (length v)) @ v @ s" and "length v < 2 ^ 16"
  shows "readField g f = (v, f\<lparr>unread := s\<rparr>)"
proof -
  have "fread 2 f = (be16 (of_nat (length v)), f\<lparr>unread := v @ s\<rparr>)"
    using assms(1) by (intro fread_whole) simp_all
  moreover have "overlay (be16 (of_nat (length v))) (stack_bytes g ''t'' 2) = be16 (of_nat (length v))"
    by (simp add: overlay_def)
  moreover have "unat (of_nat (length v) :: u16) = length v"
    using assms(2) by (intro of_nat_inverse [OF refl]) simp
  ultimately show ?thesis
    using field_loop_whole [of "f\<lparr>unread := v @ s\<rparr>" v s "length v" g] by (simp add: readField_def)
qed

lemma data_loop_whole:
  "unread f = d @ s \<Longrightarrow> length d = n \<Longrightarrow> \<not> at_eof f \<Longrightarrow>
   data_loop g n f = (map bitrev d, f\<lparr>unread := s\<rparr>)"
proof (induction n arbitrary: d f)
  case (Suc n)
  then obtain c w where d: "d = c # w" by (cases d) auto
  with Suc.prems have "fread_byte (ucast (g ''b'' n)) f = (c, f\<lparr>unread := w @ s\<rparr>)"
    by (simp add: fread_byte_Cons)
  moreover have "data_loop g n (f\<lparr>unread := w @ s\<rparr>) = (map bitrev w, f\<lparr>unread := w @ s, unread := s\<rparr>)"
    using Suc.prems d by (intro Suc.IH) simp_all
  ultimately show ?case using Suc.prems(3) by (simp add: d)
qed simp

lemma field_loop_all:
  "field_loop g n f = (v, f') \<Longrightarrow> \<not> at_eof f' \<Longrightarrow> unread f = v @ unread f' \<and> length v = n \<and> \<not> at_eof f"
proof (induction n arbitrary: v f)
  case (Suc n)
  obtain b f1 where 1: "fread_byte (ucast (g ''b'' n)) f = (b, f1)" by (metis prod.exhaust)
  obtain w where 2: "field_loop g n f1 = (w, f')" "v = b # w"
    using Suc.prems(1) 1 by (auto split: prod.splits)
  from Suc.IH [OF 2(1) Suc.prems(2)] have f1: "unread f1 = w @ unread f'" "length w = n" "\<not> at_eof f1" by auto
  then show ?case using 1 2(2) by (cases "unread f") (auto simp: fread_byte_def fread_def)
qed simp

lemma data_loop_all:
  "data_loop g n f = (v, f') \<Longrightarrow> \<not> at_eof f' \<Longrightarrow>
   unread f = map bitrev v @ unread f' \<and> length v = n \<and> \<not> at_eof f"
proof (induction n arbitrary: v f)
  case (Suc n)
  obtain b f1 where 1: "fread_byte (ucast (g ''b'' n)) f = (b, f1)" by (metis prod.exhaust)
  show ?case
  proof (cases "at_eof f")
    case False
    obtain w where 2: "data_loop g n f1 = (w, f')" "v = bitrev b # w"
      using Suc.prems(1) 1 False by (auto split: prod.splits)
    from Suc.IH [OF 2(1) Suc.prems(2)] have "unread f1 = map bitrev w @ unread f'" "length w = n" "\<not> at_eof f1"
      by auto
    then show ?thesis using 1 2(2) by (cases "unread f") (auto simp: fread_byte_def fread_def)
  qed (use Suc.prems in simp)
qed simp

lemma fread_all:
  "fread n f = (d, f') \<Longrightarrow> \<not> at_eof f' \<Longrightarrow> unread f = d @ unread f' \<and> length d = n \<and> \<not> at_eof f"
  by (auto simp: fread_def)

lemma readField_all:
  assumes "readField g f = (v, f')" and "\<not> at_eof f'"
  shows "unread f = be16 (of_nat (length v)) @ v @ unread f' \<and> length v < 2 ^ 16 \<and> \<not> at_eof f"
proof -
  obtain t f1 where 1: "fread 2 f = (t, f1)" by (metis prod.exhaust)
  then have 2: "field_loop g (from_be (overlay t (stack_bytes g ''t'' 2))) f1 = (v, f')"
    using assms(1) by (simp add: readField_def)
  note v = field_loop_all [OF 2 assms(2)]
  with fread_all [OF 1] have t: "unread f = t @ unread f1" "length t = 2" "\<not> at_eof f" by auto
  then obtain a b where ab: "t = [a, b]" by (auto simp: length_Suc_conv numeral_2_eq_2)
  then have "be16 (from_be16 a b) = t" by simp
  moreover have "overlay t (stack_bytes g ''t'' 2) = t" using t(2) by (simp add: overlay_def)
  ultimately have "length v = unat (from_be16 a b)"
    using v from_be_be16 [of "from_be16 a b"] by simp
  then have "be16 (of_nat (length v)) = t" and "length v < 2 ^ 16"
    using \<open>be16 (from_be16 a b) = t\<close> u16_less [of "from_be16 a b"] by simp_all
  with t v show ?thesis by simp
qed
section \<open>Bit files\<close>

text \<open>
  The format: 13 bytes of header, fields of a key and a text with its length, and the data with its
  length after the key \<open>e\<close>. Anything may follow.
\<close>

definition field_ok :: "byte \<times> byte list \<Rightarrow> bool" where
  "field_ok kv \<longleftrightarrow> fst kv \<noteq> 0x65 \<and> length (snd kv) < 2 ^ 16"

definition bit_tail :: "(byte \<times> byte list) list \<Rightarrow> byte list \<Rightarrow> byte list \<Rightarrow> byte list" where
  "bit_tail fls d s =
     concat (map (\<lambda>(k, v). field_bytes k v) fls) @ 0x65 # be_bytes32 (of_nat (length d)) @ d @ s"

definition is_bit_file ::
  "byte list \<Rightarrow> (byte \<times> byte list) list \<Rightarrow> byte list \<Rightarrow> byte list \<Rightarrow> bool" where
  "is_bit_file content fls d s \<longleftrightarrow>
     (\<exists>hdr. length hdr = 13 \<and> content = hdr @ bit_tail fls d s) \<and>
     list_all field_ok fls \<and> length d < 2 ^ 32"

definition add_fields :: "(byte \<times> byte list) list \<Rightarrow> bitfile \<Rightarrow> bitfile" where
  "add_fields fls bf = fold (\<lambda>(k, v). add_field k v) fls bf"

text \<open>What reading makes of the data \<open>d\<close>, with \<open>s\<close> after it.\<close>

definition with_data :: "byte list \<Rightarrow> byte list \<Rightarrow> bitfile \<Rightarrow> bitfile" where
  "with_data d s bf =
     (let bf1 = bf\<lparr>blength := length d, buffer := Some (map bitrev d)\<rparr> in
      if s = [] then bf1 else bf_error ''Ignoring extra data at end of file'' bf1)"

lemma processData_whole:
  assumes "unread f = be_bytes32 (of_nat (length d)) @ d @ s" and "\<not> at_eof f" and "length d < 2 ^ 32"
  shows "\<exists>f'. processData g (bf, f) = (Ret (), with_data d s bf, f')"
proof -
  let ?t = "be_bytes32 (of_nat (length d))"
  have 1: "fread 4 f = (?t, f\<lparr>unread := d @ s\<rparr>)" using assms(1) by (intro fread_whole) simp_all
  have "unat (of_nat (length d) :: u32) = length d"
    using assms(3) by (intro of_nat_inverse [OF refl]) simp
  moreover have "overlay ?t xs = ?t" if "length xs = 4" for xs using that by (simp add: overlay_def)
  ultimately have n: "from_be (overlay ?t (stack_bytes g ''t'' 4)) = length d" by simp
  have 2: "data_loop g (length d) (f\<lparr>unread := d @ s\<rparr>) = (map bitrev d, f\<lparr>unread := d @ s, unread := s\<rparr>)"
    using assms(2) by (intro data_loop_whole) simp_all
  have "overlay (map bitrev d) (new_bytes g (length d)) = map bitrev d" by (simp add: overlay_def)
  then show ?thesis
    using assms(2) by (simp add: processData_def 1 n 2 Let_def) (cases s; simp add: fread_def with_data_def Let_def n)
qed

lemma bit_loop_whole:
  "unread f = bit_tail fls d s \<Longrightarrow> \<not> at_eof f \<Longrightarrow> list_all field_ok fls \<Longrightarrow> length d < 2 ^ 32 \<Longrightarrow>
   \<exists>f'. bit_loop g key (bf, f) = (Ret 0, with_data d s (add_fields fls bf), f')"
proof (induction fls arbitrary: key bf f)
  case Nil
  let ?f1 = "f\<lparr>unread := be_bytes32 (of_nat (length d)) @ d @ s\<rparr>"
  have 1: "fread_byte key f = (0x65, ?f1)"
    using Nil.prems(1) by (intro fread_byte_Cons) (simp add: bit_tail_def)
  obtain f' where "processData g (bf, ?f1) = (Ret (), with_data d s bf, f')"
    using processData_whole [of ?f1 d s g bf] Nil.prems by auto
  then show ?case
    using Nil.prems(2) 1 by (subst bit_loop.simps) (simp add: then_act_Ret return_act_def add_fields_def)
next
  case (Cons kv fls)
  obtain k v where kv: "kv = (k, v)" by (cases kv)
  then have k: "k \<noteq> 0x65" and v: "length v < 2 ^ 16" using Cons.prems(3) by (simp_all add: field_ok_def)
  let ?f1 = "f\<lparr>unread := be16 (of_nat (length v)) @ v @ bit_tail fls d s\<rparr>"
  let ?f2 = "?f1\<lparr>unread := bit_tail fls d s\<rparr>"
  have 1: "fread_byte key f = (k, ?f1)"
    using Cons.prems(1) by (intro fread_byte_Cons) (simp add: bit_tail_def kv field_bytes_def)
  have 2: "readField g ?f1 = (v, ?f2)" using v by (intro readField_whole) simp_all
  obtain f' where "bit_loop g k (add_field k v bf, ?f2) =
      (Ret 0, with_data d s (add_fields fls (add_field k v bf)), f')"
    using Cons.IH [of ?f2 k "add_field k v bf"] Cons.prems by auto
  then show ?case
    using Cons.prems(2) 1 2 k by (subst bit_loop.simps) (simp add: kv add_fields_def)
qed

text \<open>And nothing else is accepted.\<close>

lemma processData_all:
  assumes "processData g (bf, f) = (r, s')"
  shows "(\<exists>e. r = Throws e) \<or>
    (\<exists>d s. r = Ret () \<and> unread f = be_bytes32 (of_nat (length d)) @ d @ s \<and> length d < 2 ^ 32 \<and> \<not> at_eof f)"
proof -
  obtain t f1 where 1: "fread 4 f = (t, f1)" by (metis prod.exhaust)
  let ?n = "from_be (overlay t (stack_bytes g ''t'' 4))"
  obtain bs f2 where 2: "data_loop g ?n f1 = (bs, f2)" by (metis prod.exhaust)
  show ?thesis
  proof (cases "at_eof f2")
    case True
    then show ?thesis using assms 1 2 by (auto simp: processData_def Let_def)
  next
    case False
    note d = data_loop_all [OF 2 False]
    with fread_all [OF 1] have t: "unread f = t @ unread f1" "length t = 4" "\<not> at_eof f" by auto
    then have "overlay t xs = t" if "length xs = 4" for xs using that by (simp add: overlay_def)
    then have n: "length bs = from_be t" using d by simp
    have lt: "length bs < 2 ^ 32" using n from_be_less [of t] t(2) by simp
    then have "unat (of_nat (length bs) :: u32) = from_be t"
      using n by (subst of_nat_inverse [OF refl]) simp_all
    then have tv: "t = be_bytes32 (of_nat (length bs))"
      using t(2) by (intro from_be_inject) simp_all
    have "unread f = be_bytes32 (of_nat (length (map bitrev bs))) @ map bitrev bs @ unread f2"
      using t(1) conjunct1 [OF d] by (simp flip: tv)
    moreover have "r = Ret ()" using assms 1 2 False by (auto simp: processData_def Let_def split: prod.splits)
    ultimately show ?thesis
      using lt t(3) by (intro disjI2 exI [of _ "map bitrev bs"] exI [of _ "unread f2"]) simp
  qed
qed

lemma bit_loop_all:
  "bit_loop g key (bf, f) = (r, s') \<Longrightarrow>
   (\<exists>e. r = Throws e) \<or>
   (\<exists>fls d s. r = Ret 0 \<and> unread f = bit_tail fls d s \<and> list_all field_ok fls \<and> length d < 2 ^ 32 \<and>
      \<not> at_eof f)"
proof (induction g key "(bf, f)" arbitrary: bf f rule: bit_loop.induct)
  case (1 g key bf f)
  obtain k f1 where k: "fread_byte key f = (k, f1)" by (metis prod.exhaust)
  show ?case
  proof (cases "at_eof f")
    case True
    then show ?thesis using "1.prems" by (subst (asm) bit_loop.simps) auto
  next
    case False
    have f1: "\<not> at_eof f1 \<Longrightarrow> unread f = k # unread f1"
      using k False by (cases "unread f") (auto simp: fread_byte_def fread_def)
    show ?thesis
    proof (cases "k = 0x65")
      case True
      then have run: "then_act (processData g) (return_act 0) (bf, f1) = (r, s')"
        using "1.prems" False k by (subst (asm) bit_loop.simps) simp
      obtain r1 s1 where p: "processData g (bf, f1) = (r1, s1)" by (metis prod.exhaust)
      from processData_all [OF p] show ?thesis
      proof (elim disjE exE conjE)
        fix e assume "r1 = Throws e"
        then show ?thesis using run p by (auto simp: then_act_def bind_act_def)
      next
        fix d s
        assume d: "r1 = Ret ()" "unread f1 = be_bytes32 (of_nat (length d)) @ d @ s" "length d < 2 ^ 32" "\<not> at_eof f1"
        then have "unread f = bit_tail [] d s" using f1 True by (simp add: bit_tail_def)
        then show ?thesis using d run p False
          by (intro disjI2 exI [of _ "[]"] exI [of _ d] exI [of _ s]) (auto simp: then_act_Ret return_act_def)
      qed
    next
      case ne: False
      obtain v f2 where v: "readField g f1 = (v, f2)" by (metis prod.exhaust)
      have "bit_loop g k (add_field k v bf, f2) = (r, s')"
        using "1.prems" False ne k v by (subst (asm) bit_loop.simps) simp
      from "1.hyps" [of k f1 v f2] this False ne v k
      have "(\<exists>e. r = Throws e) \<or> (\<exists>fls d s. r = Ret 0 \<and> unread f2 = bit_tail fls d s \<and>
          list_all field_ok fls \<and> length d < 2 ^ 32 \<and> \<not> at_eof f2)"
        by auto
      then show ?thesis
      proof (elim disjE exE conjE)
        fix e assume "r = Throws e" then show ?thesis by blast
      next
        fix fls d s
        assume d: "r = Ret 0" "unread f2 = bit_tail fls d s" "list_all field_ok fls" "length d < 2 ^ 32"
          and e2: "\<not> at_eof f2"
        note v2 = readField_all [OF v e2]
        then have "unread f = bit_tail ((k, v) # fls) d s"
          using f1 d(2) by (simp add: bit_tail_def field_bytes_def)
        moreover have "list_all field_ok ((k, v) # fls)" using d(3) ne v2 by (simp add: field_ok_def)
        ultimately show ?thesis using d False by blast
      qed
    qed
  qed
qed

lemma readBitfile_whole:
  assumes "is_bit_file content fls d s"
  shows "\<exists>f'. readBitfile g (bf, open_file content) = (Ret 0, with_data d s (add_fields fls bf), f')"
proof -
  from assms obtain hdr where hdr: "length hdr = 13" "content = hdr @ bit_tail fls d s"
    and ok: "list_all field_ok fls" "length d < 2 ^ 32"
    by (auto simp: is_bit_file_def)
  then have "fread 13 (open_file content) = (hdr, (open_file content)\<lparr>unread := bit_tail fls d s\<rparr>)"
    by (intro fread_whole) (simp_all add: open_file_def)
  moreover obtain f' where "bit_loop g (ucast (g ''key'' 0)) (bf, (open_file content)\<lparr>unread := bit_tail fls d s\<rparr>) =
      (Ret 0, with_data d s (add_fields fls bf), f')"
    using bit_loop_whole [of "(open_file content)\<lparr>unread := bit_tail fls d s\<rparr>" fls d s g] ok
    by (auto simp: open_file_def)
  ultimately show ?thesis by (simp add: readBitfile_def)
qed

lemma readBitfile_all:
  assumes "readBitfile g (bf, open_file content) = (r, s')"
  shows "r = Ret 2 \<or> (r = Ret 0 \<and> (\<exists>fls d s. is_bit_file content fls d s))"
proof -
  obtain hdr f1 where 1: "fread 13 (open_file content) = (hdr, f1)" by (metis prod.exhaust)
  obtain r1 s1 where 2: "bit_loop g (ucast (g ''key'' 0)) (bf, f1) = (r1, s1)" by (metis prod.exhaust)
  from bit_loop_all [OF 2] show ?thesis
  proof (elim disjE exE conjE)
    fix e assume "r1 = Throws e"
    then show ?thesis using assms 1 2 by (auto simp: readBitfile_def)
  next
    fix fls d s
    assume d: "r1 = Ret 0" "unread f1 = bit_tail fls d s" "list_all field_ok fls" "length d < 2 ^ 32" "\<not> at_eof f1"
    from fread_all [OF 1 d(5)] have "content = hdr @ bit_tail fls d s" "length hdr = 13"
      using d(2) by (simp_all add: open_file_def)
    then have "is_bit_file content fls d s" using d by (auto simp: is_bit_file_def)
    then show ?thesis using assms 1 2 d(1) by (auto simp: readBitfile_def)
  qed
qed

section \<open>Properties\<close>

text \<open>C28: Which bit files are accepted. Reading any content as a bit file ends, with 0 or 2, whatever
  uninitialised memory holds; it ends with 0 exactly when the content is 13 bytes of header, fields
  of a key other than \<open>e\<close> and a text preceded by its length, the key \<open>e\<close>, and data preceded by its
  length, with anything after it. Then the texts of the known keys were appended to their fields,
  and the buffer holds the data with the bits of each byte reversed.\<close>

theorem bitfile_accepted:
  assumes "readBitfile g (bf, open_file content) = (r, bf', f')"
  shows "(r = Ret 0 \<or> r = Ret 2) \<and> (r = Ret 0 \<longleftrightarrow> (\<exists>fls d s. is_bit_file content fls d s)) \<and>
    (\<forall>fls d s. is_bit_file content fls d s \<longrightarrow> bf' = with_data d s (add_fields fls bf))"
proof -
  have "bf' = with_data d s (add_fields fls bf) \<and> r = Ret 0" if "is_bit_file content fls d s" for fls d s
    using readBitfile_whole [OF that, of g bf] assms by simp
  then show ?thesis using readBitfile_all [OF assms] by force
qed

definition sample_bit_file :: "byte list" where
  "sample_bit_file = bit_header @ field_bytes 0x62 [0x36, 0x73] @ 0x65 # be_bytes32 2 @ [0x80, 0x03]"

lemma sample_bit_file_ok: "is_bit_file sample_bit_file [(0x62, [0x36, 0x73])] [0x80, 0x03] []"
  by (auto simp: is_bit_file_def sample_bit_file_def bit_tail_def bit_header_def field_ok_def
      intro!: exI [of _ bit_header])

theorem bitfile_accepted_witness:
  "\<exists>bf f. readBitfile (\<lambda>_ _. 0) (BitFile_new, open_file sample_bit_file) = (Ret 0, bf, f) \<and>
     buffer bf = Some [0x01, 0xc0] \<and> partName bf = [0x36, 0x73]"
proof -
  obtain r bf f where run: "readBitfile (\<lambda>_ _. 0) (BitFile_new, open_file sample_bit_file) = (r, bf, f)"
    by (metis prod.exhaust)
  have "bitrev 0x80 = 0x01" "bitrev 0x03 = 0xc0" by (simp_all add: bitrev_flip flip_nat_def)
  with bitfile_accepted [OF run] sample_bit_file_ok run show ?thesis
    by (auto simp: with_data_def add_fields_def add_field_def BitFile_new_def)
qed

lemma clip_index_le: "clip_index b i \<le> i"
  by (induction i) auto

lemma clip_index_ones: "clip_index b i < j \<Longrightarrow> j \<le> i \<Longrightarrow> b ! j = 0xff"
  by (induction i) (auto simp: le_Suc_eq split: if_splits)

lemma clip_index_numeral [simp]:
  "clip_index b (numeral k) =
     (if b ! numeral k = 0xff then clip_index b (pred_numeral k) else numeral k)"
  by (simp add: numeral_eq_Suc)

text \<open>The four texts of a file, and the keys they are stored under.\<close>

definition text_fields :: "bitfile \<Rightarrow> (byte \<times> byte list) list" where
  "text_fields bf = [(0x61, ncdFilename bf), (0x62, partName bf), (0x63, date bf), (0x64, dtime bf)]"

lemma add_text_fields:
  "add_fields (text_fields bf) BitFile_new =
     BitFile_new\<lparr>ncdFilename := ncdFilename bf, partName := partName bf, date := date bf, dtime := dtime bf\<rparr>"
  by (simp add: add_fields_def text_fields_def add_field_def BitFile_new_def)

lemma bit_file_head_tail:
  "n = length d \<Longrightarrow> bit_file_head bf n @ d = bit_header @ bit_tail (text_fields bf) d []"
  by (simp add: bit_file_head_def bit_tail_def text_fields_def)

text \<open>C29: Saving as a bit file and reading it back. Whatever data was saved, of any length below
  \<open>2 ^ 32\<close> and with texts of less than 64 KiB, reading the bytes written into a new object returns 0
  and gives the texts, which \<open>saveAs\<close> filled in where they were missing, and the data; what was not
  saved are bytes \<open>0xff\<close> at the end, unless an explicit length was asked for.\<close>

theorem bit_file_roundtrip:
  assumes "saveAs tm STYLE_BIT device bf = (Ret (n, out), bf1)" and "0 < blength bf" and "n < 2 ^ 32"
    and "list_all (\<lambda>kv. length (snd kv) < 2 ^ 16) (text_fields bf1)"
  shows "\<exists>b bf2 f. buffer bf = Some b \<and> readBitfile g (BitFile_new, open_file out) = (Ret 0, bf2, f) \<and>
    text_fields bf2 = text_fields bf1 \<and> blength bf2 = n \<and> buffer bf2 = Some (take n b) \<and> \<not> bError bf2 \<and>
    n \<le> length b \<and> (rlength bf = 0 \<longrightarrow> n \<le> blength bf \<and> (\<forall>i. n \<le> i \<longrightarrow> i < blength bf \<longrightarrow> b ! i = 0xff))"
proof -
  have keep: "buffer (setNCDFields tm device bf) = buffer bf" "blength (setNCDFields tm device bf) = blength bf"
      "rlength (setNCDFields tm device bf) = rlength bf"
    by (simp_all add: setNCDFields_def Let_def split: option.split)
  obtain b where b: "buffer bf = Some b" and bf1: "bf1 = setNCDFields tm device bf"
      and n: "n = saved_bytes bf b" and le: "n \<le> length b"
      and out: "out = bit_file_head bf1 n @ map bitrev (take n b)"
    using assms(1,2) keep
    by (auto simp: saveAs_def Let_def saved_bytes_def file_body_def split: option.splits if_splits)
  have len: "n = length (map bitrev (take n b))" using le by simp
  have "is_bit_file out (text_fields bf1) (map bitrev (take n b)) []"
    using assms(3,4) le bit_file_head_tail [OF len, of bf1] unfolding out
    by (auto simp: is_bit_file_def bit_header_def text_fields_def field_ok_def)
  from readBitfile_whole [OF this, of g BitFile_new] obtain f where
    run: "readBitfile g (BitFile_new, open_file out) =
      (Ret 0, with_data (map bitrev (take n b)) [] (add_fields (text_fields bf1) BitFile_new), f)" by blast
  have "n \<le> blength bf \<and> (\<forall>i. n \<le> i \<longrightarrow> i < blength bf \<longrightarrow> b ! i = 0xff)" if "rlength bf = 0"
    using that assms(2) clip_index_le [of b "blength bf - 1"] clip_index_ones [of b "blength bf - 1"]
    by (auto simp: n saved_bytes_def)
  then show ?thesis
    using b run le
    by (simp add: with_data_def add_text_fields) (simp add: text_fields_def BitFile_new_def min_absorb2 comp_def)
qed

definition sample_bitfile :: bitfile where
  "sample_bitfile = BitFile_new\<lparr>partName := [0x36, 0x73], blength := 4, buffer := Some [0x12, 0xff, 0x34, 0xff]\<rparr>"

theorem bit_file_roundtrip_witness:
  "\<exists>out bf1 bf2 f. saveAs (Some ([0x31], [0x32])) STYLE_BIT [] sample_bitfile = (Ret (3, out), bf1) \<and>
     readBitfile (\<lambda>_ _. 0) (BitFile_new, open_file out) = (Ret 0, bf2, f) \<and>
     buffer bf2 = Some [0x12, 0xff, 0x34] \<and> partName bf2 = [0x36, 0x73] \<and> date bf2 = [0x31, 0]"
proof -
  let ?bf1 = "setNCDFields (Some ([0x31], [0x32])) [] sample_bitfile"
  have f: "ncdFilename ?bf1 = text_bytes ''XC3SPROG'' @ [0]" "partName ?bf1 = [0x36, 0x73]"
      "date ?bf1 = [0x31, 0]" "dtime ?bf1 = [0x32, 0]"
    by (simp_all add: setNCDFields_def sample_bitfile_def BitFile_new_def)
  obtain out where save: "saveAs (Some ([0x31], [0x32])) STYLE_BIT [] sample_bitfile = (Ret (3, out), ?bf1)"
    by (simp add: saveAs_def Let_def setNCDFields_def sample_bitfile_def BitFile_new_def saved_bytes_def)
  have "list_all (\<lambda>kv. length (snd kv) < 2 ^ 16) (text_fields ?bf1)"
    by (simp add: text_fields_def f text_bytes_def)
  from bit_file_roundtrip [OF save _ _ this, of "\<lambda>_ _. 0"] save f show ?thesis
    by (auto simp: sample_bitfile_def text_fields_def BitFile_new_def)
qed

end
