(* ===== verification/Bitfile_Text.thy ===== *)
theory Bitfile_Text
  imports Bitfile_Props
begin

unbundle bit_operations_syntax

text \<open>
  The line-based formats of bit stream files: what is written as raw, hexadecimal or MCS file is
  read back, with the exceptions the code has.
\<close>

section \<open>Lines\<close>

lemma byte_u32_byte [simp]: "ucast (ucast (b :: byte) :: u32) = b"
  by (rule bit_word_eqI) (simp add: bit_simps)

lemma fgets_line:
  assumes "unread f = l @ 0x0a # s" and "0x0a \<notin> set l" and "length l < 1022"
  shows "fgets LINE f = (Some (l @ [0x0a]), f\<lparr>unread := s\<rparr>)"
proof -
  have "take (LINE - 1) (unread f) = l @ 0x0a # take (1022 - length l) s"
    using assms by (simp add: take_Cons')
  then have "line_of (take (LINE - 1) (unread f)) = l @ [0x0a]"
    using line_of_line [OF assms(2)] by simp
  then show ?thesis using assms(1) by (simp add: fgets_def Let_def)
qed

lemma fgets_end: "unread f = [] \<Longrightarrow> fst (fgets n f) = None"
  by (simp add: fgets_def Let_def)

lemma cstr_line: "0 \<notin> set s \<Longrightarrow> cstr (s @ 0 # t) = s"
  unfolding cstr_def by (induction s) auto

text \<open>A number of \<open>w\<close> digits after \<open>pre\<close> in the line \<open>pre @ ds @ post\<close>.\<close>

lemma scan_at_line:
  assumes "scan_hex w (ds @ post) = Some (v, s)" and "0 \<notin> set ds" and "0 \<notin> set post"
  shows "scan_at w (overlay (pre @ ds @ post @ [0]) buf) (length pre) old = Some v"
proof -
  have "drop (length pre) (overlay (pre @ ds @ post @ [0]) buf) =
      (ds @ post) @ 0 # drop (length pre + length ds + length post + 1) buf"
    by (simp add: overlay_def add.assoc)
  moreover from this have "0 \<in> set (drop (length pre) (overlay (pre @ ds @ post @ [0]) buf))" by simp
  ultimately show ?thesis
    using assms cstr_line [of "ds @ post"] by (simp add: scan_at_def)
qed

lemma hex2_chars: "c \<in> set (hex2 u b) \<Longrightarrow> c \<noteq> 0 \<and> c \<noteq> 0x0a \<and> c \<noteq> 0x0d \<and> c \<noteq> 0x20 \<and> c \<noteq> 0x2f"
  using hex2_digits [of c u b] hex_digit_plain [of _ u] by fastforce

lemma hex4_chars: "c \<in> set (hex4 u v) \<Longrightarrow> c \<noteq> 0 \<and> c \<noteq> 0x0a \<and> c \<noteq> 0x0d \<and> c \<noteq> 0x20 \<and> c \<noteq> 0x2f"
  using hex4_digits [of c u v] hex_digit_plain [of _ u] by fastforce

definition hex_text :: "bool \<Rightarrow> byte list \<Rightarrow> byte list" where
  "hex_text u d = concat (map (hex2 u) d)"

lemma hex_text_simps [simp]:
  "hex_text u [] = []" "hex_text u (b # d) = hex2 u b @ hex_text u d"
  "hex_text u (d @ e) = hex_text u d @ hex_text u e"
  by (simp_all add: hex_text_def)

lemma length_hex_text [simp]: "length (hex_text u d) = 2 * length d"
  by (induction d) simp_all

lemma hex_text_chars:
  "c \<in> set (hex_text u d) \<Longrightarrow> c \<noteq> 0 \<and> c \<noteq> 0x0a \<and> c \<noteq> 0x0d \<and> c \<noteq> 0x20 \<and> c \<noteq> 0x2f"
  unfolding hex_text_def using hex2_chars by auto

lemma scan_at_hex2:
  assumes "0 \<notin> set post"
  shows "scan_at 2 (overlay (pre @ hex2 u b @ post @ [0]) buf) (length pre) old = Some (ucast b)"
  by (rule scan_at_line [OF scan_hex2 _ assms]) (use hex2_chars in blast)

section \<open>Hexadecimal files\<close>

lemma overwrite_step:
  assumes "n + Suc k \<le> length b" and "length d = k"
  shows "take (Suc n) (b[n := x]) @ d @ drop (Suc n + k) (b[n := x]) = take n b @ (x # d) @ drop (n + Suc k) b"
  using assms by (simp add: take_Suc_conv_app_nth)

lemma hex_line_whole:
  "length pre + 2 * length d + 2 \<le> length buf \<Longrightarrow> n + length d \<le> length b \<Longrightarrow>
   hex_line (overlay (pre @ hex_text u d @ [0x0a] @ [0]) buf) (length pre) v b n =
     Some (take n b @ map bitrev d @ drop (n + length d) b, n + length d)"
proof (induction d arbitrary: pre n b v)
  case Nil
  have "overlay (pre @ hex_text u [] @ [0x0a] @ [0]) buf ! length pre = 0x0a"
    by (simp add: overlay_def nth_append)
  then show ?case using Nil by (subst hex_line.simps) simp
next
  case (Cons x d)
  define lb where "lb = overlay (pre @ hex_text u (x # d) @ [0x0a] @ [0]) buf"
  have len: "length lb = length buf" using Cons.prems(1) by (simp add: overlay_def lb_def)
  have "lb ! length pre = hex2 u x ! 0"
    by (simp add: overlay_def nth_append hex2_def lb_def)
  moreover have "hex2 u x ! 0 \<in> set (hex2 u x)" by (intro nth_mem) simp
  ultimately have head: "lb ! length pre \<notin> {0x0a, 0x0d, 0x20, 0x2f}"
    using hex2_chars [of "lb ! length pre" u x] by auto
  have scan: "scan_at 2 lb (length pre) (ucast v) = Some (ucast x)"
    using scan_at_hex2 [of "hex_text u d @ [0x0a]" pre u x buf "ucast v"] hex_text_chars by (auto simp: lb_def)
  have step: "hex_line lb (length pre) v b n = hex_line lb (length pre + 2) x (b[n := bitrev x]) (n + 1)"
    using Cons.prems head len by (subst hex_line.simps) (simp add: scan)
  have pre: "lb = overlay ((pre @ hex2 u x) @ hex_text u d @ [0x0a] @ [0]) buf"
      "length pre + 2 = length (pre @ hex2 u x)"
    by (simp_all add: lb_def)
  have "hex_line lb (length pre + 2) x (b[n := bitrev x]) (n + 1) =
      Some (take (n + 1) (b[n := bitrev x]) @ map bitrev d @ drop (n + 1 + length d) (b[n := bitrev x]),
        n + 1 + length d)"
    unfolding pre by (rule Cons.IH) (use Cons.prems in simp_all)
  also have "take (n + 1) (b[n := bitrev x]) @ map bitrev d @ drop (n + 1 + length d) (b[n := bitrev x]) =
      take n b @ map bitrev (x # d) @ drop (n + length (x # d)) b"
    using overwrite_step [of n "length d" b "map bitrev d" "bitrev x"] Cons.prems(2) by simp
  finally show ?case unfolding lb_def [symmetric] step by simp
qed

text \<open>The lines of four bytes, with a line for what is left.\<close>

function hex_rows :: "byte list \<Rightarrow> byte list" where
  "hex_rows d =
     (if length d < 4 then hex_text False d @ [0x0a]
      else hex_text False (take 4 d) @ [0x0a] @ hex_rows (drop 4 d))"
  by pat_completeness auto
termination by (relation "measure length") auto

declare hex_rows.simps [simp del]

lemma indexed_append:
  assumes "\<And>i b. item (length xs + i) b = item i b"
  shows "indexed item (xs @ ys) = indexed item xs @ indexed item ys"
proof -
  have "[0..<length xs + length ys] = [0..<length xs] @ map (\<lambda>i. length xs + i) [0..<length ys]"
    using upt_add_eq_append [of 0 "length xs" "length ys"] map_add_upt [of "length xs" "length ys"]
    by (simp add: add.commute)
  then show ?thesis
    by (simp add: indexed_def comp_def nth_append assms)
      (rule arg_cong [where f = concat], rule map_cong, simp_all)
qed

lemma hexraw_short: "length d < 4 \<Longrightarrow> indexed hexraw_item d = hex_text False d"
proof -
  assume "length d < 4"
  then have "indexed hexraw_item d = concat (map (\<lambda>i. hex2 False (d ! i)) [0..<length d])"
    unfolding indexed_def hexraw_item_def by (intro arg_cong [where f = concat] map_cong) auto
  also have "map (\<lambda>i. hex2 False (d ! i)) [0..<length d] = map (hex2 False) d"
    by (rule nth_equalityI) simp_all
  finally show ?thesis by (simp add: hex_text_def)
qed

lemma hexraw_row: "length d = 4 \<Longrightarrow> indexed hexraw_item d = hex_text False d @ [0x0a]"
proof -
  assume "length d = 4"
  then obtain a b c e where "d = [a, b, c, e]"
    by (auto simp: length_Suc_conv eval_nat_numeral)
  then show ?thesis by (simp add: indexed_def hexraw_item_def upt_rec)
qed

lemma hexraw_rows:
  "length d mod 4 \<noteq> 3 \<Longrightarrow> indexed hexraw_item d @ [0x0a] = hex_rows d"
proof (induction d rule: hex_rows.induct)
  case (1 d)
  show ?case
  proof (cases "length d < 4")
    case True
    then show ?thesis using hexraw_short by (simp add: hex_rows.simps [of d])
  next
    case False
    have "indexed hexraw_item (take 4 d @ drop 4 d) = indexed hexraw_item (take 4 d) @ indexed hexraw_item (drop 4 d)"
      using False by (intro indexed_append) (simp add: hexraw_item_def min_absorb2)
    moreover have "length (drop 4 d) mod 4 \<noteq> 3"
      using "1.prems" False by (simp add: le_mod_geq)
    ultimately show ?thesis
      using False "1.IH" hexraw_row [of "take 4 d"] by (simp add: hex_rows.simps [of d])
  qed
qed

lemma hex_lines_whole:
  "unread f = hex_rows d \<Longrightarrow> length buf = LINE \<Longrightarrow> n + length d \<le> length b \<Longrightarrow>
   fst (hex_lines g buf b n f) =
     Some (take n b @ map bitrev d @ drop (n + length d) b, n + length d)"
proof (induction d arbitrary: f buf b n rule: hex_rows.induct)
  case (1 d)
  define row where "row = (if length d < 4 then d else take 4 d)"
  define rest where "rest = (if length d < 4 then [] else hex_rows (drop 4 d))"
  have u: "unread f = hex_text False row @ 0x0a # rest"
    using "1.prems"(1) by (simp add: hex_rows.simps [of d] row_def rest_def)
  have row: "length row \<le> 4" "length row \<le> length d" by (simp_all add: row_def)
  then have 2: "fgets LINE f = (Some (hex_text False row @ [0x0a]), f\<lparr>unread := rest\<rparr>)"
    by (intro fgets_line [OF u]) (auto dest: hex_text_chars)
  let ?buf = "overlay ((hex_text False row @ [0x0a]) @ [0]) buf" and ?b = "take n b @ map bitrev row @ drop (n + length row) b"
  have 3: "hex_line ?buf 0 (ucast (g ''value'' 0)) b n = Some (?b, n + length row)"
    using hex_line_whole [of "[]" row buf n b False] row "1.prems"(2,3) by simp
  have step: "hex_lines g buf b n f = hex_lines g ?buf ?b (n + length row) (f\<lparr>unread := rest\<rparr>)"
    by (subst hex_lines.simps) (simp only: 2 3 prod.case option.case Let_def)
  have len: "length ?buf = LINE" using "1.prems"(2) row by (simp add: overlay_def)
  show ?case
  proof (cases "length d < 4")
    case True
    then have "unread (f\<lparr>unread := rest\<rparr>) = []" by (simp add: rest_def)
    then have "fst (fgets LINE (f\<lparr>unread := rest\<rparr>)) = None" by (rule fgets_end)
    then show ?thesis
      using True step by (subst (asm) hex_lines.simps [of _ ?buf]) (auto simp: row_def split: prod.splits)
  next
    case False
    have "fst (hex_lines g ?buf ?b (n + length row) (f\<lparr>unread := rest\<rparr>)) =
        Some (take (n + length row) ?b @ map bitrev (drop 4 d) @ drop (n + length row + length (drop 4 d)) ?b,
          n + length row + length (drop 4 d))"
      using False "1.prems"(3) len by (intro "1.IH") (simp_all add: rest_def row_def)
    moreover have "map bitrev row @ map bitrev (drop 4 d) = map bitrev d"
      using False by (simp add: row_def flip: map_append)
    moreover have "take (n + length row) ?b = take n b @ map bitrev row"
      using "1.prems"(3) row by simp
    moreover have "drop (n + length row + length (drop 4 d)) ?b = drop (n + length d) b"
      using "1.prems"(3) False by (simp add: row_def add.commute)
    ultimately show ?thesis unfolding step using False by (simp add: row_def del: take_append drop_append)
  qed
qed

section \<open>MCS files\<close>

text \<open>The records: a row of at most 16 bytes of data at address \<open>i\<close>, and the base of its address.\<close>

definition data_record :: "nat \<Rightarrow> byte list \<Rightarrow> byte list" where
  "data_record i c = [of_nat (length c)] @ be16 (of_nat i) @ [0] @ c"

definition base_record :: "nat \<Rightarrow> byte list" where
  "base_record base = [2, 0, 0, 4] @ be16 (of_nat base)"

function mcs_rows :: "nat \<Rightarrow> byte list \<Rightarrow> byte list" where
  "mcs_rows i d =
     (if d = [] then []
      else
        (if i mod 2 ^ 16 = 0 then mcs_line (hex_text True (base_record (i div 2 ^ 16))) else []) @
        mcs_line (hex_text True (data_record i (take 16 d))) @ mcs_rows (i + 16) (drop 16 d))"
  by pat_completeness auto
termination by (relation "measure (\<lambda>(i, d). length d)") auto

declare mcs_rows.simps [simp del]

lemma hex4_bytes: "hex4 u v = hex_text u (be16 v)"
  by (simp add: hex4_def be16_def)

lemma mcs_base_record: "mcs_base_line base = mcs_line (hex_text True (base_record base))"
  by (simp add: mcs_base_line_def base_record_def hex4_bytes text_bytes_def hex2_def hex_digit_def)

lemma text_00: "text_bytes ''00'' = hex2 True 0"
  by (simp add: text_bytes_def hex2_def hex_digit_def)

lemma text_10: "text_bytes ''10'' = hex2 True 16"
  by (simp add: text_bytes_def hex2_def hex_digit_def)

text \<open>One round of the writer, at byte \<open>j\<close> of the row \<open>c\<close> that starts at \<open>i\<close>.\<close>

lemma row_position:
  assumes "i mod 16 = 0" and "c = take 16 (drop i d)" and "j < length c"
  shows "(i + j) mod 16 = j" and "(i + j) div 2 ^ 16 = i div 2 ^ 16"
    and "(i + j) mod 16 = 15 \<or> i + j = length d - 1 \<longleftrightarrow> j + 1 = length c"
    and "i + j < length d" and "d ! (i + j) = c ! j"
proof -
  have j: "j < 16" and len: "length c = min 16 (length d - i)" using assms(2,3) by simp_all
  then show lt: "i + j < length d" and "d ! (i + j) = c ! j" using assms(2,3) by (simp_all add: add.commute)
  obtain k where k: "i = 16 * k" using assms(1) by (metis mod_0_imp_dvd dvdE)
  then show m: "(i + j) mod 16 = j" using j by simp
  have "(16 * k + j) div 16 = k" using j by simp
  then have "(i + j) div (16 * 4096) = i div (16 * 4096)" by (simp only: div_mult2_eq k)
  then show "(i + j) div 2 ^ 16 = i div 2 ^ 16" by simp
  show "(i + j) mod 16 = 15 \<or> i + j = length d - 1 \<longleftrightarrow> j + 1 = length c"
    unfolding m using j lt len by (auto simp: min_def)
qed

lemma write_byte:
  assumes "i mod 16 = 0" and c: "c = take 16 (drop i d)" and "0 < j" and "j < length c"
  shows "mcs_write d (i + j) (Some (i div 2 ^ 16)) (h @ hex_text True (take j c)) =
    (if j + 1 = length c then mcs_line (h @ hex_text True c) else []) @
    mcs_write d (i + (j + 1)) (Some (i div 2 ^ 16)) (h @ hex_text True (take (j + 1) c))"
proof -
  note pos = row_position [OF assms(1) c assms(4)]
  have s1: "(h @ hex_text True (take j c)) @ hex2 True (c ! j) = h @ hex_text True (take (j + 1) c)"
    using assms(4) by (simp add: take_Suc_conv_app_nth)
  have j: "(j = 0) = False" using assms(3) by simp
  have "mcs_write d (i + j) (Some (i div 2 ^ 16)) (h @ hex_text True (take j c)) =
      (if j + 1 = length c then mcs_line (h @ hex_text True (take (j + 1) c)) else []) @
      mcs_write d (i + j + 1) (Some (i div 2 ^ 16)) (h @ hex_text True (take (j + 1) c))"
    by (subst mcs_write.simps)
      (simp only: Let_def pos(1,2,4,5) pos(3) [unfolded pos(1)] if_True if_False s1 j simp_thms append_Nil)
  moreover have "j + 1 = length c \<Longrightarrow> take (j + 1) c = c" by simp
  ultimately show ?thesis by (simp add: add.assoc split: if_splits)
qed

lemma write_row_rest:
  assumes "i mod 16 = 0" and c: "c = take 16 (drop i d)"
  shows "0 < j \<Longrightarrow> j < length c \<Longrightarrow>
    \<exists>s. mcs_write d (i + j) (Some (i div 2 ^ 16)) (h @ hex_text True (take j c)) =
      mcs_line (h @ hex_text True c) @ mcs_write d (i + length c) (Some (i div 2 ^ 16)) s"
proof (induction "length c - j" arbitrary: j rule: less_induct)
  case less
  note step = write_byte [OF assms less.prems, of h]
  show ?case
  proof (cases "j + 1 = length c")
    case True
    then show ?thesis using step by auto
  next
    case False
    then have "\<exists>s. mcs_write d (i + (j + 1)) (Some (i div 2 ^ 16)) (h @ hex_text True (take (j + 1) c)) =
        mcs_line (h @ hex_text True c) @ mcs_write d (i + length c) (Some (i div 2 ^ 16)) s"
      using less.prems by (intro less.hyps) simp_all
    then show ?thesis unfolding step using False by simp
  qed
qed

lemma write_row:
  assumes "i mod 16 = 0" and c: "c = take 16 (drop i d)" and "c \<noteq> []" and "length c \<noteq> 15"
  shows "\<exists>s'. mcs_write d i base s =
    (if base \<noteq> Some (i div 2 ^ 16) then mcs_line (hex_text True (base_record (i div 2 ^ 16))) else []) @
    mcs_line (hex_text True (data_record i c)) @ mcs_write d (i + length c) (Some (i div 2 ^ 16)) s'"
proof -
  let ?h = "hex_text True ([of_nat (length c)] @ be16 (of_nat i) @ [0])"
  have pos: "0 < length c" using assms(3) by simp
  note row = row_position [OF assms(1) c this, unfolded add_0_right]
  have len: "length c = min 16 (length d - i)" by (simp add: c)
  have h: "(if length d - i < 15 then hex2 True (of_nat (length d - i)) else text_bytes ''10'') @
      hex4 True (of_nat i) @ text_bytes ''00'' = ?h"
    using assms(4) len by (auto simp: hex4_bytes text_00 text_10 min_def split: if_splits)
  have s1: "?h @ hex2 True (c ! 0) = ?h @ hex_text True (take 1 c)"
    using pos by (cases c) simp_all
  have first: "mcs_write d i base s =
      (if base \<noteq> Some (i div 2 ^ 16) then mcs_base_line (i div 2 ^ 16) else []) @
      (if 1 = length c then mcs_line (?h @ hex_text True (take 1 c)) else []) @
      mcs_write d (i + 1) (Some (i div 2 ^ 16)) (?h @ hex_text True (take 1 c))"
    by (subst mcs_write.simps)
      (simp only: Let_def row(1,4,5) row(3) [unfolded row(1) add_0] h if_True s1 simp_thms)
  have rec: "data_record i c = [of_nat (length c)] @ be16 (of_nat i) @ [0] @ c"
    by (simp add: data_record_def)
  show ?thesis
  proof (cases "length c = 1")
    case True
    then have "take 1 c = c" by simp
    then show ?thesis using first True by (auto simp: rec mcs_base_record)
  next
    case False
    then have "1 < length c" using pos by linarith
    with write_row_rest [OF assms(1) c, of 1 ?h] obtain s' where
      "mcs_write d (i + 1) (Some (i div 2 ^ 16)) (?h @ hex_text True (take 1 c)) =
        mcs_line (?h @ hex_text True c) @ mcs_write d (i + length c) (Some (i div 2 ^ 16)) s'" by auto
    then show ?thesis using first False by (auto simp: rec mcs_base_record)
  qed
qed

lemma next_base:
  fixes i :: nat
  assumes "i mod 16 = 0" and "0 < i"
  shows "(i - 16) div 2 ^ 16 \<noteq> i div 2 ^ 16 \<longleftrightarrow> i mod 2 ^ 16 = 0"
proof -
  obtain k where k: "i = 16 * Suc k"
    using assms by (metis mod_0_imp_dvd dvdE gr0_implies_Suc mult_0_right not_gr_zero)
  have "(i - 16) div (16 * 4096) = k div 4096" "i div (16 * 4096) = Suc k div 4096"
    "i mod (16 * 4096) = 16 * (Suc k mod 4096)"
    by (simp_all only: k div_mult2_eq mult_mod_right) (simp_all add: mult_mod_right)
  then show ?thesis by (auto simp: div_Suc)
qed

lemma mcs_write_rows:
  "i mod 16 = 0 \<Longrightarrow> i \<le> length d \<Longrightarrow> length d mod 16 \<noteq> 15 \<Longrightarrow>
   base = (if i = 0 then None else Some ((i - 16) div 2 ^ 16)) \<Longrightarrow>
   mcs_write d i base s = mcs_rows i (drop i d)"
proof (induction "length d - i" arbitrary: i base s rule: less_induct)
  case less
  define c where "c = take 16 (drop i d)"
  show ?case
  proof (cases "i = length d")
    case True
    then show ?thesis by (subst mcs_write.simps) (simp add: mcs_rows.simps)
  next
    case False
    then have c: "c \<noteq> []" using less.prems by (simp add: c_def)
    have "length c \<noteq> 15"
    proof
      assume "length c = 15"
      then have "length d = i + 15" by (auto simp: c_def min_def split: if_splits)
      then show False using less.prems(1,3) by (simp add: mod_add_left_eq [symmetric])
    qed
    then obtain s' where 1: "mcs_write d i base s =
        (if base \<noteq> Some (i div 2 ^ 16) then mcs_line (hex_text True (base_record (i div 2 ^ 16))) else []) @
        mcs_line (hex_text True (data_record i c)) @ mcs_write d (i + length c) (Some (i div 2 ^ 16)) s'"
      using write_row [OF less.prems(1) c_def c] by blast
    have base: "base \<noteq> Some (i div 2 ^ 16) \<longleftrightarrow> i mod 2 ^ 16 = 0"
      using less.prems(1,4) next_base [of i] by (cases "i = 0") auto
    have "mcs_write d (i + length c) (Some (i div 2 ^ 16)) s' = mcs_rows (i + 16) (drop (i + 16) d)"
    proof (cases "16 \<le> length d - i")
      case True
      then have "length c = 16" by (simp add: c_def)
      moreover have "mcs_write d (i + 16) (Some (i div 2 ^ 16)) s' = mcs_rows (i + 16) (drop (i + 16) d)"
        using True less.prems False by (intro less.hyps) simp_all
      ultimately show ?thesis by simp
    next
      case False
      then have "i + length c = length d" using less.prems(2) by (simp add: c_def)
      then show ?thesis using False by (subst mcs_write.simps) (simp add: mcs_rows.simps)
    qed
    then show ?thesis
      using False less.prems(2) 1 base
      by (subst mcs_rows.simps) (simp add: c_def add.commute)
  qed
qed

text \<open>The reader: checksums, the head of a record, its data.\<close>

lemma hex_sum_text [simp]: "hex_sum (hex_text u bs) = sum_list bs"
proof (induction bs)
  case (Cons b bs)
  obtain p q where pq: "hex2 u b = [p, q]" by (simp add: hex2_def)
  have "scan_hex 2 (p # q # hex_text u bs) = Some (ucast b, hex_text u bs)"
    using scan_hex2 [of u b "hex_text u bs"] by (simp add: pq)
  then show ?case using Cons by (simp add: pq)
qed simp

lemma checksum_text: "bf_checksum (hex_text u bs) = NOT (sum_list bs) + 1"
proof -
  have "x XOR 0xff = NOT x" for x :: byte
    by (rule bit_word_eqI) (auto simp: bit_simps numeral_eq_Suc less_Suc_eq)
  then show ?thesis by (simp add: bf_checksum_def)
qed

text \<open>The line of a record in the buffer: the characters up to the newline, and a NUL.\<close>

definition mcs_chars :: "byte list \<Rightarrow> byte list" where
  "mcs_chars bs = 0x3a # hex_text True bs @ hex2 True (NOT (sum_list bs) + 1) @ [0x0d]"

lemma mcs_line_chars: "mcs_line (hex_text True bs) = mcs_chars bs @ [0x0a]"
  by (simp add: mcs_line_def mcs_chars_def checksum_text)

lemma mcs_chars_plain: "c \<in> set (mcs_chars bs) \<Longrightarrow> c \<noteq> 0 \<and> c \<noteq> 0x0a"
  unfolding mcs_chars_def
  using hex_text_chars [of c True bs] hex2_chars [of c True "NOT (sum_list bs) + 1"] by auto

definition mcs_lb :: "byte list \<Rightarrow> byte list \<Rightarrow> byte list" where
  "mcs_lb bs buf = overlay (mcs_chars bs @ [0x0a] @ [0]) buf"

lemma scan_head_record:
  "scan_head (cstr (mcs_lb ([n] @ be16 v @ [t] @ c) buf)) = Some (ucast n, ucast v, ucast t)"
proof -
  let ?bs = "[n] @ be16 v @ [t] @ c"
  let ?tail = "hex2 True (NOT (sum_list ?bs) + 1) @ [0x0d, 0x0a]"
  have "cstr (mcs_lb ?bs buf) = mcs_chars ?bs @ [0x0a]"
    using cstr_line [of "mcs_chars ?bs @ [0x0a]"] mcs_chars_plain by (force simp: mcs_lb_def overlay_def)
  also have "\<dots> = 0x3a # hex2 True n @ hex4 True v @ hex2 True t @ hex_text True c @ ?tail"
    by (simp add: mcs_chars_def hex4_bytes)
  finally show ?thesis by (simp only: scan_head_def list.case scan_hex2 scan_hex4 option.case prod.case) simp
qed

lemma mcs_data_whole:
  "0 \<notin> set post \<Longrightarrow> i + length c \<le> length b \<Longrightarrow> i + length c < 2 ^ 32 \<Longrightarrow>
   mcs_data g (length c) (overlay (pre @ hex_text u c @ post @ [0]) buf) (length pre) cal (of_nat i) b =
     Some (length pre + 2 * length c, cal + sum_list c, of_nat (i + length c),
       take i b @ c @ drop (i + length c) b)"
proof (induction c arbitrary: pre cal i b)
  case (Cons x c)
  define lb where "lb = overlay (pre @ hex_text u (x # c) @ post @ [0]) buf"
  have "0 \<notin> set (hex_text u c @ post)" using Cons.prems(1) hex_text_chars by force
  then have scan: "scan_at 2 lb (length pre) (g ''value'' 0) = Some (ucast x)"
    using scan_at_hex2 [of "hex_text u c @ post" pre u x buf] by (simp add: lb_def)
  have i: "unat (of_nat i :: u32) = i" using Cons.prems(3) by (intro of_nat_inverse [OF refl]) simp
  have lb: "lb = overlay ((pre @ hex2 u x) @ hex_text u c @ post @ [0]) buf"
      "length pre + 2 = length (pre @ hex2 u x)"
    by (simp_all add: lb_def)
  have "mcs_data g (length (x # c)) lb (length pre) cal (of_nat i) b =
      mcs_data g (length c) lb (length pre + 2) (cal + x) (of_nat (Suc i)) (b[i := x])"
    using Cons.prems(2) by (simp add: scan i add.commute)
  also have "\<dots> = Some (length pre + 2 + 2 * length c, cal + x + sum_list c, of_nat (Suc i + length c),
      take (Suc i) (b[i := x]) @ c @ drop (Suc i + length c) (b[i := x]))"
    unfolding lb using Cons.prems by (subst Cons.IH) simp_all
  also have "take (Suc i) (b[i := x]) @ c @ drop (Suc i + length c) (b[i := x]) =
      take i b @ (x # c) @ drop (i + length (x # c)) b"
    using overwrite_step [of i "length c" b c x] Cons.prems(2) by simp
  finally show ?case by (simp add: lb_def add.assoc)
qed simp

lemma mcs_checksum_scan:
  assumes "k = 1 + 2 * length bs"
  shows "scan_at 2 (mcs_lb bs buf) k old = Some (ucast (NOT (sum_list bs) + 1 :: byte))"
proof -
  have lb: "mcs_lb bs buf =
      overlay ((0x3a # hex_text True bs) @ hex2 True (NOT (sum_list bs) + 1) @ [0x0d, 0x0a] @ [0]) buf"
    by (simp add: mcs_lb_def mcs_chars_def)
  have k: "k = length (0x3a # hex_text True bs :: byte list)" using assms by simp
  show ?thesis unfolding lb k by (rule scan_at_hex2) simp
qed

lemma head_sum:
  "ucast (ucast n :: u32) + ucast (drop_bit 8 (ucast v :: u32)) + ucast (ucast v :: u32) + ucast (ucast t :: u32) =
   (sum_list ([n] @ be16 v @ [t]) :: byte)"
proof -
  have "ucast (drop_bit 8 (ucast v :: u32)) = (ucast (drop_bit 8 v) :: byte)"
    "ucast (ucast v :: u32) = (ucast v :: byte)" for v :: u16
    by (auto intro!: bit_word_eqI simp: bit_simps)
  then show ?thesis by (simp add: be16_def)
qed

lemma unat_byte_u32 [simp]: "unat (ucast (b :: byte) :: u32) = unat b"
  using byte_less [of b] by (simp add: unsigned_ucast_eq take_bit_eq_mod)

text \<open>A record whose body is read and whose checksum fits.\<close>

lemma mcs_record_step:
  assumes "t \<noteq> 1" and "t \<le> 5"
    and "mcs_body g (mcs_lb ([n] @ be16 v @ [t] @ c) buf) (ucast n) (sum_list ([n] @ be16 v @ [t])) (ucast t)
      (ucast v) full b = Some (9 + 2 * length c, sum_list ([n] @ be16 v @ [t] @ c), full', b')"
  shows "mcs_record g (mcs_lb ([n] @ be16 v @ [t] @ c) buf) full b = Some (None, full', b')"
proof -
  let ?lb = "mcs_lb ([n] @ be16 v @ [t] @ c) buf"
  have t: "(ucast t :: u32) \<noteq> 1" "\<not> (ucast t :: u32) > 5"
    using assms(1,2) by (simp_all add: word_unat_eq_iff word_less_nat_alt word_le_nat_alt)
  have "scan_at 2 ?lb (9 + 2 * length c) old =
      Some (ucast (NOT (sum_list ([n] @ be16 v @ [t] @ c)) + 1 :: byte))" for old
    by (rule mcs_checksum_scan) simp
  then show ?thesis
    unfolding mcs_record_def scan_head_record option.case prod.case head_sum
    by (simp only: t if_False assms(3) option.case prod.case byte_u32_byte simp_thms)
qed

lemma low16_of_nat: "low16 (of_nat i) = ucast (of_nat i :: u16)"
  unfolding low16_def
  by (rule bit_word_eqI) (auto simp: bit_simps bit_of_nat_iff numeral_eq_Suc less_Suc_eq)

lemma data_record_read:
  assumes "c = take 16 d" and "i mod 16 = 0" and "i + length c \<le> length b" and "i + length c < 2 ^ 32"
  shows "mcs_record g (mcs_lb (data_record i c) buf) (of_nat i) b =
    Some (None, of_nat (i + length c), take i b @ c @ drop (i + length c) b)"
proof -
  let ?n = "of_nat (length c) :: byte" and ?v = "of_nat i :: u16"
  let ?lb = "mcs_lb ([?n] @ be16 ?v @ [0] @ c) buf"
  have "length c \<le> 16" using assms(1) by simp
  then have n: "unat ?n = length c" by (intro of_nat_inverse [OF refl]) simp
  let ?post = "hex2 True (NOT (sum_list ([?n] @ be16 ?v @ [0] @ c)) + 1) @ [0x0d, 0x0a]"
  have lb: "?lb = overlay ((0x3a # hex_text True ([?n] @ be16 ?v @ [0])) @ hex_text True c @ ?post @ [0]) buf"
    by (simp add: mcs_lb_def mcs_chars_def)
  have len: "9 = length (0x3a # hex_text True ([?n] @ be16 ?v @ [0]) :: byte list)" by simp
  have "mcs_data g (length c) ?lb 9 cal (of_nat i) b =
      Some (9 + 2 * length c, cal + sum_list c, of_nat (i + length c), take i b @ c @ drop (i + length c) b)" for cal
    unfolding lb len by (rule mcs_data_whole) (use assms(3,4) hex2_chars in force)+
  then have "mcs_body g ?lb (ucast ?n) (sum_list ([?n] @ be16 ?v @ [0])) (ucast (0 :: byte)) (ucast ?v) (of_nat i) b =
      Some (9 + 2 * length c, sum_list ([?n] @ be16 ?v @ [0] @ c), of_nat (i + length c),
        take i b @ c @ drop (i + length c) b)"
    by (simp add: mcs_body_def n low16_of_nat add.assoc)
  from mcs_record_step [OF _ _ this] show ?thesis by (simp add: data_record_def)
qed

lemma base_record_read:
  assumes "base = i div 2 ^ 16" and "i < 2 ^ 32"
  shows "mcs_record g (mcs_lb (base_record base) buf) (of_nat i) b = Some (None, of_nat i, b)"
proof -
  let ?v = "of_nat base :: u16"
  have rec: "base_record base = [2] @ be16 0 @ [4] @ be16 ?v"
    by (simp add: base_record_def be16_def)
  let ?lb = "mcs_lb ([2] @ be16 0 @ [4] @ be16 ?v) buf"
  have lb: "?lb = overlay ((0x3a # hex_text True ([2] @ be16 0 @ [4])) @ hex4 True ?v @
      (hex2 True (NOT (sum_list ([2] @ be16 0 @ [4] @ be16 ?v)) + 1) @ [0x0d, 0x0a]) @ [0]) buf"
    by (simp add: mcs_lb_def mcs_chars_def hex4_bytes)
  have len: "9 = length (0x3a # hex_text True ([2] @ be16 0 @ [4]) :: byte list)" by simp
  have scan: "scan_at 4 ?lb 9 old = Some (ucast ?v)" for old
    unfolding lb len by (rule scan_at_line [OF scan_hex4]) (use hex4_chars hex2_chars in force)+
  have upper: "drop_bit 16 (of_nat i :: u32) = ucast ?v"
    unfolding assms(1) drop_bit_eq_div [symmetric]
    by (rule bit_word_eqI) (use assms(2) in \<open>auto simp: bit_simps bit_of_nat_iff add.commute\<close>)
  have v: "ucast (ucast ?v :: u32) = ?v" by (rule bit_word_eqI) (simp add: bit_simps)
  have up: "mcs_upper g 16 ?lb cal (of_nat i) = Some (13, cal + sum_list (be16 ?v), of_nat i)" for cal
    by (simp only: mcs_upper_def scan option.case Let_def v upper) (simp add: be16_def add.assoc)
  have "mcs_body g ?lb (ucast (2 :: byte)) (sum_list ([2] @ be16 0 @ [4])) (ucast (4 :: byte)) (ucast (0 :: u16)) (of_nat i) b =
      Some (9 + 2 * length (be16 ?v), sum_list ([2] @ be16 0 @ [4] @ be16 ?v), of_nat i, b)"
  proof -
    have "mcs_body g lb cnt cal 4 addr full b =
        map_option (\<lambda>(k, cal', full'). (k, cal', full', b)) (mcs_upper g 16 lb cal full)" for lb cnt cal addr full
      by (simp add: mcs_body_def)
    moreover have "ucast (4 :: byte) = (4 :: u32)" by simp
    ultimately show ?thesis
      by (simp only: up) (simp only: option.map prod.case sum_list.append add.assoc, simp)
  qed
  from mcs_record_step [OF _ _ this] show ?thesis by (simp add: rec)
qed

definition end_record :: "byte list" where
  "end_record = [0, 0, 0, 1]"

lemma end_record_text: "mcs_line (text_bytes ''00000001'') = mcs_line (hex_text True end_record)"
  by (simp add: text_bytes_def end_record_def hex2_def hex_digit_def)

lemma end_record_read: "mcs_record g (mcs_lb end_record buf) full b = Some (Some 0, full, b)"
proof -
  have "end_record = [0] @ be16 0 @ [1] @ []" by (simp add: end_record_def be16_def)
  then show ?thesis
    using scan_head_record [of 0 0 1 "[]" buf] by (simp add: mcs_record_def)
qed

text \<open>Records are lines the reader takes one at a time.\<close>

lemma mcs_line_step:
  assumes "unread f = mcs_line (hex_text True bs) @ s" and "length bs \<le> 20"
  shows "mcs_lines g buf full b f =
    (case mcs_record g (mcs_lb bs buf) full b of
       None \<Rightarrow> (None, f\<lparr>unread := s\<rparr>)
     | Some (Some r, full', b') \<Rightarrow> (Some (r, full', b'), f\<lparr>unread := s\<rparr>)
     | Some (None, full', b') \<Rightarrow> mcs_lines g (mcs_lb bs buf) full' b' (f\<lparr>unread := s\<rparr>))"
proof -
  have u: "unread f = mcs_chars bs @ 0x0a # s" using assms(1) by (simp add: mcs_line_chars)
  have "fgets LINE f = (Some (mcs_chars bs @ [0x0a]), f\<lparr>unread := s\<rparr>)"
    by (rule fgets_line [OF u]) (use mcs_chars_plain assms(2) in \<open>auto simp: mcs_chars_def\<close>)
  then show ?thesis
    by (subst mcs_lines.simps) (simp only: prod.case option.case Let_def mcs_lb_def append.assoc)
qed

lemma mcs_lines_rows:
  "unread f = mcs_rows i d @ mcs_line (hex_text True end_record) \<Longrightarrow> i mod 16 = 0 \<Longrightarrow>
   i + length d \<le> length b \<Longrightarrow> i + length d < 2 ^ 32 \<Longrightarrow>
   fst (mcs_lines g buf (of_nat i) b f) =
     Some (0, of_nat (i + length d), take i b @ d @ drop (i + length d) b)"
proof (induction i d arbitrary: f b buf rule: mcs_rows.induct)
  case (1 i d)
  show ?case
  proof (cases "d = []")
    case True
    then have "unread f = mcs_line (hex_text True end_record) @ []"
      using "1.prems"(1) by (simp add: mcs_rows.simps)
    from mcs_line_step [OF this] show ?thesis
      using True by (simp add: end_record_read) (simp add: end_record_def)
  next
    case False
    define c where "c = take 16 d"
    define s where "s = mcs_rows (i + 16) (drop 16 d) @ mcs_line (hex_text True end_record)"
    have len: "i + length c \<le> length b" "i + length c < 2 ^ 32" "length (data_record i c) \<le> 20"
      using "1.prems"(3,4) by (auto simp: c_def data_record_def)
    have data: "mcs_lines g buf' (of_nat i) b f' =
        mcs_lines g (mcs_lb (data_record i c) buf') (of_nat (i + length c))
          (take i b @ c @ drop (i + length c) b) (f'\<lparr>unread := s\<rparr>)"
      if "unread f' = mcs_line (hex_text True (data_record i c)) @ s" for f' buf'
      using mcs_line_step [OF that len(3)] data_record_read [OF c_def "1.prems"(2) len(1,2)] by simp
    have "\<exists>buf' f'. unread f' = mcs_line (hex_text True (data_record i c)) @ s \<and>
        mcs_lines g buf (of_nat i) b f = mcs_lines g buf' (of_nat i) b f'"
    proof (cases "i mod 2 ^ 16 = 0")
      case True
      then have u: "unread f = mcs_line (hex_text True (base_record (i div 2 ^ 16))) @
          mcs_line (hex_text True (data_record i c)) @ s"
        using "1.prems"(1) False by (subst (asm) mcs_rows.simps) (simp add: c_def s_def)
      have "length (base_record (i div 2 ^ 16)) \<le> 20" by (simp add: base_record_def)
      from mcs_line_step [OF u this] base_record_read [OF refl, of i] "1.prems"(4) show ?thesis
        by (intro exI [of _ "mcs_lb (base_record (i div 2 ^ 16)) buf"] exI [of _ "f\<lparr>unread := _\<rparr>"]) simp
    next
      case no_base: False
      then show ?thesis
        using "1.prems"(1) False by (intro exI [of _ buf] exI [of _ f]) (subst (asm) mcs_rows.simps, simp add: c_def s_def)
    qed
    then obtain buf' f' where u: "unread f' = mcs_line (hex_text True (data_record i c)) @ s"
        and run: "mcs_lines g buf (of_nat i) b f = mcs_lines g buf' (of_nat i) b f'" by blast
    let ?b = "take i b @ c @ drop (i + length c) b"
    let ?goal = "Some (0, of_nat (i + length d), take i b @ d @ drop (i + length d) b)"
    have "fst (mcs_lines g buf2 (of_nat (i + length c)) ?b (f'\<lparr>unread := s\<rparr>)) = ?goal" for buf2
    proof (cases "16 \<le> length d")
      case True
      then have "length c = 16" by (simp add: c_def)
      moreover have "fst (mcs_lines g buf2 (of_nat (i + 16)) ?b (f'\<lparr>unread := s\<rparr>)) =
          Some (0, of_nat (i + 16 + length (drop 16 d)),
            take (i + 16) ?b @ drop 16 d @ drop (i + 16 + length (drop 16 d)) ?b)"
        using True "1.prems" \<open>length c = 16\<close> False by (intro "1.IH") (simp_all add: s_def)
      moreover have "take (i + 16) ?b = take i b @ c" using "1.prems"(3) \<open>length c = 16\<close> by simp
      moreover have "drop (i + 16 + length (drop 16 d)) ?b = drop (i + length d) b"
        using "1.prems"(3) \<open>length c = 16\<close> True by (simp add: add.commute)
      moreover have "(take i b @ c) @ drop 16 d @ t = take i b @ d @ t" for t
        by (metis append.assoc append_take_drop_id c_def)
      moreover have "i + 16 + length (drop 16 d) = i + length d" using True by simp
      ultimately show ?thesis by (simp only:)
    next
      case short: False
      then have c: "c = d" "drop 16 d = []" by (simp_all add: c_def)
      then have "unread (f'\<lparr>unread := s\<rparr>) = mcs_line (hex_text True end_record) @ []"
        by (simp add: s_def mcs_rows.simps)
      from mcs_line_step [OF this] show ?thesis by (simp add: end_record_read c) (simp add: end_record_def)
    qed
    then show ?thesis unfolding run data [OF u] .
  qed
qed

section \<open>Sizes of the files\<close>

lemma length_hex_rows: "2 * length d \<le> length (hex_rows d) \<and> length (hex_rows d) \<le> 3 * length d + 1"
proof (induction d rule: hex_rows.induct)
  case (1 d)
  then show ?case by (cases "length d < 4") (auto simp: hex_rows.simps [of d])
qed

lemma length_mcs_line: "length (mcs_line (hex_text True bs)) = 2 * length bs + 5"
  by (simp add: mcs_line_def)

lemma length_mcs_rows: "2 * length d \<le> length (mcs_rows i d) \<and> length (mcs_rows i d) \<le> 4 * length d + 62"
proof (induction i d rule: mcs_rows.induct)
  case (1 i d)
  have row: "length (mcs_line (hex_text True (data_record i (take 16 d)))) = 2 * min 16 (length d) + 13"
    by (simp only: length_mcs_line) (simp add: data_record_def)
  have base: "length (mcs_line (hex_text True (base_record k))) = 17" for k
    by (simp only: length_mcs_line) (simp add: base_record_def)
  show ?case
  proof (cases "d = []")
    case True
    then show ?thesis by (simp add: mcs_rows.simps)
  next
    case False
    then have len: "length (mcs_rows i d) =
        (if i mod 2 ^ 16 = 0 then 17 else 0) + (2 * min 16 (length d) + 13) + length (mcs_rows (i + 16) (drop 16 d))"
      by (subst mcs_rows.simps) (simp add: row base)
    have ih: "2 * length (drop 16 d) \<le> length (mcs_rows (i + 16) (drop 16 d)) \<and>
        length (mcs_rows (i + 16) (drop 16 d)) \<le> 4 * length (drop 16 d) + 62"
      by (rule "1.IH" [OF False])
    show ?thesis
    proof (cases "16 \<le> length d")
      case True
      then show ?thesis using ih len by (auto split: if_splits)
    next
      case short: False
      then have "mcs_rows (i + 16) (drop 16 d) = []" by (simp add: mcs_rows.simps)
      then show ?thesis using len short by (auto split: if_splits)
    qed
  qed
qed

section \<open>Reading what was written\<close>

lemma readBIN_whole:
  assumes "length d < 2 ^ 32"
  shows "\<exists>f. readBIN g rv (bf, open_file d) =
    (Ret 0, bf\<lparr>blength := length d, buffer := Some (if rv then map bitrev d else d)\<rparr>, f)"
  using assms by (simp add: readBIN_def ftell_end_def open_file_def to_start_def fread_def overlay_def)

lemma readHEXRAW_whole:
  assumes "length d < 2 ^ 30"
  shows "\<exists>t f. readHEXRAW g (bf, open_file (hex_rows d)) =
    (Ret 0, bf\<lparr>blength := length d, buffer := Some (map bitrev d @ t)\<rparr>, f)"
proof -
  have len: "length (hex_rows d) \<le> 3 * length d + 1" "2 * length d \<le> length (hex_rows d)"
    using length_hex_rows by simp_all
  then have res: "ftell_end (open_file (hex_rows d)) mod 2 ^ 32 = length (hex_rows d)"
      "length (hex_rows d) \<noteq> 2 ^ 32 - 1"
    using assms by (simp_all add: ftell_end_def open_file_def)
  let ?n = "length (hex_rows d) div 2"
  have "length d \<le> ?n" using len(2) by linarith
  then have "fst (hex_lines g (line_buf g) (new_bytes g ?n) 0 (to_start (open_file (hex_rows d)))) =
      Some (map bitrev d @ drop (length d) (new_bytes g ?n), length d)"
    using hex_lines_whole [of "to_start (open_file (hex_rows d))" d "line_buf g" 0 "new_bytes g ?n" g]
    by (simp add: to_start_def open_file_def line_buf_def)
  then obtain f where run: "hex_lines g (line_buf g) (new_bytes g ?n) 0 (to_start (open_file (hex_rows d))) =
      (Some (map bitrev d @ drop (length d) (new_bytes g ?n), length d), f)"
    by (metis prod.collapse)
  show ?thesis
    unfolding readHEXRAW_def Let_def snd_conv fst_conv res(1) if_not_P [OF res(2)] run by (simp, blast)
qed

lemma mcs_file_rows:
  "length d mod 16 \<noteq> 15 \<Longrightarrow> mcs_file d = mcs_rows 0 d @ mcs_line (hex_text True end_record)"
  using mcs_write_rows [of 0 d None "[]"] by (simp add: mcs_file_def end_record_text)

lemma readMCSfile_whole:
  assumes "length d < 2 ^ 30" and "length d mod 16 \<noteq> 15"
  shows "\<exists>t f. readMCSfile g (bf, open_file (mcs_file d)) =
    (Ret 0, bf\<lparr>blength := length d, buffer := Some (d @ t)\<rparr>, f)"
proof -
  let ?out = "mcs_file d"
  have out: "?out = mcs_rows 0 d @ mcs_line (hex_text True end_record)" using assms(2) by (rule mcs_file_rows)
  have "length ?out = length (mcs_rows 0 d) + 13"
    by (simp only: out length_append length_mcs_line) (simp add: end_record_def)
  with length_mcs_rows [of d 0]
  have len: "length ?out \<le> 4 * length d + 75" "2 * length d \<le> length ?out"
    by linarith+
  then have n: "ftell_end (open_file ?out) div 2 mod 2 ^ 32 = length ?out div 2"
    using assms(1) by (simp add: ftell_end_def open_file_def)
  let ?n = "length ?out div 2"
  have "length d \<le> ?n" using len(2) by linarith
  then have "fst (mcs_lines g (line_buf g) 0 (new_bytes g ?n) (to_start (open_file ?out))) =
      Some (0, of_nat (length d), d @ drop (length d) (new_bytes g ?n))"
    using mcs_lines_rows [of "to_start (open_file ?out)" 0 d "new_bytes g ?n" g "line_buf g"] assms(1)
    by (simp add: to_start_def open_file_def out)
  then obtain f where run: "mcs_lines g (line_buf g) 0 (new_bytes g ?n) (to_start (open_file ?out)) =
      (Some (0, of_nat (length d), d @ drop (length d) (new_bytes g ?n)), f)"
    by (metis prod.collapse)
  have "unat (of_nat (length d) :: u32) = length d"
    using assms(1) by (intro of_nat_inverse [OF refl]) simp
  then show ?thesis
    unfolding readMCSfile_def Let_def snd_conv fst_conv n run by (simp, blast)
qed

section \<open>Property\<close>

text \<open>The styles that are both written and read, and the lengths at which they survive.\<close>

definition style_survives :: "FILE_STYLE \<Rightarrow> nat \<Rightarrow> bool" where
  "style_survives style n \<longleftrightarrow>
     style \<in> {STYLE_BIN, STYLE_BPI} \<or> (style = STYLE_HEX_RAW \<and> n mod 4 \<noteq> 3) \<or>
     (style \<in> {STYLE_MCS, STYLE_IHEX} \<and> n mod 16 \<noteq> 15)"

text \<open>C30: Saving in the other formats and reading back. Data of less than 1 GiB saved as raw (BIN,
  BPI), hexadecimal (HEXRAW) or MCS (MCS, IHEX) file is what reading the bytes written, in the same
  style, gives, whatever uninitialised memory holds: no read or write outside of a buffer, the
  result 0, the length and the data. For HEXRAW the length must not be 3 modulo 4, for MCS not 15
  modulo 16: there the last line is not ended, or announces a byte more than it has.\<close>

theorem save_load_roundtrip:
  assumes "saveAs tm style device bf = (Ret (n, out), bf1)" and "0 < blength bf" and "n < 2 ^ 30"
    and "style_survives style n"
  shows "\<exists>b t bf2 f. buffer bf = Some b \<and> readFile g style (bf0, open_file out) = (Ret 0, bf2, f) \<and>
    blength bf2 = n \<and> buffer bf2 = Some (take n b @ t)"
proof -
  have keep: "buffer (setNCDFields tm device bf) = buffer bf"
    by (simp add: setNCDFields_def Let_def split: option.split)
  have "style \<notin> {STYLE_JEDEC, STYLE_AUTO, STYLE_BIT, STYLE_HEX}"
    using assms(4) by (auto simp: style_survives_def)
  then obtain b where b: "buffer bf = Some b" "n \<le> length b" and out: "out = file_body style (take n b)"
    using assms(1,2) keep
    by (auto simp: saveAs_def Let_def split: option.splits if_splits)
  let ?d = "take n b"
  have len: "length ?d = n" "length (map bitrev ?d) = n" using b(2) by simp_all
  consider (raw) "style = STYLE_BIN" | (bpi) "style = STYLE_BPI" | (hex) "style = STYLE_HEX_RAW" "n mod 4 \<noteq> 3"
    | (mcs) "style = STYLE_MCS" "n mod 16 \<noteq> 15" | (ihex) "style = STYLE_IHEX" "n mod 16 \<noteq> 15"
    using assms(4) by (auto simp: style_survives_def)
  then show ?thesis
  proof cases
    case raw
    then show ?thesis
      using readBIN_whole [of "map bitrev ?d" g True bf0] assms(3) b len
      by (auto simp: readFile_def out file_body_def comp_def)
  next
    case bpi
    then show ?thesis
      using readBIN_whole [of ?d g False bf0] assms(3) b len
      by (auto simp: readFile_def out file_body_def)
  next
    case hex
    then have "out = hex_rows (map bitrev ?d)"
      using hexraw_rows [of "map bitrev ?d"] len by (simp add: out file_body_def)
    then show ?thesis
      using readHEXRAW_whole [of "map bitrev ?d" g bf0] assms(3) b len hex(1)
      by (auto simp: readFile_def comp_def)
  next
    case mcs
    then obtain t f where run: "readMCSfile g (bf0, open_file out) =
        (Ret 0, bf0\<lparr>blength := n, buffer := Some (map bitrev ?d @ t)\<rparr>, f)"
      using readMCSfile_whole [of "map bitrev ?d" g bf0] assms(3) len by (auto simp: out file_body_def)
    then show ?thesis
      using b len mcs(1) by (simp add: readFile_def bind_act_Ret reverse_data_def comp_def)
  next
    case ihex
    then show ?thesis
      using readMCSfile_whole [of ?d g bf0] assms(3) b len by (auto simp: readFile_def out file_body_def)
  qed
qed

theorem save_load_roundtrip_witness:
  "\<exists>out bf1 bf2 f t. saveAs None STYLE_MCS [] sample_bitfile = (Ret (3, out), bf1) \<and>
     readFile (\<lambda>_ _. 7) STYLE_MCS (BitFile_new, open_file out) = (Ret 0, bf2, f) \<and>
     buffer bf2 = Some ([0x12, 0xff, 0x34] @ t)"
proof -
  obtain out bf1 where save: "saveAs None STYLE_MCS [] sample_bitfile = (Ret (3, out), bf1)"
    by (simp add: saveAs_def Let_def setNCDFields_def sample_bitfile_def BitFile_new_def saved_bytes_def)
  from save_load_roundtrip [OF save, of "\<lambda>_ _. 7" BitFile_new] save show ?thesis
    by (auto simp: sample_bitfile_def BitFile_new_def style_survives_def)
qed

end
