(* ===== verification/Progalg.thy ===== *)
theory Progalg
  imports Jtag Bitfile
begin

unbundle bit_operations_syntax

text \<open>
  The configuration of Xilinx chips over JTAG (\<open>src/devices/xc3sprog/progalgxc3s.h\<close>,
  \<open>progalgxc3s.cpp\<close>). The operations run on the state of the JTAG layer; \<open>D\<close> is the cable. Progress
  messages to \<open>stderr\<close> are left out.
\<close>

section \<open>Instructions and families\<close>

text \<open>The instructions, least significant byte first; the register of a chip takes as many bits as it has.\<close>

definition JPROGRAM :: "byte list" where "JPROGRAM = [0xcb, 0xff]"
definition CFG_IN :: "byte list" where "CFG_IN = [0xc5, 0xff]"
definition JSHUTDOWN :: "byte list" where "JSHUTDOWN = [0xcd, 0xff]"
definition JSTART :: "byte list" where "JSTART = [0xcc, 0xff]"
definition ISC_PROGRAM :: "byte list" where "ISC_PROGRAM = [0xd1, 0xff]"
definition ISC_ENABLE :: "byte list" where "ISC_ENABLE = [0xd0, 0xff]"
definition ISC_DISABLE :: "byte list" where "ISC_DISABLE = [0xd6, 0xff]"
definition BYPASS :: "byte list" where "BYPASS = [0xff, 0xff]"
definition ISC_DNA :: "byte list" where "ISC_DNA = [0x31]"

abbreviation (input) FAMILY_XC2S :: int where "FAMILY_XC2S \<equiv> 0x03"
abbreviation (input) FAMILY_XC2SE :: int where "FAMILY_XC2SE \<equiv> 0x05"
abbreviation (input) FAMILY_XC2V :: int where "FAMILY_XC2V \<equiv> 0x08"
abbreviation (input) FAMILY_XC3S :: int where "FAMILY_XC3S \<equiv> 0x0a"
abbreviation (input) FAMILY_XC3SE :: int where "FAMILY_XC3SE \<equiv> 0x0e"
abbreviation (input) FAMILY_XC3SA :: int where "FAMILY_XC3SA \<equiv> 0x11"
abbreviation (input) FAMILY_XC3SAN :: int where "FAMILY_XC3SAN \<equiv> 0x13"
abbreviation (input) FAMILY_XC5VLX :: int where "FAMILY_XC5VLX \<equiv> 0x14"
abbreviation (input) FAMILY_XC5VLXT :: int where "FAMILY_XC5VLXT \<equiv> 0x15"
abbreviation (input) FAMILY_XC5VSXT :: int where "FAMILY_XC5VSXT \<equiv> 0x17"
abbreviation (input) FAMILY_XC5VFXT :: int where "FAMILY_XC5VFXT \<equiv> 0x19"
abbreviation (input) FAMILY_XC7 :: int where "FAMILY_XC7 \<equiv> 0x1b"
abbreviation (input) FAMILY_XC3SD :: int where "FAMILY_XC3SD \<equiv> 0x1c"
abbreviation (input) FAMILY_XC6S :: int where "FAMILY_XC6S \<equiv> 0x20"
abbreviation (input) FAMILY_XC5VTXT :: int where "FAMILY_XC5VTXT \<equiv> 0x22"

record progalg =
  family :: int
  tck_len :: nat
  array_transfer_len :: nat

definition ProgAlgXC3S_new :: "int \<Rightarrow> progalg" where
  "ProgAlgXC3S_new fam =
     (if fam \<in> {FAMILY_XC3SE, FAMILY_XC3SA, FAMILY_XC3SAN, FAMILY_XC3SD} then
        \<lparr>family = fam, tck_len = 16, array_transfer_len = 16\<rparr>
      else if fam \<in> {FAMILY_XC5VLX, FAMILY_XC5VLXT, FAMILY_XC5VSXT, FAMILY_XC5VFXT, FAMILY_XC5VTXT, FAMILY_XC7} then
        \<lparr>family = fam, tck_len = 12, array_transfer_len = 32\<rparr>
      else \<lparr>family = fam, tck_len = 12, array_transfer_len = 64\<rparr>)"

section \<open>Shifts without a result\<close>

definition load_IR :: "'s cable \<Rightarrow> byte list \<Rightarrow> ('s jtag, unit) act" where
  "load_IR D instr = bind_act (shiftIR D (Some instr) None) (\<lambda>_. return_act ())"

definition load_DR :: "'s cable \<Rightarrow> byte list \<Rightarrow> nat \<Rightarrow> ('s jtag, unit) act" where
  "load_DR D data len = bind_act (shiftDR D (Some data) None len 0 True) (\<lambda>_. return_act ())"

section \<open>The flows\<close>

definition flow_enable :: "'s cable \<Rightarrow> progalg \<Rightarrow> ('s jtag, unit) act" where
  "flow_enable D P =
     run_acts [load_IR D ISC_ENABLE, load_DR D [0x00] 5, cycleTCK D (tck_len P) True]"

definition flow_disable :: "'s cable \<Rightarrow> progalg \<Rightarrow> ('s jtag, unit) act" where
  "flow_disable D P =
     run_acts [load_IR D ISC_DISABLE, cycleTCK D (tck_len P) True, load_IR D BYPASS,
       load_DR D [0x00] 1, cycleTCK D 1 True]"

text \<open>
  The data of a file. \<open>getData\<close> gives a pointer to it, NULL while there is none; a shift of length
  0 does not read it.
\<close>

definition getData :: "bitfile \<Rightarrow> byte list option" where
  "getData bf = buffer bf"

definition shift_file :: "'s cable \<Rightarrow> bitfile \<Rightarrow> ('s jtag, unit) act" where
  "shift_file D bf =
     bind_act (shiftDR D (getData bf) None (getLength bf) 0 True) (\<lambda>_. return_act ())"

text \<open>
  \<open>flow_array_program\<close>, which nothing calls: the data in pieces, from bit \<open>i\<close> on. Where the data
  ends inside the last piece, the shift reads past the buffer.
\<close>

definition array_piece :: "'s cable \<Rightarrow> progalg \<Rightarrow> byte list \<Rightarrow> nat \<Rightarrow> ('s jtag, unit) act" where
  "array_piece D P data i =
     run_acts [load_IR D ISC_PROGRAM,
       (if i div 8 * 8 + array_transfer_len P \<le> 8 * length data
        then load_DR D (drop (i div 8) data) (array_transfer_len P)
        else (\<lambda>j. (Crashes, j))),
       cycleTCK D 1 True]"

definition flow_array_program :: "'s cable \<Rightarrow> progalg \<Rightarrow> bitfile \<Rightarrow> ('s jtag, unit) act" where
  "flow_array_program D P bf =
     (let n = array_transfer_len P;
          data = (case getData bf of None \<Rightarrow> [] | Some b \<Rightarrow> b) in
      run_acts (map (\<lambda>k. array_piece D P data (k * n)) [0..<(getLength bf + n - 1) div n]))"

text \<open>Spartan-II: two sequences of configuration commands around the data.\<close>

definition xc2sbuf0 :: "byte list" where
  "xc2sbuf0 =
     [0x00, 0x00, 0x00, 0x00,
      0x00, 0x00, 0x00, 0x00,
      0x55, 0x99, 0xaa, 0x66,
      0x0c, 0x80, 0x04, 0x80,
      0x00, 0x05, 0xfd, 0xbc,
      0x0c, 0x00, 0x01, 0x80,
      0x00, 0x00, 0x00, 0xa0,
      0x0c, 0x00, 0x01, 0x80,
      0x00, 0x00, 0x00, 0xe0,
      0x00, 0x00, 0x00, 0x00]"

definition xc2sbuf1 :: "byte list" where
  "xc2sbuf1 =
     [0x00, 0x00, 0x00, 0x00,
      0x00, 0x00, 0x00, 0x00,
      0x55, 0x99, 0xaa, 0x66,
      0x0c, 0x00, 0x01, 0x80,
      0x00, 0x00, 0x00, 0x10,
      0x0c, 0x80, 0x04, 0x80,
      0x00, 0x05, 0xfc, 0xff,
      0x0c, 0x00, 0x01, 0x80,
      0x00, 0x00, 0x00, 0xa0,
      0x0c, 0x00, 0x01, 0x80,
      0x00, 0x00, 0x00, 0xe0,
      0x00, 0x00, 0x00, 0x00]"

definition config_commands :: "'s cable \<Rightarrow> byte list \<Rightarrow> ('s jtag, unit) act list" where
  "config_commands D buf =
     [load_IR D CFG_IN, load_DR D buf (length buf * 8), load_IR D JSTART, cycleTCK D 13 True]"

text \<open>The bit shifted through the bypass register at the end is uninitialised: \<open>junk\<close>.\<close>

definition flow_program_xc2s :: "'s cable \<Rightarrow> byte \<Rightarrow> bitfile \<Rightarrow> ('s jtag, unit) act" where
  "flow_program_xc2s D junk bf =
     run_acts (config_commands D xc2sbuf0 @ config_commands D xc2sbuf1 @ config_commands D xc2sbuf0 @
       [load_IR D CFG_IN, shift_file D bf, cycleTCK D 1 True, load_IR D JSTART, cycleTCK D 13 True,
        load_IR D BYPASS, load_DR D [junk] 1, cycleTCK D 1 True])"

definition flow_program_legacy :: "'s cable \<Rightarrow> progalg \<Rightarrow> bitfile \<Rightarrow> ('s jtag, unit) act" where
  "flow_program_legacy D P bf =
     run_acts [load_IR D JSHUTDOWN, cycleTCK D (tck_len P) True,
       load_IR D CFG_IN, shift_file D bf, cycleTCK D 1 True,
       load_IR D JSTART, cycleTCK D (2 * tck_len P) True,
       load_IR D BYPASS, load_DR D [0x00] 1, cycleTCK D 1 True]"

section \<open>Programming\<close>

text \<open>
  The loop that waits until the configuration memory is cleared: it shifts CFG_IN until bit 4 of
  the captured instruction register is set. It may run for ever: then there is no result.
\<close>

definition capture_IR :: "'s cable \<Rightarrow> byte list \<Rightarrow> byte \<Rightarrow> ('s jtag, byte) act" where
  "capture_IR D instr buf =
     bind_act (shiftIR D (Some instr) (Some [buf])) (\<lambda>r. return_act (the r ! 0))"

partial_function (option) wait_clear ::
  "'s cable \<Rightarrow> byte \<Rightarrow> 's jtag \<Rightarrow> (byte outcome \<times> 's jtag) option" where
  "wait_clear D buf j =
     (case capture_IR D CFG_IN buf j of
        (Ret b, j1) \<Rightarrow> if b AND 0x10 = 0 then wait_clear D b j1 else Some (Ret b, j1)
      | (Throws e, j1) \<Rightarrow> Some (Throws e, j1)
      | (Crashes, j1) \<Rightarrow> Some (Crashes, j1)
      | (Hangs, j1) \<Rightarrow> Some (Hangs, j1))"

definition wait_until_clear :: "'s cable \<Rightarrow> byte \<Rightarrow> ('s jtag, byte) act" where
  "wait_until_clear D buf j = (case wait_clear D buf j of None \<Rightarrow> (Hangs, j) | Some res \<Rightarrow> res)"

text \<open>
  The loop that waits until the chip has started, with \<open>n\<close> of its 50 polls left. It gives the polls
  left at its end.
\<close>

fun wait_done :: "'s cable \<Rightarrow> nat \<Rightarrow> byte \<Rightarrow> ('s jtag, nat) act" where
  "wait_done D 0 buf = return_act 0"
| "wait_done D (Suc n) buf =
     (if buf AND 0x23 \<noteq> 0x21 then
        bind_act (capture_IR D BYPASS buf)
          (\<lambda>b. then_act (jtag_Usleep D 1000) (wait_done D n b))
      else return_act (Suc n))"

text \<open>Reading the device id of chips that have one; it is not used.\<close>

definition read_DNA :: "'s cable \<Rightarrow> progalg \<Rightarrow> byte list \<Rightarrow> ('s jtag, unit) act" where
  "read_DNA D P junk =
     (if family P \<in> {0x11, 0x13, 0x1c, 0x20} then
        run_acts [load_IR D ISC_ENABLE, load_IR D ISC_DNA,
          bind_act (shiftDR D None (Some junk) 64 0 True) (\<lambda>_. return_act ()), cycleTCK D 1 True]
      else return_act ())"

definition array_program :: "'s cable \<Rightarrow> uninit \<Rightarrow> progalg \<Rightarrow> bitfile \<Rightarrow> ('s jtag, unit) act" where
  "array_program D g P bf =
     (if family P = FAMILY_XC2S \<or> family P = FAMILY_XC2SE then
        flow_program_xc2s D (ucast (g ''data'' 0)) bf
      else
        then_act (flow_enable D P)
          (then_act (load_IR D JPROGRAM)
            (bind_act (wait_until_clear D 0)
              (\<lambda>buf.
                 then_act (read_DNA D P (stack_bytes g ''data'' 8))
                   (then_act (flow_program_legacy D P bf)
                     (then_act (flow_disable D P)
                       (bind_act (wait_done D 50 buf)
                         (\<lambda>left. if left = 0 then throw_act ''Error configuring device'' else return_act ()))))))))"

section \<open>Reconfiguration\<close>

definition xc3sbuf :: "byte list" where
  "xc3sbuf = [0xff, 0xff, 0x55, 0x99, 0x0c, 0x85, 0x00, 0x70, 0x04, 0x00, 0x04, 0x00]"

definition xc6sbuf :: "byte list" where
  "xc6sbuf = [0xff, 0xff, 0x55, 0x99, 0xaa, 0x66, 0x0c, 0x85, 0x00, 0x70, 0x04, 0x00]"

definition reconfig :: "'s cable \<Rightarrow> progalg \<Rightarrow> ('s jtag, unit) act" where
  "reconfig D P =
     (if family P \<in> {FAMILY_XC2V, FAMILY_XC3S, FAMILY_XC3SE, FAMILY_XC3SA, FAMILY_XC3SAN,
          FAMILY_XC3SD, FAMILY_XC6S}
      then run_acts [load_IR D JSHUTDOWN, cycleTCK D 16 True, load_IR D CFG_IN,
             load_DR D (if family P = 0x20 then xc6sbuf else xc3sbuf) (12 * 8),
             load_IR D JSTART, cycleTCK D 32 True, load_IR D BYPASS, cycleTCK D 1 True,
             setTapState D TEST_LOGIC_RESET 0]
      else return_act ())"

end
