(* ===== verification/Programmer.thy ===== *)
theory Programmer
  imports Progalg Ioftdi
begin

text \<open>
  The programmer of a board (\<open>src/devices/DeviceProgrammer.h\<close>, \<open>DeviceProgrammer.cpp\<close>): it opens
  the second interface of the FTDI chip as a JTAG cable, accepts a chain of one known chip and
  configures it with a bit file.
\<close>

section \<open>State\<close>

text \<open>The members: \<open>m_ioftdi\<close> is the cable inside of \<open>m_jtag\<close>.\<close>

record 'w programmer =
  m_jtag :: "'w ioftdi jtag"
  m_family :: int

abbreviation (input) XC6_XC7_IRLEN :: int where "XC6_XC7_IRLEN \<equiv> 6"

definition on_jtag :: "('w ioftdi jtag, 'a) act \<Rightarrow> ('w programmer, 'a) act" where
  "on_jtag = on_part m_jtag (\<lambda>j p. p\<lparr>m_jtag := j\<rparr>)"

text \<open>The object before its constructors have run; \<open>fam\<close> is what the memory of \<open>m_family\<close> holds.\<close>

definition programmer_blank :: "'w \<Rightarrow> int \<Rightarrow> 'w programmer" where
  "programmer_blank w fam = \<lparr>m_jtag = Jtag_init (iobase_init (ioftdi_blank w)), m_family = fam\<rparr>"

section \<open>The chain\<close>

definition family_of :: "u32 \<Rightarrow> int option" where
  "family_of devid =
     (if devid = 0x24001093 then Some FAMILY_XC6S
      else if devid = 0x0362d093 then Some FAMILY_XC7
      else None)"

text \<open>
  The constructor after those of the members. \<open>ir\<close> and \<open>idx\<close> are what \<open>getChain\<close> reads of
  uninitialised memory.
\<close>

definition check_chain :: "'w io_env \<Rightarrow> int \<Rightarrow> byte list \<Rightarrow> ('w programmer, unit) act" where
  "check_chain E ir idx =
     (let D = ioftdi_cable E in
      bind_act (on_jtag (getChain D ir idx False))
        (\<lambda>n. if n \<noteq> 1 then throw_act ''Error in Jtag chain''
             else (\<lambda>p.
               case family_of (getDeviceID 0 (m_jtag p)) of
                 None \<Rightarrow> (Throws ''Unexpected Jtag device ID'', p)
               | Some fam \<Rightarrow>
                   bind_act (on_jtag (setDeviceIRLength 0 XC6_XC7_IRLEN))
                     (\<lambda>_. then_act (on_jtag (setTapState D TEST_LOGIC_RESET 0))
                        (bind_act (on_jtag (selectDevice 0)) (\<lambda>_. return_act ())))
                     (p\<lparr>m_family := fam\<rparr>))))"

text \<open>
  The whole constructor. When \<open>check_chain\<close> throws, the members are destroyed, which closes the
  cable; an exception of the cable's own constructor leaves it as it is. \<open>tbuf\<close> is the static
  buffer of \<open>deinit\<close>, which a destruction changes.
\<close>

definition on_cable :: "('w ioftdi, 'a) act \<Rightarrow> ('w programmer, 'a) act" where
  "on_cable m = on_jtag (on_io (on_drv m))"

definition on_throw :: "('s, 'b) act \<Rightarrow> ('s, 'a) act \<Rightarrow> ('s, 'a) act" where
  "on_throw cleanup m s =
     (case m s of
        (Throws e, s') \<Rightarrow> bind_act cleanup (\<lambda>_. throw_act e) s'
      | res \<Rightarrow> res)"

definition DeviceProgrammer_new ::
  "'w io_env \<Rightarrow> 'w st \<Rightarrow> handle \<Rightarrow> byte list \<Rightarrow> int \<Rightarrow> byte list \<Rightarrow> ('w programmer, unit) act" where
  "DeviceProgrammer_new E ctx dev tbuf ir idx =
     then_act (on_cable (IOFtdi_new E ctx dev INTERFACE_B 0))
       (on_throw (on_cable (deinit E tbuf)) (check_chain E ir idx))"

definition DeviceProgrammer_delete :: "'w io_env \<Rightarrow> byte list \<Rightarrow> ('w programmer, byte list) act" where
  "DeviceProgrammer_delete E tbuf = on_cable (deinit E tbuf)"

section \<open>Programming\<close>

text \<open>
  Opening and reading the bit file; \<open>fs\<close> gives the content of the files that can be opened. The
  file is not closed.
\<close>

type_synonym files = "string \<Rightarrow> byte list option"

definition read_bitfile :: "uninit \<Rightarrow> files \<Rightarrow> string \<Rightarrow> bitfile outcome" where
  "read_bitfile g fs fname =
     (case fs fname of
        None \<Rightarrow> Throws ''Could not open bitfile''
      | Some content \<Rightarrow>
          (case readFile g STYLE_BIT (BitFile_new, open_file content) of
             (Ret r, bf, _) \<Rightarrow> if r \<noteq> 0 then Throws ''Error processing bitfile'' else Ret bf
           | (Throws e, _) \<Rightarrow> Throws e
           | (Crashes, _) \<Rightarrow> Crashes
           | (Hangs, _) \<Rightarrow> Hangs))"

definition program :: "'w io_env \<Rightarrow> uninit \<Rightarrow> files \<Rightarrow> string \<Rightarrow> ('w programmer, unit) act" where
  "program E g fs fname p =
     (case read_bitfile g fs fname of
        Ret bf \<Rightarrow> on_jtag (array_program (ioftdi_cable E) g (ProgAlgXC3S_new (m_family p)) bf) p
      | Throws e \<Rightarrow> (Throws e, p)
      | Crashes \<Rightarrow> (Crashes, p)
      | Hangs \<Rightarrow> (Hangs, p))"

end
