(* ===== verification/Chip.thy ===== *)
theory Chip
  imports Jtag_Live
begin

text \<open>
  What the registers of the chain get: the instructions and data that the TAP controllers pass
  on in the states Update-IR and Update-DR, and the clock cycles they idle, read off the wires. It
  is the specification of the programs in \<open>progalgxc3s.cpp\<close>.
\<close>

section \<open>Scans\<close>

datatype scan = IR "bool option list" | DR "bool option list" | Idle

text \<open>\<open>acc\<close> are the bits shifted in since the last capture.\<close>

fun scan_acc :: "tapState_t \<Rightarrow> bool option list \<Rightarrow> bool option \<Rightarrow> bool option list" where
  "scan_acc s acc tdi =
     (if s = CAPTURE_DR \<or> s = CAPTURE_IR then []
      else if s = SHIFT_DR \<or> s = SHIFT_IR then acc @ [tdi]
      else acc)"

fun scan_out :: "tapState_t \<Rightarrow> bool \<Rightarrow> bool option list \<Rightarrow> scan list" where
  "scan_out UPDATE_DR tms acc = [DR acc]"
| "scan_out UPDATE_IR tms acc = [IR acc]"
| "scan_out RUN_TEST_IDLE tms acc = (if tms then [] else [Idle])"
| "scan_out s tms acc = []"

fun scans :: "tapState_t \<Rightarrow> bool option list \<Rightarrow> clk list \<Rightarrow> scan list" where
  "scans s acc [] = []"
| "scans s acc (c # cs) =
     scan_out s (fst c) acc @ scans (tap_next (fst c) s) (scan_acc s acc (snd c)) cs"

fun scan_left :: "tapState_t \<Rightarrow> bool option list \<Rightarrow> clk list \<Rightarrow> bool option list" where
  "scan_left s acc [] = acc"
| "scan_left s acc (c # cs) = scan_left (tap_next (fst c) s) (scan_acc s acc (snd c)) cs"

lemma scans_append: "scans s acc (cs @ ds) = scans s acc cs @ scans (tap_run s cs) (scan_left s acc cs) ds"
  by (induction cs arbitrary: s acc) simp_all

lemma scan_left_append: "scan_left s acc (cs @ ds) = scan_left (tap_run s cs) (scan_left s acc cs) ds"
  by (induction cs arbitrary: s acc) simp_all

lemma scans_shift:
  "sh = SHIFT_DR \<or> sh = SHIFT_IR \<Longrightarrow> scans sh acc (data_clocks False ds final) = []"
proof -
  assume sh: "sh = SHIFT_DR \<or> sh = SHIFT_IR"
  have level: "scans sh acc (map (Pair False) ds) = []" for acc ds
    using sh by (induction ds arbitrary: acc) auto
  have "tap_run sh (map (Pair False) ds) = sh" for ds
    using sh by (auto simp: tap_run_level stable_def stays_def)
  then show ?thesis using sh level by (auto simp: data_clocks_def scans_append)
qed

lemma scan_left_shift:
  "sh = SHIFT_DR \<or> sh = SHIFT_IR \<Longrightarrow>
   scan_left sh acc (data_clocks False ds final) = acc @ driven ds final"
proof -
  assume sh: "sh = SHIFT_DR \<or> sh = SHIFT_IR"
  have level: "scan_left sh acc (map (Pair False) ds) = acc @ ds" for acc ds
    using sh by (induction ds arbitrary: acc) auto
  have "tap_run sh (map (Pair False) ds) = sh" for ds
    using sh by (auto simp: tap_run_level stable_def stays_def)
  then show ?thesis using sh level by (auto simp: data_clocks_def driven_def scan_left_append)
qed

text \<open>A whole scan, from the states programs leave the controllers in back to Run-Test/Idle.\<close>

definition resting :: "tapState_t \<Rightarrow> bool" where
  "resting s \<longleftrightarrow> s = TEST_LOGIC_RESET \<or> s = RUN_TEST_IDLE"

lemma moves_at_rest:
  "tap_moves TEST_LOGIC_RESET SHIFT_DR = [False, True, False, False]"
  "tap_moves RUN_TEST_IDLE SHIFT_DR = [True, False, False]"
  "tap_moves TEST_LOGIC_RESET SHIFT_IR = [False, True, True, False, False]"
  "tap_moves RUN_TEST_IDLE SHIFT_IR = [True, True, False, False]"
  "tap_moves EXIT1_DR RUN_TEST_IDLE = [True, False]"
  "tap_moves EXIT1_IR RUN_TEST_IDLE = [True, False]"
  by (simp_all add: tap_moves_def eval_nat_numeral)

lemma move_to_shift:
  assumes "resting s"
  shows "scans s acc (tms_clocks (tap_moves s SHIFT_DR)) = []" "scan_left s acc (tms_clocks (tap_moves s SHIFT_DR)) = []"
    "tap_run s (tms_clocks (tap_moves s SHIFT_DR)) = SHIFT_DR"
    "scans s acc (tms_clocks (tap_moves s SHIFT_IR)) = []" "scan_left s acc (tms_clocks (tap_moves s SHIFT_IR)) = []"
    "tap_run s (tms_clocks (tap_moves s SHIFT_IR)) = SHIFT_IR"
  using assms by (auto simp: resting_def moves_at_rest)

lemma move_to_idle:
  "scans EXIT1_DR acc (tms_clocks (tap_moves EXIT1_DR RUN_TEST_IDLE)) = [DR acc]"
  "tap_run EXIT1_DR (tms_clocks (tap_moves EXIT1_DR RUN_TEST_IDLE)) = RUN_TEST_IDLE"
  "scans EXIT1_IR acc (tms_clocks (tap_moves EXIT1_IR RUN_TEST_IDLE)) = [IR acc]"
  "tap_run EXIT1_IR (tms_clocks (tap_moves EXIT1_IR RUN_TEST_IDLE)) = RUN_TEST_IDLE"
  by (simp_all add: moves_at_rest)

lemma scan_DR:
  assumes "resting s" and "ds \<noteq> []"
  shows "scans s acc (tms_clocks (tap_moves s SHIFT_DR) @ data_clocks False ds True @
      tms_clocks (tap_moves EXIT1_DR RUN_TEST_IDLE)) = [DR (driven ds True)]"
    and "tap_run s (tms_clocks (tap_moves s SHIFT_DR) @ data_clocks False ds True @
      tms_clocks (tap_moves EXIT1_DR RUN_TEST_IDLE)) = RUN_TEST_IDLE"
  using assms
  by (simp_all only: scans_append scan_left_append move_to_shift [OF assms(1)] move_to_idle scans_shift
      scan_left_shift tap_run_append tap_run_data if_True simp_thms append_Nil append_Nil2)

lemma scan_IR:
  assumes "resting s" and "ds \<noteq> []"
  shows "scans s acc (tms_clocks (tap_moves s SHIFT_IR) @ data_clocks False ds True @
      tms_clocks (tap_moves EXIT1_IR RUN_TEST_IDLE)) = [IR (driven ds True)]"
    and "tap_run s (tms_clocks (tap_moves s SHIFT_IR) @ data_clocks False ds True @
      tms_clocks (tap_moves EXIT1_IR RUN_TEST_IDLE)) = RUN_TEST_IDLE"
  using assms
  by (simp_all only: scans_append scan_left_append move_to_shift [OF assms(1)] move_to_idle scans_shift
      scan_left_shift tap_run_append tap_run_data if_True simp_thms append_Nil append_Nil2)

lemma scans_idle:
  "scans RUN_TEST_IDLE acc (map (Pair False) ds) = replicate (length ds) Idle"
  "tap_run RUN_TEST_IDLE (map (Pair False) ds) = RUN_TEST_IDLE"
  by (induction ds arbitrary: acc) simp_all

section \<open>Programs on a chain of one chip\<close>

text \<open>
  One chip with an instruction register of six bits, the controllers back in Run-Test/Idle after
  every shift: what the programmer sets up.
\<close>

definition one_chip :: "'s jtag \<Rightarrow> bool" where
  "one_chip j \<longleftrightarrow> deviceIndex j = 0 \<and> numDevices j = 1 \<and> irlen (devices j ! 0) = 6 \<and>
     postDRState j = RUN_TEST_IDLE \<and> postIRState j = RUN_TEST_IDLE \<and> \<not> shiftDRincomplete j"

lemma one_chip_frame:
  "chain_setup j' = chain_setup j \<Longrightarrow> shiftDRincomplete j' = shiftDRincomplete j \<Longrightarrow> one_chip j' = one_chip j"
  by (simp add: chain_setup_def one_chip_def)

context jtag_cable
begin

definition rests :: "'s jtag \<Rightarrow> bool" where
  "rests j \<longleftrightarrow> tracks j \<and> one_chip j \<and> resting (current_state j)"

definition idles :: "'s jtag \<Rightarrow> bool" where
  "idles j \<longleftrightarrow> tracks j \<and> one_chip j \<and> current_state j = RUN_TEST_IDLE"

lemma idles_rests: "idles j \<Longrightarrow> rests j"
  by (simp add: idles_def rests_def resting_def)

text \<open>\<open>traced j j' es\<close>: between the two states the chip got the scans \<open>es\<close>.\<close>

definition traced :: "'s jtag \<Rightarrow> 's jtag \<Rightarrow> scan list \<Rightarrow> bool" where
  "traced j j' es \<longleftrightarrow>
     (\<exists>cs. wires (io j') = wires (io j) @ cs \<and> tap_run (current_state j) cs = current_state j' \<and>
        (\<forall>acc. scans (current_state j) acc cs = es))"

lemma traced_refl: "traced j j []"
  unfolding traced_def by (intro exI [of _ "[]"]) simp

lemma traced_trans: "traced j j1 es \<Longrightarrow> traced j1 j2 fs \<Longrightarrow> traced j j2 (es @ fs)"
  unfolding traced_def by (metis append.assoc scans_append tap_run_append)

text \<open>
  \<open>does P m S\<close>: started where \<open>P\<close> holds, \<open>m\<close> leaves the controllers idle when it returns, and the
  chip got scans of the set \<open>S\<close>.
\<close>

definition does :: "('s jtag \<Rightarrow> bool) \<Rightarrow> ('s jtag, 'b) act \<Rightarrow> scan list set \<Rightarrow> bool" where
  "does P m S \<longleftrightarrow> (\<forall>j x j'. P j \<longrightarrow> m j = (Ret x, j') \<longrightarrow> idles j' \<and> (\<exists>es \<in> S. traced j j' es))"

definition follows :: "scan list set \<Rightarrow> scan list set \<Rightarrow> scan list set" where
  "follows S T = {es @ fs | es fs. es \<in> S \<and> fs \<in> T}"

lemma follows_single [simp]: "follows {es} {fs} = {es @ fs}"
  by (auto simp: follows_def)

lemma doesD: "does P m S \<Longrightarrow> P j \<Longrightarrow> m j = (Ret x, j') \<Longrightarrow> idles j' \<and> (\<exists>es \<in> S. traced j j' es)"
  unfolding does_def by blast

lemma does_rests: "does rests m S \<Longrightarrow> does idles m S"
  unfolding does_def using idles_rests by blast

lemma does_weaken: "does P m S \<Longrightarrow> S \<subseteq> T \<Longrightarrow> does P m T"
  unfolding does_def by blast

lemma does_return: "does idles (return_act x) {[]}"
  using traced_refl by (auto simp: does_def)

lemma does_throw: "does P (throw_act e) S"
  by (simp add: does_def)

lemma does_bind:
  assumes "does P m S" and "\<And>x. does idles (f x) T"
  shows "does P (bind_act m f) (follows S T)"
  unfolding does_def
proof (intro allI impI)
  fix j y j2 assume P: "P j" and "bind_act m f j = (Ret y, j2)"
  then obtain x j1 where 1: "m j = (Ret x, j1)" and 2: "f x j1 = (Ret y, j2)" by auto
  from doesD [OF assms(1) P 1] obtain es where i1: "idles j1" and es: "es \<in> S" "traced j j1 es" by blast
  from doesD [OF assms(2) i1 2] obtain fs where fs: "idles j2" "fs \<in> T" "traced j1 j2 fs" by blast
  with es traced_trans [OF es(2) fs(3)]
  show "idles j2 \<and> (\<exists>es \<in> follows S T. traced j j2 es)" by (auto simp: follows_def)
qed

lemma does_then: "does P m S \<Longrightarrow> does idles k T \<Longrightarrow> does P (then_act m k) (follows S T)"
  unfolding then_act_def by (rule does_bind)

lemma does_then_exact: "does P m {es} \<Longrightarrow> does idles k {fs} \<Longrightarrow> does P (then_act m k) {es @ fs}"
  using does_then [of P m "{es}" k "{fs}"] by simp

lemma does_ignore:
  assumes "does P m S"
  shows "does P (bind_act m (\<lambda>x. return_act (f x))) S"
  using assms unfolding does_def by auto

lemma does_run: "does idles (run_acts []) {[]}"
  "does P m {es} \<Longrightarrow> does idles (run_acts ms) {fs} \<Longrightarrow> does P (run_acts (m # ms)) {es @ fs}"
  by (simp_all add: does_return does_then_exact)

text \<open>The operations.\<close>

lemma shiftIR_does:
  assumes "6 \<le> 8 * length b"
  shows "does rests (shiftIR D (Some b) tdo) {[IR (map Some (bits_of b 6))]}"
  unfolding does_def
proof (intro allI impI)
  fix j r j' assume j: "rests j" and run: "shiftIR D (Some b) tdo j = (Ret r, j')"
  then have tr: "tracks j" and dev: "deviceIndex j = 0" and n: "numDevices j = 1"
    and ir: "irlen (devices j ! 0) = 6" and post: "postIRState j = RUN_TEST_IDLE"
    and st: "resting (current_state j)" and chip: "one_chip j"
    by (simp_all add: rests_def one_chip_def)
  let ?ds = "map Some (bits_of b 6)"
  have "wires (io j') = wires (io j) @ tms_clocks (tap_moves (current_state j) SHIFT_IR) @
        data_clocks False ?ds True @ tms_clocks (tap_moves EXIT1_IR RUN_TEST_IDLE) \<and>
      tracks j' \<and> chain_setup j' = chain_setup j \<and> current_state j' = RUN_TEST_IDLE \<and>
      shiftDRincomplete j' = shiftDRincomplete j"
    using shiftIR_wires [OF tr _ _ _ _ _ run] assms
    by (simp add: dev n ir post ir_bits_def tdi_bits_def)
  moreover from this have "one_chip j'" using one_chip_frame [of j' j] chip by simp
  moreover have "?ds \<noteq> []" by (simp flip: length_0_conv)
  ultimately show "idles j' \<and> (\<exists>es \<in> {[IR ?ds]}. traced j j' es)"
    using scan_IR [OF st, of ?ds] by (simp add: idles_def traced_def)
qed

lemma shiftDR_does:
  assumes "0 < len" and "\<And>b. tdi = Some b \<Longrightarrow> len \<le> 8 * length b"
  shows "does rests (shiftDR D tdi tdo len 0 True) {[DR (driven (out_bits tdi tdo len) True)]}"
  unfolding does_def
proof (intro allI impI)
  fix j r j' assume j: "rests j" and run: "shiftDR D tdi tdo len 0 True j = (Ret r, j')"
  then have tr: "tracks j" and dev: "deviceIndex j = 0" and n: "numDevices j = 1"
    and post: "postDRState j = RUN_TEST_IDLE" and inc: "\<not> shiftDRincomplete j"
    and st: "resting (current_state j)" and chip: "one_chip j"
    by (simp_all add: rests_def one_chip_def)
  let ?ds = "out_bits tdi tdo len"
  have "current_state j \<noteq> UNKNOWN" using st by (auto simp: resting_def)
  then have "wires (io j') = wires (io j) @ tms_clocks (tap_moves (current_state j) SHIFT_DR) @
        data_clocks False ?ds True @ tms_clocks (tap_moves EXIT1_DR RUN_TEST_IDLE) \<and>
      tracks j' \<and> chain_setup j' = chain_setup j \<and> current_state j' = RUN_TEST_IDLE \<and> \<not> shiftDRincomplete j'"
    using shiftDR_wires [OF tr _ inc _ _ assms run] by (simp add: dev n post dr_pre_def)
  moreover from this have "one_chip j'" using one_chip_frame [of j' j] chip inc by simp
  moreover have "?ds \<noteq> []" using assms(1) by simp
  ultimately show "idles j' \<and> (\<exists>es \<in> {[DR (driven ?ds True)]}. traced j j' es)"
    using scan_DR [OF st, of ?ds] by (simp add: idles_def traced_def)
qed

text \<open>Clock cycles while TMS keeps its level, which is low in Run-Test/Idle.\<close>

lemma level_idles:
  assumes j: "idles j" and d: "io_ok d" "wires d = wires (io j) @ map (Pair (held (wires (io j)))) ds"
  shows "idles (j\<lparr>io := d\<rparr>) \<and> traced j (j\<lparr>io := d\<rparr>) (replicate (length ds) Idle)"
proof -
  have tr: "tracks j" and st: "current_state j = RUN_TEST_IDLE" using j by (simp_all add: idles_def)
  then have "\<not> held (wires (io j))" by (auto simp: tracks_def stays_def stable_def)
  then have w: "wires d = wires (io j) @ map (Pair False) ds" using d(2) by simp
  have "tracks (j\<lparr>io := d\<rparr>)" using tracks_level [OF tr _ d] st by (simp add: stable_def)
  then have "idles (j\<lparr>io := d\<rparr>)" using j by (simp add: idles_def one_chip_def)
  moreover have "traced j (j\<lparr>io := d\<rparr>) (replicate (length ds) Idle)"
    unfolding traced_def by (intro exI [of _ "map (Pair False) ds"]) (simp add: w st scans_idle)
  ultimately show ?thesis by simp
qed

lemma cycleTCK_does: "does idles (cycleTCK D n b) {replicate n Idle}"
  unfolding does_def
proof (intro allI impI)
  fix j u j' assume j: "idles j" and "cycleTCK D n b j = (Ret u, j')"
  then obtain d where 1: "shift D b n False (io j) = (Ret u, d)" and j': "j' = j\<lparr>io := d\<rparr>"
    by (auto simp: cycleTCK_def)
  have "io_ok (io j)" using j by (simp add: idles_def)
  from shift_wires [OF this 1]
  have "io_ok d" and "wires d = wires (io j) @ map (Pair (held (wires (io j)))) (replicate n (Some b))"
    by (simp_all add: data_clocks_def)
  from level_idles [OF j this] show "idles j' \<and> (\<exists>es \<in> {replicate n Idle}. traced j j' es)"
    by (simp add: j')
qed

lemma Usleep_does: "does idles (jtag_Usleep D usec) {replicate n Idle | n. True}"
  unfolding does_def
proof (intro allI impI)
  fix j u j' assume j: "idles j" and "jtag_Usleep D usec j = (Ret u, j')"
  then obtain d where 1: "io_Usleep D usec (io j) = (Ret u, d)" and j': "j' = j\<lparr>io := d\<rparr>"
    by (auto simp: jtag_Usleep_def)
  have "io_ok (io j)" using j by (simp add: idles_def)
  from Usleep_wires [OF this 1] level_idles [OF j]
  show "idles j' \<and> (\<exists>es \<in> {replicate n Idle | n. True}. traced j j' es)" unfolding j' by blast
qed

end

end
