(* ===== verification/Progalg_Props.thy ===== *)
theory Progalg_Props
  imports Chip Progalg Bitfile_Props
begin

unbundle bit_operations_syntax

text \<open>
  What the configuration programs of \<open>progalgxc3s.cpp\<close> make a chain of one chip see: the sequences
  of instructions, data and idle cycles, as a specification, and the proof that the programs
  produce them over every cable that keeps the contract \<open>jtag_cable\<close>.
\<close>

section \<open>The sequences\<close>

definition ir6 :: "byte list \<Rightarrow> scan" where
  "ir6 instr = IR (map Some (bits_of instr 6))"

definition dr_bits :: "bool list \<Rightarrow> scan" where
  "dr_bits bs = DR (map Some bs)"

definition enable_scans :: "nat \<Rightarrow> scan list" where
  "enable_scans t = [ir6 ISC_ENABLE, dr_bits (replicate 5 False)] @ replicate t Idle"

definition legacy_scans :: "nat \<Rightarrow> bool list \<Rightarrow> scan list" where
  "legacy_scans t bs =
     [ir6 JSHUTDOWN] @ replicate t Idle @ [ir6 CFG_IN, dr_bits bs, Idle, ir6 JSTART] @
     replicate (2 * t) Idle @ [ir6 BYPASS, dr_bits [False], Idle]"

definition disable_scans :: "nat \<Rightarrow> scan list" where
  "disable_scans t = [ir6 ISC_DISABLE] @ replicate t Idle @ [ir6 BYPASS, dr_bits [False], Idle]"

definition dna_scans :: "progalg \<Rightarrow> scan list" where
  "dna_scans P =
     (if family P \<in> {0x11, 0x13, 0x1c, 0x20}
      then [ir6 ISC_ENABLE, ir6 ISC_DNA, DR (replicate 63 None @ [Some False]), Idle] else [])"

text \<open>The polls at the end, with the idle cycles of each delay.\<close>

definition poll_scans :: "nat list \<Rightarrow> scan list" where
  "poll_scans ks = concat (map (\<lambda>k. ir6 BYPASS # replicate k Idle) ks)"

text \<open>\<open>n\<close> is the number of extra polls until the configuration memory is cleared.\<close>

definition program_scans :: "progalg \<Rightarrow> bool list \<Rightarrow> nat \<Rightarrow> nat list \<Rightarrow> scan list" where
  "program_scans P bs n ks =
     enable_scans (tck_len P) @ [ir6 JPROGRAM] @ replicate (Suc n) (ir6 CFG_IN) @ dna_scans P @
     legacy_scans (tck_len P) bs @ disable_scans (tck_len P) @ poll_scans ks"

text \<open>The bits of the data, most significant bit of a byte first, as the file has them.\<close>

definition msb_bits :: "byte list \<Rightarrow> bool list" where
  "msb_bits d = concat (map (\<lambda>b. map (\<lambda>i. bit b (7 - i)) [0..<8]) d)"

lemma bits_of_bitrev: "bits_of (map bitrev d) (8 * length d) = msb_bits d"
proof (induction d)
  case Nil
  then show ?case by (simp add: msb_bits_def)
next
  case (Cons b d)
  have "bits_of (map bitrev (b # d)) (1 * 8 + 8 * length d) =
      bits_of [bitrev b] 8 @ bits_of (map bitrev d) (8 * length d)"
    by (subst bits_of_split) simp_all
  moreover have "bits_of [bitrev b] 8 = map (\<lambda>i. bit b (7 - i)) [0..<8]"
    by (auto simp: bits_of_def bit_at_def bit_bitrev)
  ultimately show ?case using Cons by (simp add: msb_bits_def)
qed

text \<open>The file the programs shift.\<close>

definition has_data :: "bitfile \<Rightarrow> byte list \<Rightarrow> bool" where
  "has_data bf d \<longleftrightarrow> buffer bf = Some (map bitrev d) \<and> blength bf = length d \<and> d \<noteq> [] \<and> 8 * length d < 2 ^ 32"

section \<open>The programs\<close>

lemma driven_open: "driven (replicate (Suc n) None) True = replicate n None @ [Some False]"
  by (simp add: driven_def replicate_append_same [symmetric])

lemma length_instructions [simp]:
  "length JPROGRAM = 2" "length CFG_IN = 2" "length JSHUTDOWN = 2" "length JSTART = 2"
  "length ISC_ENABLE = 2" "length ISC_DISABLE = 2" "length BYPASS = 2" "length ISC_DNA = 1"
  by (simp_all add: JPROGRAM_def CFG_IN_def JSHUTDOWN_def JSTART_def ISC_ENABLE_def ISC_DISABLE_def
      BYPASS_def ISC_DNA_def)

lemma zero_bits: "bits_of [0] n = replicate n False" if "n \<le> 8"
proof -
  have "map (bit_at [0]) [0..<n] = map (\<lambda>_. False) [0..<n]"
    using that by (auto simp: bit_at_def)
  then show ?thesis by (simp add: bits_of_def map_replicate_const)
qed

context jtag_cable
begin

lemma load_IR_does: "6 \<le> 8 * length b \<Longrightarrow> does rests (load_IR D b) {[ir6 b]}"
  unfolding load_IR_def ir6_def by (intro does_ignore shiftIR_does)

lemma load_DR_does:
  assumes "0 < n" and "n \<le> 8 * length b"
  shows "does rests (load_DR D b n) {[dr_bits (bits_of b n)]}"
proof -
  have "does rests (shiftDR D (Some b) None n 0 True) {[DR (driven (out_bits (Some b) None n) True)]}"
    by (rule shiftDR_does) (use assms in auto)
  then show ?thesis
    unfolding load_DR_def dr_bits_def by (intro does_ignore) (simp add: out_bits_def tdi_bits_def)
qed

lemma shift_file_does:
  assumes "has_data bf d"
  shows "does rests (shift_file D bf) {[dr_bits (msb_bits d)]}"
proof -
  have len: "getLength bf = 8 * length d"
    using assms by (simp add: getLength_def has_data_def mult.commute)
  have data: "getData bf = Some (map bitrev d)" using assms by (simp add: getData_def has_data_def)
  have "does rests (load_DR D (map bitrev d) (8 * length d)) {[dr_bits (msb_bits d)]}"
    using load_DR_does [of "8 * length d" "map bitrev d"] assms by (simp add: bits_of_bitrev has_data_def)
  then show ?thesis by (simp only: shift_file_def load_DR_def len data)
qed

lemmas flow_steps = does_rests [OF load_IR_does] does_rests [OF load_DR_does] does_rests [OF shift_file_does]
  cycleTCK_does does_run

lemma flow_enable_does: "does rests (flow_enable D P) {enable_scans (tck_len P)}"
proof -
  have "does rests (flow_enable D P)
      {[ir6 ISC_ENABLE] @ [dr_bits (bits_of [0] 5)] @ replicate (tck_len P) Idle @ []}"
    unfolding flow_enable_def by (intro does_run(2) load_IR_does flow_steps) simp_all
  then show ?thesis by (simp add: enable_scans_def zero_bits)
qed

lemma flow_disable_does: "does idles (flow_disable D P) {disable_scans (tck_len P)}"
proof -
  have "does idles (flow_disable D P)
      {[ir6 ISC_DISABLE] @ replicate (tck_len P) Idle @ [ir6 BYPASS] @ [dr_bits (bits_of [0] 1)] @
       replicate 1 Idle @ []}"
    unfolding flow_disable_def by (intro flow_steps) simp_all
  then show ?thesis by (simp add: disable_scans_def zero_bits)
qed

lemma flow_program_legacy_does:
  assumes "has_data bf d"
  shows "does idles (flow_program_legacy D P bf) {legacy_scans (tck_len P) (msb_bits d)}"
proof -
  have "does idles (flow_program_legacy D P bf)
      {[ir6 JSHUTDOWN] @ replicate (tck_len P) Idle @ [ir6 CFG_IN] @ [dr_bits (msb_bits d)] @
       replicate 1 Idle @ [ir6 JSTART] @ replicate (2 * tck_len P) Idle @ [ir6 BYPASS] @
       [dr_bits (bits_of [0] 1)] @ replicate 1 Idle @ []}"
    unfolding flow_program_legacy_def by (intro flow_steps) (use assms in simp_all)
  then show ?thesis by (simp add: legacy_scans_def zero_bits)
qed

lemma read_DNA_does: "length junk = 8 \<Longrightarrow> does idles (read_DNA D P junk) {dna_scans P}"
proof -
  assume junk: "length junk = 8"
  have "does idles (bind_act (shiftDR D None (Some junk) 64 0 True) (\<lambda>_. return_act ()))
      {[DR (driven (out_bits None (Some junk) 64) True)]}"
    by (intro does_ignore does_rests [OF shiftDR_does]) simp_all
  moreover have "driven (out_bits None (Some junk) 64) True = replicate 63 None @ [Some False]"
    using driven_open [of 63] by (simp add: out_bits_def tdi_bits_def)
  ultimately have "does idles (run_acts [load_IR D ISC_ENABLE, load_IR D ISC_DNA,
          bind_act (shiftDR D None (Some junk) 64 0 True) (\<lambda>_. return_act ()), cycleTCK D 1 True])
      {[ir6 ISC_ENABLE] @ [ir6 ISC_DNA] @ [DR (replicate 63 None @ [Some False])] @ replicate 1 Idle @ []}"
    by (intro flow_steps) simp_all
  then show ?thesis by (simp add: read_DNA_def dna_scans_def does_return)
qed

text \<open>The loops.\<close>

lemma capture_IR_does: "6 \<le> 8 * length b \<Longrightarrow> does idles (capture_IR D b buf) {[ir6 b]}"
  unfolding capture_IR_def ir6_def by (intro does_ignore does_rests [OF shiftIR_does])

lemma wait_clear_does:
  assumes "wait_clear D buf j = Some (Ret b, j')" and "idles j"
  shows "idles j' \<and> (\<exists>n. traced j j' (replicate (Suc n) (ir6 CFG_IN)))"
proof -
  let ?P = "\<lambda>D' (buf :: byte) j res. D' = D \<longrightarrow> idles j \<longrightarrow> (\<forall>b j'. res = (Ret b, j') \<longrightarrow>
      idles j' \<and> (\<exists>n. traced j j' (replicate (Suc n) (ir6 CFG_IN))))"
  have "?P D buf j (Ret b, j')"
  proof (rule wait_clear.raw_induct [OF _ assms(1), where P = ?P], goal_cases)
    case (1 loop D' buf j res)
    show ?case
    proof (intro impI allI)
      fix b j' assume D: "D' = D" and j: "idles j" and res: "res = (Ret b, j')"
      with 1(2) obtain b1 j1 where c: "capture_IR D CFG_IN buf j = (Ret b1, j1)"
          and next1: "(if b1 AND 0x10 = 0 then loop D b1 j1 else Some (Ret b1, j1)) = Some (Ret b, j')"
        by (auto split: prod.splits outcome.splits)
      have i1: "idles j1" and t1: "traced j j1 [ir6 CFG_IN]"
        using doesD [OF capture_IR_does j c] by simp_all
      show "idles j' \<and> (\<exists>n. traced j j' (replicate (Suc n) (ir6 CFG_IN)))"
      proof (cases "b1 AND 0x10 = 0")
        case True
        then have "loop D b1 j1 = Some (Ret b, j')" using next1 by simp
        with 1(1) i1 obtain n where "idles j'" "traced j1 j' (replicate (Suc n) (ir6 CFG_IN))" by blast
        with traced_trans [OF t1 this(2)] show ?thesis by (auto intro!: exI [of _ "Suc n"])
      next
        case False
        with next1 i1 t1 show ?thesis by (auto intro!: exI [of _ 0])
      qed
    qed
  qed
  then show ?thesis using assms(2) by blast
qed

lemma wait_until_clear_does:
  "does idles (wait_until_clear D buf) {replicate (Suc n) (ir6 CFG_IN) | n. True}"
  unfolding does_def wait_until_clear_def using wait_clear_does by (fastforce split: option.splits)

lemma wait_done_polls:
  "wait_done D n buf j = (Ret left, j') \<Longrightarrow> idles j \<Longrightarrow>
   idles j' \<and> (\<exists>ks. length ks + left = n \<and> traced j j' (poll_scans ks))"
proof (induction n arbitrary: buf j)
  case 0
  then show ?case using traced_refl by (auto simp: poll_scans_def)
next
  case (Suc n)
  show ?case
  proof (cases "buf AND 0x23 \<noteq> 0x21")
    case False
    then show ?thesis using Suc.prems traced_refl by (auto simp: poll_scans_def)
  next
    case True
    then obtain b j1 j2 where 1: "capture_IR D BYPASS buf j = (Ret b, j1)"
        and 2: "jtag_Usleep D 1000 j1 = (Ret (), j2)" and 3: "wait_done D n b j2 = (Ret left, j')"
      using Suc.prems(1) by auto
    have i1: "idles j1" and t1: "traced j j1 [ir6 BYPASS]"
      using doesD [OF capture_IR_does Suc.prems(2) 1] by simp_all
    obtain k where i2: "idles j2" and t2: "traced j1 j2 (replicate k Idle)"
      using doesD [OF Usleep_does i1 2] by blast
    obtain ks where "idles j'" "length ks + left = n" "traced j2 j' (poll_scans ks)"
      using Suc.IH [OF 3 i2] by blast
    moreover from this traced_trans [OF traced_trans [OF t1 t2]]
    have "traced j j' (poll_scans (k # ks))" by (simp add: poll_scans_def)
    ultimately show ?thesis by (intro conjI exI [of _ "k # ks"]) simp_all
  qed
qed

lemma wait_done_does:
  "does idles (bind_act (wait_done D n buf)
      (\<lambda>left. if left = 0 then throw_act e else return_act ())) {poll_scans ks | ks. length ks < n}"
  unfolding does_def
proof (intro allI impI)
  fix j u j' assume j: "idles j"
    and "bind_act (wait_done D n buf) (\<lambda>left. if left = 0 then throw_act e else return_act ()) j = (Ret u, j')"
  then obtain left where "wait_done D n buf j = (Ret left, j')" and "left \<noteq> 0"
    by (auto split: if_splits)
  moreover from wait_done_polls [OF this(1) j] obtain ks where "idles j'" "length ks + left = n"
      "traced j j' (poll_scans ks)" by blast
  ultimately have "idles j'" "length ks < n" "traced j j' (poll_scans ks)" by simp_all
  then show "idles j' \<and> (\<exists>es \<in> {poll_scans ks | ks. length ks < n}. traced j j' es)" by blast
qed

theorem array_program_does:
  assumes "family P \<noteq> FAMILY_XC2S" and "family P \<noteq> FAMILY_XC2SE" and "has_data bf d"
  shows "does rests (array_program D g P bf) {program_scans P (msb_bits d) n ks | n ks. length ks < 50}"
proof -
  have flow: "array_program D g P bf =
      then_act (flow_enable D P) (then_act (load_IR D JPROGRAM) (bind_act (wait_until_clear D 0)
        (\<lambda>buf. then_act (read_DNA D P (stack_bytes g ''data'' 8))
          (then_act (flow_program_legacy D P bf) (then_act (flow_disable D P)
            (bind_act (wait_done D 50 buf)
              (\<lambda>left. if left = 0 then throw_act ''Error configuring device'' else return_act ())))))))"
    using assms(1,2) by (simp add: array_program_def)
  have "does rests (array_program D g P bf)
      (follows {enable_scans (tck_len P)} (follows {[ir6 JPROGRAM]}
        (follows {replicate (Suc n) (ir6 CFG_IN) | n. True} (follows {dna_scans P}
          (follows {legacy_scans (tck_len P) (msb_bits d)} (follows {disable_scans (tck_len P)}
            {poll_scans ks | ks. length ks < 50}))))))"
    unfolding flow
    by (intro does_then does_bind flow_enable_does does_rests [OF load_IR_does] wait_until_clear_does
        read_DNA_does flow_program_legacy_does flow_disable_does wait_done_does assms(3)) simp_all
  then show ?thesis
    by (rule does_weaken) (fastforce simp: follows_def program_scans_def)
qed

end

end
