(* ===== verification/Progalg_Live.thy ===== *)
theory Progalg_Live
  imports Progalg_Props
begin

unbundle bit_operations_syntax

text \<open>
  That the configuration programs end. On a cable whose writes return every flow does; on one that
  also answers, with the state of a chip that is ready, the loops that wait for the chip end after
  one poll and none.
\<close>

context live_cable
begin

definition completes :: "('a jtag \<Rightarrow> bool) \<Rightarrow> ('a jtag, 'b) act \<Rightarrow> bool" where
  "completes P m \<longleftrightarrow> (\<forall>j. P j \<longrightarrow> (\<exists>x j'. m j = (Ret x, j') \<and> idles j'))"

lemma completesI:
  assumes "does P m S" and "\<And>j. P j \<Longrightarrow> \<exists>x j'. m j = (Ret x, j')"
  shows "completes P m"
  unfolding completes_def
proof (intro allI impI)
  fix j assume j: "P j"
  with assms(2) obtain x j' where "m j = (Ret x, j')" by blast
  with doesD [OF assms(1) j this] show "\<exists>x j'. m j = (Ret x, j') \<and> idles j'" by blast
qed

lemma completes_then:
  assumes "completes P m" and "completes idles k"
  shows "completes P (then_act m k)"
  unfolding completes_def
proof (intro allI impI)
  fix j assume "P j"
  with assms(1) obtain u j1 where "m j = (Ret u, j1)" and "idles j1" unfolding completes_def by blast
  moreover from this(2) assms(2) obtain x j2 where "k j1 = (Ret x, j2)" and "idles j2"
    unfolding completes_def by blast
  ultimately show "\<exists>x j'. then_act m k j = (Ret x, j') \<and> idles j'" by (simp add: then_act_Ret)
qed

lemma completes_bind:
  assumes "completes P m" and "\<And>x. completes idles (f x)"
  shows "completes P (bind_act m f)"
  unfolding completes_def
proof (intro allI impI)
  fix j assume "P j"
  with assms(1) obtain y j1 where "m j = (Ret y, j1)" and "idles j1" unfolding completes_def by blast
  moreover from this(2) assms(2) [of y] obtain x j2 where "f y j1 = (Ret x, j2)" and "idles j2"
    unfolding completes_def by blast
  ultimately show "\<exists>x j'. bind_act m f j = (Ret x, j') \<and> idles j'" by (simp add: bind_act_Ret)
qed

lemma completes_return: "completes idles (return_act x)"
  by (simp add: completes_def return_act_def)

lemma completes_run: "completes idles (run_acts [])"
  "completes P m \<Longrightarrow> completes idles (run_acts ms) \<Longrightarrow> completes P (run_acts (m # ms))"
  by (simp_all add: completes_return completes_then)

lemma completes_rests: "completes rests m \<Longrightarrow> completes idles m"
  unfolding completes_def using idles_rests by blast

lemma load_IR_completes:
  assumes "6 \<le> 8 * length b"
  shows "completes rests (load_IR D b)"
proof (rule completesI [OF load_IR_does [OF assms]])
  fix j assume "rests j"
  then have "tracks j" "postIRState j \<noteq> UNKNOWN" "0 < irlen (devices j ! nat (deviceIndex j))"
    "nat (irlen (devices j ! nat (deviceIndex j))) \<le> 8 * length b"
    using assms by (simp_all add: rests_def one_chip_def)
  from shiftIR_total [OF this] show "\<exists>x j'. load_IR D b j = (Ret x, j')"
    by (auto simp: load_IR_def bind_act_Ret return_act_def)
qed

lemma load_DR_completes:
  assumes "0 < n" and "n \<le> 8 * length b"
  shows "completes rests (load_DR D b n)"
proof (rule completesI [OF load_DR_does [OF assms]])
  fix j assume "rests j"
  then have "tracks j" "postDRState j \<noteq> UNKNOWN" by (simp_all add: rests_def one_chip_def)
  from shiftDR_total [OF this assms(1), of "Some b" 0 True] assms(2)
  show "\<exists>x j'. load_DR D b n j = (Ret x, j')" by (auto simp: load_DR_def bind_act_Ret return_act_def)
qed

lemma shift_file_completes:
  assumes "has_data bf d"
  shows "completes rests (shift_file D bf)"
proof -
  have "getLength bf = 8 * length d" "getData bf = Some (map bitrev d)"
    using assms by (simp_all add: getLength_def getData_def has_data_def mult.commute)
  moreover have "completes rests (load_DR D (map bitrev d) (8 * length d))"
    using assms by (intro load_DR_completes) (simp_all add: has_data_def)
  ultimately show ?thesis by (simp add: shift_file_def load_DR_def)
qed

lemma cycleTCK_completes: "completes idles (cycleTCK D n b)"
proof (rule completesI [OF cycleTCK_does])
  fix j assume "idles j"
  then have "io_ok (io j)" by (simp add: idles_def)
  from shift_returns [OF this] show "\<exists>x j'. cycleTCK D n b j = (Ret x, j')"
    unfolding cycleTCK_def by (metis on_io_Ret)
qed

lemmas flow_returns = completes_rests [OF load_IR_completes] completes_rests [OF load_DR_completes]
  completes_rests [OF shift_file_completes] cycleTCK_completes completes_run

lemma flow_enable_completes: "completes rests (flow_enable D P)"
  unfolding flow_enable_def by (intro completes_run(2) load_IR_completes flow_returns) simp_all

lemma flow_disable_completes: "completes idles (flow_disable D P)"
  unfolding flow_disable_def by (intro flow_returns) simp_all

lemma flow_program_legacy_completes:
  "has_data bf d \<Longrightarrow> completes idles (flow_program_legacy D P bf)"
  unfolding flow_program_legacy_def by (intro flow_returns) simp_all

end

text \<open>\<open>status\<close> are the six bits every capture of the instruction register gives.\<close>

locale answering_cable = live_cable +
  fixes status :: "bool list"
  assumes captures: "ok s \<Longrightarrow> 6 \<le> 8 * length b \<Longrightarrow>
      \<exists>t' s'. cb_txrx D (Some b) (Some [t]) 6 True s = (Ret (Some [t']), s') \<and> bits_of [t'] 6 = status"
    and reads_id: "ok s \<Longrightarrow> \<exists>r s'. cb_txrx D None (Some buf) 64 True s = (Ret r, s')"
begin

lemma shift_tdo_returns:
  assumes "io_ok d" and "0 < n"
    and "\<And>s. ok s \<Longrightarrow> \<exists>r s'. cb_txrx D tdi (Some t) n final s = (Ret r, s') \<and> R r"
  shows "\<exists>r d'. shiftTDITDO D tdi (Some t) n final d = (Ret r, d') \<and> R r"
proof -
  obtain d1 where 1: "flush_tms D False d = (Ret (), d1)" using flush_returns [OF assms(1)] by blast
  then have "ok (drv d1)" using flush_tms_wires [OF assms(1) 1] by (simp add: io_ok_def)
  with assms(3) obtain r s' where "cb_txrx D tdi (Some t) n final (drv d1) = (Ret r, s')" and "R r" by blast
  with 1 assms(2) show ?thesis by (auto simp: shiftTDITDO_def bind_act_Ret on_drv_def on_part_def)
qed

lemma capture_IR_answers:
  assumes "idles j" and "6 \<le> 8 * length b"
  shows "\<exists>t' j'. capture_IR D b t j = (Ret t', j') \<and> idles j' \<and> bits_of [t'] 6 = status"
proof -
  let ?R = "\<lambda>r. \<exists>t'. r = Some [t'] \<and> bits_of [t'] 6 = status"
  have chip: "tracks j" "postIRState j \<noteq> UNKNOWN" "0 \<le> deviceIndex j"
      "0 < irlen (devices j ! nat (deviceIndex j))" "nat (irlen (devices j ! nat (deviceIndex j))) \<le> 8 * length b"
      and n: "irlen (devices j ! nat (deviceIndex j)) = 6" and dev: "deviceIndex j = 0"
    using assms by (simp_all add: idles_def one_chip_def)
  have "\<exists>r j'. shiftIR D (Some b) (Some [t]) j = (Ret r, j') \<and> ?R r"
  proof (rule shiftIR_returns_if [OF chip], goal_cases)
    case (1 d final)
    then have final: "final" by (simp add: dev ir_bits_def)
    show ?case unfolding n using final
      by (intro shift_tdo_returns 1) (use captures [OF _ assms(2), of _ t] in \<open>simp, force\<close>)
  qed
  then obtain t' j' where 1: "shiftIR D (Some b) (Some [t]) j = (Ret (Some [t']), j')" "bits_of [t'] 6 = status"
    by blast
  then have run: "capture_IR D b t j = (Ret t', j')" by (simp add: capture_IR_def bind_act_Ret return_act_def)
  with doesD [OF capture_IR_does [OF assms(2)] assms(1) run] 1(2) show ?thesis by blast
qed

lemma read_DNA_completes: "length junk = 8 \<Longrightarrow> completes idles (read_DNA D P junk)"
proof -
  assume junk: "length junk = 8"
  have "completes idles (bind_act (shiftDR D None (Some junk) 64 0 True) (\<lambda>_. return_act ()))"
  proof (rule completesI [where S = "{[DR (driven (out_bits None (Some junk) 64) True)]}"])
    show "does idles (bind_act (shiftDR D None (Some junk) 64 0 True) (\<lambda>_. return_act ()))
        {[DR (driven (out_bits None (Some junk) 64) True)]}"
      by (intro does_ignore does_rests [OF shiftDR_does]) simp_all
    fix j assume "idles j"
    then have chip: "tracks j" "postDRState j \<noteq> UNKNOWN" and dev: "deviceIndex j = 0"
      and inc: "\<not> shiftDRincomplete j"
      by (simp_all add: idles_def one_chip_def)
    have "\<exists>r j'. shiftDR D None (Some junk) 64 0 True j = (Ret r, j')"
    proof (rule shiftDR_returns_if [OF chip], goal_cases)
      case (3 k final)
      then have final by (simp add: dev)
      with 3(1) have "\<exists>r d'. shiftTDITDO D None (Some junk) 64 final (io k) = (Ret r, d') \<and> True"
        by (intro shift_tdo_returns) (use reads_id in \<open>simp_all\<close>)
      then show ?case by (auto simp: on_io_Ret)
    qed simp_all
    then show "\<exists>x j'. bind_act (shiftDR D None (Some junk) 64 0 True) (\<lambda>_. return_act ()) j = (Ret x, j')"
      by (auto simp: bind_act_Ret return_act_def)
  qed
  then have "completes idles (run_acts [load_IR D ISC_ENABLE, load_IR D ISC_DNA,
          bind_act (shiftDR D None (Some junk) 64 0 True) (\<lambda>_. return_act ()), cycleTCK D 1 True])"
    by (intro flow_returns) simp_all
  then show ?thesis by (simp add: read_DNA_def completes_return)
qed

text \<open>A chip that has cleared its memory and is configured: INIT and DONE.\<close>

lemma captured_ready:
  assumes "bits_of [t] 6 = status" and "status ! 0" and "\<not> status ! 1" and "status ! 4" and "status ! 5"
  shows "t AND 0x10 \<noteq> 0" and "t AND 0x23 = 0x21"
proof -
  have "bit_at [t] i = status ! i" if "i < 6" for i
    using that by (simp add: assms(1) [symmetric] bits_of_def)
  then have bits: "bit t 0" "\<not> bit t 1" "bit t 4" "bit t 5"
    using assms(2-5) by (auto simp: bit_at_def dest: meta_spec [of _ 0] meta_spec [of _ 1] meta_spec [of _ 4] meta_spec [of _ 5])
  show "t AND 0x10 \<noteq> 0"
  proof
    assume "t AND 0x10 = 0"
    then have "bit (t AND 0x10) 4 = bit (0 :: byte) 4" by simp
    then show False using bits(3) by (simp add: bit_simps)
  qed
  show "t AND 0x23 = 0x21"
  proof (rule bit_word_eqI)
    fix i assume "i < LENGTH(8)"
    then have "i < 8" by simp
    then show "bit (t AND 0x23) i = bit (0x21 :: byte) i"
      by (rule less_8_cases) (use bits in \<open>simp_all add: bit_simps\<close>)
  qed
qed

lemma array_program_completes:
  assumes "family P \<noteq> FAMILY_XC2S" and "family P \<noteq> FAMILY_XC2SE" and "has_data bf d"
    and st: "status ! 0" "\<not> status ! 1" "status ! 4" "status ! 5"
  shows "completes rests (array_program D g P bf)"
proof -
  have wait: "\<exists>t' j'. wait_until_clear D buf j = (Ret t', j') \<and> idles j' \<and> t' AND 0x23 = 0x21" if "idles j" for buf j
  proof -
    from capture_IR_answers [OF that, of CFG_IN buf] obtain t' j' where
        c: "capture_IR D CFG_IN buf j = (Ret t', j')" "idles j'" "bits_of [t'] 6 = status" by auto
    then have "wait_until_clear D buf j = (Ret t', j')"
      using captured_ready(1) [OF c(3) st] by (simp add: wait_until_clear_def wait_clear.simps)
    with c(2) captured_ready(2) [OF c(3) st] show ?thesis by blast
  qed
  have ready: "wait_done D 50 buf = return_act 50" if "buf AND 0x23 = 0x21" for buf
    using that wait_done.simps(2) [of D 49 buf] by simp
  have tail: "completes idles
      (then_act (read_DNA D P (stack_bytes g ''data'' 8))
        (then_act (flow_program_legacy D P bf) (then_act (flow_disable D P)
          (bind_act (wait_done D 50 buf)
            (\<lambda>left. if left = 0 then throw_act ''Error configuring device'' else return_act ())))))"
    if "buf AND 0x23 = 0x21" for buf
  proof -
    have "bind_act (wait_done D 50 buf) f = f 50" for f :: "nat \<Rightarrow> ('a jtag, unit) act"
      by (rule ext) (simp add: ready [OF that] bind_act_def return_act_def)
    then show ?thesis
      by (simp only:) (intro completes_then read_DNA_completes flow_program_legacy_completes [OF assms(3)]
          flow_disable_completes; simp add: completes_return)
  qed
  have "completes idles (bind_act (wait_until_clear D 0)
      (\<lambda>buf. then_act (read_DNA D P (stack_bytes g ''data'' 8))
        (then_act (flow_program_legacy D P bf) (then_act (flow_disable D P)
          (bind_act (wait_done D 50 buf)
            (\<lambda>left. if left = 0 then throw_act ''Error configuring device'' else return_act ()))))))"
    unfolding completes_def
  proof (intro allI impI)
    fix j assume "idles j"
    with wait obtain t' j1 where 1: "wait_until_clear D 0 j = (Ret t', j1)" "idles j1" "t' AND 0x23 = 0x21" by blast
    with tail [OF 1(3), unfolded completes_def] show "\<exists>x j'. bind_act (wait_until_clear D 0)
      (\<lambda>buf. then_act (read_DNA D P (stack_bytes g ''data'' 8))
        (then_act (flow_program_legacy D P bf) (then_act (flow_disable D P)
          (bind_act (wait_done D 50 buf)
            (\<lambda>left. if left = 0 then throw_act ''Error configuring device'' else return_act ()))))) j = (Ret x, j') \<and> idles j'"
      by (simp add: bind_act_Ret)
  qed
  then have "completes rests (then_act (flow_enable D P) (then_act (load_IR D JPROGRAM)
      (bind_act (wait_until_clear D 0)
        (\<lambda>buf. then_act (read_DNA D P (stack_bytes g ''data'' 8))
          (then_act (flow_program_legacy D P bf) (then_act (flow_disable D P)
            (bind_act (wait_done D 50 buf)
              (\<lambda>left. if left = 0 then throw_act ''Error configuring device'' else return_act ()))))))))"
    by (intro completes_then flow_enable_completes completes_rests [OF load_IR_completes]) simp_all
  then show ?thesis using assms(1,2) by (simp add: array_program_def)
qed

end

end
