(* ===== verification/Ioftdi_Answers.thy ===== *)
theory Ioftdi_Answers
  imports Ioftdi_Props Progalg_Live
begin

unbundle bit_operations_syntax

text \<open>
  The FTDI cable on a bus that answers: every transfer from the chip carries one byte of data, the
  same one each time. On it the operations that read back return too, with what the byte stands
  for; it is where the loops that wait for a chip end.
\<close>

section \<open>The bus\<close>

definition shows_byte :: "'w libusb \<Rightarrow> byte \<Rightarrow> bool" where
  "shows_byte L v \<longleftrightarrow>
     (\<forall>h ep n t w. 3 \<le> n \<longrightarrow> (\<exists>a b w'. lu_bulk_in L h ep n t w = ((0, [a, b, v]), w')))"

lemma shows_byteD:
  "shows_byte L v \<Longrightarrow> 3 \<le> n \<Longrightarrow> lu_bulk_in L h ep n t w = ((r, d), w') \<Longrightarrow> r = 0 \<and> (\<exists>a b. d = [a, b, v])"
  unfolding shows_byte_def by (metis prod.inject)

lemma shows_logging: "shows_byte L v \<Longrightarrow> shows_byte (logging L) v"
  using shows_byteD [of L v] unfolding shows_byte_def by (auto simp: logging_def split: prod.splits)

text \<open>An open device with room for such a transfer and no byte of an earlier one left.\<close>

definition emptied :: "ftdi_context \<Rightarrow> bool" where
  "emptied c \<longleftrightarrow> usb_dev c \<noteq> None \<and> readbuffer_remaining c = 0 \<and> 3 \<le> readbuffer_chunksize c \<and>
     3 \<le> max_packet_size c \<and> 3 \<le> length (readbuffer c)"

definition steady :: "'w libusb \<Rightarrow> byte \<Rightarrow> 'w st \<Rightarrow> bool" where
  "steady L v h \<longleftrightarrow> bulk_ok L \<and> shows_byte L v \<and> (case fst h of None \<Rightarrow> False | Some c \<Rightarrow> emptied c)"

lemma one_byte_packet: "3 \<le> ps \<Longrightarrow> strip_status ps b (Suc (Suc (Suc 0))) = (b, 1)"
proof -
  assume "3 \<le> ps"
  then have "\<not> int (3 - 2) > int ps - 2" by simp
  then have "strip_status ps b 3 = (b, 3 - 2)" unfolding strip_status_def Let_def by (simp only: if_False)
  then show ?thesis by (simp add: numeral_3_eq_3)
qed

lemma read_loop_steady:
  assumes L: "shows_byte L v"
  shows "emptied c \<Longrightarrow> offset < sz \<Longrightarrow>
    \<exists>c' w'. read_loop L h (max_packet_size c) sz c out offset 1 w =
      ((int sz, out @ replicate (sz - offset) v), Some c', w') \<and> emptied c'"
proof (induction "sz - offset" arbitrary: c out offset w rule: less_induct)
  case less
  let ?c1 = "invalidate_readbuffer c"
  obtain a b w1 where tr: "lu_bulk_in L h (out_ep c) (readbuffer_chunksize c) (usb_read_timeout c) w = ((0, [a, b, v]), w1)"
    using L less.prems(1) unfolding shows_byte_def emptied_def by blast
  let ?c3 = "?c1\<lparr>readbuffer := overlay [a, b, v] (readbuffer ?c1), readbuffer_offset := 2\<rparr>"
  have ps: "3 \<le> max_packet_size c" and len: "3 \<le> length (readbuffer c)"
    using less.prems(1) by (simp_all add: emptied_def)
  have c3: "emptied ?c3" "max_packet_size ?c3 = max_packet_size c"
    using less.prems(1) by (simp_all add: emptied_def invalidate_readbuffer_def)
  have payload: "take (Suc 0) (drop 2 (overlay [a, b, v] x)) = [v]" for x
    by (simp add: overlay_def numeral_2_eq_2)
  have step: "read_loop L h (max_packet_size c) sz c out offset 1 w =
      (if offset + 1 = sz then ((int sz, out @ [v]), Some ?c3, w1)
       else read_loop L h (max_packet_size c) sz ?c3 (out @ [v]) (offset + 1) 1 w1)"
    using less.prems(2) tr
    by (subst read_loop.simps) (simp add: Let_def one_byte_packet [OF ps] payload del: invalidate_simps)
  show ?case
  proof (cases "offset + 1 = sz")
    case True
    then have "sz - offset = 1" by simp
    with step True c3(1) show ?thesis by simp
  next
    case False
    then have "sz - (offset + 1) < sz - offset" "offset + 1 < sz" using less.prems(2) by simp_all
    from less.hyps [OF this(1) c3(1) this(2), of "out @ [v]" w1] obtain c' w' where
        "read_loop L h (max_packet_size c) sz ?c3 (out @ [v]) (offset + 1) 1 w1 =
          ((int sz, (out @ [v]) @ replicate (sz - (offset + 1)) v), Some c', w')" and "emptied c'"
      unfolding c3(2) by blast
    moreover have "sz - offset = Suc (sz - (offset + 1))" using less.prems(2) by simp
    ultimately show ?thesis using step False by (simp add: replicate_app_Cons_same)
  qed
qed

lemma read_steady:
  assumes "steady L v h"
  shows "\<exists>h'. ftdi_read_data L k h = (Ret (int k, replicate k v), h') \<and> steady L v h'"
proof -
  obtain c w where h: "h = (Some c, w)" and c: "emptied c" and L: "shows_byte L v" "bulk_ok L"
    using assms by (cases h) (auto simp: steady_def split: option.splits)
  obtain d where d: "usb_dev c = Some d" and rem: "readbuffer_remaining c = 0" and ps: "max_packet_size c \<noteq> 0"
    using c by (auto simp: emptied_def)
  show ?thesis
  proof (cases "k = 0")
    case True
    then show ?thesis using assms by (auto simp: h ftdi_read_data_def d ps steady_def emptied_def)
  next
    case False
    then obtain c' w' where "read_loop L d (max_packet_size c) k c [] 0 1 w =
        ((int k, replicate k v), Some c', w')" and "emptied c'"
      using read_loop_steady [OF L(1) c, of 0 k d "[]" w] by auto
    then show ?thesis using False L by (auto simp: h ftdi_read_data_def d ps rem steady_def)
  qed
qed

lemma write_steady:
  assumes "steady L v h" and wr: "ftdi_write_data L buf (int (length buf)) h = Some (n, h')"
  shows "steady L v h' \<and> (n \<noteq> int (length buf) \<longrightarrow> ftdi_get_error_string h' \<noteq> None)"
proof -
  obtain c w where h: "h = (Some c, w)" and c: "emptied c" and L: "shows_byte L v" "bulk_ok L"
    using assms(1) by (cases h) (auto simp: steady_def split: option.splits)
  obtain d where d: "usb_dev c = Some d" using c by (auto simp: emptied_def)
  have "write_loop L c d buf (int (length buf)) 0 w = Some (n, h')"
    using wr by (simp add: h ftdi_write_data_def with_dev_def d)
  from write_loop_message [OF L(2) refl order_refl _ this]
  have "fst h' = Some c \<or> (\<exists>m. fst h' = Some (c\<lparr>error_str := Some m\<rparr>))" by auto
  moreover have "emptied (c\<lparr>error_str := Some m\<rparr>)" for m using c by (simp add: emptied_def)
  ultimately have "steady L v h'" using L c by (auto simp: steady_def)
  moreover have "fst h \<noteq> None" by (simp add: h)
  from write_data_message [OF L(2) this wr] have "n \<noteq> int (length buf) \<longrightarrow> ftdi_get_error_string h' \<noteq> None" by blast
  ultimately show ?thesis by blast
qed

interpretation steady_handle: kept_handle E "steady (ev_usb E) v" for E v
proof (unfold_locales, goal_cases)
  case (1 h buf n h')
  from write_steady [OF this] show ?case .
next
  case (2 h k r h')
  with read_steady [of "ev_usb E" v h k] show ?case by auto
qed

section \<open>Reading back\<close>

lemma returns_both:
  assumes "returns P m" and "upholds Q m"
  shows "returns (\<lambda>s. P s \<and> Q s) m"
  unfolding returns_def
proof (intro allI impI)
  fix s assume s: "P s \<and> Q s"
  obtain x s' where 1: "m s = (Ret x, s')" and "P s'" using returnsE [OF assms(1) conjunct1 [OF s]] .
  with upholdsD [OF assms(2) conjunct2 [OF s] 1] show "\<exists>x s'. m s = (Ret x, s') \<and> P s' \<and> Q s'" by blast
qed

definition steady_port :: "'w libusb \<Rightarrow> byte \<Rightarrow> 'w logged ioftdi \<Rightarrow> bool" where
  "steady_port L v s \<longleftrightarrow> live_port L s \<and> fits (steady (logging L) v) s"

lemma steady_returns:
  assumes "returns (live_port L) m" and "upholds (fits (steady (logging L) v)) m"
  shows "returns (steady_port L v) m"
proof -
  have "steady_port L v = (\<lambda>s. live_port L s \<and> fits (steady (logging L) v) s)"
    by (simp add: fun_eq_iff steady_port_def)
  with returns_both [OF assms] show ?thesis by simp
qed

lemma steady_add_cmd:
  "ev_usb E = logging L \<Longrightarrow> length buf \<le> TX_BUF - 2 \<Longrightarrow> returns (steady_port L v) (mpsse_add_cmd E buf)"
  using steady_returns [OF add_cmd_live] steady_handle.upholds_add_cmd [of buf E v] by simp

lemma steady_send: "ev_usb E = logging L \<Longrightarrow> returns (steady_port L v) (mpsse_send E)"
  using steady_returns [OF send_returns] steady_handle.upholds_send [of E v] by simp

lemma steady_read:
  assumes usb: "ev_usb E = logging L" and s: "steady_port L v s"
  shows "\<exists>s'. read_ftdi E n s = (Ret (int n, replicate n v), s') \<and> steady_port L v s'"
proof -
  have "steady (logging L) v (ftdi_handle s)" using s by (simp add: steady_port_def fits_def)
  from read_steady [OF this, of n] obtain h'
    where rd: "ftdi_read_data (logging L) n (ftdi_handle s) = (Ret (int n, replicate n v), h')"
      and h': "steady (logging L) v h'" by blast
  have "port_ready L h'" using ftdi_read_port [OF _ rd] s by (simp add: steady_port_def live_port_def)
  then show ?thesis
    using s rd h' by (simp add: read_ftdi_def on_part_def usb steady_port_def live_port_def fits_def)
qed

lemma readusb_answers:
  assumes usb: "ev_usb E = logging L" and s: "steady_port L v s" and "0 < n"
  shows "\<exists>s'. readusb E n s = (Ret (replicate n v), s') \<and> steady_port L v s'"
proof -
  have "returns (steady_port L v) (then_act (mpsse_add_cmd E [SEND_IMMEDIATE])
      (then_act (mpsse_send E) (modify_act (\<lambda>s. s\<lparr>calls_rd := calls_rd s + 1\<rparr>))))"
    by (intro returns_rules steady_add_cmd steady_send returns_modify usb)
      (simp_all add: steady_port_def live_port_def fits_def)
  from returnsE [OF this s] obtain s1 s2 s3 where 1: "mpsse_add_cmd E [SEND_IMMEDIATE] s = (Ret (), s1)"
      "mpsse_send E s1 = (Ret (), s2)" "s3 = s2\<lparr>calls_rd := calls_rd s2 + 1\<rparr>" and s3: "steady_port L v s3"
    by (simp only: then_act_returns modify_act_returns) blast
  obtain s' where 2: "read_ftdi E n s3 = (Ret (int n, replicate n v), s')" and s': "steady_port L v s'"
    using steady_read [OF usb s3] by blast
  have "readusb E n s = (Ret (replicate n v), s')"
    using 1 2 \<open>0 < n\<close>
    by (simp add: readusb_def then_act_Ret modify_act_def bind_act_Ret read_retry_full return_act_def)
  with s' show ?thesis by blast
qed

lemma readusb_returns: "ev_usb E = logging L \<Longrightarrow> 0 < n \<Longrightarrow> returns (steady_port L v) (readusb E n)"
  using readusb_answers unfolding returns_def by blast

text \<open>The result of a block that ends its shift: a reply of nothing but the byte.\<close>

definition shown :: "'w io_env \<Rightarrow> byte \<Rightarrow> nat \<Rightarrow> byte list \<Rightarrow> byte list" where
  "shown E v len t =
     (let q = (len - 1) mod 8; n = (if q \<noteq> 0 then (len - 1) div 8 + 1 else (len - 1) div 8) + 1 in
      write_at 0 (take (if q = 0 then n else n - 1)
        (align_last q n (overlay (replicate n v) (ev_stack E)))) t)"

definition block_head :: "'w io_env \<Rightarrow> byte list option \<Rightarrow> byte list \<Rightarrow> nat \<Rightarrow> ('w ioftdi, unit) act" where
  "block_head E tdi t len =
     (let n = (len - 1) div 8; q = (len - 1) mod 8;
          last = (case tdi of None \<Rightarrow> False | Some b \<Rightarrow> bit (b ! n) q) in
      then_act (if n \<noteq> 0 then add_bytes_cmd E tdi (Some t) 0 n else return_act ())
        (then_act
          (if q \<noteq> 0 then
             then_act (mpsse_add_cmd E
                 [data_op tdi (Some t) (MPSSE_LSB OR MPSSE_BITMODE OR MPSSE_WRITE_NEG), of_nat (q - 1)])
               (case tdi of None \<Rightarrow> return_act () | Some b \<Rightarrow> mpsse_add_cmd E [b ! n])
           else return_act ())
          (mpsse_add_cmd E
            [data_op None (Some t) (MPSSE_WRITE_TMS OR MPSSE_LSB OR MPSSE_BITMODE OR MPSSE_WRITE_NEG),
             0, if last then 0x81 else 1])))"

lemma then_act_assoc: "then_act (then_act a b) c = then_act a (then_act b c)"
  by (rule ext) (auto simp: then_act_def bind_act_def split: prod.splits outcome.splits)

lemma txrx_block_one:
  assumes "(len - 1) div 8 < TX_BUF - 4"
  shows "txrx_block E tdi (Some t) len True =
    then_act (block_head E tdi t len)
      (bind_act (read_result E True ((len - 1) mod 8) 0
          ((if (len - 1) mod 8 \<noteq> 0 then (len - 1) div 8 + 1 else (len - 1) div 8) + 1) t)
        (\<lambda>b'. return_act (Some b')))"
proof (rule ext)
  fix s
  have "\<not> (len - 1) div 8 > FULL" "\<not> (len - 1) div 8 \<ge> TX_BUF - 4" using assms by simp_all
  then show "txrx_block E tdi (Some t) len True s = then_act (block_head E tdi t len)
      (bind_act (read_result E True ((len - 1) mod 8) 0
          ((if (len - 1) mod 8 \<noteq> 0 then (len - 1) div 8 + 1 else (len - 1) div 8) + 1) t)
        (\<lambda>b'. return_act (Some b'))) s"
    unfolding txrx_block_def if_True
    by (subst bind_act_Ret [OF full_chunks_done])
      (simp_all only: block_head_def then_act_assoc prod.case Let_def if_False if_True bind_return
        option.case add_0 not_False_eq_True)
qed

lemma txrx_answers:
  assumes usb: "ev_usb E = logging L" and s: "steady_port L v s" and len: "(len - 1) div 8 < TX_BUF - 4"
  shows "\<exists>s'. txrx_block E tdi (Some t) len True s = (Ret (Some (shown E v len t)), s')"
proof -
  let ?n = "(len - 1) div 8" and ?q = "(len - 1) mod 8"
  let ?m = "(if ?q \<noteq> 0 then ?n + 1 else ?n) + 1"
  have bytes: "returns (steady_port L v) (add_bytes_cmd E tdi (Some t) 0 ?n)"
    unfolding add_bytes_cmd_def using len
    by (cases tdi) (auto intro!: returns_rules steady_add_cmd usb)
  have byte: "returns (steady_port L v) (case tdi of None \<Rightarrow> return_act () | Some b \<Rightarrow> mpsse_add_cmd E [b ! ?n])"
    by (cases tdi) (simp_all add: returns_return steady_add_cmd usb)
  have "returns (steady_port L v) (block_head E tdi t len)"
    unfolding block_head_def Let_def by (intro returns_rules steady_add_cmd bytes byte usb) simp_all
  from returnsE [OF this s] obtain s1 where 1: "block_head E tdi t len s = (Ret (), s1)" "steady_port L v s1"
    by (metis (full_types) old.unit.exhaust)
  obtain s' where "readusb E ?m s1 = (Ret (replicate ?m v), s')"
    using readusb_answers [OF usb 1(2), of ?m] by auto
  then have "read_result E True ?q 0 ?m t s1 = (Ret (shown E v len t), s')"
    by (simp add: read_result_def bind_act_Ret return_act_def shown_def Let_def del: replicate.simps)
  with 1(1) show ?thesis
    unfolding txrx_block_one [OF len] by (simp add: then_act_Ret bind_act_Ret return_act_def)
qed

text \<open>A capture of six bits: five come in a byte of their own, from its bit 3 on.\<close>

definition captured :: "byte \<Rightarrow> byte" where
  "captured v = drop_bit 3 v OR drop_bit 2 (v AND 0x80)"

lemma shown_6: "shown E v 6 [t] = [captured v]"
  by (simp add: shown_def Let_def align_last_def overlay_def captured_def write_at_def
      numeral_2_eq_2 take_Suc)

section \<open>The cable answers\<close>

definition answer_ok :: "'w libusb \<Rightarrow> byte \<Rightarrow> 'w logged ioftdi \<Rightarrow> bool" where
  "answer_ok L v s \<longleftrightarrow> live_ok L s \<and> fits (steady (logging L) v) s"

lemma answer_ok_port: "answer_ok L v s \<Longrightarrow> steady_port L v s"
  by (simp add: answer_ok_def steady_port_def live_ok_port)

lemma answer_ok_keeps:
  "answer_ok L v s \<Longrightarrow> upholds (fits (steady (logging L) v)) m \<Longrightarrow> m s = (Ret r, s') \<Longrightarrow>
   live_ok L s' \<Longrightarrow> answer_ok L v s'"
  using upholdsD [of "fits (steady (logging L) v)" m s "Ret r" s'] by (simp add: answer_ok_def)

text \<open>The bits of every capture.\<close>

definition captured_bits :: "byte \<Rightarrow> bool list" where
  "captured_bits v = bits_of [captured v] 6"

interpretation ftdi_answers: answering_cable "ioftdi_cable (E\<lparr>ev_usb := logging L\<rparr>)" ft_clocks
  "answer_ok L v" "captured_bits v" for E L v
proof (unfold_locales, goal_cases)
  case (1 s n pat force u s')
  then show ?case
    using answer_ok_keeps [OF 1(1) steady_handle.upholds_tx_tms [of "E\<lparr>ev_usb := logging L\<rparr>" v, simplified]]
      ftdi_live.cable_tms [of L s n pat E force u s']
    by (simp add: answer_ok_def ioftdi_cable_def)
next
  case (2 s n tdi tdo final r s')
  then show ?case
    using answer_ok_keeps [OF 2(1) steady_handle.upholds_txrx_block [of "E\<lparr>ev_usb := logging L\<rparr>" v, simplified]]
      ftdi_live.cable_txrx [of L s n tdi tdo E final r s']
    by (simp add: answer_ok_def ioftdi_cable_def)
next
  case (3 s usec u s')
  then show ?case
    using answer_ok_keeps [OF 3(1) steady_handle.upholds_Usleep [of "E\<lparr>ev_usb := logging L\<rparr>" v, simplified]]
      ftdi_live.cable_usleep [of L s E usec u s']
    by (simp add: answer_ok_def ioftdi_cable_def)
next
  case (4 s pat n force)
  then show ?case using ftdi_live.tms_returns [of L s E pat n force] by (simp add: answer_ok_def)
next
  case (5 s n b final)
  then show ?case using ftdi_live.tdi_returns [of L s n b E final] by (simp add: answer_ok_def)
next
  case (6 s usec)
  then show ?case using ftdi_live.usleep_returns [of L s E usec] by (simp add: answer_ok_def)
next
  case (7 s b t)
  then show ?case
    using txrx_answers [OF _ answer_ok_port [OF 7(1)], of "E\<lparr>ev_usb := logging L\<rparr>" 6 "Some b" "[t]"]
    by (auto simp: ioftdi_cable_def shown_6 captured_bits_def)
next
  case (8 s buf)
  then show ?case
    using txrx_answers [OF _ answer_ok_port [OF 8(1)], of "E\<lparr>ev_usb := logging L\<rparr>" 64 None buf]
    by (auto simp: ioftdi_cable_def)
qed

end
