(* ===== verification/Programmer_Props.thy ===== *)
theory Programmer_Props
  imports Programmer Progalg_Live Ioftdi_Answers Jtag_Ftdi
begin

unbundle bit_operations_syntax

text \<open>
  The programmer on the FTDI cable, from the chain check to the configured chip: what its
  constructor establishes, what a program run makes the chip receive, what it rejects, and that
  it ends when the chip answers.
\<close>

section \<open>The chain\<close>

context jtag_cable
begin

lemma chain_loop_devices:
  "chain_loop D ir idx j = (Ret u, j') \<Longrightarrow> length (devices j) = nat (numDevices j) \<Longrightarrow> 0 \<le> numDevices j \<Longrightarrow>
   \<exists>d n ds. j' = j\<lparr>io := d, numDevices := n, devices := ds\<rparr> \<and> length ds = nat n \<and> 0 \<le> n"
proof (induction "nat (MAXNUMDEVICES - numDevices j)" arbitrary: j idx rule: less_induct)
  case less
  obtain r j1 where 1: "on_io (shiftTDITDO D (Some (replicate 4 0)) (Some idx) 32 False) j = (Ret r, j1)"
    using less.prems(1) by (subst (asm) chain_loop.simps) (auto split: prod.splits outcome.splits)
  then obtain d where j1: "j1 = j\<lparr>io := d\<rparr>" by auto
  define id where "id = byteArrayToLong (the r)"
  let ?j2 = "j1\<lparr>numDevices := numDevices j1 + 1, devices := \<lparr>idcode = ucast id, irlen = ir\<rparr> # devices j1\<rparr>"
  have step: "chain_loop D ir idx j =
      (if id \<noteq> 0 \<and> id \<noteq> 0xffffffff then
         (if numDevices ?j2 < MAXNUMDEVICES then chain_loop D ir (the r) ?j2 else (Ret (), ?j2))
       else (Ret (), j1))"
    by (subst chain_loop.simps) (simp only: 1 prod.case outcome.case Let_def id_def)
  consider "j' = j1" | "j' = ?j2"
    | "numDevices ?j2 < MAXNUMDEVICES" "chain_loop D ir (the r) ?j2 = (Ret u, j')"
    using less.prems(1) unfolding step by (auto split: if_splits)
  then show ?case
  proof cases
    case 1
    then show ?thesis using less.prems(2,3) unfolding j1
      by (intro exI [of _ d] exI [of _ "numDevices j"] exI [of _ "devices j"]) simp
  next
    case 2
    then show ?thesis using less.prems(2,3) unfolding j1
      by (intro exI [of _ d] exI [of _ "numDevices j + 1"] exI [of _ "devices ?j2"])
        (simp add: j1 nat_add_distrib)
  next
    case 3
    have "nat (MAXNUMDEVICES - numDevices ?j2) < nat (MAXNUMDEVICES - numDevices j)"
      using 3(1) by (simp add: j1)
    moreover have "length (devices ?j2) = nat (numDevices ?j2)" "0 \<le> numDevices ?j2"
      using less.prems(2,3) by (simp_all add: j1 nat_add_distrib)
    ultimately obtain d' n ds where "j' = ?j2\<lparr>io := d', numDevices := n, devices := ds\<rparr>"
        "length ds = nat n" "0 \<le> n"
      using less.hyps [of ?j2 "the r"] 3(2) by blast
    then show ?thesis unfolding j1
      by (intro exI [of _ d'] exI [of _ n] exI [of _ ds]) simp
  qed
qed

lemma getChain_new:
  assumes inv: "jtag_inv (Jtag_init iob)" and run: "getChain D ir idx False (Jtag_init iob) = (Ret n, j')"
  shows "\<exists>d ds. j' = (Jtag_init iob)\<lparr>current_state := TEST_LOGIC_RESET, io := d, numDevices := n, devices := ds\<rparr> \<and>
    length ds = nat n \<and> 0 \<le> n"
proof -
  let ?j = "Jtag_init iob"
  have new: "numDevices ?j = -1" "devices ?j = []" by (simp_all add: Jtag_init_def)
  with run obtain j1 j2 j3 where 1: "tapTestLogicReset D ?j = (Ret (), j1)"
      and 2: "setTapState D SHIFT_DR 0 j1 = (Ret (), j2)"
      and 3: "chain_loop D ir idx (j2\<lparr>numDevices := 0\<rparr>) = (Ret (), j3)"
      and 4: "setTapState D TEST_LOGIC_RESET 0 j3 = (Ret (), j')" and n: "n = numDevices j'"
    by (auto simp: getChain_def)
  note i1 = reset_inv [OF inv 1]
  obtain d1 where j1: "j1 = ?j\<lparr>current_state := TEST_LOGIC_RESET, io := d1\<rparr>"
    by (rule reset_wires [OF _ 1]) (use inv in \<open>simp add: jtag_inv_def\<close>)
  have i2: "jtag_inv j2 \<and> current_state j2 = SHIFT_DR"
    by (rule move_inv [OF conjunct1 [OF i1] _ _ 2]) simp_all
  obtain d2 where j2: "j2 = j1\<lparr>current_state := SHIFT_DR, io := d2\<rparr>"
    by (rule setTapState_wires [OF _ _ _ 2]) (use i1 in \<open>simp_all add: jtag_inv_def\<close>)
  obtain d3 m ds where j3: "j3 = (j2\<lparr>numDevices := 0\<rparr>)\<lparr>io := d3, numDevices := m, devices := ds\<rparr>"
      "length ds = nat m" "0 \<le> m"
    using chain_loop_devices [OF 3] new by (auto simp: j1 j2)
  have "jtag_inv (j2\<lparr>numDevices := 0\<rparr>)"
    using i2 tracks_frame [of j2 "j2\<lparr>numDevices := 0\<rparr>"] by (simp add: jtag_inv_def)
  then have "jtag_inv j3" by (rule chain_loop_inv [OF _ _ 3]) (simp add: i2)
  then obtain d4 where j': "j' = j3\<lparr>current_state := TEST_LOGIC_RESET, io := d4\<rparr>"
    using setTapState_wires [OF _ _ _ 4] by (auto simp: jtag_inv_def)
  then have "n = m" using n j3 by simp
  with j3 j' show ?thesis unfolding j1 j2
    by (intro exI [of _ d4] exI [of _ ds]) (simp add: Jtag_init_def)
qed

end

text \<open>
  A programmer whose members are initialised and whose chain is not read yet: a new \<open>Jtag\<close> on a
  cable in sync. That the chip of the cable has the fast clock is a condition of its own; the
  constructor also accepts chips without it, for which the properties below say nothing.
\<close>

definition fresh_programmer :: "'w libusb \<Rightarrow> 'w logged programmer \<Rightarrow> bool" where
  "fresh_programmer L p \<longleftrightarrow>
     (\<exists>s. m_jtag p = Jtag_init (iobase_init s) \<and> in_sync L s \<and> device_has_fast_clock s)"

text \<open>
  A programmer that has found one supported chip, on a cable whose chip has the fast clock.
\<close>

definition programmer_ready :: "'w libusb \<Rightarrow> 'w logged programmer \<Rightarrow> bool" where
  "programmer_ready L p \<longleftrightarrow> device_has_fast_clock (drv (io (m_jtag p))) \<and> ftdi_port.ft.rests L (m_jtag p) \<and> m_family p \<in> {FAMILY_XC6S, FAMILY_XC7} \<and>
     family_of (getDeviceID 0 (m_jtag p)) = Some (m_family p)"

lemma check_chain_ready:
  assumes "fresh_programmer L p" and run: "check_chain (E\<lparr>ev_usb := logging L\<rparr>) ir idx p = (Ret u, p')"
  shows "programmer_ready L p'"
proof -
  let ?D = "on_ftdi E L"
  obtain s where p: "m_jtag p = Jtag_init (iobase_init s)" and s: "ft_ok L s"
    using assms(1) by (auto simp: fresh_programmer_def ft_ok_sync)
  have inv0: "ftdi_port.ft.jtag_inv L (Jtag_init (iobase_init s))" using s by (rule ftdi_port.ft.init_inv)
  from run obtain j1 fam k2 j2 j3 k4 j4 where
      1: "getChain ?D ir idx False (m_jtag p) = (Ret 1, j1)"
      and fam: "family_of (getDeviceID 0 j1) = Some fam"
      and 2: "setDeviceIRLength 0 6 j1 = (Ret k2, j2)"
      and 3: "setTapState ?D TEST_LOGIC_RESET 0 j2 = (Ret (), j3)"
      and 4: "selectDevice 0 j3 = (Ret k4, j4)"
      and p': "p' = p\<lparr>m_family := fam, m_jtag := j4\<rparr>"
    unfolding check_chain_def Let_def on_jtag_def by (auto split: if_splits option.splits)
  obtain d ds where j1: "j1 = (Jtag_init (iobase_init s))\<lparr>current_state := TEST_LOGIC_RESET, io := d,
      numDevices := 1, devices := ds\<rparr>" and ds: "length ds = 1"
    using ftdi_port.ft.getChain_new [OF inv0 1 [unfolded p]] by auto
  then obtain x where x: "ds = [x]" by (cases ds) auto
  have j2: "j2 = j1\<lparr>devices := [x\<lparr>irlen := 6\<rparr>]\<rparr>" using 2 by (simp add: setDeviceIRLength_def j1 x)
  have inv1: "ftdi_port.ft.jtag_inv L j1" by (rule ftdi_port.ft.getChain_inv [OF inv0 1 [unfolded p]])
  have inv2: "ftdi_port.ft.jtag_inv L j2" by (rule ftdi_port.ft.step_inv [OF step_irlen [OF 2] inv1])
  have inv3: "ftdi_port.ft.jtag_inv L j3 \<and> current_state j3 = TEST_LOGIC_RESET"
    by (rule ftdi_port.ft.move_inv [OF inv2 _ _ 3]) simp_all
  have "ftdi_port.ft.tracks L j2" using inv2 by (simp add: ftdi_port.ft.jtag_inv_def)
  then obtain d3 where j3: "j3 = j2\<lparr>current_state := TEST_LOGIC_RESET, io := d3\<rparr>"
    using ftdi_port.ft.setTapState_wires [OF _ _ _ 3] by auto
  have inv4: "ftdi_port.ft.jtag_inv L j4"
    by (rule ftdi_port.ft.step_inv [OF step_select [OF 4] conjunct1 [OF inv3]])
  have j4: "j4 = j3\<lparr>deviceIndex := 0\<rparr>" using 4 by (simp add: selectDevice_def j3 j2 j1 Jtag_init_def)
  have chip: "one_chip j4" "current_state j4 = TEST_LOGIC_RESET"
    by (simp_all add: one_chip_def j4 j3 j2 j1 Jtag_init_def)
  have "getDeviceID 0 j4 = getDeviceID 0 j1" by (simp add: getDeviceID_def j4 j3 j2 j1 x)
  moreover have "device_has_fast_clock (drv (io j4))"
    using inv4 by (simp add: ftdi_port.ft.jtag_inv_def ftdi_port.ft.tracks_def ftdi_port.ft.io_ok_def ft_ok_sync)
  moreover have "fam = FAMILY_XC6S \<or> fam = FAMILY_XC7" using fam by (auto simp: family_of_def split: if_splits)
  ultimately show ?thesis
    using chip inv4 fam
    by (auto simp: programmer_ready_def p' ftdi_port.ft.rests_def ftdi_port.ft.jtag_inv_def resting_def)
qed

section \<open>The file\<close>

lemma read_bitfile_data:
  assumes "fs fname = Some content" and "is_bit_file content fls d s" and "d \<noteq> []" and "8 * length d < 2 ^ 32"
  shows "\<exists>bf. read_bitfile g fs fname = Ret bf \<and> has_data bf d"
proof -
  obtain f' where "readBitfile g (BitFile_new, open_file content) = (Ret 0, with_data d s (add_fields fls BitFile_new), f')"
    using readBitfile_whole [OF assms(2), of g BitFile_new] by blast
  then have "read_bitfile g fs fname = Ret (with_data d s (add_fields fls BitFile_new))"
    using assms(1) by (simp add: read_bitfile_def readFile_def)
  moreover have "has_data (with_data d s bf) d" for bf
    using assms(3,4) by (simp add: has_data_def with_data_def Let_def bf_error_def)
  ultimately show ?thesis by blast
qed

lemma program_run:
  "read_bitfile g fs fname = Ret bf \<Longrightarrow>
   program E g fs fname p = on_jtag (array_program (ioftdi_cable E) g (ProgAlgXC3S_new (m_family p)) bf) p"
  by (simp add: program_def)

lemma family_new: "family (ProgAlgXC3S_new fam) = fam"
  by (simp add: ProgAlgXC3S_new_def)

lemma program_traced:
  assumes "programmer_ready L p" and "fs fname = Some content" and "is_bit_file content fls d s"
    and "d \<noteq> []" and "8 * length d < 2 ^ 32"
    and run: "program (E\<lparr>ev_usb := logging L\<rparr>) g fs fname p = (Ret u, p')"
  shows "\<exists>cs n ks. ftdi_wires (io (m_jtag p')) = ftdi_wires (io (m_jtag p)) @ cs \<and> length ks < 50 \<and>
    scans (current_state (m_jtag p)) [] cs =
      program_scans (ProgAlgXC3S_new (m_family p)) (msb_bits d) n ks \<and>
    current_state (m_jtag p') = RUN_TEST_IDLE \<and> m_family p' = m_family p"
proof -
  obtain bf where bf: "read_bitfile g fs fname = Ret bf" "has_data bf d"
    using read_bitfile_data [of fs fname, OF assms(2-5)] by blast
  let ?P = "ProgAlgXC3S_new (m_family p)"
  obtain j' where j': "array_program (on_ftdi E L) g ?P bf (m_jtag p) = (Ret u, j')" and p': "p' = p\<lparr>m_jtag := j'\<rparr>"
    using run unfolding program_run [OF bf(1)] on_jtag_def by auto
  have fam: "family ?P \<noteq> FAMILY_XC2S" "family ?P \<noteq> FAMILY_XC2SE" and rests: "ftdi_port.ft.rests L (m_jtag p)"
    using assms(1) by (auto simp: family_new programmer_ready_def)
  from ftdi_port.ft.doesD [OF ftdi_port.ft.array_program_does [OF fam bf(2)] rests j'] obtain n ks where
      "ftdi_port.ft.idles L j'" "length ks < 50"
      "ftdi_port.ft.traced (m_jtag p) j' (program_scans ?P (msb_bits d) n ks)"
    by blast
  then show ?thesis
    by (auto simp: p' ftdi_port.ft.idles_def ftdi_port.ft.traced_def wires_ftdi)
qed

section \<open>Answers\<close>

text \<open>The byte stands for a chip that has cleared its memory (INIT) and is configured (DONE).\<close>

definition shows_ready :: "byte \<Rightarrow> bool" where
  "shows_ready v \<longleftrightarrow> captured v AND 0x33 = 0x31"

lemma ready_bits:
  assumes "shows_ready v"
  shows "captured_bits v ! 0" "\<not> captured_bits v ! 1" "captured_bits v ! 4" "captured_bits v ! 5"
proof -
  have "bit (captured v AND 0x33) i = bit (0x31 :: byte) i" for i
    using assms by (simp add: shows_ready_def)
  then have eq: "bit (captured v) i \<and> bit (0x33 :: byte) i \<longleftrightarrow> bit (0x31 :: byte) i" for i
    by (simp only: bit_and_iff)
  have at: "captured_bits v ! i = bit (captured v) i" if "i < 6" for i
    using that by (simp add: captured_bits_def bits_of_def bit_at_def)
  show "captured_bits v ! 0" using eq [of 0] by (simp add: at)
  show "\<not> captured_bits v ! 1" using eq [of 1] by (simp add: at)
  show "captured_bits v ! 4" using eq [of 4] by (simp add: at)
  show "captured_bits v ! 5" using eq [of 5] by (simp add: at)
qed

lemma answering_rests:
  assumes "ftdi_port.ft.rests L j" and "answer_ok L v (drv (io j))"
  shows "ftdi_answers.rests L v j"
  using assms
  by (simp add: ftdi_port.ft.rests_def ftdi_answers.rests_def ftdi_port.ft.tracks_def ftdi_answers.tracks_def
      ftdi_port.ft.io_ok_def ftdi_answers.io_ok_def ftdi_port.ft.wires_def ftdi_answers.wires_def)

lemma program_ends:
  assumes "programmer_ready L p" and "answer_ok L v (drv (io (m_jtag p)))" and "shows_ready v"
    and "fs fname = Some content" and "is_bit_file content fls d s" and "d \<noteq> []" and "8 * length d < 2 ^ 32"
  shows "\<exists>p'. program (E\<lparr>ev_usb := logging L\<rparr>) g fs fname p = (Ret (), p')"
proof -
  obtain bf where bf: "read_bitfile g fs fname = Ret bf" "has_data bf d"
    using read_bitfile_data [of fs fname, OF assms(4-7)] by blast
  let ?P = "ProgAlgXC3S_new (m_family p)"
  have fam: "family ?P \<noteq> FAMILY_XC2S" "family ?P \<noteq> FAMILY_XC2SE" and rests: "ftdi_answers.rests L v (m_jtag p)"
    using assms(1) answering_rests [OF _ assms(2)] by (auto simp: family_new programmer_ready_def)
  from ftdi_answers.array_program_completes [OF fam bf(2) ready_bits [OF assms(3)]] rests
  obtain u j' where "array_program (on_ftdi E L) g ?P bf (m_jtag p) = (Ret u, j')"
    unfolding ftdi_answers.completes_def by blast
  then show ?thesis unfolding program_run [OF bf(1)] on_jtag_def by (simp add: on_part_def)
qed

section \<open>An instance\<close>

text \<open>An Artix-7 that is ready, on a bus whose transfers all carry the byte 0x88.\<close>

definition ready_usb :: "unit libusb" where
  "ready_usb = idle_usb\<lparr>lu_bulk_in := (\<lambda>h ep n t w. ((0, take n [1, 2, 0x88]), w))\<rparr>"

lemma ready_usb_out [simp]: "lu_bulk_out ready_usb h ep d t w = ((0, length d), w)"
  by (simp add: ready_usb_def idle_usb_def)

lemma ready_usb_ok: "bulk_ok ready_usb" "bulk_progress ready_usb" "no_errors ready_usb" "shows_byte ready_usb 0x88"
  by (auto simp: bulk_ok_def bulk_progress_def no_errors_def shows_byte_def) (auto simp: ready_usb_def)

definition ready_jtag :: "unit logged ioftdi jtag" where
  "ready_jtag = (Jtag_init (iobase_init (sample_ioftdi ((), []))))
     \<lparr>devices := [\<lparr>idcode = 0x0362d093, irlen = 6\<rparr>], numDevices := 1, deviceIndex := 0\<rparr>"

lemma ready_answers: "answer_ok ready_usb 0x88 (sample_ioftdi ((), []))"
  using ready_usb_ok
  by (simp add: answer_ok_def live_ok_def ft_ok_def port_ready_def in_buffer_def fits_def steady_def emptied_def
      shows_logging sample_ioftdi_def ioftdi_blank_def stream_def port_sent_def pin_ops_def ft_clocks_def held_def)

text \<open>The controllers are reset first.\<close>

lemma ready_programmer:
  obtains p :: "unit logged programmer" where "programmer_ready ready_usb p"
    "answer_ok ready_usb 0x88 (drv (io (m_jtag p)))" "m_family p = FAMILY_XC7"
proof -
  let ?D = "on_ftdi (sample_env (logging ready_usb)) ready_usb"
  have ok: "ftdi_answers.io_ok ready_usb 0x88 (io ready_jtag)"
    using ftdi_answers.io_ok_init [OF ready_answers] by (simp add: ready_jtag_def Jtag_init_def)
  obtain j where 1: "tapTestLogicReset ?D ready_jtag = (Ret (), j)"
    using ftdi_answers.reset_returns [OF ok] by blast
  then obtain d where j: "j = ready_jtag\<lparr>current_state := TEST_LOGIC_RESET, io := d\<rparr>"
      and tr: "ftdi_answers.tracks ready_usb 0x88 j"
    by (rule ftdi_answers.reset_wires [OF ok])
  let ?p = "\<lparr>m_jtag = j, m_family = FAMILY_XC7\<rparr>"
  have "ftdi_port.ft.tracks ready_usb j" and "answer_ok ready_usb 0x88 (drv (io j))"
    using tr by (auto simp: ftdi_port.ft.tracks_def ftdi_answers.tracks_def ftdi_port.ft.io_ok_def
        ftdi_answers.io_ok_def ftdi_port.ft.wires_def ftdi_answers.wires_def answer_ok_def live_ok_def)
  moreover have "device_has_fast_clock (drv (io j))"
    using calculation(2) by (simp add: answer_ok_def live_ok_def ft_ok_sync)
  moreover have "one_chip j" "current_state j = TEST_LOGIC_RESET" "getDeviceID 0 j = 0x0362d093"
    by (simp_all add: j ready_jtag_def one_chip_def Jtag_init_def getDeviceID_def)
  ultimately show thesis
    by (intro that [of ?p]) (simp_all add: programmer_ready_def ftdi_port.ft.rests_def resting_def family_of_def)
qed

section \<open>Properties\<close>

text \<open>C31: What a programmed chip has received. With the chain in the state the constructor leaves on
  a cable whose chip has the fast clock, when \<open>program\<close> returns for a bit file with the data \<open>d\<close>,
  not empty and of fewer than 2^32 bits: the bytes written over USB, up to those
  still buffered, make the chip see exactly the configuration sequence and nothing else. That is
  ISC_ENABLE, JPROGRAM, CFG_IN until the memory is cleared, for a Spartan-6 the device id, then
  JSHUTDOWN, CFG_IN with the bits of \<open>d\<close>, the most significant bit of each byte first, JSTART with
  the start-up clock cycles, BYPASS, ISC_DISABLE, and fewer than 50 polls.\<close>

theorem program_configures:
  assumes "programmer_ready L p" and "fs fname = Some content" and "is_bit_file content fls d s"
    and "d \<noteq> []" and "8 * length d < 2 ^ 32"
    and "program (E\<lparr>ev_usb := logging L\<rparr>) g fs fname p = (Ret u, p')"
  shows "\<exists>cs n ks. ftdi_wires (io (m_jtag p')) = ftdi_wires (io (m_jtag p)) @ cs \<and> length ks < 50 \<and>
    scans (current_state (m_jtag p)) [] cs =
      program_scans (ProgAlgXC3S_new (m_family p)) (msb_bits d) n ks \<and>
    current_state (m_jtag p') = RUN_TEST_IDLE \<and> m_family p' = m_family p"
  by (rule program_traced [of L p fs fname, OF assms])

definition sample_files :: files where
  "sample_files fname = (if fname = ''board.bit'' then Some sample_bit_file else None)"

lemma sample_files_ok:
  "sample_files ''board.bit'' = Some sample_bit_file"
  "is_bit_file sample_bit_file [(0x62, [0x36, 0x73])] [0x80, 0x03] []"
  "[0x80 :: byte, 0x03] \<noteq> []" "8 * length [0x80 :: byte, 0x03] < 2 ^ 32" "shows_ready 0x88"
  by (simp_all add: sample_files_def sample_bit_file_ok shows_ready_def captured_def)

theorem program_configures_witness:
  "\<exists>p p' cs n ks. program (sample_env (logging ready_usb)) (\<lambda>_ _. 0) sample_files ''board.bit'' p = (Ret (), p') \<and>
     ftdi_wires (io (m_jtag p')) = ftdi_wires (io (m_jtag p)) @ cs \<and>
     scans (current_state (m_jtag p)) [] cs = program_scans (ProgAlgXC3S_new FAMILY_XC7)
       ([True, False, False, False, False, False, False, False] @
        [False, False, False, False, False, False, True, True]) n ks"
proof -
  obtain p :: "unit logged programmer" where p: "programmer_ready ready_usb p"
      "answer_ok ready_usb 0x88 (drv (io (m_jtag p)))" "m_family p = FAMILY_XC7"
    by (rule ready_programmer)
  let ?E = "sample_env (logging ready_usb)\<lparr>ev_usb := logging ready_usb\<rparr>"
  have env: "?E = sample_env (logging ready_usb)" by (simp add: sample_env_def)
  obtain p' where run: "program ?E (\<lambda>_ _. 0) sample_files ''board.bit'' p = (Ret (), p')"
    using program_ends [of _ p _ sample_files, OF p(1,2) sample_files_ok(5) sample_files_ok(1-4)] by blast
  have "msb_bits [0x80, 0x03] = [True, False, False, False, False, False, False, False] @
        [False, False, False, False, False, False, True, True]"
    by (simp add: msb_bits_def upt_rec)
  with program_configures [of _ p sample_files, OF p(1) sample_files_ok(1-4) run] run p(3) env show ?thesis by metis
qed

text \<open>C32: Programming ends. In the same state, on a cable whose chip has the fast clock and a bus
  whose writes succeed and whose transfers all carry a byte that stands for a chip with its memory
  cleared and configured, \<open>program\<close> returns for every bit file with data of fewer than 2^32 bits: neither wait loop runs on, and no exception is thrown.\<close>

theorem program_returns:
  assumes "programmer_ready L p" and "answer_ok L v (drv (io (m_jtag p)))" and "shows_ready v"
    and "fs fname = Some content" and "is_bit_file content fls d s" and "d \<noteq> []" and "8 * length d < 2 ^ 32"
  shows "\<exists>p'. program (E\<lparr>ev_usb := logging L\<rparr>) g fs fname p = (Ret (), p')"
  by (rule program_ends [of L p v fs fname, OF assms])

theorem program_returns_witness:
  "\<exists>p p'. m_family p = FAMILY_XC7 \<and>
     program (sample_env (logging ready_usb)) (\<lambda>_ _. 0) sample_files ''board.bit'' p = (Ret (), p')"
proof -
  obtain p :: "unit logged programmer" where p: "programmer_ready ready_usb p"
      "answer_ok ready_usb 0x88 (drv (io (m_jtag p)))" "m_family p = FAMILY_XC7"
    by (rule ready_programmer)
  have "sample_env (logging ready_usb)\<lparr>ev_usb := logging ready_usb\<rparr> = sample_env (logging ready_usb)"
    by (simp add: sample_env_def)
  with program_returns [of _ p _ sample_files, OF p(1,2) sample_files_ok(5) sample_files_ok(1-4),
      of "sample_env (logging ready_usb)" "\<lambda>_ _. 0"] p(3)
  show ?thesis by metis
qed

text \<open>C33: A file that cannot be opened or is not a bit file is not programmed: \<open>program\<close> throws, and
  nothing was clocked, written or buffered.\<close>

theorem program_rejects:
  assumes "\<And>content fls d s. fs fname = Some content \<Longrightarrow> \<not> is_bit_file content fls d s"
  shows "program E g fs fname p =
    (Throws (if fs fname = None then ''Could not open bitfile'' else ''Error processing bitfile''), p)"
proof (cases "fs fname")
  case None
  then show ?thesis by (simp add: program_def read_bitfile_def)
next
  case (Some content)
  obtain r bf f where run: "readBitfile g (BitFile_new, open_file content) = (r, bf, f)" by (metis prod.exhaust)
  from readBitfile_all [OF this] assms [OF Some] have "r = Ret 2" by blast
  then show ?thesis using Some run by (simp add: program_def read_bitfile_def readFile_def)
qed

theorem program_rejects_witness:
  "program (sample_env (logging ready_usb)) (\<lambda>_ _. 0) sample_files ''other.bit''
     \<lparr>m_jtag = ready_jtag, m_family = FAMILY_XC7\<rparr> =
   (Throws ''Could not open bitfile'', \<lparr>m_jtag = ready_jtag, m_family = FAMILY_XC7\<rparr>)"
  by (subst program_rejects) (simp_all add: sample_files_def)

end
