(* ===== verification/Device.thy ===== *)
theory Device
  imports Cpp Ftdi_Open Ftdi_Data
begin

unbundle bit_operations_syntax

text \<open>
  Access to the registers of a board (\<open>src/devices/Device.h\<close>, \<open>Device.cpp\<close>): opening and closing
  the first interface of the FTDI chip as a synchronous FIFO, raw transfers, the commands that
  write and read registers, and the registers that are polled. Sleeping and messages to the
  console are left out.
\<close>

section \<open>State\<close>

abbreviation (input) CMD_READREG :: u16 where "CMD_READREG \<equiv> 1"
abbreviation (input) CMD_WRITEREG :: u16 where "CMD_WRITEREG \<equiv> 2"
abbreviation (input) CMD_READREG_N :: u16 where "CMD_READREG_N \<equiv> 3"
abbreviation (input) CMD_WRITEREG_N :: u16 where "CMD_WRITEREG_N \<equiv> 4"

type_synonym addr_port_t = "byte \<times> byte"

text \<open>\<open>std::map\<close> as a list in the order of its keys; \<open>reg_change_cb\<close>: whether there is a callback.\<close>

record device =
  dev_name :: string
  libusbDevice :: handle
  m_ftdi :: "ftdi_context option"
  m_tracked_regs :: "(addr_port_t \<times> u16) list"
  reg_change_cb :: bool

text \<open>A call of the callback: name, address, port and value.\<close>

type_synonym reg_change = "string \<times> byte \<times> byte \<times> u16"

text \<open>A device, the bus, and the calls of the callback so far.\<close>

record 'w dev_state =
  the_device :: device
  bus :: 'w
  changes :: "reg_change list"

definition isOpen :: "device \<Rightarrow> bool" where
  "isOpen d \<longleftrightarrow> m_ftdi d \<noteq> None"

definition ftdi_of :: "'w dev_state \<Rightarrow> 'w st" where
  "ftdi_of s = (m_ftdi (the_device s), bus s)"

definition put_ftdi :: "'w st \<Rightarrow> 'w dev_state \<Rightarrow> 'w dev_state" where
  "put_ftdi h s = s\<lparr>the_device := (the_device s)\<lparr>m_ftdi := fst h\<rparr>, bus := snd h\<rparr>"

definition on_ftdi_of :: "('w st, 'a) act \<Rightarrow> ('w dev_state, 'a) act" where
  "on_ftdi_of = on_part ftdi_of put_ftdi"

section \<open>Opening and closing\<close>

text \<open>The memory \<open>ftdi_new\<close> gets: whether the EEPROM structure, buffers and the context can be allocated.\<close>

type_synonym heap = "bool \<times> (nat \<Rightarrow> bool) \<times> ftdi_context option"

definition throw_errorstr :: "'w st \<Rightarrow> 'w st \<Rightarrow> 'a outcome \<times> 'w st" where
  "throw_errorstr h h' = (case ftdi_get_error_string h of None \<Rightarrow> (Crashes, h') | Some e \<Rightarrow> (Throws e, h'))"

definition open_context :: "'w libusb \<Rightarrow> heap \<Rightarrow> int \<Rightarrow> handle \<Rightarrow> ('w st, unit) act" where
  "open_context L m itf dev h =
     (case ftdi_new L (fst m) (fst (snd m)) (snd (snd m)) (snd h) of
        (None, w) \<Rightarrow> (Throws ''ftdi_new failed'', None, w)
      | h1 \<Rightarrow>
          (case ftdi_usb_open_dev L dev (snd (ftdi_set_interface itf h1)) of
             (r, h2) \<Rightarrow> if r \<noteq> 0 then throw_errorstr h2 (ftdi_free L h2) else (Ret (), h2)))"

definition closed_ftdi :: "'w libusb \<Rightarrow> 'w st \<Rightarrow> 'w st" where
  "closed_ftdi L h = ftdi_free L (snd (ftdi_usb_close L h))"

definition or_close :: "'w libusb \<Rightarrow> ('w st \<Rightarrow> int \<times> 'w st) \<Rightarrow> ('w st, unit) act" where
  "or_close L m h = (case m h of (r, h') \<Rightarrow> if r \<noteq> 0 then throw_errorstr h' (closed_ftdi L h') else (Ret (), h'))"

text \<open>Interface B is opened only to purge its buffers.\<close>

definition purge_interface_b :: "'w libusb \<Rightarrow> heap \<Rightarrow> handle \<Rightarrow> ('w st, unit) act" where
  "purge_interface_b L m dev =
     then_act (open_context L m INTERFACE_B dev)
       (then_act (or_close L (ftdi_usb_purge_buffers L)) (modify_act (closed_ftdi L)))"

definition setup_interface_a :: "'w libusb \<Rightarrow> ('w st, unit) act" where
  "setup_interface_a L =
     then_act (or_close L (ftdi_usb_reset L))
       (then_act (or_close L (ftdi_set_bitmode L 0 BITMODE_SYNCFF))
         (or_close L (ftdi_set_latency_timer L 1)))"

text \<open>
  \<open>open\<close>. The context of interface A is kept in a local variable until everything has succeeded:
  when interface B fails, it is lost with its open handle.
\<close>

definition device_open :: "'w libusb \<Rightarrow> heap \<Rightarrow> heap \<Rightarrow> ('w dev_state, unit) act" where
  "device_open L ma mb s =
     (if isOpen (the_device s) then (Ret (), s)
      else
        (case open_context L ma INTERFACE_A (libusbDevice (the_device s)) (None, bus s) of
           (Ret _, a, w) \<Rightarrow>
             (case purge_interface_b L mb (libusbDevice (the_device s)) (None, w) of
                (Ret _, _, w1) \<Rightarrow>
                  (case setup_interface_a L (a, w1) of
                     (Ret _, h) \<Rightarrow> (Ret (), put_ftdi h s)
                   | (Throws e, h) \<Rightarrow> (Throws e, s\<lparr>bus := snd h\<rparr>)
                   | (Crashes, h) \<Rightarrow> (Crashes, s)
                   | (Hangs, h) \<Rightarrow> (Hangs, s))
              | (Throws e, h) \<Rightarrow> (Throws e, s\<lparr>bus := snd h\<rparr>)
              | (Crashes, h) \<Rightarrow> (Crashes, s)
              | (Hangs, h) \<Rightarrow> (Hangs, s))
         | (Throws e, h) \<Rightarrow> (Throws e, s\<lparr>bus := snd h\<rparr>)
         | (Crashes, h) \<Rightarrow> (Crashes, s)
         | (Hangs, h) \<Rightarrow> (Hangs, s)))"

definition device_close :: "'w libusb \<Rightarrow> 'w dev_state \<Rightarrow> 'w dev_state" where
  "device_close L s =
     (if isOpen (the_device s)
      then put_ftdi (closed_ftdi L (snd (ftdi_set_bitmode L 0xfb BITMODE_RESET (ftdi_of s)))) s
      else s)"

text \<open>The constructor opens the device; \<open>dev_name\<close> is its serial number.\<close>

definition device_blank :: "handle \<Rightarrow> string \<Rightarrow> device" where
  "device_blank dev nam =
     \<lparr>dev_name = nam, libusbDevice = dev, m_ftdi = None, m_tracked_regs = [], reg_change_cb = False\<rparr>"

section \<open>Transfers\<close>

text \<open>A size passed as an \<open>int\<close>.\<close>

definition c_int :: "nat \<Rightarrow> int" where
  "c_int n = sint (of_nat n :: 32 word)"

definition write_ftdi :: "'w libusb \<Rightarrow> byte list \<Rightarrow> int \<Rightarrow> ('w st, int) act" where
  "write_ftdi L buf sz h =
     (case ftdi_write_data L buf sz h of None \<Rightarrow> (Hangs, h) | Some (r, h') \<Rightarrow> (Ret r, h'))"

text \<open>The polling loop, with \<open>n\<close> of its 100 rounds left; \<open>acc\<close> is what was read.\<close>

fun wait_loop :: "'w libusb \<Rightarrow> nat \<Rightarrow> nat \<Rightarrow> byte list \<Rightarrow> ('w st, byte list) act" where
  "wait_loop L 0 sz acc = return_act acc"
| "wait_loop L (Suc n) sz acc =
     bind_act (ftdi_read_data L (sz - length acc))
       (\<lambda>(r, out).
          if r < 0 then throw_act ''FTDI read error''
          else if length (acc @ out) \<noteq> sz then wait_loop L n sz (acc @ out)
          else return_act (acc @ out))"

text \<open>
  A negative size is only looked at after the checks of \<open>ftdi_read_data\<close>; then the copy of as many
  bytes runs past every buffer.
\<close>

definition ftdi_read_data_wait :: "'w libusb \<Rightarrow> int \<Rightarrow> ('w st, byte list) act" where
  "ftdi_read_data_wait L sz =
     (if sz < 0 then
        bind_act (ftdi_read_data L 0)
          (\<lambda>(r, _). if r < 0 then throw_act ''FTDI read error'' else (\<lambda>h. (Crashes, h)))
      else
        bind_act (wait_loop L 100 (nat sz) [])
          (\<lambda>acc. if length acc \<noteq> nat sz then throw_act ''FTDI read timeout'' else return_act acc))"

text \<open>
  The loop of \<open>writeRaw\<close>; \<open>data\<close> is what is left. A count beyond it, which no libusb reports,
  would run past the buffer.
\<close>

function raw_loop :: "'w libusb \<Rightarrow> byte list \<Rightarrow> ('w st, unit) act" where
  "raw_loop L data h =
     (if data = [] then (Ret (), h)
      else
        (case write_ftdi L data (c_int (length data)) h of
           (Ret r, h') \<Rightarrow>
             if r \<le> 0 then (Throws ''FTDI write error'', h')
             else if nat r > length data then (Crashes, h')
             else raw_loop L (drop (nat r) data) h'
         | (Throws e, h') \<Rightarrow> (Throws e, h')
         | (Crashes, h') \<Rightarrow> (Crashes, h')
         | (Hangs, h') \<Rightarrow> (Hangs, h')))"
  by pat_completeness auto
termination by (relation "measure (\<lambda>(L, data, h). length data)") auto

declare raw_loop.simps [simp del]

definition writeRaw :: "'w libusb \<Rightarrow> byte list \<Rightarrow> ('w dev_state, unit) act" where
  "writeRaw L data = on_ftdi_of (raw_loop L data)"

definition readRaw :: "'w libusb \<Rightarrow> nat \<Rightarrow> ('w dev_state, byte list) act" where
  "readRaw L n = (if n = 0 then return_act [] else on_ftdi_of (ftdi_read_data_wait L (c_int n)))"

section \<open>Registers\<close>

definition reg_cmd :: "u16 \<Rightarrow> byte \<Rightarrow> byte \<Rightarrow> u16" where
  "reg_cmd cmd addr port = push_bit 12 cmd OR push_bit 6 (ucast addr AND 0x3f) OR (ucast port AND 0x3f)"

definition write_all :: "'w libusb \<Rightarrow> byte list \<Rightarrow> ('w st, unit) act" where
  "write_all L buf =
     bind_act (write_ftdi L buf (int (length buf)))
       (\<lambda>r. if r \<noteq> int (length buf) then throw_act ''FTDI write error'' else return_act ())"

definition writeReg :: "'w libusb \<Rightarrow> byte \<Rightarrow> byte \<Rightarrow> u16 \<Rightarrow> ('w dev_state, unit) act" where
  "writeReg L addr port val =
     on_ftdi_of (write_all L (be16 (reg_cmd CMD_WRITEREG addr port) @ be16 val))"

text \<open>Storing a polled value, and calling the callback if it changed.\<close>

definition store_reg :: "addr_port_t \<Rightarrow> u16 \<Rightarrow> 'w dev_state \<Rightarrow> 'w dev_state" where
  "store_reg k v s =
     (let d = the_device s in
      case map_of (m_tracked_regs d) k of
        None \<Rightarrow> s
      | Some old \<Rightarrow>
          s\<lparr>the_device := d\<lparr>m_tracked_regs := map (\<lambda>(k', v'). (k', if k' = k then v else v')) (m_tracked_regs d)\<rparr>,
            changes := changes s @
              (if v \<noteq> old \<and> reg_change_cb d then [(dev_name d, fst k, snd k, v)] else [])\<rparr>)"

definition readReg :: "'w libusb \<Rightarrow> byte \<Rightarrow> byte \<Rightarrow> ('w dev_state, u16) act" where
  "readReg L addr port =
     then_act (on_ftdi_of (write_all L (be16 (reg_cmd CMD_READREG addr port))))
       (bind_act (on_ftdi_of (ftdi_read_data_wait L 2))
         (\<lambda>b. let v = from_be16 (b ! 0) (b ! 1) in
              then_act (modify_act (store_reg (addr, port) v)) (return_act v)))"

text \<open>The words of a block, as they are sent and received: big-endian bytes.\<close>

abbreviation (input) n_packet_max :: nat where "n_packet_max \<equiv> 65535"

function write_packets :: "'w libusb \<Rightarrow> byte \<Rightarrow> byte \<Rightarrow> byte list \<Rightarrow> nat \<Rightarrow> ('w st, unit) act" where
  "write_packets L addr port data n h =
     (if n = 0 then (Ret (), h)
      else
        (let k = min n n_packet_max;
             packet = be16 (reg_cmd CMD_WRITEREG_N addr port) @ be16 (of_nat k) @ take (2 * k) data in
         case write_ftdi L packet (int (length packet)) h of
           (Ret r, h') \<Rightarrow>
             if r \<le> 0 then (Throws ''FTDI write error'', h')
             else if r < int (length packet) then (Throws ''FTDI unhandled partial write'', h')
             else write_packets L addr port (drop (2 * k) data) (n - k) h'
         | (Throws e, h') \<Rightarrow> (Throws e, h')
         | (Crashes, h') \<Rightarrow> (Crashes, h')
         | (Hangs, h') \<Rightarrow> (Hangs, h')))"
  by pat_completeness auto
termination by (relation "measure (\<lambda>(L, addr, port, data, n, h). n)") auto

declare write_packets.simps [simp del]

definition writeRegN :: "'w libusb \<Rightarrow> byte \<Rightarrow> byte \<Rightarrow> byte list \<Rightarrow> nat \<Rightarrow> ('w dev_state, unit) act" where
  "writeRegN L addr port data n = on_ftdi_of (write_packets L addr port data n)"

function read_packets :: "'w libusb \<Rightarrow> byte \<Rightarrow> byte \<Rightarrow> nat \<Rightarrow> byte list \<Rightarrow> ('w st, byte list) act" where
  "read_packets L addr port n acc h =
     (if n = 0 then (Ret acc, h)
      else
        (let k = min n n_packet_max in
         case then_act (write_all L (be16 (reg_cmd CMD_READREG_N addr port) @ be16 (of_nat k)))
                (ftdi_read_data_wait L (int (2 * k))) h of
           (Ret b, h') \<Rightarrow> read_packets L addr port (n - k) (acc @ b) h'
         | (Throws e, h') \<Rightarrow> (Throws e, h')
         | (Crashes, h') \<Rightarrow> (Crashes, h')
         | (Hangs, h') \<Rightarrow> (Hangs, h')))"
  by pat_completeness auto
termination by (relation "measure (\<lambda>(L, addr, port, n, acc, h). n)") auto

declare read_packets.simps [simp del]

definition readRegN :: "'w libusb \<Rightarrow> byte \<Rightarrow> byte \<Rightarrow> nat \<Rightarrow> ('w dev_state, byte list) act" where
  "readRegN L addr port n = on_ftdi_of (read_packets L addr port n [])"

section \<open>Polled registers\<close>

text \<open>Insertion into the map, unless the key is there; the keys are compared as pairs.\<close>

definition key_less :: "addr_port_t \<Rightarrow> addr_port_t \<Rightarrow> bool" where
  "key_less k k' \<longleftrightarrow> fst k < fst k' \<or> fst k = fst k' \<and> snd k < snd k'"

fun map_insert :: "addr_port_t \<Rightarrow> u16 \<Rightarrow> (addr_port_t \<times> u16) list \<Rightarrow> (addr_port_t \<times> u16) list" where
  "map_insert k v [] = [(k, v)]"
| "map_insert k v ((k', v') # m) =
     (if key_less k k' then (k, v) # (k', v') # m
      else if k = k' then (k', v') # m
      else (k', v') # map_insert k v m)"

definition trackReg :: "byte \<Rightarrow> byte \<Rightarrow> bool \<Rightarrow> device \<Rightarrow> device" where
  "trackReg addr port enabled d =
     d\<lparr>m_tracked_regs :=
         (if enabled then map_insert (addr, port) 0 (m_tracked_regs d)
          else filter (\<lambda>(k, _). k \<noteq> (addr, port)) (m_tracked_regs d))\<rparr>"

definition setRegChangedCallback :: "bool \<Rightarrow> device \<Rightarrow> device" where
  "setRegChangedCallback cb d = d\<lparr>reg_change_cb := cb\<rparr>"

text \<open>The loop over the registers and the values read, in the order of the keys.\<close>

fun store_regs :: "addr_port_t list \<Rightarrow> byte list \<Rightarrow> 'w dev_state \<Rightarrow> 'w dev_state" where
  "store_regs [] b s = s"
| "store_regs (k # ks) b s = store_regs ks (drop 2 b) (store_reg k (from_be16 (b ! 0) (b ! 1)) s)"

definition updateTrackedRegs :: "'w libusb \<Rightarrow> ('w dev_state, unit) act" where
  "updateTrackedRegs L s =
     (let ks = map fst (m_tracked_regs (the_device s)) in
      if ks = [] then (Ret (), s)
      else
        then_act (on_ftdi_of (write_all L (concat (map (\<lambda>(addr, port). be16 (reg_cmd CMD_READREG addr port)) ks))))
          (bind_act (on_ftdi_of (ftdi_read_data_wait L (int (2 * length ks))))
            (\<lambda>b. modify_act (store_regs ks b))) s)"

end
