(* ===== verification/Device_Props.thy ===== *)
theory Device_Props
  imports Device Ioftdi_Bounds
begin

unbundle bit_operations_syntax

text \<open>
  What the register access of \<open>Device.cpp\<close> exchanges with the board: the bytes written form the
  commands asked for, in order, and the bytes read are the replies, in order. The decoder of the
  commands stands for the board.
\<close>

section \<open>The commands\<close>

datatype reg_request =
    RegRead byte byte
  | RegWrite byte byte u16
  | RegReadN byte byte u16
  | RegWriteN byte byte "byte list"

fun encode_request :: "reg_request \<Rightarrow> byte list" where
  "encode_request (RegRead a p) = be16 (reg_cmd CMD_READREG a p)"
| "encode_request (RegWrite a p v) = be16 (reg_cmd CMD_WRITEREG a p) @ be16 v"
| "encode_request (RegReadN a p n) = be16 (reg_cmd CMD_READREG_N a p) @ be16 n"
| "encode_request (RegWriteN a p d) =
     be16 (reg_cmd CMD_WRITEREG_N a p) @ be16 (of_nat (length d div 2)) @ d"

text \<open>How a board reads the stream: a word with the command, the address and the port, then its arguments.\<close>

function decode_requests :: "byte list \<Rightarrow> reg_request list option" where
  "decode_requests [] = Some []"
| "decode_requests [x] = None"
| "decode_requests (x # y # r) =
     (let h = from_be16 x y;
          cmd = drop_bit 12 h;
          a = ucast (drop_bit 6 h AND 0x3f);
          p = ucast (h AND 0x3f) in
      if cmd = 1 then map_option (Cons (RegRead a p)) (decode_requests r)
      else
        (case r of
           x2 # y2 # r2 \<Rightarrow>
             (let v = from_be16 x2 y2 in
              if cmd = 2 then map_option (Cons (RegWrite a p v)) (decode_requests r2)
              else if cmd = 3 then map_option (Cons (RegReadN a p v)) (decode_requests r2)
              else if cmd = 4 then
                (if length r2 < 2 * unat v then None
                 else map_option (Cons (RegWriteN a p (take (2 * unat v) r2))) (decode_requests (drop (2 * unat v) r2)))
              else None)
         | _ \<Rightarrow> None))"
  by pat_completeness auto
termination by (relation "measure length") auto

fun request_ok :: "reg_request \<Rightarrow> bool" where
  "request_ok (RegRead a p) \<longleftrightarrow> a AND 0x3f = a \<and> p AND 0x3f = p"
| "request_ok (RegWrite a p v) \<longleftrightarrow> a AND 0x3f = a \<and> p AND 0x3f = p"
| "request_ok (RegReadN a p n) \<longleftrightarrow> a AND 0x3f = a \<and> p AND 0x3f = p"
| "request_ok (RegWriteN a p d) \<longleftrightarrow> a AND 0x3f = a \<and> p AND 0x3f = p \<and> even (length d) \<and> length d < 2 * 65536"

lemma and_0x3f: "x AND 0x3f = take_bit 6 x" for x :: "'a::len word"
proof -
  have "(0x3f :: 'a word) = mask 6" by (simp add: mask_eq_exp_minus_1)
  then show ?thesis by (simp only: take_bit_eq_mask)
qed

lemma reg_cmd_bits:
  "bit (reg_cmd c a p) i \<longleftrightarrow> i < 16 \<and>
     (12 \<le> i \<and> bit c (i - 12) \<or> 6 \<le> i \<and> i < 12 \<and> bit a (i - 6) \<or> i < 6 \<and> bit p i)"
  unfolding reg_cmd_def and_0x3f by (auto simp: bit_simps)

lemma reg_cmd_cmd: "drop_bit 12 (reg_cmd c a p) = c" if "take_bit 4 c = c"
proof (rule bit_word_eqI)
  fix i
  have "bit c j \<longleftrightarrow> j < 4 \<and> bit c j" for j using that by (metis bit_take_bit_iff)
  then show "bit (drop_bit 12 (reg_cmd c a p)) i = bit c i" if "i < LENGTH(16)"
    by (auto simp: bit_simps reg_cmd_bits)
qed

lemma reg_cmd_addr: "ucast (drop_bit 6 (reg_cmd c a p) AND 0x3f) = a AND 0x3f"
  unfolding and_0x3f by (rule bit_word_eqI) (auto simp: bit_simps reg_cmd_bits)

lemma reg_cmd_port: "ucast (reg_cmd c a p AND 0x3f) = p AND 0x3f"
  unfolding and_0x3f by (rule bit_word_eqI) (auto simp: bit_simps reg_cmd_bits)

lemma cmd_codes [simp]:
  "take_bit 4 (1 :: u16) = 1" "take_bit 4 (2 :: u16) = 2" "take_bit 4 (3 :: u16) = 3" "take_bit 4 (4 :: u16) = 4"
  by (simp_all add: take_bit_eq_mod)

lemma unat_u16_half: "even n \<Longrightarrow> n < 2 * 65536 \<Longrightarrow> 2 * unat (of_nat (n div 2) :: u16) = n"
proof -
  assume n: "even n" "n < 2 * 65536"
  then have "n div 2 < 2 ^ LENGTH(16)" by simp
  then have "unat (of_nat (n div 2) :: u16) = n div 2" by (intro of_nat_inverse [OF refl])
  then show ?thesis using n(1) by simp
qed

lemma decode_encode: "request_ok c \<Longrightarrow> decode_requests (encode_request c @ bs) = map_option (Cons c) (decode_requests bs)"
proof (cases c)
  case (RegWriteN a p d)
  assume "request_ok c"
  with RegWriteN have ok: "a AND 0x3f = a" "p AND 0x3f = p" and n: "2 * unat (of_nat (length d div 2) :: u16) = length d"
    by (simp_all add: unat_u16_half)
  then show ?thesis
    by (simp add: RegWriteN be16_def Let_def reg_cmd_cmd reg_cmd_addr reg_cmd_port del: be16_inject)
qed (simp_all add: be16_def Let_def reg_cmd_cmd reg_cmd_addr reg_cmd_port del: be16_inject)

lemma decode_encode_all: "list_all request_ok cs \<Longrightarrow> decode_requests (concat (map encode_request cs)) = Some cs"
  by (induction cs) (simp_all add: decode_encode)

section \<open>The channel\<close>

definition fifo_ready :: "'w libusb \<Rightarrow> nat \<Rightarrow> ('w \<times> usb_event list) st \<Rightarrow> bool" where
  "fifo_ready L ps h \<longleftrightarrow> bulk_ok L \<and> bulk_progress L \<and> 2 < ps \<and>
     (case fst h of
        None \<Rightarrow> False
      | Some c \<Rightarrow> ctx_wf c \<and> usb_dev c \<noteq> None \<and> max_packet_size c = ps \<and> 0 < write_chunk c)"

definition unread_bytes :: "'w st \<Rightarrow> byte list" where
  "unread_bytes h = (case fst h of None \<Rightarrow> [] | Some c \<Rightarrow> pending c)"

text \<open>Between two states the bytes \<open>out\<close> were sent, and \<open>inp\<close> was taken from what the board sent.\<close>

definition exchanged ::
  "'w libusb \<Rightarrow> nat \<Rightarrow> ('w \<times> usb_event list) st \<Rightarrow> byte list \<Rightarrow> byte list \<Rightarrow> ('w \<times> usb_event list) st \<Rightarrow> bool" where
  "exchanged L ps h out inp h' \<longleftrightarrow> fifo_ready L ps h' \<and>
     (\<exists>new. snd (snd h') = snd (snd h) @ new \<and> sent_bytes new = out \<and>
        unread_bytes h @ concat (map (strip_headers ps) (received new)) = inp @ unread_bytes h')"

lemma exchanged_refl: "fifo_ready L ps h \<Longrightarrow> exchanged L ps h [] [] h"
  by (simp add: exchanged_def)

lemma exchanged_trans:
  assumes "exchanged L ps h out inp h1" and "exchanged L ps h1 out' inp' h2"
  shows "exchanged L ps h (out @ out') (inp @ inp') h2"
proof -
  obtain e where e: "snd (snd h1) = snd (snd h) @ e" "sent_bytes e = out"
      "unread_bytes h @ concat (map (strip_headers ps) (received e)) = inp @ unread_bytes h1"
    using assms(1) by (auto simp: exchanged_def)
  obtain e' where e': "snd (snd h2) = snd (snd h1) @ e'" "sent_bytes e' = out'"
      "unread_bytes h1 @ concat (map (strip_headers ps) (received e')) = inp' @ unread_bytes h2"
    using assms(2) by (auto simp: exchanged_def)
  have "unread_bytes h @ concat (map (strip_headers ps) (received (e @ e'))) = (inp @ inp') @ unread_bytes h2"
    using e(3) e'(3) by (metis append.assoc concat_append map_append received_append)
  then show ?thesis
    using assms(2) e(1,2) e'(1,2) by (auto simp: exchanged_def intro!: exI [of _ "e @ e'"])
qed

lemma exchanged_ready: "exchanged L ps h out inp h' \<Longrightarrow> fifo_ready L ps h'"
  by (simp add: exchanged_def)

lemma only_out_received: "chunks_at_most k ep es \<Longrightarrow> received es = []"
  by (induction es rule: received.induct) (auto simp: chunks_at_most_def)

lemma write_exchanged:
  assumes h: "fifo_ready L ps h" and run: "write_ftdi (logging L) buf (int (length buf)) h = (Ret r, h')"
    and r: "0 \<le> r"
  shows "exchanged L ps h buf [] h' \<and> r = int (length buf)"
proof -
  obtain c w l where hc: "h = (Some c, w, l)" and c: "ctx_wf c" "max_packet_size c = ps" "0 < write_chunk c"
      and L: "bulk_ok L" "bulk_progress L" and ps: "2 < ps"
    using h by (cases h) (auto simp: fifo_ready_def split: option.splits)
  obtain d where d: "usb_dev c = Some d" using h by (auto simp: fifo_ready_def hc)
  obtain r2 c' w' new where wr: "write_loop (logging L) c d buf (int (length buf)) 0 (w, l) =
        Some (r2, Some c', w', l @ new)"
      "chunks_at_most (nat (write_chunk c)) (in_ep c) new"
      "r2 = int (length buf) \<and> c' = c \<and> sent_bytes new = buf \<or> r2 = -1"
    using write_loop_complete [OF L c(3), of 0 buf d w l] by auto
  then have "r = r2" and h': "h' = (Some c', w', l @ new)"
    using run by (auto simp: hc write_ftdi_def ftdi_write_data_def with_dev_def d)
  then have "c' = c" "sent_bytes new = buf" "r = int (length buf)" using wr(3) r by auto
  then show ?thesis
    using h only_out_received [OF wr(2)]
    by (simp add: exchanged_def hc h' fifo_ready_def unread_bytes_def)
qed

lemma write_all_exchanged:
  assumes "fifo_ready L ps h" and "write_all (logging L) buf h = (Ret u, h')"
  shows "exchanged L ps h buf [] h'"
  using assms by (auto simp: write_all_def split: if_splits dest: write_exchanged)

lemma read_exchanged:
  assumes h: "fifo_ready L ps h" and run: "ftdi_read_data (logging L) sz h = (Ret (n, out), h')" and n: "0 \<le> n"
  shows "exchanged L ps h [] out h' \<and> length out \<le> sz"
proof -
  obtain c w l where hc: "h = (Some c, w, l)" and c: "ctx_wf c" "max_packet_size c = ps" "0 < write_chunk c"
      and L: "bulk_ok L" "bulk_progress L" and ps: "2 < ps"
    using h by (cases h) (auto simp: fifo_ready_def split: option.splits)
  obtain d where d: "usb_dev c = Some d" using h by (auto simp: fifo_ready_def hc)
  have "2 < max_packet_size c" using c ps by simp
  from ftdi_read_data_done [OF L(1) c(1) d this run [unfolded hc]]
  obtain c' w' new where h': "h' = (Some c', w', l @ new)" and c': "ctx_wf c'" "max_packet_size c' = ps" "usb_dev c' = Some d"
      and res: "if sz \<le> readbuffer_remaining c then new = [] \<and> length out = sz \<and> pending c = out @ pending c'
        else read_done ps sz (pending c) n out c' new"
    using c(2) d by (auto split: if_splits)
  have frame: "(\<exists>c'. fst h' = Some c' \<and> same_port c c') \<and> sent_bytes (snd (snd h')) = sent_bytes l"
    by (rule read_data_frame [where Q = "\<lambda>w. sent_bytes (snd w) = sent_bytes l", OF _ _ run [unfolded hc]])
      (auto simp: logging_def split: prod.splits)
  then have "sent_bytes new = []" "0 < write_chunk c'"
    using c(3) by (auto simp: h' same_port_def write_chunk_def)
  moreover have "pending c @ concat (map (strip_headers ps) (received new)) = out @ pending c' \<and> length out \<le> sz"
    using res n by (auto simp: read_done_def split: if_splits)
  ultimately show ?thesis
    using L ps c' by (auto simp: exchanged_def hc h' fifo_ready_def unread_bytes_def)
qed

lemma wait_loop_exchanged:
  "fifo_ready L ps h \<Longrightarrow> length acc \<le> sz \<Longrightarrow> wait_loop (logging L) n sz acc h = (Ret res, h') \<Longrightarrow>
   \<exists>got. res = acc @ got \<and> exchanged L ps h [] got h' \<and> length res \<le> sz"
proof (induction n arbitrary: acc h)
  case 0
  then show ?case using exchanged_refl [OF 0(1)] by (intro exI [of _ "[]"]) auto
next
  case (Suc n)
  then obtain r out h1 where 1: "ftdi_read_data (logging L) (sz - length acc) h = (Ret (r, out), h1)"
      and r: "0 \<le> r"
      and rest: "(if length (acc @ out) \<noteq> sz then wait_loop (logging L) n sz (acc @ out) else return_act (acc @ out)) h1 = (Ret res, h')"
    by (auto split: if_splits)
  from read_exchanged [OF Suc.prems(1) 1 r]
  have x: "exchanged L ps h [] out h1" and le: "length (acc @ out) \<le> sz" using Suc.prems(2) by auto
  show ?case
  proof (cases "length (acc @ out) = sz")
    case True
    then show ?thesis using rest x by auto
  next
    case False
    then have "wait_loop (logging L) n sz (acc @ out) h1 = (Ret res, h')" using rest by simp
    from Suc.IH [OF exchanged_ready [OF x] le this] obtain got where
        "res = (acc @ out) @ got" "exchanged L ps h1 [] got h'" "length res \<le> sz" by blast
    with exchanged_trans [OF x this(2)] show ?thesis by auto
  qed
qed

lemma read_wait_exchanged:
  assumes "fifo_ready L ps h" and "ftdi_read_data_wait (logging L) sz h = (Ret res, h')"
  shows "exchanged L ps h [] res h' \<and> int (length res) = sz"
proof (cases "sz < 0")
  case True
  then show ?thesis using assms(2) by (auto simp: ftdi_read_data_wait_def split: if_splits)
next
  case False
  then obtain acc h1 where w: "wait_loop (logging L) 100 (nat sz) [] h = (Ret acc, h1)" and "length acc = nat sz"
      "res = acc" "h1 = h'"
    using assms(2) by (auto simp: ftdi_read_data_wait_def split: if_splits)
  with wait_loop_exchanged [OF assms(1) _ w] False show ?thesis by auto
qed

lemma raw_loop_exchanged:
  assumes "fifo_ready L ps h" and "raw_loop (logging L) data h = (Ret u, h')" and n: "length data < 2 ^ 31"
  shows "exchanged L ps h data [] h'"
proof (cases "data = []")
  case True
  with assms show ?thesis by (simp add: raw_loop.simps exchanged_refl)
next
  case False
  have ci: "c_int (length data) = int (length data)"
    using n by (simp add: c_int_def signed_of_nat signed_take_bit_int_eq_self)
  then obtain r h1 where w: "write_ftdi (logging L) data (int (length data)) h = (Ret r, h1)" and r: "0 < r"
      and rest: "raw_loop (logging L) (drop (nat r) data) h1 = (Ret u, h')"
    using assms(2) False by (auto simp: raw_loop.simps [of _ data] split: prod.splits outcome.splits if_splits)
  from write_exchanged [OF assms(1) w] r rest show ?thesis
    by (simp add: raw_loop.simps)
qed

lemma write_packets_exchanged:
  "fifo_ready L ps h \<Longrightarrow> length data = 2 * n \<Longrightarrow> write_packets (logging L) a p data n h = (Ret u, h') \<Longrightarrow>
   exchanged L ps h (concat (map (encode_request \<circ> RegWriteN a p) (chunks (2 * n_packet_max) data))) [] h'"
proof (induction "logging L" a p data n h rule: write_packets.induct)
  case (1 a p data n h)
  show ?case
  proof (cases "n = 0")
    case True
    with 1 show ?thesis by (simp add: write_packets.simps exchanged_refl)
  next
    case False
    let ?k = "min n n_packet_max"
    let ?d = "take (2 * ?k) data"
    let ?packet = "be16 (reg_cmd CMD_WRITEREG_N a p) @ be16 (of_nat ?k) @ ?d"
    from "1.prems"(3) False obtain r h1 where w: "write_ftdi (logging L) ?packet (int (length ?packet)) h = (Ret r, h1)"
        and r: "0 < r"
        and rest: "write_packets (logging L) a p (drop (2 * ?k) data) (n - ?k) h1 = (Ret u, h')"
      by (auto simp: write_packets.simps [of _ _ _ data] Let_def split: prod.splits outcome.splits if_splits)
    have x: "exchanged L ps h ?packet [] h1" and r': "r = int (length ?packet)"
      using write_exchanged [OF "1.prems"(1) w] r by auto
    have "exchanged L ps h1 (concat (map (encode_request \<circ> RegWriteN a p) (chunks (2 * n_packet_max) (drop (2 * ?k) data)))) [] h'"
      using r r' "1.prems"(2)
      by (intro "1.hyps" [OF False refl refl w [symmetric] refl _ _ exchanged_ready [OF x] _ rest]) auto
    moreover have "data \<noteq> []" using False "1.prems"(2) by auto
    moreover have "drop (2 * ?k) data = drop (2 * n_packet_max) data" "take (2 * n_packet_max) data = ?d"
      using "1.prems"(2) by (auto simp: min_def)
    moreover have "length ?d div 2 = ?k" using "1.prems"(2) by auto
    ultimately show ?thesis
      using exchanged_trans [OF x] by (simp add: chunks_step)
  qed
qed

function packet_sizes :: "nat \<Rightarrow> nat list" where
  "packet_sizes n = (if n = 0 then [] else min n n_packet_max # packet_sizes (n - min n n_packet_max))"
  by pat_completeness auto
termination by (relation "measure id") auto

declare packet_sizes.simps [simp del]

lemma packet_sizes_bound: "k \<in> set (packet_sizes n) \<Longrightarrow> k \<le> n_packet_max"
proof (induction n rule: packet_sizes.induct)
  case (1 n)
  then show ?case by (auto simp: packet_sizes.simps [of n] split: if_splits)
qed

lemma sum_packet_sizes: "sum_list (packet_sizes n) = n"
proof (induction n rule: packet_sizes.induct)
  case (1 n)
  then show ?case by (cases "n = 0") (simp_all add: packet_sizes.simps [of n] packet_sizes.simps [of 0])
qed

lemma read_packets_exchanged:
  "fifo_ready L ps h \<Longrightarrow> read_packets (logging L) a p n acc h = (Ret res, h') \<Longrightarrow>
   \<exists>got. res = acc @ got \<and> length got = 2 * n \<and>
     exchanged L ps h (concat (map (encode_request \<circ> RegReadN a p \<circ> of_nat) (packet_sizes n))) got h'"
proof (induction "logging L" a p n acc h arbitrary: res rule: read_packets.induct)
  case (1 a p n acc h)
  show ?case
  proof (cases "n = 0")
    case True
    with 1 show ?thesis by (auto simp: read_packets.simps packet_sizes.simps exchanged_refl)
  next
    case False
    let ?k = "min n n_packet_max"
    let ?req = "be16 (reg_cmd CMD_READREG_N a p) @ be16 (of_nat ?k)"
    from "1.prems"(2) False obtain b h1 where w: "then_act (write_all (logging L) ?req)
          (ftdi_read_data_wait (logging L) (int (2 * ?k))) h = (Ret b, h1)"
        and rest: "read_packets (logging L) a p (n - ?k) (acc @ b) h1 = (Ret res, h')"
      by (auto simp: read_packets.simps [of _ _ _ n] Let_def split: prod.splits outcome.splits)
    then obtain u h0 where wr: "write_all (logging L) ?req h = (Ret u, h0)"
        and rd: "ftdi_read_data_wait (logging L) (int (2 * ?k)) h0 = (Ret b, h1)"
      by (auto simp: then_act_def bind_act_def split: prod.splits outcome.splits)
    have x0: "exchanged L ps h ?req [] h0" using write_all_exchanged [OF "1.prems"(1) wr] .
    have x1: "exchanged L ps h0 [] b h1" and b: "length b = 2 * ?k"
      using read_wait_exchanged [OF exchanged_ready [OF x0] rd] by auto
    have x: "exchanged L ps h ?req b h1" using exchanged_trans [OF x0 x1] by simp
    from "1.hyps" [OF False refl w [symmetric] refl exchanged_ready [OF x] rest] obtain got where
        "res = (acc @ b) @ got" "length got = 2 * (n - ?k)"
        and more: "exchanged L ps h1 (concat (map (encode_request \<circ> RegReadN a p \<circ> of_nat) (packet_sizes (n - ?k)))) got h'"
      by blast
    then show ?thesis
      using exchanged_trans [OF x more] b False
      by (intro exI [of _ "b @ got"]) (auto simp: packet_sizes.simps [of n])
  qed
qed

section \<open>The polled registers\<close>

text \<open>The map is in the order of its keys, each once.\<close>

definition sorted_keys :: "(addr_port_t \<times> u16) list \<Rightarrow> bool" where
  "sorted_keys m \<longleftrightarrow> sorted_wrt key_less (map fst m)"

lemma key_less_trans: "key_less j k \<Longrightarrow> key_less k l \<Longrightarrow> key_less j l"
  by (auto simp: key_less_def)

lemma key_less_total: "\<not> key_less j k \<Longrightarrow> j \<noteq> k \<Longrightarrow> key_less k j"
  by (cases j; cases k) (auto simp: key_less_def)

lemma key_less_irrefl [simp]: "\<not> key_less k k"
  by (simp add: key_less_def)

lemma sorted_keys_distinct: "sorted_keys m \<Longrightarrow> distinct (map fst m)"
  unfolding sorted_keys_def by (induction m) auto

lemma set_map_insert: "set (map fst (map_insert k v m)) = insert k (set (map fst m))"
  by (induction k v m rule: map_insert.induct) (simp_all add: insert_commute)

lemma sorted_map_insert: "sorted_keys m \<Longrightarrow> sorted_keys (map_insert k v m)"
proof (induction m)
  case Nil
  then show ?case by (simp add: sorted_keys_def)
next
  case (Cons e m)
  obtain k' v' where e: "e = (k', v')" by (cases e)
  have m: "sorted_keys m" and k': "\<forall>x\<in>set (map fst m). key_less k' x"
    using Cons.prems by (auto simp: sorted_keys_def e)
  have "sorted_keys (map_insert k v m)" using m by (rule Cons.IH)
  then show ?case
    using Cons.prems k' key_less_total [of k k'] set_map_insert [of k v m] key_less_trans [of k k']
    unfolding sorted_keys_def e by auto
qed

lemma sorted_keys_filter: "sorted_keys m \<Longrightarrow> sorted_keys (filter P m)"
  unfolding sorted_keys_def by (induction m) auto

lemma trackReg_sorted: "sorted_keys (m_tracked_regs d) \<Longrightarrow> sorted_keys (m_tracked_regs (trackReg a p b d))"
  by (simp add: trackReg_def sorted_map_insert sorted_keys_filter)

text \<open>Storing values for the keys: what the map and the calls of the callback become.\<close>

definition stored_values :: "addr_port_t list \<Rightarrow> byte list \<Rightarrow> u16 list" where
  "stored_values ks b = map (\<lambda>i. from_be16 (b ! (2 * i)) (b ! (2 * i + 1))) [0..<length ks]"

lemma stored_values_Cons:
  assumes "2 * Suc (length ks) \<le> length b"
  shows "stored_values (k # ks) b = from_be16 (b ! 0) (b ! 1) # stored_values ks (drop 2 b)"
  unfolding stored_values_def using assms
  by (auto simp: upt_conv_Cons map_Suc_upt [symmetric] nth_drop simp del: upt_Suc)

fun poll_calls :: "device \<Rightarrow> (addr_port_t \<times> u16) list \<Rightarrow> u16 list \<Rightarrow> reg_change list" where
  "poll_calls d ((k, old) # m) (v # vs) =
     (if v \<noteq> old \<and> reg_change_cb d then [(dev_name d, fst k, snd k, v)] else []) @ poll_calls d m vs"
| "poll_calls d m vs = []"

lemma store_regs_run:
  assumes "m_tracked_regs (the_device s) = pre @ m" and "distinct (map fst (pre @ m))"
    and "2 * length m \<le> length b"
  shows "store_regs (map fst m) b s =
      s\<lparr>the_device := (the_device s)\<lparr>m_tracked_regs := pre @ zip (map fst m) (stored_values (map fst m) b)\<rparr>,
        changes := changes s @ poll_calls (the_device s) m (stored_values (map fst m) b)\<rparr>"
  using assms
proof (induction m arbitrary: pre b s)
  case Nil
  then show ?case by (simp add: stored_values_def)
next
  case (Cons e m)
  obtain k old where e: "e = (k, old)" by (cases e)
  let ?v = "from_be16 (b ! 0) (b ! 1)"
  have same: "map (\<lambda>(k', v'). (k', if k' = k then v else v')) l = l" if "k \<notin> fst ` set l" for l v
    using that by (intro map_idI) force
  have find: "map_of (pre @ (k, old) # m) k = Some old"
    using Cons.prems(2) by (auto simp: e map_add_def map_of_eq_None_iff [THEN iffD2] split: option.splits)
  have out: "k \<notin> fst ` set pre" "k \<notin> fst ` set m" using Cons.prems(2) by (auto simp: e)
  have one: "store_reg k v s =
      s\<lparr>the_device := (the_device s)\<lparr>m_tracked_regs := pre @ (k, v) # m\<rparr>,
        changes := changes s @ (if v \<noteq> old \<and> reg_change_cb (the_device s)
          then [(dev_name (the_device s), fst k, snd k, v)] else [])\<rparr>" for v
    using Cons.prems(1) find out by (simp add: store_reg_def e Let_def same)
  have "store_regs (map fst m) (drop 2 b) (store_reg k ?v s) =
      (store_reg k ?v s)\<lparr>the_device := (the_device s)\<lparr>m_tracked_regs :=
          (pre @ [(k, ?v)]) @ zip (map fst m) (stored_values (map fst m) (drop 2 b))\<rparr>,
        changes := changes (store_reg k ?v s) @
          poll_calls (the_device (store_reg k ?v s)) m (stored_values (map fst m) (drop 2 b))\<rparr>"
    using Cons.prems(2,3) by (subst Cons.IH [of _ "pre @ [(k, ?v)]"]) (auto simp: one e)
  moreover have "poll_calls (the_device (store_reg k ?v s)) m vs = poll_calls (the_device s) m vs" for vs
    by (induction "the_device s" m vs rule: poll_calls.induct) (simp_all add: one)
  ultimately show ?case
    using Cons.prems(3) by (simp add: e stored_values_Cons one)
qed

end
