(* ===== verification/Device_Session.thy ===== *)
theory Device_Session
  imports Device_Props "HOL-Library.Sublist"
begin

unbundle bit_operations_syntax

text \<open>
  Sequences of register operations against a board that answers its commands in order: what each
  operation returns is what the board's registers say, and polling reports the changed values.
\<close>

section \<open>Operations of a client\<close>

datatype reg_op =
    DoRead byte byte
  | DoWrite byte byte u16
  | DoReadN byte byte nat
  | DoWriteN byte byte "byte list"
  | DoPoll

text \<open>The bytes of a value are those the board sends for it; a poll leaves its values in the map.\<close>

definition tracked :: "'w dev_state \<Rightarrow> (addr_port_t \<times> u16) list" where
  "tracked s = m_tracked_regs (the_device s)"

definition tracked_bytes :: "'w dev_state \<Rightarrow> byte list" where
  "tracked_bytes s = concat (map (be16 \<circ> snd) (tracked s))"

fun run_op :: "'w libusb \<Rightarrow> reg_op \<Rightarrow> ('w dev_state, byte list) act" where
  "run_op L (DoRead a p) = bind_act (readReg L a p) (\<lambda>v. return_act (be16 v))"
| "run_op L (DoWrite a p v) = then_act (writeReg L a p v) (return_act [])"
| "run_op L (DoReadN a p n) = readRegN L a p n"
| "run_op L (DoWriteN a p d) = then_act (writeRegN L a p d (length d div 2)) (return_act [])"
| "run_op L DoPoll = then_act (updateTrackedRegs L) (\<lambda>s. (Ret (tracked_bytes s), s))"

fun run_ops :: "'w libusb \<Rightarrow> reg_op list \<Rightarrow> ('w dev_state, byte list list) act" where
  "run_ops L [] = return_act []"
| "run_ops L (x # xs) = bind_act (run_op L x) (\<lambda>b. bind_act (run_ops L xs) (\<lambda>bs. return_act (b # bs)))"

text \<open>The requests an operation stands for; \<open>ks\<close> are the registers that are polled.\<close>

definition reg6 :: "(byte \<Rightarrow> byte \<Rightarrow> reg_request) \<Rightarrow> byte \<Rightarrow> byte \<Rightarrow> reg_request" where
  "reg6 f a p = f (a AND 0x3f) (p AND 0x3f)"

fun requests_of :: "addr_port_t list \<Rightarrow> reg_op \<Rightarrow> reg_request list" where
  "requests_of ks (DoRead a p) = [reg6 RegRead a p]"
| "requests_of ks (DoWrite a p v) = [reg6 (\<lambda>a p. RegWrite a p v) a p]"
| "requests_of ks (DoReadN a p n) = map (\<lambda>k. reg6 (\<lambda>a p. RegReadN a p (of_nat k)) a p) (packet_sizes n)"
| "requests_of ks (DoWriteN a p d) = map (\<lambda>d. reg6 (\<lambda>a p. RegWriteN a p d) a p) (chunks (2 * n_packet_max) d)"
| "requests_of ks DoPoll = map (\<lambda>(a, p). reg6 RegRead a p) ks"

fun op_ok :: "reg_op \<Rightarrow> bool" where
  "op_ok (DoWriteN a p d) \<longleftrightarrow> even (length d)"
| "op_ok _ \<longleftrightarrow> True"

section \<open>The board\<close>

text \<open>
  A board with registers of type \<open>'r\<close> maps them and a request to the registers after it and the
  bytes it sends: a word for a read, as many as asked for a block, nothing for a write.
\<close>

type_synonym 'r board = "'r \<Rightarrow> reg_request \<Rightarrow> 'r \<times> byte list"

fun reply_len :: "reg_request \<Rightarrow> nat" where
  "reply_len (RegRead a p) = 2"
| "reply_len (RegWrite a p v) = 0"
| "reply_len (RegReadN a p n) = 2 * unat n"
| "reply_len (RegWriteN a p d) = 0"

fun board_run :: "'r board \<Rightarrow> 'r \<Rightarrow> reg_request list \<Rightarrow> 'r \<times> byte list" where
  "board_run B r [] = (r, [])"
| "board_run B r (q # qs) =
     (case B r q of (r1, out) \<Rightarrow> case board_run B r1 qs of (r2, out') \<Rightarrow> (r2, out @ out'))"

definition board_ok :: "'r board \<Rightarrow> bool" where
  "board_ok B \<longleftrightarrow> (\<forall>u q. length (snd (B u q)) = reply_len q)"

text \<open>What each operation must return.\<close>

fun session_replies :: "'r board \<Rightarrow> addr_port_t list \<Rightarrow> 'r \<Rightarrow> reg_op list \<Rightarrow> byte list list" where
  "session_replies B ks r [] = []"
| "session_replies B ks r (x # xs) =
     (case board_run B r (requests_of ks x) of (r1, out) \<Rightarrow> out # session_replies B ks r1 xs)"

text \<open>
  The board on the other end of the bus: the data it has sent, however it was cut into packets, is
  the beginning of its answers to the requests it was sent.
\<close>

definition answers_in_order :: "'r board \<Rightarrow> 'r \<Rightarrow> nat \<Rightarrow> usb_event list \<Rightarrow> bool" where
  "answers_in_order B r ps es \<longleftrightarrow>
     (case decode_requests (sent_bytes es) of
        None \<Rightarrow> True
      | Some qs \<Rightarrow> prefix (concat (map (strip_headers ps) (received es))) (snd (board_run B r qs)))"

section \<open>One operation\<close>

lemma request_ok_reg6 [simp]:
  "request_ok (reg6 RegRead a p)" "request_ok (reg6 (\<lambda>a p. RegWrite a p v) a p)"
  "request_ok (reg6 (\<lambda>a p. RegReadN a p n) a p)"
  "request_ok (reg6 (\<lambda>a p. RegWriteN a p d) a p) \<longleftrightarrow> even (length d) \<and> length d < 2 * 65536"
  by (simp_all add: reg6_def)

lemma reg_cmd_masked: "reg_cmd c (a AND 0x3f) (p AND 0x3f) = reg_cmd c a p"
  unfolding and_0x3f by (rule bit_word_eqI) (auto simp: reg_cmd_bits bit_simps)

lemma encode_reg6 [simp]:
  "encode_request (reg6 RegRead a p) = encode_request (RegRead a p)"
  "encode_request (reg6 (\<lambda>a p. RegWrite a p v) a p) = encode_request (RegWrite a p v)"
  "encode_request (reg6 (\<lambda>a p. RegReadN a p n) a p) = encode_request (RegReadN a p n)"
  "encode_request (reg6 (\<lambda>a p. RegWriteN a p d) a p) = encode_request (RegWriteN a p d)"
  by (simp_all add: reg6_def reg_cmd_masked)

lemma requests_ok:
  assumes "op_ok x" and "q \<in> set (requests_of ks x)"
  shows "request_ok q"
proof (cases x)
  case (DoWriteN a p d)
  with assms obtain c where q: "q = reg6 (\<lambda>a p. RegWriteN a p c) a p" and c: "c \<in> set (chunks (2 * n_packet_max) d)"
    by auto
  have "even (length c)" if "even (length d)" "c \<in> set (chunks n d)" "even n" for c n and d :: "byte list"
    using that
  proof (induction n d rule: chunks.induct)
    case (1 n d)
    then show ?case by (cases "n = 0 \<or> d = []") (auto simp: chunks.simps [of n d] min_def split: if_splits)
  qed
  then have "even (length c)" using assms(1) c by (simp add: DoWriteN)
  then show ?thesis using chunks_bound [OF c] by (simp add: q)
qed (use assms in auto)

lemma ftdi_of_put [simp]: "ftdi_of (put_ftdi h s) = h"
  by (simp add: ftdi_of_def put_ftdi_def)

lemma put_ftdi_frame [simp]: "tracked (put_ftdi h s) = tracked s" "changes (put_ftdi h s) = changes s"
  by (simp_all add: tracked_def put_ftdi_def)

lemma ftdi_of_store_reg [simp]: "ftdi_of (store_reg k v s) = ftdi_of s"
  by (simp add: store_reg_def ftdi_of_def Let_def split: option.splits)

lemma keys_store_reg [simp]: "map fst (tracked (store_reg k v s)) = map fst (tracked s)"
  by (auto simp: store_reg_def tracked_def Let_def split: option.splits)

lemma on_ftdi_of_returns:
  "on_ftdi_of m s = (Ret x, s') \<longleftrightarrow> (\<exists>h. m (ftdi_of s) = (Ret x, h) \<and> s' = put_ftdi h s)"
  by (simp add: on_ftdi_of_def)

lemma read_reg_exchanged:
  assumes h: "fifo_ready L ps (ftdi_of s)" and run: "readReg (logging L) a p s = (Ret v, s')"
  shows "exchanged L ps (ftdi_of s) (be16 (reg_cmd CMD_READREG a p)) (be16 v) (ftdi_of s') \<and>
    map fst (tracked s') = map fst (tracked s)"
proof -
  obtain h1 b h2 where wr: "write_all (logging L) (be16 (reg_cmd CMD_READREG a p)) (ftdi_of s) = (Ret (), h1)"
      and rd: "ftdi_read_data_wait (logging L) 2 h1 = (Ret b, h2)"
      and v: "v = from_be16 (b ! 0) (b ! 1)" and s': "s' = store_reg (a, p) v (put_ftdi h2 (put_ftdi h1 s))"
    using run unfolding readReg_def by (auto simp: on_ftdi_of_returns Let_def)
  have x: "exchanged L ps (ftdi_of s) (be16 (reg_cmd CMD_READREG a p)) [] h1" using write_all_exchanged [OF h wr] .
  have y: "exchanged L ps h1 [] b h2" and "length b = 2"
    using read_wait_exchanged [OF exchanged_ready [OF x] rd] by auto
  then have "be16 v = b" by (auto simp: v length_Suc_conv numeral_2_eq_2)
  then show ?thesis using exchanged_trans [OF x y] by (simp add: s')
qed

lemma update_regs_run:
  assumes run: "updateTrackedRegs L s = (Ret u, s')" and d: "distinct (map fst (tracked s))" and ne: "tracked s \<noteq> []"
  obtains h1 b h2 where
    "write_all L (concat (map (\<lambda>(a, p). be16 (reg_cmd CMD_READREG a p)) (map fst (tracked s)))) (ftdi_of s) = (Ret (), h1)"
    "ftdi_read_data_wait L (int (2 * length (tracked s))) h1 = (Ret b, h2)" "length b = 2 * length (tracked s)"
    "tracked s' = zip (map fst (tracked s)) (stored_values (map fst (tracked s)) b)"
    "changes s' = changes s @ poll_calls (the_device s) (tracked s) (stored_values (map fst (tracked s)) b)"
    "ftdi_of s' = h2"
proof -
  obtain h1 b h2 where wr: "write_all L (concat (map (\<lambda>(a, p). be16 (reg_cmd CMD_READREG a p)) (map fst (tracked s)))) (ftdi_of s) = (Ret (), h1)"
      and rd: "ftdi_read_data_wait L (int (2 * length (tracked s))) h1 = (Ret b, h2)"
      and s': "s' = store_regs (map fst (tracked s)) b (put_ftdi h2 (put_ftdi h1 s))"
    using run ne unfolding updateTrackedRegs_def tracked_def [symmetric] by (auto simp: on_ftdi_of_returns Let_def)
  have b: "length b = 2 * length (tracked s)"
    using rd by (auto simp: ftdi_read_data_wait_def split: if_splits)
  let ?s = "put_ftdi h2 (put_ftdi h1 s)"
  let ?vs = "stored_values (map fst (tracked s)) b"
  have st: "s' = ?s\<lparr>the_device := (the_device ?s)\<lparr>m_tracked_regs := [] @ zip (map fst (tracked s)) ?vs\<rparr>,
      changes := changes ?s @ poll_calls (the_device ?s) (tracked s) ?vs\<rparr>"
    unfolding s' using d b
    by (intro store_regs_run) (simp_all add: tracked_def put_ftdi_def)
  have "poll_calls (the_device ?s) m vs = poll_calls (the_device s) m vs" for m vs
    by (induction "the_device s" m vs rule: poll_calls.induct) (simp_all add: put_ftdi_def)
  then show thesis
    using that [OF wr rd b] by (simp add: st tracked_def ftdi_of_def put_ftdi_def)
qed

lemma stored_bytes:
  assumes "length b = 2 * length ks"
  shows "concat (map be16 (stored_values ks b)) = b"
  using assms
proof (induction ks arbitrary: b)
  case Nil
  then show ?case by (simp add: stored_values_def)
next
  case (Cons k ks)
  then obtain x y r where b: "b = x # y # r" and r: "length r = 2 * length ks"
    by (auto simp: length_Suc_conv)
  then show ?case using Cons.IH [OF r] by (simp add: stored_values_Cons b)
qed

lemma length_stored_values [simp]: "length (stored_values ks b) = length ks"
  by (simp add: stored_values_def)

lemma poll_exchanged:
  assumes h: "fifo_ready L ps (ftdi_of s)" and d: "distinct (map fst (tracked s))"
    and run: "updateTrackedRegs (logging L) s = (Ret u, s')"
  shows "exchanged L ps (ftdi_of s) (concat (map (\<lambda>(a, p). be16 (reg_cmd CMD_READREG a p)) (map fst (tracked s))))
      (tracked_bytes s') (ftdi_of s') \<and> map fst (tracked s') = map fst (tracked s)"
proof (cases "tracked s = []")
  case True
  then show ?thesis
    using run exchanged_refl [OF h]
    by (auto simp: updateTrackedRegs_def tracked_def tracked_bytes_def)
next
  case False
  obtain h1 b h2 where
    wr: "write_all (logging L) (concat (map (\<lambda>(a, p). be16 (reg_cmd CMD_READREG a p)) (map fst (tracked s)))) (ftdi_of s) = (Ret (), h1)"
    and rd: "ftdi_read_data_wait (logging L) (int (2 * length (tracked s))) h1 = (Ret b, h2)"
    and b: "length b = 2 * length (tracked s)"
    and tr: "tracked s' = zip (map fst (tracked s)) (stored_values (map fst (tracked s)) b)"
    and h2: "ftdi_of s' = h2"
    by (rule update_regs_run [OF run d False])
  note x = write_all_exchanged [OF h wr]
  have y: "exchanged L ps h1 [] b h2" using read_wait_exchanged [OF exchanged_ready [OF x] rd] by simp
  have "tracked_bytes s' = concat (map be16 (map snd (tracked s')))" by (simp add: tracked_bytes_def)
  then have "tracked_bytes s' = b" using stored_bytes [of b "map fst (tracked s)"] b by (simp add: tr)
  then show ?thesis using exchanged_trans [OF x y] by (simp add: tr h2)
qed

lemma poll_calls_changed:
  "poll_calls d m vs = [(dev_name d, a, p, v). (((a, p), old), v) \<leftarrow> zip m vs, v \<noteq> old \<and> reg_change_cb d]"
  by (induction d m vs rule: poll_calls.induct) (auto split: prod.splits)

lemma poll_reports:
  assumes run: "updateTrackedRegs L s = (Ret u, s')" and d: "distinct (map fst (tracked s))"
  shows "changes s' = changes s @ [(dev_name (the_device s), a, p, v).
    (((a, p), old), v) \<leftarrow> zip (tracked s) (map snd (tracked s')), v \<noteq> old \<and> reg_change_cb (the_device s)]"
proof (cases "tracked s = []")
  case True
  then show ?thesis using run by (auto simp: updateTrackedRegs_def tracked_def)
next
  case False
  from update_regs_run [OF run d False] obtain b where
    "tracked s' = zip (map fst (tracked s)) (stored_values (map fst (tracked s)) b)"
    "changes s' = changes s @ poll_calls (the_device s) (tracked s) (stored_values (map fst (tracked s)) b)"
    by metis
  then show ?thesis by (simp add: poll_calls_changed)
qed

lemma run_op_exchanged:
  assumes h: "fifo_ready L ps (ftdi_of s)" and d: "distinct (map fst (tracked s))" and ok: "op_ok x"
    and run: "run_op (logging L) x s = (Ret b, s')"
  defines "qs \<equiv> requests_of (map fst (tracked s)) x"
  shows "exchanged L ps (ftdi_of s) (concat (map encode_request qs)) b (ftdi_of s') \<and>
    length b = sum_list (map reply_len qs) \<and> map fst (tracked s') = map fst (tracked s)"
proof (cases x)
  case (DoRead a p)
  with run obtain v where "readReg (logging L) a p s = (Ret v, s')" "b = be16 v" by auto
  with read_reg_exchanged [OF h this(1)] show ?thesis by (simp add: qs_def DoRead) (simp add: reg6_def)
next
  case (DoWrite a p v)
  with run obtain h1 where "write_all (logging L) (encode_request (RegWrite a p v)) (ftdi_of s) = (Ret (), h1)"
      "s' = put_ftdi h1 s" "b = []"
    by (auto simp: writeReg_def on_ftdi_of_returns)
  with write_all_exchanged [OF h this(1)] show ?thesis by (simp add: qs_def DoWrite) (simp add: reg6_def)
next
  case (DoReadN a p n)
  with run obtain h1 where "read_packets (logging L) a p n [] (ftdi_of s) = (Ret b, h1)" and s': "s' = put_ftdi h1 s"
    by (auto simp: readRegN_def on_ftdi_of_returns)
  from read_packets_exchanged [OF h this(1)] have
    "exchanged L ps (ftdi_of s) (concat (map (encode_request \<circ> RegReadN a p \<circ> of_nat) (packet_sizes n))) b h1"
    "length b = 2 * n" by auto
  moreover have "map reply_len qs = map ((*) 2) (packet_sizes n)"
    using packet_sizes_bound [of _ n]
    by (force simp: qs_def DoReadN reg6_def intro!: of_nat_inverse [OF refl])
  then have "sum_list (map reply_len qs) = 2 * n"
    by (simp add: sum_list_const_mult sum_packet_sizes)
  ultimately show ?thesis by (simp add: qs_def DoReadN s' comp_def)
next
  case (DoWriteN a p v)
  with run obtain h1 where w: "write_packets (logging L) a p v (length v div 2) (ftdi_of s) = (Ret (), h1)"
      and "s' = put_ftdi h1 s" "b = []"
    by (auto simp: writeRegN_def on_ftdi_of_returns)
  moreover have "length v = 2 * (length v div 2)" using ok by (simp add: DoWriteN)
  note write_packets_exchanged [OF h this w]
  moreover have "map reply_len qs = map (\<lambda>_. 0) (chunks (2 * n_packet_max) v)"
    by (simp add: qs_def DoWriteN) (simp add: reg6_def)
  ultimately show ?thesis by (simp add: qs_def DoWriteN comp_def)
next
  case DoPoll
  with run have "updateTrackedRegs (logging L) s = (Ret (), s')" and b: "b = tracked_bytes s'" by auto
  note x = poll_exchanged [OF h d this(1)]
  have keys: "map fst (tracked s') = map fst (tracked s)" using x by simp
  have "length (tracked_bytes s') = 2 * length (tracked s')"
    by (simp add: tracked_bytes_def length_concat comp_def sum_list_triv)
  also have "length (tracked s') = length (tracked s)" using keys by (metis length_map)
  finally show ?thesis
    using x by (simp add: b qs_def DoPoll comp_def case_prod_beta' sum_list_triv) (simp add: reg6_def sum_list_triv comp_def)
qed

lemma run_ops_exchanged:
  "fifo_ready L ps (ftdi_of s) \<Longrightarrow> distinct (map fst (tracked s)) \<Longrightarrow> list_all op_ok xs \<Longrightarrow>
   run_ops (logging L) xs s = (Ret bs, s') \<Longrightarrow>
   let qss = map (requests_of (map fst (tracked s))) xs in
     exchanged L ps (ftdi_of s) (concat (map encode_request (concat qss))) (concat bs) (ftdi_of s') \<and>
     map length bs = map (\<lambda>qs. sum_list (map reply_len qs)) qss"
proof (induction xs arbitrary: s bs)
  case Nil
  then show ?case by (simp add: exchanged_refl)
next
  case (Cons x xs)
  then obtain b s1 bs' where 1: "run_op (logging L) x s = (Ret b, s1)" and 2: "run_ops (logging L) xs s1 = (Ret bs', s')"
      and bs: "bs = b # bs'"
    by auto
  have x: "exchanged L ps (ftdi_of s) (concat (map encode_request (requests_of (map fst (tracked s)) x))) b (ftdi_of s1)"
      and len: "length b = sum_list (map reply_len (requests_of (map fst (tracked s)) x))"
      and keys: "map fst (tracked s1) = map fst (tracked s)"
    using run_op_exchanged [OF Cons.prems(1,2) _ 1] Cons.prems(3) by auto
  have "distinct (map fst (tracked s1))" using Cons.prems(2) by (simp only: keys)
  moreover have "list_all op_ok xs" using Cons.prems(3) by simp
  ultimately show ?case
    using Cons.IH [OF exchanged_ready [OF x] _ _ 2] exchanged_trans [OF x] len by (simp add: Let_def keys bs)
qed

lemma board_run_append:
  "board_run B r (qs @ qs') = (case board_run B r qs of (r1, out) \<Rightarrow> case board_run B r1 qs' of (r2, out') \<Rightarrow> (r2, out @ out'))"
  by (induction qs arbitrary: r) (auto split: prod.splits)

lemma length_board_run:
  assumes "board_ok B"
  shows "length (snd (board_run B r qs)) = sum_list (map reply_len qs)"
proof (induction qs arbitrary: r)
  case (Cons q qs)
  have "length (snd (B r q)) = reply_len q" using assms by (simp add: board_ok_def)
  then show ?case using Cons by (auto split: prod.splits) (metis snd_conv)
qed simp

text \<open>A beginning of the answers that has the right length is made of the answers to each operation.\<close>

lemma replies_unique:
  assumes B: "board_ok B"
  shows "map length bs = map (\<lambda>x. sum_list (map reply_len (requests_of ks x))) xs \<Longrightarrow>
    prefix (concat bs) (snd (board_run B r (concat (map (requests_of ks) xs)))) \<Longrightarrow>
    bs = session_replies B ks r xs"
proof (induction xs arbitrary: bs r)
  case (Cons x xs)
  then obtain b bs' where bs: "bs = b # bs'" by (cases bs) auto
  obtain r1 out where 1: "board_run B r (requests_of ks x) = (r1, out)" by fastforce
  have "length out = length b"
    using length_board_run [OF B, of r "requests_of ks x"] Cons.prems(1) by (simp add: 1 bs)
  moreover have "prefix (b @ concat bs') (out @ snd (board_run B r1 (concat (map (requests_of ks) xs))))"
    using Cons.prems(2) by (simp add: bs board_run_append 1 split: prod.splits)
  ultimately have "b = out" "prefix (concat bs') (snd (board_run B r1 (concat (map (requests_of ks) xs))))"
    by (auto simp: prefix_def)
  then show ?case using Cons.IH [of bs' r1] Cons.prems(1) by (simp add: bs 1)
qed simp

section \<open>A board with a memory\<close>

text \<open>Registers hold the last word written; used to show that the properties apply.\<close>

fun memory_board :: "(byte \<times> byte \<Rightarrow> u16) board" where
  "memory_board u (RegRead a p) = (u, be16 (u (a, p)))"
| "memory_board u (RegWrite a p v) = (u((a, p) := v), [])"
| "memory_board u (RegReadN a p n) = (u, concat (replicate (unat n) (be16 (u (a, p)))))"
| "memory_board u (RegWriteN a p d) =
     ((if d = [] then u else u((a, p) := from_be16 (d ! (length d - 2)) (d ! (length d - 1)))), [])"

lemma memory_board_ok: "board_ok memory_board"
proof -
  have "length (snd (memory_board u q)) = reply_len q" for u q
    by (cases q) (simp_all add: length_concat sum_list_replicate)
  then show ?thesis by (simp add: board_ok_def)
qed

definition tiny_holding :: "byte list \<Rightarrow> nat \<Rightarrow> ftdi_context" where
  "tiny_holding rb n = tiny_context\<lparr>readbuffer := rb, readbuffer_offset := n\<rparr>"

lemma tiny_write:
  assumes "buf \<noteq> []" and "length buf \<le> 4096"
  shows "write_all (logging packet_usb) buf (Some (tiny_holding rb n), w, l) =
    (Ret (), Some (tiny_holding rb n), w, l @ [Bulk_Out (in_ep tiny_context) buf 0 (length buf)])"
  using assms
  by (simp add: write_all_def write_ftdi_def ftdi_write_data_def with_dev_def tiny_holding_def write_loop.simps Let_def
      bind_act_def return_act_def logging_def)

lemma tiny_read:
  assumes "length rb = 8"
  shows "ftdi_read_data_wait (logging packet_usb) 2 (Some (tiny_holding rb n), [x, y, a, b] # w, l) =
    (Ret [a, b], Some (tiny_holding (overlay [x, y, a, b] rb) 2), w, l @ [Bulk_In (out_ep tiny_context) 8 0 [x, y, a, b]])"
proof -
  have bulk: "lu_bulk_in packet_usb h ep n t (d # w) = ((0, take n d), w)" for h ep n t d
    by (simp add: packet_usb_def)
  have "wait_loop (logging packet_usb) (Suc k) 2 [] (Some (tiny_holding rb n), [x, y, a, b] # w, l) =
    (Ret [a, b], Some (tiny_holding (overlay [x, y, a, b] rb) 2), w, l @ [Bulk_In (out_ep tiny_context) 8 0 [x, y, a, b]])" for k
    using assms
    by (simp add: tiny_holding_def ftdi_read_data_def read_loop.simps Let_def bulk
        bind_act_def return_act_def invalidate_readbuffer_def strip_status_def overlay_def move_packets_def)
  from this [of 99] show ?thesis by (simp add: ftdi_read_data_wait_def bind_act_def return_act_def)
qed

definition sample_dev :: "byte list list \<Rightarrow> (byte list list \<times> usb_event list) dev_state" where
  "sample_dev w = \<lparr>the_device = \<lparr>dev_name = ''GPUB'', libusbDevice = 1,
       m_ftdi = Some (tiny_holding (replicate 8 0) 0), m_tracked_regs = [((1, 3), 5)], reg_change_cb = True\<rparr>,
     bus = (w, []), changes = []\<rparr>"

lemma sample_dev_ready: "fifo_ready packet_usb 4 (ftdi_of (sample_dev w))" "unread_bytes (ftdi_of (sample_dev w)) = []"
  "sorted_keys (tracked (sample_dev w))" "map fst (tracked (sample_dev w)) = [(1, 3)]"
  by (simp_all add: fifo_ready_def ftdi_of_def sample_dev_def tiny_holding_def ctx_wf_def unread_bytes_def tracked_def
      sorted_keys_def pending_def)

definition sample_ops :: "reg_op list" where
  "sample_ops = [DoWrite 1 2 0xbeef, DoRead 1 2, DoPoll]"

lemma sample_run:
  "\<exists>s' es. run_ops (logging packet_usb) sample_ops (sample_dev [[1, 2, 0xbe, 0xef], [1, 2, 0, 7]]) =
      (Ret [[], [0xbe, 0xef], [0, 7]], s') \<and> snd (bus s') = es \<and>
    sent_bytes es = [0x20, 0x42, 0xbe, 0xef, 0x10, 0x42, 0x10, 0x43] \<and>
    received es = [[1, 2, 0xbe, 0xef], [1, 2, 0, 7]]"
  by (simp add: sample_ops_def sample_dev_def writeReg_def readReg_def updateTrackedRegs_def on_ftdi_of_def on_part_def
      ftdi_of_def put_ftdi_def tiny_write tiny_read bind_act_def then_act_def return_act_def modify_act_def be16_def
      reg_cmd_def store_reg_def from_be16_def tracked_bytes_def tracked_def)

lemma sample_poll:
  "\<exists>s'. updateTrackedRegs (logging packet_usb) (sample_dev [[1, 2, 0, 7]]) = (Ret (), s') \<and>
     received (snd (bus s')) = [[1, 2, 0, 7]]"
  by (simp add: sample_dev_def updateTrackedRegs_def on_ftdi_of_def on_part_def store_reg_def
      ftdi_of_def put_ftdi_def tiny_write tiny_read bind_act_def then_act_def return_act_def modify_act_def be16_def)

section \<open>Properties\<close>

text \<open>C34: Register operations against a board. Take any board that answers each request with as many
  words as it asks for, and a bus on which the data received so far is always the beginning of the
  board's answers to the requests sent. When a sequence of reads, writes, block transfers and polls
  returns, the bytes written to the bus form exactly the requests of the operations, in order, with
  addresses and ports cut to 6 bits and blocks cut to 65535 words; and each operation returned the
  board's answer to its own requests, for a poll by leaving the values in the map.\<close>

theorem register_session:
  assumes "fifo_ready L ps (ftdi_of s)" and "unread_bytes (ftdi_of s) = []" and "sorted_keys (tracked s)"
    and "list_all op_ok xs" and B: "board_ok B"
    and run: "run_ops (logging L) xs s = (Ret bs, s')"
    and es: "snd (bus s') = snd (bus s) @ es" and board: "answers_in_order B r ps es"
  shows "decode_requests (sent_bytes es) = Some (concat (map (requests_of (map fst (tracked s))) xs)) \<and>
    bs = session_replies B (map fst (tracked s)) r xs"
proof -
  let ?qs = "concat (map (requests_of (map fst (tracked s))) xs)"
  have x: "exchanged L ps (ftdi_of s) (concat (map encode_request ?qs)) (concat bs) (ftdi_of s')"
      and len: "map length bs = map (\<lambda>x. sum_list (map reply_len (requests_of (map fst (tracked s)) x))) xs"
    using run_ops_exchanged [OF assms(1) sorted_keys_distinct [OF assms(3)] assms(4) run]
    by (simp_all add: Let_def comp_def)
  have sent: "sent_bytes es = concat (map encode_request ?qs)"
      and got: "concat (map (strip_headers ps) (received es)) = concat bs @ unread_bytes (ftdi_of s')"
    using x assms(2) es by (auto simp: exchanged_def ftdi_of_def)
  have "list_all request_ok ?qs" using assms(4) requests_ok by (auto simp: list_all_iff)
  then have dec: "decode_requests (sent_bytes es) = Some ?qs" unfolding sent by (rule decode_encode_all)
  then have "prefix (concat bs) (snd (board_run B r ?qs))"
    using board by (auto simp: answers_in_order_def got dest: append_prefixD)
  from replies_unique [OF B len this] dec show ?thesis by simp
qed

theorem register_session_witness:
  "\<exists>s'. run_ops (logging packet_usb) sample_ops (sample_dev [[1, 2, 0xbe, 0xef], [1, 2, 0, 7]]) =
      (Ret [[], [0xbe, 0xef], [0, 7]], s') \<and>
    [[], [0xbe, 0xef], [0, 7]] = session_replies memory_board [(1, 3)] (\<lambda>_. 7) sample_ops"
proof -
  let ?s = "sample_dev [[1, 2, 0xbe, 0xef], [1, 2, 0, 7]]"
  obtain s' es where run: "run_ops (logging packet_usb) sample_ops ?s = (Ret [[], [0xbe, 0xef], [0, 7]], s')"
      and es: "snd (bus s') = es" "sent_bytes es = [0x20, 0x42, 0xbe, 0xef, 0x10, 0x42, 0x10, 0x43]"
        "received es = [[1, 2, 0xbe, 0xef], [1, 2, 0, 7]]"
    using sample_run by blast
  have "answers_in_order memory_board (\<lambda>_. 7) 4 es"
    unfolding answers_in_order_def es by code_simp
  moreover have "list_all op_ok sample_ops" by (simp add: sample_ops_def)
  moreover have "snd (bus s') = snd (bus ?s) @ es" by (simp add: es sample_dev_def)
  ultimately have "[[], [0xbe, 0xef], [0, 7]] = session_replies memory_board (map fst (tracked ?s)) (\<lambda>_. 7) sample_ops"
    using register_session [OF sample_dev_ready(1-3) _ memory_board_ok run] by blast
  then show ?thesis using run by (simp add: sample_dev_ready(4))
qed

text \<open>C35: Polling. When \<open>updateTrackedRegs\<close> returns, it has sent the device exactly the read requests of
  the polled registers, in the order of their keys, and each register of the map, whose keys are
  the same, holds the next word of the bytes the device sent, high byte first, in the same order;
  the bytes after these stay unread. The callback was called exactly for the registers whose value
  changed, in that order, with the new values. When it fails, no value has changed and nothing was
  reported.\<close>

theorem poll_updates:
  assumes "fifo_ready L ps (ftdi_of s)" and "sorted_keys (tracked s)"
    and "updateTrackedRegs (logging L) s = (r, s')"
  shows "map fst (tracked s') = map fst (tracked s) \<and>
    (if r = Ret ()
     then \<exists>es vs. snd (bus s') = snd (bus s) @ es \<and>
       decode_requests (sent_bytes es) = Some [reg6 RegRead a p. (a, p) \<leftarrow> map fst (tracked s)] \<and>
       unread_bytes (ftdi_of s) @ concat (map (strip_headers ps) (received es)) =
         concat (map be16 vs) @ unread_bytes (ftdi_of s') \<and>
       length vs = length (tracked s) \<and> tracked s' = zip (map fst (tracked s)) vs \<and>
       changes s' = changes s @
         [(dev_name (the_device s), a, p, v). (((a, p), old), v) \<leftarrow> zip (tracked s) vs, v \<noteq> old \<and> reg_change_cb (the_device s)]
     else tracked s' = tracked s \<and> changes s' = changes s)"
proof (cases "r = Ret ()")
  case True
  then have run: "updateTrackedRegs (logging L) s = (Ret (), s')" using assms(3) by simp
  note d = sorted_keys_distinct [OF assms(2)]
  let ?qs = "[reg6 RegRead a p. (a, p) \<leftarrow> map fst (tracked s)]"
  from poll_exchanged [OF assms(1) d run] obtain es where es: "snd (bus s') = snd (bus s) @ es"
      "sent_bytes es = concat (map encode_request ?qs)"
      "unread_bytes (ftdi_of s) @ concat (map (strip_headers ps) (received es)) =
        tracked_bytes s' @ unread_bytes (ftdi_of s')"
    and keys: "map fst (tracked s') = map fst (tracked s)"
    by (auto simp: exchanged_def ftdi_of_def comp_def case_prod_beta')
  have "list_all request_ok ?qs" by (auto simp: list_all_iff)
  then have "decode_requests (sent_bytes es) = Some ?qs" unfolding es(2) by (rule decode_encode_all)
  moreover have "tracked_bytes s' = concat (map be16 (map snd (tracked s')))" by (simp add: tracked_bytes_def)
  moreover have "tracked s' = zip (map fst (tracked s)) (map snd (tracked s'))"
    unfolding keys [symmetric] by (simp add: zip_map_fst_snd)
  moreover have "length (tracked s') = length (tracked s)" using keys by (metis length_map)
  ultimately show ?thesis
    using True es(1,3) keys poll_reports [OF run d] by (auto intro!: exI [of _ es] exI [of _ "map snd (tracked s')"])
next
  case False
  then show ?thesis
    using assms(3)
    by (auto simp: updateTrackedRegs_def Let_def tracked_def [symmetric] then_act_def bind_act_def on_ftdi_of_def on_part_def
        modify_act_def split: prod.splits outcome.splits if_splits)
qed

theorem poll_updates_witness:
  "\<exists>s'. updateTrackedRegs (logging packet_usb) (sample_dev [[1, 2, 0, 7]]) = (Ret (), s') \<and>
    tracked s' = [((1, 3), 7)] \<and> changes s' = [(''GPUB'', 1, 3, 7)]"
proof -
  let ?s = "sample_dev [[1, 2, 0, 7]]"
  obtain s' where run: "updateTrackedRegs (logging packet_usb) ?s = (Ret (), s')"
      and bus: "received (snd (bus s')) = [[1, 2, 0, 7]]"
    using sample_poll by blast
  have old: "tracked ?s = [((1, 3), 5)]" "dev_name (the_device ?s) = ''GPUB''" "reg_change_cb (the_device ?s) = True"
      "changes ?s = []" "snd (bus ?s) = []" "unread_bytes (ftdi_of ?s) = []"
    using sample_dev_ready(2) by (simp_all add: sample_dev_def tracked_def)
  from poll_updates [OF sample_dev_ready(1,3) run] obtain vs where vs: "length vs = 1" "tracked s' = zip [(1, 3)] vs"
      "changes s' = [(''GPUB'', a, p, v). (((a, p), old), v) \<leftarrow> zip [((1, 3), 5)] vs, v \<noteq> old \<and> True]"
      "concat (map (strip_headers 4) (received (snd (bus s')))) = concat (map be16 vs) @ unread_bytes (ftdi_of s')"
    unfolding old by (simp only: if_True simp_thms list.map fst_conv append_Nil) auto
  then obtain v where v: "vs = [v]" by (cases vs) auto
  have "[0, 7] = be16 v @ unread_bytes (ftdi_of s')" using vs(4) by (simp add: v bus strip_headers_short)
  then have "be16 v = be16 7" by (simp add: be16_def)
  then have "v = 7" by (simp only: be16_inject)
  then show ?thesis using run vs by (simp add: v)
qed

end
