(* ===== verification/Device_Open.thy ===== *)
theory Device_Open
  imports Device_Session Ftdi_Api
begin

unbundle bit_operations_syntax

text \<open>
  What \<open>Device::open\<close> leaves: a channel on which the register operations of \<open>Device_Session\<close> run, or
  a closed device and an exception.
\<close>

section \<open>Calls keep the interface of a context\<close>

definition same_line :: "ftdi_context \<Rightarrow> ftdi_context \<Rightarrow> bool" where
  "same_line c c' \<longleftrightarrow> interface c' = interface c \<and> index c' = index c \<and> in_ep c' = in_ep c \<and> out_ep c' = out_ep c \<and>
     writebuffer_chunksize c' = writebuffer_chunksize c"

text \<open>A call on \<open>c\<close> leaves a context on the same interface, and an error text when it fails.\<close>

definition framed :: "ftdi_context \<Rightarrow> int \<times> 'w st \<Rightarrow> bool" where
  "framed c res \<longleftrightarrow> (\<exists>c'. fst (snd res) = Some c' \<and> same_line c c' \<and> (fst res \<noteq> 0 \<longrightarrow> error_str c' \<noteq> None))"

lemma framedE:
  assumes "framed c (r, h)"
  obtains c' w' where "h = (Some c', w')" "same_line c c'" "r \<noteq> 0 \<longrightarrow> error_str c' \<noteq> None"
  using assms by (cases h) (auto simp: framed_def)

lemma framed_error: "same_line c c' \<Longrightarrow> framed c (ftdi_error_return code msg (Some c', w))"
  by (auto simp: framed_def ftdi_error_return_def same_line_def)

lemma framed_close_and_fail: "same_line c c' \<Longrightarrow> framed c (close_and_fail L code msg (Some c', w))"
  by (auto simp: framed_def close_and_fail_def ftdi_error_return_def ftdi_usb_close_internal_def same_line_def
      split: option.splits)

lemma framed_control:
  assumes "usb_dev c = Some h"
  shows "framed c (ftdi_usb_reset L (Some c, w))"
    and "framed c (ftdi_set_bitmode L msk mode (Some c, w))"
    and "framed c (ftdi_set_latency_timer L lat (Some c, w))"
    and "framed c (ftdi_set_baudrate L rate (Some c, w))"
    and "framed c (ftdi_usb_purge_buffers L (Some c, w))"
  using assms
  by (auto simp: framed_def ftdi_usb_reset_def ftdi_set_bitmode_def ftdi_set_latency_timer_def ftdi_set_baudrate_def
      ftdi_usb_purge_buffers_def ftdi_usb_purge_rx_buffer_def ftdi_usb_purge_tx_buffer_def
      with_dev_def vendor_out_def ftdi_error_return_def invalidate_readbuffer_def same_line_def Let_def
      split: prod.splits if_splits option.splits)

lemma same_line_trans: "same_line c c1 \<Longrightarrow> same_line c1 c2 \<Longrightarrow> same_line c c2"
  by (simp add: same_line_def)

lemma same_line_updates [simp]:
  "same_line c c" "same_line c (c'\<lparr>usb_dev := d\<rparr>) = same_line c c'" "same_line c (c'\<lparr>ftype := t\<rparr>) = same_line c c'"
  "same_line c (c'\<lparr>max_packet_size := n\<rparr>) = same_line c c'" "same_line (c\<lparr>usb_dev := d\<rparr>) c' = same_line c c'"
  by (simp_all add: same_line_def)

lemma framed_open_claimed:
  assumes "usb_dev c = Some h"
  shows "framed c (open_claimed L dev desc errno c h w)"
proof -
  obtain r w1 where 1: "lu_claim_interface L h (interface c) w = (r, w1)" by (metis prod.exhaust)
  obtain r2 s2 where 2: "ftdi_usb_reset L (Some c, w1) = (r2, s2)" by (metis prod.exhaust)
  obtain c2 w2 where s2: "s2 = (Some c2, w2)" "usb_dev c2 = Some h" using usb_reset_frame [OF 2 assms] by blast
  have l2: "same_line c c2" using framed_control(1) [OF assms, of L w1] by (simp add: 2 s2 framed_def)
  let ?c3 = "c2\<lparr>ftype := chip_of_descriptor desc (ftype c)\<rparr>"
  obtain ps w4 where 3: "ftdi_determine_max_packet_size L (Some ?c3) (Some dev) w2 = (ps, w4)"
    by (metis prod.exhaust)
  let ?c4 = "?c3\<lparr>max_packet_size := ps\<rparr>"
  obtain r5 s5 where 5: "ftdi_set_baudrate L 9600 (Some ?c4, w4) = (r5, s5)" by (metis prod.exhaust)
  have "usb_dev ?c4 = Some h" using s2(2) by simp
  from set_baudrate_frame [OF 5 this] framed_control(4) [OF this, of L 9600 w4] obtain c5 w5 where
      s5: "s5 = (Some c5, w5)" and "same_line ?c4 c5"
    by (auto simp: 5 framed_def)
  moreover have "same_line c ?c4" using l2 by simp
  ultimately have l5: "same_line c c5" using same_line_trans by blast
  show ?thesis
    unfolding open_claimed_def
    by (simp only: Let_def 1 2 3 5 s2(1) s5(1) prod.case fst_conv snd_conv option.sel split: if_split)
      (simp add: framed_close_and_fail framed_error l2 l5)
qed

lemma framed_open_dev: "framed c (ftdi_usb_open_dev L dev (Some c, w))"
proof -
  obtain r h w1 where 1: "lu_open L dev w = ((r, h), w1)" by (metis prod.exhaust)
  let ?c = "c\<lparr>usb_dev := Some h\<rparr>"
  obtain r2 desc w2 where 2: "lu_get_device_descriptor L dev w1 = ((r2, desc), w2)"
    by (metis prod.exhaust)
  obtain r3 cfg w3 where 3: "lu_get_config_descriptor L dev w2 = ((r3, cfg), w3)"
    by (metis prod.exhaust)
  obtain er w4 where 4: "(if module_detach_mode ?c = AUTO_DETACH_SIO_MODULE then
        (case lu_detach_kernel_driver L h (interface ?c) w3 of
           ((r4, errno), w') \<Rightarrow> (if r4 \<noteq> 0 then errno else 0, w'))
      else (0, w3)) = (er, w4)" by (metis prod.exhaust)
  obtain r5 n w5 where 5: "lu_get_configuration L h w4 = ((r5, n), w5)" by (metis prod.exhaust)
  obtain r6 w6 where 6: "lu_set_configuration L h (bConfigurationValue cfg) w5 = (r6, w6)"
    by (metis prod.exhaust)
  have claimed: "framed c (open_claimed L dev desc e ?c h v)" for e v
    using framed_open_claimed [of ?c h L dev desc e v] by (simp add: framed_def)
  show ?thesis
    unfolding ftdi_usb_open_dev_def
    by (simp only: Let_def fst_conv snd_conv option.case 1 2 3 4 5 6 prod.case split: if_split)
      (simp add: claimed framed_close_and_fail framed_error)
qed

section \<open>A successful open: a handle, an empty buffer, the packet size of the interface\<close>

definition sized :: "int \<times> 'w st \<Rightarrow> bool" where
  "sized res \<longleftrightarrow> (fst res = 0 \<longrightarrow> (\<exists>c'. fst (snd res) = Some c' \<and> 2 < max_packet_size c' \<and>
     usb_dev c' \<noteq> None \<and> readbuffer_remaining c' = 0))"

lemma sized_failed [simp]:
  "code \<noteq> 0 \<Longrightarrow> sized (ftdi_error_return code msg h)"
  "code \<noteq> 0 \<Longrightarrow> sized (close_and_fail L code msg h)"
  by (simp_all add: sized_def close_and_fail_def ftdi_error_return_def)

lemma sized_open_claimed:
  assumes "usb_dev c = Some h" and L: "descriptors_ok L"
  shows "sized (open_claimed L dev desc errno c h w)"
proof -
  obtain r w1 where 1: "lu_claim_interface L h (interface c) w = (r, w1)" by (metis prod.exhaust)
  obtain r2 s2 where 2: "ftdi_usb_reset L (Some c, w1) = (r2, s2)" by (metis prod.exhaust)
  obtain c2 w2 where s2: "s2 = (Some c2, w2)" "usb_dev c2 = Some h" using usb_reset_frame [OF 2 assms(1)] by blast
  let ?c3 = "c2\<lparr>ftype := chip_of_descriptor desc (ftype c)\<rparr>"
  obtain ps w4 where 3: "ftdi_determine_max_packet_size L (Some ?c3) (Some dev) w2 = (ps, w4)"
    by (metis prod.exhaust)
  let ?c4 = "?c3\<lparr>max_packet_size := ps\<rparr>"
  have ps: "8 \<le> ps" by (rule max_packet_size_ok [OF L 3])
  obtain r5 s5 where 5: "ftdi_set_baudrate L 9600 (Some ?c4, w4) = (r5, s5)" by (metis prod.exhaust)
  have "usb_dev ?c4 = Some h" using s2(2) by simp
  from set_baudrate_frame [OF 5 this] obtain c5 w5 where s5: "s5 = (Some c5, w5)" "max_packet_size c5 = ps" by auto
  have "fst (open_claimed L dev desc errno c h w) = 0 \<longrightarrow>
      (\<exists>c'. fst (snd (open_claimed L dev desc errno c h w)) = Some c' \<and> 2 < max_packet_size c')"
    unfolding open_claimed_def
    by (simp only: Let_def 1 2 3 5 s2(1) s5(1) prod.case fst_conv snd_conv option.sel split: if_split)
      (use ps s5 in \<open>auto simp: ftdi_error_return_def close_and_fail_def\<close>)
  then show ?thesis
    using open_claimed_result [OF assms(1), of desc L dev errno w]
    by (auto simp: sized_def opened_result_def split: prod.splits option.splits if_splits)
qed

lemma sized_open_dev:
  assumes L: "descriptors_ok L"
  shows "sized (ftdi_usb_open_dev L dev (Some c, w))"
proof -
  obtain r h w1 where 1: "lu_open L dev w = ((r, h), w1)" by (metis prod.exhaust)
  let ?c = "c\<lparr>usb_dev := Some h\<rparr>"
  obtain r2 desc w2 where 2: "lu_get_device_descriptor L dev w1 = ((r2, desc), w2)"
    by (metis prod.exhaust)
  obtain r3 cfg w3 where 3: "lu_get_config_descriptor L dev w2 = ((r3, cfg), w3)"
    by (metis prod.exhaust)
  obtain er w4 where 4: "(if module_detach_mode ?c = AUTO_DETACH_SIO_MODULE then
        (case lu_detach_kernel_driver L h (interface ?c) w3 of
           ((r4, errno), w') \<Rightarrow> (if r4 \<noteq> 0 then errno else 0, w'))
      else (0, w3)) = (er, w4)" by (metis prod.exhaust)
  obtain r5 n w5 where 5: "lu_get_configuration L h w4 = ((r5, n), w5)" by (metis prod.exhaust)
  obtain r6 w6 where 6: "lu_set_configuration L h (bConfigurationValue cfg) w5 = (r6, w6)"
    by (metis prod.exhaust)
  have claimed: "sized (open_claimed L dev desc e ?c h v)" for e v
    using sized_open_claimed [OF _ L, of ?c h dev desc e v] by simp
  show ?thesis
    unfolding ftdi_usb_open_dev_def
    by (simp only: Let_def fst_conv snd_conv option.case 1 2 3 4 5 6 prod.case split: if_split) (simp add: claimed)
qed

section \<open>Calls only add to the log\<close>

definition appends :: "usb_event list \<Rightarrow> 'r \<times> ('w \<times> usb_event list) st \<Rightarrow> bool" where
  "appends l res \<longleftrightarrow> (\<exists>new. snd (snd (snd res)) = l @ new)"

lemma appends_trans: "appends l (r, c, w, l1) \<Longrightarrow> appends l1 res \<Longrightarrow> appends l res"
  by (auto simp: appends_def)

lemma appends_error [simp]: "appends l (ftdi_error_return code msg (c, w, l'))  \<longleftrightarrow> appends l (code, c, w, l')"
  by (simp add: appends_def ftdi_error_return_def)

lemma appends_refl [simp]: "appends l (r, c, w, l)"
  by (simp add: appends_def)

lemma close_log [simp]: "snd (snd (ftdi_usb_close_internal (logging L) (c, w, l))) = l"
  by (simp add: ftdi_usb_close_internal_def logging_def split: option.splits)

lemma appends_close_and_fail [simp]: "appends l (close_and_fail (logging L) code msg (c, w, l'))  \<longleftrightarrow> appends l (code, c, w, l')"
  by (simp add: appends_def close_and_fail_def ftdi_error_return_def)

lemma appends_vendor [simp]: "appends l (vendor_out (logging L) request val idx code msg upd c h (w, l))"
  by (auto simp: vendor_out_def ctrl_out_def appends_def ftdi_error_return_def split: prod.splits)

lemma deinit_log: "snd (snd (ftdi_deinit (logging L) (c, w, l))) = l"
  using close_log [of L c w l]
  by (auto simp: ftdi_deinit_def Let_def logging_def split: prod.splits option.splits)

lemma free_log [simp]: "ftdi_free (logging L) (c, w, l) = (None, v) \<Longrightarrow> snd v = l"
  using deinit_log [of L c w l] by (auto simp: ftdi_free_def)

lemma packet_size_log: "snd (snd (ftdi_determine_max_packet_size (logging L) c d (w, l))) = l"
  by (auto simp: ftdi_determine_max_packet_size_def logging_def Let_def split: option.splits prod.splits list.splits)

lemma appends_open_claimed:
  assumes "usb_dev c = Some h"
  shows "appends l (open_claimed (logging L) dev desc errno c h (w, l))"
proof -
  obtain r w1 where 1: "lu_claim_interface (logging L) h (interface c) (w, l) = (r, w1, l)"
    by (cases "lu_claim_interface L h (interface c) w") (simp add: logging_def)
  obtain r2 s2 where 2: "ftdi_usb_reset (logging L) (Some c, w1, l) = (r2, s2)" by (metis prod.exhaust)
  obtain c2 v2 where s2: "s2 = (Some c2, v2)" "usb_dev c2 = Some h" using usb_reset_frame [OF 2 assms] by blast
  obtain w2 l2 where v2: "v2 = (w2, l2)" by (cases v2)
  have a2: "appends l (r2, Some c2, w2, l2)"
    using 2 appends_vendor [of l L SIO_RESET_REQUEST SIO_RESET_SIO "index16 c" "-1" "''FTDI reset failed''" invalidate_readbuffer c h w1]
    by (simp add: ftdi_usb_reset_def with_dev_def assms s2 v2)
  let ?c3 = "c2\<lparr>ftype := chip_of_descriptor desc (ftype c)\<rparr>"
  obtain ps w4 where 3: "ftdi_determine_max_packet_size (logging L) (Some ?c3) (Some dev) (w2, l2) = (ps, w4, l2)"
    using packet_size_log [of L "Some ?c3" "Some dev" w2 l2] by (metis prod.collapse)
  let ?c4 = "?c3\<lparr>max_packet_size := ps\<rparr>"
  obtain r5 s5 where 5: "ftdi_set_baudrate (logging L) 9600 (Some ?c4, w4, l2) = (r5, s5)" by (metis prod.exhaust)
  have d4: "usb_dev ?c4 = Some h" using s2(2) by simp
  from set_baudrate_frame [OF 5 this] obtain c5 w5 l5 where s5: "s5 = (Some c5, w5, l5)" by auto
  have "appends l2 (r5, Some c5, w5, l5)"
    unfolding s5 [symmetric] 5 [symmetric]
    by (auto simp: ftdi_set_baudrate_def with_dev_def Let_def d4 split: prod.splits option.splits)
  with a2 have a5: "appends l (r5, Some c5, w5, l5)" by (rule appends_trans)
  have a2': "appends l (r, Some c2, w2, l2)" and a5': "appends l (r, Some c5, w5, l5)" for r :: int
    using a2 a5 by (simp_all add: appends_def)
  show ?thesis
    unfolding open_claimed_def
    by (simp only: Let_def 1 2 3 5 s2(1) v2 s5(1) prod.case fst_conv snd_conv option.sel split: if_split)
      (simp add: a2' a5')
qed

lemma appends_open_dev: "appends l (ftdi_usb_open_dev (logging L) dev (Some c, w, l))"
proof -
  have log: "\<exists>x w'. lu_open (logging L) d v = (x, w', snd v)" "\<exists>x w'. lu_get_device_descriptor (logging L) d v = (x, w', snd v)"
    "\<exists>x w'. lu_get_config_descriptor (logging L) d v = (x, w', snd v)"
    "\<exists>x w'. lu_get_configuration (logging L) d v = (x, w', snd v)"
    "\<exists>x w'. lu_set_configuration (logging L) d n v = (x, w', snd v)"
    "\<exists>x w'. lu_detach_kernel_driver (logging L) d n v = (x, w', snd v)" for d n v
    by (simp_all add: logging_def split: prod.splits)
  obtain r h w1 where 1: "lu_open (logging L) dev (w, l) = ((r, h), w1, l)" using log(1) by (metis prod.exhaust snd_conv)
  let ?c = "c\<lparr>usb_dev := Some h\<rparr>"
  obtain r2 desc w2 where 2: "lu_get_device_descriptor (logging L) dev (w1, l) = ((r2, desc), w2, l)"
    using log(2) by (metis prod.exhaust snd_conv)
  obtain r3 cfg w3 where 3: "lu_get_config_descriptor (logging L) dev (w2, l) = ((r3, cfg), w3, l)"
    using log(3) by (metis prod.exhaust snd_conv)
  obtain r4 e4 w4' where d: "lu_detach_kernel_driver (logging L) h (interface c) (w3, l) = ((r4, e4), w4', l)"
    using log(6) by (metis prod.exhaust snd_conv)
  obtain er w4 where 4: "(if module_detach_mode ?c = AUTO_DETACH_SIO_MODULE then
        (case lu_detach_kernel_driver (logging L) h (interface ?c) (w3, l) of
           ((r4, errno), w') \<Rightarrow> (if r4 \<noteq> 0 then errno else 0, w'))
      else (0, (w3, l))) = (er, w4, l)"
    by (cases "module_detach_mode ?c = AUTO_DETACH_SIO_MODULE") (auto simp: d)
  obtain r5 n w5 where 5: "lu_get_configuration (logging L) h (w4, l) = ((r5, n), w5, l)"
    using log(4) by (metis prod.exhaust snd_conv)
  obtain r6 w6 where 6: "lu_set_configuration (logging L) h (bConfigurationValue cfg) (w5, l) = (r6, w6, l)"
    using log(5) by (metis snd_conv)
  have claimed: "appends l (open_claimed (logging L) dev desc e ?c h (v, l))" for e v
    using appends_open_claimed [of ?c h l L dev desc e v] by simp
  show ?thesis
    unfolding ftdi_usb_open_dev_def
    by (simp only: Let_def fst_conv snd_conv option.case 1 2 3 4 5 6 prod.case split: if_split) (simp add: claimed)
qed

section \<open>Opening one interface\<close>

definition interface_of :: "int \<Rightarrow> ftdi_context \<Rightarrow> bool" where
  "interface_of itf c \<longleftrightarrow> interface c = itf - 1 \<and> index c = itf \<and> in_ep c = 2 * itf \<and> out_ep c = 0x7f + 2 * itf"

text \<open>A context that was just opened.\<close>

definition fresh :: "int \<Rightarrow> ftdi_context \<Rightarrow> bool" where
  "fresh itf c \<longleftrightarrow> api_inv c \<and> usb_dev c \<noteq> None \<and> interface_of itf c \<and> writebuffer_chunksize c = 4096 \<and>
     2 < max_packet_size c \<and> readbuffer_remaining c = 0"

lemma new_context:
  assumes "ftdi_new L m1 m2 m3 w = (Some c, w')"
  shows "api_inv c \<and> writebuffer_chunksize c = 4096 \<and> usb_dev c = None \<and> readbuffer_remaining c = 0"
  using ftdi_new_inv [OF assms] assms
  by (auto simp: ftdi_new_def ftdi_init_def Let_def ftdi_set_interface_def
      ftdi_read_data_set_chunksize_def ftdi_error_return_def split: option.splits prod.splits if_splits)

lemma new_log: "snd (snd (ftdi_new (logging L) m1 m2 m3 (w, l))) = l"
  by (auto simp: ftdi_new_def ftdi_init_def Let_def ftdi_set_interface_def logging_def
      ftdi_read_data_set_chunksize_def ftdi_error_return_def split: option.splits prod.splits if_splits)

lemma set_interface_closed:
  assumes "itf = INTERFACE_A \<or> itf = INTERFACE_B" and "usb_dev c = None"
  shows "ftdi_set_interface itf (Some c, v) =
    (0, Some (c\<lparr>interface := itf - 1, index := itf, in_ep := 2 * itf, out_ep := 0x7f + 2 * itf\<rparr>), v)"
  using assms by (auto simp: ftdi_set_interface_def)

lemma open_context_result:
  assumes L: "descriptors_ok L" and itf: "itf = INTERFACE_A \<or> itf = INTERFACE_B"
    and run: "open_context (logging L) m itf dev (f, w :: 'w, l) = (r, h)"
  shows "appends l (r, h) \<and>
    (if r = Ret () then \<exists>c v. h = (Some c, v) \<and> fresh itf c else \<exists>e. r = Throws e)"
proof -
  have L': "descriptors_ok (logging L)"
    using L by (auto simp: descriptors_ok_def logging_def split: prod.splits)
  obtain f1 w1 where 1: "ftdi_new (logging L) (fst m) (fst (snd m)) (snd (snd m)) (w, l) = (f1, w1, l)"
    using new_log [of L "fst m" "fst (snd m)" "snd (snd m)" w l] by (metis prod.collapse)
  show ?thesis
  proof (cases f1)
    case None
    then show ?thesis using run by (auto simp: open_context_def 1 appends_def)
  next
    case (Some c)
    then have c: "api_inv c" "writebuffer_chunksize c = 4096" "usb_dev c = None" "readbuffer_remaining c = 0"
      using new_context [of "logging L"] 1 by auto
    let ?c1 = "c\<lparr>interface := itf - 1, index := itf, in_ep := 2 * itf, out_ep := 0x7f + 2 * itf\<rparr>"
    have set: "ftdi_set_interface itf (Some c, v) = (0, Some ?c1, v)" for v :: "'w \<times> usb_event list"
      by (rule set_interface_closed [OF itf c(3)])
    obtain c1 where c1: "c1 = ?c1" by simp
    have ca: "ftdi_set_interface itf (Some c, w1, l) = (0, Some c1, w1, l)" "api_inv c1" "interface_of itf c1"
        "writebuffer_chunksize c1 = 4096"
      using keeps_settings(1) [OF c(1), of itf "(w1, l)"] set c(2) unfolding c1
      by (simp_all add: keeps_def interface_of_def)
    obtain r2 h2 where op: "ftdi_usb_open_dev (logging L) dev (Some c1, w1, l) = (r2, h2)" by (metis prod.exhaust)
    obtain c2 v2 where h2: "h2 = (Some c2, v2)" and line: "same_line c1 c2" and err: "r2 \<noteq> 0 \<longrightarrow> error_str c2 \<noteq> None"
      using framed_open_dev [of c1 "logging L" dev "(w1, l)"] unfolding op by (rule framedE)
    have log: "appends l (r2, Some c2, v2)" using appends_open_dev [of l L dev c1 w1] unfolding op h2 .
    show ?thesis
    proof (cases "r2 = 0")
      case True
      have "fresh itf c2"
        using keeps_open_dev [OF L' ca(2), of dev "(w1, l)"] sized_open_dev [OF L', of dev c1 "(w1, l)"]
          line ca(3,4)
        unfolding op h2
        by (auto simp: fresh_def keeps_def sized_def True same_line_def interface_of_def
            split: prod.splits if_splits)
      then show ?thesis using run log by (auto simp: open_context_def 1 Some ca(1) op h2 True appends_def)
    next
      case False
      then obtain e where e: "error_str c2 = Some e" using err by blast
      obtain w3 l3 where v2: "v2 = (w3, l3)" by (cases v2)
      obtain v where v: "ftdi_free (logging L) (Some c2, w3, l3) = (None, v)" by (simp add: ftdi_free_def)
      then have "snd v = l3" by simp
      moreover have "r = Throws e \<and> h = (None, v)"
        using run by (auto simp: open_context_def 1 Some ca(1) op h2 v2 False throw_errorstr_def ftdi_get_error_string_def e v)
      ultimately show ?thesis using log by (auto simp: appends_def v2)
    qed
  qed
qed

section \<open>The two interfaces\<close>

lemma open_context_none: "open_context L m itf dev h = (r, h') \<Longrightarrow> r \<noteq> Ret () \<Longrightarrow> fst h' = None"
  by (auto simp: open_context_def throw_errorstr_def ftdi_free_def split: prod.splits option.splits if_splits)
    (metis fst_conv)

lemma closed_log:
  assumes "closed_ftdi (logging L) (Some c, w, l) = h"
  shows "fst h = None \<and> snd (snd h) = l"
proof -
  have rel: "snd (snd (lu_release_interface (logging L) d i (w, l))) = l" for d i
    by (cases "lu_release_interface L d i w") (simp add: logging_def)
  obtain c' w' where "ftdi_usb_close (logging L) (Some c, w, l) = (c', w')" by (metis prod.exhaust)
  then have "snd (snd w') = l"
    using rel close_log [of L "Some c"]
    by (auto simp: ftdi_usb_close_def split: option.splits prod.splits) (metis snd_conv)+
  then show ?thesis
    using assms \<open>ftdi_usb_close _ _ = _\<close> deinit_log [of L "fst w'" "fst (snd w')" l]
    by (cases w') (auto simp: closed_ftdi_def ftdi_free_def)
qed

text \<open>What a call under \<open>or_close\<close> does: it succeeds, or the context is closed and freed.\<close>

lemma or_close_result:
  assumes "m (Some c, w, l) = (r, Some c', w', l')" and "r \<noteq> 0 \<longrightarrow> error_str c' \<noteq> None"
    and run: "or_close (logging L) m (Some c, w, l) = (x, h)"
  shows "(if r = 0 then x = Ret () \<and> h = (Some c', w', l') else \<exists>e. x = Throws e \<and> fst h = None \<and> snd (snd h) = l')"
proof (cases "r = 0")
  case True
  then show ?thesis using run assms(1) by (simp add: or_close_def)
next
  case False
  then obtain e where "error_str c' = Some e" using assms(2) by blast
  then show ?thesis
    using run assms(1) False closed_log [of L c' w' l', OF refl]
    by (auto simp: or_close_def throw_errorstr_def ftdi_get_error_string_def)
qed

text \<open>A control request that succeeded.\<close>

definition requested :: "int \<Rightarrow> byte \<Rightarrow> u16 \<Rightarrow> usb_event \<Rightarrow> bool" where
  "requested itf request val e \<longleftrightarrow>
     (\<exists>c h r d. e = vendor_event c h request val r d \<and> index c = itf \<and> 0 \<le> r)"

lemma requestedI: "index c = itf \<Longrightarrow> 0 \<le> r \<Longrightarrow> requested itf request val (vendor_event c h request val r d)"
  unfolding requested_def by blast

lemma purge_result:
  assumes "usb_dev c = Some h"
  shows "\<exists>r c' w' es. ftdi_usb_purge_buffers (logging L) (Some c, w, l) = (r, Some c', w', l @ es) \<and>
    (r \<noteq> 0 \<longrightarrow> error_str c' \<noteq> None) \<and>
    (r = 0 \<longrightarrow> (\<exists>e1 e2. es = [e1, e2] \<and> requested (index c) SIO_RESET_REQUEST SIO_RESET_PURGE_RX e1 \<and>
       requested (index c) SIO_RESET_REQUEST SIO_RESET_PURGE_TX e2))"
proof -
  let ?c = "invalidate_readbuffer c"
  obtain r1 d1 w1 where rx: "ftdi_usb_purge_rx_buffer (logging L) (Some c, w, l) =
      ((if r1 < 0 then -1 else 0),
       Some (if r1 < 0 then c\<lparr>error_str := Some ''FTDI purge of RX buffer failed''\<rparr> else ?c), w1,
       l @ [vendor_event c h SIO_RESET_REQUEST SIO_RESET_PURGE_RX r1 d1])"
    by (rule purge_rx_event [OF assms])
  have dev: "usb_dev ?c = Some h" using assms by simp
  obtain r2 d2 w2 where tx: "ftdi_usb_purge_tx_buffer (logging L)
       (Some ?c, w1, l @ [vendor_event c h SIO_RESET_REQUEST SIO_RESET_PURGE_RX r1 d1]) =
      ((if r2 < 0 then -1 else 0),
       Some (if r2 < 0 then ?c\<lparr>error_str := Some ''FTDI purge of TX buffer failed''\<rparr> else ?c), w2,
       (l @ [vendor_event c h SIO_RESET_REQUEST SIO_RESET_PURGE_RX r1 d1]) @
         [vendor_event ?c h SIO_RESET_REQUEST SIO_RESET_PURGE_TX r2 d2])"
    by (rule purge_tx_event [OF dev])
  have ix: "index ?c = index c" by (simp add: invalidate_readbuffer_def)
  show ?thesis
    using rx tx assms
    by (cases "r1 < 0"; cases "r2 < 0")
      (auto simp: ftdi_usb_purge_buffers_def with_dev_def requestedI ix)
qed

lemma open_b_result:
  assumes L: "descriptors_ok L" and run: "purge_interface_b (logging L) m dev (None, w, l) = (r, h)"
  shows "fst h = None \<and>
    (if r = Ret ()
     then \<exists>pre e1 e2. snd (snd h) = l @ pre @ [e1, e2] \<and> requested INTERFACE_B SIO_RESET_REQUEST SIO_RESET_PURGE_RX e1 \<and>
       requested INTERFACE_B SIO_RESET_REQUEST SIO_RESET_PURGE_TX e2
     else \<exists>e. r = Throws e)"
proof -
  obtain r1 h1 where 1: "open_context (logging L) m INTERFACE_B dev (None, w, l) = (r1, h1)" by (metis prod.exhaust)
  have o: "appends l (r1, h1)" "if r1 = Ret () then \<exists>c v. h1 = (Some c, v) \<and> fresh INTERFACE_B c else \<exists>e. r1 = Throws e"
    using open_context_result [OF L _ 1] by auto
  show ?thesis
  proof (cases "r1 = Ret ()")
    case False
    then show ?thesis
      using o run 1 open_context_none [OF 1]
      by (auto simp: purge_interface_b_def then_act_def bind_act_def)
  next
    case True
    then obtain c w1 l1 where h1: "h1 = (Some c, w1, l1)" and c: "fresh INTERFACE_B c" using o(2) by (metis prod.exhaust)
    obtain pre where l1: "l1 = l @ pre" using o(1) by (auto simp: appends_def h1)
    obtain d where d: "usb_dev c = Some d" using c by (auto simp: fresh_def)
    obtain r2 c2 w2 es where p: "ftdi_usb_purge_buffers (logging L) (Some c, w1, l1) = (r2, Some c2, w2, l1 @ es)"
        "r2 \<noteq> 0 \<longrightarrow> error_str c2 \<noteq> None"
        "r2 = 0 \<longrightarrow> (\<exists>e1 e2. es = [e1, e2] \<and> requested INTERFACE_B SIO_RESET_REQUEST SIO_RESET_PURGE_RX e1 \<and>
           requested INTERFACE_B SIO_RESET_REQUEST SIO_RESET_PURGE_TX e2)"
      using purge_result [OF d, of L w1 l1] c by (auto simp: fresh_def interface_of_def)
    obtain x h2 where oc: "or_close (logging L) (ftdi_usb_purge_buffers (logging L)) (Some c, w1, l1) = (x, h2)" by (metis prod.exhaust)
    note q = or_close_result [where m = "ftdi_usb_purge_buffers (logging L)", OF p(1,2) oc]
    show ?thesis
      using run q p(3) closed_log [of L c2 w2 "l1 @ es", OF refl]
      by (cases "r2 = 0")
        (auto simp: purge_interface_b_def then_act_def bind_act_def 1 True h1 oc [unfolded l1] modify_act_def l1)
  qed
qed

lemma control_result:
  assumes "m (Some c, w, l) = vendor_out (logging L) request val (index16 c) code msg upd c h (w, l)" and "code \<noteq> 0"
  shows "\<exists>r c' w' e. m (Some c, w, l) = (r, Some c', w', l @ [e]) \<and> (r \<noteq> 0 \<longrightarrow> error_str c' \<noteq> None) \<and>
    (r = 0 \<longrightarrow> c' = upd c \<and> requested (index c) request val e)"
  using vendor_out_event [of L request val c code msg upd h w l] assms
  by (auto intro!: requestedI split: if_splits)

text \<open>One step of the set-up of interface A.\<close>

lemma setup_step:
  assumes run: "then_act (or_close (logging L) m) k (Some c, w, l) = (x, hx)"
    and m: "m (Some c, w, l) = vendor_out (logging L) request val (index16 c) code msg upd c h (w, l)" "code \<noteq> 0"
  shows "(\<exists>w' e. requested (index c) request val e \<and> k (Some (upd c), w', l @ [e]) = (x, hx)) \<or> (\<exists>e. x = Throws e)"
proof -
  obtain r c' w' e where 1: "m (Some c, w, l) = (r, Some c', w', l @ [e])" "r \<noteq> 0 \<longrightarrow> error_str c' \<noteq> None"
      and ok: "r = 0 \<longrightarrow> c' = upd c \<and> requested (index c) request val e"
    using control_result [of m, OF m] by blast
  obtain y h2 where oc: "or_close (logging L) m (Some c, w, l) = (y, h2)" by (metis prod.exhaust)
  show ?thesis
    using or_close_result [where m = m, OF 1 oc] ok run
    by (cases "r = 0") (auto simp: then_act_def bind_act_def oc)
qed

lemma setup_a_result:
  assumes d: "usb_dev c = Some h" and run: "setup_interface_a (logging L) (Some c, w, l) = (x, hx)"
  shows "if x = Ret ()
    then \<exists>w' e1 e2 e3. hx = (Some ((invalidate_readbuffer c)\<lparr>bitbang_mode := BITMODE_SYNCFF, bitbang_enabled := 1\<rparr>), w', l @ [e1, e2, e3]) \<and>
      requested (index c) SIO_RESET_REQUEST SIO_RESET_SIO e1 \<and> requested (index c) SIO_SET_BITMODE_REQUEST 0x4000 e2 \<and>
      requested (index c) SIO_SET_LATENCY_TIMER_REQUEST 1 e3
    else \<exists>e. x = Throws e"
proof (cases "\<exists>e. x = Throws e")
  case True
  then show ?thesis by auto
next
  case False
  let ?c1 = "invalidate_readbuffer c"
  let ?c2 = "?c1\<lparr>bitbang_mode := BITMODE_SYNCFF, bitbang_enabled := 1\<rparr>"
  have ix: "index ?c1 = index c" "index ?c2 = index c" "usb_dev ?c1 = Some h" "usb_dev ?c2 = Some h"
    using d by (simp_all add: invalidate_readbuffer_def)
  obtain w1 e1 where 1: "requested (index c) SIO_RESET_REQUEST SIO_RESET_SIO e1"
      "then_act (or_close (logging L) (ftdi_set_bitmode (logging L) 0 BITMODE_SYNCFF))
         (or_close (logging L) (ftdi_set_latency_timer (logging L) 1)) (Some ?c1, w1, l @ [e1]) = (x, hx)"
    using setup_step [OF run [unfolded setup_interface_a_def], where request = SIO_RESET_REQUEST and val = SIO_RESET_SIO and code = "-1"
        and msg = "''FTDI reset failed''" and upd = invalidate_readbuffer and h = h] d False
    by (auto simp: ftdi_usb_reset_def with_dev_def)
  obtain w2 e2 where 2: "requested (index c) SIO_SET_BITMODE_REQUEST 0x4000 e2"
      "or_close (logging L) (ftdi_set_latency_timer (logging L) 1) (Some ?c2, w2, (l @ [e1]) @ [e2]) = (x, hx)"
    using setup_step [OF 1(2), where request = SIO_SET_BITMODE_REQUEST and val = "0x4000" and code = "-1"
        and msg = "''unable to configure bitbang mode. Perhaps not a BM/2232C type chip?''"
        and upd = "\<lambda>c. c\<lparr>bitbang_mode := BITMODE_SYNCFF, bitbang_enabled := 1\<rparr>" and h = h] ix False
    by (auto simp: ftdi_set_bitmode_def with_dev_def Let_def)
  have lat: "ftdi_set_latency_timer (logging L) 1 (Some ?c2, w2, (l @ [e1]) @ [e2]) =
      vendor_out (logging L) SIO_SET_LATENCY_TIMER_REQUEST 1 (index16 ?c2) (-2) ''unable to set latency timer''
        (\<lambda>c. c) ?c2 h (w2, (l @ [e1]) @ [e2])"
    using ix(4) by (simp add: ftdi_set_latency_timer_def with_dev_def)
  obtain r c' w3 e3 where 3: "ftdi_set_latency_timer (logging L) 1 (Some ?c2, w2, (l @ [e1]) @ [e2]) = (r, Some c', w3, ((l @ [e1]) @ [e2]) @ [e3])"
      "r \<noteq> 0 \<longrightarrow> error_str c' \<noteq> None" "r = 0 \<longrightarrow> c' = ?c2 \<and> requested (index ?c2) SIO_SET_LATENCY_TIMER_REQUEST 1 e3"
    using control_result [of "ftdi_set_latency_timer (logging L) 1", OF lat] by auto
  have "r = 0" using or_close_result [where m = "ftdi_set_latency_timer (logging L) 1", OF 3(1,2) 2(2)] False by (auto split: if_splits)
  then show ?thesis
    using or_close_result [where m = "ftdi_set_latency_timer (logging L) 1", OF 3(1,2) 2(2)] 1(1) 2(1) 3(3) ix(2) by auto
qed

section \<open>Properties\<close>

text \<open>C36: Opening a device. \<open>Device::open\<close> on a closed device either throws, and the device stays closed;
  or it returns, and then both interfaces were opened, the buffers of interface B were purged, after
  which interface A was reset, set to the synchronous FIFO mode and to a latency of 1 ms, in this
  order; and the device holds an open context of interface A in that mode, with nothing unread, on
  which register operations run. The polled registers and the callback are as before.\<close>

theorem device_open_ready:
  assumes L: "descriptors_ok L" "bulk_ok L" "bulk_progress L" and closed: "m_ftdi (the_device s) = None"
    and run: "device_open (logging L) ma mb s = (r, s')"
  shows "tracked s' = tracked s \<and> changes s' = changes s \<and>
    (if r = Ret ()
     then \<exists>c pre es. m_ftdi (the_device s') = Some c \<and> fifo_ready L (max_packet_size c) (ftdi_of s') \<and>
       unread_bytes (ftdi_of s') = [] \<and> interface_of INTERFACE_A c \<and> bitbang_mode c = BITMODE_SYNCFF \<and> bitbang_enabled c = 1 \<and>
       snd (bus s') = snd (bus s) @ pre @ es \<and>
       list_all2 (\<lambda>e (itf, request, val). requested itf request val e) es
         [(INTERFACE_B, SIO_RESET_REQUEST, SIO_RESET_PURGE_RX), (INTERFACE_B, SIO_RESET_REQUEST, SIO_RESET_PURGE_TX),
          (INTERFACE_A, SIO_RESET_REQUEST, SIO_RESET_SIO), (INTERFACE_A, SIO_SET_BITMODE_REQUEST, 0x4000),
          (INTERFACE_A, SIO_SET_LATENCY_TIMER_REQUEST, 1)]
     else (\<exists>e. r = Throws e) \<and> m_ftdi (the_device s') = None)"
proof -
  obtain w l where b: "bus s = (w, l)" by fastforce
  let ?dev = "libusbDevice (the_device s)"
  obtain r1 h1 where 1: "open_context (logging L) ma INTERFACE_A ?dev (None, w, l) = (r1, h1)" by (metis prod.exhaust)
  note o1 = open_context_result [OF L(1) _ 1, simplified]
  show ?thesis
  proof (cases "r1 = Ret ()")
    case False
    then show ?thesis
      using run closed o1 by (auto simp: device_open_def isOpen_def b 1 tracked_def)
  next
    case True
    then obtain a w1 l1 where h1: "h1 = (Some a, w1, l1)" and a: "fresh INTERFACE_A a" using o1 by (metis prod.exhaust)
    obtain p1 where l1: "l1 = l @ p1" using o1 by (auto simp: appends_def h1)
    obtain r2 f2 w2 l2 where 2: "purge_interface_b (logging L) mb ?dev (None, w1, l1) = (r2, f2, w2, l2)" by (metis prod.exhaust)
    note o2 = open_b_result [OF L(1) 2, simplified]
    show ?thesis
    proof (cases "r2 = Ret ()")
      case False
      then show ?thesis
        using run closed o2 by (auto simp: device_open_def isOpen_def b 1 True h1 2 tracked_def)
    next
      case r2: True
      obtain p2 e1 e2 where l2: "l2 = l @ p1 @ p2 @ [e1, e2]"
          and e12: "requested INTERFACE_B SIO_RESET_REQUEST SIO_RESET_PURGE_RX e1"
            "requested INTERFACE_B SIO_RESET_REQUEST SIO_RESET_PURGE_TX e2"
        using o2 r2 by (auto simp: l1)
      obtain r3 h3 where 3: "setup_interface_a (logging L) (Some a, w2, l2) = (r3, h3)" by (metis prod.exhaust)
      obtain d where d: "usb_dev a = Some d" using a by (auto simp: fresh_def)
      note o3 = setup_a_result [OF d 3]
      show ?thesis
      proof (cases "r3 = Ret ()")
        case False
        then show ?thesis
          using run closed o3 by (auto simp: device_open_def isOpen_def b 1 True h1 2 r2 3 tracked_def)
      next
        case r3: True
        let ?c = "(invalidate_readbuffer a)\<lparr>bitbang_mode := BITMODE_SYNCFF, bitbang_enabled := 1\<rparr>"
        obtain w3 e3 e4 e5 where h3: "h3 = (Some ?c, w3, l2 @ [e3, e4, e5])" and e345:
            "requested INTERFACE_A SIO_RESET_REQUEST SIO_RESET_SIO e3" "requested INTERFACE_A SIO_SET_BITMODE_REQUEST 0x4000 e4"
            "requested INTERFACE_A SIO_SET_LATENCY_TIMER_REQUEST 1 e5"
          using o3 r3 a by (auto simp: fresh_def interface_of_def)
        have s': "r = Ret ()" "s' = put_ftdi h3 s"
          using run closed by (simp_all add: device_open_def isOpen_def b 1 True h1 2 r2 3 r3)
        have c: "m_ftdi (the_device s') = Some ?c" "ftdi_of s' = h3" by (simp_all add: s' put_ftdi_def h3 ftdi_of_def)
        have "fifo_ready L (max_packet_size ?c) (ftdi_of s')" "unread_bytes (ftdi_of s') = []" "interface_of INTERFACE_A ?c"
          using a L by (auto simp: c(2) h3 fifo_ready_def fresh_def invalidate_readbuffer_def api_inv_def ctx_wf_def
              unread_bytes_def pending_def interface_of_def)
        moreover have "snd (bus s') = snd (bus s) @ (p1 @ p2) @ [e1, e2, e3, e4, e5]"
          by (simp add: s' put_ftdi_def h3 l2 b)
        moreover have "tracked s' = tracked s \<and> changes s' = changes s" by (simp add: s'(2))
        moreover have "bitbang_mode ?c = BITMODE_SYNCFF \<and> bitbang_enabled ?c = 1" by simp
        moreover have "list_all2 (\<lambda>e (itf, request, val). requested itf request val e) [e1, e2, e3, e4, e5]
          [(INTERFACE_B, SIO_RESET_REQUEST, SIO_RESET_PURGE_RX), (INTERFACE_B, SIO_RESET_REQUEST, SIO_RESET_PURGE_TX),
           (INTERFACE_A, SIO_RESET_REQUEST, SIO_RESET_SIO), (INTERFACE_A, SIO_SET_BITMODE_REQUEST, 0x4000),
           (INTERFACE_A, SIO_SET_LATENCY_TIMER_REQUEST, 1)]"
          using e12 e345 by simp
        ultimately show ?thesis unfolding s'(1) if_P [OF refl] using c(1) by blast
      qed
    qed
  qed
qed

definition closed_dev :: "(byte list list \<times> usb_event list) dev_state" where
  "closed_dev = \<lparr>the_device = device_blank 5 ''GPUB'', bus = ([], []), changes = []\<rparr>"

definition some_heap :: heap where
  "some_heap = (True, \<lambda>_. True, Some sample_context)"

lemma sample_vendor:
  "\<exists>l'. vendor_out (logging packet_usb) request val idx code msg upd c h (w, l) = (0, Some (upd c), w, l')"
  by (simp add: vendor_out_def ctrl_out_def)

lemma sample_baud:
  assumes "usb_dev c = Some h" and "bitbang_enabled c = 0" and "ftype c = TYPE_2232H"
  shows "\<exists>c' l'. ftdi_set_baudrate (logging packet_usb) 9600 (Some c, w, l) = (0, Some c', w, l')"
proof -
  have "fst (encoded_baud 9600 TYPE_2232H) = 9600" by code_simp
  then obtain v where "encoded_baud 9600 TYPE_2232H = (9600, v)" by (metis prod.collapse)
  then show ?thesis
    using assms
    by (simp add: ftdi_set_baudrate_def with_dev_def ftdi_convert_baudrate_def out_of_tolerance_def Let_def
        vendor_out_def ctrl_out_def)
qed

lemma sample_open:
  assumes "bitbang_enabled c = 0"
  shows "\<exists>c' l'. ftdi_usb_open_dev (logging packet_usb) d (Some c, w, l) = (0, Some c', w, l')"
proof -
  have usb: "lu_open (logging packet_usb) d (w, l) = ((0, d), w, l)"
    "lu_claim_interface (logging packet_usb) d i (w, l) = (0, w, l)"
    "lu_get_configuration (logging packet_usb) d (w, l) = ((0, 1), w, l)"
    "lu_detach_kernel_driver (logging packet_usb) d i (w, l) = ((0, 0), w, l)"
    "lu_get_device_descriptor (logging packet_usb) d (w, l) = ((0, \<lparr>idVendor = 0x0403, idProduct = 0x6010,
       bcdDevice = 0x700, iManufacturer = 1, iProduct = 2, iSerialNumber = 3, bNumConfigurations = 1\<rparr>), w, l)"
    "lu_get_config_descriptor (logging packet_usb) d (w, l) = ((0, \<lparr>bConfigurationValue = 1,
       cfg_interfaces = [[[512, 512]], [[512, 512]]]\<rparr>), w, l)" for d i l
    by (simp_all add: logging_def packet_usb_def idle_usb_def)
  let ?c = "c\<lparr>usb_dev := Some d\<rparr>"
  obtain l1 where r: "ftdi_usb_reset (logging packet_usb) (Some ?c, w, l) = (0, Some (invalidate_readbuffer ?c), w, l1)"
    using sample_vendor by (force simp: ftdi_usb_reset_def with_dev_def)
  have packet: "\<exists>ps. ftdi_determine_max_packet_size (logging packet_usb) (Some c) (Some d) (w, l1) = (ps, w, l1)" for c
    by (auto simp: ftdi_determine_max_packet_size_def usb Let_def split: option.splits prod.splits list.splits)
  let ?c3 = "(invalidate_readbuffer ?c)\<lparr>ftype := TYPE_2232H\<rparr>"
  obtain ps where ps: "ftdi_determine_max_packet_size (logging packet_usb) (Some ?c3) (Some d) (w, l1) = (ps, w, l1)"
    using packet by blast
  obtain c5 l5 where b: "ftdi_set_baudrate (logging packet_usb) 9600 (Some (?c3\<lparr>max_packet_size := ps\<rparr>), w, l1) = (0, Some c5, w, l5)"
    using sample_baud [of "?c3\<lparr>max_packet_size := ps\<rparr>" d w l1] assms by (auto simp: invalidate_readbuffer_def)
  have "open_claimed (logging packet_usb) d \<lparr>idVendor = 0x0403, idProduct = 0x6010,
       bcdDevice = 0x700, iManufacturer = 1, iProduct = 2, iSerialNumber = 3, bNumConfigurations = 1\<rparr> 0 ?c d (w, l) =
      (0, Some (c5\<lparr>error_str := Some ''all fine''\<rparr>), w, l5)"
    using r ps b by (simp add: open_claimed_def usb Let_def chip_of_descriptor_def ftdi_error_return_def)
  then show ?thesis by (auto simp: ftdi_usb_open_dev_def usb Let_def)
qed

lemma sample_new:
  "\<exists>c. ftdi_new (logging packet_usb) True (\<lambda>_. True) (Some sample_context) (w, l) = (Some c, w, l) \<and>
     bitbang_enabled c = 0 \<and> usb_dev c = None"
  by (simp add: ftdi_new_def ftdi_init_def Let_def ftdi_set_interface_def ftdi_read_data_set_chunksize_def logging_def
      packet_usb_def idle_usb_def)

lemma sample_context_opens:
  assumes "itf = INTERFACE_A \<or> itf = INTERFACE_B"
  shows "\<exists>c l'. open_context (logging packet_usb) some_heap itf d (f, w, l) = (Ret (), Some c, w, l') \<and> fresh itf c"
proof -
  obtain c where c: "ftdi_new (logging packet_usb) True (\<lambda>_. True) (Some sample_context) (w, l) = (Some c, w, l)"
      "bitbang_enabled c = 0" "usb_dev c = None"
    using sample_new by blast
  let ?c1 = "c\<lparr>interface := itf - 1, index := itf, in_ep := 2 * itf, out_ep := 0x7f + 2 * itf\<rparr>"
  have "ftdi_set_interface itf (Some c, v) = (0, Some ?c1, v)" for v :: "byte list list \<times> usb_event list"
    by (rule set_interface_closed [OF assms c(3)])
  moreover obtain c1 where "c1 = ?c1" by simp
  ultimately have c1: "ftdi_set_interface itf (Some c, w, l) = (0, Some c1, w, l)" "bitbang_enabled c1 = 0"
    using c(2) by simp_all
  obtain c2 l2 where "ftdi_usb_open_dev (logging packet_usb) d (Some c1, w, l) = (0, Some c2, w, l2)"
    using sample_open [OF c1(2)] by blast
  then have run: "open_context (logging packet_usb) some_heap itf d (f, w, l) = (Ret (), Some c2, w, l2)"
    by (simp add: open_context_def some_heap_def c(1) c1(1))
  have "descriptors_ok packet_usb" by (simp add: descriptors_ok_def packet_usb_def idle_usb_def)
  from open_context_result [OF this assms run] have "fresh itf c2" by simp
  with run show ?thesis by blast
qed

lemma sample_blank_opens:
  "fst (device_open (logging packet_usb) some_heap some_heap
     \<lparr>the_device = device_blank h ser, bus = ([], []), changes = []\<rparr>) = Ret ()"
proof -
  obtain a la where a: "open_context (logging packet_usb) some_heap INTERFACE_A h (None, [], []) = (Ret (), Some a, [], la)"
      "fresh INTERFACE_A a"
    using sample_context_opens by blast
  obtain b lb where b: "open_context (logging packet_usb) some_heap INTERFACE_B h (None, [], la) = (Ret (), Some b, [], lb)"
      "fresh INTERFACE_B b"
    using sample_context_opens by blast
  obtain da db where d: "usb_dev a = Some da" "usb_dev b = Some db" using a(2) b(2) by (auto simp: fresh_def)
  have "\<exists>c l'. ftdi_usb_purge_buffers (logging packet_usb) (Some b, [], lb) = (0, Some c, [], l')"
    by (simp add: ftdi_usb_purge_buffers_def ftdi_usb_purge_rx_buffer_def ftdi_usb_purge_tx_buffer_def with_dev_def
        vendor_out_def ctrl_out_def d)
  then obtain c l' where "purge_interface_b (logging packet_usb) some_heap h (None, [], la) =
      (Ret (), closed_ftdi (logging packet_usb) (Some c, [], l'))"
    by (auto simp: purge_interface_b_def then_act_def bind_act_def b(1) or_close_def modify_act_def)
  moreover obtain v where "closed_ftdi (logging packet_usb) (Some c, [], l') = (None, v)"
    by (simp add: closed_ftdi_def ftdi_free_def)
  moreover have "fst (setup_interface_a (logging packet_usb) (Some a, v)) = Ret ()"
    by (cases v) (simp add: setup_interface_a_def then_act_def bind_act_def or_close_def ftdi_usb_reset_def ftdi_set_bitmode_def
        ftdi_set_latency_timer_def with_dev_def vendor_out_def ctrl_out_def d Let_def invalidate_readbuffer_def)
  then obtain h3 where "setup_interface_a (logging packet_usb) (Some a, v) = (Ret (), h3)" by (metis prod.collapse)
  ultimately show ?thesis
    by (simp add: device_open_def isOpen_def device_blank_def a(1))
qed

lemma sample_device_opens: "fst (device_open (logging packet_usb) some_heap some_heap closed_dev) = Ret ()"
  unfolding closed_dev_def by (rule sample_blank_opens)

theorem device_open_ready_witness:
  "\<exists>s' c. device_open (logging packet_usb) some_heap some_heap closed_dev = (Ret (), s') \<and>
    fifo_ready packet_usb (max_packet_size c) (ftdi_of s') \<and> interface_of INTERFACE_A c"
proof -
  obtain s' where run: "device_open (logging packet_usb) some_heap some_heap closed_dev = (Ret (), s')"
    using sample_device_opens by (metis prod.collapse)
  have "descriptors_ok packet_usb" by (simp add: descriptors_ok_def packet_usb_def idle_usb_def)
  moreover have "m_ftdi (the_device closed_dev) = None" by (simp add: closed_dev_def device_blank_def)
  ultimately show ?thesis
    using device_open_ready [OF _ bulk_ok_packet bulk_progress_packet _ run] run by auto
qed

end
