(* ===== verification/Text_Order.thy ===== *)
theory Text_Order
  imports Main
begin

text \<open>
  The order of \<open>std::string\<close>, by which the maps of the program are sorted, and its laws.
\<close>

text \<open>\<open>operator<\<close> of \<open>std::string\<close>: by the characters as unsigned numbers.\<close>

fun string_less :: "string \<Rightarrow> string \<Rightarrow> bool" where
  "string_less xs [] \<longleftrightarrow> False"
| "string_less [] (y # ys) \<longleftrightarrow> True"
| "string_less (x # xs) (y # ys) \<longleftrightarrow> of_char x < (of_char y :: nat) \<or> x = y \<and> string_less xs ys"

lemma string_less_irrefl [simp]: "\<not> string_less xs xs"
  by (induction xs) auto

lemma string_less_trans: "string_less xs ys \<Longrightarrow> string_less ys zs \<Longrightarrow> string_less xs zs"
proof (induction xs ys arbitrary: zs rule: string_less.induct)
  case (2 y ys)
  then show ?case by (cases zs) auto
next
  case (3 x xs y ys)
  then show ?case by (cases zs) auto
qed simp

lemma string_less_total: "\<not> string_less xs ys \<Longrightarrow> xs \<noteq> ys \<Longrightarrow> string_less ys xs"
proof (induction xs ys rule: string_less.induct)
  case (1 xs)
  then show ?case by (cases xs) auto
next
  case (3 x xs y ys)
  have "of_char x = (of_char y :: nat) \<Longrightarrow> x = y" by simp
  then show ?case using 3 by auto
qed simp

lemma string_less_asym: "string_less xs ys \<Longrightarrow> \<not> string_less ys xs"
  using string_less_trans string_less_irrefl by blast

end
