(* ===== verification/Manager.thy ===== *)
theory Manager
  imports Device Programmer Text_Order "HOL-Library.Sublist"
begin

text \<open>
  The devices of the server (\<open>src/devices/DeviceManager.h\<close>, \<open>DeviceManager.cpp\<close>): which boards
  are connected, what happens when one is plugged in or pulled out, reprogramming, and the
  periodic poll of registers. Messages to the console are left out; the event loop, which calls
  the operations one after the other, is not part of the model.
\<close>

section \<open>State\<close>

record device_description =
  desc_name :: string
  serial_prefix :: string
  fname_bitfile :: string
  watchlist :: "addr_port_t list"

text \<open>The calls of the callbacks of the manager.\<close>

datatype notice =
    Added string
  | Removed string
  | RegChanged string byte byte u16

text \<open>
  Devices are objects shared by the two maps: \<open>objs\<close> are the objects, by reference, and
  \<open>next_ref\<close> is the first unused reference. \<open>m_serial_map\<close> is a list in the order of its keys;
  \<open>m_device_map\<close> is never iterated. \<open>added_cb\<close>, \<open>removed_cb\<close>, \<open>changed_cb\<close>: whether the callbacks
  are set.
\<close>

record 'w manager =
  m_device_descriptions :: "device_description list"
  objs :: "nat \<Rightarrow> device"
  next_ref :: nat
  m_device_map :: "handle \<Rightarrow> nat option"
  m_serial_map :: "(string \<times> nat) list"
  added_cb :: bool
  removed_cb :: bool
  changed_cb :: bool
  notices :: "notice list"
  usb :: 'w

text \<open>
  What the manager uses: libusb with its error names, the memory \<open>malloc\<close> returns for the three
  contexts of an operation, the files, and what uninitialised and static memory holds (the static
  buffer of \<open>deinit\<close>, \<open>m_family\<close>, and what \<open>getChain\<close> reads).
\<close>

record 'w manager_env =
  me_io :: "'w io_env"
  me_error_name :: "int \<Rightarrow> string"
  me_heaps :: "'w \<Rightarrow> heap \<times> heap \<times> heap"
  me_files :: files
  me_uninit :: uninit
  me_stale :: "'w \<Rightarrow> byte list \<times> int \<times> int \<times> byte list"

abbreviation me_usb :: "'w manager_env \<Rightarrow> 'w libusb" where
  "me_usb E \<equiv> ev_usb (me_io E)"

definition on_usb :: "('w, 'a) act \<Rightarrow> ('w manager, 'a) act" where
  "on_usb = on_part usb (\<lambda>w s. s\<lparr>usb := w\<rparr>)"

text \<open>An operation of a device; its callback, once set, passes the changes on to that of the manager.\<close>

definition notice_of :: "reg_change \<Rightarrow> notice" where
  "notice_of = (\<lambda>(ser, a, p, v). RegChanged ser a p v)"

definition on_device :: "nat \<Rightarrow> ('w dev_state, 'a) act \<Rightarrow> ('w manager, 'a) act" where
  "on_device ref m s =
     (case m \<lparr>the_device = objs s ref, bus = usb s, changes = []\<rparr> of
        (r, d) \<Rightarrow>
          (r, s\<lparr>objs := (objs s)(ref := the_device d), usb := bus d,
                notices := notices s @ (if changed_cb s then map notice_of (changes d) else [])\<rparr>))"

section \<open>Looking up\<close>

fun serial_insert :: "string \<Rightarrow> nat \<Rightarrow> (string \<times> nat) list \<Rightarrow> (string \<times> nat) list" where
  "serial_insert k r [] = [(k, r)]"
| "serial_insert k r ((k', r') # m) =
     (if string_less k k' then (k, r) # (k', r') # m
      else if k = k' then (k', r') # m
      else (k', r') # serial_insert k r m)"

definition find_description :: "string \<Rightarrow> device_description list \<Rightarrow> device_description option" where
  "find_description ser = find (\<lambda>d. prefix (serial_prefix d) ser)"

definition hasDevice :: "handle \<Rightarrow> 'w manager \<Rightarrow> bool" where
  "hasDevice dev s \<longleftrightarrow> m_device_map s dev \<noteq> None"

definition hasSerial :: "string \<Rightarrow> 'w manager \<Rightarrow> bool" where
  "hasSerial ser s \<longleftrightarrow> map_of (m_serial_map s) ser \<noteq> None"

definition getDevice :: "string \<Rightarrow> 'w manager \<Rightarrow> nat option" where
  "getDevice ser s = map_of (m_serial_map s) ser"

definition getDeviceList :: "'w manager \<Rightarrow> string list" where
  "getDeviceList s = map fst (m_serial_map s)"

section \<open>Strings of a USB device\<close>

text \<open>The buffer of 256 characters is read up to its first NUL.\<close>

definition getStringDescriptor :: "'w manager_env \<Rightarrow> handle \<Rightarrow> int \<Rightarrow> ('w, string) act" where
  "getStringDescriptor E h idx w =
     (case lu_get_string_descriptor_ascii (me_usb E) h idx 256 w of
        ((r, str), w') \<Rightarrow>
          if r < 0 then (Throws (me_error_name E r), w')
          else (Ret (takeWhile (\<lambda>c. c \<noteq> CHR 0x00) str), w'))"

text \<open>Run the second operation after the first, whether it returned or threw.\<close>

definition finally_act :: "('s, 'a) act \<Rightarrow> ('s, unit) act \<Rightarrow> ('s, 'a) act" where
  "finally_act m cleanup s =
     (case m s of
        (Ret x, s') \<Rightarrow> then_act cleanup (return_act x) s'
      | (Throws e, s') \<Rightarrow> then_act cleanup (throw_act e) s'
      | res \<Rightarrow> res)"

definition getUsbDeviceStrings :: "'w manager_env \<Rightarrow> handle \<Rightarrow> ('w, string \<times> string \<times> string) act" where
  "getUsbDeviceStrings E dev w =
     (let L = me_usb E in
      case lu_get_device_descriptor L dev w of
        ((r, desc), w1) \<Rightarrow>
          if r < 0 then (Throws (me_error_name E r), w1)
          else
            (case lu_open L dev w1 of
               ((r2, h), w2) \<Rightarrow>
                 if r2 < 0 then (Throws (me_error_name E r2), w2)
                 else
                   finally_act
                     (bind_act (getStringDescriptor E h (iManufacturer desc)) (\<lambda>mnf.
                        bind_act (getStringDescriptor E h (iProduct desc)) (\<lambda>prd.
                          bind_act (getStringDescriptor E h (iSerialNumber desc)) (\<lambda>ser.
                            return_act (mnf, prd, ser)))))
                     (modify_act (lu_close L h)) w2))"

section \<open>Devices as objects\<close>

definition open_device :: "'w manager_env \<Rightarrow> ('w dev_state, unit) act" where
  "open_device E s =
     (case me_heaps E (bus s) of (ma, mb, _) \<Rightarrow> device_open (me_usb E) ma mb s)"

text \<open>\<open>make_shared<Device>\<close>: an object whose constructor throws is not allocated.\<close>

definition new_device :: "'w manager_env \<Rightarrow> handle \<Rightarrow> string \<Rightarrow> ('w manager, nat) act" where
  "new_device E dev ser s =
     (case open_device E \<lparr>the_device = device_blank dev ser, bus = usb s, changes = []\<rparr> of
        (r, d) \<Rightarrow>
          (let s' = s\<lparr>usb := bus d\<rparr> in
           case r of
             Ret _ \<Rightarrow> (Ret (next_ref s), s'\<lparr>objs := (objs s)(next_ref s := the_device d), next_ref := next_ref s + 1\<rparr>)
           | Throws e \<Rightarrow> (Throws e, s')
           | Crashes \<Rightarrow> (Crashes, s')
           | Hangs \<Rightarrow> (Hangs, s')))"

text \<open>The destructor, when the last pointer is gone.\<close>

definition close_device :: "'w manager_env \<Rightarrow> nat \<Rightarrow> ('w manager, unit) act" where
  "close_device E ref = on_device ref (modify_act (device_close (me_usb E)))"

section \<open>Reprogramming\<close>

definition programmer_bus :: "'w programmer \<Rightarrow> 'w" where
  "programmer_bus p = snd (ftdi_handle (drv (io (m_jtag p))))"

definition run_programmer :: "'w manager_env \<Rightarrow> handle \<Rightarrow> string \<Rightarrow> ('w, unit) act" where
  "run_programmer E dev fname w =
     (case (me_stale E w, snd (snd (me_heaps E w))) of
        ((tbuf, fam, ir, idx), (m1, m2, m3)) \<Rightarrow>
          (case bind_act (DeviceProgrammer_new (me_io E) (ftdi_new (me_usb E) m1 m2 m3 w) dev tbuf ir idx)
                  (\<lambda>_. finally_act (program (me_io E) (me_uninit E) (me_files E) fname)
                          (bind_act (DeviceProgrammer_delete (me_io E) tbuf) (\<lambda>_. return_act ())))
                  (programmer_blank w fam) of
             (r, p) \<Rightarrow> (r, programmer_bus p)))"

text \<open>The device is closed for the programmer and opened again, also when programming throws.\<close>

definition reprogramDevice :: "'w manager_env \<Rightarrow> nat \<Rightarrow> ('w manager, bool) act" where
  "reprogramDevice E ref s =
     (let d = objs s ref in
      case find_description (dev_name d) (m_device_descriptions s) of
        None \<Rightarrow> (Ret False, s)
      | Some desc \<Rightarrow>
          if fname_bitfile desc = [] then (Ret False, s)
          else
            then_act (close_device E ref)
              (then_act
                (on_throw (on_device ref (open_device E)) (on_usb (run_programmer E (libusbDevice d) (fname_bitfile desc))))
                (then_act (on_device ref (open_device E)) (return_act True))) s)"

text \<open>\<open>reprogramDevice(const std::string&)\<close>: the unknown serial number gives a null pointer.\<close>

definition reprogramSerial :: "'w manager_env \<Rightarrow> string \<Rightarrow> ('w manager, bool) act" where
  "reprogramSerial E ser s =
     (case getDevice ser s of None \<Rightarrow> (Ret False, s) | Some ref \<Rightarrow> reprogramDevice E ref s)"

section \<open>Arrival and removal\<close>

definition notify :: "bool \<Rightarrow> notice \<Rightarrow> 'w manager \<Rightarrow> 'w manager" where
  "notify cb n s = (if cb then s\<lparr>notices := notices s @ [n]\<rparr> else s)"

definition register_device :: "handle \<Rightarrow> nat \<Rightarrow> 'w manager \<Rightarrow> 'w manager" where
  "register_device dev ref s =
     s\<lparr>m_device_map := (m_device_map s)(dev := (case m_device_map s dev of None \<Rightarrow> Some ref | r \<Rightarrow> r)),
       m_serial_map := serial_insert (dev_name (objs s ref)) ref (m_serial_map s)\<rparr>"

definition watch_device :: "device_description \<Rightarrow> nat \<Rightarrow> 'w manager \<Rightarrow> 'w manager" where
  "watch_device desc ref s =
     s\<lparr>objs := (objs s)(ref :=
         setRegChangedCallback True (fold (\<lambda>(a, p). trackReg a p True) (watchlist desc) (objs s ref)))\<rparr>"

text \<open>The \<open>try\<close> block; the object is destroyed when something throws before it is in the maps.\<close>

definition add_device :: "'w manager_env \<Rightarrow> handle \<Rightarrow> ('w manager, unit) act" where
  "add_device E dev =
     bind_act (on_usb (getUsbDeviceStrings E dev)) (\<lambda>(mnf, prd, ser) s.
       if hasSerial ser s then (Ret (), s)
       else
         (case find_description ser (m_device_descriptions s) of
            None \<Rightarrow> (Ret (), s)
          | Some desc \<Rightarrow>
              bind_act (new_device E dev ser) (\<lambda>ref.
                bind_act (on_throw (close_device E ref) (reprogramDevice E ref)) (\<lambda>_.
                  modify_act (\<lambda>s.
                    let s1 = register_device dev ref s in
                    watch_device desc ref (notify (added_cb s1) (Added (dev_name (objs s1 ref))) s1)))) s))"

definition usbDeviceAdded :: "'w manager_env \<Rightarrow> handle \<Rightarrow> ('w manager, unit) act" where
  "usbDeviceAdded E dev s = (if hasDevice dev s then (Ret (), s) else catching (add_device E dev) () s)"

text \<open>
  \<open>_removeDevice\<close>. The test is for the callback of arrivals; calling an empty \<open>std::function\<close>
  throws, which is caught. The last pointers to the object go with the maps' entries.
\<close>

definition removeDevice :: "'w manager_env \<Rightarrow> string \<Rightarrow> ('w manager, unit) act" where
  "removeDevice E ser s =
     (case map_of (m_serial_map s) ser of
        None \<Rightarrow> (Ret (), s)
      | Some ref \<Rightarrow>
          (let s1 = notify (added_cb s \<and> removed_cb s) (Removed ser) s;
               dev = libusbDevice (objs s1 ref) in
           close_device E ref
             (s1\<lparr>m_serial_map := filter (\<lambda>(k, _). k \<noteq> ser) (m_serial_map s1),
                 m_device_map := (m_device_map s1)(dev := None)\<rparr>)))"

definition usbDeviceRemoved :: "'w manager_env \<Rightarrow> handle \<Rightarrow> ('w manager, unit) act" where
  "usbDeviceRemoved E dev s =
     (case m_device_map s dev of None \<Rightarrow> (Ret (), s) | Some ref \<Rightarrow> removeDevice E (dev_name (objs s ref)) s)"

section \<open>Periodic updates\<close>

text \<open>A device that cannot be polled is removed. The loop steps on before it looks at a device.\<close>

definition poll_device :: "'w manager_env \<Rightarrow> nat \<Rightarrow> ('w manager, unit) act" where
  "poll_device E ref s =
     (case on_device ref (updateTrackedRegs (me_usb E)) s of
        (Throws e, s') \<Rightarrow> removeDevice E (dev_name (objs s' ref)) s'
      | res \<Rightarrow> res)"

definition periodicRegisterUpdates :: "'w manager_env \<Rightarrow> ('w manager, unit) act" where
  "periodicRegisterUpdates E s = run_acts (map (\<lambda>(_, ref). poll_device E ref) (m_serial_map s)) s"

section \<open>The manager\<close>

definition new_manager :: "device_description list \<Rightarrow> (nat \<Rightarrow> device) \<Rightarrow> 'w \<Rightarrow> 'w manager" where
  "new_manager descs mem w =
     \<lparr>m_device_descriptions = descs, objs = mem, next_ref = 0, m_device_map = (\<lambda>_. None), m_serial_map = [],
      added_cb = False, removed_cb = False, changed_cb = False, notices = [], usb = w\<rparr>"

definition setAddedCallback :: "bool \<Rightarrow> 'w manager \<Rightarrow> 'w manager" where
  "setAddedCallback cb s = s\<lparr>added_cb := cb\<rparr>"

definition setRemovedCallback :: "bool \<Rightarrow> 'w manager \<Rightarrow> 'w manager" where
  "setRemovedCallback cb s = s\<lparr>removed_cb := cb\<rparr>"

definition setChangedCallback :: "bool \<Rightarrow> 'w manager \<Rightarrow> 'w manager" where
  "setChangedCallback cb s = s\<lparr>changed_cb := cb\<rparr>"

end
