(* ===== verification/Rpc.thy ===== *)
theory Rpc
  imports Manager
begin

text \<open>
  The remote calls of the clients (\<open>src/DeviceRequestHandler.h\<close>, \<open>DeviceRequestHandler.cpp\<close>): one
  handler per command, which takes the arguments of the request apart, calls a device or the
  manager, and packs the reply.
\<close>

section \<open>Messages\<close>

text \<open>
  What the handlers use of msgpack, which is not part of the repository: the conversions of an
  object, which fail when the type or the range is wrong (\<open>as_uint n\<close>: to an unsigned integer of
  \<open>n\<close> bits), and the texts of the exceptions. \<open>vector_fits n\<close>: a buffer of \<open>n\<close> bytes can be allocated.
\<close>

record 'o msgpack =
  as_array :: "'o \<Rightarrow> 'o list option"
  as_string :: "'o \<Rightarrow> string option"
  as_uint :: "nat \<Rightarrow> 'o \<Rightarrow> nat option"
  as_bin :: "'o \<Rightarrow> byte list option"
  cast_text :: string
  range_text :: "nat \<Rightarrow> nat \<Rightarrow> string"
  vector_fits :: "nat \<Rightarrow> bool"
  alloc_text :: string

text \<open>The calls of the packer that make up a reply.\<close>

datatype packed =
    Pack_array nat
  | Pack_int8 int
  | Pack_int int
  | Pack_bool bool
  | Pack_str string
  | Pack_strs "string list"
  | Pack_bin "byte list"

abbreviation (input) RPC_RCODE_ERROR :: int where "RPC_RCODE_ERROR \<equiv> -1"
abbreviation (input) RPC_RCODE_OK :: int where "RPC_RCODE_OK \<equiv> 0"
abbreviation (input) RPC_RCODE_ADDED :: int where "RPC_RCODE_ADDED \<equiv> 1"
abbreviation (input) RPC_RCODE_REMOVED :: int where "RPC_RCODE_REMOVED \<equiv> 2"
abbreviation (input) RPC_RCODE_REG_CHANGED :: int where "RPC_RCODE_REG_CHANGED \<equiv> 3"

record 'w rpc_state =
  m_manager :: "'w manager"
  reply :: "packed list"

definition on_manager :: "('w manager, 'a) act \<Rightarrow> ('w rpc_state, 'a) act" where
  "on_manager = on_part m_manager (\<lambda>m s. s\<lparr>m_manager := m\<rparr>)"

definition pack :: "packed list \<Rightarrow> ('w rpc_state, unit) act" where
  "pack ps = modify_act (\<lambda>s. s\<lparr>reply := reply s @ ps\<rparr>)"

definition RPC_REPLY_VALUE :: "packed \<Rightarrow> ('w rpc_state, unit) act" where
  "RPC_REPLY_VALUE v = pack [Pack_array 2, Pack_int8 RPC_RCODE_OK, v]"

definition RPC_REPLY_BINARY :: "byte list \<Rightarrow> ('w rpc_state, unit) act" where
  "RPC_REPLY_BINARY b = pack [Pack_array 2, Pack_int8 RPC_RCODE_OK, Pack_bin b]"

definition RPC_REPLY_ERROR :: "string \<Rightarrow> ('w rpc_state, unit) act" where
  "RPC_REPLY_ERROR e = pack [Pack_array 2, Pack_int8 RPC_RCODE_ERROR, Pack_str e]"

section \<open>Arguments\<close>

definition arg_at :: "'o msgpack \<Rightarrow> 'o list \<Rightarrow> nat \<Rightarrow> ('s, 'o) act" where
  "arg_at P args i = (if i < length args then return_act (args ! i) else throw_act (range_text P i (length args)))"

definition converted :: "'o msgpack \<Rightarrow> 'a option \<Rightarrow> ('s, 'a) act" where
  "converted P r = (case r of None \<Rightarrow> throw_act (cast_text P) | Some x \<Rightarrow> return_act x)"

definition arg_string :: "'o msgpack \<Rightarrow> 'o list \<Rightarrow> nat \<Rightarrow> ('s, string) act" where
  "arg_string P args i = bind_act (arg_at P args i) (\<lambda>x. converted P (as_string P x))"

definition arg_uint :: "'o msgpack \<Rightarrow> nat \<Rightarrow> 'o list \<Rightarrow> nat \<Rightarrow> ('s, nat) act" where
  "arg_uint P n args i = bind_act (arg_at P args i) (\<lambda>x. converted P (as_uint P n x))"

definition arg_byte :: "'o msgpack \<Rightarrow> 'o list \<Rightarrow> nat \<Rightarrow> ('s, byte) act" where
  "arg_byte P args i = bind_act (arg_uint P 8 args i) (\<lambda>n. return_act (of_nat n))"

section \<open>Commands\<close>

text \<open>The part the commands on a device share: its serial number is argument 1.\<close>

definition with_device :: "'o msgpack \<Rightarrow> 'o list \<Rightarrow> (nat \<Rightarrow> ('w rpc_state, unit) act) \<Rightarrow> ('w rpc_state, unit) act" where
  "with_device P args k =
     bind_act (arg_string P args 1) (\<lambda>ser s.
       case getDevice ser (m_manager s) of
         None \<Rightarrow> RPC_REPLY_ERROR ''Unknown device'' s
       | Some ref \<Rightarrow> k ref s)"

definition device_call :: "nat \<Rightarrow> ('w dev_state, 'a) act \<Rightarrow> ('w rpc_state, 'a) act" where
  "device_call ref m = on_manager (on_device ref m)"

definition rpc_devicelist :: "('w rpc_state, unit) act" where
  "rpc_devicelist s = RPC_REPLY_VALUE (Pack_strs (getDeviceList (m_manager s))) s"

text \<open>The macro packs the head of the reply before it evaluates the value.\<close>

definition rpc_reprogram :: "'o msgpack \<Rightarrow> 'w manager_env \<Rightarrow> 'o list \<Rightarrow> ('w rpc_state, unit) act" where
  "rpc_reprogram P E args =
     with_device P args (\<lambda>ref.
       then_act (pack [Pack_array 2, Pack_int8 RPC_RCODE_OK])
         (bind_act (on_manager (reprogramDevice E ref)) (\<lambda>b. pack [Pack_bool b])))"

definition rpc_writereg :: "'o msgpack \<Rightarrow> 'w manager_env \<Rightarrow> 'o list \<Rightarrow> ('w rpc_state, unit) act" where
  "rpc_writereg P E args =
     with_device P args (\<lambda>ref.
       bind_act (arg_byte P args 2) (\<lambda>addr.
         bind_act (arg_byte P args 3) (\<lambda>port.
           bind_act (arg_uint P 16 args 4) (\<lambda>v.
             then_act (device_call ref (writeReg (me_usb E) addr port (of_nat v)))
               (RPC_REPLY_VALUE (Pack_int 0))))))"

definition rpc_readreg :: "'o msgpack \<Rightarrow> 'w manager_env \<Rightarrow> 'o list \<Rightarrow> ('w rpc_state, unit) act" where
  "rpc_readreg P E args =
     with_device P args (\<lambda>ref.
       bind_act (arg_byte P args 2) (\<lambda>addr.
         bind_act (arg_byte P args 3) (\<lambda>port.
           bind_act (device_call ref (readReg (me_usb E) addr port)) (\<lambda>v.
             RPC_REPLY_VALUE (Pack_int (uint v))))))"

text \<open>The words are those of the binary argument; an odd byte at its end is left out.\<close>

definition rpc_writeregn :: "'o msgpack \<Rightarrow> 'w manager_env \<Rightarrow> 'o list \<Rightarrow> ('w rpc_state, unit) act" where
  "rpc_writeregn P E args =
     with_device P args (\<lambda>ref.
       bind_act (arg_byte P args 2) (\<lambda>addr.
         bind_act (arg_byte P args 3) (\<lambda>port.
           bind_act (arg_at P args 4) (\<lambda>x.
             case as_bin P x of
               None \<Rightarrow> RPC_REPLY_ERROR ''Invalid argument''
             | Some d \<Rightarrow>
                 then_act (device_call ref (writeRegN (me_usb E) addr port d (length d div 2)))
                   (RPC_REPLY_VALUE (Pack_int 0))))))"

definition new_vector :: "'o msgpack \<Rightarrow> nat \<Rightarrow> ('s, unit) act" where
  "new_vector P n = (if vector_fits P n then return_act () else throw_act (alloc_text P))"

definition rpc_readregn :: "'o msgpack \<Rightarrow> 'w manager_env \<Rightarrow> 'o list \<Rightarrow> ('w rpc_state, unit) act" where
  "rpc_readregn P E args =
     with_device P args (\<lambda>ref.
       bind_act (arg_byte P args 2) (\<lambda>addr.
         bind_act (arg_byte P args 3) (\<lambda>port.
           bind_act (arg_uint P 32 args 4) (\<lambda>n.
             then_act (new_vector P (2 * n))
               (bind_act (device_call ref (readRegN (me_usb E) addr port n)) RPC_REPLY_BINARY)))))"

definition rpc_writeraw :: "'o msgpack \<Rightarrow> 'w manager_env \<Rightarrow> 'o list \<Rightarrow> ('w rpc_state, unit) act" where
  "rpc_writeraw P E args =
     with_device P args (\<lambda>ref.
       bind_act (arg_at P args 2) (\<lambda>x.
         case as_bin P x of
           None \<Rightarrow> RPC_REPLY_ERROR ''Invalid argument''
         | Some d \<Rightarrow>
             then_act (device_call ref (writeRaw (me_usb E) d)) (RPC_REPLY_VALUE (Pack_int 0))))"

definition rpc_readraw :: "'o msgpack \<Rightarrow> 'w manager_env \<Rightarrow> 'o list \<Rightarrow> ('w rpc_state, unit) act" where
  "rpc_readraw P E args =
     with_device P args (\<lambda>ref.
       bind_act (arg_uint P 32 args 2) (\<lambda>n.
         then_act (new_vector P n)
           (bind_act (device_call ref (readRaw (me_usb E) n)) RPC_REPLY_BINARY)))"

definition m_functions ::
  "'o msgpack \<Rightarrow> 'w manager_env \<Rightarrow> (string \<times> ('o list \<Rightarrow> ('w rpc_state, unit) act)) list" where
  "m_functions P E =
     [(''devicelist'', \<lambda>_. rpc_devicelist), (''reprogram'', rpc_reprogram P E),
      (''writereg'', rpc_writereg P E), (''readreg'', rpc_readreg P E),
      (''writeregn'', rpc_writeregn P E), (''readregn'', rpc_readregn P E),
      (''writeraw'', rpc_writeraw P E), (''readraw'', rpc_readraw P E)]"

section \<open>A request\<close>

definition handleRequest :: "'o msgpack \<Rightarrow> 'w manager_env \<Rightarrow> 'o \<Rightarrow> ('w rpc_state, unit) act" where
  "handleRequest P E request s =
     (case as_array P request of
        None \<Rightarrow> RPC_REPLY_ERROR ''Invalid message'' s
      | Some args \<Rightarrow>
          (case arg_string P args 0 s of
             (Ret cmd, _) \<Rightarrow>
               (case map_of (m_functions P E) cmd of
                  None \<Rightarrow> RPC_REPLY_ERROR ''Invalid command'' s
                | Some f \<Rightarrow>
                    (case f args s of
                       (Throws e, s') \<Rightarrow> RPC_REPLY_ERROR e s'
                     | res \<Rightarrow> res))
           | _ \<Rightarrow> RPC_REPLY_ERROR ''Invalid message'' s))"

text \<open>The events the server sends to every client (\<open>src/fpga-device-server.cpp\<close>).\<close>

fun event_message :: "notice \<Rightarrow> packed list" where
  "event_message (Added ser) = [Pack_array 2, Pack_int8 RPC_RCODE_ADDED, Pack_str ser]"
| "event_message (Removed ser) = [Pack_array 2, Pack_int8 RPC_RCODE_REMOVED, Pack_str ser]"
| "event_message (RegChanged ser addr port v) =
     [Pack_array 5, Pack_int8 RPC_RCODE_REG_CHANGED, Pack_str ser, Pack_int (uint addr), Pack_int (uint port), Pack_int (uint v)]"

end
