(* ===== verification/Manager_Props.thy ===== *)
theory Manager_Props
  imports Manager Device_Props
begin

text \<open>
  The maps of the device manager stay consistent, and a client that follows the notifications
  always knows the devices of the manager.
\<close>

section \<open>What operations of a device leave alone\<close>

definition same_ids :: "device \<Rightarrow> device \<Rightarrow> bool" where
  "same_ids d d' \<longleftrightarrow> dev_name d' = dev_name d \<and> libusbDevice d' = libusbDevice d \<and>
     map fst (m_tracked_regs d') = map fst (m_tracked_regs d)"

lemma same_ids_refl [simp]: "same_ids d d"
  by (simp add: same_ids_def)

lemma same_ids_trans: "same_ids d d1 \<Longrightarrow> same_ids d1 d2 \<Longrightarrow> same_ids d d2"
  by (simp add: same_ids_def)

text \<open>\<open>named m\<close>: the calls of the callback carry the name of the device; \<open>quiet m\<close>: there are none.\<close>

definition named :: "('w dev_state, 'a) act \<Rightarrow> bool" where
  "named m \<longleftrightarrow> (\<forall>s r s'. m s = (r, s') \<longrightarrow> same_ids (the_device s) (the_device s') \<and>
     (\<exists>new. changes s' = changes s @ new \<and> (\<forall>c\<in>set new. fst c = dev_name (the_device s))))"

definition quiet :: "('w dev_state, 'a) act \<Rightarrow> bool" where
  "quiet m \<longleftrightarrow> (\<forall>s r s'. m s = (r, s') \<longrightarrow> same_ids (the_device s) (the_device s') \<and> changes s' = changes s)"

lemma quiet_named: "quiet m \<Longrightarrow> named m"
  unfolding quiet_def named_def by force

lemma quietD: "quiet m \<Longrightarrow> m s = (r, s') \<Longrightarrow> same_ids (the_device s) (the_device s') \<and> changes s' = changes s"
  unfolding quiet_def by blast

lemma namedD:
  assumes "named m" and "m s = (r, s')"
  obtains new where "same_ids (the_device s) (the_device s')" "changes s' = changes s @ new"
    "\<forall>c\<in>set new. fst c = dev_name (the_device s)"
  using assms unfolding named_def by blast

lemma named_bind:
  assumes m: "named m" and f: "\<And>x. named (f x)"
  shows "named (bind_act m f)"
  unfolding named_def
proof (intro allI impI)
  fix s r s''
  assume run: "bind_act m f s = (r, s'')"
  obtain r1 s1 where 1: "m s = (r1, s1)" by (metis prod.exhaust)
  obtain n1 where s1: "same_ids (the_device s) (the_device s1)" "changes s1 = changes s @ n1"
      "\<forall>c\<in>set n1. fst c = dev_name (the_device s)"
    by (rule namedD [OF m 1])
  show "same_ids (the_device s) (the_device s'') \<and>
      (\<exists>new. changes s'' = changes s @ new \<and> (\<forall>c\<in>set new. fst c = dev_name (the_device s)))"
  proof (cases r1)
    case (Ret x)
    then have 2: "f x s1 = (r, s'')" using run 1 by (simp add: bind_act_Ret)
    obtain n2 where "same_ids (the_device s1) (the_device s'')" "changes s'' = changes s1 @ n2"
        "\<forall>c\<in>set n2. fst c = dev_name (the_device s1)"
      by (rule namedD [OF f 2])
    then show ?thesis
      using s1 same_ids_trans by (auto simp: same_ids_def intro!: exI [of _ "n1 @ n2"])
  qed (use run 1 s1 in \<open>auto simp: bind_act_def\<close>)
qed

lemma named_at: "(\<And>s. named (f s)) \<Longrightarrow> named (\<lambda>s. f s s)"
  unfolding named_def by blast

lemma named_then: "named m \<Longrightarrow> named k \<Longrightarrow> named (then_act m k)"
  unfolding then_act_def by (rule named_bind)

lemma quiet_return [simp]: "quiet (return_act x)"
  by (simp add: quiet_def return_act_def)

lemma quiet_ftdi [simp]: "quiet (on_ftdi_of m)"
  by (auto simp: quiet_def on_ftdi_of_def on_part_def put_ftdi_def same_ids_def split: prod.splits)

lemma named_ftdi [simp]: "named (on_ftdi_of m)"
  by (rule quiet_named) simp

lemma named_store_reg: "named (modify_act (store_reg k v))"
  by (auto simp: named_def modify_act_def store_reg_def same_ids_def Let_def split: option.splits)

lemma store_regs_named: "named (modify_act (store_regs ks b))"
proof (induction ks arbitrary: b)
  case Nil
  then show ?case by (simp add: named_def modify_act_def)
next
  case (Cons k ks)
  have eq: "modify_act (store_regs (k # ks) b) =
      then_act (modify_act (store_reg k (from_be16 (b ! 0) (b ! 1)))) (modify_act (store_regs ks (drop 2 b)))"
    by (rule ext) (simp add: modify_act_def then_act_def bind_act_def)
  show ?case unfolding eq by (intro named_then named_store_reg Cons.IH)
qed

lemma named_ops:
  "named (writeReg L a p v)" "named (readReg L a p)" "named (writeRegN L a p d n)" "named (readRegN L a p n)"
  "named (writeRaw L d)" "named (readRaw L n)" "named (updateTrackedRegs L)"
proof -
  show "named (readReg L a p)"
    unfolding readReg_def Let_def
    by (intro named_then named_bind named_ftdi named_store_reg quiet_named [OF quiet_return])
  let ?poll = "\<lambda>ks. if ks = [] then return_act ()
    else then_act (on_ftdi_of (write_all L (concat (map (\<lambda>(a, p). be16 (reg_cmd CMD_READREG a p)) ks))))
      (bind_act (on_ftdi_of (ftdi_read_data_wait L (int (2 * length ks)))) (\<lambda>b. modify_act (store_regs ks b)))"
  have "named (?poll ks)" for ks
    by (cases "ks = []") (auto intro!: named_then named_bind named_ftdi store_regs_named quiet_named [OF quiet_return])
  then have "named (\<lambda>s. ?poll (map fst (m_tracked_regs (the_device s))) s)" by (rule named_at)
  moreover have "updateTrackedRegs L = (\<lambda>s. ?poll (map fst (m_tracked_regs (the_device s))) s)"
    by (rule ext) (simp add: updateTrackedRegs_def Let_def return_act_def)
  ultimately show "named (updateTrackedRegs L)" by simp
  show "named (readRaw L n)" by (auto simp: readRaw_def intro!: quiet_named)
qed (simp_all add: writeReg_def writeRegN_def readRegN_def writeRaw_def quiet_named)

lemma quiet_open: "quiet (device_open L ma mb)"
  by (auto simp: quiet_def device_open_def put_ftdi_def same_ids_def split: prod.splits outcome.splits if_splits)

lemma quiet_open_device: "quiet (open_device E)"
  unfolding quiet_def [of "open_device E"] open_device_def by (auto split: prod.splits dest: quietD [OF quiet_open])

lemma quiet_close: "quiet (modify_act (device_close L))"
  by (auto simp: quiet_def modify_act_def device_close_def put_ftdi_def same_ids_def split: prod.splits)

section \<open>Steps that keep the maps\<close>

text \<open>The maps, callbacks and notices are as before, and so is what the maps say of the objects.\<close>

definition same_view :: "'w manager \<Rightarrow> 'w manager \<Rightarrow> bool" where
  "same_view s s' \<longleftrightarrow> m_device_map s' = m_device_map s \<and> m_serial_map s' = m_serial_map s \<and>
     m_device_descriptions s' = m_device_descriptions s \<and> next_ref s' = next_ref s \<and>
     added_cb s' = added_cb s \<and> removed_cb s' = removed_cb s \<and> changed_cb s' = changed_cb s \<and>
     notices s' = notices s \<and> (\<forall>r. same_ids (objs s r) (objs s' r))"

lemma same_view_refl [simp]: "same_view s s"
  by (simp add: same_view_def)

lemma same_view_trans: "same_view s s1 \<Longrightarrow> same_view s1 s2 \<Longrightarrow> same_view s s2"
  unfolding same_view_def using same_ids_trans by metis

definition unseen :: "('w manager, 'a) act \<Rightarrow> bool" where
  "unseen m \<longleftrightarrow> (\<forall>s r s'. m s = (r, s') \<longrightarrow> same_view s s')"

lemma unseenD: "unseen m \<Longrightarrow> m s = (r, s') \<Longrightarrow> same_view s s'"
  unfolding unseen_def by blast

lemma unseen_bind: "unseen m \<Longrightarrow> (\<And>x. unseen (f x)) \<Longrightarrow> unseen (bind_act m f)"
  unfolding unseen_def bind_act_def
  by (auto split: prod.splits outcome.splits) (metis same_view_trans)

lemma unseen_then: "unseen m \<Longrightarrow> unseen k \<Longrightarrow> unseen (then_act m k)"
  unfolding then_act_def by (rule unseen_bind)

lemma unseen_return [simp]: "unseen (return_act x)" "unseen (throw_act e)"
  by (simp_all add: unseen_def return_act_def throw_act_def)

lemma unseen_usb [simp]: "unseen (on_usb m)"
  by (auto simp: unseen_def on_usb_def on_part_def same_view_def split: prod.splits)

lemma unseen_device: "quiet m \<Longrightarrow> unseen (on_device ref m)"
  by (auto simp: unseen_def on_device_def same_view_def quiet_def split: prod.splits) (metis dev_state.select_convs(1,3))+

lemma unseen_on_throw:
  assumes c: "unseen c" and m: "unseen m"
  shows "unseen (on_throw c m)"
  unfolding unseen_def
proof (intro allI impI)
  fix s r s'
  assume run: "on_throw c m s = (r, s')"
  obtain r1 s1 where 1: "m s = (r1, s1)" by (metis prod.exhaust)
  note v = unseenD [OF m 1]
  show "same_view s s'"
  proof (cases r1)
    case (Throws e)
    have "unseen (bind_act c (\<lambda>_. throw_act e))" by (intro unseen_bind c unseen_return)
    then show ?thesis using unseenD run v same_view_trans by (fastforce simp: on_throw_def 1 Throws)
  qed (use run v in \<open>auto simp: on_throw_def 1\<close>)
qed

lemma unseen_close [simp]: "unseen (close_device E ref)"
  by (simp add: close_device_def unseen_device quiet_close)

lemma unseen_reprogram: "unseen (reprogramDevice E ref)"
proof -
  have 1: "unseen (then_act (close_device E ref)
      (then_act (on_throw (on_device ref (open_device E)) (on_usb (run_programmer E dev fname)))
         (then_act (on_device ref (open_device E)) (return_act True))))" for dev fname
    by (intro unseen_then unseen_on_throw unseen_device quiet_open_device unseen_close unseen_usb unseen_return)
  show ?thesis
    unfolding unseen_def reprogramDevice_def
    using unseenD [OF 1] by (auto simp: Let_def split: option.splits if_splits)
qed

section \<open>The invariant\<close>

text \<open>
  The maps are inverse to each other by the names and USB devices of the objects, which are all
  allocated; the serial numbers are in order, each once.
\<close>

definition consistent :: "'w manager \<Rightarrow> bool" where
  "consistent s \<longleftrightarrow>
     (\<forall>(k, r)\<in>set (m_serial_map s). dev_name (objs s r) = k \<and> m_device_map s (libusbDevice (objs s r)) = Some r \<and> r < next_ref s) \<and>
     (\<forall>d r. m_device_map s d = Some r \<longrightarrow> libusbDevice (objs s r) = d \<and> (dev_name (objs s r), r) \<in> set (m_serial_map s)) \<and>
     sorted_wrt string_less (map fst (m_serial_map s)) \<and>
     (\<forall>r. sorted_keys (m_tracked_regs (objs s r)) \<or> next_ref s \<le> r)"

text \<open>
  A client that follows the notifications: a device may be added only if it is not there, removed
  and reported to have changed only if it is.
\<close>

fun replay :: "notice list \<Rightarrow> string set \<Rightarrow> string set option" where
  "replay [] v = Some v"
| "replay (Added k # ns) v = (if k \<in> v then None else replay ns (insert k v))"
| "replay (Removed k # ns) v = (if k \<in> v then replay ns (v - {k}) else None)"
| "replay (RegChanged k a p x # ns) v = (if k \<in> v then replay ns v else None)"

lemma replay_append: "replay (ns @ ns') v = Option.bind (replay ns v) (replay ns')"
  by (induction ns v rule: replay.induct) auto

definition serials :: "'w manager \<Rightarrow> string set" where
  "serials s = set (map fst (m_serial_map s))"

definition inv :: "'w manager \<Rightarrow> bool" where
  "inv s \<longleftrightarrow> consistent s \<and> added_cb s \<and> removed_cb s \<and> changed_cb s \<and> replay (notices s) {} = Some (serials s)"

definition registered :: "nat \<Rightarrow> 'w manager \<Rightarrow> bool" where
  "registered ref s \<longleftrightarrow> (dev_name (objs s ref), ref) \<in> set (m_serial_map s)"

lemma same_ids_sorted: "same_ids d d' \<Longrightarrow> sorted_keys (m_tracked_regs d') = sorted_keys (m_tracked_regs d)"
  by (simp add: same_ids_def sorted_keys_def)

lemma same_view_consistent:
  assumes "same_view s s'"
  shows "consistent s' = consistent s"
proof -
  have ids: "dev_name (objs s' r) = dev_name (objs s r)" "libusbDevice (objs s' r) = libusbDevice (objs s r)"
      "sorted_keys (m_tracked_regs (objs s' r)) = sorted_keys (m_tracked_regs (objs s r))" for r
    using assms same_ids_sorted [of "objs s r" "objs s' r"] by (auto simp: same_view_def same_ids_def)
  have "m_device_map s' = m_device_map s" "m_serial_map s' = m_serial_map s" "next_ref s' = next_ref s"
    using assms by (auto simp: same_view_def)
  then show ?thesis by (simp only: consistent_def ids)
qed

lemma same_view_inv: "same_view s s' \<Longrightarrow> inv s' = inv s"
  using same_view_consistent by (auto simp: inv_def same_view_def serials_def)

lemma same_view_registered: "same_view s s' \<Longrightarrow> registered ref s' = registered ref s"
  by (auto simp: registered_def same_view_def same_ids_def)

text \<open>An operation of a registered device: the notices it causes name a device that is there.\<close>

lemma replay_changes: "k \<in> v \<Longrightarrow> \<forall>c\<in>set cs. fst c = k \<Longrightarrow> replay (map notice_of cs) v = Some v"
  by (induction cs) (auto simp: notice_of_def split: prod.splits)

lemma on_device_inv:
  assumes inv: "inv s" and reg: "registered ref s" and m: "named m" and run: "on_device ref m s = (r, s')"
  shows "inv s' \<and> registered ref s' \<and> m_serial_map s' = m_serial_map s \<and> (\<forall>k. same_ids (objs s k) (objs s' k))"
proof -
  let ?d = "\<lparr>the_device = objs s ref, bus = usb s, changes = []\<rparr>"
  obtain d where d: "m ?d = (r, d)" and s': "s' = s\<lparr>objs := (objs s)(ref := the_device d), usb := bus d,
      notices := notices s @ map notice_of (changes d)\<rparr>"
    using run inv by (auto simp: on_device_def inv_def split: prod.splits)
  obtain new where ids: "same_ids (objs s ref) (the_device d)" and new: "changes d = new"
      "\<forall>c\<in>set new. fst c = dev_name (objs s ref)"
    by (rule namedD [OF m d]) auto
  have v: "same_view s (s'\<lparr>notices := notices s\<rparr>)" using ids by (simp add: s' same_view_def)
  have all: "\<forall>k. same_ids (objs s k) (objs s' k)" using ids by (simp add: s')
  have "inv (s'\<lparr>notices := notices s\<rparr>)" "registered ref (s'\<lparr>notices := notices s\<rparr>)"
    using inv reg same_view_inv [OF v] same_view_registered [OF v] by auto
  moreover have "dev_name (objs s ref) \<in> serials s" using reg by (force simp: registered_def serials_def)
  then have "replay (map notice_of (changes d)) (serials s) = Some (serials s)"
    using replay_changes new by blast
  ultimately show ?thesis
    using all by (auto simp: inv_def registered_def consistent_def serials_def replay_append s')
qed

section \<open>Operations keep the invariant\<close>

definition preserves :: "('s \<Rightarrow> bool) \<Rightarrow> ('s, 'a) act \<Rightarrow> bool" where
  "preserves P m \<longleftrightarrow> (\<forall>s r s'. P s \<longrightarrow> m s = (r, s') \<longrightarrow> P s')"

lemma preservesD: "preserves P m \<Longrightarrow> P s \<Longrightarrow> m s = (r, s') \<Longrightarrow> P s'"
  unfolding preserves_def by blast

lemma preserves_bind: "preserves P m \<Longrightarrow> (\<And>x. preserves P (f x)) \<Longrightarrow> preserves P (bind_act m f)"
  unfolding preserves_def [of P "bind_act m f"] bind_act_def
  by (auto split: prod.splits outcome.splits dest: preservesD)

lemma preserves_then: "preserves P m \<Longrightarrow> preserves P k \<Longrightarrow> preserves P (then_act m k)"
  unfolding then_act_def by (rule preserves_bind)

lemma preserves_simps [simp]: "preserves P (return_act x)" "preserves P (throw_act e)"
  by (simp_all add: preserves_def return_act_def throw_act_def)

lemma unseen_preserves: "unseen m \<Longrightarrow> preserves inv m"
  unfolding preserves_def by (metis unseenD same_view_inv)

lemma sorted_filter: "sorted_wrt R (map fst m) \<Longrightarrow> sorted_wrt R (map fst (filter P m))"
  by (induction m) auto

lemma serials_distinct: "sorted_wrt string_less (map fst m) \<Longrightarrow> distinct (map fst m)"
  by (induction m) auto

lemma serial_insert_set:
  "k \<notin> set (map fst m) \<Longrightarrow> set (serial_insert k r m) = insert (k, r) (set m)"
  by (induction k r m rule: serial_insert.induct) auto

lemma serial_insert_sorted:
  "sorted_wrt string_less (map fst m) \<Longrightarrow> k \<notin> set (map fst m) \<Longrightarrow> sorted_wrt string_less (map fst (serial_insert k r m))"
proof (induction k r m rule: serial_insert.induct)
  case (2 k r k' r' m)
  have s: "set (map fst (serial_insert k r m)) = insert k (set (map fst m))"
    using 2 serial_insert_set [of k m r] by auto
  then show ?case
    using 2 string_less_total [of k k'] string_less_trans [of k k'] by (auto simp del: set_map)
qed simp

lemma consistent_entry:
  "consistent s \<Longrightarrow> (k, r) \<in> set (m_serial_map s) \<Longrightarrow>
   dev_name (objs s r) = k \<and> m_device_map s (libusbDevice (objs s r)) = Some r \<and> r < next_ref s"
  by (auto simp: consistent_def)

lemma consistentI:
  assumes "\<And>k r. (k, r) \<in> set (m_serial_map s) \<Longrightarrow>
      dev_name (objs s r) = k \<and> m_device_map s (libusbDevice (objs s r)) = Some r \<and> r < next_ref s"
    and "\<And>d r. m_device_map s d = Some r \<Longrightarrow> libusbDevice (objs s r) = d \<and> (dev_name (objs s r), r) \<in> set (m_serial_map s)"
    and "sorted_wrt string_less (map fst (m_serial_map s))"
    and "\<And>r. r < next_ref s \<Longrightarrow> sorted_keys (m_tracked_regs (objs s r))"
  shows "consistent s"
  using assms unfolding consistent_def by (auto simp: not_le [symmetric])

lemma consistent_listed:
  "consistent s \<Longrightarrow> m_device_map s d = Some r \<Longrightarrow>
   libusbDevice (objs s r) = d \<and> (dev_name (objs s r), r) \<in> set (m_serial_map s)"
  by (simp add: consistent_def)

lemma remove_inv:
  assumes inv: "inv s" and reg: "map_of (m_serial_map s) ser = Some ref"
  shows "inv (s\<lparr>notices := notices s @ [Removed ser], m_serial_map := filter (\<lambda>(k, _). k \<noteq> ser) (m_serial_map s),
    m_device_map := (m_device_map s)(libusbDevice (objs s ref) := None)\<rparr>)"
proof -
  have c: "consistent s" using inv by (simp add: inv_def)
  have in_map: "(ser, ref) \<in> set (m_serial_map s)" using reg by (rule map_of_SomeD)
  then have ref: "dev_name (objs s ref) = ser" "m_device_map s (libusbDevice (objs s ref)) = Some ref"
    using c by (auto simp: consistent_def)
  note entry = consistent_entry [OF c] and listed = consistent_listed [OF c]
  have others: "libusbDevice (objs s r) \<noteq> libusbDevice (objs s ref)" if "(k, r) \<in> set (m_serial_map s)" "k \<noteq> ser" for k r
    using entry [OF that(1)] that(2) ref by (metis option.inject)
  have other_refs: "dev_name (objs s r) \<noteq> ser" if "m_device_map s d = Some r" "d \<noteq> libusbDevice (objs s ref)" for d r
  proof
    assume "dev_name (objs s r) = ser"
    then have "(ser, r) \<in> set (m_serial_map s)" using listed [OF that(1)] by simp
    moreover have "distinct (map fst (m_serial_map s))" using c serials_distinct by (auto simp: consistent_def)
    ultimately have "r = ref" using in_map by (metis eq_key_imp_eq_value)
    then show False using listed [OF that(1)] that(2) by simp
  qed
  have "serials s - {ser} = set (map fst (filter (\<lambda>(k, _). k \<noteq> ser) (m_serial_map s)))"
    by (force simp: serials_def)
  moreover have "ser \<in> serials s" using in_map by (force simp: serials_def)
  ultimately show ?thesis
    using inv c others other_refs
    by (auto simp: inv_def consistent_def replay_append serials_def sorted_filter)
qed

lemma removeDevice_inv:
  assumes inv: "inv s" and run: "removeDevice E ser s = (r, s')"
  shows "inv s' \<and> (\<forall>k. k \<noteq> ser \<longrightarrow> map_of (m_serial_map s') k = map_of (m_serial_map s) k)"
proof (cases "map_of (m_serial_map s) ser")
  case None
  then show ?thesis using inv run by (simp add: removeDevice_def)
next
  case (Some ref)
  let ?s1 = "s\<lparr>notices := notices s @ [Removed ser], m_serial_map := filter (\<lambda>(k, _). k \<noteq> ser) (m_serial_map s),
      m_device_map := (m_device_map s)(libusbDevice (objs s ref) := None)\<rparr>"
  have "close_device E ref ?s1 = (r, s')"
    using run inv Some by (simp add: removeDevice_def Let_def notify_def inv_def)
  then have v: "same_view ?s1 s'" by (rule unseenD [OF unseen_close])
  have "inv s'" using remove_inv [OF inv Some] by (simp only: same_view_inv [OF v])
  moreover have "m_serial_map s' = filter (\<lambda>(k, _). k \<noteq> ser) (m_serial_map s)" using v by (simp add: same_view_def)
  moreover have "map_of (filter (\<lambda>(k, _). k \<noteq> ser) m) k = map_of m k" if "k \<noteq> ser" for k and m :: "(string \<times> nat) list"
    using that by (induction m) auto
  ultimately show ?thesis by simp
qed

lemma registered_map:
  assumes "inv s"
  shows "map_of (m_serial_map s) k = Some ref \<longleftrightarrow> registered ref s \<and> dev_name (objs s ref) = k"
proof -
  have c: "consistent s" using assms by (simp add: inv_def)
  then have "distinct (map fst (m_serial_map s))" using serials_distinct by (auto simp: consistent_def)
  then have "map_of (m_serial_map s) k = Some ref \<longleftrightarrow> (k, ref) \<in> set (m_serial_map s)" by simp
  then show ?thesis using c by (auto simp: registered_def consistent_def)
qed

lemma poll_device_inv:
  assumes inv: "inv s" and reg: "map_of (m_serial_map s) ser = Some ref" and run: "poll_device E ref s = (r, s')"
  shows "inv s' \<and> (\<forall>k. k \<noteq> ser \<longrightarrow> map_of (m_serial_map s') k = map_of (m_serial_map s) k)"
proof -
  have reg': "registered ref s" and nam: "dev_name (objs s ref) = ser" using registered_map [OF inv] reg by auto
  obtain r1 s1 where 1: "on_device ref (updateTrackedRegs (me_usb E)) s = (r1, s1)" by (metis prod.exhaust)
  note s1 = on_device_inv [OF inv reg' named_ops(7) 1]
  then have "dev_name (objs s1 ref) = ser" using nam by (simp add: same_ids_def)
  then have "if \<exists>e. r1 = Throws e then removeDevice E ser s1 = (r, s') else s' = s1"
    using run by (auto simp: poll_device_def 1 split: outcome.splits)
  then show ?thesis using s1 removeDevice_inv [of s1 E ser r s'] by (auto split: if_splits)
qed

lemma poll_all_inv:
  assumes "inv s" and "distinct (map fst xs)" and "\<And>k ref. (k, ref) \<in> set xs \<Longrightarrow> map_of (m_serial_map s) k = Some ref"
    and "run_acts (map (\<lambda>(_, ref). poll_device E ref) xs) s = (r, s')"
  shows "inv s'"
  using assms
proof (induction xs arbitrary: s)
  case Nil
  then show ?case by (simp add: return_act_def)
next
  case (Cons x xs)
  obtain k ref where x: "x = (k, ref)" by (cases x)
  obtain r1 s1 where 1: "poll_device E ref s = (r1, s1)" by (metis prod.exhaust)
  have s1: "inv s1" "\<And>k'. k' \<noteq> k \<Longrightarrow> map_of (m_serial_map s1) k' = map_of (m_serial_map s) k'"
    using poll_device_inv [OF Cons.prems(1) _ 1, of k] Cons.prems(3) by (auto simp: x)
  show ?case
  proof (cases "r1 = Ret ()")
    case True
    then have "run_acts (map (\<lambda>(_, ref). poll_device E ref) xs) s1 = (r, s')"
      using Cons.prems(4) by (simp add: x then_act_def bind_act_def 1)
    moreover have "map_of (m_serial_map s1) k' = Some ref'" if "(k', ref') \<in> set xs" for k' ref'
    proof -
      have "k' \<noteq> k" using Cons.prems(2) that by (force simp: x)
      then show ?thesis using s1(2) Cons.prems(3) that by simp
    qed
    ultimately show ?thesis using Cons.IH [OF s1(1)] Cons.prems(2) by simp
  next
    case False
    then show ?thesis using Cons.prems(4) s1(1) by (cases r1) (auto simp: x then_act_def bind_act_def 1)
  qed
qed

lemma periodic_inv: "preserves inv (periodicRegisterUpdates E)"
  unfolding preserves_def periodicRegisterUpdates_def
proof (intro allI impI)
  fix s r s'
  assume inv: "inv s" and run: "run_acts (map (\<lambda>(_, ref). poll_device E ref) (m_serial_map s)) s = (r, s')"
  have d: "distinct (map fst (m_serial_map s))"
    using inv serials_distinct by (auto simp: inv_def consistent_def)
  then show "inv s'" by (intro poll_all_inv [OF inv d _ run]) simp
qed

lemma removed_inv: "preserves inv (usbDeviceRemoved E dev)"
  unfolding preserves_def usbDeviceRemoved_def by (auto split: option.splits dest: removeDevice_inv)

section \<open>Adding a device\<close>

lemma watched:
  assumes "sorted_keys (m_tracked_regs d)"
  shows "sorted_keys (m_tracked_regs (fold (\<lambda>(a, p). trackReg a p True) ws d))"
    and "dev_name (fold (\<lambda>(a, p). trackReg a p True) ws d) = dev_name d"
    and "libusbDevice (fold (\<lambda>(a, p). trackReg a p True) ws d) = libusbDevice d"
proof -
  have "trackReg a p b d = d\<lparr>m_tracked_regs := m_tracked_regs (trackReg a p b d)\<rparr>" for a p b d
    by (simp add: trackReg_def)
  then have "dev_name (trackReg a p b d) = dev_name d \<and> libusbDevice (trackReg a p b d) = libusbDevice d" for a p b d
    by (simp add: trackReg_def)
  then show "sorted_keys (m_tracked_regs (fold (\<lambda>(a, p). trackReg a p True) ws d))"
      "dev_name (fold (\<lambda>(a, p). trackReg a p True) ws d) = dev_name d"
      "libusbDevice (fold (\<lambda>(a, p). trackReg a p True) ws d) = libusbDevice d"
    using assms by (induction ws arbitrary: d) (auto simp: trackReg_sorted)
qed

lemma register_inv:
  assumes inv: "inv s" and ref: "ref < next_ref s" "dev_name (objs s ref) = ser" "libusbDevice (objs s ref) = dev"
    and free: "m_device_map s dev = None" "ser \<notin> serials s" and t: "sorted_keys (m_tracked_regs (objs s ref))"
  shows "inv (watch_device desc ref (notify True (Added ser) (register_device dev ref s)))"
proof -
  have c: "consistent s" using inv by (simp add: inv_def)
  have ser: "ser \<notin> set (map fst (m_serial_map s))" using free(2) by (simp add: serials_def)
  have new: "set (serial_insert ser ref (m_serial_map s)) = insert (ser, ref) (set (m_serial_map s))"
    by (rule serial_insert_set [OF ser])
  have other: "r \<noteq> ref" if "(k, r) \<in> set (m_serial_map s)" for k r
  proof
    assume "r = ref"
    then have "k = ser" using consistent_entry [OF c that] ref(2) by simp
    then have "ser \<in> fst ` set (m_serial_map s)" using that by force
    then show False using ser by simp
  qed
  have sorted: "sorted_wrt string_less (map fst (serial_insert ser ref (m_serial_map s)))"
    using serial_insert_sorted [OF _ ser] c by (simp add: consistent_def)
  have dev: "libusbDevice (objs s r) \<noteq> dev" if "(k, r) \<in> set (m_serial_map s)" for k r
    using consistent_entry [OF c that] free(1) by auto
  have other': "r \<noteq> ref" if "m_device_map s d = Some r" for d r
    using consistent_listed [OF c that] other by blast
  let ?s = "watch_device desc ref (notify True (Added ser) (register_device dev ref s))"
  define d where "d = objs ?s ref"
  have d: "dev_name d = ser" "libusbDevice d = dev" "sorted_keys (m_tracked_regs d)"
    using ref t by (simp_all add: d_def watch_device_def notify_def register_device_def setRegChangedCallback_def watched)
  have objs: "objs ?s r = (if r = ref then d else objs s r)" for r
    by (simp add: d_def watch_device_def notify_def register_device_def)
  have maps: "m_device_map ?s = (m_device_map s)(dev := Some ref)" "m_serial_map ?s = serial_insert ser ref (m_serial_map s)"
      "next_ref ?s = next_ref s"
    using free(1) ref(2) by (simp_all add: watch_device_def notify_def register_device_def)
  have "consistent ?s"
  proof (rule consistentI, goal_cases)
    case (1 k r)
    then have "(k, r) = (ser, ref) \<or> (k, r) \<in> set (m_serial_map s)" by (simp only: maps new insert_iff)
    then show ?case using consistent_entry [OF c] other dev ref(1) d by (auto simp only: objs maps fun_upd_apply prod.inject split: if_splits)
  next
    case (2 u r)
    then have "u = dev \<and> r = ref \<or> u \<noteq> dev \<and> m_device_map s u = Some r" by (simp add: maps split: if_splits)
    then show ?case using consistent_listed [OF c] other' d by (auto simp: objs maps new)
  next
    case 3
    then show ?case using sorted by (simp only: maps)
  next
    case (4 r)
    then show ?case using c d by (auto simp: maps objs consistent_def not_le [symmetric])
  qed
  moreover have "serials ?s = insert ser (serials s)" by (simp add: serials_def maps new)
  moreover have "notices ?s = notices s @ [Added ser]" "added_cb ?s = added_cb s" "removed_cb ?s = removed_cb s" "changed_cb ?s = changed_cb s"
    by (simp_all add: watch_device_def notify_def register_device_def)
  ultimately show ?thesis using inv free(2) by (simp add: inv_def replay_append)
qed

lemma new_device_inv:
  assumes inv: "inv s" and run: "new_device E dev ser s = (r, s')"
  shows "inv s' \<and> m_device_map s' = m_device_map s \<and> m_serial_map s' = m_serial_map s \<and>
    (\<forall>ref. r = Ret ref \<longrightarrow> ref < next_ref s' \<and> dev_name (objs s' ref) = ser \<and> libusbDevice (objs s' ref) = dev \<and>
       sorted_keys (m_tracked_regs (objs s' ref)))"
proof -
  let ?d = "\<lparr>the_device = device_blank dev ser, bus = usb s, changes = []\<rparr>"
  obtain x d where d: "open_device E ?d = (x, d)" by (metis prod.exhaust)
  have ids: "dev_name (the_device d) = ser" "libusbDevice (the_device d) = dev" "m_tracked_regs (the_device d) = []"
    using quietD [OF quiet_open_device d] by (auto simp: same_ids_def device_blank_def)
  have c: "consistent s" using inv by (simp add: inv_def)
  have usb: "inv (s\<lparr>usb := w\<rparr>)" for w
    using inv by (simp add: inv_def consistent_def serials_def)
  show ?thesis
  proof (cases "x = Ret ()")
    case False
    then show ?thesis using run usb by (cases x) (auto simp: new_device_def d Let_def)
  next
    case True
    let ?s = "s\<lparr>usb := bus d, objs := (objs s)(next_ref s := the_device d), next_ref := next_ref s + 1\<rparr>"
    have s': "r = Ret (next_ref s)" "s' = ?s" using run by (auto simp: new_device_def d Let_def True)
    have "consistent ?s"
    proof (rule consistentI, goal_cases)
      case (1 k r)
      then show ?case using consistent_entry [OF c, of k r] by auto
    next
      case (2 u r)
      then have m: "m_device_map s u = Some r" by simp
      from consistent_listed [OF c m] have "r < next_ref s" using consistent_entry [OF c] by blast
      then show ?case using consistent_listed [OF c m] by simp
    next
      case 3
      then show ?case using c by (simp add: consistent_def)
    next
      case (4 r)
      then show ?case using c ids(3) by (auto simp: consistent_def sorted_keys_def less_Suc_eq not_le [symmetric])
    qed
    then show ?thesis using inv ids by (auto simp: s' inv_def serials_def sorted_keys_def)
  qed
qed

lemma add_device_inv:
  assumes inv: "inv s" and free: "m_device_map s dev = None" and run: "add_device E dev s = (r, s')"
  shows "inv s'"
proof -
  obtain r1 s1 where 1: "on_usb (getUsbDeviceStrings E dev) s = (r1, s1)" by (metis prod.exhaust)
  have v1: "same_view s s1" by (rule unseenD [OF unseen_usb 1])
  then have i1: "inv s1" and free1: "m_device_map s1 dev = None"
    using inv free same_view_inv [OF v1] by (auto simp: same_view_def)
  show ?thesis
  proof (cases "\<exists>mnf prd ser. r1 = Ret (mnf, prd, ser) \<and> \<not> hasSerial ser s1 \<and>
      find_description ser (m_device_descriptions s1) \<noteq> None")
    case False
    then show ?thesis
      using run i1 by (cases r1) (auto simp: add_device_def bind_act_def 1 split: if_splits option.splits)
  next
    case True
    then obtain mnf prd ser desc where r1: "r1 = Ret (mnf, prd, ser)" and ser: "\<not> hasSerial ser s1"
        and desc: "find_description ser (m_device_descriptions s1) = Some desc" by auto
    obtain r2 s2 where 2: "new_device E dev ser s1 = (r2, s2)" by (metis prod.exhaust)
    note n = new_device_inv [OF i1 2]
    have ser2: "ser \<notin> serials s2" using ser n by (auto simp: hasSerial_def serials_def map_of_eq_None_iff)
    show ?thesis
    proof (cases "\<exists>ref. r2 = Ret ref")
      case False
      then show ?thesis
        using run n by (cases r2) (auto simp: add_device_def bind_act_def 1 r1 ser desc 2)
    next
      case True
      then obtain ref where r2: "r2 = Ret ref" by blast
      have u: "unseen (on_throw (close_device E ref) (reprogramDevice E ref))"
        by (intro unseen_on_throw unseen_close unseen_reprogram)
      obtain r3 s3 where 3: "on_throw (close_device E ref) (reprogramDevice E ref) s2 = (r3, s3)" by (metis prod.exhaust)
      have v3: "same_view s2 s3" by (rule unseenD [OF u 3])
      have i3: "inv s3" using n same_view_inv [OF v3] by simp
      show ?thesis
      proof (cases "\<exists>b. r3 = Ret b")
        case False
        then show ?thesis
          using run i3 by (cases r3) (auto simp: add_device_def bind_act_def 1 r1 ser desc 2 r2 3)
      next
        case True
        have ref: "ref < next_ref s3" "dev_name (objs s3 ref) = ser" "libusbDevice (objs s3 ref) = dev"
            "sorted_keys (m_tracked_regs (objs s3 ref))" "m_device_map s3 dev = None" "ser \<notin> serials s3" "added_cb s3"
          using n r2 v3 free1 ser2 i3 same_ids_sorted [of "objs s2 ref" "objs s3 ref"]
          by (auto simp: same_view_def same_ids_def serials_def inv_def)
        have "s' = watch_device desc ref (notify True (Added ser) (register_device dev ref s3))"
          using run True ref(2,7)
          by (auto simp: add_device_def bind_act_def 1 r1 ser desc 2 r2 3 modify_act_def Let_def register_device_def)
        then show ?thesis using register_inv [OF i3 ref(1-3,5,6,4)] by simp
      qed
    qed
  qed
qed

lemma added_inv: "preserves inv (usbDeviceAdded E dev)"
  unfolding preserves_def
proof (intro allI impI)
  fix s r s'
  assume inv: "inv s" and run: "usbDeviceAdded E dev s = (r, s')"
  show "inv s'"
  proof (cases "hasDevice dev s")
    case True
    then show ?thesis using inv run by (simp add: usbDeviceAdded_def)
  next
    case False
    obtain r1 s1 where 1: "add_device E dev s = (r1, s1)" by (metis prod.exhaust)
    have "m_device_map s dev = None" using False by (simp add: hasDevice_def)
    then have "inv s1" by (rule add_device_inv [OF inv _ 1])
    then show ?thesis using run False by (cases r1) (auto simp: usbDeviceAdded_def catching_def 1)
  qed
qed

end
