(* ===== verification/Rpc_Props.thy ===== *)
theory Rpc_Props
  imports Rpc Manager_Props Device_Open
begin

text \<open>
  The server as a whole: its steps are USB events, the poll timer and the requests of clients. In
  every reachable state the notifications sent so far describe the connected devices, and every
  request is answered by one message.
\<close>

section \<open>Requests keep the invariant of the manager\<close>

definition rpc_inv :: "'w rpc_state \<Rightarrow> bool" where
  "rpc_inv s \<longleftrightarrow> inv (m_manager s)"

definition rpc_inv_at :: "nat \<Rightarrow> 'w rpc_state \<Rightarrow> bool" where
  "rpc_inv_at ref s \<longleftrightarrow> inv (m_manager s) \<and> registered ref (m_manager s)"

named_theorems keeps_inv

lemmas [keeps_inv] = preserves_bind preserves_then

lemma preserves_pack [keeps_inv]: "preserves (rpc_inv_at ref) (pack ps)"
  by (auto simp: preserves_def pack_def modify_act_def rpc_inv_at_def)

lemma preserves_replies [keeps_inv]:
  "preserves (rpc_inv_at ref) (RPC_REPLY_VALUE v)" "preserves (rpc_inv_at ref) (RPC_REPLY_BINARY b)"
  "preserves (rpc_inv_at ref) (RPC_REPLY_ERROR e)"
  by (simp_all add: RPC_REPLY_VALUE_def RPC_REPLY_BINARY_def RPC_REPLY_ERROR_def preserves_pack)

lemma preserves_args [keeps_inv]:
  "preserves P (arg_at M args i)" "preserves P (arg_string M args i)" "preserves P (arg_uint M n args i)"
  "preserves P (arg_byte M args i)" "preserves P (new_vector M n)"
proof -
  show "preserves P (arg_at M args i)" for P :: "'s \<Rightarrow> bool" by (simp add: arg_at_def)
  note a = this
  have c: "preserves P (converted M r)" for P :: "'s \<Rightarrow> bool" and r :: "'x option" by (simp add: converted_def split: option.splits)
  show "preserves P (arg_string M args i)" unfolding arg_string_def
    by (intro preserves_bind) (auto simp: arg_at_def converted_def split: option.splits)
  show u: "preserves P (arg_uint M n args i)" for P :: "'s \<Rightarrow> bool" and n unfolding arg_uint_def
    by (intro preserves_bind) (auto simp: arg_at_def converted_def split: option.splits)
  show "preserves P (arg_byte M args i)" unfolding arg_byte_def by (intro preserves_bind u) simp
  show "preserves P (new_vector M n)" by (simp add: new_vector_def)
qed

lemma preserves_call [keeps_inv]: "named m \<Longrightarrow> preserves (rpc_inv_at ref) (device_call ref m)"
  unfolding preserves_def rpc_inv_at_def device_call_def on_manager_def on_part_def
  by (auto split: prod.splits dest: on_device_inv)

lemma preserves_reprogram [keeps_inv]: "preserves (rpc_inv_at ref) (on_manager (reprogramDevice E ref))"
  unfolding preserves_def rpc_inv_at_def on_manager_def on_part_def
  by (auto split: prod.splits dest: unseenD [OF unseen_reprogram] simp: same_view_inv same_view_registered)

lemma reply_error_inv: "RPC_REPLY_ERROR e s = (r, s') \<Longrightarrow> rpc_inv s \<Longrightarrow> rpc_inv s'"
  by (auto simp: RPC_REPLY_ERROR_def pack_def modify_act_def rpc_inv_def)

lemma with_device_inv:
  assumes "\<And>ref. preserves (rpc_inv_at ref) (k ref)"
  shows "preserves rpc_inv (with_device M args k)"
  unfolding preserves_def
proof (intro allI impI)
  fix s r s'
  assume inv: "rpc_inv s" and run: "with_device M args k s = (r, s')"
  obtain r1 s1 where 1: "arg_string M args 1 s = (r1, s1)" by (metis prod.exhaust)
  have i1: "rpc_inv s1" by (rule preservesD [where P = rpc_inv, OF preserves_args(2) inv 1])
  show "rpc_inv s'"
  proof (cases "\<exists>ser ref. r1 = Ret ser \<and> getDevice ser (m_manager s1) = Some ref")
    case True
    then obtain ser ref where t: "r1 = Ret ser" "getDevice ser (m_manager s1) = Some ref" by blast
    have "rpc_inv_at ref s1"
      using i1 t(2) registered_map [of "m_manager s1"] by (auto simp: rpc_inv_def rpc_inv_at_def getDevice_def)
    moreover have "k ref s1 = (r, s')" using run t by (simp add: with_device_def bind_act_def 1 [unfolded One_nat_def])
    ultimately have "rpc_inv_at ref s'" by (rule preservesD [where P = "rpc_inv_at ref", OF assms])
    then show ?thesis by (simp add: rpc_inv_def rpc_inv_at_def)
  next
    case False
    show ?thesis
    proof (cases r1)
      case (Ret ser)
      have "getDevice ser (m_manager s1) \<noteq> Some ref" for ref using False Ret by blast
      then have "getDevice ser (m_manager s1) = None" by (metis not_Some_eq)
      then have "RPC_REPLY_ERROR ''Unknown device'' s1 = (r, s')"
        using run Ret by (simp add: with_device_def bind_act_def 1 [unfolded One_nat_def])
      then show ?thesis by (rule reply_error_inv [OF _ i1])
    qed (use run i1 in \<open>simp_all add: with_device_def bind_act_def 1 [unfolded One_nat_def]\<close>)
  qed
qed

lemma preserves_bin [keeps_inv]:
  "(\<And>d. preserves P (f d)) \<Longrightarrow> preserves P z \<Longrightarrow> preserves P (case b of None \<Rightarrow> z | Some d \<Rightarrow> f d)"
  by (cases b) auto

lemma handlers_inv:
  assumes "map_of (m_functions M E) cmd = Some f"
  shows "preserves rpc_inv (f args)"
proof -
  have "preserves rpc_inv (rpc_devicelist :: ('w rpc_state, unit) act)"
    by (auto simp: preserves_def rpc_devicelist_def RPC_REPLY_VALUE_def pack_def modify_act_def rpc_inv_def)
  moreover have "preserves rpc_inv (rpc_reprogram M E args)" "preserves rpc_inv (rpc_writereg M E args)"
      "preserves rpc_inv (rpc_readreg M E args)" "preserves rpc_inv (rpc_writeregn M E args)"
      "preserves rpc_inv (rpc_readregn M E args)" "preserves rpc_inv (rpc_writeraw M E args)"
      "preserves rpc_inv (rpc_readraw M E args)"
    unfolding rpc_reprogram_def rpc_writereg_def rpc_readreg_def rpc_writeregn_def rpc_readregn_def rpc_writeraw_def rpc_readraw_def
    by (intro with_device_inv keeps_inv named_ops)+
  ultimately show ?thesis using assms by (auto simp: m_functions_def split: if_splits)
qed

lemma handleRequest_inv: "preserves rpc_inv (handleRequest M E q)"
  unfolding preserves_def
proof (intro allI impI)
  fix s r s'
  assume inv: "rpc_inv s" and run: "handleRequest M E q s = (r, s')"
  note err = reply_error_inv
  show "rpc_inv s'"
  proof (cases "\<exists>args cmd f. as_array M q = Some args \<and> fst (arg_string M args 0 s) = Ret cmd \<and> map_of (m_functions M E) cmd = Some f")
    case False
    then show ?thesis using run inv
      by (auto simp: handleRequest_def intro: err split: option.splits prod.splits outcome.splits)
  next
    case True
    then obtain args cmd f where a: "as_array M q = Some args" "fst (arg_string M args 0 s) = Ret cmd"
        and f: "map_of (m_functions M E) cmd = Some f" by blast
    obtain r1 s1 where 1: "f args s = (r1, s1)" by (metis prod.exhaust)
    have "rpc_inv s1" by (rule preservesD [OF handlers_inv [OF f] inv 1])
    then show ?thesis
      using run a f 1 err by (cases r1) (auto simp: handleRequest_def split: prod.splits)
  qed
qed

section \<open>The server\<close>

text \<open>
  The steps of the server: the event loop runs one handler at a time, in any order. A handler
  that crashes or hangs ends the server.
\<close>

inductive server_step :: "'o msgpack \<Rightarrow> 'w manager_env \<Rightarrow> 'w manager \<Rightarrow> 'w manager \<Rightarrow> bool" for M E where
  arrived: "usbDeviceAdded E dev s = (Ret (), s') \<Longrightarrow> server_step M E s s'"
| left: "usbDeviceRemoved E dev s = (Ret (), s') \<Longrightarrow> server_step M E s s'"
| timer: "periodicRegisterUpdates E s = (Ret (), s') \<Longrightarrow> server_step M E s s'"
| request: "handleRequest M E q \<lparr>m_manager = s, reply = []\<rparr> = (Ret (), t) \<Longrightarrow> server_step M E s (m_manager t)"

text \<open>\<open>main\<close> sets the callbacks before the event loop runs.\<close>

definition server_start :: "device_description list \<Rightarrow> (nat \<Rightarrow> device) \<Rightarrow> 'w \<Rightarrow> 'w manager" where
  "server_start descs mem w =
     setChangedCallback True (setRemovedCallback True (setAddedCallback True (new_manager descs mem w)))"

inductive server_reachable :: "'o msgpack \<Rightarrow> 'w manager_env \<Rightarrow> 'w manager \<Rightarrow> 'w manager \<Rightarrow> bool" for M E s0 where
  start: "server_reachable M E s0 s0"
| step: "server_reachable M E s0 s \<Longrightarrow> server_step M E s s' \<Longrightarrow> server_reachable M E s0 s'"

lemma server_start_inv: "inv (server_start descs mem w)"
  by (simp add: server_start_def setChangedCallback_def setRemovedCallback_def setAddedCallback_def new_manager_def
      inv_def consistent_def serials_def)

lemma server_step_inv: "server_step M E s s' \<Longrightarrow> inv s \<Longrightarrow> inv s'"
proof (induction rule: server_step.induct)
  case (request q s t)
  then show ?case using preservesD [OF handleRequest_inv, of "\<lparr>m_manager = s, reply = []\<rparr>"] by (force simp: rpc_inv_def)
qed (auto dest: preservesD [OF added_inv] preservesD [OF removed_inv] preservesD [OF periodic_inv])

section \<open>Replies\<close>

text \<open>A reply is one array of a code and a value, or of the error code and a text.\<close>

fun is_value :: "packed \<Rightarrow> bool" where
  "is_value (Pack_array n) \<longleftrightarrow> False"
| "is_value _ \<longleftrightarrow> True"

definition one_reply :: "packed list \<Rightarrow> bool" where
  "one_reply ps \<longleftrightarrow> (\<exists>v. ps = [Pack_array 2, Pack_int8 RPC_RCODE_OK, v] \<and> is_value v) \<or>
     (\<exists>e. ps = [Pack_array 2, Pack_int8 RPC_RCODE_ERROR, Pack_str e])"

text \<open>An operation that packs one reply unless it throws; one that packs nothing.\<close>

definition answers :: "('w rpc_state, unit) act \<Rightarrow> bool" where
  "answers m \<longleftrightarrow> (\<forall>s r s'. reply s = [] \<longrightarrow> m s = (r, s') \<longrightarrow>
     (r = Ret () \<longrightarrow> one_reply (reply s')) \<and> (\<forall>e. r = Throws e \<longrightarrow> reply s' = []))"

definition silent :: "('w rpc_state, 'a) act \<Rightarrow> bool" where
  "silent m \<longleftrightarrow> (\<forall>s r s'. m s = (r, s') \<longrightarrow> reply s' = reply s)"

lemma silentD: "silent m \<Longrightarrow> m s = (r, s') \<Longrightarrow> reply s' = reply s"
  unfolding silent_def by blast

lemma answersD: "answers m \<Longrightarrow> reply s = [] \<Longrightarrow> m s = (r, s') \<Longrightarrow>
   (r = Ret () \<longrightarrow> one_reply (reply s')) \<and> (\<forall>e. r = Throws e \<longrightarrow> reply s' = [])"
  unfolding answers_def by blast

lemma answers_bind:
  assumes m: "silent m" and f: "\<And>x. answers (f x)"
  shows "answers (bind_act m f)"
  unfolding answers_def
proof (intro allI impI)
  fix s r s'
  assume s: "reply s = []" and run: "bind_act m f s = (r, s')"
  obtain r1 s1 where 1: "m s = (r1, s1)" by (metis prod.exhaust)
  have s1: "reply s1 = []" using silentD [OF m 1] s by simp
  show "(r = Ret () \<longrightarrow> one_reply (reply s')) \<and> (\<forall>e. r = Throws e \<longrightarrow> reply s' = [])"
  proof (cases r1)
    case (Ret x)
    then have "f x s1 = (r, s')" using run by (simp add: bind_act_def 1)
    then show ?thesis by (rule answersD [OF f s1])
  qed (use run s1 in \<open>auto simp: bind_act_def 1\<close>)
qed

lemma answers_at: "(\<And>s. answers (f s)) \<Longrightarrow> answers (\<lambda>s. f s s)"
  unfolding answers_def by blast

lemma answers_then: "silent m \<Longrightarrow> answers k \<Longrightarrow> answers (then_act m k)"
  unfolding then_act_def by (rule answers_bind)

lemma answers_replies:
  "is_value v \<Longrightarrow> answers (RPC_REPLY_VALUE v)" "answers (RPC_REPLY_BINARY b)" "answers (RPC_REPLY_ERROR e)"
  by (auto simp: answers_def RPC_REPLY_VALUE_def RPC_REPLY_BINARY_def RPC_REPLY_ERROR_def pack_def modify_act_def one_reply_def)

lemma answers_option: "(\<And>d. answers (f d)) \<Longrightarrow> answers z \<Longrightarrow> answers (case b of None \<Rightarrow> z | Some d \<Rightarrow> f d)"
  by (cases b) auto

lemma silent_manager [simp]: "silent (on_manager m)" "silent (device_call ref n)"
  by (auto simp: silent_def device_call_def on_manager_def on_part_def split: prod.splits)

lemma silent_bind:
  assumes m: "silent m" and f: "\<And>x. silent (f x)"
  shows "silent (bind_act m f)"
  unfolding silent_def
proof (intro allI impI)
  fix s r s'
  assume run: "bind_act m f s = (r, s')"
  obtain r1 s1 where 1: "m s = (r1, s1)" by (metis prod.exhaust)
  note s1 = silentD [OF m 1]
  show "reply s' = reply s"
  proof (cases r1)
    case (Ret x)
    then have "f x s1 = (r, s')" using run by (simp add: bind_act_def 1)
    then show ?thesis using silentD [OF f] s1 by metis
  qed (use run s1 in \<open>auto simp: bind_act_def 1\<close>)
qed

lemma silent_args [simp]:
  "silent (arg_at M args i)" "silent (arg_string M args i)" "silent (arg_uint M n args i)" "silent (arg_byte M args i)"
  "silent (new_vector M n)"
proof -
  have c: "silent (throw_act e)" "silent (return_act x)" for e x
    by (simp_all add: silent_def throw_act_def return_act_def)
  show "silent (arg_at M args i)" "silent (new_vector M n)"
    by (simp_all add: arg_at_def new_vector_def silent_def throw_act_def return_act_def)
  show "silent (arg_string M args i)" unfolding arg_string_def
    by (intro silent_bind) (auto simp: arg_at_def converted_def silent_def throw_act_def return_act_def split: option.splits)
  show u: "silent (arg_uint M n args i)" for n unfolding arg_uint_def
    by (intro silent_bind) (auto simp: arg_at_def converted_def silent_def throw_act_def return_act_def split: option.splits)
  show "silent (arg_byte M args i)" unfolding arg_byte_def
    by (intro silent_bind u) (simp add: silent_def return_act_def)
qed

lemma answers_with_device:
  assumes "\<And>ref. answers (k ref)"
  shows "answers (with_device M args k)"
proof -
  have "answers (\<lambda>s. (case getDevice ser (m_manager s) of None \<Rightarrow> RPC_REPLY_ERROR ''Unknown device'' | Some ref \<Rightarrow> k ref) s)" for ser
    by (rule answers_at) (intro answers_option assms answers_replies)
  moreover have "(case x of None \<Rightarrow> RPC_REPLY_ERROR ''Unknown device'' | Some ref \<Rightarrow> k ref) s =
      (case x of None \<Rightarrow> RPC_REPLY_ERROR ''Unknown device'' s | Some ref \<Rightarrow> k ref s)" for x s
    by (cases x) auto
  ultimately show ?thesis unfolding with_device_def by (intro answers_bind silent_args) simp
qed

lemma handlers_answer:
  assumes "map_of (m_functions M E) cmd = Some f" and "cmd \<noteq> ''reprogram''"
  shows "answers (f args)"
proof -
  have "answers (\<lambda>s. RPC_REPLY_VALUE (Pack_strs (getDeviceList (m_manager s))) s)"
    by (rule answers_at) (simp add: answers_replies)
  then have "answers rpc_devicelist" by (simp add: rpc_devicelist_def [abs_def])
  moreover have "answers (rpc_writereg M E args)" "answers (rpc_readreg M E args)" "answers (rpc_writeregn M E args)"
      "answers (rpc_readregn M E args)" "answers (rpc_writeraw M E args)" "answers (rpc_readraw M E args)"
    unfolding rpc_writereg_def rpc_readreg_def rpc_writeregn_def rpc_readregn_def rpc_writeraw_def rpc_readraw_def
    by (intro answers_with_device answers_bind answers_then silent_args silent_manager answers_replies answers_option is_value.simps [THEN iffD2] TrueI)+
  ultimately show ?thesis using assms by (auto simp: m_functions_def split: if_splits)
qed

lemma reprogram_replies:
  assumes "rpc_reprogram M E args s = (r, s')" and "reply s = []"
  shows "(r = Ret () \<longrightarrow> one_reply (reply s')) \<and>
    (\<forall>e. r = Throws e \<longrightarrow> reply s' = [] \<or> reply s' = [Pack_array 2, Pack_int8 RPC_RCODE_OK])"
proof -
  obtain r1 s1 where 1: "arg_string M args (Suc 0) s = (r1, s1)" by (metis prod.exhaust)
  have s1: "reply s1 = []" using silentD [OF silent_args(2) 1] assms(2) by simp
  show ?thesis
    using assms(1) s1
    by (auto simp: rpc_reprogram_def with_device_def bind_act_def then_act_def 1 pack_def modify_act_def RPC_REPLY_ERROR_def
        one_reply_def on_manager_def on_part_def split: outcome.splits option.splits prod.splits)
qed

section \<open>Requests that are rejected\<close>

text \<open>The text of the error for a request that reaches no device.\<close>

definition rejected :: "'o msgpack \<Rightarrow> 'w manager \<Rightarrow> 'o \<Rightarrow> string option" where
  "rejected M s q =
     (case as_array M q of
        None \<Rightarrow> Some ''Invalid message''
      | Some [] \<Rightarrow> Some ''Invalid message''
      | Some (a # rest) \<Rightarrow>
          (case as_string M a of
             None \<Rightarrow> Some ''Invalid message''
           | Some cmd \<Rightarrow>
               if cmd = ''devicelist'' then None
               else if cmd \<notin> {''reprogram'', ''writereg'', ''readreg'', ''writeregn'', ''readregn'', ''writeraw'', ''readraw''}
               then Some ''Invalid command''
               else (case rest of
                       [] \<Rightarrow> Some (range_text M 1 1)
                     | b # _ \<Rightarrow>
                         (case as_string M b of
                            None \<Rightarrow> Some (cast_text M)
                          | Some ser \<Rightarrow> if ser \<in> set (getDeviceList s) then None else Some ''Unknown device''))))"

lemma unknown_device_rejected:
  assumes "rejected M s q = Some e" and "as_array M q = Some (a # rest)" and "as_string M a = Some cmd"
    and "cmd \<noteq> ''devicelist''" and "cmd \<in> {''reprogram'', ''writereg'', ''readreg'', ''writeregn'', ''readregn'', ''writeraw'', ''readraw''}"
  shows "with_device M (a # rest) k \<lparr>m_manager = s, reply = []\<rparr> =
    (if rest = [] \<or> as_string M (hd rest) = None then (Throws e, \<lparr>m_manager = s, reply = []\<rparr>)
     else RPC_REPLY_ERROR e \<lparr>m_manager = s, reply = []\<rparr>)"
  using assms
  by (cases rest)
    (auto simp: rejected_def with_device_def arg_string_def arg_at_def converted_def bind_act_def return_act_def throw_act_def
      getDevice_def getDeviceList_def split: option.splits if_splits dest: map_of_SomeD intro: rev_image_eqI)

lemma rejected_reply:
  assumes rej: "rejected M s q = Some e"
  shows "handleRequest M E q \<lparr>m_manager = s, reply = []\<rparr> =
    (Ret (), \<lparr>m_manager = s, reply = [Pack_array 2, Pack_int8 RPC_RCODE_ERROR, Pack_str e]\<rparr>)"
proof -
  have err: "RPC_REPLY_ERROR x \<lparr>m_manager = s, reply = []\<rparr> =
      (Ret (), \<lparr>m_manager = s, reply = [Pack_array 2, Pack_int8 RPC_RCODE_ERROR, Pack_str x]\<rparr>)" for x
    by (simp add: RPC_REPLY_ERROR_def pack_def modify_act_def)
  show ?thesis
  proof (cases "\<exists>a rest cmd. as_array M q = Some (a # rest) \<and> as_string M a = Some cmd")
    case False
    have bad: "as_array M q = None \<or> as_array M q = Some [] \<or>
        (\<exists>a rest. as_array M q = Some (a # rest) \<and> as_string M a = None)"
      using False by (cases "as_array M q"; cases "the (as_array M q)") auto
    then have "e = ''Invalid message''" using rej by (auto simp: rejected_def)
    moreover have "handleRequest M E q \<lparr>m_manager = s, reply = []\<rparr> = RPC_REPLY_ERROR ''Invalid message'' \<lparr>m_manager = s, reply = []\<rparr>"
      using bad
      by (auto simp: handleRequest_def arg_string_def arg_at_def converted_def bind_act_def return_act_def throw_act_def)
    ultimately show ?thesis by (simp add: err)
  next
    case True
    then obtain a rest cmd where q: "as_array M q = Some (a # rest)" "as_string M a = Some cmd" by blast
    have cmd: "arg_string M (a # rest) 0 \<lparr>m_manager = s, reply = []\<rparr> = (Ret cmd, \<lparr>m_manager = s, reply = []\<rparr>)"
      using q by (simp add: arg_string_def arg_at_def converted_def bind_act_def return_act_def)
    show ?thesis
    proof (cases "cmd \<in> {''reprogram'', ''writereg'', ''readreg'', ''writeregn'', ''readregn'', ''writeraw'', ''readraw''}")
      case True
      then have nd: "cmd \<noteq> ''devicelist''" by auto
      obtain f k where f: "map_of (m_functions M E) cmd = Some f" "f (a # rest) = with_device M (a # rest) k"
        using True by (auto simp: m_functions_def rpc_reprogram_def rpc_writereg_def rpc_readreg_def rpc_writeregn_def
            rpc_readregn_def rpc_writeraw_def rpc_readraw_def)
      show ?thesis
        using unknown_device_rejected [OF rej q nd True, of k]
        by (auto simp: handleRequest_def q(1) cmd f err split: if_splits)
    next
      case False
      then have nd: "cmd \<noteq> ''devicelist''" "e = ''Invalid command''" using rej q by (auto simp: rejected_def split: if_splits)
      then have "map_of (m_functions M E) cmd = None" using False by (auto simp: m_functions_def)
      then show ?thesis by (simp add: handleRequest_def q(1) cmd err nd(2))
    qed
  qed
qed

section \<open>Properties\<close>

text \<open>C37: Notifications. In every state the server reaches, by USB arrivals and removals, polls and requests
  in any order, the notifications sent so far are consistent for a client that follows them: nothing
  is added twice, and nothing is removed or reported to have changed that is not there; the devices
  this client then knows are exactly those of \<open>devicelist\<close>, which is in order without duplicates; and
  the two maps of the manager agree.\<close>

theorem notifications_follow:
  assumes "server_reachable M E (server_start descs mem w) s"
  shows "replay (notices s) {} = Some (set (getDeviceList s)) \<and> sorted_wrt string_less (getDeviceList s) \<and>
    (\<forall>ser ref. getDevice ser s = Some ref \<longleftrightarrow>
       dev_name (objs s ref) = ser \<and> m_device_map s (libusbDevice (objs s ref)) = Some ref)"
proof -
  have inv: "inv s"
    using assms by (induction rule: server_reachable.induct) (auto intro: server_start_inv server_step_inv)
  have "getDevice ser s = Some ref \<longleftrightarrow>
       dev_name (objs s ref) = ser \<and> m_device_map s (libusbDevice (objs s ref)) = Some ref" for ser ref
  proof -
    have c: "consistent s" using inv by (simp add: inv_def)
    show ?thesis
      using registered_map [OF inv, of ser ref] consistent_entry [OF c, of _ ref] consistent_listed [OF c, of _ ref]
      by (auto simp: getDevice_def registered_def)
  qed
  then show ?thesis using inv by (simp add: inv_def consistent_def getDeviceList_def serials_def)
qed

text \<open>A server with one description that fits every serial number, and a board with an empty one that arrives.\<close>

definition sample_description :: device_description where
  "sample_description = \<lparr>desc_name = ''any'', serial_prefix = [], fname_bitfile = [], watchlist = []\<rparr>"

definition sample_manager_env :: "(byte list list \<times> usb_event list) manager_env" where
  "sample_manager_env =
     \<lparr>me_io = sample_env (logging packet_usb), me_error_name = (\<lambda>_. []), me_heaps = (\<lambda>_. (some_heap, some_heap, some_heap)),
      me_files = (\<lambda>_. None), me_uninit = undefined, me_stale = (\<lambda>_. ([], 0, 0, []))\<rparr>"

definition sample_msgpack :: "string msgpack" where
  "sample_msgpack =
     \<lparr>as_array = (\<lambda>q. if q = [] then None else Some [q]), as_string = Some, as_uint = (\<lambda>_ _. None), as_bin = (\<lambda>_. None),
      cast_text = ''bad cast'', range_text = (\<lambda>_ _. ''out of range''), vector_fits = (\<lambda>_. True), alloc_text = ''bad alloc''\<rparr>"

definition sample_start :: "(byte list list \<times> usb_event list) manager" where
  "sample_start = server_start [sample_description] (\<lambda>_. device_blank 0 []) ([], [])"

lemma sample_strings: "getUsbDeviceStrings sample_manager_env 5 ([], []) = (Ret ([], [], []), [], [])"
  by (simp add: getUsbDeviceStrings_def sample_manager_env_def sample_env_def Let_def finally_act_def bind_act_def then_act_def
      getStringDescriptor_def return_act_def modify_act_def logging_def packet_usb_def idle_usb_def)

lemma sample_arrives:
  "\<exists>s'. usbDeviceAdded sample_manager_env 5 sample_start = (Ret (), s') \<and> getDeviceList s' = [[]] \<and> notices s' = [Added []]"
proof -
  obtain d where d: "open_device sample_manager_env \<lparr>the_device = device_blank 5 [], bus = ([], []), changes = []\<rparr> = (Ret (), d)"
    using sample_blank_opens [of 5 "[]"]
    by (auto simp: open_device_def sample_manager_env_def sample_env_def some_heap_def) (metis prod.collapse)
  have ids: "dev_name (the_device d) = []" "libusbDevice (the_device d) = 5"
    using quietD [OF quiet_open_device d] by (simp_all add: device_blank_def same_ids_def)
  have start: "m_serial_map sample_start = []" "m_device_map sample_start = (\<lambda>_. None)" "usb sample_start = ([], [])"
      "m_device_descriptions sample_start = [sample_description]" "notices sample_start = []" "added_cb sample_start"
      "next_ref sample_start = 0"
    by (simp_all add: sample_start_def server_start_def setChangedCallback_def setRemovedCallback_def setAddedCallback_def new_manager_def)
  have descr: "find_description [] [sample_description] = Some sample_description" "fname_bitfile sample_description = []"
      "watchlist sample_description = []"
    by (simp_all add: find_description_def sample_description_def)
  define s1 where "s1 = sample_start\<lparr>usb := bus d, objs := (objs sample_start)(0 := the_device d), next_ref := Suc 0\<rparr>"
  have new: "new_device sample_manager_env 5 [] sample_start = (Ret 0, s1)"
    by (simp add: new_device_def start d Let_def s1_def)
  have s1: "dev_name (objs s1 0) = []" "m_serial_map s1 = []" "m_device_map s1 = (\<lambda>_. None)" "notices s1 = []" "added_cb s1"
      "m_device_descriptions s1 = [sample_description]"
    by (simp_all add: s1_def start ids)
  have strings: "on_usb (getUsbDeviceStrings sample_manager_env 5) sample_start = (Ret ([], [], []), sample_start)"
    by (simp add: on_usb_def on_part_def start sample_strings)
  have reprogram: "reprogramDevice sample_manager_env 0 s1 = (Ret False, s1)"
    by (simp add: reprogramDevice_def Let_def s1(1,6) descr(1,2))
  have reg: "objs (register_device 5 0 s1) = objs s1" "added_cb (register_device 5 0 s1)"
    by (simp_all add: register_device_def s1(5))
  define s2 where "s2 = watch_device sample_description 0 (notify True (Added []) (register_device 5 0 s1))"
  have "on_throw (close_device sample_manager_env 0) (reprogramDevice sample_manager_env 0) s1 = (Ret False, s1)"
    by (simp add: on_throw_def reprogram)
  then have "add_device sample_manager_env 5 sample_start = (Ret (), s2)"
    by (simp add: add_device_def bind_act_def strings hasSerial_def start(1,4) descr(1) new modify_act_def Let_def reg s1(1) s2_def)
  then have "usbDeviceAdded sample_manager_env 5 sample_start = (Ret (), s2)"
    by (simp add: usbDeviceAdded_def hasDevice_def start(2) catching_def)
  moreover have "getDeviceList s2 = [[]]" "notices s2 = [Added []]"
    using s1(1-5) by (simp_all add: s2_def watch_device_def notify_def register_device_def getDeviceList_def)
  ultimately show ?thesis by blast
qed

theorem notifications_follow_witness:
  "\<exists>s :: (byte list list \<times> usb_event list) manager.
     replay (notices s) {} = Some (set (getDeviceList s)) \<and> notices s = [Added []]"
proof -
  obtain s where s: "usbDeviceAdded sample_manager_env 5 sample_start = (Ret (), s)" "notices s = [Added []]"
    using sample_arrives by blast
  have "server_reachable sample_msgpack sample_manager_env sample_start s"
    by (rule server_reachable.step [OF server_reachable.start server_step.arrived [OF s(1)]])
  then have "replay (notices s) {} = Some (set (getDeviceList s))"
    unfolding sample_start_def by (rule notifications_follow [THEN conjunct1])
  with s(2) have "replay (notices s) {} = Some (set (getDeviceList s)) \<and> notices s = [Added []]" by (rule conjI [rotated])
  then show ?thesis by (rule exI)
qed

text \<open>C38: Replies. A request never ends in an exception. When it returns, the client gets exactly one
  message: a pair of 0 and a value or of -1 and an error text, except that a reprogramming that fails
  after its reply was begun is answered by a pair of 0 and such an error pair. A request that is no
  list, has no command or an unknown one, or names no device or an unknown one, gets the error text
  that says so and has no effect.\<close>

theorem rpc_reply:
  assumes "handleRequest M E q \<lparr>m_manager = s, reply = []\<rparr> = (r, t)"
  shows "(\<forall>e. r \<noteq> Throws e) \<and>
    (r = Ret () \<longrightarrow> one_reply (reply t) \<or>
       (\<exists>a rest e. as_array M q = Some (a # rest) \<and> as_string M a = Some ''reprogram'' \<and>
          reply t = [Pack_array 2, Pack_int8 RPC_RCODE_OK, Pack_array 2, Pack_int8 RPC_RCODE_ERROR, Pack_str e])) \<and>
    (\<forall>e. rejected M s q = Some e \<longrightarrow>
       r = Ret () \<and> t = \<lparr>m_manager = s, reply = [Pack_array 2, Pack_int8 RPC_RCODE_ERROR, Pack_str e]\<rparr>)"
proof (cases "rejected M s q")
  case (Some e)
  then show ?thesis using rejected_reply [OF Some, of E] assms by (auto simp: one_reply_def)
next
  case None
  then obtain a rest cmd where q: "as_array M q = Some (a # rest)" "as_string M a = Some cmd"
    by (auto simp: rejected_def split: option.splits list.splits)
  let ?s = "\<lparr>m_manager = s, reply = []\<rparr>"
  have cmd: "arg_string M (a # rest) 0 ?s = (Ret cmd, ?s)"
    using q by (simp add: arg_string_def arg_at_def converted_def bind_act_def return_act_def)
  have "\<exists>f. map_of (m_functions M E) cmd = Some f"
    using None q by (auto simp: rejected_def m_functions_def split: if_splits)
  then obtain f where f: "map_of (m_functions M E) cmd = Some f" by blast
  obtain r1 s1 where 1: "f (a # rest) ?s = (r1, s1)" by (metis prod.exhaust)
  have t: "(r, t) = (case r1 of Throws e \<Rightarrow> RPC_REPLY_ERROR e s1 | _ \<Rightarrow> (r1, s1))"
    using assms by (cases r1) (auto simp: handleRequest_def q(1) cmd f 1)
  show ?thesis
  proof (cases "cmd = ''reprogram''")
    case True
    have "f = rpc_reprogram M E" using f True by (simp add: m_functions_def)
    then show ?thesis
      using reprogram_replies [of M E "a # rest" ?s] 1 t True q None
      by (cases r1) (auto simp: RPC_REPLY_ERROR_def pack_def modify_act_def one_reply_def)
  next
    case False
    then show ?thesis
      using answersD [OF handlers_answer [OF f False] _ 1] t None
      by (cases r1) (auto simp: RPC_REPLY_ERROR_def pack_def modify_act_def one_reply_def)
  qed
qed

theorem rpc_reply_witness:
  "handleRequest sample_msgpack sample_manager_env ''reset'' \<lparr>m_manager = sample_start, reply = []\<rparr> =
     (Ret (), \<lparr>m_manager = sample_start, reply = [Pack_array 2, Pack_int8 RPC_RCODE_ERROR, Pack_str ''Invalid command'']\<rparr>)"
proof -
  obtain r t where run: "handleRequest sample_msgpack sample_manager_env ''reset'' \<lparr>m_manager = sample_start, reply = []\<rparr> = (r, t)"
    by (metis prod.exhaust)
  have "rejected sample_msgpack sample_start ''reset'' = Some ''Invalid command''"
    by (simp add: rejected_def sample_msgpack_def)
  with rpc_reply [OF run] run show ?thesis by simp
qed

end
