(* ===== verification/Network.thy ===== *)
theory Network
  imports Prelude
begin

text \<open>
  The TCP server (\<open>src/network/ClientConnection.cpp\<close>, \<open>ConnectionManager.cpp\<close>, \<open>Server.cpp\<close>):
  connections with a queue of messages to send and an incremental parser of requests, and the
  handlers that Boost's event loop calls when a socket operation is done. The request handler is
  a parameter, as it is an interface in the code (\<open>RequestHandler.h\<close>).
\<close>

section \<open>State\<close>

text \<open>A message that was given to \<open>send\<close>: the reply to a request, or an event for every client.\<close>

datatype outgoing = Reply (out_bytes: "byte list") | Event (out_bytes: "byte list")

text \<open>
  A connection. The members of the code are \<open>sock_open\<close> to \<open>m_msgbuffer_out_offset\<close>; the
  unpacker is the bytes of the message it has not finished. The operations Boost has under way
  for it: \<open>posted\<close> calls of \<open>do_write\<close>, the buffers of the \<open>writes\<close>, and the number of \<open>reads\<close>.
  The last fields are history: the bytes put on the wire, all messages given to \<open>send\<close>, the bytes
  received, the requests with their replies, and how many events had been sent before it connected.
\<close>

record 'o connection =
  sock_open :: bool
  m_msgbuffer_in :: "byte list"
  m_msgbuffer_out :: "byte list list"
  m_msgbuffer_out_offset :: nat
  posted :: nat
  writes :: "byte list list"
  reads :: nat
  wire :: "byte list"
  outgoings :: "outgoing list"
  received :: "byte list"
  requests :: "('o \<times> byte list) list"
  joined :: nat

text \<open>
  The server. Connections are objects by reference; \<open>app\<close> is the state of the request handler,
  \<open>accepts\<close> the number of \<open>async_accept\<close> under way, \<open>events\<close> the history of the events sent.
\<close>

record ('s, 'o) net =
  app :: 's
  conns :: "nat \<Rightarrow> 'o connection"
  next_conn :: nat
  m_connections :: "nat set"
  acceptor_open :: bool
  accepts :: nat
  events :: "byte list list"

text \<open>
  msgpack's parser: what the bytes begin with, where \<open>Parsed q n\<close> is a message of \<open>n + 1\<close> bytes.
  The request handler: outcome, reply, the events it causes and the state after it.
\<close>

datatype 'o parsed = Parsed 'o nat | Incomplete | Malformed

type_synonym 'o parser = "byte list \<Rightarrow> 'o parsed"

type_synonym ('s, 'o) handler = "'o \<Rightarrow> 's \<Rightarrow> unit outcome \<times> byte list \<times> byte list list \<times> 's"

definition CONTROL_MSG_MAX_BYTES :: nat where
  "CONTROL_MSG_MAX_BYTES = 10 * 1024 * 1024"

section \<open>A connection\<close>

definition new_connection :: "nat \<Rightarrow> 'o connection" where
  "new_connection n =
     \<lparr>sock_open = True, m_msgbuffer_in = [], m_msgbuffer_out = [], m_msgbuffer_out_offset = 0, posted = 0,
      writes = [], reads = 0, wire = [], outgoings = [], received = [], requests = [], joined = n\<rparr>"

definition do_read :: "'o connection \<Rightarrow> 'o connection" where
  "do_read c = c\<lparr>reads := reads c + 1\<rparr>"

definition do_write :: "'o connection \<Rightarrow> 'o connection" where
  "do_write c =
     (if m_msgbuffer_out c = [] then c
      else c\<lparr>writes := writes c @ [drop (m_msgbuffer_out_offset c) (hd (m_msgbuffer_out c))]\<rparr>)"

definition send :: "outgoing \<Rightarrow> 'o connection \<Rightarrow> 'o connection" where
  "send m c =
     (let c1 = (if m_msgbuffer_out c = [] then c\<lparr>posted := posted c + 1\<rparr> else c) in
      c1\<lparr>m_msgbuffer_out := m_msgbuffer_out c1 @ [out_bytes m], outgoings := outgoings c1 @ [m]\<rparr>)"

text \<open>\<open>ok\<close>: whether \<open>shutdown\<close> succeeds; when it throws, the socket is not closed.\<close>

definition conn_stop :: "bool \<Rightarrow> 'o connection \<Rightarrow> 'o connection" where
  "conn_stop ok c = (if sock_open c \<and> ok then c\<lparr>sock_open := False\<rparr> else c)"

text \<open>
  The handler of a write that transferred \<open>n\<close> bytes; it reads the front of the queue, which
  is undefined when that is empty.
\<close>

definition write_done :: "nat \<Rightarrow> 'o connection \<Rightarrow> unit outcome \<times> 'o connection" where
  "write_done n c =
     (case m_msgbuffer_out c of
        [] \<Rightarrow> (Crashes, c)
      | packet # rest \<Rightarrow>
          (let off = m_msgbuffer_out_offset c + n in
           if off \<noteq> length packet then (Ret (), do_write (c\<lparr>m_msgbuffer_out_offset := off\<rparr>))
           else
             (let c1 = c\<lparr>m_msgbuffer_out := rest, m_msgbuffer_out_offset := 0\<rparr> in
              (Ret (), if rest \<noteq> [] then do_write c1 else c1))))"

section \<open>The connections of the server\<close>

definition on_conn :: "nat \<Rightarrow> ('o connection \<Rightarrow> 'o connection) \<Rightarrow> ('s, 'o) net \<Rightarrow> ('s, 'o) net" where
  "on_conn k f s = s\<lparr>conns := (conns s)(k := f (conns s k))\<rparr>"

definition manager_start :: "nat \<Rightarrow> ('s, 'o) net \<Rightarrow> ('s, 'o) net" where
  "manager_start k s = on_conn k do_read (s\<lparr>m_connections := insert k (m_connections s)\<rparr>)"

definition manager_stop :: "bool \<Rightarrow> nat \<Rightarrow> ('s, 'o) net \<Rightarrow> ('s, 'o) net" where
  "manager_stop ok k s = on_conn k (conn_stop ok) (s\<lparr>m_connections := m_connections s - {k}\<rparr>)"

definition stopAll :: "(nat \<Rightarrow> bool) \<Rightarrow> ('s, 'o) net \<Rightarrow> ('s, 'o) net" where
  "stopAll ok s =
     s\<lparr>conns := (\<lambda>k. if k \<in> m_connections s then conn_stop (ok k) (conns s k) else conns s k), m_connections := {}\<rparr>"

definition sendAll :: "byte list \<Rightarrow> ('s, 'o) net \<Rightarrow> ('s, 'o) net" where
  "sendAll b s =
     s\<lparr>conns := (\<lambda>k. if k \<in> m_connections s then send (Event b) (conns s k) else conns s k), events := events s @ [b]\<rparr>"

definition numConnections :: "('s, 'o) net \<Rightarrow> nat" where
  "numConnections s = card (m_connections s)"

section \<open>Reading requests\<close>

text \<open>One message: the handler runs, the events it causes are sent, then its reply.\<close>

definition handle_message :: "('s, 'o) handler \<Rightarrow> nat \<Rightarrow> 'o \<Rightarrow> ('s, 'o) net \<Rightarrow> unit outcome \<times> ('s, 'o) net" where
  "handle_message H k q s =
     (case H q (app s) of
        (r, rep, evs, a) \<Rightarrow>
          (let s1 = fold sendAll evs (s\<lparr>app := a\<rparr>) in
           case r of
             Ret _ \<Rightarrow> (Ret (), on_conn k (\<lambda>c. send (Reply rep) (c\<lparr>requests := requests c @ [(q, rep)]\<rparr>)) s1)
           | _ \<Rightarrow> (r, s1)))"

text \<open>The loop over the messages in the buffer, which throws at a malformed one; what is left of the buffer.\<close>

function message_loop ::
  "'o parser \<Rightarrow> ('s, 'o) handler \<Rightarrow> nat \<Rightarrow> byte list \<Rightarrow> ('s, 'o) net \<Rightarrow> unit outcome \<times> byte list \<times> ('s, 'o) net" where
  "message_loop P H k b s =
     (case (if b = [] then Incomplete else P b) of
        Incomplete \<Rightarrow> (Ret (), b, s)
      | Malformed \<Rightarrow> (Throws ''parse error'', b, s)
      | Parsed q n \<Rightarrow>
          (case handle_message H k q s of
             (Ret _, s') \<Rightarrow> message_loop P H k (drop (Suc n) b) s'
           | (r, s') \<Rightarrow> (r, drop (Suc n) b, s')))"
  by pat_completeness auto
termination
  by (relation "measure (\<lambda>(P, H, k, b, s). length b)") (auto split: if_splits)

declare message_loop.simps [simp del]

text \<open>The handler of a read that brought the bytes \<open>d\<close>.\<close>

definition read_done ::
  "'o parser \<Rightarrow> ('s, 'o) handler \<Rightarrow> bool \<Rightarrow> nat \<Rightarrow> byte list \<Rightarrow> ('s, 'o) net \<Rightarrow> unit outcome \<times> ('s, 'o) net" where
  "read_done P H ok k d s =
     (let s0 = on_conn k (\<lambda>c. c\<lparr>received := received c @ d\<rparr>) s in
      case message_loop P H k (m_msgbuffer_in (conns s0 k) @ d) s0 of
        (r, b, s1) \<Rightarrow>
          (let s2 = on_conn k (\<lambda>c. c\<lparr>m_msgbuffer_in := b\<rparr>) s1 in
           case r of
             Ret _ \<Rightarrow> (Ret (), if length b > CONTROL_MSG_MAX_BYTES then manager_stop ok k s2 else on_conn k do_read s2)
           | Throws _ \<Rightarrow> (Ret (), manager_stop ok k s2)
           | _ \<Rightarrow> (r, s2)))"

section \<open>The server\<close>

definition do_accept :: "('s, 'o) net \<Rightarrow> ('s, 'o) net" where
  "do_accept s = s\<lparr>accepts := accepts s + 1\<rparr>"

definition new_server :: "'s \<Rightarrow> ('s, 'o) net" where
  "new_server a =
     do_accept \<lparr>app = a, conns = (\<lambda>_. new_connection 0), next_conn = 0, m_connections = {}, acceptor_open = True, accepts = 0, events = []\<rparr>"

text \<open>Objects not yet made are shown as blank connections. The handler of an accept; \<open>ok\<close>: it succeeded, and \<open>m_socket\<close> is moved to a new connection.\<close>

definition accept_done :: "bool \<Rightarrow> ('s, 'o) net \<Rightarrow> ('s, 'o) net" where
  "accept_done ok s =
     (if \<not> acceptor_open s then s
      else
        do_accept
          (if ok then
             manager_start (next_conn s)
               (s\<lparr>conns := (conns s)(next_conn s := new_connection (length (events s))), next_conn := next_conn s + 1\<rparr>)
           else s))"

definition server_stop :: "(nat \<Rightarrow> bool) \<Rightarrow> ('s, 'o) net \<Rightarrow> ('s, 'o) net" where
  "server_stop ok s = stopAll ok (s\<lparr>acceptor_open := False\<rparr>)"

section \<open>The event loop\<close>

text \<open>
  One handler at a time: an operation under way is done and its handler runs, or a handler of
  the application, which changes its state and sends events. A write transfers part of its
  buffer, at least one byte unless that is empty; an operation is aborted only when its socket is
  closed. A handler that crashes ends the server. \<open>remove_nth\<close> takes a finished write out of the list.
\<close>

definition remove_nth :: "nat \<Rightarrow> 'a list \<Rightarrow> 'a list" where
  "remove_nth i xs = take i xs @ drop (Suc i) xs"

inductive net_step ::
  "'o parser \<Rightarrow> ('s, 'o) handler \<Rightarrow> ('s \<Rightarrow> byte list list \<Rightarrow> 's \<Rightarrow> bool) \<Rightarrow> ('s, 'o) net \<Rightarrow> ('s, 'o) net \<Rightarrow> bool"
  for P H R where
  accepted: "accepts s > 0 \<Longrightarrow> net_step P H R s (accept_done ok (s\<lparr>accepts := accepts s - 1\<rparr>))"
| posted_write: "posted (conns s k) > 0 \<Longrightarrow>
    net_step P H R s (on_conn k (\<lambda>c. do_write (c\<lparr>posted := posted c - 1\<rparr>)) s)"
| wrote: "i < length (writes (conns s k)) \<Longrightarrow> n \<le> length (writes (conns s k) ! i) \<Longrightarrow>
    0 < n \<or> writes (conns s k) ! i = [] \<Longrightarrow>
    write_done n ((conns s k)\<lparr>writes := remove_nth i (writes (conns s k)),
       wire := wire (conns s k) @ take n (writes (conns s k) ! i)\<rparr>) = (Ret (), c) \<Longrightarrow>
    net_step P H R s (on_conn k (\<lambda>_. c) s)"
| write_failed: "i < length (writes (conns s k)) \<Longrightarrow>
    net_step P H R s (manager_stop ok k (on_conn k (\<lambda>c. c\<lparr>writes := remove_nth i (writes c)\<rparr>) s))"
| write_aborted: "i < length (writes (conns s k)) \<Longrightarrow> \<not> sock_open (conns s k) \<Longrightarrow>
    net_step P H R s (on_conn k (\<lambda>c. c\<lparr>writes := remove_nth i (writes c)\<rparr>) s)"
| read: "reads (conns s k) > 0 \<Longrightarrow>
    read_done P H ok k d (on_conn k (\<lambda>c. c\<lparr>reads := reads c - 1\<rparr>) s) = (Ret (), s') \<Longrightarrow> net_step P H R s s'"
| read_failed: "reads (conns s k) > 0 \<Longrightarrow>
    net_step P H R s (manager_stop ok k (on_conn k (\<lambda>c. c\<lparr>reads := reads c - 1\<rparr>) s))"
| read_aborted: "reads (conns s k) > 0 \<Longrightarrow> \<not> sock_open (conns s k) \<Longrightarrow>
    net_step P H R s (on_conn k (\<lambda>c. c\<lparr>reads := reads c - 1\<rparr>) s)"
| application: "R (app s) evs a \<Longrightarrow> net_step P H R s (fold sendAll evs (s\<lparr>app := a\<rparr>))"
| stopped: "net_step P H R s (server_stop okf s)"

end
