(* ===== verification/Network_Props.thy ===== *)
theory Network_Props
  imports Network
begin

text \<open>
  What the clients receive: the invariant of the event loop of \<open>Network\<close>, and the part of the
  server that relies on the contract of the request handler.
\<close>

section \<open>The messages in a stream\<close>

text \<open>What msgpack's parser finds in a stream of bytes, and what is left.\<close>

function messages :: "'o parser \<Rightarrow> byte list \<Rightarrow> 'o list \<times> byte list" where
  "messages P b =
     (case (if b = [] then Incomplete else P b) of
        Parsed q n \<Rightarrow> (case messages P (drop (Suc n) b) of (qs, r) \<Rightarrow> (q # qs, r))
      | _ \<Rightarrow> ([], b))"
  by pat_completeness auto
termination
  by (relation "measure (\<lambda>(P, b). length b)") (auto split: if_splits)

declare messages.simps [simp del]

text \<open>A message that is complete stays the same when more bytes arrive.\<close>

definition parser_ok :: "'o parser \<Rightarrow> bool" where
  "parser_ok P \<longleftrightarrow> (\<forall>b q n d. b \<noteq> [] \<longrightarrow> P b = Parsed q n \<longrightarrow> n < length b \<and> P (b @ d) = Parsed q n)"

lemma messages_Parsed: "b \<noteq> [] \<Longrightarrow> P b = Parsed q n \<Longrightarrow>
    messages P b = (q # fst (messages P (drop (Suc n) b)), snd (messages P (drop (Suc n) b)))"
  by (subst messages.simps) (simp split: prod.splits)

lemma messages_none: "(\<And>q n. b \<noteq> [] \<Longrightarrow> P b \<noteq> Parsed q n) \<Longrightarrow> messages P b = ([], b)"
  by (subst messages.simps) (auto split: parsed.splits)

lemma parser_okD:
  assumes "parser_ok P" and "b \<noteq> []" and "P b = Parsed q n"
  shows "n < length b" and "P (b @ d) = Parsed q n"
  using assms unfolding parser_ok_def by blast+

lemma messages_append:
  assumes "parser_ok P"
  shows "messages P (b @ d) =
    (fst (messages P b) @ fst (messages P (snd (messages P b) @ d)), snd (messages P (snd (messages P b) @ d)))"
  using assms
proof (induction P b rule: messages.induct)
  case (1 P b)
  show ?case
  proof (cases "\<exists>q n. b \<noteq> [] \<and> P b = Parsed q n")
    case True
    then obtain q n where p: "b \<noteq> []" "P b = Parsed q n" by blast
    note complete = parser_okD [OF "1.prems" p]
    have app: "messages P (b @ d) =
        (q # fst (messages P (drop (Suc n) b @ d)), snd (messages P (drop (Suc n) b @ d)))"
      using messages_Parsed [of "b @ d" P q n] p(1) complete(1) complete(2) [of d] by simp
    have "messages P (drop (Suc n) b @ d) =
       (fst (messages P (drop (Suc n) b)) @ fst (messages P (snd (messages P (drop (Suc n) b)) @ d)),
        snd (messages P (snd (messages P (drop (Suc n) b)) @ d)))"
      using "1.IH" [of q n] "1.prems" p by simp
    then show ?thesis by (simp add: app messages_Parsed [of b P q n] p)
  next
    case False
    then have "messages P b = ([], b)" by (intro messages_none) auto
    then show ?thesis by simp
  qed
qed

lemma messages_rest: "messages P (snd (messages P b)) = ([], snd (messages P b))"
proof (induction P b rule: messages.induct)
  case (1 P b)
  show ?case
  proof (cases "\<exists>q n. b \<noteq> [] \<and> P b = Parsed q n")
    case True
    then obtain q n where p: "b \<noteq> []" "P b = Parsed q n" by blast
    then show ?thesis using 1 [of q n] by (simp add: messages_Parsed)
  next
    case False
    then have "messages P b = ([], b)" by (intro messages_none) auto
    then show ?thesis by simp
  qed
qed

section \<open>The invariant\<close>

fun replies :: "outgoing list \<Rightarrow> byte list list" where
  "replies [] = []"
| "replies (Reply b # ms) = b # replies ms"
| "replies (Event b # ms) = replies ms"

fun broadcasts :: "outgoing list \<Rightarrow> byte list list" where
  "broadcasts [] = []"
| "broadcasts (Reply b # ms) = broadcasts ms"
| "broadcasts (Event b # ms) = b # broadcasts ms"

lemma outgoing_append [simp]:
  "replies (ms @ ms') = replies ms @ replies ms'" "broadcasts (ms @ ms') = broadcasts ms @ broadcasts ms'"
  by (induction ms rule: replies.induct) auto

text \<open>
  The queue of a connection: what is on the wire and what waits make up all messages sent, and
  there is never more than one write, of the rest of the first message.
\<close>

definition queue_inv :: "'o connection \<Rightarrow> bool" where
  "queue_inv c \<longleftrightarrow>
     wire c @ drop (m_msgbuffer_out_offset c) (concat (m_msgbuffer_out c)) = concat (map out_bytes (outgoings c)) \<and>
     (m_msgbuffer_out c = [] \<longrightarrow> m_msgbuffer_out_offset c = 0 \<and> posted c = 0 \<and> writes c = []) \<and>
     (m_msgbuffer_out c \<noteq> [] \<longrightarrow> m_msgbuffer_out_offset c \<le> length (hd (m_msgbuffer_out c))) \<and>
     (writes c = [] \<or> writes c = [drop (m_msgbuffer_out_offset c) (hd (m_msgbuffer_out c))]) \<and>
     posted c + length (writes c) \<le> 1 \<and> reads c \<le> 1"

text \<open>A connection that has not been stopped; \<open>resting\<close>: and is not in the handler of a read.\<close>

definition active :: "byte list list \<Rightarrow> 'o connection \<Rightarrow> bool" where
  "active evs c \<longleftrightarrow>
     sock_open c \<and> (m_msgbuffer_out c \<noteq> [] \<longrightarrow> posted c + length (writes c) = 1) \<and>
     map snd (requests c) = replies (outgoings c) \<and> joined c \<le> length evs \<and> broadcasts (outgoings c) = drop (joined c) evs"

definition resting :: "'o parser \<Rightarrow> 'o connection \<Rightarrow> bool" where
  "resting P c \<longleftrightarrow> reads c = 1 \<and> messages P (received c) = (map fst (requests c), m_msgbuffer_in c)"

definition net_inv :: "'o parser \<Rightarrow> nat set \<Rightarrow> ('s, 'o) net \<Rightarrow> bool" where
  "net_inv P D s \<longleftrightarrow>
     (\<forall>k. queue_inv (conns s k)) \<and> (\<forall>k\<in>m_connections s. active (events s) (conns s k)) \<and>
     (\<forall>k\<in>m_connections s - D. resting P (conns s k)) \<and> (\<forall>k\<in>m_connections s. k < next_conn s)"

lemma net_invI:
  assumes "\<And>k. queue_inv (conns s k)" and "\<And>k. k \<in> m_connections s \<Longrightarrow> active (events s) (conns s k)"
    and "\<And>k. k \<in> m_connections s \<Longrightarrow> k \<notin> D \<Longrightarrow> resting P (conns s k)"
    and "\<And>k. k \<in> m_connections s \<Longrightarrow> k < next_conn s"
  shows "net_inv P D s"
  using assms by (auto simp: net_inv_def)

lemma net_invD:
  assumes "net_inv P D s"
  shows "queue_inv (conns s k)" and "k \<in> m_connections s \<Longrightarrow> active (events s) (conns s k)"
    and "k \<in> m_connections s \<Longrightarrow> k \<notin> D \<Longrightarrow> resting P (conns s k)" and "k \<in> m_connections s \<Longrightarrow> k < next_conn s"
  using assms by (auto simp: net_inv_def)

section \<open>Operations on a connection\<close>

lemma send_fields [simp]:
  "sock_open (send m c) = sock_open c" "m_msgbuffer_in (send m c) = m_msgbuffer_in c" "reads (send m c) = reads c"
  "received (send m c) = received c" "requests (send m c) = requests c" "joined (send m c) = joined c"
  "outgoings (send m c) = outgoings c @ [m]" "wire (send m c) = wire c" "m_msgbuffer_out (send m c) = m_msgbuffer_out c @ [out_bytes m]"
  "m_msgbuffer_out_offset (send m c) = m_msgbuffer_out_offset c" "writes (send m c) = writes c"
  "posted (send m c) = (if m_msgbuffer_out c = [] then posted c + 1 else posted c)"
  by (simp_all add: send_def Let_def)

lemma do_read_fields [simp]:
  "sock_open (do_read c) = sock_open c" "m_msgbuffer_in (do_read c) = m_msgbuffer_in c" "reads (do_read c) = reads c + 1"
  "received (do_read c) = received c" "requests (do_read c) = requests c" "joined (do_read c) = joined c"
  "outgoings (do_read c) = outgoings c" "wire (do_read c) = wire c" "m_msgbuffer_out (do_read c) = m_msgbuffer_out c"
  "m_msgbuffer_out_offset (do_read c) = m_msgbuffer_out_offset c" "writes (do_read c) = writes c" "posted (do_read c) = posted c"
  by (simp_all add: do_read_def)

lemma queue_send:
  assumes "queue_inv c"
  shows "queue_inv (send m c)"
proof -
  have "drop (m_msgbuffer_out_offset c) (concat (m_msgbuffer_out c) @ out_bytes m) =
      drop (m_msgbuffer_out_offset c) (concat (m_msgbuffer_out c)) @ out_bytes m"
    using assms by (cases "m_msgbuffer_out c") (auto simp: queue_inv_def)
  moreover have "hd (m_msgbuffer_out c @ [out_bytes m]) = hd (m_msgbuffer_out c)" if "m_msgbuffer_out c \<noteq> []"
    using that by simp
  ultimately show ?thesis using assms by (auto simp: queue_inv_def simp flip: append_assoc)
qed

lemma queue_updates [simp]:
  "queue_inv (c\<lparr>requests := x\<rparr>) = queue_inv c" "queue_inv (c\<lparr>received := y\<rparr>) = queue_inv c"
  "queue_inv (c\<lparr>m_msgbuffer_in := z\<rparr>) = queue_inv c" "queue_inv (conn_stop ok c) = queue_inv c"
  by (simp_all add: queue_inv_def conn_stop_def)

lemma queue_reads: "queue_inv c \<Longrightarrow> queue_inv (c\<lparr>reads := reads c - 1\<rparr>)"
  "queue_inv c \<Longrightarrow> reads c = 0 \<Longrightarrow> queue_inv (do_read c)"
  by (auto simp: queue_inv_def)

lemma queue_posted:
  assumes "queue_inv c" and "posted c > 0"
  shows "queue_inv (do_write (c\<lparr>posted := posted c - 1\<rparr>))"
  using assms by (auto simp: queue_inv_def do_write_def)

lemma queue_remove: "queue_inv c \<Longrightarrow> i < length (writes c) \<Longrightarrow> queue_inv (c\<lparr>writes := remove_nth i (writes c)\<rparr>)"
  by (auto simp: queue_inv_def remove_nth_def)

text \<open>A write that is done: its bytes are on the wire, and the next one is started when something waits.\<close>

lemma queue_wrote:
  assumes c: "queue_inv c" and i: "i < length (writes c)" and n: "n \<le> length (writes c ! i)"
  obtains c' where "write_done n (c\<lparr>writes := remove_nth i (writes c), wire := wire c @ take n (writes c ! i)\<rparr>) = (Ret (), c')"
    "queue_inv c'" "m_msgbuffer_out c' \<noteq> [] \<Longrightarrow> posted c' + length (writes c') = 1"
    "sock_open c' = sock_open c" "reads c' = reads c" "received c' = received c" "requests c' = requests c" "joined c' = joined c"
    "outgoings c' = outgoings c" "m_msgbuffer_in c' = m_msgbuffer_in c"
proof -
  obtain packet rest where out: "m_msgbuffer_out c = packet # rest"
    using c i by (cases "m_msgbuffer_out c") (auto simp: queue_inv_def)
  let ?off = "m_msgbuffer_out_offset c"
  have w: "writes c = [drop ?off packet]" "i = 0" and p: "posted c = 0" and off: "?off \<le> length packet"
    using c i by (auto simp: queue_inv_def out)
  have n': "?off + n \<le> length packet" using n off by (simp add: w)
  have bytes: "take n (drop ?off packet) @ drop (?off + n) packet = drop ?off packet" by (metis append_take_drop_id drop_drop add.commute)
  have all: "wire c @ drop ?off packet @ concat rest = concat (map out_bytes (outgoings c))"
    using c off by (simp add: queue_inv_def out)
  have rest_sent: "wire c @ take n (drop ?off packet) @ drop (?off + n) packet @ concat rest = concat (map out_bytes (outgoings c))"
    using all bytes by (metis append_assoc)
  have one: "remove_nth i (writes c) = []" "writes c ! i = drop ?off packet" by (simp_all add: w remove_nth_def)
  show ?thesis
  proof (cases "?off + n = length packet")
    case False
    then have "write_done n (c\<lparr>writes := [], wire := wire c @ take n (drop ?off packet)\<rparr>) =
        (Ret (), c\<lparr>writes := [drop (?off + n) packet], wire := wire c @ take n (drop ?off packet), m_msgbuffer_out_offset := ?off + n\<rparr>)"
      by (simp add: write_done_def out Let_def do_write_def)
    then show ?thesis
      by (rule that [unfolded one]) (use n' rest_sent p c in \<open>auto simp: queue_inv_def out\<close>)
  next
    case True
    let ?c1 = "c\<lparr>writes := (if rest = [] then [] else [hd rest]), wire := wire c @ drop ?off packet,
      m_msgbuffer_out := rest, m_msgbuffer_out_offset := 0\<rparr>"
    have all_sent: "take n (drop ?off packet) = drop ?off packet" using True by simp
    have "write_done n (c\<lparr>writes := [], wire := wire c @ drop ?off packet\<rparr>) = (Ret (), ?c1)"
      using True by (simp add: write_done_def out Let_def do_write_def)
    then show ?thesis
      by (rule that [unfolded one all_sent]) (use all p c in \<open>auto simp: queue_inv_def out\<close>)
  qed
qed

section \<open>Operations on the connections\<close>

lemma on_conn_fields [simp]:
  "app (on_conn k f s) = app s" "conns (on_conn k f s) j = (if j = k then f (conns s k) else conns s j)"
  "next_conn (on_conn k f s) = next_conn s" "m_connections (on_conn k f s) = m_connections s"
  "acceptor_open (on_conn k f s) = acceptor_open s" "accepts (on_conn k f s) = accepts s" "events (on_conn k f s) = events s"
  by (simp_all add: on_conn_def)

lemma active_send: "queue_inv c \<Longrightarrow> active evs c \<Longrightarrow> active (evs @ [b]) (send (Event b) c)"
  by (auto simp: active_def queue_inv_def)

lemma active_reply: "queue_inv c \<Longrightarrow> active evs c \<Longrightarrow> active evs (send (Reply b) (c\<lparr>requests := requests c @ [(q, b)]\<rparr>))"
  by (auto simp: active_def queue_inv_def)

lemma active_updates [simp]:
  "active evs (c\<lparr>received := y\<rparr>) = active evs c" "active evs (c\<lparr>m_msgbuffer_in := z\<rparr>) = active evs c"
  "active evs (do_read c) = active evs c" "active evs (c\<lparr>reads := i\<rparr>) = active evs c"
  by (simp_all add: active_def)

lemma resting_send [simp]: "resting P (send m c) = resting P c"
  by (simp add: resting_def)

lemma sendAll_inv:
  assumes "net_inv P D s"
  shows "net_inv P D (sendAll b s)"
  by (rule net_invI) (use net_invD [OF assms] in \<open>auto simp: sendAll_def intro: queue_send active_send\<close>)

lemma sendAll_fields [simp]:
  "app (sendAll b s) = app s" "m_connections (sendAll b s) = m_connections s" "next_conn (sendAll b s) = next_conn s"
  "events (sendAll b s) = events s @ [b]" "reads (conns (sendAll b s) k) = reads (conns s k)"
  "received (conns (sendAll b s) k) = received (conns s k)" "requests (conns (sendAll b s) k) = requests (conns s k)"
  "m_msgbuffer_in (conns (sendAll b s) k) = m_msgbuffer_in (conns s k)"
  by (simp_all add: sendAll_def)

lemma sendAlls_inv: "net_inv P D s \<Longrightarrow> net_inv P D (fold sendAll evs s)"
  by (induction evs arbitrary: s) (auto intro: sendAll_inv)

lemma sendAlls_fields [simp]:
  "app (fold sendAll evs s) = app s" "m_connections (fold sendAll evs s) = m_connections s"
  "next_conn (fold sendAll evs s) = next_conn s" "events (fold sendAll evs s) = events s @ evs"
  "reads (conns (fold sendAll evs s) k) = reads (conns s k)" "received (conns (fold sendAll evs s) k) = received (conns s k)"
  "requests (conns (fold sendAll evs s) k) = requests (conns s k)"
  "m_msgbuffer_in (conns (fold sendAll evs s) k) = m_msgbuffer_in (conns s k)"
  by (induction evs arbitrary: s) simp_all

lemma app_inv [simp]: "net_inv P D (s\<lparr>app := a\<rparr>) = net_inv P D s"
  by (simp add: net_inv_def)

lemma manager_stop_inv:
  assumes "net_inv P (insert k D) s"
  shows "net_inv P D (manager_stop ok k s)"
  by (rule net_invI) (use net_invD [OF assms] in \<open>auto simp: manager_stop_def\<close>)

lemma on_conn_inv:
  assumes "net_inv P D s" and "queue_inv (f (conns s k))"
    and "k \<in> m_connections s \<Longrightarrow> active (events s) (f (conns s k))"
    and "k \<in> m_connections s \<Longrightarrow> k \<notin> D' \<Longrightarrow> resting P (f (conns s k))" and "D \<subseteq> insert k D'"
  shows "net_inv P D' (on_conn k f s)"
proof (rule net_invI)
  fix j
  assume j: "j \<in> m_connections (on_conn k f s)" "j \<notin> D'"
  show "resting P (conns (on_conn k f s) j)"
  proof (cases "j = k")
    case False
    then have "j \<notin> D" using j(2) assms(5) by blast
    then show ?thesis using net_invD(3) [OF assms(1)] j False by simp
  qed (use j assms(4) in simp)
qed (use net_invD [OF assms(1)] assms(2,3) in auto)

section \<open>The handler of a read\<close>

lemma handle_message_inv:
  assumes inv: "net_inv P {k} s" and run: "handle_message H k q s = (r, s')"
  shows "net_inv P {k} s' \<and> m_connections s' = m_connections s \<and> reads (conns s' k) = reads (conns s k) \<and>
    received (conns s' k) = received (conns s k) \<and>
    (\<forall>u. r = Ret u \<longrightarrow> map fst (requests (conns s' k)) = map fst (requests (conns s k)) @ [q])"
proof -
  obtain r1 rep evs a where h: "H q (app s) = (r1, rep, evs, a)" by (metis prod.exhaust)
  obtain s1 where s1: "s1 = fold sendAll evs (s\<lparr>app := a\<rparr>)" by simp
  have i: "net_inv P {k} s1" unfolding s1 using inv by (intro sendAlls_inv) simp
  have same: "m_connections s1 = m_connections s" "reads (conns s1 k) = reads (conns s k)"
      "received (conns s1 k) = received (conns s k)" "requests (conns s1 k) = requests (conns s k)"
    by (simp_all add: s1)
  show ?thesis
  proof (cases r1)
    case (Ret u)
    then have s': "r = Ret ()" "s' = on_conn k (\<lambda>c. send (Reply rep) (c\<lparr>requests := requests c @ [(q, rep)]\<rparr>)) s1"
      using run by (auto simp: handle_message_def h Let_def s1)
    have "net_inv P {k} s'"
      unfolding s'(2) by (rule on_conn_inv [OF i]) (use net_invD [OF i] in \<open>auto intro: queue_send active_reply\<close>)
    then show ?thesis by (simp add: s' same)
  qed (use run i same in \<open>auto simp: handle_message_def h Let_def simp flip: s1\<close>)
qed

lemma message_loop_Parsed: "b \<noteq> [] \<Longrightarrow> P b = Parsed q n \<Longrightarrow>
    message_loop P H k b s = (case handle_message H k q s of
      (Ret u, s') \<Rightarrow> message_loop P H k (drop (Suc n) b) s' | (r, s') \<Rightarrow> (r, drop (Suc n) b, s'))"
  by (subst message_loop.simps) simp

lemma message_loop_inv:
  assumes "net_inv P {k} s" and "message_loop P H k b s = (r, b', s')"
    and "k \<in> m_connections s \<longrightarrow> messages P (received (conns s k)) = (map fst (requests (conns s k)) @ fst (messages P b), snd (messages P b))"
  shows "net_inv P {k} s' \<and> m_connections s' = m_connections s \<and> reads (conns s' k) = reads (conns s k) \<and>
    (\<forall>u. r = Ret u \<longrightarrow> k \<in> m_connections s \<longrightarrow> messages P (received (conns s' k)) = (map fst (requests (conns s' k)), b'))"
  using assms
proof (induction P H k b s arbitrary: r b' s' rule: message_loop.induct)
  case (1 P H k b s)
  show ?case
  proof (cases "\<exists>q n. b \<noteq> [] \<and> P b = Parsed q n")
    case True
    then obtain q n where p: "b \<noteq> []" "P b = Parsed q n" by blast
    obtain r1 s1 where 1: "handle_message H k q s = (r1, s1)" by (metis prod.exhaust)
    note m = handle_message_inv [OF "1.prems"(1) 1]
    show ?thesis
    proof (cases r1)
      case (Ret u)
      then have run: "message_loop P H k (drop (Suc n) b) s1 = (r, b', s')"
        using "1.prems"(2) p 1 by (simp add: message_loop_Parsed)
      have "k \<in> m_connections s1 \<longrightarrow> messages P (received (conns s1 k)) =
          (map fst (requests (conns s1 k)) @ fst (messages P (drop (Suc n) b)), snd (messages P (drop (Suc n) b)))"
        using m Ret "1.prems"(3) p by (simp add: messages_Parsed)
      from "1.IH" [OF _ 1 [symmetric] _ _ run this] m Ret p show ?thesis by simp
    qed (use "1.prems" p m 1 in \<open>auto simp: message_loop_Parsed\<close>)
  next
    case False
    then have "messages P b = ([], b)" by (intro messages_none) auto
    then show ?thesis
      using "1.prems" False by (subst (asm) message_loop.simps) (auto split: if_splits parsed.splits)
  qed
qed


lemma read_done_eq:
  assumes "message_loop P H k (m_msgbuffer_in (conns s k) @ d) (on_conn k (\<lambda>c. c\<lparr>received := received c @ d\<rparr>) s) = (r, b, s1)"
  shows "read_done P H ok k d s =
     (let s2 = on_conn k (\<lambda>c. c\<lparr>m_msgbuffer_in := b\<rparr>) s1 in
      case r of
        Ret u \<Rightarrow> (Ret (), if length b > CONTROL_MSG_MAX_BYTES then manager_stop ok k s2 else on_conn k do_read s2)
      | Throws e \<Rightarrow> (Ret (), manager_stop ok k s2) | _ \<Rightarrow> (r, s2))"
proof -
  have "m_msgbuffer_in (conns (on_conn k (\<lambda>c. c\<lparr>received := received c @ d\<rparr>) s) k) = m_msgbuffer_in (conns s k)" by simp
  then show ?thesis by (simp only: read_done_def assms Let_def prod.case)
qed

lemma read_done_inv:
  assumes ok: "parser_ok P" and inv: "net_inv P {k} s" and reads: "reads (conns s k) = 0"
    and rest: "k \<in> m_connections s \<Longrightarrow>
      messages P (received (conns s k)) = (map fst (requests (conns s k)), m_msgbuffer_in (conns s k))"
    and run: "read_done P H sd k d s = (Ret (), s')"
  shows "net_inv P {} s'"
proof -
  let ?s0 = "on_conn k (\<lambda>c. c\<lparr>received := received c @ d\<rparr>) s"
  obtain r b s1 where 1: "message_loop P H k (m_msgbuffer_in (conns s k) @ d) ?s0 = (r, b, s1)" by (rule prod_cases3)
  have i0: "net_inv P {k} ?s0" by (rule on_conn_inv [OF inv]) (use net_invD [OF inv] in auto)
  have "k \<in> m_connections ?s0 \<longrightarrow> messages P (received (conns ?s0 k)) =
      (map fst (requests (conns ?s0 k)) @ fst (messages P (m_msgbuffer_in (conns s k) @ d)),
       snd (messages P (m_msgbuffer_in (conns s k) @ d)))"
    using rest messages_append [OF ok, of "received (conns s k)" d] by simp
  note l = message_loop_inv [OF i0 1 this]
  obtain s2 where s2: "on_conn k (\<lambda>c. c\<lparr>m_msgbuffer_in := b\<rparr>) s1 = s2" by simp
  have i2: "net_inv P {k} s2" unfolding s2 [symmetric]
    by (rule on_conn_inv [of P "{k}"]) (use l net_invD [of P "{k}" s1] in auto)
  have in2: "m_connections s2 = m_connections s1" "m_msgbuffer_in (conns s2 k) = b" "reads (conns s2 k) = reads (conns s1 k)"
      "received (conns s2 k) = received (conns s1 k)" "requests (conns s2 k) = requests (conns s1 k)"
    by (simp_all flip: s2)
  have kept: "net_inv P {} (on_conn k do_read s2)" if "r = Ret u" for u
    by (rule on_conn_inv [OF i2])
      (use l net_invD(1,2) [OF i2, of k] reads that in \<open>auto intro: queue_reads simp: resting_def in2\<close>)
  have stopped: "net_inv P {} (manager_stop sd k s2)" by (rule manager_stop_inv) (use i2 in simp)
  have "read_done P H sd k d s =
     (case r of
        Ret u \<Rightarrow> (Ret (), if length b > CONTROL_MSG_MAX_BYTES then manager_stop sd k s2 else on_conn k do_read s2)
      | Throws e \<Rightarrow> (Ret (), manager_stop sd k s2) | _ \<Rightarrow> (r, s2))"
    by (simp only: read_done_eq [OF 1] Let_def s2)
  then have "(r = Ret () \<and> s' = on_conn k do_read s2) \<or> s' = manager_stop sd k s2"
    using run by (cases r) (simp_all split: if_splits)
  then show ?thesis using kept stopped by blast
qed

section \<open>The event loop\<close>

inductive net_reachable ::
  "'o parser \<Rightarrow> ('s, 'o) handler \<Rightarrow> ('s \<Rightarrow> byte list list \<Rightarrow> 's \<Rightarrow> bool) \<Rightarrow> ('s, 'o) net \<Rightarrow> ('s, 'o) net \<Rightarrow> bool" for P H R s0 where
  start: "net_reachable P H R s0 s0"
| step: "net_reachable P H R s0 s \<Longrightarrow> net_step P H R s s' \<Longrightarrow> net_reachable P H R s0 s'"

lemma idle_connection: "queue_inv (new_connection n)" "queue_inv (do_read (new_connection n))"
    "active evs (new_connection (length evs))" "resting P (do_read (new_connection n))"
  using messages_none [of "[]" P] by (simp_all add: queue_inv_def new_connection_def active_def resting_def)

lemma new_server_inv: "net_inv P {} (new_server a)"
  by (rule net_invI) (auto simp: new_server_def do_accept_def idle_connection)

lemma accept_inv:
  assumes "net_inv P {} s"
  shows "net_inv P {} (accept_done ok (s\<lparr>accepts := n\<rparr>))"
proof (rule net_invI)
  note i = net_invD [OF assms]
  let ?t = "accept_done ok (s\<lparr>accepts := n\<rparr>)"
  have conns: "conns ?t k = (if acceptor_open s \<and> ok \<and> k = next_conn s then do_read (new_connection (length (events s))) else conns s k)" for k
    by (simp add: accept_done_def do_accept_def manager_start_def)
  have fields: "m_connections ?t = (if acceptor_open s \<and> ok then insert (next_conn s) (m_connections s) else m_connections s)"
      "events ?t = events s" "next_conn s \<le> next_conn ?t" "acceptor_open s \<and> ok \<longrightarrow> next_conn ?t = next_conn s + 1"
    by (simp_all add: accept_done_def do_accept_def manager_start_def)
  fix k
  show "queue_inv (conns ?t k)" using i(1) by (simp add: conns idle_connection)
  assume k: "k \<in> m_connections ?t"
  show "active (events ?t) (conns ?t k)" using i(2) k by (auto simp: conns fields(1,2) idle_connection split: if_splits)
  show "resting P (conns ?t k)" using i(3) k by (auto simp: conns fields(1,2) idle_connection split: if_splits)
  show "k < next_conn ?t" using i(4) [of k] k fields by (auto split: if_splits)
qed

lemma wrote_inv:
  assumes inv: "net_inv P {} s" and i: "i < length (writes (conns s k))" and n: "n \<le> length (writes (conns s k) ! i)"
    and run: "write_done n ((conns s k)\<lparr>writes := remove_nth i (writes (conns s k)),
       wire := wire (conns s k) @ take n (writes (conns s k) ! i)\<rparr>) = (Ret (), c)"
  shows "net_inv P {} (on_conn k (\<lambda>_. c) s)"
proof (rule queue_wrote [OF net_invD(1) [OF inv] i n])
  fix c'
  assume "write_done n ((conns s k)\<lparr>writes := remove_nth i (writes (conns s k)),
       wire := wire (conns s k) @ take n (writes (conns s k) ! i)\<rparr>) = (Ret (), c')"
    and c': "queue_inv c'" "m_msgbuffer_out c' \<noteq> [] \<Longrightarrow> posted c' + length (writes c') = 1"
      "sock_open c' = sock_open (conns s k)" "reads c' = reads (conns s k)" "received c' = received (conns s k)"
      "requests c' = requests (conns s k)" "joined c' = joined (conns s k)" "outgoings c' = outgoings (conns s k)"
      "m_msgbuffer_in c' = m_msgbuffer_in (conns s k)"
  then have c: "c = c'" using run by simp
  show ?thesis
    unfolding c by (rule on_conn_inv [OF inv]) (use net_invD [OF inv, of k] c' in \<open>auto simp: active_def resting_def\<close>)
qed

lemma closed_inv:
  assumes inv: "net_inv P {} s" and closed: "\<not> sock_open (conns s k)" and q: "queue_inv (f (conns s k))"
  shows "net_inv P {} (on_conn k f s)"
proof -
  have "k \<notin> m_connections s" using net_invD(2) [OF inv, of k] closed by (auto simp: active_def)
  then show ?thesis by (intro on_conn_inv [OF inv]) (use q in auto)
qed

lemma failed_inv:
  assumes inv: "net_inv P {} s" and q: "queue_inv (f (conns s k))"
  shows "net_inv P {} (manager_stop ok k (on_conn k f s))"
  by (rule net_invI) (use net_invD [OF inv] q in \<open>auto simp: manager_stop_def\<close>)

lemma net_step_inv:
  assumes step: "net_step P H R s s'" and ok: "parser_ok P" and inv: "net_inv P {} s"
  shows "net_inv P {} s'"
  using step
proof cases
  case (accepted ok)
  then show ?thesis using accept_inv [OF inv] by simp
next
  case (posted_write k)
  have "net_inv P {} (on_conn k (\<lambda>c. do_write (c\<lparr>posted := posted c - 1\<rparr>)) s)"
    by (rule on_conn_inv [OF inv])
      (use net_invD [OF inv, of k] posted_write(2) in
        \<open>auto intro: queue_posted simp: do_write_def active_def resting_def queue_inv_def\<close>)
  then show ?thesis using posted_write by simp
next
  case (wrote i k n c)
  then show ?thesis using wrote_inv [OF inv] by simp
next
  case (write_failed i k ok)
  have "queue_inv ((conns s k)\<lparr>writes := remove_nth i (writes (conns s k))\<rparr>)"
    by (rule queue_remove [OF net_invD(1) [OF inv] write_failed(2)])
  then show ?thesis unfolding write_failed(1) by (rule failed_inv [OF inv])
next
  case (write_aborted i k)
  have "queue_inv ((conns s k)\<lparr>writes := remove_nth i (writes (conns s k))\<rparr>)"
    by (rule queue_remove [OF net_invD(1) [OF inv] write_aborted(2)])
  then show ?thesis unfolding write_aborted(1) by (rule closed_inv [OF inv write_aborted(3)])
next
  case (read k sd d)
  let ?s = "on_conn k (\<lambda>c. c\<lparr>reads := reads c - 1\<rparr>) s"
  have "net_inv P {k} ?s"
    by (rule on_conn_inv [OF inv]) (use net_invD(2) [OF inv, of k] queue_reads(1) [OF net_invD(1) [OF inv, of k]] in auto)
  moreover have "reads (conns ?s k) = 0" using net_invD(1) [OF inv, of k] by (simp add: queue_inv_def)
  ultimately show ?thesis
    by (rule read_done_inv [OF ok _ _ _ read(2)]) (use net_invD(3) [OF inv, of k] in \<open>simp add: resting_def\<close>)
next
  case (read_failed k ok)
  have "queue_inv ((conns s k)\<lparr>reads := reads (conns s k) - 1\<rparr>)" by (rule queue_reads(1) [OF net_invD(1) [OF inv]])
  then show ?thesis unfolding read_failed(1) by (rule failed_inv [OF inv])
next
  case (read_aborted k)
  have "queue_inv ((conns s k)\<lparr>reads := reads (conns s k) - 1\<rparr>)" by (rule queue_reads(1) [OF net_invD(1) [OF inv]])
  then show ?thesis unfolding read_aborted(1) by (rule closed_inv [OF inv read_aborted(3)])
next
  case (application evs a)
  then show ?thesis using sendAlls_inv [of P "{}" "s\<lparr>app := a\<rparr>"] inv by simp
next
  case (stopped okf)
  have "net_inv P {} (server_stop okf s)"
    by (rule net_invI) (use net_invD [OF inv] in \<open>auto simp: server_stop_def stopAll_def\<close>)
  then show ?thesis using stopped by simp
qed

lemma net_reachable_inv:
  assumes "net_reachable P H R (new_server a) s" and "parser_ok P"
  shows "net_inv P {} s"
  using assms by (induction rule: net_reachable.induct) (auto intro: new_server_inv net_step_inv)

text \<open>The handler of a write that is done finds its message in the queue.\<close>

lemma write_never_crashes:
  assumes "net_inv P {} s" and "i < length (writes (conns s k))" and "n \<le> length (writes (conns s k) ! i)"
  shows "fst (write_done n ((conns s k)\<lparr>writes := remove_nth i (writes (conns s k)),
       wire := wire (conns s k) @ take n (writes (conns s k) ! i)\<rparr>)) = Ret ()"
  by (rule queue_wrote [OF net_invD(1) [OF assms(1)] assms(2,3)]) simp

section \<open>The request handler\<close>

text \<open>
  What the server relies on: a request never ends in an exception, and requests and the other
  handlers of the application report every event they cause. \<open>log_of\<close> is what the application
  has reported in a state.
\<close>

locale request_handler =
  fixes H :: "('s, 'o) handler" and R :: "'s \<Rightarrow> byte list list \<Rightarrow> 's \<Rightarrow> bool" and log_of :: "'s \<Rightarrow> byte list list"
  assumes no_exception: "H q a = (r, rep, evs, a') \<Longrightarrow> r \<noteq> Throws e"
    and request_reports: "H q a = (r, rep, evs, a') \<Longrightarrow> log_of a' = log_of a @ evs"
    and other_reports: "R a evs a' \<Longrightarrow> log_of a' = log_of a @ evs"
begin

lemma message_log:
  assumes "handle_message H k q s = (r, s')" and "log_of (app s) = events s"
  shows "log_of (app s') = events s' \<and> r \<noteq> Throws e \<and> m_connections s' = m_connections s"
proof -
  obtain r1 rep evs a where h: "H q (app s) = (r1, rep, evs, a)" by (metis prod.exhaust)
  show ?thesis
    using assms request_reports [OF h] no_exception [OF h] by (cases r1) (auto simp: handle_message_def h Let_def)
qed

text \<open>The loop handles all requests in the buffer; it ends early only at a malformed one.\<close>

lemma loop_log:
  assumes "message_loop P H k b s = (r, b', s')" and "log_of (app s) = events s"
  shows "log_of (app s') = events s' \<and> m_connections s' = m_connections s \<and>
    (\<forall>u. r = Ret u \<longrightarrow> b' = snd (messages P b) \<and> (b' = [] \<or> P b' \<noteq> Malformed)) \<and>
    (\<forall>e. r = Throws e \<longrightarrow> b' = snd (messages P b) \<and> b' \<noteq> [] \<and> P b' = Malformed)"
  using assms
proof (induction b arbitrary: s rule: measure_induct_rule [where f = length])
  case (less b)
  show ?case
  proof (cases "\<exists>q n. b \<noteq> [] \<and> P b = Parsed q n")
    case True
    then obtain q n where p: "b \<noteq> []" "P b = Parsed q n" by blast
    obtain r1 s1 where 1: "handle_message H k q s = (r1, s1)" by (metis prod.exhaust)
    note m = message_log [OF 1 less.prems(2)]
    show ?thesis
    proof (cases r1)
      case (Ret u)
      have "message_loop P H k (drop (Suc n) b) s1 = (r, b', s')"
        using less.prems(1) p 1 Ret by (simp add: message_loop_Parsed)
      moreover have "messages P b = (q # fst (messages P (drop (Suc n) b)), snd (messages P (drop (Suc n) b)))"
        using p by (simp add: messages_Parsed)
      moreover have "length (drop (Suc n) b) < length b" using p(1) by (cases b) auto
      ultimately show ?thesis using less.IH [of "drop (Suc n) b" s1] m by auto
    qed (use less.prems p m 1 in \<open>auto simp: message_loop_Parsed\<close>)
  next
    case False
    then have "messages P b = ([], b)" by (intro messages_none) auto
    then show ?thesis
      using less.prems False by (subst (asm) message_loop.simps) (auto split: if_splits parsed.splits)
  qed
qed

lemma read_log:
  assumes "read_done P H sd k d s = (Ret (), s')" and "log_of (app s) = events s"
  shows "log_of (app s') = events s'"
proof -
  let ?s0 = "on_conn k (\<lambda>c. c\<lparr>received := received c @ d\<rparr>) s"
  obtain r b s1 where 1: "message_loop P H k (m_msgbuffer_in (conns s k) @ d) ?s0 = (r, b, s1)" by (rule prod_cases3)
  have log: "log_of (app s1) = events s1" using loop_log [OF 1] assms(2) by simp
  obtain s2 where s2: "on_conn k (\<lambda>c. c\<lparr>m_msgbuffer_in := b\<rparr>) s1 = s2" by simp
  have "s' = on_conn k do_read s2 \<or> s' = manager_stop sd k s2 \<or> s' = s2"
    using assms(1) unfolding read_done_eq [OF 1] Let_def s2 by (cases r) (simp_all split: if_splits)
  moreover have "log_of (app s2) = events s2" using log by (simp flip: s2)
  ultimately show ?thesis by (auto simp: manager_stop_def)
qed

text \<open>A read ends the connection only when what it brings is malformed or too long.\<close>

lemma read_keeps_connection:
  assumes run: "read_done P H sd k d s = (Ret (), s')" and "log_of (app s) = events s" and k: "k \<in> m_connections s"
    and b: "b = snd (messages P (m_msgbuffer_in (conns s k) @ d))"
  shows "k \<in> m_connections s' \<longleftrightarrow> (b = [] \<or> P b \<noteq> Malformed) \<and> length b \<le> CONTROL_MSG_MAX_BYTES"
proof -
  let ?s0 = "on_conn k (\<lambda>c. c\<lparr>received := received c @ d\<rparr>) s"
  obtain r b' s1 where 1: "message_loop P H k (m_msgbuffer_in (conns s k) @ d) ?s0 = (r, b', s1)" by (rule prod_cases3)
  note l = loop_log [OF 1]
  obtain s2 where s2: "on_conn k (\<lambda>c. c\<lparr>m_msgbuffer_in := b'\<rparr>) s1 = s2" by simp
  have "m_connections s2 = m_connections s" using l assms(2) by (simp flip: s2)
  then show ?thesis
    using run k l assms(2) unfolding read_done_eq [OF 1] Let_def s2 b
    by (cases r) (auto simp: manager_stop_def split: if_splits)
qed

lemma step_log: "net_step P H R s s' \<Longrightarrow> log_of (app s) = events s \<Longrightarrow> log_of (app s') = events s'"
proof (induction rule: net_step.cases)
  case (read s k sd d s')
  then show ?case using read_log by force
qed (auto simp: accept_done_def do_accept_def manager_start_def manager_stop_def server_stop_def stopAll_def dest: other_reports)

lemma reachable_log: "net_reachable P H R (new_server a) s \<Longrightarrow> log_of a = [] \<Longrightarrow> log_of (app s) = events s"
  by (induction rule: net_reachable.induct) (auto simp: new_server_def do_accept_def intro: step_log)

end

end
