(* ===== verification/Server_Net.thy ===== *)
theory Server_Net
  imports Rpc_Props Network_Props
begin

text \<open>
  The whole server: the request handler of the devices behind the TCP server, with the callbacks
  of the device manager that \<open>main\<close> sets, which send every notification to all clients
  (\<open>src/fpga-device-server.cpp\<close>).
\<close>

section \<open>Definitions\<close>

text \<open>The notifications of a step, as messages; \<open>enc\<close> is msgpack's encoding of what the packer was given.\<close>

definition new_events :: "(packed list \<Rightarrow> byte list) \<Rightarrow> 'w manager \<Rightarrow> 'w manager \<Rightarrow> byte list list" where
  "new_events enc s s' = map (\<lambda>n. enc (event_message n)) (drop (length (notices s)) (notices s'))"

definition rpc_handler ::
  "'o msgpack \<Rightarrow> 'w manager_env \<Rightarrow> (packed list \<Rightarrow> byte list) \<Rightarrow> ('w manager, 'o) handler" where
  "rpc_handler M E enc q s =
     (case handleRequest M E q \<lparr>m_manager = s, reply = []\<rparr> of
        (r, t) \<Rightarrow> (r, enc (reply t), new_events enc s (m_manager t), m_manager t))"

text \<open>The handlers that the hotplug callback posts, and the timer's.\<close>

inductive device_event ::
  "'w manager_env \<Rightarrow> (packed list \<Rightarrow> byte list) \<Rightarrow> 'w manager \<Rightarrow> byte list list \<Rightarrow> 'w manager \<Rightarrow> bool" for E enc s where
  plugged: "usbDeviceAdded E dev s = (Ret (), s') \<Longrightarrow> device_event E enc s (new_events enc s s') s'"
| unplugged: "usbDeviceRemoved E dev s = (Ret (), s') \<Longrightarrow> device_event E enc s (new_events enc s s') s'"
| polled: "periodicRegisterUpdates E s = (Ret (), s') \<Longrightarrow> device_event E enc s (new_events enc s s') s'"

section \<open>Notifications are never taken back\<close>

definition noted :: "notice list \<Rightarrow> 'w manager \<Rightarrow> bool" where
  "noted ns s \<longleftrightarrow> prefix ns (notices s)"

definition rpc_noted :: "notice list \<Rightarrow> 'w rpc_state \<Rightarrow> bool" where
  "rpc_noted ns s \<longleftrightarrow> noted ns (m_manager s)"

named_theorems keeps_noted

lemmas [keeps_noted] = preserves_bind preserves_then preserves_simps

lemma unseen_noted: "unseen m \<Longrightarrow> preserves (noted ns) m"
  unfolding preserves_def noted_def by (metis unseenD same_view_def)

lemma noted_device [keeps_noted]: "preserves (noted ns) (on_device ref m)"
  by (auto simp: preserves_def noted_def on_device_def split: prod.splits)

lemma noted_remove: "preserves (noted ns) (removeDevice E ser)"
  unfolding preserves_def
proof (intro allI impI)
  fix s r s'
  assume s: "noted ns s" and run: "removeDevice E ser s = (r, s')"
  show "noted ns s'"
  proof (cases "map_of (m_serial_map s) ser")
    case (Some ref)
    obtain s1 where s1: "close_device E ref s1 = (r, s')" "notices s1 = notices s \<or> notices s1 = notices s @ [Removed ser]"
      using run Some by (force simp: removeDevice_def Let_def notify_def)
    have "noted ns s1" using s s1(2) by (auto simp: noted_def)
    then show ?thesis using preservesD [OF unseen_noted [OF unseen_close] _ s1(1)] by blast
  qed (use s run in \<open>simp add: removeDevice_def\<close>)
qed

lemma noted_poll: "preserves (noted ns) (poll_device E ref)"
  unfolding preserves_def
proof (intro allI impI)
  fix s r s'
  assume s: "noted ns s" and run: "poll_device E ref s = (r, s')"
  obtain r1 s1 where 1: "on_device ref (updateTrackedRegs (me_usb E)) s = (r1, s1)" by (metis prod.exhaust)
  have "noted ns s1" by (rule preservesD [OF noted_device s 1])
  then show "noted ns s'"
    using run preservesD [OF noted_remove] by (cases r1) (auto simp: poll_device_def 1)
qed

lemma noted_periodic: "preserves (noted ns) (periodicRegisterUpdates E)"
proof -
  have "preserves (noted ns) (run_acts (map (\<lambda>(_, ref). poll_device E ref) m))" for m :: "(string \<times> nat) list"
    by (induction m) (auto intro!: preserves_then noted_poll)
  then show ?thesis unfolding preserves_def periodicRegisterUpdates_def by blast
qed

lemma noted_removed: "preserves (noted ns) (usbDeviceRemoved E dev)"
  unfolding preserves_def usbDeviceRemoved_def
  by (auto split: option.splits dest: preservesD [OF noted_remove, rotated])

lemma noted_new: "preserves (noted ns) (new_device E dev ser)"
  by (auto simp: preserves_def noted_def new_device_def Let_def split: prod.splits outcome.splits)

lemma noted_added: "preserves (noted ns) (usbDeviceAdded E dev)"
proof -
  have reg: "preserves (noted ns) (modify_act (\<lambda>s. let s1 = register_device dev ref s in
      watch_device desc ref (notify (added_cb s1) (Added (dev_name (objs s1 ref))) s1)))" for desc ref
    by (auto simp: preserves_def noted_def modify_act_def Let_def register_device_def watch_device_def notify_def)
  have at: "preserves P (\<lambda>s. if b s then (Ret (), s) else (case f s of None \<Rightarrow> (Ret (), s) | Some x \<Rightarrow> k x s))"
    if "\<And>x. preserves P (k x)" for P :: "'s \<Rightarrow> bool" and b f and k :: "'x \<Rightarrow> ('s, unit) act"
    using that by (auto simp: preserves_def split: option.splits if_splits)
  have "preserves (noted ns) (add_device E dev)"
    unfolding add_device_def
    by (intro preserves_bind unseen_noted [OF unseen_usb], clarsimp split: prod.splits)
      (intro at preserves_bind noted_new unseen_noted [OF unseen_on_throw [OF unseen_close unseen_reprogram]] reg)
  then show ?thesis
    unfolding preserves_def [of _ "usbDeviceAdded E dev"] usbDeviceAdded_def catching_def
    by (auto split: if_splits prod.splits outcome.splits dest: preservesD)
qed

lemma noted_pack [keeps_noted]: "preserves (rpc_noted ns) (pack ps)"
  by (auto simp: preserves_def pack_def modify_act_def rpc_noted_def)

lemma noted_replies [keeps_noted]:
  "preserves (rpc_noted ns) (RPC_REPLY_VALUE v)" "preserves (rpc_noted ns) (RPC_REPLY_BINARY b)"
  "preserves (rpc_noted ns) (RPC_REPLY_ERROR e)"
  by (simp_all add: RPC_REPLY_VALUE_def RPC_REPLY_BINARY_def RPC_REPLY_ERROR_def noted_pack)

lemmas [keeps_noted] = preserves_args preserves_bin

lemma noted_manager: "preserves (noted ns) m \<Longrightarrow> preserves (rpc_noted ns) (on_manager m)"
  unfolding preserves_def rpc_noted_def on_manager_def on_part_def by (auto split: prod.splits)

lemma noted_calls [keeps_noted]:
  "preserves (rpc_noted ns) (device_call ref m)" "preserves (rpc_noted ns) (on_manager (reprogramDevice E ref))"
  by (simp_all add: device_call_def noted_manager noted_device unseen_noted unseen_reprogram)

lemma noted_with_device [keeps_noted]:
  assumes "\<And>ref. preserves (rpc_noted ns) (k ref)"
  shows "preserves (rpc_noted ns) (with_device M args k)"
proof -
  have "preserves (rpc_noted ns) (\<lambda>s. case getDevice ser (m_manager s) of None \<Rightarrow> RPC_REPLY_ERROR ''Unknown device'' s | Some ref \<Rightarrow> k ref s)" for ser
    unfolding preserves_def
  proof (intro allI impI)
    fix s r s'
    assume s: "rpc_noted ns s" and run: "(case getDevice ser (m_manager s) of
        None \<Rightarrow> RPC_REPLY_ERROR ''Unknown device'' s | Some ref \<Rightarrow> k ref s) = (r, s')"
    show "rpc_noted ns s'"
      using run preservesD [where P = "rpc_noted ns", OF assms s] preservesD [where P = "rpc_noted ns", OF noted_replies(3) s]
      by (cases "getDevice ser (m_manager s)") auto
  qed
  then show ?thesis unfolding with_device_def by (intro preserves_bind preserves_args)
qed

lemma noted_request: "preserves (rpc_noted ns) (handleRequest M E q)"
proof -
  have d: "preserves (rpc_noted ns) (rpc_devicelist :: ('w rpc_state, unit) act)"
    using noted_replies(1) unfolding preserves_def rpc_devicelist_def by blast
  have f: "preserves (rpc_noted ns) (f args)" if "map_of (m_functions M E) cmd = Some f" for cmd f args
  proof -
    have "preserves (rpc_noted ns) (rpc_reprogram M E args)" "preserves (rpc_noted ns) (rpc_writereg M E args)"
        "preserves (rpc_noted ns) (rpc_readreg M E args)" "preserves (rpc_noted ns) (rpc_writeregn M E args)"
        "preserves (rpc_noted ns) (rpc_readregn M E args)" "preserves (rpc_noted ns) (rpc_writeraw M E args)"
        "preserves (rpc_noted ns) (rpc_readraw M E args)"
      unfolding rpc_reprogram_def rpc_writereg_def rpc_readreg_def rpc_writeregn_def rpc_readregn_def rpc_writeraw_def rpc_readraw_def
      by (intro keeps_noted)+
    then show ?thesis using that d by (auto simp: m_functions_def split: if_splits)
  qed
  show ?thesis
    unfolding preserves_def
  proof (intro allI impI)
    fix s r s'
    assume s: "rpc_noted ns s" and run: "handleRequest M E q s = (r, s')"
    have err: "rpc_noted ns t'" if "rpc_noted ns t" "RPC_REPLY_ERROR e t = (x, t')" for e t x t'
      by (rule preservesD [where P = "rpc_noted ns", OF noted_replies(3) that])
    show "rpc_noted ns s'"
    proof (cases "\<exists>args cmd f. as_array M q = Some args \<and> fst (arg_string M args 0 s) = Ret cmd \<and> map_of (m_functions M E) cmd = Some f")
      case False
      then show ?thesis using run err [OF s]
        by (auto simp: handleRequest_def split: option.splits prod.splits outcome.splits)
    next
      case True
      then obtain args cmd g where a: "as_array M q = Some args" "fst (arg_string M args 0 s) = Ret cmd"
          and g: "map_of (m_functions M E) cmd = Some g" by blast
      obtain r1 s1 where 1: "g args s = (r1, s1)" by (metis prod.exhaust)
      have "rpc_noted ns s1" by (rule preservesD [where P = "rpc_noted ns", OF f [OF g] s 1])
      then show ?thesis
        using run a g 1 err by (cases r1) (auto simp: handleRequest_def split: prod.splits)
    qed
  qed
qed

section \<open>The contract of the request handler\<close>

lemma new_events_append:
  assumes "noted (notices s) s'"
  shows "map (\<lambda>n. enc (event_message n)) (notices s') = map (\<lambda>n. enc (event_message n)) (notices s) @ new_events enc s s'"
  using assms by (auto simp: noted_def new_events_def prefix_def)

lemma request_no_exception: "handleRequest M E q s = (r, t) \<Longrightarrow> r \<noteq> Throws e"
  by (auto simp: handleRequest_def RPC_REPLY_ERROR_def pack_def modify_act_def
      split: option.splits prod.splits outcome.splits)

lemma rpc_handler_runs:
  assumes "rpc_handler M E enc q s = (r, rep, evs, s')"
  obtains t where "handleRequest M E q \<lparr>m_manager = s, reply = []\<rparr> = (r, t)" "rep = enc (reply t)" "m_manager t = s'"
    "evs = new_events enc s s'"
  using assms by (auto simp: rpc_handler_def split: prod.splits)

lemma device_event_noted: "device_event E enc s evs s' \<Longrightarrow> noted (notices s) s' \<and> evs = new_events enc s s'"
proof (induction rule: device_event.induct)
  case (plugged dev s')
  then show ?case using preservesD [OF noted_added _ plugged, of "notices s"] by (simp add: noted_def)
next
  case (unplugged dev s')
  then show ?case using preservesD [OF noted_removed _ unplugged, of "notices s"] by (simp add: noted_def)
next
  case (polled s')
  then show ?case using preservesD [OF noted_periodic _ polled, of "notices s"] by (simp add: noted_def)
qed

interpretation rpc: request_handler "rpc_handler M E enc" "device_event E enc" "\<lambda>s. map (\<lambda>n. enc (event_message n)) (notices s)"
  for M E enc
proof unfold_locales
  fix q a r rep evs a' e
  assume run: "rpc_handler M E enc q a = (r, rep, evs, a')"
  then obtain t where t: "handleRequest M E q \<lparr>m_manager = a, reply = []\<rparr> = (r, t)" "m_manager t = a'" "evs = new_events enc a a'"
    by (rule rpc_handler_runs)
  show "r \<noteq> Throws e" by (rule request_no_exception [OF t(1)])
  have "rpc_noted (notices a) t" by (rule preservesD [OF noted_request _ t(1)]) (simp add: rpc_noted_def noted_def)
  then have "noted (notices a) a'" by (simp add: rpc_noted_def t(2))
  then show "map (\<lambda>n. enc (event_message n)) (notices a') = map (\<lambda>n. enc (event_message n)) (notices a) @ evs"
    unfolding t(3) by (rule new_events_append)
next
  fix a evs a'
  assume "device_event E enc a evs a'"
  then show "map (\<lambda>n. enc (event_message n)) (notices a') = map (\<lambda>n. enc (event_message n)) (notices a) @ evs"
    using device_event_noted new_events_append by metis
qed

section \<open>Properties\<close>

text \<open>C39: Service. Take any state the whole server reaches, by any order of connections, requests, reads and
  writes in pieces, USB events, polls and failures, and a client it has not dropped. The bytes sent to
  this client and those in its queue are together all messages meant for it, in order; while
  something waits exactly one write is under way or scheduled, and one read always is, so nothing
  stalls. The requests handled are those in the bytes received, each answered once and in order;
  the other messages are the notifications since the client connected, all of them and in order.
  And a read makes the server drop the client only when its bytes are malformed or the unfinished
  message is longer than the limit, never because a request fails.\<close>

theorem clients_served:
  assumes "net_reachable P (rpc_handler M E enc) (device_event E enc) (new_server (server_start descs mem w)) s"
    and "parser_ok P" and "k \<in> m_connections s" and "c = conns s k"
  shows "concat (map out_bytes (outgoings c)) = wire c @ drop (m_msgbuffer_out_offset c) (concat (m_msgbuffer_out c)) \<and>
    posted c + length (writes c) = (if m_msgbuffer_out c = [] then 0 else 1) \<and> reads c = 1 \<and>
    messages P (received c) = (map fst (requests c), m_msgbuffer_in c) \<and> replies (outgoings c) = map snd (requests c) \<and>
    broadcasts (outgoings c) = drop (joined c) (map (\<lambda>n. enc (event_message n)) (notices (app s))) \<and>
    (\<forall>ok d s' b. read_done P (rpc_handler M E enc) ok k d (on_conn k (\<lambda>c. c\<lparr>reads := reads c - 1\<rparr>) s) = (Ret (), s') \<longrightarrow>
       b = snd (messages P (m_msgbuffer_in c @ d)) \<longrightarrow>
       (k \<in> m_connections s' \<longleftrightarrow> (b = [] \<or> P b \<noteq> Malformed) \<and> length b \<le> CONTROL_MSG_MAX_BYTES))"
proof -
  have inv: "net_inv P {} s" by (rule net_reachable_inv [OF assms(1,2)])
  have "notices (server_start descs mem w) = []"
    by (simp add: server_start_def setChangedCallback_def setRemovedCallback_def setAddedCallback_def new_manager_def)
  then have log: "map (\<lambda>n. enc (event_message n)) (notices (app s)) = events s"
    using rpc.reachable_log [OF assms(1)] by simp
  have "k \<in> m_connections s' \<longleftrightarrow> (b = [] \<or> P b \<noteq> Malformed) \<and> length b \<le> CONTROL_MSG_MAX_BYTES"
    if "read_done P (rpc_handler M E enc) ok k d (on_conn k (\<lambda>c. c\<lparr>reads := reads c - 1\<rparr>) s) = (Ret (), s')"
      and "b = snd (messages P (m_msgbuffer_in c @ d))" for ok d s' b
    using rpc.read_keeps_connection [OF that(1), of b] log assms(3,4) that(2) by simp
  moreover have "queue_inv c" "active (events s) c" "resting P c" using net_invD [OF inv] assms(3,4) by auto
  ultimately show ?thesis unfolding log by (auto simp: queue_inv_def active_def resting_def)
qed

text \<open>A client that connects before a board arrives; requests of one byte.\<close>

definition sample_parser :: "string parser" where
  "sample_parser b = Parsed [char_of (unat (hd b))] 0"

theorem clients_served_witness:
  "\<exists>s :: ((byte list list \<times> usb_event list) manager, string) net.
     reads (conns s 0) = 1 \<and> posted (conns s 0) = 1 \<and>
     broadcasts (outgoings (conns s 0)) = [[of_nat (length (event_message (Added [])))]]"
proof -
  let ?enc = "\<lambda>ps :: packed list. [of_nat (length ps)] :: byte list"
  let ?H = "rpc_handler sample_msgpack sample_manager_env ?enc" and ?R = "device_event sample_manager_env ?enc"
  have ok: "parser_ok sample_parser" by (simp add: parser_ok_def sample_parser_def)
  obtain a where a: "usbDeviceAdded sample_manager_env 5 sample_start = (Ret (), a)" "notices a = [Added []]"
    using sample_arrives by blast
  have none: "notices sample_start = []"
    by (simp add: sample_start_def server_start_def setChangedCallback_def setRemovedCallback_def setAddedCallback_def new_manager_def)
  define s0 :: "((byte list list \<times> usb_event list) manager, string) net" where "s0 = new_server sample_start"
  define s1 where "s1 = accept_done True (s0\<lparr>accepts := accepts s0 - 1\<rparr>)"
  define s2 where "s2 = fold sendAll (new_events ?enc sample_start a) (s1\<lparr>app := a\<rparr>)"
  have s1: "app s1 = sample_start" "m_connections s1 = {0}" "conns s1 0 = do_read (new_connection 0)" "events s1 = []"
    by (simp_all add: s1_def s0_def accept_done_def new_server_def do_accept_def manager_start_def)
  have "net_step sample_parser ?H ?R s0 s1"
    unfolding s1_def by (rule net_step.accepted) (simp add: s0_def new_server_def do_accept_def)
  moreover have "net_step sample_parser ?H ?R s1 s2"
    unfolding s2_def by (rule net_step.application) (simp add: s1(1) device_event.plugged [OF a(1)])
  ultimately have reach: "net_reachable sample_parser ?H ?R (new_server (server_start [sample_description] (\<lambda>_. device_blank 0 []) ([], []))) s2"
    unfolding sample_start_def [symmetric] s0_def [symmetric]
    by (rule net_reachable.step [OF net_reachable.step [OF net_reachable.start]])
  have s2: "0 \<in> m_connections s2" "app s2 = a" "posted (conns s2 0) = 1" "joined (conns s2 0) = 0"
    by (simp_all add: s2_def s1(2) new_events_def a(2) none sendAll_def s1(3) new_connection_def)
  from clients_served [OF reach ok s2(1) refl] have "reads (conns s2 0) = 1"
      "broadcasts (outgoings (conns s2 0)) = drop (joined (conns s2 0)) (map (\<lambda>n. ?enc (event_message n)) (notices (app s2)))"
    by simp_all
  with s2 a(2) show ?thesis by (intro exI [of _ s2]) simp
qed

end
