(* ===== verification/Json.thy ===== *)
theory Json
  imports Prelude Text_Order
begin

unbundle bit_operations_syntax

text \<open>
  JSON values (\<open>src/config/json11.hpp\<close>, \<open>json11.cpp\<close>): access, comparison, printing and the
  parser. Numbers are \<open>int\<close> or \<open>double\<close>; \<open>double\<close> with the functions of the C library on it is a
  parameter.
\<close>

section \<open>Values\<close>

text \<open>
  \<open>d_to_int\<close>: the conversion to \<open>int\<close>; \<open>d_print\<close>: \<open>printf\<close> with \<open>%.17g\<close>; \<open>d_strtod\<close>: \<open>strtod\<close> on a
  C string.
\<close>

record 'd doubles =
  d_zero :: 'd
  d_of_int :: "int \<Rightarrow> 'd"
  d_to_int :: "'d \<Rightarrow> int"
  d_print :: "'d \<Rightarrow> string"
  d_strtod :: "string \<Rightarrow> 'd"
  d_eq :: "'d \<Rightarrow> 'd \<Rightarrow> bool"
  d_less :: "'d \<Rightarrow> 'd \<Rightarrow> bool"

datatype json_type = NUL | NUMBER | BOOL | STRING | ARRAY | OBJECT

text \<open>A \<open>std::map\<close> is a list in the order of its keys.\<close>

datatype 'd json =
    JsonNull
  | JsonBoolean bool
  | JsonInt int
  | JsonDouble 'd
  | JsonString string
  | JsonArray "'d json list"
  | JsonObject "(string \<times> 'd json) list"

fun type_of :: "'d json \<Rightarrow> json_type" where
  "type_of JsonNull = NUL"
| "type_of (JsonBoolean b) = BOOL"
| "type_of (JsonInt n) = NUMBER"
| "type_of (JsonDouble d) = NUMBER"
| "type_of (JsonString s) = STRING"
| "type_of (JsonArray vs) = ARRAY"
| "type_of (JsonObject kvs) = OBJECT"

fun type_order :: "json_type \<Rightarrow> nat" where
  "type_order NUL = 0"
| "type_order NUMBER = 1"
| "type_order BOOL = 2"
| "type_order STRING = 3"
| "type_order ARRAY = 4"
| "type_order OBJECT = 5"

fun number_value :: "'d doubles \<Rightarrow> 'd json \<Rightarrow> 'd" where
  "number_value D (JsonInt n) = d_of_int D n"
| "number_value D (JsonDouble d) = d"
| "number_value D _ = d_zero D"

fun int_value :: "'d doubles \<Rightarrow> 'd json \<Rightarrow> int" where
  "int_value D (JsonInt n) = n"
| "int_value D (JsonDouble d) = d_to_int D d"
| "int_value D _ = 0"

fun bool_value :: "'d json \<Rightarrow> bool" where
  "bool_value (JsonBoolean b) = b"
| "bool_value _ = False"

fun string_value :: "'d json \<Rightarrow> string" where
  "string_value (JsonString s) = s"
| "string_value _ = []"

fun array_items :: "'d json \<Rightarrow> 'd json list" where
  "array_items (JsonArray vs) = vs"
| "array_items _ = []"

fun object_items :: "'d json \<Rightarrow> (string \<times> 'd json) list" where
  "object_items (JsonObject kvs) = kvs"
| "object_items _ = []"

fun item_at :: "'d json \<Rightarrow> nat \<Rightarrow> 'd json" where
  "item_at (JsonArray vs) i = (if i \<ge> length vs then JsonNull else vs ! i)"
| "item_at _ i = JsonNull"

fun item_of :: "'d json \<Rightarrow> string \<Rightarrow> 'd json" where
  "item_of (JsonObject kvs) k = (case map_of kvs k of None \<Rightarrow> JsonNull | Some v \<Rightarrow> v)"
| "item_of _ k = JsonNull"

section \<open>Comparison\<close>

text \<open>\<open>==\<close> of containers: element by element; the first list holds the tests for the elements.\<close>

fun all_equal :: "('a \<Rightarrow> bool) list \<Rightarrow> 'a list \<Rightarrow> bool" where
  "all_equal [] [] \<longleftrightarrow> True"
| "all_equal (f # fs) (b # bs) \<longleftrightarrow> f b \<and> all_equal fs bs"
| "all_equal _ _ \<longleftrightarrow> False"

primrec json_eq :: "'d doubles \<Rightarrow> 'd json \<Rightarrow> 'd json \<Rightarrow> bool" where
  "json_eq D JsonNull b \<longleftrightarrow> type_of b = NUL"
| "json_eq D (JsonBoolean a) b \<longleftrightarrow> type_of b = BOOL \<and> a = bool_value b"
| "json_eq D (JsonInt a) b \<longleftrightarrow> type_of b = NUMBER \<and> d_eq D (d_of_int D a) (number_value D b)"
| "json_eq D (JsonDouble a) b \<longleftrightarrow> type_of b = NUMBER \<and> d_eq D a (number_value D b)"
| "json_eq D (JsonString a) b \<longleftrightarrow> type_of b = STRING \<and> a = string_value b"
| "json_eq D (JsonArray as) b \<longleftrightarrow> type_of b = ARRAY \<and> all_equal (map (json_eq D) as) (array_items b)"
| "json_eq D (JsonObject as) b \<longleftrightarrow>
     type_of b = OBJECT \<and>
     all_equal (map (\<lambda>(k, f) (l, v). k = l \<and> f v) (map (map_prod id (json_eq D)) as)) (object_items b)"

text \<open>
  \<open><\<close>: the value \<open>json_order a b\<close> is the pair of \<open>a < b\<close> and \<open>b < a\<close>. Containers are compared
  lexicographically, pairs first by the key.
\<close>

fun lex_order :: "('a \<Rightarrow> bool \<times> bool) list \<Rightarrow> 'a list \<Rightarrow> bool \<times> bool" where
  "lex_order [] [] = (False, False)"
| "lex_order [] (b # bs) = (True, False)"
| "lex_order (f # fs) [] = (False, True)"
| "lex_order (f # fs) (b # bs) =
     (case f b of
        (True, _) \<Rightarrow> (True, False)
      | (False, True) \<Rightarrow> (False, True)
      | (False, False) \<Rightarrow> lex_order fs bs)"

definition entry_order :: "string \<times> ('a \<Rightarrow> bool \<times> bool) \<Rightarrow> string \<times> 'a \<Rightarrow> bool \<times> bool" where
  "entry_order = (\<lambda>(k, f) (l, v).
     if string_less k l then (True, False) else if string_less l k then (False, True) else f v)"

definition by_type :: "'d json \<Rightarrow> 'd json \<Rightarrow> bool \<times> bool \<Rightarrow> bool \<times> bool" where
  "by_type a b r =
     (if type_of a \<noteq> type_of b
      then (type_order (type_of a) < type_order (type_of b), type_order (type_of b) < type_order (type_of a)) else r)"

primrec json_order :: "'d doubles \<Rightarrow> 'd json \<Rightarrow> 'd json \<Rightarrow> bool \<times> bool" where
  "json_order D JsonNull b = by_type JsonNull b (False, False)"
| "json_order D (JsonBoolean a) b = by_type (JsonBoolean a) b (\<not> a \<and> bool_value b, a \<and> \<not> bool_value b)"
| "json_order D (JsonInt a) b =
     by_type (JsonInt a) b (d_less D (d_of_int D a) (number_value D b), d_less D (number_value D b) (d_of_int D a))"
| "json_order D (JsonDouble a) b =
     by_type (JsonDouble a) b (d_less D a (number_value D b), d_less D (number_value D b) a)"
| "json_order D (JsonString a) b =
     by_type (JsonString a) b (string_less a (string_value b), string_less (string_value b) a)"
| "json_order D (JsonArray as) b = by_type (JsonArray as) b (lex_order (map (json_order D) as) (array_items b))"
| "json_order D (JsonObject as) b =
     by_type (JsonObject as) b (lex_order (map entry_order (map (map_prod id (json_order D)) as)) (object_items b))"

definition json_less :: "'d doubles \<Rightarrow> 'd json \<Rightarrow> 'd json \<Rightarrow> bool" where
  "json_less D a b = fst (json_order D a b)"

section \<open>Printing\<close>

fun show_nat :: "nat \<Rightarrow> string" where
  "show_nat n = (if n < 10 then [char_of (48 + n)] else show_nat (n div 10) @ [char_of (48 + n mod 10)])"

declare show_nat.simps [simp del]

definition show_int :: "int \<Rightarrow> string" where
  "show_int n = (if n < 0 then CHR ''-'' # show_nat (nat (- n)) else show_nat (nat n))"

definition lower_hex :: "nat \<Rightarrow> char" where
  "lower_hex n = char_of (if n < 10 then 48 + n else 87 + n)"

abbreviation backslash :: char where "backslash \<equiv> CHR 0x5C"
abbreviation dquote :: char where "dquote \<equiv> CHR 0x22"

fun dump_chars :: "string \<Rightarrow> string" where
  "dump_chars [] = []"
| "dump_chars (ch # cs) =
     (if ch = backslash then [backslash, backslash] @ dump_chars cs
      else if ch = dquote then [backslash, dquote] @ dump_chars cs
      else if ch = CHR 0x08 then [backslash, CHR ''b''] @ dump_chars cs
      else if ch = CHR 0x0C then [backslash, CHR ''f''] @ dump_chars cs
      else if ch = CHR 0x0A then [backslash, CHR ''n''] @ dump_chars cs
      else if ch = CHR 0x0D then [backslash, CHR ''r''] @ dump_chars cs
      else if ch = CHR 0x09 then [backslash, CHR ''t''] @ dump_chars cs
      else if of_char ch \<le> (0x1f :: nat) then
        backslash # ''u00'' @ [lower_hex (of_char ch div 16), lower_hex (of_char ch mod 16)] @ dump_chars cs
      else
        (case cs of
           c1 # c2 # cs' \<Rightarrow>
             if ch = CHR 0xE2 \<and> c1 = CHR 0x80 \<and> c2 = CHR 0xA8 then backslash # ''u2028'' @ dump_chars cs'
             else if ch = CHR 0xE2 \<and> c1 = CHR 0x80 \<and> c2 = CHR 0xA9 then backslash # ''u2029'' @ dump_chars cs'
             else ch # dump_chars cs
         | _ \<Rightarrow> ch # dump_chars cs))"

definition dump_string :: "string \<Rightarrow> string" where
  "dump_string s = dquote # dump_chars s @ [dquote]"

fun join_items :: "bool \<Rightarrow> string list \<Rightarrow> string" where
  "join_items first [] = []"
| "join_items first (t # ts) = (if first then [] else '', '') @ t @ join_items False ts"

primrec dump :: "'d doubles \<Rightarrow> 'd json \<Rightarrow> string" where
  "dump D JsonNull = ''null''"
| "dump D (JsonBoolean b) = (if b then ''true'' else ''false'')"
| "dump D (JsonInt n) = show_int n"
| "dump D (JsonDouble d) = d_print D d"
| "dump D (JsonString s) = dump_string s"
| "dump D (JsonArray vs) = ''['' @ join_items True (map (dump D) vs) @ '']''"
| "dump D (JsonObject kvs) =
     ''{'' @ join_items True (map (\<lambda>(k, t). dump_string k @ '': '' @ t) (map (map_prod id (dump D)) kvs)) @ ''}''"

section \<open>The parser\<close>

text \<open>
  \<open>JsonParser\<close>: the position \<open>i\<close>, the error and whether parsing has failed; the text is passed
  along. A character past the end is the NUL of the string; the position never exceeds the length.
\<close>

record parser =
  pos :: nat
  p_err :: string
  p_failed :: bool

definition char_at :: "string \<Rightarrow> nat \<Rightarrow> char" where
  "char_at str i = (if i < length str then str ! i else CHR 0x00)"

definition fail :: "string \<Rightarrow> parser \<Rightarrow> parser" where
  "fail msg s = (if p_failed s then s else s\<lparr>p_err := msg, p_failed := True\<rparr>)"

definition signed_char :: "char \<Rightarrow> int" where
  "signed_char c = (if of_char c < (128 :: int) then of_char c else of_char c - 256)"

definition esc :: "char \<Rightarrow> string" where
  "esc c =
     (if 0x20 \<le> (of_char c :: nat) \<and> of_char c \<le> (0x7f :: nat) then [CHR 0x27, c, CHR 0x27] @ '' ('' @ show_int (signed_char c) @ '')''
      else ''('' @ show_int (signed_char c) @ '')'')"

definition in_range :: "int \<Rightarrow> int \<Rightarrow> int \<Rightarrow> bool" where
  "in_range x lower upper \<longleftrightarrow> x \<ge> lower \<and> x \<le> upper"

definition is_digit :: "char \<Rightarrow> bool" where
  "is_digit c \<longleftrightarrow> in_range (signed_char c) 48 57"

text \<open>Advance over the characters of a kind, none of which is NUL.\<close>

function skip :: "(char \<Rightarrow> bool) \<Rightarrow> string \<Rightarrow> nat \<Rightarrow> nat" where
  "skip p str i = (if i < length str \<and> p (char_at str i) then skip p str (i + 1) else i)"
  by pat_completeness auto
termination
  by (relation "measure (\<lambda>(p, str, i). length str - i)") auto

declare skip.simps [simp del]

definition is_white :: "char \<Rightarrow> bool" where
  "is_white c \<longleftrightarrow> c = CHR '' '' \<or> c = CHR 0x0D \<or> c = CHR 0x0A \<or> c = CHR 0x09"

definition consume_whitespace :: "string \<Rightarrow> parser \<Rightarrow> parser" where
  "consume_whitespace str s = s\<lparr>pos := skip is_white str (pos s)\<rparr>"

definition get_next_token :: "string \<Rightarrow> parser \<Rightarrow> char \<times> parser" where
  "get_next_token str s =
     (let s1 = consume_whitespace str s in
      if pos s1 = length str then (CHR 0x00, fail ''unexpected end of input'' s1)
      else (char_at str (pos s1), s1\<lparr>pos := pos s1 + 1\<rparr>))"

definition encode_utf8 :: "int \<Rightarrow> string" where
  "encode_utf8 pt =
     (if pt < 0 then []
      else if pt < 0x80 then [char_of pt]
      else if pt < 0x800 then [char_of (drop_bit 6 pt OR 0xC0), char_of ((pt AND 0x3F) OR 0x80)]
      else if pt < 0x10000 then
        [char_of (drop_bit 12 pt OR 0xE0), char_of ((drop_bit 6 pt AND 0x3F) OR 0x80), char_of ((pt AND 0x3F) OR 0x80)]
      else
        [char_of (drop_bit 18 pt OR 0xF0), char_of ((drop_bit 12 pt AND 0x3F) OR 0x80),
         char_of ((drop_bit 6 pt AND 0x3F) OR 0x80), char_of ((pt AND 0x3F) OR 0x80)])"

definition is_hex :: "char \<Rightarrow> bool" where
  "is_hex c \<longleftrightarrow> in_range (signed_char c) 97 102 \<or> in_range (signed_char c) 65 70 \<or> in_range (signed_char c) 48 57"

definition hex_digit_value :: "char \<Rightarrow> int" where
  "hex_digit_value c =
     (if of_char c \<le> (57 :: int) then of_char c - 48 else if of_char c \<le> (70 :: int) then of_char c - 55 else of_char c - 87)"

text \<open>\<open>strtol\<close> with base 16 on hexadecimal digits.\<close>

definition hex_text_value :: "string \<Rightarrow> int" where
  "hex_text_value = foldl (\<lambda>n c. 16 * n + hex_digit_value c) 0"

definition simple_escape :: "char \<Rightarrow> char option" where
  "simple_escape ch =
     (if ch = CHR ''b'' then Some (CHR 0x08)
      else if ch = CHR ''f'' then Some (CHR 0x0C)
      else if ch = CHR ''n'' then Some (CHR 0x0A)
      else if ch = CHR ''r'' then Some (CHR 0x0D)
      else if ch = CHR ''t'' then Some (CHR 0x09)
      else if ch = dquote \<or> ch = backslash \<or> ch = CHR ''/'' then Some ch
      else None)"

abbreviation bad_escape :: string where
  "bad_escape \<equiv> ''bad '' @ [backslash] @ ''u escape: ''"

function string_loop :: "string \<Rightarrow> int \<Rightarrow> string \<Rightarrow> parser \<Rightarrow> string \<times> parser" where
  "string_loop str last_cp out s =
     (if pos s \<ge> length str then ([], fail ''unexpected end of input in string'' s)
      else
        (let ch = char_at str (pos s); s1 = s\<lparr>pos := pos s + 1\<rparr> in
         if ch = dquote then (out @ encode_utf8 last_cp, s1)
         else if in_range (signed_char ch) 0 0x1f then ([], fail (''unescaped '' @ esc ch @ '' in string'') s1)
         else if ch \<noteq> backslash then string_loop str (-1) (out @ encode_utf8 last_cp @ [ch]) s1
         else if pos s1 \<ge> length str then ([], fail ''unexpected end of input in string'' s1)
         else
           (let ch = char_at str (pos s1); s2 = s1\<lparr>pos := pos s1 + 1\<rparr> in
            if ch = CHR ''u'' then
              (let code = take 4 (drop (pos s2) str) in
               if length code < 4 then ([], fail (bad_escape @ code) s2)
               else if \<not> list_all is_hex code then ([], fail (bad_escape @ code) s2)
               else
                 (let codepoint = hex_text_value code; s3 = s2\<lparr>pos := pos s2 + 4\<rparr> in
                  if in_range last_cp 0xD800 0xDBFF \<and> in_range codepoint 0xDC00 0xDFFF then
                    string_loop str (-1)
                      (out @ encode_utf8 ((push_bit 10 (last_cp - 0xD800) OR (codepoint - 0xDC00)) + 0x10000)) s3
                  else string_loop str codepoint (out @ encode_utf8 last_cp) s3))
            else
              (case simple_escape ch of
                 Some c \<Rightarrow> string_loop str (-1) (out @ encode_utf8 last_cp @ [c]) s2
               | None \<Rightarrow> ([], fail (''invalid escape character '' @ esc ch) s2)))))"
  by pat_completeness auto
termination
  by (relation "measure (\<lambda>(str, last_cp, out, s). length str - pos s)") auto

declare string_loop.simps [simp del]

definition parse_string :: "string \<Rightarrow> parser \<Rightarrow> string \<times> parser" where
  "parse_string str s = string_loop str (-1) [] s"

text \<open>\<open>atoi\<close> on a sign and digits; the C string ends at the first NUL.\<close>

definition digits_value :: "string \<Rightarrow> int" where
  "digits_value = foldl (\<lambda>n c. 10 * n + (of_char c - 48)) 0"

definition c_atoi :: "string \<Rightarrow> int" where
  "c_atoi t =
     (case t of
        [] \<Rightarrow> 0
      | c # cs \<Rightarrow> if c = CHR ''-'' then - digits_value (takeWhile is_digit cs) else digits_value (takeWhile is_digit t))"

definition c_text :: "string \<Rightarrow> string" where
  "c_text = takeWhile (\<lambda>c. c \<noteq> CHR 0x00)"

definition int_digits10 :: nat where
  "int_digits10 = 9"

text \<open>The parts of \<open>parse_number\<close>: the integer part, the fraction and the exponent.\<close>

definition scan_integer :: "string \<Rightarrow> nat \<Rightarrow> (string \<times> nat) + nat" where
  "scan_integer str i =
     (if char_at str i = CHR ''0'' then
        (if is_digit (char_at str (i + 1)) then Inl (''leading 0s not permitted in numbers'', i + 1) else Inr (i + 1))
      else if in_range (signed_char (char_at str i)) 49 57 then Inr (skip is_digit str (i + 1))
      else Inl (''invalid '' @ esc (char_at str i) @ '' in number'', i))"

definition scan_fraction :: "string \<Rightarrow> nat \<Rightarrow> (string \<times> nat) + nat" where
  "scan_fraction str i =
     (if char_at str i = CHR ''.'' then
        (if \<not> is_digit (char_at str (i + 1)) then Inl (''at least one digit required in fractional part'', i + 1)
         else Inr (skip is_digit str (i + 1)))
      else Inr i)"

definition scan_exponent :: "string \<Rightarrow> nat \<Rightarrow> (string \<times> nat) + nat" where
  "scan_exponent str i =
     (if char_at str i = CHR ''e'' \<or> char_at str i = CHR ''E'' then
        (let j = (if char_at str (i + 1) = CHR ''+'' \<or> char_at str (i + 1) = CHR ''-'' then i + 2 else i + 1) in
         if \<not> is_digit (char_at str j) then Inl (''at least one digit required in exponent'', j)
         else Inr (skip is_digit str j))
      else Inr i)"

definition parse_number :: "'d doubles \<Rightarrow> string \<Rightarrow> parser \<Rightarrow> 'd json \<times> parser" where
  "parse_number D str s =
     (let start_pos = pos s;
          i = (if char_at str start_pos = CHR ''-'' then start_pos + 1 else start_pos) in
      case scan_integer str i of
        Inl (e, k) \<Rightarrow> (JsonNull, fail e (s\<lparr>pos := k\<rparr>))
      | Inr j \<Rightarrow>
          if char_at str j \<noteq> CHR ''.'' \<and> char_at str j \<noteq> CHR ''e'' \<and> char_at str j \<noteq> CHR ''E'' \<and> j - start_pos \<le> int_digits10
          then (JsonInt (c_atoi (drop start_pos str)), s\<lparr>pos := j\<rparr>)
          else
            (case scan_fraction str j of
               Inl (e, k) \<Rightarrow> (JsonNull, fail e (s\<lparr>pos := k\<rparr>))
             | Inr k \<Rightarrow>
                 (case scan_exponent str k of
                    Inl (e, l) \<Rightarrow> (JsonNull, fail e (s\<lparr>pos := l\<rparr>))
                  | Inr l \<Rightarrow> (JsonDouble (d_strtod D (c_text (drop start_pos str))), s\<lparr>pos := l\<rparr>))))"

text \<open>\<open>expect\<close> starts at the character that was just read.\<close>

definition expect :: "string \<Rightarrow> string \<Rightarrow> 'd json \<Rightarrow> parser \<Rightarrow> 'd json \<times> parser" where
  "expect str expected res s =
     (let i = pos s - 1; found = take (length expected) (drop i str) in
      if found = expected then (res, s\<lparr>pos := i + length expected\<rparr>)
      else (JsonNull, fail (''parse error: expected '' @ expected @ '', got '' @ found) (s\<lparr>pos := i\<rparr>)))"

text \<open>\<open>data[key] = value\<close>.\<close>

fun map_assign :: "string \<Rightarrow> 'a \<Rightarrow> (string \<times> 'a) list \<Rightarrow> (string \<times> 'a) list" where
  "map_assign k v [] = [(k, v)]"
| "map_assign k v ((l, w) # m) =
     (if string_less k l then (k, v) # (l, w) # m
      else if k = l then (k, v) # m
      else (l, w) # map_assign k v m)"

text \<open>
  The loops over the elements; \<open>p\<close> parses one value, and a loop that does not end is \<open>None\<close>. \<open>ch\<close> is
  the character just read.
\<close>

partial_function (option) array_loop ::
  "(parser \<Rightarrow> ('d json \<times> parser) option) \<Rightarrow> string \<Rightarrow> 'd json list \<Rightarrow> parser \<Rightarrow> ('d json \<times> parser) option" where
  "array_loop p str data s =
     (case p (s\<lparr>pos := pos s - 1\<rparr>) of
        None \<Rightarrow> None
      | Some (v, s1) \<Rightarrow>
          if p_failed s1 then Some (JsonNull, s1)
          else
            (case get_next_token str s1 of
               (ch, s2) \<Rightarrow>
                 if ch = CHR '']'' then Some (JsonArray (data @ [v]), s2)
                 else if ch \<noteq> CHR '','' then Some (JsonNull, fail (''expected '' @ [CHR 0x27, CHR '','', CHR 0x27] @ '' in list, got '' @ esc ch) s2)
                 else array_loop p str (data @ [v]) (snd (get_next_token str s2))))"

partial_function (option) object_loop ::
  "(parser \<Rightarrow> ('d json \<times> parser) option) \<Rightarrow> string \<Rightarrow> (string \<times> 'd json) list \<Rightarrow> char \<Rightarrow> parser \<Rightarrow> ('d json \<times> parser) option" where
  "object_loop p str data ch s =
     (if ch \<noteq> dquote then Some (JsonNull, fail (''expected '' @ [CHR 0x27, dquote, CHR 0x27] @ '' in object, got '' @ esc ch) s)
      else
        (case parse_string str s of
           (key, s1) \<Rightarrow>
             if p_failed s1 then Some (JsonNull, s1)
             else
               (case get_next_token str s1 of
                  (ch, s2) \<Rightarrow>
                    if ch \<noteq> CHR '':'' then Some (JsonNull, fail (''expected '' @ [CHR 0x27, CHR '':'', CHR 0x27] @ '' in object, got '' @ esc ch) s2)
                    else
                      (case p s2 of
                         None \<Rightarrow> None
                       | Some (v, s3) \<Rightarrow>
                           if p_failed s3 then Some (JsonNull, s3)
                           else
                             (case get_next_token str s3 of
                                (ch, s4) \<Rightarrow>
                                  if ch = CHR ''}'' then Some (JsonObject (map_assign key v data), s4)
                                  else if ch \<noteq> CHR '','' then Some (JsonNull, fail (''expected '' @ [CHR 0x27, CHR '','', CHR 0x27] @ '' in object, got '' @ esc ch) s4)
                                  else
                                    (case get_next_token str s4 of
                                       (ch, s5) \<Rightarrow> object_loop p str (map_assign key v data) ch s5))))))"

declare array_loop.simps [code] object_loop.simps [code]

text \<open>
  \<open>parse_json\<close> at a depth, by the number of levels that are still allowed below it and itself,
  \<open>max_depth + 1 - depth\<close>.
\<close>

definition max_depth :: nat where
  "max_depth = 200"

fun parse_json :: "'d doubles \<Rightarrow> string \<Rightarrow> nat \<Rightarrow> parser \<Rightarrow> ('d json \<times> parser) option" where
  "parse_json D str 0 s = Some (JsonNull, fail ''exceeded maximum nesting depth'' s)"
| "parse_json D str (Suc left) s =
     (case get_next_token str s of
        (ch, s1) \<Rightarrow>
          if p_failed s1 then Some (JsonNull, s1)
          else if ch = CHR ''-'' \<or> is_digit ch then Some (parse_number D str (s1\<lparr>pos := pos s1 - 1\<rparr>))
          else if ch = CHR ''t'' then Some (expect str ''true'' (JsonBoolean True) s1)
          else if ch = CHR ''f'' then Some (expect str ''false'' (JsonBoolean False) s1)
          else if ch = CHR ''n'' then Some (expect str ''null'' JsonNull s1)
          else if ch = dquote then Some (case parse_string str s1 of (t, s2) \<Rightarrow> (JsonString t, s2))
          else if ch = CHR ''{'' then
            (case get_next_token str s1 of
               (ch, s2) \<Rightarrow>
                 if ch = CHR ''}'' then Some (JsonObject [], s2)
                 else object_loop (parse_json D str left) str [] ch s2)
          else if ch = CHR ''['' then
            (case get_next_token str s1 of
               (ch, s2) \<Rightarrow>
                 if ch = CHR '']'' then Some (JsonArray [], s2)
                 else array_loop (parse_json D str left) str [] s2)
          else Some (JsonNull, fail (''expected value, got '' @ esc ch) s1))"

text \<open>\<open>Json::parse\<close>: the value and the error, which is that of the caller when nothing fails.\<close>

definition json_parse :: "'d doubles \<Rightarrow> string \<Rightarrow> string \<Rightarrow> ('d json \<times> string) option" where
  "json_parse D str err0 =
     (case parse_json D str (max_depth + 1) \<lparr>pos = 0, p_err = err0, p_failed = False\<rparr> of
        None \<Rightarrow> None
      | Some (result, s) \<Rightarrow>
          (let s1 = consume_whitespace str s in
           if pos s1 \<noteq> length str
           then Some (JsonNull, p_err (fail (''unexpected trailing '' @ esc (char_at str (pos s1))) s1))
           else Some (result, p_err s1)))"

text \<open>The overload for C strings.\<close>

definition json_parse_c :: "'d doubles \<Rightarrow> string option \<Rightarrow> string \<Rightarrow> ('d json \<times> string) option" where
  "json_parse_c D t err0 = (case t of None \<Rightarrow> Some (JsonNull, ''null input'') | Some t \<Rightarrow> json_parse D (c_text t) err0)"

partial_function (option) multi_loop :: "'d doubles \<Rightarrow> string \<Rightarrow> 'd json list \<Rightarrow> parser \<Rightarrow> ('d json list \<times> string) option" where
  "multi_loop D str vs s =
     (if pos s \<noteq> length str \<and> \<not> p_failed s then
        (case parse_json D str (max_depth + 1) s of
           None \<Rightarrow> None
         | Some (v, s1) \<Rightarrow> multi_loop D str (vs @ [v]) (consume_whitespace str s1))
      else Some (vs, p_err s))"

definition parse_multi :: "'d doubles \<Rightarrow> string \<Rightarrow> string \<Rightarrow> ('d json list \<times> string) option" where
  "parse_multi D str err0 = multi_loop D str [] \<lparr>pos = 0, p_err = err0, p_failed = False\<rparr>"

section \<open>Shapes\<close>

fun has_fields :: "'d doubles \<Rightarrow> 'd json \<Rightarrow> (string \<times> json_type) list \<Rightarrow> string \<Rightarrow> bool \<times> string" where
  "has_fields D v [] err0 = (True, err0)"
| "has_fields D v ((k, t) # ts) err0 =
     (if type_of (item_of v k) \<noteq> t then (False, ''bad type for '' @ k @ '' in '' @ dump D v) else has_fields D v ts err0)"

definition has_shape :: "'d doubles \<Rightarrow> 'd json \<Rightarrow> (string \<times> json_type) list \<Rightarrow> string \<Rightarrow> bool \<times> string" where
  "has_shape D v types err0 =
     (if type_of v \<noteq> OBJECT then (False, ''expected JSON object, got '' @ dump D v) else has_fields D v types err0)"

end
