(* ===== verification/Json_Props.thy ===== *)
theory Json_Props
  imports Json
begin

text \<open>
  The JSON parser ends on every text: each step either fails or moves on inside the text, a failed
  parser stays failed, and the nesting is bounded.
\<close>

section \<open>Moving on\<close>

definition in_text :: "string \<Rightarrow> parser \<Rightarrow> bool" where
  "in_text str s \<longleftrightarrow> pos s \<le> length str"

text \<open>From \<open>s\<close> to \<open>s'\<close> the parser did not leave the text, and went forward by \<open>k\<close> unless it failed.\<close>

definition goes :: "nat \<Rightarrow> string \<Rightarrow> parser \<Rightarrow> parser \<Rightarrow> bool" where
  "goes k str s s' \<longleftrightarrow> in_text str s' \<and> (p_failed s \<longrightarrow> p_failed s') \<and> (p_failed s' \<or> pos s + k \<le> pos s')"

lemma goes_trans: "goes k str s s1 \<Longrightarrow> goes m str s1 s' \<Longrightarrow> n \<le> k + m \<Longrightarrow> goes n str s s'"
  by (auto simp: goes_def)

lemma goes_weaken: "goes k str s s' \<Longrightarrow> m \<le> k \<Longrightarrow> goes m str s s'"
  by (auto simp: goes_def)

lemma fail_simps [simp]: "pos (fail msg s) = pos s" "p_failed (fail msg s)"
  by (simp_all add: fail_def)

lemma goes_fail: "goes k str s s1 \<Longrightarrow> goes n str s (fail msg s1)"
  by (simp add: goes_def in_text_def)

lemma goes_refl: "in_text str s \<Longrightarrow> goes 0 str s s"
  by (simp add: goes_def)

lemma char_at_in: "char_at str i \<noteq> CHR 0x00 \<Longrightarrow> i < length str"
  by (auto simp: char_at_def split: if_splits)

lemma nul_not_digit [simp]: "\<not> is_digit (CHR 0x00)" "\<not> in_range (signed_char (CHR 0x00)) 49 57"
  by (simp_all add: is_digit_def in_range_def signed_char_def)

lemma digit_in_text: "is_digit (char_at str i) \<Longrightarrow> i < length str"
  using nul_not_digit(1) by (metis char_at_in)

lemma skip_bounds: "i \<le> length str \<Longrightarrow> i \<le> skip p str i \<and> skip p str i \<le> length str"
proof (induction p str i rule: skip.induct)
  case (1 p str i)
  then show ?case by (subst (1 2) skip.simps) auto
qed

section \<open>Tokens\<close>

lemma next_token_goes:
  assumes "in_text str s" and "get_next_token str s = (c, s')"
  shows "goes 1 str s s'"
  using assms skip_bounds [of "pos s" str is_white]
  by (auto simp: get_next_token_def consume_whitespace_def goes_def in_text_def Let_def split: if_splits)

lemma next_token_pos:
  assumes "in_text str s" and "get_next_token str s = (c, s')"
  shows "pos s \<le> pos s'" and "c \<noteq> CHR 0x00 \<Longrightarrow> 0 < pos s'"
  using assms skip_bounds [of "pos s" str is_white]
  by (auto simp: get_next_token_def consume_whitespace_def in_text_def Let_def split: if_splits)

lemma string_goes:
  assumes "in_text str s" and "string_loop str cp out s = (t, s')"
  shows "goes 0 str s s'"
  using assms
proof (induction "length str - pos s" arbitrary: cp out s rule: less_induct)
  case less
  have again: "goes 0 str s s'"
    if run: "string_loop str cp' o' (s\<lparr>pos := k\<rparr>) = (t, s')" and k: "pos s < k" "k \<le> length str" for cp' o' k
  proof -
    have "goes 0 str (s\<lparr>pos := k\<rparr>) s'"
      by (rule less.hyps [OF _ _ run]) (use k in \<open>simp_all add: in_text_def\<close>)
    then show ?thesis using k by (auto simp: goes_def)
  qed
  have stop: "goes 0 str s (fail m (s\<lparr>pos := k\<rparr>))" "goes 0 str s (s\<lparr>pos := Suc (pos s)\<rparr>)"
    if "k \<le> length str" "pos s < length str" for m k
    using that by (simp_all add: goes_def in_text_def)
  show ?case
  proof (cases "pos s < length str")
    case False
    then show ?thesis
      using less.prems by (subst (asm) string_loop.simps) (auto simp: goes_def in_text_def)
  next
    case True
    have four: "pos s + 6 \<le> length str" if "\<not> length (take 4 (drop (Suc (Suc (pos s))) str)) < 4"
      using that by simp
    show ?thesis
      using less.prems(2) True
      by (subst (asm) string_loop.simps)
        (auto simp: Let_def not_le split: if_splits option.splits intro!: stop elim!: again dest!: four)
  qed
qed

section \<open>Numbers and words\<close>

lemma scan_integer_bounds:
  assumes "i \<le> length str" and "scan_integer str i = res"
  shows "case res of Inl (e, k) \<Rightarrow> k \<le> length str | Inr j \<Rightarrow> i < j \<and> j \<le> length str"
proof -
  have "i < length str" if "in_range (signed_char (char_at str i)) 49 57 \<or> char_at str i = CHR ''0''"
    using that nul_not_digit(2) by (intro char_at_in) auto
  then show ?thesis
    using assms skip_bounds [of "i + 1" str is_digit] by (auto simp: scan_integer_def split: if_splits)
qed

lemma scan_fraction_bounds:
  assumes "i \<le> length str" and "scan_fraction str i = res"
  shows "case res of Inl (e, k) \<Rightarrow> k \<le> length str | Inr j \<Rightarrow> i \<le> j \<and> j \<le> length str"
  using assms char_at_in [of str i] skip_bounds [of "i + 1" str is_digit]
  by (auto simp: scan_fraction_def split: if_splits)

lemma scan_exponent_bounds:
  assumes "i \<le> length str" and "scan_exponent str i = res"
  shows "case res of Inl (e, k) \<Rightarrow> k \<le> length str | Inr j \<Rightarrow> i \<le> j \<and> j \<le> length str"
  using assms char_at_in [of str i] char_at_in [of str "i + 1"] skip_bounds [of "i + 1" str is_digit]
    skip_bounds [of "i + 2" str is_digit]
  by (auto simp: scan_exponent_def Let_def split: if_splits)

lemma number_goes:
  assumes "pos s < length str" and "parse_number D str s = (v, s')"
  shows "goes 1 str s s'"
proof -
  define i where "i = (if char_at str (pos s) = CHR ''-'' then pos s + 1 else pos s)"
  have i: "i \<le> length str" "pos s \<le> i" using assms(1) by (auto simp: i_def)
  show ?thesis
  proof (cases "scan_integer str i")
    case (Inl a)
    then show ?thesis
      using assms(2) scan_integer_bounds [OF i(1) Inl]
      by (auto simp: parse_number_def Let_def i_def [symmetric] goes_def in_text_def split: prod.splits)
  next
    case (Inr j)
    have j: "i < j" "j \<le> length str" using scan_integer_bounds [OF i(1) Inr] by simp_all
    show ?thesis
    proof (cases "scan_fraction str j")
      case (Inl a)
      then show ?thesis
        using assms(2) i j scan_fraction_bounds [OF j(2) Inl] \<open>scan_integer str i = Inr j\<close>
        by (auto simp: parse_number_def Let_def i_def [symmetric] goes_def in_text_def split: prod.splits if_splits)
    next
      case (Inr k)
      have k: "j \<le> k" "k \<le> length str" using scan_fraction_bounds [OF j(2) Inr] by simp_all
      show ?thesis
        using assms(2) i j k scan_exponent_bounds [OF k(2) refl] \<open>scan_integer str i = Inr j\<close> Inr
        by (auto simp: parse_number_def Let_def i_def [symmetric] goes_def in_text_def split: prod.splits if_splits sum.splits)
    qed
  qed
qed

lemma expect_goes:
  assumes "in_text str s" and "0 < pos s" and "w \<noteq> []" and "expect str w r s = (v, s')"
  shows "goes 1 str (s\<lparr>pos := pos s - 1\<rparr>) s'"
proof -
  have "pos s - 1 + length w \<le> length str" if "take (length w) (drop (pos s - 1) str) = w"
    using arg_cong [OF that, of length] assms(1-3) by (simp add: in_text_def min_def split: if_splits)
  then show ?thesis
    using assms by (cases w) (auto simp: expect_def Let_def goes_def in_text_def Suc_le_eq split: if_splits)
qed

section \<open>Loops\<close>

text \<open>A parser of one value that always returns, moving on or failing.\<close>

definition returns_value :: "string \<Rightarrow> (parser \<Rightarrow> ('d json \<times> parser) option) \<Rightarrow> bool" where
  "returns_value str p \<longleftrightarrow> (\<forall>s. in_text str s \<longrightarrow> (\<exists>v s'. p s = Some (v, s') \<and> goes 1 str s s'))"

lemma goes_on: "pos s \<le> pos s1 \<Longrightarrow> \<not> p_failed s \<Longrightarrow> goes 0 str s1 s' \<Longrightarrow> goes 0 str s s'"
  by (auto simp: goes_def)

text \<open>The measure of the loops: what is left of the text, and one more until the parser has failed.\<close>

definition left_over :: "string \<Rightarrow> parser \<Rightarrow> nat" where
  "left_over str s = length str - pos s + (if p_failed s then 0 else 1)"

lemma left_over_less:
  "goes 1 str s s1 \<Longrightarrow> \<not> p_failed s \<Longrightarrow> pos s \<le> pos s1 \<Longrightarrow> left_over str s1 < left_over str s"
  by (auto simp: goes_def left_over_def in_text_def)

lemma array_returns:
  assumes p: "returns_value str p"
  shows "in_text str s \<Longrightarrow> 0 < pos s \<Longrightarrow> \<exists>v s'. array_loop p str data s = Some (v, s') \<and> goes 0 str s s'"
proof (induction "left_over str s" arbitrary: s data rule: less_induct)
  case less
  have "in_text str (s\<lparr>pos := pos s - Suc 0\<rparr>)" using less.prems by (simp add: in_text_def)
  then obtain v s1 where 1: "p (s\<lparr>pos := pos s - Suc 0\<rparr>) = Some (v, s1)"
      and g: "goes 1 str (s\<lparr>pos := pos s - Suc 0\<rparr>) s1"
    using p unfolding returns_value_def by blast
  have g1: "goes 0 str s s1" using g less.prems by (auto simp: goes_def)
  obtain c2 s2 where 2: "get_next_token str s1 = (c2, s2)" by fastforce
  obtain c3 s3 where 3: "get_next_token str s2 = (c3, s3)" by fastforce
  have in1: "in_text str s1" using g1 by (simp add: goes_def)
  have g2: "goes 1 str s s2" using goes_trans [OF g1 next_token_goes [OF in1 2]] by simp
  have in2: "in_text str s2" using g2 by (simp add: goes_def)
  have g3: "goes 2 str s s3" using goes_trans [OF g2 next_token_goes [OF in2 3]] by simp
  have ret: "goes 0 str s s2" "goes 0 str s (fail m s2)" for m
    using goes_weaken [OF g2] goes_fail [OF g2] by auto
  show ?case
  proof (cases "p_failed s1 \<or> c2 \<noteq> CHR '',''")
    case True
    then show ?thesis
      using g1 ret by (subst array_loop.simps) (auto simp: 1 2)
  next
    case False
    have ok: "\<not> p_failed s" using g1 False by (auto simp: goes_def)
    have "pos s \<le> pos s1" using g1 False by (auto simp: goes_def)
    also have "\<dots> \<le> pos s2" by (rule next_token_pos(1) [OF in1 2])
    also have "\<dots> \<le> pos s3" by (rule next_token_pos(1) [OF in2 3])
    finally have le: "pos s \<le> pos s3" .
    obtain w s' where "array_loop p str (data @ [v]) s3 = Some (w, s')" "goes 0 str s3 s'"
      using less.hyps [OF left_over_less [OF goes_weaken [OF g3] ok le], of "data @ [v]"] le less.prems g3
      by (auto simp: goes_def)
    then show ?thesis
      using goes_on [OF le ok] False by (subst array_loop.simps) (auto simp: 1 2 3)
  qed
qed

lemma object_returns:
  assumes p: "returns_value str p"
  shows "in_text str s \<Longrightarrow> \<exists>v s'. object_loop p str data ch s = Some (v, s') \<and> goes 0 str s s'"
proof (induction "left_over str s" arbitrary: s data ch rule: less_induct)
  case less
  obtain key s1 where 1: "parse_string str s = (key, s1)" by fastforce
  have g1: "goes 0 str s s1" using string_goes [OF less.prems 1 [unfolded parse_string_def]] .
  then have in1: "in_text str s1" by (simp add: goes_def)
  obtain c2 s2 where 2: "get_next_token str s1 = (c2, s2)" by fastforce
  have g2: "goes 1 str s s2" using goes_trans [OF g1 next_token_goes [OF in1 2]] by simp
  then have in2: "in_text str s2" by (simp add: goes_def)
  obtain v s3 where 3: "p s2 = Some (v, s3)" and "goes 1 str s2 s3"
    using p in2 unfolding returns_value_def by blast
  then have g3: "goes 2 str s s3" using goes_trans [OF g2] by simp
  then have in3: "in_text str s3" by (simp add: goes_def)
  obtain c4 s4 where 4: "get_next_token str s3 = (c4, s4)" by fastforce
  have g4: "goes 3 str s s4" using goes_trans [OF g3 next_token_goes [OF in3 4]] by simp
  then have in4: "in_text str s4" by (simp add: goes_def)
  obtain c5 s5 where 5: "get_next_token str s4 = (c5, s5)" by fastforce
  have g5: "goes 4 str s s5" using goes_trans [OF g4 next_token_goes [OF in4 5]] by simp
  have ret: "goes 0 str s s1" "goes 0 str s (fail m s)" "goes 0 str s (fail m s2)" "goes 0 str s s3"
      "goes 0 str s s4" "goes 0 str s (fail m s4)" for m
    using g1 goes_weaken [OF g3] goes_weaken [OF g4] goes_fail [OF g2] goes_fail [OF g4]
      goes_fail [OF goes_refl [OF less.prems]] by auto
  show ?case
  proof (cases "ch \<noteq> dquote \<or> p_failed s1 \<or> c2 \<noteq> CHR '':'' \<or> p_failed s3 \<or> c4 \<noteq> CHR '',''")
    case True
    then show ?thesis
      using ret by (subst object_loop.simps) (auto simp: 1 2 3 4)
  next
    case False
    have ok: "\<not> p_failed s" using g1 False by (auto simp: goes_def)
    have "pos s \<le> pos s3" using g3 False by (auto simp: goes_def)
    also have "\<dots> \<le> pos s4" by (rule next_token_pos(1) [OF in3 4])
    also have "\<dots> \<le> pos s5" by (rule next_token_pos(1) [OF in4 5])
    finally have le: "pos s \<le> pos s5" .
    obtain w s' where "object_loop p str (map_assign key v data) c5 s5 = Some (w, s')" "goes 0 str s5 s'"
      using less.hyps [OF left_over_less [OF goes_weaken [OF g5] ok le], of "map_assign key v data" c5] g5
      by (auto simp: goes_def)
    then show ?thesis
      using goes_on [OF le ok] False by (subst object_loop.simps) (auto simp: 1 2 3 4 5)
  qed
qed

lemma parse_json_returns: "returns_value str (parse_json D str n)"
proof (induction n)
  case 0
  then show ?case by (simp add: returns_value_def goes_def in_text_def)
next
  case (Suc n)
  show ?case
    unfolding returns_value_def
  proof (intro allI impI)
    fix s assume s: "in_text str s"
    obtain c s1 where 1: "get_next_token str s = (c, s1)" by fastforce
    have g1: "goes 1 str s s1" using next_token_goes [OF s 1] .
    then have in1: "in_text str s1" by (simp add: goes_def)
    obtain c2 s2 where 2: "get_next_token str s1 = (c2, s2)" by fastforce
    have g2: "goes 2 str s s2" using goes_trans [OF g1 next_token_goes [OF in1 2]] by simp
    then have in2: "in_text str s2" by (simp add: goes_def)
    show "\<exists>v s'. parse_json D str (Suc n) s = Some (v, s') \<and> goes 1 str s s'"
    proof (cases "p_failed s1")
      case True
      then show ?thesis using g1 by (simp add: 1)
    next
      case ok: False
      have sok: "\<not> p_failed s" and step: "pos s + 1 \<le> pos s1" using g1 ok by (auto simp: goes_def)
      have nxt: "goes 1 str s s'" if "goes 0 str s1 s' \<or> goes 0 str s2 s' \<or> goes 1 str (s1\<lparr>pos := pos s1 - 1\<rparr>) s'" for s'
        using that goes_trans [OF g1, of 0 s' 1] goes_trans [OF g2, of 0 s' 1] step ok sok by (auto simp: goes_def)
      have word: "\<exists>v s'. expect str w r s1 = (v, s') \<and> goes 1 str s s'" if "w \<noteq> []" for w r
        using expect_goes [OF in1 _ that] step nxt by (cases "expect str w r s1") auto
      have number: "\<exists>v s'. parse_number D str (s1\<lparr>pos := pos s1 - 1\<rparr>) = (v, s') \<and> goes 1 str s s'"
        using number_goes [of "s1\<lparr>pos := pos s1 - 1\<rparr>" str D] step in1 nxt
        by (cases "parse_number D str (s1\<lparr>pos := pos s1 - 1\<rparr>)") (auto simp: in_text_def)
      obtain t s3 where str1: "parse_string str s1 = (t, s3)" by fastforce
      have quoted: "goes 1 str s s3" using string_goes [OF in1 str1 [unfolded parse_string_def]] nxt by blast
      have empty: "goes 1 str s s2" and bad: "goes 1 str s (fail m s1)" for m
        using goes_weaken [OF g2] goes_fail [OF g1] by auto
      have "0 < pos s2" using next_token_pos(1) [OF in1 2] step by linarith
      then have array: "\<exists>v s'. array_loop (parse_json D str n) str [] s2 = Some (v, s') \<and> goes 1 str s s'"
        using array_returns [OF Suc.IH in2] nxt by blast
      have object: "\<exists>v s'. object_loop (parse_json D str n) str [] c2 s2 = Some (v, s') \<and> goes 1 str s s'"
        using object_returns [OF Suc.IH in2] nxt by blast
      consider "c = CHR ''-'' \<or> is_digit c" | "c = CHR ''t'' \<or> c = CHR ''f'' \<or> c = CHR ''n''" | "c = dquote"
        | "c = CHR ''{''" | "c = CHR ''[''" | "\<not> (c = CHR ''-'' \<or> is_digit c)"
          "c \<notin> {CHR ''t'', CHR ''f'', CHR ''n'', dquote, CHR ''{'', CHR ''[''}"
        by blast
      then show ?thesis
      proof cases
        case 1
        then show ?thesis using number ok \<open>get_next_token str s = (c, s1)\<close> by simp
      next
        case 2
        then show ?thesis
          using word [of "''true''" "JsonBoolean True"] word [of "''false''" "JsonBoolean False"]
            word [of "''null''" JsonNull] ok \<open>get_next_token str s = (c, s1)\<close>
          by (auto simp: is_digit_def in_range_def signed_char_def)
      next
        case 3
        then show ?thesis
          using quoted ok str1 \<open>get_next_token str s = (c, s1)\<close> by (simp add: is_digit_def in_range_def signed_char_def)
      next
        case 4
        then show ?thesis
          using object empty ok \<open>get_next_token str s1 = (c2, s2)\<close> \<open>get_next_token str s = (c, s1)\<close>
          by (simp add: is_digit_def in_range_def signed_char_def)
      next
        case 5
        then show ?thesis
          using array empty ok \<open>get_next_token str s1 = (c2, s2)\<close> \<open>get_next_token str s = (c, s1)\<close>
          by (simp add: is_digit_def in_range_def signed_char_def)
      next
        case 6
        then show ?thesis using bad ok \<open>get_next_token str s = (c, s1)\<close> by simp
      qed
    qed
  qed
qed

lemma json_parse_returns: "\<exists>v err. json_parse D str err0 = Some (v, err)"
proof -
  obtain v s where "parse_json D str (max_depth + 1) \<lparr>pos = 0, p_err = err0, p_failed = False\<rparr> = Some (v, s)"
    using parse_json_returns [of str D "max_depth + 1"] unfolding returns_value_def
    by (metis in_text_def le0 parser.select_convs(1))
  then show ?thesis by (simp add: json_parse_def Let_def)
qed

end
