(* ===== verification/Config.thy ===== *)
theory Config
  imports Json_Props Manager
begin

text \<open>
  The configuration (\<open>src/config/Config.cpp\<close>): the descriptions of the devices and the port, taken
  from a JSON file. The file has a fixed name; the argument of \<open>fromFile\<close> is not used.
\<close>

record config =
  device_descriptions :: "device_description list"
  port :: int

text \<open>A value of the watch list: the \<open>int\<close>s are cut to the bytes of \<open>addr_port_t\<close>.\<close>

definition watch_item :: "'d doubles \<Rightarrow> 'd json \<Rightarrow> addr_port_t" where
  "watch_item D v = (word_of_int (int_value D (item_at v 0)), word_of_int (int_value D (item_at v 1)))"

definition read_description :: "'d doubles \<Rightarrow> 'd json \<Rightarrow> device_description" where
  "read_description D item =
     \<lparr>desc_name = string_value (item_of item ''name''), serial_prefix = string_value (item_of item ''prefix''),
      fname_bitfile = string_value (item_of item ''bitfile''),
      watchlist = map (watch_item D) (array_items (item_of item ''watchlist''))\<rparr>"

definition read_config :: "'d doubles \<Rightarrow> 'd json \<Rightarrow> config" where
  "read_config D root =
     \<lparr>device_descriptions = map (read_description D) (array_items (item_of root ''DeviceDescriptions'')),
      port = int_value D (item_of (item_of root ''Server'') ''port'')\<rparr>"

text \<open>A file that cannot be opened reads as empty.\<close>

definition fromFile :: "'d doubles \<Rightarrow> (string \<Rightarrow> string option) \<Rightarrow> string \<Rightarrow> config outcome" where
  "fromFile D fs fname =
     (case json_parse_c D (Some (case fs ''config.json'' of None \<Rightarrow> '''' | Some t \<Rightarrow> t)) '''' of
        None \<Rightarrow> Hangs
      | Some (root, err) \<Rightarrow>
          if err \<noteq> '''' then Throws (''Error reading configuration ('' @ err @ '')'')
          else Ret (read_config D root))"

lemma skip_nothing [simp]: "skip p [] 0 = 0"
  by (subst skip.simps) simp

lemma parse_empty: "json_parse D '''' '''' = Some (JsonNull, ''unexpected end of input'')"
  by (simp add: json_parse_def get_next_token_def consume_whitespace_def fail_def eval_nat_numeral max_depth_def Let_def)

text \<open>C40: Reading the configuration ends, for every content of the file: the parser returns, and either
  it reports no error and \<open>fromFile\<close> returns what the parsed value says, or it reports one and
  \<open>fromFile\<close> throws it. The name given does not matter; a file that cannot be opened is an error.\<close>

theorem fromFile_ends:
  "(\<exists>root err.
      json_parse D (c_text (case fs ''config.json'' of None \<Rightarrow> '''' | Some t \<Rightarrow> t)) '''' = Some (root, err) \<and>
      fromFile D fs fname =
        (if err = '''' then Ret (read_config D root)
         else Throws (''Error reading configuration ('' @ err @ '')''))) \<and>
    fromFile D (fs(''config.json'' := None)) fname =
      Throws ''Error reading configuration (unexpected end of input)''"
proof -
  obtain root err where
    "json_parse D (c_text (case fs ''config.json'' of None \<Rightarrow> '''' | Some t \<Rightarrow> t)) '''' = Some (root, err)"
    using json_parse_returns by blast
  then show ?thesis
    by (simp add: fromFile_def json_parse_c_def parse_empty c_text_def)
qed

text \<open>A configuration, on integers for \<open>double\<close>; the port 300 of the watch list is cut to a byte.\<close>

definition int_doubles :: "int doubles" where
  "int_doubles = \<lparr>d_zero = 0, d_of_int = id, d_to_int = id, d_print = show_int, d_strtod = c_atoi,
     d_eq = (=), d_less = (<)\<rparr>"

definition in_quotes :: "string \<Rightarrow> string" where
  "in_quotes t = dquote # t @ [dquote]"

definition sample_config :: string where
  "sample_config = ''{'' @ in_quotes ''DeviceDescriptions'' @ '': [{'' @ in_quotes ''name'' @ '':'' @ in_quotes ''GPUB'' @ '', ''
     @ in_quotes ''watchlist'' @ '': [[1, 300]]}], '' @ in_quotes ''Server'' @ '': {'' @ in_quotes ''port'' @ '': 9002}}''"

lemma sample_config_read:
  "fromFile int_doubles (\<lambda>_. Some sample_config) ''other.json'' =
     Ret \<lparr>device_descriptions = [\<lparr>desc_name = ''GPUB'', serial_prefix = '''', fname_bitfile = '''', watchlist = [(1, 44)]\<rparr>],
        port = 9002\<rparr>"
  by code_simp
end
