(* ===== verification/Spec2Isabelle.thy ===== *)
theory Spec2Isabelle
  imports Ftdi_Api Ftdi_Eeprom_Roundtrip Jtag_Ftdi Ioftdi_Props Bitfile_Text Programmer_Props Device_Open
    Server_Net Config
begin

text \<open>
  A verification library of fpga-device-server, a server that gives network clients access to
  FPGA boards behind FTDI USB chips. This theory only collects the others; each property is in the
  theory of the last part it needs, after a text block with its number (C1, C2, ...).

  \<^bold>\<open>The program.\<close> \<open>src/fpga-device-server.cpp\<close> reads \<open>config.json\<close>, watches the USB bus and
  listens on a TCP port. A board whose description and serial number match the configuration is
  opened by the device manager: its FPGA is configured over JTAG with a bit file (channel A of the
  FTDI chip, as a JTAG cable), then channel A becomes a FIFO for register accesses. Clients send
  msgpack requests (list devices, read and write registers, reprogram) and receive one reply for
  each; all clients are notified of added and removed boards and of changed registers on the watch
  list. Below everything lies a copy of libftdi, which talks to libusb.

  \<^bold>\<open>How code is modelled.\<close> \<open>Prelude\<close> has the machine types of the sources (\<open>byte\<close>, \<open>u16\<close>, \<open>u32\<close>,
  \<open>i32\<close>), the memory primitives, byte orders, \<open>wrap32\<close> (an \<open>int\<close> result cut to 32 bits, as the
  hardware does; the properties state the range in which nothing is cut) and \<open>outcome\<close>: an
  operation returns a value (\<open>Ret\<close>), throws (\<open>Throws\<close>), makes an access outside of its memory
  (\<open>Crashes\<close>) or does not return (\<open>Hangs\<close>). \<open>Cpp\<close> sequences such operations on a state. C functions
  take and return their context as a record; a return code is an \<open>int\<close>, as in C. Loops are recursive
  functions with their termination proof. The loops that need not end are partial functions whose
  value \<open>None\<close> is not returning, and the properties prove that they return.

  \<^bold>\<open>libftdi\<close> (\<open>src/libftdi/ftdi.c\<close>, \<open>ftdi.h\<close>, \<open>ftdi_i.h\<close>). libusb is a parameter, the record
  \<open>libusb\<close> of \<open>Ftdi_Types\<close>, one function per call used, on an arbitrary state of the bus.
    \<^item> \<open>Ftdi_Types\<close>: the enumerations, \<open>struct ftdi_context\<close> and \<open>struct ftdi_eeprom\<close> as records.
    \<^item> \<open>Ftdi_Control\<close>: creation, release and the operations that are one control transfer each. What
      requests encode, in which order purges are made (C12 to C14).
    \<^item> \<open>Ftdi_Data\<close>: \<open>ftdi_write_data\<close> and \<open>ftdi_read_data\<close>. The loops are related to the list of
      transfers made: reads are the payload stream without the two status bytes of each packet (C1,
      C4), writes are the buffer in chunks (C5). \<open>write_loop\<close> reads the \<open>unsigned\<close> chunk size as an
      \<open>int\<close>, as the code does; C5 holds for chunk size and length together below 2^31, C17 shows that
      chunk size 0 does not return.
    \<^item> \<open>Ftdi_Baud\<close>: choice and encoding of the divisor, against the decoding of the device (C9, C10).
      \<open>baudrate * 10\<close> is an \<open>int\<close>: C9 ends at 214748364 Baud, where it overflows.
    \<^item> \<open>Ftdi_Open\<close>, \<open>Ftdi_Open_String\<close>: enumeration, opening by interface, by ids and strings, by a
      description string (C11).
    \<^item> \<open>Ftdi_Eeprom_Values\<close>, \<open>Ftdi_Eeprom_Image\<close>, \<open>Ftdi_Eeprom_Roundtrip\<close>, \<open>Ftdi_Eeprom_Io\<close>: the
      settings, the image of 256 bytes that \<open>ftdi_eeprom_build\<close> makes and \<open>ftdi_eeprom_decode\<close> reads,
      and its transfer word by word to a serial EEPROM (C3, C6 to C8, C15, C16).
    \<^item> \<open>Ftdi_Api\<close>: a step relation with every synchronous call of the library, the phases of a
      context (initialised, uninitialised after \<open>ftdi_deinit\<close> or a failed \<open>ftdi_init\<close>, freed) and the
      invariant of each phase (C2).

  \<^bold>\<open>JTAG\<close> (\<open>src/devices/xc3sprog/\<close>).
    \<^item> \<open>Iobase\<close> (\<open>iobase.cpp\<close>): the buffer of TMS values and the shifts, over a record \<open>cable\<close> of the
      virtual functions. \<open>Jtag\<close> (\<open>jtag.cpp\<close>): the chain, the tracked TAP state, the shifts; a walk of
      the TAP controller takes at most 16 rounds, which is its measure.
    \<^item> \<open>Ioftdi\<close> (\<open>ioftdi.cpp\<close>): the cable on an FTDI chip, as command bytes in a buffer of 4096. The
      1000 retries of a read are the code's.
    \<^item> \<open>Tap\<close> and \<open>Mpsse\<close> are specifications: the TAP controller of IEEE 1149.1 and the clock cycles
      that a stream of command bytes makes.
    \<^item> \<open>Cable\<close> states what a cable owes the layers above as the locale \<open>jtag_cable\<close>: the clock cycles
      of each virtual function. \<open>Jtag_Tap\<close> proves the JTAG layer in it, \<open>Ioftdi_Clocks\<close> that
      \<open>ioftdi.cpp\<close> keeps it. \<open>Jtag_Live\<close> and \<open>Ioftdi_Live\<close> do the same for \<open>live_cable\<close>, a cable
      whose writes return, \<open>Progalg_Live\<close> and \<open>Ioftdi_Answers\<close> for \<open>answering_cable\<close>, one that also
      reads. \<open>Jtag_Session\<close> is the step relation of a program using \<open>Jtag\<close>. \<open>Jtag_Ftdi\<close> states the
      results without the locales (C18 to C21), \<open>Ioftdi_Bounds\<close> the safety of the buffer (C22),
      \<open>Ioftdi_Props\<close> the rest (C23 to C27).
    \<^item> The results about clocks need a chip with the 30 MHz clock (\<open>device_has_fast_clock\<close>), which
      each of them names: without it \<open>Usleep\<close> queues one byte of a command of three (C25).
    \<^item> \<open>Bitrev\<close>, \<open>Stdio\<close>, \<open>Bitfile\<close>, \<open>Bitfile_Props\<close>, \<open>Bitfile_Text\<close> (\<open>bitrev.cpp\<close>, \<open>bitfile.cpp\<close>): the
      file formats; which bit files are accepted, and round trips of saving and loading (C28 to C30).
      Files are lists of bytes; what uninitialised memory holds is a parameter.
    \<^item> \<open>Progalg\<close> (\<open>progalgxc3s.cpp\<close>), \<open>Programmer\<close> (\<open>src/devices/DeviceProgrammer.cpp\<close>): configuring a
      chip. \<open>Chip\<close> reads the instructions and data off the wires; \<open>Progalg_Props\<close> and
      \<open>Programmer_Props\<close> prove that the chip receives the configuration sequence with the data of the
      bit file, that programming ends when the chip answers (the loop \<open>wait_clear\<close> has no bound in
      the code, \<open>wait_done\<close> has 50 polls) and what is rejected (C31 to C33).

  \<^bold>\<open>The server.\<close>
    \<^item> \<open>Device\<close> (\<open>src/devices/Device.cpp\<close>): opening, raw and register transfers, polling; the 100
      rounds of waiting for bytes are the code's. \<open>Device_Props\<close> decodes the bytes sent into requests,
      \<open>Device_Session\<close> runs operations against a board that answers in order (C34) and shows where the
      values of a poll come from (C35), \<open>Device_Open\<close> what opening leaves (C36).
    \<^item> \<open>Manager\<close>, \<open>Manager_Props\<close> (\<open>src/devices/DeviceManager.cpp\<close>): the maps of the devices, adding,
      removing, polling, reprogramming, and the notices. \<open>Text_Order\<close> is the order of their keys.
    \<^item> \<open>Rpc\<close>, \<open>Rpc_Props\<close> (\<open>src/DeviceRequestHandler.cpp\<close>): the commands. msgpack's conversions are a
      parameter, a reply is the sequence of calls of the packer. \<open>server_step\<close> has the events of the
      server as steps (C37, C38).
    \<^item> \<open>Network\<close>, \<open>Network_Props\<close> (\<open>src/network/\<close>): connections with their queues, the handlers of the
      event loop as the step relation \<open>net_step\<close>, over the locale \<open>request_handler\<close>. msgpack's parser
      is a parameter; messages end at 10 MB, as in the code. \<open>Server_Net\<close> interprets the locale on
      \<open>Rpc\<close>, with the callbacks that \<open>main\<close> sets (C39).
    \<^item> \<open>Json\<close>, \<open>Json_Props\<close>, \<open>Config\<close> (\<open>src/config/\<close>): json11 with its limit of 200 nested values, and
      reading the configuration. The operations on \<open>double\<close> are the parameter \<open>doubles\<close>. The parser
      ends on every text, since each round of its loops fails or moves on (C40).

  \<^bold>\<open>Not modelled.\<close> The asynchronous transfers of libftdi and \<open>ftdi_stream.c\<close>: callbacks of libusb's
  event loop that the server never uses. \<open>src/libusb_asio/\<close>: glue between libusb's descriptors and
  Boost.Asio; what it delivers are steps of \<open>server_step\<close>. Messages to the console and to
  \<open>stderr\<close>, sleeping, signals, the limits of memory, the Python client, and the branch of
  \<open>ioftdi.cpp\<close> for the library FTD2XX. Boost's sockets and timers are the environment: an event can
  come at any time the code has asked for it.
\<close>

end
